(* ===== verification/Prelude.thy ===== *)
theory Prelude
  imports Complex_Main "HOL-Library.Word"
begin

unbundle bit_operations_syntax

text \<open>
  The prelude of the development: byte strings, the results of Python code
  (a value, an exception, or waiting for input that does not come), the sequencing and
  exception handling of such code, and the little-endian integers of Python's
  \<open>struct\<close> module.  Everything here is generic; the program starts in Errors and Types.
\<close>

named_theorems outcome_simps \<open>evaluation of sequenced and guarded code\<close>
named_theorems le_simps \<open>little-endian integers\<close>

section \<open>Byte strings\<close>

type_synonym byte = "8 word"
type_synonym bytes = "byte list"

definition slice :: "nat \<Rightarrow> nat \<Rightarrow> 'a list \<Rightarrow> 'a list" where
  "slice i j xs = take (j - i) (drop i xs)"

text \<open>\<open>xs[i:j]\<close> of Python for \<open>0 \<le> i \<le> j\<close>: out of range bounds are clipped.\<close>

lemma length_slice: "length (slice i j xs) = min (j - i) (length xs - i)"
  by (simp add: slice_def min_def)

lemma slice_append_left: "j \<le> length xs \<Longrightarrow> slice i j (xs @ ys) = slice i j xs"
  by (simp add: slice_def)

lemma slice_append_right:
  "length xs \<le> i \<Longrightarrow> slice i j (xs @ ys) = slice (i - length xs) (j - length xs) ys"
  by (simp add: slice_def)

lemma slice_full: "length xs \<le> j \<Longrightarrow> slice 0 j xs = xs"
  by (simp add: slice_def)

lemma slice_0: "slice 0 j xs = take j xs"
  by (simp add: slice_def)

text \<open>ASCII literals of the source (\<open>b"usmp-v2"\<close>) and \<open>str.encode()\<close> on ASCII text.\<close>

definition ascii :: "string \<Rightarrow> bytes" where
  "ascii s = map (\<lambda>c. of_char c) s"

lemma length_ascii [simp]: "length (ascii s) = length s"
  by (simp add: ascii_def)

section \<open>Results of fallible code\<close>

text \<open>Fallible pure code: the exception or the value; \<open>bindE\<close> stops at the first exception.\<close>

definition bindE :: "'e + 'a \<Rightarrow> ('a \<Rightarrow> 'e + 'b) \<Rightarrow> 'e + 'b" where
  "bindE m f = (case m of Inl e \<Rightarrow> Inl e | Inr x \<Rightarrow> f x)"

lemma bindE_simps [simp, outcome_simps]:
  "bindE (Inl e) f = Inl e"
  "bindE (Inr x) f = f x"
  by (simp_all add: bindE_def)

lemma bindE_Inr: "bindE m f = Inr y \<longleftrightarrow> (\<exists>x. m = Inr x \<and> f x = Inr y)"
  by (cases m) simp_all

lemma bindE_Inl: "bindE m f = Inl e \<longleftrightarrow> m = Inl e \<or> (\<exists>x. m = Inr x \<and> f x = Inl e)"
  by (cases m) simp_all

definition raise_if :: "bool \<Rightarrow> 'e \<Rightarrow> 'e + 'a \<Rightarrow> 'e + 'a" where
  "raise_if b e m = (if b then Inl e else m)"

lemma raise_if_simps [simp, outcome_simps]:
  "raise_if True e m = Inl e"
  "raise_if False e m = m"
  by (simp_all add: raise_if_def)

text \<open>
  Coroutines: a step of a coroutine on a state returns a value, raises, or is blocked: it
  awaits input that the environment never delivers.  The state is kept in all three cases,
  since a raise does not undo assignments.
\<close>

datatype ('e, 'a) outcome = Ret 'a | Raise 'e | Blocked

type_synonym ('s, 'e, 'a) io = "'s \<Rightarrow> ('e, 'a) outcome \<times> 's"

definition ret :: "'a \<Rightarrow> ('s, 'e, 'a) io" where
  "ret x s = (Ret x, s)"

definition throw :: "'e \<Rightarrow> ('s, 'e, 'a) io" where
  "throw e s = (Raise e, s)"

definition bind_io :: "('s, 'e, 'a) io \<Rightarrow> ('a \<Rightarrow> ('s, 'e, 'b) io) \<Rightarrow> ('s, 'e, 'b) io" where
  "bind_io m f s =
     (case m s of
        (Ret x, s') \<Rightarrow> f x s'
      | (Raise e, s') \<Rightarrow> (Raise e, s')
      | (Blocked, s') \<Rightarrow> (Blocked, s'))"

definition catch_io :: "('s, 'e, 'a) io \<Rightarrow> ('e \<Rightarrow> ('s, 'e, 'a) io) \<Rightarrow> ('s, 'e, 'a) io" where
  "catch_io m h s = (case m s of (Raise e, s') \<Rightarrow> h e s' | r \<Rightarrow> r)"

definition lift_sum :: "'e + 'a \<Rightarrow> ('s, 'e, 'a) io" where
  "lift_sum m s = (case m of Inl e \<Rightarrow> (Raise e, s) | Inr x \<Rightarrow> (Ret x, s))"

definition modify :: "('s \<Rightarrow> 's) \<Rightarrow> ('s, 'e, unit) io" where
  "modify f s = (Ret (), f s)"

definition gets :: "('s \<Rightarrow> 'a) \<Rightarrow> ('s, 'e, 'a) io" where
  "gets f s = (Ret (f s), s)"

definition throw_if :: "bool \<Rightarrow> 'e \<Rightarrow> ('s, 'e, unit) io" where
  "throw_if b e s = (if b then (Raise e, s) else (Ret (), s))"

lemma io_simps [simp, outcome_simps]:
  "ret x s = (Ret x, s)"
  "throw e s = (Raise e, s)"
  "modify g s = (Ret (), g s)"
  "gets f s = (Ret (f s), s)"
  "lift_sum (Inl e) s = (Raise e, s)"
  "lift_sum (Inr x) s = (Ret x, s)"
  "throw_if True e s = (Raise e, s)"
  "throw_if False e s = (Ret (), s)"
  by (simp_all add: ret_def throw_def modify_def gets_def lift_sum_def throw_if_def)

lemma bind_io_simps [outcome_simps]:
  "m s = (Ret x, s') \<Longrightarrow> bind_io m f s = f x s'"
  "m s = (Raise e, s') \<Longrightarrow> bind_io m f s = (Raise e, s')"
  "m s = (Blocked, s') \<Longrightarrow> bind_io m f s = (Blocked, s')"
  by (simp_all add: bind_io_def)

lemma catch_io_simps [outcome_simps]:
  "m s = (Ret x, s') \<Longrightarrow> catch_io m h s = (Ret x, s')"
  "m s = (Raise e, s') \<Longrightarrow> catch_io m h s = h e s'"
  "m s = (Blocked, s') \<Longrightarrow> catch_io m h s = (Blocked, s')"
  by (simp_all add: catch_io_def)

lemma bind_io_Ret:
  "bind_io m f s = (Ret y, s'') \<longleftrightarrow>
     (\<exists>x s'. m s = (Ret x, s') \<and> f x s' = (Ret y, s''))"
  by (auto simp: bind_io_def split: prod.splits outcome.splits)

text \<open>
  \<open>await asyncio.wait_for(m, timeout)\<close>: \<open>timer (Some timeout)\<close> tells the environment of the
  state when waiting is to end, \<open>timer None\<close> that it no longer is; a coroutine that is still
  waiting then is cancelled, and \<open>tmo\<close> raised in its place.  One that has no time at all is
  cancelled before it starts.
\<close>

definition wait_for ::
  "'e \<Rightarrow> (rat option \<Rightarrow> 's \<Rightarrow> 's) \<Rightarrow> rat \<Rightarrow> ('s, 'e, 'a) io \<Rightarrow> ('s, 'e, 'a) io" where
  "wait_for tmo timer timeout m s =
     (if timeout \<le> 0 then (Raise tmo, s)
      else case m (timer (Some timeout) s) of
             (Blocked, s') \<Rightarrow> (Raise tmo, timer None s')
           | (r, s') \<Rightarrow> (r, timer None s'))"

text \<open>\<open>try: m finally: f\<close>, where the clean-up neither fails nor waits.\<close>

definition finally_io :: "('s, 'e, 'a) io \<Rightarrow> ('s \<Rightarrow> 's) \<Rightarrow> ('s, 'e, 'a) io" where
  "finally_io m f s = (case m s of (Blocked, s') \<Rightarrow> (Blocked, s') | (r, s') \<Rightarrow> (r, f s'))"

lemma finally_io_simps [outcome_simps]:
  "m s = (Ret x, s') \<Longrightarrow> finally_io m f s = (Ret x, f s')"
  "m s = (Raise e, s') \<Longrightarrow> finally_io m f s = (Raise e, f s')"
  "m s = (Blocked, s') \<Longrightarrow> finally_io m f s = (Blocked, s')"
  by (simp_all add: finally_io_def)

lemma wait_for_never_blocks: "fst (wait_for tmo timer timeout m s) \<noteq> Blocked"
  by (simp add: wait_for_def split: prod.splits outcome.splits)

section \<open>Invariants of coroutines\<close>

text \<open>
  \<open>preserves P m\<close>: whatever the outcome of \<open>m\<close>, also an exception or a wait, the state
  it leaves satisfies \<open>P\<close> if the state it found did.  The rules follow the structure of the
  code; \<open>preserve\<close> collects them.
\<close>

named_theorems preserve \<open>invariant preservation, by the structure of the code\<close>

definition preserves :: "('s \<Rightarrow> bool) \<Rightarrow> ('s, 'e, 'a) io \<Rightarrow> bool" where
  "preserves P m \<longleftrightarrow> (\<forall>s. P s \<longrightarrow> P (snd (m s)))"

lemma preservesI: "(\<And>s. P s \<Longrightarrow> P (snd (m s))) \<Longrightarrow> preserves P m"
  by (simp add: preserves_def)

lemma preservesD: "preserves P m \<Longrightarrow> P s \<Longrightarrow> m s = (out, s') \<Longrightarrow> P s'"
  by (metis preserves_def snd_conv)

lemma preserves_basic [preserve]:
  "preserves P (ret x)" "preserves P (throw e)" "preserves P (gets f)"
  "preserves P (throw_if b e)" "preserves P (lift_sum r)"
  by (auto simp: preserves_def throw_if_def lift_sum_def split: sum.splits)

lemma preserves_bind [preserve]:
  "preserves P m \<Longrightarrow> (\<And>x. preserves P (f x)) \<Longrightarrow> preserves P (bind_io m f)"
  by (fastforce simp: preserves_def bind_io_def split: prod.splits outcome.splits)

lemma preserves_catch [preserve]:
  "preserves P m \<Longrightarrow> (\<And>e. preserves P (h e)) \<Longrightarrow> preserves P (catch_io m h)"
  by (fastforce simp: preserves_def catch_io_def split: prod.splits outcome.splits)

lemma preserves_wait_for [preserve]:
  assumes "preserves P m" and "\<And>x s. P s \<Longrightarrow> P (timer x s)"
  shows "preserves P (wait_for tmo timer timeout m)"
proof (rule preservesI)
  fix s
  assume "P s"
  then have "P (snd (m (timer (Some timeout) s)))" using assms by (simp add: preserves_def)
  with assms(2) \<open>P s\<close> show "P (snd (wait_for tmo timer timeout m s))"
    by (cases "m (timer (Some timeout) s)") (simp add: wait_for_def split: outcome.splits)
qed

lemma preserves_finally [preserve]:
  "preserves P m \<Longrightarrow> (\<And>s. P s \<Longrightarrow> P (f s)) \<Longrightarrow> preserves P (finally_io m f)"
  by (fastforce simp: preserves_def finally_io_def split: prod.splits outcome.splits)

lemma preserves_if [preserve]:
  "(b \<Longrightarrow> preserves P m) \<Longrightarrow> (\<not> b \<Longrightarrow> preserves P n) \<Longrightarrow> preserves P (if b then m else n)"
  by simp

lemma preserves_modify [preserve]: "(\<And>s. P s \<Longrightarrow> P (f s)) \<Longrightarrow> preserves P (modify f)"
  by (simp add: preserves_def)

section \<open>Little-endian integers\<close>

fun le_bytes :: "nat \<Rightarrow> int \<Rightarrow> bytes" where
  "le_bytes 0 v = []"
| "le_bytes (Suc n) v = word_of_int v # le_bytes n (v div 256)"

fun le_int :: "bytes \<Rightarrow> int" where
  "le_int [] = 0"
| "le_int (b # bs) = uint b + 256 * le_int bs"

lemma length_le_bytes [simp]: "length (le_bytes n v) = n"
  by (induction n arbitrary: v) simp_all

lemma le_int_nonneg [simp]: "0 \<le> le_int bs"
  by (induction bs) simp_all

lemma le_int_less: "le_int bs < 256 ^ length bs"
proof (induction bs)
  case Nil
  then show ?case by simp
next
  case (Cons b bs)
  have "uint b < 256" using uint_lt2p [of b] by simp
  with Cons show ?case by simp
qed

lemma le_int_le_bytes [le_simps]:
  "0 \<le> v \<Longrightarrow> v < 256 ^ n \<Longrightarrow> le_int (le_bytes n v) = v"
proof (induction n arbitrary: v)
  case 0
  then show ?case by simp
next
  case (Suc n)
  have u: "uint (word_of_int v :: byte) = v mod 256"
    by (simp add: uint_word_of_int)
  have "0 \<le> v div 256" "v div 256 < 256 ^ n"
    using Suc.prems by (auto simp: pos_imp_zdiv_nonneg_iff div_less_iff_less_mult mult.commute)
  with Suc.IH have "le_int (le_bytes n (v div 256)) = v div 256" by blast
  with u show ?case by simp
qed

lemma le_bytes_le_int [le_simps]: "n = length bs \<Longrightarrow> le_bytes n (le_int bs) = bs"
proof (induction bs arbitrary: n)
  case Nil
  then show ?case by simp
next
  case (Cons b bs)
  have ub: "0 \<le> uint b" "uint b < 256" using uint_lt2p [of b] by simp_all
  then have "(uint b + 256 * le_int bs) div 256 = le_int bs" by simp
  moreover have "(word_of_int (uint b + 256 * le_int bs) :: byte) = word_of_int (uint b)"
    by (subst word_of_int_eq_iff) (simp add: take_bit_eq_mod)
  ultimately show ?case using Cons by simp
qed

lemma le_bytes_inj:
  assumes "0 \<le> v" "v < 256 ^ n" "0 \<le> w" "w < 256 ^ n" "le_bytes n v = le_bytes n w"
  shows "v = w"
  using assms le_int_le_bytes by metis

text \<open>The field readers: \<open>struct.unpack_from("<H", data, i)\<close> and \<open>"<I"\<close>, and \<open>data[i]\<close>,
  used by the code only behind a length check.\<close>

definition u8_at :: "bytes \<Rightarrow> nat \<Rightarrow> int" where
  "u8_at data i = uint (data ! i)"

definition u16_at :: "bytes \<Rightarrow> nat \<Rightarrow> int" where
  "u16_at data i = le_int (slice i (i + 2) data)"

definition u32_at :: "bytes \<Rightarrow> nat \<Rightarrow> int" where
  "u32_at data i = le_int (slice i (i + 4) data)"

lemma u8_at_bounds: "0 \<le> u8_at data i" "u8_at data i < 256"
  using uint_lt2p [of "data ! i"] by (simp_all add: u8_at_def)

lemma u16_at_bounds: "0 \<le> u16_at data i" "u16_at data i < 65536"
proof -
  have "le_int (slice i (i + 2) data) < 256 ^ length (slice i (i + 2) data)"
    by (rule le_int_less)
  also have "\<dots> \<le> (256 :: int) ^ 2"
    by (rule power_increasing) (simp_all add: length_slice)
  finally show "u16_at data i < 65536" by (simp add: u16_at_def)
qed (simp add: u16_at_def)

lemma u32_at_bounds: "0 \<le> u32_at data i" "u32_at data i < 4294967296"
proof -
  have "le_int (slice i (i + 4) data) < 256 ^ length (slice i (i + 4) data)"
    by (rule le_int_less)
  also have "\<dots> \<le> (256 :: int) ^ 4"
    by (rule power_increasing) (simp_all add: length_slice)
  finally show "u32_at data i < 4294967296" by (simp add: u32_at_def)
qed (simp add: u32_at_def)

lemma byte_roundtrip [le_simps]:
  "0 \<le> v \<Longrightarrow> v < 256 \<Longrightarrow> uint (word_of_int v :: byte) = v"
  by (simp add: uint_word_of_int)

end
