(* ===== verification/Errors.thy ===== *)
theory Errors
  imports Prelude
begin

text \<open>
  The exceptions: the classes of \<open>errors.py\<close> and the Python exceptions that the modelled
  code raises or catches, as one datatype; the subclass relation that \<open>except\<close> clauses
  test is the predicates below.  Messages are not kept: no code reads them.
\<close>

datatype py_exc =
    USMPError | FrameError | CRCError | MagicError | VersionError | PayloadError
  | HandshakeError | AuthError | CryptoError | SequenceError | USMPTimeoutError
  | ConnectionClosedError | NotConnectedError
  | StructError | ValueError | TypeError | RuntimeError | OverflowError
  | IncompleteReadError | EOFError | OSError | ConnectionResetError
  | ConnectionAbortedError | PyTimeoutError | CancelledError

text \<open>The class attribute \<open>code\<close> (a \<open>USMPErrorCode\<close>).\<close>

datatype usmp_error_code =
    OK | INVALID_ARG | TRANSPORT_FAILED | AUTH_FAILED | TIMEOUT | REPLAY_DETECTED
  | BUFFER_OVERFLOW | SEQ_EXHAUSTED | CRYPTO_FAILED | NOT_CONNECTED

fun usmp_error_code_value :: "usmp_error_code \<Rightarrow> int" where
  "usmp_error_code_value OK = 0"
| "usmp_error_code_value INVALID_ARG = -1"
| "usmp_error_code_value TRANSPORT_FAILED = -2"
| "usmp_error_code_value AUTH_FAILED = -3"
| "usmp_error_code_value TIMEOUT = -4"
| "usmp_error_code_value REPLAY_DETECTED = -5"
| "usmp_error_code_value BUFFER_OVERFLOW = -6"
| "usmp_error_code_value SEQ_EXHAUSTED = -7"
| "usmp_error_code_value CRYPTO_FAILED = -8"
| "usmp_error_code_value NOT_CONNECTED = -9"

fun error_code :: "py_exc \<Rightarrow> usmp_error_code option" where
  "error_code USMPError = Some INVALID_ARG"
| "error_code FrameError = Some INVALID_ARG"
| "error_code CRCError = Some TRANSPORT_FAILED"
| "error_code MagicError = Some INVALID_ARG"
| "error_code VersionError = Some INVALID_ARG"
| "error_code PayloadError = Some BUFFER_OVERFLOW"
| "error_code HandshakeError = Some AUTH_FAILED"
| "error_code AuthError = Some AUTH_FAILED"
| "error_code CryptoError = Some CRYPTO_FAILED"
| "error_code SequenceError = Some REPLAY_DETECTED"
| "error_code USMPTimeoutError = Some TIMEOUT"
| "error_code ConnectionClosedError = Some TRANSPORT_FAILED"
| "error_code NotConnectedError = Some NOT_CONNECTED"
| "error_code _ = None"

text \<open>\<open>except FrameError\<close>, \<open>except HandshakeError\<close>, \<open>except USMPError\<close>, \<open>except OSError\<close>,
  \<open>except EOFError\<close>.\<close>

definition is_FrameError :: "py_exc \<Rightarrow> bool" where
  "is_FrameError e \<longleftrightarrow> e \<in> {FrameError, CRCError, MagicError, VersionError, PayloadError}"

definition is_HandshakeError :: "py_exc \<Rightarrow> bool" where
  "is_HandshakeError e \<longleftrightarrow> e \<in> {HandshakeError, AuthError}"

definition is_USMPError :: "py_exc \<Rightarrow> bool" where
  "is_USMPError e \<longleftrightarrow> e \<in> {USMPError, FrameError, CRCError, MagicError, VersionError,
     PayloadError, HandshakeError, AuthError, CryptoError, SequenceError, USMPTimeoutError,
     ConnectionClosedError, NotConnectedError}"

definition is_OSError :: "py_exc \<Rightarrow> bool" where
  "is_OSError e \<longleftrightarrow> e \<in> {OSError, ConnectionResetError, ConnectionAbortedError, PyTimeoutError}"

definition is_EOFError :: "py_exc \<Rightarrow> bool" where
  "is_EOFError e \<longleftrightarrow> e \<in> {EOFError, IncompleteReadError}"

lemmas exc_class_defs =
  is_FrameError_def is_HandshakeError_def is_USMPError_def is_OSError_def is_EOFError_def

lemma is_FrameError_USMPError: "is_FrameError e \<Longrightarrow> is_USMPError e"
  by (auto simp: exc_class_defs)

lemma is_HandshakeError_USMPError: "is_HandshakeError e \<Longrightarrow> is_USMPError e"
  by (auto simp: exc_class_defs)

lemma is_USMPError_iff_code: "is_USMPError e \<longleftrightarrow> error_code e \<noteq> None"
  by (cases e) (simp_all add: is_USMPError_def)

section \<open>Packing integers\<close>

text \<open>\<open>struct.pack\<close> raises \<open>struct.error\<close> when a value does not fit its field.\<close>

definition pack_B :: "int \<Rightarrow> py_exc + bytes" where
  "pack_B v = (if 0 \<le> v \<and> v < 2 ^ 8 then Inr (le_bytes 1 v) else Inl StructError)"

definition pack_H :: "int \<Rightarrow> py_exc + bytes" where
  "pack_H v = (if 0 \<le> v \<and> v < 2 ^ 16 then Inr (le_bytes 2 v) else Inl StructError)"

definition pack_I :: "int \<Rightarrow> py_exc + bytes" where
  "pack_I v = (if 0 \<le> v \<and> v < 2 ^ 32 then Inr (le_bytes 4 v) else Inl StructError)"

definition pack_HBBI :: "int \<Rightarrow> int \<Rightarrow> int \<Rightarrow> int \<Rightarrow> py_exc + bytes" where
  "pack_HBBI a b c d =
     bindE (pack_H a) (\<lambda>ba. bindE (pack_B b) (\<lambda>bb. bindE (pack_B c) (\<lambda>bc.
     bindE (pack_I d) (\<lambda>bd. Inr (ba @ bb @ bc @ bd)))))"

lemmas pack_defs = pack_B_def pack_H_def pack_I_def

lemma pack_H_Inr: "pack_H v = Inr bs \<Longrightarrow> length bs = 2 \<and> le_int bs = v"
  by (auto simp: pack_H_def le_simps split: if_splits)

lemma pack_I_Inr: "pack_I v = Inr bs \<Longrightarrow> length bs = 4 \<and> le_int bs = v"
  by (auto simp: pack_I_def le_simps split: if_splits)

lemma pack_I_inj: "pack_I v = Inr bs \<Longrightarrow> pack_I w = Inr bs \<Longrightarrow> v = w"
  using pack_I_Inr by metis

lemma pack_I_ok: "0 \<le> v \<Longrightarrow> v < 4294967296 \<Longrightarrow> pack_I v = Inr (le_bytes 4 v)"
  by (simp add: pack_I_def)

lemma pack_H_ok: "0 \<le> v \<Longrightarrow> v < 65536 \<Longrightarrow> pack_H v = Inr (le_bytes 2 v)"
  by (simp add: pack_H_def)

lemma pack_B_ok: "0 \<le> v \<Longrightarrow> v < 256 \<Longrightarrow> pack_B v = Inr (le_bytes 1 v)"
  by (simp add: pack_B_def)

lemma pack_HBBI_ok:
  "\<lbrakk>0 \<le> a; a < 65536; 0 \<le> b; b < 256; 0 \<le> c; c < 256; 0 \<le> d; d < 4294967296\<rbrakk> \<Longrightarrow>
   pack_HBBI a b c d = Inr (le_bytes 2 a @ le_bytes 1 b @ le_bytes 1 c @ le_bytes 4 d)"
  by (simp add: pack_HBBI_def pack_H_ok pack_B_ok pack_I_ok)

end
