(* ===== verification/Types.thy ===== *)
theory Types
  imports Errors
begin

text \<open>
  The data model of \<open>types.py\<close>: protocol constants, packet types, cipher suites, frames and
  the session information, with the text renderings of frames and identifiers.
\<close>

section \<open>Numbers and bytes as text\<close>

definition hex_lower :: "nat \<Rightarrow> char" where
  "hex_lower d = (if d < 10 then char_of (48 + d) else char_of (87 + d))"

definition hex_upper :: "nat \<Rightarrow> char" where
  "hex_upper d = (if d < 10 then char_of (48 + d) else char_of (55 + d))"

fun digits_in :: "nat \<Rightarrow> nat \<Rightarrow> nat list" where
  "digits_in b n = (if b < 2 \<or> n < b then [n] else digits_in b (n div b) @ [n mod b])"

declare digits_in.simps [simp del]

text \<open>\<open>str(n)\<close> on integers, \<open>f"\{n:0wX\}"\<close>, \<open>bytes.hex()\<close> and \<open>bytes.hex(":")\<close>.\<close>

definition str_int :: "int \<Rightarrow> string" where
  "str_int v = (if v < 0 then ''-'' else []) @ map hex_lower (digits_in 10 (nat \<bar>v\<bar>))"

definition fmt_0X :: "nat \<Rightarrow> int \<Rightarrow> string" where
  "fmt_0X w v =
     (let ds = map hex_upper (digits_in 16 (nat v)) in replicate (w - length ds) (CHR ''0'') @ ds)"

definition hex_of_byte :: "byte \<Rightarrow> string" where
  "hex_of_byte b = [hex_lower (unat b div 16), hex_lower (unat b mod 16)]"

definition hex_of :: "bytes \<Rightarrow> string" where
  "hex_of bs = concat (map hex_of_byte bs)"

fun hex_sep :: "string \<Rightarrow> bytes \<Rightarrow> string" where
  "hex_sep sep [] = []"
| "hex_sep sep [b] = hex_of_byte b"
| "hex_sep sep (b # c # bs) = hex_of_byte b @ sep @ hex_sep sep (c # bs)"

section \<open>Packet types and constants\<close>

datatype packet_type =
    HELLO | CHALLENGE | HELLO_ACK | SESSION_OK | DATA | PING | PONG | BYE | DATA_FRAG
  | HELLO_RETRY | REKEY | ERROR

fun packet_type_code :: "packet_type \<Rightarrow> int" where
  "packet_type_code HELLO = 0x01"
| "packet_type_code CHALLENGE = 0x02"
| "packet_type_code HELLO_ACK = 0x03"
| "packet_type_code SESSION_OK = 0x04"
| "packet_type_code DATA = 0x05"
| "packet_type_code PING = 0x06"
| "packet_type_code PONG = 0x07"
| "packet_type_code BYE = 0x08"
| "packet_type_code DATA_FRAG = 0x09"
| "packet_type_code HELLO_RETRY = 0x0A"
| "packet_type_code REKEY = 0x0B"
| "packet_type_code ERROR = 0xFF"

definition all_packet_types :: "packet_type list" where
  "all_packet_types = [HELLO, CHALLENGE, HELLO_ACK, SESSION_OK, DATA, PING, PONG, BYE,
     DATA_FRAG, HELLO_RETRY, REKEY, ERROR]"

text \<open>\<open>PacketType(v)\<close>: \<open>ValueError\<close> when no member has the value.\<close>

definition PacketType_of :: "int \<Rightarrow> py_exc + packet_type" where
  "PacketType_of v =
     (case find (\<lambda>t. packet_type_code t = v) all_packet_types of
        Some t \<Rightarrow> Inr t
      | None \<Rightarrow> Inl ValueError)"

fun packet_type_name :: "packet_type \<Rightarrow> string" where
  "packet_type_name HELLO = ''HELLO''"
| "packet_type_name CHALLENGE = ''CHALLENGE''"
| "packet_type_name HELLO_ACK = ''HELLO_ACK''"
| "packet_type_name SESSION_OK = ''SESSION_OK''"
| "packet_type_name DATA = ''DATA''"
| "packet_type_name PING = ''PING''"
| "packet_type_name PONG = ''PONG''"
| "packet_type_name BYE = ''BYE''"
| "packet_type_name DATA_FRAG = ''DATA_FRAG''"
| "packet_type_name HELLO_RETRY = ''HELLO_RETRY''"
| "packet_type_name REKEY = ''REKEY''"
| "packet_type_name ERROR = ''ERROR''"

lemma packet_type_code_bounds: "1 \<le> packet_type_code t" "packet_type_code t < 256"
  by (cases t; simp)+

lemma packet_type_code_inj [simp]: "packet_type_code s = packet_type_code t \<longleftrightarrow> s = t"
  by (cases s; cases t; simp)

lemma PacketType_of_code [simp]: "PacketType_of (packet_type_code t) = Inr t"
  by (cases t) (simp_all add: PacketType_of_def all_packet_types_def)

lemma PacketType_of_Inr: "PacketType_of v = Inr t \<longleftrightarrow> v = packet_type_code t"
proof
  assume "PacketType_of v = Inr t"
  then show "v = packet_type_code t"
    by (auto simp: PacketType_of_def find_Some_iff split: option.splits)
qed simp

lemma PacketType_of_Inl: "PacketType_of v = Inl e \<Longrightarrow> e = ValueError"
  by (auto simp: PacketType_of_def split: option.splits)

text \<open>\<open>PacketType\<close> is an \<open>IntEnum\<close>: its members are ordered by their values.\<close>

instantiation packet_type :: linorder
begin
definition "less_eq_packet_type s t \<longleftrightarrow> packet_type_code s \<le> packet_type_code t"
definition "less_packet_type s t \<longleftrightarrow> packet_type_code s < packet_type_code t"
instance
  by standard (auto simp: less_eq_packet_type_def less_packet_type_def)
end

datatype protocol = TCP | UDP

definition protocol_value :: "protocol \<Rightarrow> string" where
  "protocol_value p = (case p of TCP \<Rightarrow> ''tcp'' | UDP \<Rightarrow> ''udp'')"

datatype cipher_suite = AES256_GCM | CHACHA20_POLY1305

abbreviation (input) USMP_MAGIC :: int where "USMP_MAGIC \<equiv> 0xABCD"
abbreviation (input) USMP_VERSION :: int where "USMP_VERSION \<equiv> 0x02"
abbreviation (input) USMP_HEADER_SIZE :: nat where "USMP_HEADER_SIZE \<equiv> 12"
abbreviation (input) USMP_MAX_PAYLOAD :: nat where "USMP_MAX_PAYLOAD \<equiv> 480"
abbreviation (input) USMP_MAX_FRAMES :: nat where "USMP_MAX_FRAMES \<equiv> 4"
abbreviation (input) USMP_TAG_LEN :: nat where "USMP_TAG_LEN \<equiv> 16"
abbreviation (input) USMP_NONCE_LEN :: nat where "USMP_NONCE_LEN \<equiv> 32"
abbreviation (input) USMP_DEVICE_ID_LEN :: nat where "USMP_DEVICE_ID_LEN \<equiv> 6"
abbreviation (input) USMP_PUB_KEY_LEN :: nat where "USMP_PUB_KEY_LEN \<equiv> 32"
abbreviation (input) USMP_HMAC_LEN :: nat where "USMP_HMAC_LEN \<equiv> 32"
abbreviation (input) USMP_SESSION_ID_LEN :: nat where "USMP_SESSION_ID_LEN \<equiv> 16"
abbreviation (input) USMP_SESSION_KEY_LEN :: nat where "USMP_SESSION_KEY_LEN \<equiv> 32"
abbreviation (input) USMP_GCM_NONCE_LEN :: nat where "USMP_GCM_NONCE_LEN \<equiv> 12"
abbreviation (input) USMP_MAX_DATA_LEN :: nat where
  "USMP_MAX_DATA_LEN \<equiv> USMP_MAX_PAYLOAD - USMP_TAG_LEN - USMP_GCM_NONCE_LEN"

section \<open>Frames\<close>

record usmp_frame =
  fr_magic :: int
  fr_version :: int
  fr_type :: packet_type
  fr_seq :: int
  fr_length :: int
  fr_crc :: int
  fr_payload :: bytes

definition type_name :: "int \<Rightarrow> string" where
  "type_name v =
     (case PacketType_of v of
        Inr t \<Rightarrow> packet_type_name t
      | Inl _ \<Rightarrow> ''UNKNOWN(0x'' @ fmt_0X 2 v @ '')'')"

definition frame_str :: "usmp_frame \<Rightarrow> string" where
  "frame_str f =
     ''USMPFrame('' @
     ''type='' @ type_name (packet_type_code (fr_type f)) @ '', '' @
     ''seq='' @ str_int (fr_seq f) @ '', '' @
     ''version='' @ str_int (fr_version f) @ '', '' @
     ''length='' @ str_int (fr_length f) @ '', '' @
     ''crc=0x'' @ fmt_0X 4 (fr_crc f) @ '', '' @
     ''payload='' @ hex_of (fr_payload f) @
     '')''"

section \<open>Session information\<close>

record session_info =
  device_id :: bytes
  session_id :: bytes
  tx_key :: bytes
  rx_key :: bytes
  tx_seq :: int
  rx_seq :: int
  rx_window_bitmap :: int
  cipher_suite :: cipher_suite

text \<open>The dataclass constructor with its defaults, and \<open>__post_init__\<close>.\<close>

definition session_info_post_init :: "session_info \<Rightarrow> py_exc + session_info" where
  "session_info_post_init i =
     (if length (device_id i) \<noteq> USMP_DEVICE_ID_LEN then Inl ValueError
      else if length (session_id i) \<noteq> USMP_SESSION_ID_LEN then Inl ValueError
      else if length (tx_key i) \<noteq> USMP_SESSION_KEY_LEN then Inl ValueError
      else if length (rx_key i) \<noteq> USMP_SESSION_KEY_LEN then Inl ValueError
      else Inr i)"

definition SessionInfo :: "bytes \<Rightarrow> bytes \<Rightarrow> bytes \<Rightarrow> bytes \<Rightarrow> py_exc + session_info" where
  "SessionInfo dev sid tx rx =
     session_info_post_init
       \<lparr>device_id = dev, session_id = sid, tx_key = tx, rx_key = rx, tx_seq = 0, rx_seq = 0,
        rx_window_bitmap = 0, cipher_suite = AES256_GCM\<rparr>"

definition device_id_str :: "session_info \<Rightarrow> string" where
  "device_id_str i = hex_sep '':'' (device_id i)"

definition session_id_str :: "session_info \<Rightarrow> string" where
  "session_id_str i = hex_of (session_id i)"

text \<open>The lengths a session information has after \<open>__post_init__\<close>.\<close>

definition info_ok :: "session_info \<Rightarrow> bool" where
  "info_ok i \<longleftrightarrow> length (device_id i) = 6 \<and> length (session_id i) = 16
     \<and> length (tx_key i) = 32 \<and> length (rx_key i) = 32"

text \<open>A session information at which theorems are instantiated.\<close>

definition demo_info :: session_info where
  "demo_info =
     \<lparr>device_id = replicate 6 1, session_id = replicate 16 2, tx_key = replicate 32 3,
      rx_key = replicate 32 4, tx_seq = 0, rx_seq = 0, rx_window_bitmap = 0,
      cipher_suite = AES256_GCM\<rparr>"

lemma session_info_post_init_Inr:
  "session_info_post_init i = Inr j \<longleftrightarrow> j = i \<and> info_ok i"
  by (auto simp: session_info_post_init_def info_ok_def)

lemma session_info_post_init_Inl:
  "session_info_post_init i = Inl e \<longleftrightarrow> e = ValueError \<and> \<not> info_ok i"
  by (auto simp: session_info_post_init_def info_ok_def)

lemma SessionInfo_Inr:
  "SessionInfo dev sid tx rx = Inr i \<Longrightarrow>
     device_id i = dev \<and> session_id i = sid \<and> tx_key i = tx \<and> rx_key i = rx \<and> tx_seq i = 0
     \<and> rx_seq i = 0 \<and> rx_window_bitmap i = 0 \<and> cipher_suite i = AES256_GCM \<and> info_ok i"
  by (auto simp: SessionInfo_def session_info_post_init_Inr)

section \<open>Decimal numerals determine their number\<close>

definition undigit :: "char \<Rightarrow> nat" where
  "undigit c = of_char c - 48"

lemma undigit_hex_lower: "d < 10 \<Longrightarrow> undigit (hex_lower d) = d"
  by (simp add: undigit_def hex_lower_def)

lemma digits_in_less: "2 \<le> b \<Longrightarrow> d \<in> set (digits_in b n) \<Longrightarrow> d < b"
proof (induction b n rule: digits_in.induct)
  case (1 b n)
  show ?case
  proof (cases "n < b")
    case True
    with "1.prems" show ?thesis by (simp add: digits_in.simps [of b n])
  next
    case False
    with 1 show ?thesis by (auto simp: digits_in.simps [of b n])
  qed
qed

definition from_digits :: "nat \<Rightarrow> nat list \<Rightarrow> nat" where
  "from_digits b ds = foldl (\<lambda>acc d. acc * b + d) 0 ds"

lemma from_digits_in: "2 \<le> b \<Longrightarrow> from_digits b (digits_in b n) = n"
proof (induction b n rule: digits_in.induct)
  case (1 b n)
  show ?case
  proof (cases "n < b")
    case True
    then show ?thesis by (simp add: digits_in.simps [of b n] from_digits_def)
  next
    case False
    with 1 have "from_digits b (digits_in b (n div b)) = n div b" by simp
    with False "1.prems" show ?thesis
      by (simp add: digits_in.simps [of b n] from_digits_def)
  qed
qed

lemma map_undigit:
  "map undigit (map hex_lower (digits_in 10 n)) = digits_in 10 n"
  using digits_in_less [of 10 _ n] by (simp add: map_idI undigit_hex_lower)

lemma str_int_nonneg: "0 \<le> v \<Longrightarrow> str_int v = map hex_lower (digits_in 10 (nat v))"
  by (simp add: str_int_def)

lemma str_int_inj: "0 \<le> v \<Longrightarrow> 0 \<le> w \<Longrightarrow> str_int v = str_int w \<Longrightarrow> v = w"
proof -
  assume v: "0 \<le> v" and w: "0 \<le> w" and eq: "str_int v = str_int w"
  then have "map undigit (str_int v) = map undigit (str_int w)" by simp
  then have "digits_in 10 (nat v) = digits_in 10 (nat w)"
    using v w by (simp only: str_int_nonneg map_undigit)
  then have "from_digits 10 (digits_in 10 (nat v)) = from_digits 10 (digits_in 10 (nat w))"
    by simp
  then have "nat v = nat w" by (simp add: from_digits_in)
  with v w show ?thesis by simp
qed

lemma hex_lower_digit: "d < 10 \<Longrightarrow> hex_lower d \<noteq> CHR '':''"
  by (auto simp: hex_lower_def dest!: arg_cong [where f = "of_char :: char \<Rightarrow> nat"])

lemma str_int_no_colon: "0 \<le> v \<Longrightarrow> CHR '':'' \<notin> set (str_int v)"
  using digits_in_less [of 10 _ "nat v"] hex_lower_digit
  by (auto simp: str_int_nonneg) (metis)

end
