(* ===== verification/Frame.thy ===== *)
theory Frame
  imports Types
begin

text \<open>
  The wire format of \<open>_frame.py\<close>: the CRC-16, the frame encoder and decoder, and the
  reader and writer of frames over a byte stream.  The lemmas: the CRC as a function on
  16-bit words and its injectivity in every byte, the two round trips of the codec, the
  error of every malformed input, and exact framing of the stream reader.
\<close>

section \<open>CRC-16\<close>

definition crc_bit :: "int \<Rightarrow> int" where
  "crc_bit crc = (if crc AND 1 \<noteq> 0 then drop_bit 1 crc XOR 0xA001 else drop_bit 1 crc)"

definition crc_byte :: "int \<Rightarrow> byte \<Rightarrow> int" where
  "crc_byte crc b = (crc_bit ^^ 8) (crc XOR uint b)"

definition crc16 :: "bytes \<Rightarrow> int" where
  "crc16 data = foldl crc_byte 0xFFFF data"

section \<open>Encoding and decoding\<close>

definition compute_frame_crc ::
  "int \<Rightarrow> int \<Rightarrow> int \<Rightarrow> int \<Rightarrow> int \<Rightarrow> bytes \<Rightarrow> py_exc + int" where
  "compute_frame_crc magic version ptype seq len payload =
     bindE (pack_HBBI magic version ptype seq) (\<lambda>header.
     bindE (pack_H len) (\<lambda>hl.
     Inr (crc16 ((header @ hl) @ payload))))"

definition encode_frame_v ::
  "packet_type \<Rightarrow> bytes \<Rightarrow> int \<Rightarrow> int \<Rightarrow> py_exc + bytes" where
  "encode_frame_v ptype payload seq version =
     (if length payload > USMP_MAX_PAYLOAD then Inl PayloadError
      else
        let len = int (length payload) in
        bindE (compute_frame_crc USMP_MAGIC version (packet_type_code ptype) seq len payload)
          (\<lambda>crc.
        bindE (pack_HBBI USMP_MAGIC version (packet_type_code ptype) seq) (\<lambda>header.
        bindE (pack_H len) (\<lambda>hl.
        bindE (pack_H crc) (\<lambda>hc.
        Inr ((header @ hl @ hc) @ payload))))))"

text \<open>The call with the default \<open>version=USMP_VERSION\<close>, as every caller of the library makes it.\<close>

definition encode_frame :: "packet_type \<Rightarrow> bytes \<Rightarrow> int \<Rightarrow> py_exc + bytes" where
  "encode_frame ptype payload seq = encode_frame_v ptype payload seq USMP_VERSION"

definition decode_frame :: "bool \<Rightarrow> bytes \<Rightarrow> py_exc + usmp_frame" where
  "decode_frame verify_crc data =
     (if length data < USMP_HEADER_SIZE then Inl FrameError
      else
        let magic = u16_at data 0;
            version = u8_at data 2;
            ptype = u8_at data 3;
            seq = u32_at data 4;
            len = u16_at data 8;
            crc = u16_at data 10
        in
          if magic \<noteq> USMP_MAGIC then Inl MagicError
          else if version \<noteq> USMP_VERSION then Inl VersionError
          else if len > int USMP_MAX_PAYLOAD then Inl PayloadError
          else if int (length data) < int USMP_HEADER_SIZE + len then Inl PayloadError
          else
            let payload = slice USMP_HEADER_SIZE (USMP_HEADER_SIZE + nat len) data in
            bindE (compute_frame_crc magic version ptype seq len payload) (\<lambda>expected_crc.
            if verify_crc \<and> crc \<noteq> expected_crc then Inl CRCError
            else
              (case PacketType_of ptype of
                 Inl _ \<Rightarrow> Inl FrameError
               | Inr packet_type \<Rightarrow>
                   Inr \<lparr>fr_magic = magic, fr_version = version, fr_type = packet_type,
                        fr_seq = seq, fr_length = len, fr_crc = crc, fr_payload = payload\<rparr>)))"

section \<open>Frames over a stream\<close>

text \<open>
  \<open>read_frame\<close> works on any object with \<open>readexactly\<close>, \<open>write_frame\<close> on any object
  with \<open>write\<close> and \<open>drain\<close>: these methods are arguments.
\<close>

definition read_frame ::
  "(nat \<Rightarrow> ('r, py_exc, bytes) io) \<Rightarrow> bool \<Rightarrow> ('r, py_exc, usmp_frame) io" where
  "read_frame readexactly verify_crc =
     bind_io (readexactly USMP_HEADER_SIZE) (\<lambda>header.
     let magic = u16_at header 0; len = u16_at header 8 in
     bind_io (throw_if (magic \<noteq> USMP_MAGIC) MagicError) (\<lambda>_.
     bind_io (throw_if (len > int USMP_MAX_PAYLOAD) PayloadError) (\<lambda>_.
     bind_io (if len > 0 then readexactly (nat len) else ret []) (\<lambda>payload.
     lift_sum (decode_frame verify_crc (header @ payload))))))"

definition write_frame ::
  "(bytes \<Rightarrow> ('w, py_exc, unit) io) \<Rightarrow> ('w, py_exc, unit) io \<Rightarrow>
   packet_type \<Rightarrow> bytes \<Rightarrow> int \<Rightarrow> ('w, py_exc, unit) io" where
  "write_frame write drain ptype payload seq =
     bind_io (lift_sum (encode_frame ptype payload seq)) (\<lambda>data.
     bind_io (write data) (\<lambda>_. drain))"

section \<open>The CRC on 16-bit words\<close>

definition crc_bit_w :: "16 word \<Rightarrow> 16 word" where
  "crc_bit_w w = (if bit w 0 then drop_bit 1 w XOR 0xA001 else drop_bit 1 w)"

definition crc_byte_w :: "16 word \<Rightarrow> byte \<Rightarrow> 16 word" where
  "crc_byte_w w b = (crc_bit_w ^^ 8) (w XOR ucast b)"

definition crc16_w :: "bytes \<Rightarrow> 16 word" where
  "crc16_w data = foldl crc_byte_w 0xFFFF data"

lemma xor_cancel_right: "a XOR c = b XOR c \<longleftrightarrow> a = b" for a b c :: "'a::len word"
proof
  assume "a XOR c = b XOR c"
  then have "(a XOR c) XOR c = (b XOR c) XOR c" by simp
  then show "a = b" by (simp add: xor.assoc)
qed simp

lemma xor_cancel_left: "c XOR a = c XOR b \<longleftrightarrow> a = b" for a b c :: "'a::len word"
  by (simp add: xor.commute [of c] xor_cancel_right)

lemma xor_exchange:
  fixes p q c d :: "'a::len word"
  assumes "p XOR c = q XOR d"
  shows "p XOR q = c XOR d"
proof (rule bit_word_eqI)
  fix n
  assume n: "n < LENGTH('a)"
  from assms have "bit (p XOR c) n \<longleftrightarrow> bit (q XOR d) n" by simp
  with n show "bit (p XOR q) n \<longleftrightarrow> bit (c XOR d) n" by (auto simp: bit_simps)
qed

lemma take_bit_16_uint:
  "take_bit 16 (uint w) = uint w" "take_bit 16 (uint b) = uint b"
  for w :: "16 word" and b :: byte
  using uint_lt2p [of w] uint_lt2p [of b] by (simp_all add: take_bit_eq_mod)

lemma crc_bit_uint: "crc_bit (uint w) = uint (crc_bit_w w)"
proof -
  have "bit (uint w) 0 \<longleftrightarrow> bit w 0" by (simp add: bit_uint_iff)
  then have "uint w AND 1 \<noteq> 0 \<longleftrightarrow> bit w 0"
    by (simp add: and_one_eq bit_0 flip: odd_iff_mod_2_eq_one)
  then show ?thesis
    by (simp add: crc_bit_def crc_bit_w_def unsigned_xor_eq unsigned_drop_bit_eq take_bit_16_uint)
qed

lemma crc_bit_pow_uint: "(crc_bit ^^ n) (uint w) = uint ((crc_bit_w ^^ n) w)"
  by (induction n) (simp_all add: crc_bit_uint)

lemma crc_byte_uint: "crc_byte (uint w) b = uint (crc_byte_w w b)"
proof -
  have "uint w XOR uint b = uint (w XOR ucast b)"
    by (simp add: unsigned_xor_eq unsigned_ucast_eq take_bit_16_uint)
  then show ?thesis by (simp add: crc_byte_def crc_byte_w_def crc_bit_pow_uint)
qed

lemma foldl_crc_byte_uint: "foldl crc_byte (uint w) data = uint (foldl crc_byte_w w data)"
  by (induction data arbitrary: w) (simp_all add: crc_byte_uint)

lemma crc16_uint: "crc16 data = uint (crc16_w data)"
proof -
  have "(0xFFFF :: int) = uint (0xFFFF :: 16 word)" by simp
  then show ?thesis unfolding crc16_def crc16_w_def by (metis foldl_crc_byte_uint)
qed

lemma crc16_bounds: "0 \<le> crc16 data" "crc16 data < 65536"
  using uint_lt2p [of "crc16_w data"] by (simp_all add: crc16_uint)

text \<open>One step of the register is injective: bit 15 of the result tells which branch ran.\<close>

lemma crc_bit_w_bit15: "bit (crc_bit_w w) 15 \<longleftrightarrow> bit w 0"
  by (auto simp: crc_bit_w_def bit_simps dest: bit_imp_le_length)

lemma crc_bit_w_inj: "crc_bit_w v = crc_bit_w w \<longleftrightarrow> v = w"
proof
  assume eq: "crc_bit_w v = crc_bit_w w"
  then have b0: "bit v 0 \<longleftrightarrow> bit w 0" using crc_bit_w_bit15 by metis
  with eq have d: "drop_bit 1 v = drop_bit 1 w"
    by (auto simp: crc_bit_w_def xor_cancel_right split: if_splits)
  show "v = w"
  proof (rule bit_eqI)
    fix n
    show "bit v n \<longleftrightarrow> bit w n"
    proof (cases n)
      case 0
      with b0 show ?thesis by simp
    next
      case (Suc m)
      from d have "bit (drop_bit 1 v) m \<longleftrightarrow> bit (drop_bit 1 w) m" by simp
      with Suc show ?thesis by (simp add: bit_drop_bit_eq)
    qed
  qed
qed simp

lemma crc_bit_w_pow_inj: "(crc_bit_w ^^ n) v = (crc_bit_w ^^ n) w \<longleftrightarrow> v = w"
  by (induction n) (simp_all add: crc_bit_w_inj)

lemma ucast_byte_inj: "(ucast a :: 16 word) = ucast b \<longleftrightarrow> a = b" for a b :: byte
proof
  assume "(ucast a :: 16 word) = ucast b"
  then have "uint (ucast a :: 16 word) = uint (ucast b :: 16 word)" by simp
  then show "a = b" by (simp add: unsigned_ucast_eq take_bit_16_uint word_uint_eq_iff)
qed simp

lemma crc_byte_w_inj_state: "crc_byte_w v b = crc_byte_w w b \<longleftrightarrow> v = w"
  by (simp add: crc_byte_w_def crc_bit_w_pow_inj xor_cancel_right)

lemma crc_byte_w_inj_byte: "crc_byte_w w a = crc_byte_w w b \<longleftrightarrow> a = b"
  by (simp add: crc_byte_w_def crc_bit_w_pow_inj xor_cancel_right ucast_byte_inj xor.commute [of w])

text \<open>The register step is linear, and moves the high byte down unchanged in eight steps.\<close>

lemma crc_bit_w_linear: "crc_bit_w (v XOR w) = crc_bit_w v XOR crc_bit_w w"
  by (rule bit_word_eqI) (auto simp: crc_bit_w_def bit_simps)

lemma crc_bit_w_pow_linear:
  "(crc_bit_w ^^ n) (v XOR w) = (crc_bit_w ^^ n) v XOR (crc_bit_w ^^ n) w"
  by (induction n) (simp_all add: crc_bit_w_linear)

lemma crc_bit_w_pow_shift:
  "k \<le> 8 \<Longrightarrow> (crc_bit_w ^^ k) (push_bit 8 (ucast b)) = push_bit (8 - k) (ucast b)" for b :: byte
proof (induction k)
  case 0
  then show ?case by simp
next
  case (Suc k)
  then have "(crc_bit_w ^^ Suc k) (push_bit 8 (ucast b)) = crc_bit_w (push_bit (8 - k) (ucast b))"
    by simp
  also have "\<dots> = drop_bit 1 (push_bit (8 - k) (ucast b))"
    using Suc.prems by (simp add: crc_bit_w_def bit_simps)
  also have "\<dots> = push_bit (8 - Suc k) (ucast b)"
    using Suc.prems by (intro bit_word_eqI) (auto simp: bit_simps dest: bit_imp_le_length)
  finally show ?case .
qed

lemma ucast_xor_byte: "ucast a XOR ucast b = (ucast (a XOR b) :: 16 word)" for a b :: byte
  by (rule bit_word_eqI) (auto simp: bit_simps)

lemma crc_two_bytes_inj:
  assumes eq: "crc_byte_w (crc_byte_w w a) c = crc_byte_w (crc_byte_w w b) d"
  shows "a = b \<and> c = d"
proof -
  let ?S = "crc_bit_w ^^ 8"
  from eq have "?S (w XOR ucast a) XOR ucast c = ?S (w XOR ucast b) XOR ucast d"
    by (simp add: crc_byte_w_def crc_bit_w_pow_inj)
  then have "?S (ucast a) XOR ucast c = ?S (ucast b) XOR ucast d"
    by (simp only: crc_bit_w_pow_linear xor.assoc xor_cancel_left)
  then have "?S (ucast a) XOR ?S (ucast b) = ucast c XOR ucast d"
    by (rule xor_exchange)
  then have "?S (ucast (a XOR b)) = ucast (c XOR d)"
    by (simp only: ucast_xor_byte flip: crc_bit_w_pow_linear)
  also have "\<dots> = ?S (push_bit 8 (ucast (c XOR d)))"
    using crc_bit_w_pow_shift [of 8 "c XOR d"] by simp
  finally have shift: "(ucast (a XOR b) :: 16 word) = push_bit 8 (ucast (c XOR d))"
    by (simp only: crc_bit_w_pow_inj)
  have bits: "bit a n = bit b n \<and> bit c n = bit d n" if "n < 8" for n
  proof -
    from shift have "bit (ucast (a XOR b) :: 16 word) m
        \<longleftrightarrow> bit (push_bit 8 (ucast (c XOR d)) :: 16 word) m" for m by simp
    from this [of n] this [of "n + 8"] that show ?thesis
      by (auto simp: bit_simps dest: bit_imp_le_length)
  qed
  then show ?thesis by (auto intro!: bit_word_eqI)
qed

lemma foldl_crc_inj: "foldl crc_byte_w v data = foldl crc_byte_w w data \<longleftrightarrow> v = w"
  by (induction data arbitrary: v w) (simp_all add: crc_byte_w_inj_state)

lemma crc16_burst:
  assumes "[a, c] \<noteq> [b, d]"
  shows "crc16 (xs @ [a, c] @ ys) \<noteq> crc16 (xs @ [b, d] @ ys)"
proof
  assume "crc16 (xs @ [a, c] @ ys) = crc16 (xs @ [b, d] @ ys)"
  then have "crc16_w (xs @ [a, c] @ ys) = crc16_w (xs @ [b, d] @ ys)"
    by (simp only: crc16_uint word_uint_eq_iff)
  then have "a = b \<and> c = d"
    by (auto simp: crc16_w_def foldl_crc_inj dest: crc_two_bytes_inj)
  with assms show False by simp
qed

section \<open>The header and its fields\<close>

lemma pack_uint8: "pack_B (uint b) = Inr [b]" for b :: byte
  using uint_lt2p [of b] by (simp add: pack_B_def)

lemma pack_H_le_int: "length bs = 2 \<Longrightarrow> pack_H (le_int bs) = Inr bs"
  using le_int_less [of bs] by (simp add: pack_H_def le_simps)

lemma pack_I_le_int: "length bs = 4 \<Longrightarrow> pack_I (le_int bs) = Inr bs"
  using le_int_less [of bs] by (simp add: pack_I_def le_simps)

lemma slice_adjacent: "i \<le> j \<Longrightarrow> j \<le> k \<Longrightarrow> slice i j xs @ slice j k xs = slice i k xs"
proof -
  assume ij: "i \<le> j" and jk: "j \<le> k"
  have "take (k - i) (drop i xs) = take (j - i) (drop i xs) @ take (k - j) (drop (j - i) (drop i xs))"
    using ij jk take_add [of "j - i" "k - j" "drop i xs"] by simp
  with ij show ?thesis by (simp add: slice_def)
qed

lemma slice_single: "i < length xs \<Longrightarrow> slice i (Suc i) xs = [xs ! i]"
  by (simp add: slice_def take_Suc_conv_app_nth hd_drop_conv_nth take_Suc)

lemma header_fields:
  assumes "12 \<le> length data"
  shows "pack_HBBI (u16_at data 0) (u8_at data 2) (u8_at data 3) (u32_at data 4) = Inr (take 8 data)"
    and "pack_H (u16_at data 8) = Inr (slice 8 10 data)"
proof -
  have "slice 0 2 data @ slice 2 3 data = slice 0 3 data"
    and "slice 0 3 data @ slice 3 4 data = slice 0 4 data"
    and "slice 0 4 data @ slice 4 8 data = slice 0 8 data"
    by (simp_all add: slice_adjacent)
  then have "((slice 0 2 data @ slice 2 3 data) @ slice 3 4 data) @ slice 4 8 data = slice 0 8 data"
    by simp
  moreover have "slice 2 3 data = [data ! 2]" "slice 3 4 data = [data ! 3]"
    using assms slice_single [of 2 data] slice_single [of 3 data] by simp_all
  ultimately have "slice 0 2 data @ [data ! 2] @ [data ! 3] @ slice 4 8 data = take 8 data"
    by (simp add: slice_0)
  with assms show "pack_HBBI (u16_at data 0) (u8_at data 2) (u8_at data 3) (u32_at data 4)
      = Inr (take 8 data)"
    by (simp add: pack_HBBI_def u16_at_def u8_at_def u32_at_def pack_H_le_int pack_I_le_int
        pack_uint8 length_slice numeral_2_eq_2 [symmetric])
  show "pack_H (u16_at data 8) = Inr (slice 8 10 data)"
    using assms by (simp add: u16_at_def pack_H_le_int length_slice)
qed

lemma frame_crc_of_fields:
  assumes "12 \<le> length data"
  shows "compute_frame_crc (u16_at data 0) (u8_at data 2) (u8_at data 3) (u32_at data 4)
           (u16_at data 8) payload = Inr (crc16 (take 10 data @ payload))"
proof -
  have "take 8 data @ slice 8 10 data = take 10 data"
    using slice_adjacent [of 0 8 10 data] by (simp add: slice_0)
  with header_fields [OF assms] show ?thesis
    by (simp add: compute_frame_crc_def flip: append_assoc)
qed

text \<open>What a successful decode says about its input, in one equivalence.\<close>

definition well_formed :: "bool \<Rightarrow> bytes \<Rightarrow> bool" where
  "well_formed verify_crc data \<longleftrightarrow>
     12 \<le> length data \<and> u16_at data 0 = USMP_MAGIC \<and> u8_at data 2 = USMP_VERSION
     \<and> u16_at data 8 \<le> 480 \<and> 12 + nat (u16_at data 8) \<le> length data
     \<and> (verify_crc \<longrightarrow> u16_at data 10
          = crc16 (take 10 data @ slice 12 (12 + nat (u16_at data 8)) data))
     \<and> (\<exists>t. u8_at data 3 = packet_type_code t)"

definition frame_of :: "bytes \<Rightarrow> packet_type \<Rightarrow> usmp_frame" where
  "frame_of data t =
     \<lparr>fr_magic = USMP_MAGIC, fr_version = USMP_VERSION, fr_type = t, fr_seq = u32_at data 4,
      fr_length = u16_at data 8, fr_crc = u16_at data 10,
      fr_payload = slice 12 (12 + nat (u16_at data 8)) data\<rparr>"

lemma decode_frame_Inr:
  "decode_frame v data = Inr f \<longleftrightarrow>
     well_formed v data \<and> (\<exists>t. u8_at data 3 = packet_type_code t \<and> f = frame_of data t)"
proof (cases "12 \<le> length data")
  case True
  have "int (length data) < 12 + u16_at data 8 \<longleftrightarrow> \<not> 12 + nat (u16_at data 8) \<le> length data"
    using u16_at_bounds(1) [of data 8] by linarith
  with True show ?thesis
    by (simp only: decode_frame_def Let_def frame_crc_of_fields [OF True] bindE_simps)
      (auto simp: well_formed_def frame_of_def PacketType_of_Inr split: sum.splits)
next
  case False
  then show ?thesis by (simp add: decode_frame_def well_formed_def)
qed

section \<open>Round trips\<close>

text \<open>The bytes of a frame, written out.\<close>

definition frame_body :: "packet_type \<Rightarrow> bytes \<Rightarrow> int \<Rightarrow> bytes" where
  "frame_body t payload seq =
     le_bytes 2 USMP_MAGIC @ le_bytes 1 USMP_VERSION @ le_bytes 1 (packet_type_code t)
     @ le_bytes 4 seq @ le_bytes 2 (int (length payload))"

definition frame_bytes :: "packet_type \<Rightarrow> bytes \<Rightarrow> int \<Rightarrow> bytes" where
  "frame_bytes t payload seq =
     frame_body t payload seq @ le_bytes 2 (crc16 (frame_body t payload seq @ payload)) @ payload"

definition sendable :: "bytes \<Rightarrow> int \<Rightarrow> bool" where
  "sendable payload seq \<longleftrightarrow> length payload \<le> 480 \<and> 0 \<le> seq \<and> seq < 4294967296"

lemma length_frame_body [simp]: "length (frame_body t p s) = 10"
  by (simp add: frame_body_def)

lemma length_frame_bytes [simp]: "length (frame_bytes t p s) = 12 + length p"
  by (simp add: frame_bytes_def)

lemma encode_frame_sendable: "sendable p s \<Longrightarrow> encode_frame t p s = Inr (frame_bytes t p s)"
proof -
  assume ok: "sendable p s"
  have "0 \<le> packet_type_code t" "packet_type_code t < 256"
    using packet_type_code_bounds [of t] by simp_all
  with ok have "pack_HBBI USMP_MAGIC USMP_VERSION (packet_type_code t) s
      = Inr (le_bytes 2 USMP_MAGIC @ le_bytes 1 USMP_VERSION
             @ le_bytes 1 (packet_type_code t) @ le_bytes 4 s)"
    by (simp only: pack_HBBI_ok sendable_def)
  moreover have "pack_H (int (length p)) = Inr (le_bytes 2 (int (length p)))"
    using ok by (simp add: pack_H_ok sendable_def)
  moreover have "pack_H (crc16 x) = Inr (le_bytes 2 (crc16 x))" for x
    by (simp add: pack_H_ok crc16_bounds)
  ultimately show ?thesis
    using ok by (simp add: encode_frame_def encode_frame_v_def compute_frame_crc_def sendable_def
        frame_bytes_def frame_body_def Let_def)
qed

lemma encode_frame_Inr: "encode_frame t p s = Inr data \<longleftrightarrow> sendable p s \<and> data = frame_bytes t p s"
proof (cases "sendable p s")
  case True
  then show ?thesis by (auto simp: encode_frame_sendable)
next
  case False
  then show ?thesis
    by (auto simp: encode_frame_def encode_frame_v_def compute_frame_crc_def pack_HBBI_def
        pack_I_def sendable_def Let_def bindE_Inr split: if_splits)
qed

lemma frame_bytes_fields:
  assumes "sendable p s" and "d = frame_bytes t p s @ rest"
  shows "u16_at d 0 = USMP_MAGIC" "u8_at d 2 = USMP_VERSION" "u8_at d 3 = packet_type_code t"
    "u32_at d 4 = s" "u16_at d 8 = int (length p)"
    "u16_at d 10 = crc16 (frame_body t p s @ p)" "take 10 d = frame_body t p s"
    "slice 12 (12 + length p) d = p"
  using assms packet_type_code_bounds [of t] crc16_bounds [of "frame_body t p s @ p"]
  by (simp_all add: frame_bytes_def frame_body_def u16_at_def u8_at_def u32_at_def sendable_def
      slice_def nth_append le_int_le_bytes byte_roundtrip)

lemma decode_encoded:
  assumes "encode_frame t payload seq = Inr data"
  shows "decode_frame verify_crc (data @ rest) =
    Inr \<lparr>fr_magic = USMP_MAGIC, fr_version = USMP_VERSION, fr_type = t, fr_seq = seq,
         fr_length = int (length payload), fr_crc = u16_at data 10, fr_payload = payload\<rparr>"
proof -
  from assms have ok: "sendable payload seq" and data: "data = frame_bytes t payload seq"
    by (simp_all add: encode_frame_Inr)
  note f = frame_bytes_fields [OF ok, of "data @ rest" t rest]
    frame_bytes_fields [OF ok, of data t "[]"]
  have "well_formed verify_crc (data @ rest)"
    using ok f by (auto simp: well_formed_def data sendable_def)
  moreover have "frame_of (data @ rest) t =
    \<lparr>fr_magic = USMP_MAGIC, fr_version = USMP_VERSION, fr_type = t, fr_seq = seq,
     fr_length = int (length payload), fr_crc = u16_at data 10, fr_payload = payload\<rparr>"
    using f by (simp add: frame_of_def data)
  ultimately show ?thesis
    using f by (auto simp: decode_frame_Inr data)
qed

text \<open>
  C32: decoding an encoded frame, with or without CRC check and with any bytes behind it,
  gives back the type, the payload and the sequence number, for every packet type, every
  payload of at most 480 bytes and every 32-bit sequence number.
\<close>

theorem decode_encode_frame:
  assumes "encode_frame t payload seq = Inr data"
  shows "decode_frame verify_crc (data @ rest) =
    Inr \<lparr>fr_magic = USMP_MAGIC, fr_version = USMP_VERSION, fr_type = t, fr_seq = seq,
         fr_length = int (length payload), fr_crc = u16_at data 10, fr_payload = payload\<rparr>"
  using assms by (rule decode_encoded)

theorem decode_encode_frame_witness:
  "\<exists>data. encode_frame DATA [1, 2, 3] 7 = Inr data \<and>
     decode_frame True (data @ [9]) =
       Inr \<lparr>fr_magic = USMP_MAGIC, fr_version = USMP_VERSION, fr_type = DATA, fr_seq = 7,
            fr_length = 3, fr_crc = u16_at data 10, fr_payload = [1, 2, 3]\<rparr>"
proof -
  have "encode_frame DATA [1, 2, 3] 7 = Inr (frame_bytes DATA [1, 2, 3] 7)"
    by (simp add: encode_frame_Inr sendable_def)
  with decode_encode_frame [OF this, of True "[9]"] show ?thesis by simp
qed

text \<open>
  A datagram that decodes with CRC check and has no bytes behind the frame is the
  encoding of its own type, payload and sequence number: the wire format has no second
  representation of a frame.
\<close>

theorem encode_decode_frame:
  assumes "decode_frame True data = Inr f" and "int (length data) = 12 + fr_length f"
  shows "encode_frame (fr_type f) (fr_payload f) (fr_seq f) = Inr data"
proof -
  from assms(1) obtain t where wf: "well_formed True data" and t: "u8_at data 3 = packet_type_code t"
    and f: "f = frame_of data t"
    by (auto simp: decode_frame_Inr)
  let ?p = "drop 12 data"
  have len: "length data = 12 + nat (u16_at data 8)" and l12: "12 \<le> length data"
    using assms(2) f u16_at_bounds [of data 8] by (auto simp: frame_of_def)
  have p: "slice 12 (12 + nat (u16_at data 8)) data = ?p" using len by (simp add: slice_def)
  have ok: "sendable ?p (u32_at data 4)"
    using wf len u32_at_bounds [of data 4] by (auto simp: sendable_def well_formed_def)
  have "frame_body t ?p (u32_at data 4) = take 10 data"
  proof -
    have "int (length ?p) = u16_at data 8" using len u16_at_bounds [of data 8] by simp
    moreover have "pack_HBBI (u16_at data 0) (u8_at data 2) (u8_at data 3) (u32_at data 4)
        = Inr (le_bytes 2 (u16_at data 0) @ le_bytes 1 (u8_at data 2) @ le_bytes 1 (u8_at data 3)
               @ le_bytes 4 (u32_at data 4))"
      by (simp add: pack_HBBI_ok u16_at_bounds u8_at_bounds u32_at_bounds)
    moreover have "pack_H (u16_at data 8) = Inr (le_bytes 2 (u16_at data 8))"
      by (simp add: pack_H_ok u16_at_bounds)
    ultimately have "frame_body t ?p (u32_at data 4) = take 8 data @ slice 8 10 data"
      using header_fields [OF l12] t wf
      by (auto simp: frame_body_def well_formed_def simp del: le_bytes.simps)
    then show ?thesis using slice_adjacent [of 0 8 10 data] by (simp add: slice_0)
  qed
  moreover have "crc16 (take 10 data @ ?p) = u16_at data 10"
    using wf p by (simp add: well_formed_def)
  moreover have "le_bytes 2 (u16_at data 10) = slice 10 12 data"
    using l12 by (simp add: u16_at_def le_bytes_le_int length_slice)
  moreover have "take 10 data @ slice 10 12 data @ ?p = data"
    using slice_adjacent [of 0 10 12 data] by (simp add: slice_0 flip: append_assoc)
  ultimately have "frame_bytes t ?p (u32_at data 4) = data"
    by (simp add: frame_bytes_def)
  with ok show ?thesis using p by (simp add: f frame_of_def encode_frame_Inr)
qed

theorem encode_decode_frame_witness:
  "\<exists>f data. decode_frame True data = Inr f \<and> int (length data) = 12 + fr_length f
     \<and> encode_frame (fr_type f) (fr_payload f) (fr_seq f) = Inr data"
proof -
  let ?d = "frame_bytes PING [7] 3"
  have d: "decode_frame True (?d @ []) =
    Inr \<lparr>fr_magic = USMP_MAGIC, fr_version = USMP_VERSION, fr_type = PING, fr_seq = 3,
         fr_length = 1, fr_crc = u16_at ?d 10, fr_payload = [7]\<rparr>" (is "_ = Inr ?f")
    by (rule decode_encoded [of PING "[7]" 3, simplified])
      (simp add: encode_frame_Inr sendable_def)
  then show ?thesis
    using encode_decode_frame [of ?d ?f] by (intro exI [of _ ?f] exI [of _ ?d]) simp
qed

section \<open>Malformed input\<close>

text \<open>
  Whatever the bytes, \<open>decode_frame\<close> fails only with \<open>FrameError\<close> or one of its
  subclasses: no \<open>struct.error\<close>, \<open>IndexError\<close> or \<open>ValueError\<close> of the parsing code
  escapes to the callers, which catch protocol errors only.
\<close>

theorem decode_frame_error_class:
  assumes "decode_frame verify_crc data = Inl e"
  shows "is_FrameError e"
proof (cases "12 \<le> length data")
  case True
  from assms show ?thesis
    unfolding decode_frame_def Let_def frame_crc_of_fields [OF True] bindE_simps
    by (auto simp: is_FrameError_def split: if_splits sum.splits)
next
  case False
  with assms show ?thesis by (simp add: decode_frame_def is_FrameError_def)
qed

theorem decode_frame_error_class_witness:
  "decode_frame True [1, 2, 3] = Inl FrameError \<and> is_FrameError FrameError"
proof -
  have short: "decode_frame True [1, 2, 3] = Inl FrameError" by (simp add: decode_frame_def)
  from decode_frame_error_class [OF this] short show ?thesis by simp
qed

text \<open>
  \<open>encode_frame\<close> refuses exactly the payloads above 480 bytes (\<open>PayloadError\<close>) and the
  sequence numbers outside 32 bits (\<open>struct.error\<close>), and succeeds on everything else with a
  frame of at most 492 bytes.
\<close>

theorem encode_frame_outcome:
  "encode_frame t payload seq =
     (if 480 < length payload then Inl PayloadError
      else if seq < 0 \<or> 2 ^ 32 \<le> seq then Inl StructError
      else Inr (frame_bytes t payload seq))
   \<and> length (frame_bytes t payload seq) = 12 + length payload"
proof (cases "sendable payload seq")
  case True
  then show ?thesis by (auto simp: encode_frame_sendable sendable_def)
next
  case False
  have "pack_H (crc16 x) = Inr (le_bytes 2 (crc16 x))" for x
    by (simp add: pack_H_ok crc16_bounds)
  with False show ?thesis
    using packet_type_code_bounds [of t]
    by (auto simp: encode_frame_def encode_frame_v_def compute_frame_crc_def pack_HBBI_def
        pack_H_ok pack_B_ok pack_I_def sendable_def Let_def)
qed

definition splice2 :: "nat \<Rightarrow> byte \<Rightarrow> byte \<Rightarrow> bytes \<Rightarrow> bytes" where
  "splice2 i a c data = take i data @ [a, c] @ drop (i + 2) data"

lemma splice2_id: "i + 1 < length data \<Longrightarrow> splice2 i (data ! i) (data ! (i + 1)) data = data"
  by (simp add: splice2_def Cons_nth_drop_Suc)

lemma length_splice2 [simp]: "i + 1 < length data \<Longrightarrow> length (splice2 i a c data) = length data"
  by (simp add: splice2_def)

lemma crc16_splice2:
  assumes "i + 1 < length xs" and "splice2 i a c xs \<noteq> xs"
  shows "crc16 (splice2 i a c xs) \<noteq> crc16 xs"
proof -
  have "[a, c] \<noteq> [xs ! i, xs ! (i + 1)]"
    using assms splice2_id [of i xs] by auto
  from crc16_burst [OF this, of "take i xs" "drop (i + 2) xs"] show ?thesis
    using splice2_id [OF assms(1)] by (simp add: splice2_def)
qed

lemma well_formed_body:
  assumes "well_formed True d" and "length d = 12 + nat (u16_at d 8)"
  shows "u16_at d 10 = crc16 (take 10 d @ drop 12 d)"
  using assms by (simp add: well_formed_def slice_def)

lemma take_splice2_low: "n \<le> i \<Longrightarrow> i + 1 < length d \<Longrightarrow> take n (splice2 i a c d) = take n d"
  by (simp add: splice2_def min_def)

lemma drop_splice2_high: "i + 2 \<le> n \<Longrightarrow> i + 1 < length d \<Longrightarrow> drop n (splice2 i a c d) = drop n d"
proof -
  assume n: "i + 2 \<le> n" and "i + 1 < length d"
  then have "drop n (splice2 i a c d) = drop (n - (i + 2)) (drop (i + 2) d)"
    unfolding splice2_def append_assoc [symmetric] by (subst drop_append) simp
  also have "\<dots> = drop n d" using n by (simp only: drop_drop le_add_diff_inverse2)
  finally show ?thesis .
qed

lemma splice2_append_left:
  "i + 1 < length xs \<Longrightarrow> splice2 i a c (xs @ ys) = splice2 i a c xs @ ys"
  by (simp add: splice2_def)

lemma splice2_append_right:
  "length xs \<le> i \<Longrightarrow> splice2 i a c (xs @ ys) = xs @ splice2 (i - length xs) a c ys"
  by (simp add: splice2_def Suc_diff_le)

lemma take_splice2_high: "i + 2 \<le> n \<Longrightarrow> n \<le> length d \<Longrightarrow> take n (splice2 i a c d) = splice2 i a c (take n d)"
  using splice2_append_left [of i "take n d" a c "drop n d"] by simp

lemma drop_splice2_low: "n \<le> i \<Longrightarrow> i + 1 < length d \<Longrightarrow> drop n (splice2 i a c d) = splice2 (i - n) a c (drop n d)"
  using splice2_append_right [of "take n d" i a c "drop n d"] by simp

lemma slice_take: "j \<le> n \<Longrightarrow> slice i j (take n d) = slice i j d"
  by (simp add: slice_def drop_take min_def)

lemma slice_drop: "n \<le> i \<Longrightarrow> slice i j d = slice (i - n) (j - n) (drop n d)"
  by (simp add: slice_def)

definition checked_bytes :: "bytes \<Rightarrow> bytes" where
  "checked_bytes d = take 10 d @ drop 12 d"

lemma burst_breaks_crc:
  assumes i: "i + 1 < length d" "i \<le> 6 \<or> i = 10 \<or> 12 \<le> i" and "12 \<le> length d"
    and changed: "splice2 i a c d \<noteq> d" and good: "u16_at d 10 = crc16 (checked_bytes d)"
  shows "u16_at (splice2 i a c d) 10 \<noteq> crc16 (checked_bytes (splice2 i a c d))"
proof -
  let ?d = "splice2 i a c d"
  consider (low) "i \<le> 6" | (crc) "i = 10" | (high) "12 \<le> i" using i by blast
  then show ?thesis
  proof cases
    case low
    have "take 10 ?d = splice2 i a c (take 10 d)" "drop 10 ?d = drop 10 d" "drop 12 ?d = drop 12 d"
      using low i assms(3) by (simp_all add: take_splice2_high drop_splice2_high)
    moreover from this have "take 10 ?d \<noteq> take 10 d"
      using changed append_take_drop_id [of 10 d] append_take_drop_id [of 10 ?d] by metis
    ultimately have "checked_bytes ?d = splice2 i a c (checked_bytes d)"
      and "u16_at ?d 10 = u16_at d 10" and "checked_bytes ?d \<noteq> checked_bytes d"
      using low assms(3) by (auto simp: checked_bytes_def splice2_append_left u16_at_def slice_def)
    moreover have "i + 1 < length (checked_bytes d)"
      using low assms(3) by (simp add: checked_bytes_def)
    ultimately show ?thesis using crc16_splice2 [of i "checked_bytes d" a c] good by simp
  next
    case crc
    have same: "take 10 ?d = take 10 d" "drop 12 ?d = drop 12 d"
      using crc i by (simp_all add: take_splice2_low drop_splice2_high)
    have "slice 10 12 ?d \<noteq> slice 10 12 d"
    proof
      assume eq: "slice 10 12 ?d = slice 10 12 d"
      have "take 10 x @ slice 10 12 x @ drop 12 x = x" for x :: bytes
        using slice_adjacent [of 0 10 12 x] by (simp add: slice_0 flip: append_assoc)
      from this [of ?d] this [of d] eq same have "?d = d" by metis
      with changed show False ..
    qed
    moreover have "length (slice 10 12 ?d) = 2" "length (slice 10 12 d) = 2"
      using assms(3) i by (simp_all add: length_slice)
    ultimately have "le_int (slice 10 12 ?d) \<noteq> le_int (slice 10 12 d)"
      using le_bytes_le_int by metis
    then have "u16_at ?d 10 \<noteq> u16_at d 10" by (simp add: u16_at_def)
    with good same show ?thesis by (simp add: checked_bytes_def)
  next
    case high
    have "take 12 ?d = take 12 d" "drop 12 ?d = splice2 (i - 12) a c (drop 12 d)"
      using high i by (simp_all add: take_splice2_low drop_splice2_low)
    moreover from this have "take 10 ?d = take 10 d" "u16_at ?d 10 = u16_at d 10"
      using slice_take [of 12 12 10 ?d] slice_take [of 12 12 10 d] take_take [of 10 12 d]
        take_take [of 10 12 ?d] by (simp_all add: u16_at_def)
    moreover from calculation have "drop 12 ?d \<noteq> drop 12 d"
      using changed append_take_drop_id [of 12 d] append_take_drop_id [of 12 ?d] by metis
    ultimately have "checked_bytes ?d = splice2 (i - 2) a c (checked_bytes d)"
      and "u16_at ?d 10 = u16_at d 10" and "checked_bytes ?d \<noteq> checked_bytes d"
      using high assms(3) splice2_append_right [of "take 10 d" "i - 2" a c "drop 12 d"]
      by (auto simp: checked_bytes_def)
    moreover have "i - 2 + 1 < length (checked_bytes d)"
      using high i by (simp add: checked_bytes_def)
    ultimately show ?thesis using crc16_splice2 [of "i - 2" "checked_bytes d" a c] good by simp
  qed
qed

text \<open>
  An encoded frame in which any two adjacent bytes are overwritten with other values is
  rejected by \<open>decode_frame\<close> with CRC check, as long as the length field is intact and the
  overwritten pair does not straddle the edge of the CRC field: every burst of up to two
  bytes in the header, the CRC or the payload is detected.
\<close>

theorem decode_frame_detects_burst:
  assumes enc: "encode_frame t payload seq = Inr data"
    and i: "i + 1 < length data" "i \<le> 6 \<or> i = 10 \<or> 12 \<le> i"
    and changed: "splice2 i a c data \<noteq> data"
  shows "\<exists>e. decode_frame True (splice2 i a c data) = Inl e"
proof (rule ccontr)
  let ?d = "splice2 i a c data"
  assume "\<not> ?thesis"
  then obtain f where "decode_frame True ?d = Inr f" by (metis sum.exhaust)
  then have wf': "well_formed True ?d" by (simp add: decode_frame_Inr)
  have good: "decode_frame True (data @ []) =
      Inr \<lparr>fr_magic = USMP_MAGIC, fr_version = USMP_VERSION, fr_type = t, fr_seq = seq,
        fr_length = int (length payload), fr_crc = u16_at data 10, fr_payload = payload\<rparr>"
    by (rule decode_encoded [OF enc])
  have wf: "well_formed True data" and l: "u16_at data 8 = int (length payload)"
    using good by (auto simp: decode_frame_Inr frame_of_def)
  have len: "length data = 12 + nat (u16_at data 8)" using enc l by (auto simp: encode_frame_Inr)
  have "slice 8 10 ?d = slice 8 10 data"
    using i(2)
  proof
    assume "i \<le> 6"
    then show ?thesis using i(1) slice_drop [of 8 8 10 ?d] slice_drop [of 8 8 10 data]
      by (simp add: drop_splice2_high)
  next
    assume "i = 10 \<or> 12 \<le> i"
    then have "take 10 ?d = take 10 data" using i(1) take_splice2_low [of 10 i data a c] by auto
    then show ?thesis using slice_take [of 10 10 8 ?d] slice_take [of 10 10 8 data] by simp
  qed
  then have "u16_at ?d 8 = u16_at data 8" by (simp add: u16_at_def)
  then have "u16_at ?d 10 = crc16 (checked_bytes ?d)"
    using well_formed_body [OF wf'] len i by (simp add: checked_bytes_def)
  moreover have "u16_at data 10 = crc16 (checked_bytes data)"
    using well_formed_body [OF wf len] by (simp add: checked_bytes_def)
  ultimately show False using burst_breaks_crc [OF i _ changed] len by simp
qed

theorem decode_frame_detects_burst_witness:
  "\<exists>data e. encode_frame DATA [1, 2, 3] 7 = Inr data \<and>
     decode_frame True (splice2 12 9 9 data) = Inl e"
proof -
  let ?d = "frame_bytes DATA [1, 2, 3] 7"
  have enc: "encode_frame DATA [1, 2, 3] 7 = Inr ?d"
    by (simp add: encode_frame_Inr sendable_def)
  have "splice2 12 9 9 ?d \<noteq> ?d"
    by (simp add: splice2_def frame_bytes_def)
  then show ?thesis using decode_frame_detects_burst [OF enc, of 12 9 9] enc by simp
qed

end
