(* ===== verification/Streams.thy ===== *)
theory Streams
  imports Frame
begin

text \<open>
  The interfaces between the frame codec and the byte streams under it.  An \<open>exact_reader\<close>
  is an object with \<open>readexactly\<close> (an asyncio \<open>StreamReader\<close>, or a \<open>UDPStream\<close>): over it,
  \<open>read_frame\<close> returns exactly the frames written, and every frame it consumes shortens
  the input.  A \<open>framed_reader\<close> yields the frames of a stream one by one.
\<close>

section \<open>The frame a sender puts on the wire\<close>

definition sent_frame :: "packet_type \<Rightarrow> bytes \<Rightarrow> int \<Rightarrow> usmp_frame" where
  "sent_frame t p s =
     \<lparr>fr_magic = USMP_MAGIC, fr_version = USMP_VERSION, fr_type = t, fr_seq = s,
      fr_length = int (length p), fr_crc = crc16 (frame_body t p s @ p), fr_payload = p\<rparr>"

lemma sent_frame_simps [simp]:
  "fr_magic (sent_frame t p s) = USMP_MAGIC" "fr_version (sent_frame t p s) = USMP_VERSION"
  "fr_type (sent_frame t p s) = t" "fr_seq (sent_frame t p s) = s"
  "fr_length (sent_frame t p s) = int (length p)" "fr_payload (sent_frame t p s) = p"
  by (simp_all add: sent_frame_def)

definition wire :: "usmp_frame \<Rightarrow> bytes" where
  "wire f = frame_bytes (fr_type f) (fr_payload f) (fr_seq f)"

definition genuine :: "usmp_frame \<Rightarrow> bool" where
  "genuine f \<longleftrightarrow>
     sendable (fr_payload f) (fr_seq f) \<and> f = sent_frame (fr_type f) (fr_payload f) (fr_seq f)"

lemma genuine_sent_frame: "genuine (sent_frame t p s) \<longleftrightarrow> sendable p s"
  by (simp add: genuine_def)

lemma wire_sent_frame [simp]: "wire (sent_frame t p s) = frame_bytes t p s"
  by (simp add: wire_def)

lemma decode_frame_bytes:
  assumes "sendable p s"
  shows "decode_frame v (frame_bytes t p s) = Inr (sent_frame t p s)"
proof -
  have "encode_frame t p s = Inr (frame_bytes t p s)" using assms by (rule encode_frame_sendable)
  moreover have "u16_at (frame_bytes t p s) 10 = crc16 (frame_body t p s @ p)"
    using frame_bytes_fields [OF assms, of _ t "[]"] by simp
  moreover have "well_formed v (frame_bytes t p s)"
    using frame_bytes_fields [OF assms, of "frame_bytes t p s" t "[]"] assms
    by (auto simp: well_formed_def sendable_def)
  ultimately show ?thesis
    using frame_bytes_fields [OF assms, of "frame_bytes t p s" t "[]"]
    by (auto simp: decode_frame_Inr frame_of_def sent_frame_def)
qed

lemma frame_bytes_header:
  assumes "sendable p s"
  shows "u16_at (take 12 (frame_bytes t p s)) 0 = USMP_MAGIC"
    and "u16_at (take 12 (frame_bytes t p s)) 8 = int (length p)"
    and "drop 12 (frame_bytes t p s) = p"
  using frame_bytes_fields [OF assms, of "frame_bytes t p s" t "[]"]
  by (simp_all add: u16_at_def slice_take) (simp add: frame_bytes_def frame_body_def)

fun read_n :: "nat \<Rightarrow> ('r, 'e, 'f) io \<Rightarrow> ('r, 'e, 'f list) io" where
  "read_n 0 rd = ret []"
| "read_n (Suc n) rd = bind_io rd (\<lambda>f. bind_io (read_n n rd) (\<lambda>fs. ret (f # fs)))"

section \<open>Interfaces\<close>

locale framed_reader =
  fixes rd :: "('r, 'e, 'f) io"
    and pending :: "'r \<Rightarrow> bytes"
    and encoding :: "'f \<Rightarrow> bytes"
    and valid :: "'f \<Rightarrow> bool"
  assumes rd_frame: "valid f \<Longrightarrow> pending r = encoding f @ rest \<Longrightarrow>
      \<exists>r'. rd r = (Ret f, r') \<and> pending r' = rest"
begin

lemma read_n_frames:
  "list_all valid fs \<Longrightarrow> pending r = concat (map encoding fs) @ rest \<Longrightarrow>
   \<exists>r'. read_n (length fs) rd r = (Ret fs, r') \<and> pending r' = rest"
proof (induction fs arbitrary: r)
  case Nil
  then show ?case by simp
next
  case (Cons f fs)
  from Cons.prems obtain r1 where r1: "rd r = (Ret f, r1)" "pending r1 = concat (map encoding fs) @ rest"
    using rd_frame [of f r "concat (map encoding fs) @ rest"] by auto
  with Cons obtain r2 where "read_n (length fs) rd r1 = (Ret fs, r2)" "pending r2 = rest"
    by auto
  with r1 show ?case by (simp add: bind_io_def)
qed

end

text \<open>
  \<open>pending\<close> is what has arrived; \<open>total\<close> bounds what can still be read, as a read that waits
  lets more input arrive.
\<close>

locale exact_reader =
  fixes readexactly :: "nat \<Rightarrow> ('r, py_exc, bytes) io"
    and pending :: "'r \<Rightarrow> bytes"
    and advance :: "nat \<Rightarrow> 'r \<Rightarrow> 'r"
    and total :: "'r \<Rightarrow> nat"
  assumes exact_enough:
      "n \<le> length (pending r) \<Longrightarrow> readexactly n r = (Ret (take n (pending r)), advance n r)"
    and exact_uses:
      "readexactly n r = (out, r') \<Longrightarrow>
       total r' \<le> total r \<and>
       (out \<in> {Blocked, Raise IncompleteReadError}
        \<or> (\<exists>bs. out = Ret bs \<and> length bs = n \<and> total r' + n \<le> total r))"
    and pending_advance: "pending (advance n r) = drop n (pending r)"
    and advance_advance: "advance m (advance n r) = advance (n + m) r"
    and advance_0: "advance 0 r = r"
begin

lemma read_frame_wire:
  assumes ok: "sendable p s" and buf: "pending r = frame_bytes t p s @ rest"
  shows "read_frame readexactly v r = (Ret (sent_frame t p s), advance (12 + length p) r)"
proof -
  have h: "readexactly 12 r = (Ret (take 12 (frame_bytes t p s)), advance 12 r)"
    using buf exact_enough [of 12 r] by simp
  have rest: "pending (advance 12 r) = p @ rest"
    using buf frame_bytes_header(3) [OF ok, of t] by (simp add: pending_advance)
  have body: "readexactly (length p) (advance 12 r) = (Ret p, advance (12 + length p) r)"
    using exact_enough [of "length p" "advance 12 r"] rest by (simp add: advance_advance)
  have all: "take 12 (frame_bytes t p s) @ p = frame_bytes t p s"
    using append_take_drop_id [of 12 "frame_bytes t p s"] frame_bytes_header(3) [OF ok, of t] by simp
  show ?thesis
    using ok frame_bytes_header [OF ok, of t] body all
    by (cases "p = []")
      (simp_all add: read_frame_def Let_def bind_io_def h sendable_def decode_frame_bytes)
qed

text \<open>Only a short read leaves \<open>read_frame\<close> without a complete header consumed.\<close>

lemma read_frame_consumes:
  assumes "read_frame readexactly v r = (out, r')"
  shows "total r' \<le> total r
    \<and> (out \<noteq> Blocked \<and> out \<noteq> Raise IncompleteReadError \<longrightarrow> total r' + 12 \<le> total r)"
proof -
  obtain o1 r1 where h: "readexactly 12 r = (o1, r1)" by fastforce
  note u1 = exact_uses [OF h]
  show ?thesis
  proof (cases o1)
    case (Ret header)
    let ?n = "nat (u16_at header 8)"
    obtain o2 r2 where b: "readexactly ?n r1 = (o2, r2)" by fastforce
    from exact_uses [OF b] u1 Ret assms h b show ?thesis
      by (auto simp: read_frame_def bind_io_def Let_def throw_if_def lift_sum_def
          split: prod.splits outcome.splits if_splits sum.splits)
  qed (use u1 assms h in \<open>auto simp: read_frame_def bind_io_def\<close>)
qed

end

sublocale exact_reader \<subseteq> frames: framed_reader "read_frame readexactly v" pending wire genuine
proof
  fix f r rest
  assume g: "genuine f" and buf: "pending r = wire f @ rest"
  then have ok: "sendable (fr_payload f) (fr_seq f)"
    and f: "f = sent_frame (fr_type f) (fr_payload f) (fr_seq f)"
    by (auto simp: genuine_def)
  have "read_frame readexactly v r = (Ret f, advance (12 + length (fr_payload f)) r)"
    using read_frame_wire [OF ok, of r "fr_type f" rest v] buf f by (simp add: wire_def)
  moreover have "pending (advance (12 + length (fr_payload f)) r) = rest"
    using buf by (simp add: pending_advance wire_def)
  ultimately show "\<exists>r'. read_frame readexactly v r = (Ret f, r') \<and> pending r' = rest" by blast
qed

end
