(* ===== verification/Transport.thy ===== *)
theory Transport
  imports Streams
begin

text \<open>
  The transport interface of \<open>transport/base.py\<close> and the registry of
  \<open>transport/__init__.py\<close>.  The abstract class \<open>USMPTransport\<close> is a record of operations on
  a state \<open>'t\<close>: sessions, handshakes and clients take such a record, as the Python code
  calls the methods of whatever object it holds.  The locale \<open>transport\<close> is the part of
  its contract that reading loops rely on to come to an end.
\<close>

section \<open>Time\<close>

text \<open>
  \<open>time.monotonic()\<close> reads a clock of the environment: the current time and the delays
  that pass before each of the next readings.  Floats are rational numbers here.
\<close>

type_synonym clock = "rat \<times> rat list"

fun tick :: "clock \<Rightarrow> rat \<times> clock" where
  "tick (now, []) = (now, (now, []))"
| "tick (now, d # ds) = (now + d, (now + d, ds))"

section \<open>The transport interface\<close>

text \<open>\<open>get_extra_info("peername")\<close>: an address tuple, another object, or nothing.\<close>

datatype peer = Peer_addr string int | Peer_other string | No_peer

record 't transport_ops =
  is_reliable :: bool
  op_read_frame :: "bool \<Rightarrow> ('t, py_exc, usmp_frame) io"
  op_write_frame :: "packet_type \<Rightarrow> bytes \<Rightarrow> int \<Rightarrow> ('t, py_exc, unit) io"
  op_set_session_keys :: "bytes \<Rightarrow> bytes \<Rightarrow> 't \<Rightarrow> 't"
  op_confirm_authenticated :: "int \<Rightarrow> 't \<Rightarrow> 't"
  op_peername :: "'t \<Rightarrow> peer"
  op_close :: "'t \<Rightarrow> 't"
  op_monotonic :: "'t \<Rightarrow> rat \<times> 't"
  op_set_timeout :: "rat option \<Rightarrow> 't \<Rightarrow> 't"
    \<comment> \<open>the event loop's timer for the running coroutine: set, or taken back\<close>

definition monotonic :: "'t transport_ops \<Rightarrow> ('t, py_exc, rat) io" where
  "monotonic ops t = (case op_monotonic ops t of (now, t') \<Rightarrow> (Ret now, t'))"

text \<open>
  \<open>avail\<close> bounds the input a transport can still deliver: reading a frame, or dropping a
  malformed one, uses some of it up, and no other operation adds to it.
\<close>

locale transport =
  fixes ops :: "'t transport_ops" and avail :: "'t \<Rightarrow> nat"
  assumes read_avail: "avail (snd (op_read_frame ops v t)) \<le> avail t"
    and read_progress:
      "fst (op_read_frame ops v t) \<notin> {Blocked, Raise IncompleteReadError} \<Longrightarrow>
       avail (snd (op_read_frame ops v t)) < avail t"
    and write_avail: "avail (snd (op_write_frame ops ty p s t)) \<le> avail t"
    and keys_avail: "avail (op_set_session_keys ops k1 k2 t) = avail t"
    and confirm_avail: "avail (op_confirm_authenticated ops s t) = avail t"
    and close_avail: "avail (op_close ops t) = avail t"
    and clock_avail: "avail (snd (op_monotonic ops t)) = avail t"
    and timeout_avail: "avail (op_set_timeout ops x t) = avail t"

text \<open>A property of transports that every operation keeps, first while one timer is running.\<close>

locale transport_steps =
  fixes ops :: "'t transport_ops" and T :: "'t \<Rightarrow> bool"
  assumes read_keeps: "T t \<Longrightarrow> T (snd (op_read_frame ops v t))"
    and write_keeps: "T t \<Longrightarrow> T (snd (op_write_frame ops ty p s t))"
    and keys_keep: "T t \<Longrightarrow> T (op_set_session_keys ops k1 k2 t)"
    and confirm_keeps: "T t \<Longrightarrow> T (op_confirm_authenticated ops s t)"
    and close_keeps: "T t \<Longrightarrow> T (op_close ops t)"
    and clock_keeps: "T t \<Longrightarrow> T (snd (op_monotonic ops t))"

locale transport_invariant = transport_steps +
  assumes timeout_keeps: "T t \<Longrightarrow> T (op_set_timeout ops x t)"

sublocale transport \<subseteq> below: transport_invariant ops "\<lambda>t. avail t \<le> k" for k
  by unfold_locales
    (auto simp: keys_avail confirm_avail close_avail clock_avail timeout_avail
      intro: order_trans [OF read_avail] order_trans [OF write_avail])

section \<open>The registry of transports\<close>

definition lower_char :: "char \<Rightarrow> char" where
  "lower_char c = (let n = of_char c :: nat in if 65 \<le> n \<and> n \<le> 90 then char_of (n + 32) else c)"

text \<open>\<open>str.lower()\<close> on ASCII names.\<close>

definition lower :: "string \<Rightarrow> string" where
  "lower s = map lower_char s"

record ('a, 'b) registry =
  transports :: "string \<Rightarrow> 'a option"
  listeners :: "string \<Rightarrow> 'b option"

definition register_transport ::
  "string \<Rightarrow> 'a \<Rightarrow> 'b \<Rightarrow> ('a, 'b) registry \<Rightarrow> ('a, 'b) registry" where
  "register_transport name transport_cls listener_cls reg =
     reg\<lparr>transports := (transports reg)(lower name \<mapsto> transport_cls),
         listeners := (listeners reg)(lower name \<mapsto> listener_cls)\<rparr>"

definition get_transport_class :: "('a, 'b) registry \<Rightarrow> string \<Rightarrow> py_exc + 'a" where
  "get_transport_class reg name =
     (let name_lower = lower name in
      case transports reg name_lower of None \<Rightarrow> Inl ValueError | Some cls \<Rightarrow> Inr cls)"

definition get_listener_class :: "('a, 'b) registry \<Rightarrow> string \<Rightarrow> py_exc + 'b" where
  "get_listener_class reg name =
     (let name_lower = lower name in
      case listeners reg name_lower of None \<Rightarrow> Inl ValueError | Some cls \<Rightarrow> Inr cls)"

text \<open>The module's own registrations: the two core protocols.\<close>

definition core_registry :: "(protocol, protocol) registry" where
  "core_registry =
     register_transport ''udp'' UDP UDP
       (register_transport ''tcp'' TCP TCP \<lparr>transports = Map.empty, listeners = Map.empty\<rparr>)"

lemma lower_char_idem [simp]: "lower_char (lower_char c) = lower_char c"
proof (cases "65 \<le> (of_char c :: nat) \<and> (of_char c :: nat) \<le> 90")
  case True
  then have "(of_char (char_of (of_char c + 32 :: nat)) :: nat) = of_char c + 32" by simp
  with True show ?thesis by (simp add: lower_char_def Let_def)
next
  case False
  then have "lower_char c = c" by (auto simp: lower_char_def Let_def)
  then show ?thesis by simp
qed

lemma lower_idem [simp]: "lower (lower s) = lower s"
  by (simp add: lower_def)

lemma get_after_register:
  "get_transport_class (register_transport n t l reg) m =
     (if lower m = lower n then Inr t else get_transport_class reg m)"
  "get_listener_class (register_transport n t l reg) m =
     (if lower m = lower n then Inr l else get_listener_class reg m)"
  by (simp_all add: get_transport_class_def get_listener_class_def register_transport_def Let_def)

text \<open>
  The core registry knows exactly the names that are \<open>tcp\<close> and \<open>udp\<close> up to case, maps
  each to its transport and its listener together, and raises \<open>ValueError\<close> on every other
  name; a registration under any spelling replaces exactly that entry.
\<close>

theorem registry_lookup:
  "get_transport_class core_registry name =
     (if lower name = ''udp'' then Inr UDP else if lower name = ''tcp'' then Inr TCP
      else Inl ValueError)
   \<and> get_listener_class core_registry name = get_transport_class core_registry name
   \<and> get_transport_class (register_transport n t l reg) name =
     (if lower name = lower n then Inr t else get_transport_class reg name)"
proof -
  have "lower ''udp'' = ''udp''" "lower ''tcp'' = ''tcp''"
    by (simp_all add: lower_def lower_char_def)
  then show ?thesis
    by (simp add: core_registry_def get_after_register)
      (simp add: get_transport_class_def get_listener_class_def)
qed

end
