(* ===== verification/Tcp.thy ===== *)
theory Tcp
  imports Transport
begin

text \<open>
  \<open>transport/tcp.py\<close>: a transport over a pair of asyncio streams.  The state holds what the
  streams hold: the received bytes not read yet (while a coroutine waits with a timeout, those
  that come before it), whether the peer has closed, the bytes
  written, and whether the connection is lost or closed on this side.
\<close>

record tcp_transport =
  tcp_in :: bytes
  tcp_eof :: bool
  tcp_out :: bytes
  tcp_lost :: bool
  tcp_closed :: bool
  tcp_peer :: peer
  tcp_clock :: clock

text \<open>\<open>StreamReader.readexactly\<close>: at the end of input the partial data is dropped.\<close>

definition tcp_readexactly :: "nat \<Rightarrow> (tcp_transport, py_exc, bytes) io" where
  "tcp_readexactly n t =
     (if n \<le> length (tcp_in t) then (Ret (take n (tcp_in t)), t\<lparr>tcp_in := drop n (tcp_in t)\<rparr>)
      else if tcp_eof t \<or> tcp_closed t then (Raise IncompleteReadError, t\<lparr>tcp_in := []\<rparr>)
      else (Blocked, t))"

text \<open>\<open>StreamWriter.write\<close> and \<open>drain\<close>: writes to a lost connection vanish, and \<open>drain\<close> says so.\<close>

definition tcp_write :: "bytes \<Rightarrow> (tcp_transport, py_exc, unit) io" where
  "tcp_write data t =
     (Ret (), if tcp_lost t \<or> tcp_closed t then t else t\<lparr>tcp_out := tcp_out t @ data\<rparr>)"

definition tcp_drain :: "(tcp_transport, py_exc, unit) io" where
  "tcp_drain t = (if tcp_lost t \<or> tcp_closed t then (Raise ConnectionResetError, t) else (Ret (), t))"

definition tcp_read_frame :: "bool \<Rightarrow> (tcp_transport, py_exc, usmp_frame) io" where
  "tcp_read_frame verify_crc = read_frame tcp_readexactly verify_crc"

definition tcp_write_frame ::
  "packet_type \<Rightarrow> bytes \<Rightarrow> int \<Rightarrow> (tcp_transport, py_exc, unit) io" where
  "tcp_write_frame ptype payload seq = write_frame tcp_write tcp_drain ptype payload seq"

definition tcp_close :: "tcp_transport \<Rightarrow> tcp_transport" where
  "tcp_close t = t\<lparr>tcp_closed := True\<rparr>"

definition tcp_monotonic :: "tcp_transport \<Rightarrow> rat \<times> tcp_transport" where
  "tcp_monotonic t = (case tick (tcp_clock t) of (now, c) \<Rightarrow> (now, t\<lparr>tcp_clock := c\<rparr>))"

text \<open>The class \<open>TCPTransport\<close>: reliable, and no keys or acknowledgements to keep.\<close>

definition tcp_ops :: "tcp_transport transport_ops" where
  "tcp_ops =
     \<lparr>is_reliable = True, op_read_frame = tcp_read_frame, op_write_frame = tcp_write_frame,
      op_set_session_keys = (\<lambda>tx rx t. t), op_confirm_authenticated = (\<lambda>seq t. t),
      op_peername = tcp_peer, op_close = tcp_close, op_monotonic = tcp_monotonic,
      op_set_timeout = (\<lambda>x t. t)\<rparr>"

text \<open>\<open>TCPTransport.connect\<close>: a fresh connection with nothing read or written.\<close>

definition tcp_connected :: "peer \<Rightarrow> clock \<Rightarrow> bytes \<Rightarrow> bool \<Rightarrow> tcp_transport" where
  "tcp_connected p c input eof =
     \<lparr>tcp_in = input, tcp_eof = eof, tcp_out = [], tcp_lost = False, tcp_closed = False,
      tcp_peer = p, tcp_clock = c\<rparr>"

section \<open>The stream contract\<close>

definition tcp_advance :: "nat \<Rightarrow> tcp_transport \<Rightarrow> tcp_transport" where
  "tcp_advance n t = t\<lparr>tcp_in := drop n (tcp_in t)\<rparr>"

interpretation tcp: exact_reader tcp_readexactly tcp_in tcp_advance "\<lambda>t. length (tcp_in t)"
  by unfold_locales (auto simp: tcp_readexactly_def tcp_advance_def add.commute split: if_splits)

lemma tcp_write_frame_cases:
  "tcp_write_frame ty p s t =
     (case encode_frame ty p s of
        Inl e \<Rightarrow> (Raise e, t)
      | Inr data \<Rightarrow>
          if tcp_lost t \<or> tcp_closed t then (Raise ConnectionResetError, t)
          else (Ret (), t\<lparr>tcp_out := tcp_out t @ data\<rparr>))"
  by (auto simp: tcp_write_frame_def write_frame_def bind_io_def tcp_write_def tcp_drain_def
      lift_sum_def split: sum.splits)

lemma tcp_ops_simps [simp]:
  "is_reliable tcp_ops" "op_read_frame tcp_ops = tcp_read_frame"
  "op_write_frame tcp_ops = tcp_write_frame" "op_set_session_keys tcp_ops tx rx t = t"
  "op_confirm_authenticated tcp_ops s t = t" "op_close tcp_ops = tcp_close"
  "op_peername tcp_ops = tcp_peer" "op_monotonic tcp_ops = tcp_monotonic"
  "op_set_timeout tcp_ops x t = t"
  by (simp_all add: tcp_ops_def)

lemma tcp_monotonic_frame [simp]:
  "tcp_in (snd (tcp_monotonic t)) = tcp_in t" "tcp_eof (snd (tcp_monotonic t)) = tcp_eof t"
  "tcp_out (snd (tcp_monotonic t)) = tcp_out t" "tcp_lost (snd (tcp_monotonic t)) = tcp_lost t"
  "tcp_closed (snd (tcp_monotonic t)) = tcp_closed t"
  by (simp_all add: tcp_monotonic_def split: prod.splits)

interpretation tcp_transport: transport tcp_ops "\<lambda>t. length (tcp_in t)"
proof
  fix v t
  show "length (tcp_in (snd (op_read_frame tcp_ops v t))) \<le> length (tcp_in t)"
    using tcp.read_frame_consumes [of v t] by (cases "tcp_read_frame v t") (auto simp: tcp_read_frame_def)
  assume "fst (op_read_frame tcp_ops v t) \<notin> {Blocked, Raise IncompleteReadError}"
  then show "length (tcp_in (snd (op_read_frame tcp_ops v t))) < length (tcp_in t)"
    using tcp.read_frame_consumes [of v t]
    by (cases "tcp_read_frame v t") (fastforce simp: tcp_read_frame_def)
next
  fix ty p s t
  show "length (tcp_in (snd (op_write_frame tcp_ops ty p s t))) \<le> length (tcp_in t)"
    by (simp add: tcp_write_frame_cases split: sum.splits)
qed (simp_all add: tcp_close_def)

text \<open>
  TCP framing: a transport whose input is the concatenation of frames that peers wrote,
  however the network cut it into segments, returns exactly these frames, in order, and
  leaves exactly the bytes that follow them.
\<close>

theorem tcp_reads_written_frames:
  assumes "list_all genuine fs" and "tcp_in t = concat (map wire fs) @ rest"
  shows "\<exists>t'. read_n (length fs) (tcp_read_frame True) t = (Ret fs, t') \<and> tcp_in t' = rest"
  using tcp.frames.read_n_frames [OF assms] by (simp add: tcp_read_frame_def)

theorem tcp_reads_written_frames_witness:
  "\<exists>t'. read_n 2 (tcp_read_frame True)
      (tcp_connected No_peer (0, []) (frame_bytes PING [1] 4 @ frame_bytes BYE [] 5 @ [9]) False)
      = (Ret [sent_frame PING [1] 4, sent_frame BYE [] 5], t') \<and> tcp_in t' = [9]"
  using tcp_reads_written_frames [of "[sent_frame PING [1] 4, sent_frame BYE [] 5]"
      "tcp_connected No_peer (0, []) (frame_bytes PING [1] 4 @ frame_bytes BYE [] 5 @ [9]) False"
      "[9]"]
  by (simp add: genuine_sent_frame sendable_def tcp_connected_def numeral_2_eq_2)

end
