(* ===== verification/Crypto.thy ===== *)
theory Crypto
  imports Types
begin

text \<open>
  \<open>_crypto.py\<close>: key derivation, associated data, and authenticated encryption of payloads.
  The primitives belong to the third-party \<open>cryptography\<close> package (X25519, HKDF-SHA256, the
  AEAD ciphers) and to OpenSSL behind \<open>hmac\<close>: they are the fields of the record \<open>crypto\<close>,
  an argument of every definition that calls them, and what the code relies on is stated
  as the named predicates \<open>aead_law\<close>, \<open>hkdf_law\<close>, \<open>dh_law\<close>, \<open>hmac_law\<close>.
\<close>

record crypto =
  x_public :: "bytes \<Rightarrow> bytes"
    \<comment> \<open>\<open>X25519PrivateKey.public_key().public_bytes_raw()\<close> of a private key\<close>
  x_exchange :: "bytes \<Rightarrow> bytes \<Rightarrow> py_exc + bytes"
    \<comment> \<open>\<open>priv.exchange(X25519PublicKey.from_public_bytes(peer))\<close>\<close>
  hkdf_sha256 :: "nat \<Rightarrow> bytes \<Rightarrow> bytes \<Rightarrow> bytes \<Rightarrow> bytes"
    \<comment> \<open>length, salt, info, input key material\<close>
  hmac_sha256 :: "bytes \<Rightarrow> bytes \<Rightarrow> bytes"
  aead_encrypt :: "cipher_suite \<Rightarrow> bytes \<Rightarrow> bytes \<Rightarrow> bytes \<Rightarrow> bytes \<Rightarrow> bytes"
    \<comment> \<open>key, nonce, plaintext, associated data; the tag is appended\<close>
  aead_decrypt :: "cipher_suite \<Rightarrow> bytes \<Rightarrow> bytes \<Rightarrow> bytes \<Rightarrow> bytes \<Rightarrow> bytes option"
    \<comment> \<open>\<open>None\<close> is an exception of the library, \<open>InvalidTag\<close> or another\<close>

section \<open>Documented behaviour of the primitives\<close>

definition aead_law :: "crypto \<Rightarrow> bool" where
  "aead_law C \<longleftrightarrow>
     (\<forall>suite key nonce pt aad.
        aead_decrypt C suite key nonce (aead_encrypt C suite key nonce pt aad) aad = Some pt
        \<and> length (aead_encrypt C suite key nonce pt aad) = length pt + 16)"

definition hkdf_law :: "crypto \<Rightarrow> bool" where
  "hkdf_law C \<longleftrightarrow> (\<forall>n salt info ikm. length (hkdf_sha256 C n salt info ikm) = n)"

definition dh_law :: "crypto \<Rightarrow> bool" where
  "dh_law C \<longleftrightarrow>
     (\<forall>a b. x_exchange C a (x_public C b) = x_exchange C b (x_public C a)
            \<and> length (x_public C a) = 32)"

definition hmac_law :: "crypto \<Rightarrow> bool" where
  "hmac_law C \<longleftrightarrow> (\<forall>key msg. length (hmac_sha256 C key msg) = 32)"

section \<open>The module\<close>

text \<open>\<open>generate_keypair()\<close>, the private key being the randomness drawn.\<close>

definition generate_keypair :: "crypto \<Rightarrow> bytes \<Rightarrow> bytes \<times> bytes" where
  "generate_keypair C rnd = (let priv = rnd in (priv, x_public C priv))"

definition derive_session_keys ::
  "crypto \<Rightarrow> bytes \<Rightarrow> bytes \<Rightarrow> bytes \<Rightarrow> bytes \<Rightarrow> bytes \<Rightarrow> py_exc + (bytes \<times> bytes)" where
  "derive_session_keys C priv_key peer_pub nonce pub_c pub_s =
     bindE (x_exchange C priv_key peer_pub) (\<lambda>shared_secret.
     if shared_secret = replicate (length shared_secret) 0 then Inl CryptoError
     else
       let info = ascii ''usmp-v2'' @ pub_c @ pub_s;
           key_material = hkdf_sha256 C (USMP_SESSION_KEY_LEN * 2) nonce info shared_secret
       in Inr (take USMP_SESSION_KEY_LEN key_material, drop USMP_SESSION_KEY_LEN key_material))"

definition derive_rekey_keys ::
  "crypto \<Rightarrow> bool \<Rightarrow> bytes \<Rightarrow> bytes \<Rightarrow> bytes \<Rightarrow> bytes \<Rightarrow> bytes \<times> bytes" where
  "derive_rekey_keys C is_initiator tx rx sid salt =
     (let secret = (if is_initiator then tx @ rx else rx @ tx);
          info = ascii ''usmp-rekey'' @ sid;
          key_material = hkdf_sha256 C (USMP_SESSION_KEY_LEN * 2) salt info secret
      in if is_initiator
         then (take USMP_SESSION_KEY_LEN key_material, drop USMP_SESSION_KEY_LEN key_material)
         else (drop USMP_SESSION_KEY_LEN key_material, take USMP_SESSION_KEY_LEN key_material))"

definition build_aad :: "int \<Rightarrow> int \<Rightarrow> int \<Rightarrow> int \<Rightarrow> int \<Rightarrow> py_exc + bytes" where
  "build_aad magic version ptype seq len =
     bindE (pack_H magic) (\<lambda>a. bindE (pack_B version) (\<lambda>b. bindE (pack_B ptype) (\<lambda>c.
     bindE (pack_I seq) (\<lambda>d. bindE (pack_H len) (\<lambda>e. Inr (a @ b @ c @ d @ e))))))"

definition encrypt ::
  "crypto \<Rightarrow> bytes \<Rightarrow> bytes \<Rightarrow> int \<Rightarrow> int \<Rightarrow> int \<Rightarrow> int \<Rightarrow> bytes \<Rightarrow> cipher_suite \<Rightarrow>
   py_exc + bytes" where
  "encrypt C key nonce seq ptype version magic plaintext suite =
     (let enc_length = 12 + int (length plaintext) + int USMP_TAG_LEN in
      bindE (build_aad magic version ptype seq enc_length) (\<lambda>aad.
      let ciphertext_and_tag = aead_encrypt C suite key nonce plaintext aad
      in Inr (nonce @ ciphertext_and_tag)))"

definition decrypt ::
  "crypto \<Rightarrow> bytes \<Rightarrow> bytes \<Rightarrow> int \<Rightarrow> int \<Rightarrow> int \<Rightarrow> int \<Rightarrow> int \<Rightarrow> bytes \<Rightarrow> cipher_suite \<Rightarrow>
   py_exc + bytes" where
  "decrypt C key nonce seq ptype version magic len nonce_ct_tag suite =
     (if length nonce_ct_tag < 12 + USMP_TAG_LEN then Inl CryptoError
      else
        let received_nonce = take 12 nonce_ct_tag in
        if received_nonce \<noteq> nonce then Inl CryptoError
        else
          let ct_tag = drop 12 nonce_ct_tag in
          bindE (build_aad magic version ptype seq len) (\<lambda>aad.
          case aead_decrypt C suite key nonce ct_tag aad of
            Some plaintext \<Rightarrow> Inr plaintext
          | None \<Rightarrow> Inl CryptoError))"

section \<open>An instance of the parameters\<close>

text \<open>
  A deliberately simple instance that satisfies the four laws, at which the theorems with
  these hypotheses are instantiated.  It is no cipher: it only shows the laws can hold.
\<close>

definition sum_bytes :: "bytes \<Rightarrow> byte" where
  "sum_bytes bs = foldr (+) bs 0"

definition pad32 :: "bytes \<Rightarrow> bytes" where
  "pad32 bs = take 32 (bs @ replicate 32 0)"

definition demo_crypto :: crypto where
  "demo_crypto =
     \<lparr>x_public = pad32,
      x_exchange = (\<lambda>a b. Inr (map2 (+) (pad32 a) b)),
      hkdf_sha256 = (\<lambda>n salt info ikm. map (\<lambda>i. of_nat i + sum_bytes (salt @ info @ ikm)) [0..<n]),
      hmac_sha256 = (\<lambda>key msg. replicate 32 (sum_bytes (key @ msg))),
      aead_encrypt = (\<lambda>suite key nonce pt aad. pt @ replicate 16 (sum_bytes (key @ nonce @ pt @ aad))),
      aead_decrypt = (\<lambda>suite key nonce ct aad.
        let pt = take (length ct - 16) ct in
        if ct = pt @ replicate 16 (sum_bytes (key @ nonce @ pt @ aad)) then Some pt else None)\<rparr>"

lemma length_pad32 [simp]: "length (pad32 bs) = 32"
  by (simp add: pad32_def)

lemma pad32_id: "length bs = 32 \<Longrightarrow> pad32 bs = bs"
  by (simp add: pad32_def)

lemma map2_add_commute: "map2 (+) xs ys = map2 (+) ys xs" for xs ys :: bytes
proof (induction xs arbitrary: ys)
  case Nil
  then show ?case by simp
next
  case (Cons x xs)
  then show ?case by (cases ys) (simp_all add: add.commute)
qed

lemma demo_crypto_laws [simp]:
  "aead_law demo_crypto" "hkdf_law demo_crypto" "dh_law demo_crypto" "hmac_law demo_crypto"
  by (simp_all add: aead_law_def hkdf_law_def dh_law_def hmac_law_def demo_crypto_def
      map2_add_commute)

section \<open>Lemmas\<close>

lemma derive_rekey_swap:
  "derive_rekey_keys C False rx tx sid salt = prod.swap (derive_rekey_keys C True tx rx sid salt)"
  by (simp add: derive_rekey_keys_def Let_def)

lemma build_aad_ok:
  "\<lbrakk>0 \<le> m; m < 65536; 0 \<le> v; v < 256; 0 \<le> t; t < 256; 0 \<le> s; s < 4294967296; 0 \<le> n; n < 65536\<rbrakk>
   \<Longrightarrow> build_aad m v t s n
     = Inr (le_bytes 2 m @ le_bytes 1 v @ le_bytes 1 t @ le_bytes 4 s @ le_bytes 2 n)"
  by (simp add: build_aad_def pack_H_ok pack_B_ok pack_I_ok)

lemma encrypt_ok:
  assumes "0 \<le> s" "s < 4294967296" "length pt \<le> 452"
  shows "encrypt C key nonce s (packet_type_code t) USMP_VERSION USMP_MAGIC pt suite
    = Inr (nonce @ aead_encrypt C suite key nonce pt
        (le_bytes 2 USMP_MAGIC @ le_bytes 1 USMP_VERSION @ le_bytes 1 (packet_type_code t)
         @ le_bytes 4 s @ le_bytes 2 (28 + int (length pt))))"
proof -
  have "build_aad USMP_MAGIC USMP_VERSION (packet_type_code t) s (28 + int (length pt))
    = Inr (le_bytes 2 USMP_MAGIC @ le_bytes 1 USMP_VERSION @ le_bytes 1 (packet_type_code t)
         @ le_bytes 4 s @ le_bytes 2 (28 + int (length pt)))"
    using assms packet_type_code_bounds [of t] by (intro build_aad_ok) simp_all
  then show ?thesis by (simp add: encrypt_def Let_def del: le_bytes.simps)
qed

lemma encrypt_Inr_length:
  "aead_law C \<Longrightarrow> encrypt C key nonce s t v m pt suite = Inr ct \<Longrightarrow>
   length ct = length nonce + length pt + 16"
  by (auto simp: encrypt_def Let_def bindE_Inr aead_law_def)

lemma encrypt_Inr_nonce:
  "encrypt C key nonce s t v m pt suite = Inr ct \<Longrightarrow> take (length nonce) ct = nonce"
  by (auto simp: encrypt_def Let_def bindE_Inr)

lemma decrypt_Inl: "decrypt C key nonce s t v m n ct suite = Inl e \<Longrightarrow> e \<in> {CryptoError, StructError}"
  by (auto simp: decrypt_def Let_def bindE_Inl build_aad_def pack_defs
      split: if_splits option.splits)

lemma decrypt_encrypted:
  assumes "aead_law C" and "length nonce = 12"
    and "encrypt C key nonce seq ptype version magic plaintext suite = Inr ct"
  shows "decrypt C key nonce seq ptype version magic (int (length ct)) ct suite = Inr plaintext"
proof -
  from assms(3) obtain aad where aad: "build_aad magic version ptype seq (28 + int (length plaintext)) = Inr aad"
    and ct: "ct = nonce @ aead_encrypt C suite key nonce plaintext aad"
    by (auto simp: encrypt_def Let_def bindE_Inr)
  have "length ct = 28 + length plaintext"
    using ct assms(1,2) by (simp add: aead_law_def)
  with aad ct assms(1,2) show ?thesis
    by (simp add: decrypt_def Let_def aead_law_def)
qed

text \<open>
  Decrypting what \<open>encrypt\<close> produced, with the same key, nonce, sequence number, type and
  cipher suite and the length the frame header carries, gives back the plaintext.
\<close>

theorem decrypt_encrypt:
  assumes "aead_law C" and "length nonce = 12"
    and "encrypt C key nonce seq ptype version magic plaintext suite = Inr ct"
  shows "decrypt C key nonce seq ptype version magic (int (length ct)) ct suite = Inr plaintext"
  using assms by (rule decrypt_encrypted)

theorem decrypt_encrypt_witness:
  "\<exists>ct. encrypt demo_crypto [1] (replicate 12 7) 3 5 2 0xABCD [10, 20] AES256_GCM = Inr ct
     \<and> decrypt demo_crypto [1] (replicate 12 7) 3 5 2 0xABCD (int (length ct)) ct AES256_GCM
       = Inr [10, 20]"
proof -
  have enc: "\<exists>ct. encrypt demo_crypto [1] (replicate 12 7) 3 5 2 0xABCD [10, 20] AES256_GCM = Inr ct"
    by (simp add: encrypt_def Let_def build_aad_def pack_defs)
  then show ?thesis using decrypt_encrypt [of demo_crypto "replicate 12 7"] by auto
qed

text \<open>
  In-band rekeying agrees: the responder, whose receive key is the initiator's send key
  and the other way round, derives the initiator's two new keys with their roles swapped.
\<close>

theorem derive_rekey_keys_agree:
  "derive_rekey_keys C False rx tx sid salt = prod.swap (derive_rekey_keys C True tx rx sid salt)"
  by (rule derive_rekey_swap)

text \<open>
  The two ends of a handshake derive the same pair of directional keys from their own
  private key and the other's public key, or both reject the exchange.
\<close>

lemma derive_session_keys_agree:
  assumes "dh_law C"
  shows "derive_session_keys C priv_c (x_public C priv_s) nonce pub_c pub_s
       = derive_session_keys C priv_s (x_public C priv_c) nonce pub_c pub_s"
  using assms by (simp add: derive_session_keys_def dh_law_def)

lemma derive_session_keys_agree_instance:
  "derive_session_keys demo_crypto [1] (x_public demo_crypto [2]) [] [3] [4]
   = derive_session_keys demo_crypto [2] (x_public demo_crypto [1]) [] [3] [4]"
  by (rule derive_session_keys_agree) simp

lemma derive_rekey_keys_length:
  "hkdf_law C \<Longrightarrow> derive_rekey_keys C ini tx rx sid salt = (a, b) \<Longrightarrow> length a = 32 \<and> length b = 32"
  by (auto simp: derive_rekey_keys_def Let_def hkdf_law_def split: if_splits)

lemma derive_session_keys_length:
  "hkdf_law C \<Longrightarrow> derive_session_keys C priv peer n pc ps = Inr (a, b) \<Longrightarrow> length a = 32 \<and> length b = 32"
  by (auto simp: derive_session_keys_def Let_def hkdf_law_def bindE_Inr split: if_splits)

end
