(* ===== verification/Session.thy ===== *)
theory Session
  imports Transport Tcp Crypto
begin

text \<open>
  \<open>_session.py\<close>: an established session over any transport.  The state is the object's
  fields; every method is a coroutine on that state.  Sending holds the send lock for a
  whole message, so the fragments of a message leave back to back, as \<open>send_loop\<close> writes
  them.  The receive loop has a fuel argument: one unit per frame read.
\<close>

record 't session =
  s_transport :: 't
  s_info :: session_info
  s_recv_timeout :: "rat option"
  s_last_recv :: rat
  s_closed :: bool

definition on_transport :: "('t, 'e, 'a) io \<Rightarrow> ('t session, 'e, 'a) io" where
  "on_transport m s = (case m (s_transport s) of (out, t) \<Rightarrow> (out, s\<lparr>s_transport := t\<rparr>))"

definition update_info :: "(session_info \<Rightarrow> session_info) \<Rightarrow> 't session \<Rightarrow> 't session" where
  "update_info f s = s\<lparr>s_info := f (s_info s)\<rparr>"

definition new_session ::
  "'t transport_ops \<Rightarrow> 't \<Rightarrow> session_info \<Rightarrow> rat option \<Rightarrow> 't session" where
  "new_session ops t info tmo =
     (case op_monotonic ops t of (now, t') \<Rightarrow>
        \<lparr>s_transport = t', s_info = info, s_recv_timeout = tmo, s_last_recv = now,
         s_closed = False\<rparr>)"

section \<open>Sending\<close>

text \<open>\<open>struct.pack("<I", seq) + session_id[:8]\<close>.\<close>

definition session_nonce :: "session_info \<Rightarrow> int \<Rightarrow> py_exc + bytes" where
  "session_nonce info seq = bindE (pack_I seq) (\<lambda>b. Inr (b @ take 8 (session_id info)))"

definition seal :: "crypto \<Rightarrow> session_info \<Rightarrow> packet_type \<Rightarrow> bytes \<Rightarrow> py_exc + bytes" where
  "seal C info ptype plaintext =
     bindE (session_nonce info (tx_seq info)) (\<lambda>nonce.
     encrypt C (tx_key info) nonce (tx_seq info) (packet_type_code ptype) USMP_VERSION USMP_MAGIC
       plaintext (cipher_suite info))"

definition send_encrypted_locked ::
  "'t transport_ops \<Rightarrow> crypto \<Rightarrow> packet_type \<Rightarrow> bytes \<Rightarrow> ('t session, py_exc, unit) io" where
  "send_encrypted_locked ops C ptype plaintext s =
     (let seq = tx_seq (s_info s) in
      if seq \<ge> 0xFFFFFFFF \<and> ptype \<noteq> BYE then (Raise SequenceError, s)
      else
        bind_io (lift_sum (seal C (s_info s) ptype plaintext)) (\<lambda>ciphertext.
        bind_io (modify (update_info (tx_seq_update (\<lambda>_. min (seq + 1) 0xFFFFFFFF)))) (\<lambda>_.
        on_transport (op_write_frame ops ptype ciphertext seq))) s)"

definition send_encrypted ::
  "'t transport_ops \<Rightarrow> crypto \<Rightarrow> packet_type \<Rightarrow> bytes \<Rightarrow> ('t session, py_exc, unit) io" where
  "send_encrypted ops C ptype plaintext = send_encrypted_locked ops C ptype plaintext"

function send_loop ::
  "'t transport_ops \<Rightarrow> crypto \<Rightarrow> bytes \<Rightarrow> nat \<Rightarrow> ('t session, py_exc, unit) io" where
  "send_loop ops C data offset =
     (if offset < length data \<or> length data = 0 then
        let chunk = slice offset (offset + USMP_MAX_DATA_LEN) data;
            is_frag = offset + length chunk < length data;
            ptype = (if is_frag then DATA_FRAG else DATA)
        in bind_io (send_encrypted_locked ops C ptype chunk) (\<lambda>_.
           if length data = 0 then ret () else send_loop ops C data (offset + length chunk))
      else ret ())"
  by pat_completeness auto
termination
  by (relation "measure (\<lambda>(ops, C, data, offset). length data - offset)")
    (auto simp: length_slice)

declare send_loop.simps [simp del]

definition send :: "'t transport_ops \<Rightarrow> crypto \<Rightarrow> bytes \<Rightarrow> ('t session, py_exc, unit) io" where
  "send ops C data =
     (if length data > USMP_MAX_DATA_LEN * USMP_MAX_FRAMES then throw PayloadError
      else send_loop ops C data 0)"

definition ping :: "'t transport_ops \<Rightarrow> crypto \<Rightarrow> ('t session, py_exc, unit) io" where
  "ping ops C = send_encrypted ops C PING []"

definition send_pong :: "'t transport_ops \<Rightarrow> crypto \<Rightarrow> ('t session, py_exc, unit) io" where
  "send_pong ops C = send_encrypted ops C PONG []"

section \<open>Rekeying and closing\<close>

definition rekey_info :: "crypto \<Rightarrow> bool \<Rightarrow> bytes \<Rightarrow> session_info \<Rightarrow> session_info" where
  "rekey_info C is_initiator salt info =
     (let (new_tx, new_rx) =
        derive_rekey_keys C is_initiator (tx_key info) (rx_key info) (session_id info) salt
      in info\<lparr>tx_key := new_tx, rx_key := new_rx, tx_seq := 0, rx_seq := 0,
              rx_window_bitmap := 0\<rparr>)"

text \<open>Both ends then hand the new keys to the transport.\<close>

definition install_keys :: "'t transport_ops \<Rightarrow> 't session \<Rightarrow> 't session" where
  "install_keys ops s =
     s\<lparr>s_transport :=
         op_set_session_keys ops (tx_key (s_info s)) (rx_key (s_info s)) (s_transport s)\<rparr>"

definition rotate_keys ::
  "'t transport_ops \<Rightarrow> crypto \<Rightarrow> bool \<Rightarrow> bytes \<Rightarrow> ('t session, py_exc, unit) io" where
  "rotate_keys ops C is_initiator salt =
     modify (\<lambda>s. install_keys ops (update_info (rekey_info C is_initiator salt) s))"

definition rekey :: "'t transport_ops \<Rightarrow> crypto \<Rightarrow> bytes \<Rightarrow> ('t session, py_exc, unit) io" where
  "rekey ops C salt =
     bind_io (send_encrypted_locked ops C REKEY salt) (\<lambda>_. rotate_keys ops C True salt)"

definition bye :: "'t transport_ops \<Rightarrow> crypto \<Rightarrow> ('t session, py_exc, unit) io" where
  "bye ops C s =
     (if s_closed s then (Ret (), s)
      else
        finally_io
          (catch_io (send_encrypted ops C BYE [])
            (\<lambda>e. if e = SequenceError \<or> is_OSError e then ret () else throw e))
          (\<lambda>s. s\<lparr>s_transport := op_close ops (s_transport s)\<rparr>)
          (s\<lparr>s_closed := True\<rparr>))"

section \<open>The replay window\<close>

definition replay_drop :: "session_info \<Rightarrow> int \<Rightarrow> bool" where
  "replay_drop info seq \<longleftrightarrow>
     seq \<le> rx_seq info - 64
     \<or> seq \<le> rx_seq info
       \<and> rx_window_bitmap info AND push_bit (nat (rx_seq info - seq)) 1 \<noteq> 0"

definition window_update :: "int \<Rightarrow> session_info \<Rightarrow> session_info" where
  "window_update seq info =
     (if seq > rx_seq info then
        let shift = seq - rx_seq info in
        info\<lparr>rx_window_bitmap :=
               (if shift < 64
                then (push_bit (nat shift) (rx_window_bitmap info) AND 0xFFFFFFFFFFFFFFFF) OR 1
                else 1),
             rx_seq := seq\<rparr>
      else
        let offset = rx_seq info - seq in
        info\<lparr>rx_window_bitmap := rx_window_bitmap info OR push_bit (nat offset) 1\<rparr>)"

section \<open>Receiving\<close>

record recv_local =
  assembled_payload :: bytes
  frame_count :: nat
  ctrl_count :: nat
  ctrl_window_start :: rat
  expected_frag_seq :: int

text \<open>\<open>continue\<close> with new local variables, or \<open>return\<close>.\<close>

datatype recv_flow = Next recv_local | Done bytes

definition open_frame :: "crypto \<Rightarrow> session_info \<Rightarrow> usmp_frame \<Rightarrow> py_exc + bytes" where
  "open_frame C info frame =
     bindE (session_nonce info (fr_seq frame)) (\<lambda>nonce.
     decrypt C (rx_key info) nonce (fr_seq frame) (packet_type_code (fr_type frame))
       (fr_version frame) (fr_magic frame) (fr_length frame) (fr_payload frame)
       (cipher_suite info))"

text \<open>
  The first \<open>try\<close> block of the loop: reading a frame, the replay check and the decryption,
  and its handler, which on UDP drops what is malformed.  \<open>None\<close> is \<open>continue\<close>.
\<close>

definition verify_frame ::
  "'t transport_ops \<Rightarrow> crypto \<Rightarrow> usmp_frame \<Rightarrow> ('t session, py_exc, (usmp_frame \<times> bytes) option) io" where
  "verify_frame ops C frame =
     bind_io (gets s_info) (\<lambda>info.
     if \<not> is_reliable ops \<and> replay_drop info (fr_seq frame) then ret None
     else
       bind_io (lift_sum (open_frame C info frame)) (\<lambda>plaintext.
       bind_io (on_transport (monotonic ops)) (\<lambda>now.
       bind_io (modify (s_last_recv_update (\<lambda>_. now))) (\<lambda>_.
       ret (Some (frame, plaintext))))))"

definition drop_malformed ::
  "'t transport_ops \<Rightarrow> py_exc \<Rightarrow> ('t session, py_exc, (usmp_frame \<times> bytes) option) io" where
  "drop_malformed ops e =
     (if (is_USMPError e \<or> e = StructError) \<and> \<not> is_reliable ops then ret None else throw e)"

definition read_verified ::
  "'t transport_ops \<Rightarrow> crypto \<Rightarrow> ('t session, py_exc, (usmp_frame \<times> bytes) option) io" where
  "read_verified ops C =
     catch_io (bind_io (on_transport (op_read_frame ops True)) (verify_frame ops C))
       (drop_malformed ops)"

lemmas read_verified_defs = read_verified_def verify_frame_def drop_malformed_def

definition accept_seq :: "'t transport_ops \<Rightarrow> int \<Rightarrow> ('t session, py_exc, unit) io" where
  "accept_seq ops seq =
     (if \<not> is_reliable ops then
        bind_io (modify (update_info (window_update seq))) (\<lambda>_.
        modify (s_transport_update (op_confirm_authenticated ops seq)))
      else
        bind_io (gets (\<lambda>s. rx_seq (s_info s))) (\<lambda>expected.
        bind_io (throw_if (seq \<noteq> expected) SequenceError) (\<lambda>_.
        modify (update_info (rx_seq_update (\<lambda>n. n + 1))))))"

definition handle_control ::
  "'t transport_ops \<Rightarrow> crypto \<Rightarrow> packet_type \<Rightarrow> recv_local \<Rightarrow> ('t session, py_exc, recv_flow) io" where
  "handle_control ops C ptype l =
     bind_io (throw_if (length (assembled_payload l) > 0) SequenceError) (\<lambda>_.
     bind_io (if ptype = PING then send_pong ops C else ret ()) (\<lambda>_.
     bind_io (on_transport (monotonic ops)) (\<lambda>now.
     let l1 = (if now - ctrl_window_start l > 1 then l\<lparr>ctrl_window_start := now, ctrl_count := 0\<rparr>
               else l);
         l2 = l1\<lparr>ctrl_count := ctrl_count l1 + 1\<rparr>
     in bind_io (throw_if (ctrl_count l2 > 8) ConnectionClosedError) (\<lambda>_. ret (Next l2)))))"

definition handle_rekey ::
  "'t transport_ops \<Rightarrow> crypto \<Rightarrow> bytes \<Rightarrow> recv_local \<Rightarrow> ('t session, py_exc, recv_flow) io" where
  "handle_rekey ops C plaintext l =
     bind_io (throw_if (length (assembled_payload l) > 0) SequenceError) (\<lambda>_.
     bind_io (throw_if (length plaintext \<noteq> 32) PayloadError) (\<lambda>_.
     bind_io (rotate_keys ops C False plaintext) (\<lambda>_. ret (Next l))))"

definition handle_data ::
  "usmp_frame \<Rightarrow> bytes \<Rightarrow> recv_local \<Rightarrow> ('t session, py_exc, recv_flow) io" where
  "handle_data frame plaintext l =
     bind_io (throw_if (frame_count l > 0 \<and> fr_seq frame \<noteq> expected_frag_seq l) SequenceError) (\<lambda>_.
     let l1 = l\<lparr>expected_frag_seq :=
                 (if frame_count l > 0 then expected_frag_seq l + 1 else fr_seq frame + 1)\<rparr>;
         l2 = l1\<lparr>assembled_payload := assembled_payload l1 @ plaintext,
                 frame_count := frame_count l1 + 1\<rparr>
     in if fr_type frame = DATA then ret (Done (assembled_payload l2))
        else bind_io (throw_if (frame_count l2 \<ge> USMP_MAX_FRAMES) PayloadError) (\<lambda>_. ret (Next l2)))"

text \<open>The second \<open>try\<close> block: the body, and its handler that resets the reassembly on UDP.\<close>

definition dispatch_frame ::
  "'t transport_ops \<Rightarrow> crypto \<Rightarrow> usmp_frame \<Rightarrow> bytes \<Rightarrow> recv_local \<Rightarrow>
   ('t session, py_exc, recv_flow) io" where
  "dispatch_frame ops C frame plaintext l =
     (if fr_type frame = BYE then throw ConnectionClosedError
      else if fr_type frame \<in> {PING, PONG} then handle_control ops C (fr_type frame) l
      else if fr_type frame = REKEY then handle_rekey ops C plaintext l
      else if fr_type frame \<notin> {DATA, DATA_FRAG} then throw ValueError
      else handle_data frame plaintext l)"

definition guarded_dispatch ::
  "'t transport_ops \<Rightarrow> crypto \<Rightarrow> usmp_frame \<Rightarrow> bytes \<Rightarrow> recv_local \<Rightarrow>
   ('t session, py_exc, recv_flow) io" where
  "guarded_dispatch ops C frame plaintext l =
     catch_io (dispatch_frame ops C frame plaintext l)
       (\<lambda>e. if (is_FrameError e \<or> e = SequenceError \<or> e = ValueError) \<and> \<not> is_reliable ops
            then ret (Next (l\<lparr>assembled_payload := [], frame_count := 0, expected_frag_seq := 0\<rparr>))
            else throw e)"

definition recv_step ::
  "'t transport_ops \<Rightarrow> crypto \<Rightarrow> recv_local \<Rightarrow> ('t session, py_exc, recv_flow) io" where
  "recv_step ops C l =
     bind_io (read_verified ops C) (\<lambda>r.
     case r of
       None \<Rightarrow> ret (Next l)
     | Some (frame, plaintext) \<Rightarrow>
         bind_io (throw_if (fr_seq frame \<ge> 0xFFFFFFFF) SequenceError) (\<lambda>_.
         bind_io (accept_seq ops (fr_seq frame)) (\<lambda>_.
         guarded_dispatch ops C frame plaintext l)))"

text \<open>\<open>while True\<close>; \<open>None\<close> when the fuel is spent.\<close>

fun recv_loop ::
  "'t transport_ops \<Rightarrow> crypto \<Rightarrow> nat \<Rightarrow> recv_local \<Rightarrow> ('t session, py_exc, bytes option) io" where
  "recv_loop ops C 0 l = ret None"
| "recv_loop ops C (Suc fuel) l =
     bind_io (recv_step ops C l) (\<lambda>flow.
     case flow of Done data \<Rightarrow> ret (Some data) | Next l' \<Rightarrow> recv_loop ops C fuel l')"

definition recv_start :: "rat \<Rightarrow> recv_local" where
  "recv_start now =
     \<lparr>assembled_payload = [], frame_count = 0, ctrl_count = 0, ctrl_window_start = now,
      expected_frag_seq = 0\<rparr>"

definition recv_internal ::
  "'t transport_ops \<Rightarrow> crypto \<Rightarrow> nat \<Rightarrow> ('t session, py_exc, bytes option) io" where
  "recv_internal ops C fuel =
     bind_io (on_transport (monotonic ops)) (\<lambda>now. recv_loop ops C fuel (recv_start now))"

definition effective_timeout :: "rat option \<Rightarrow> 't session \<Rightarrow> rat option" where
  "effective_timeout timeout s = (case timeout of Some v \<Rightarrow> Some v | None \<Rightarrow> s_recv_timeout s)"

definition session_timer :: "'t transport_ops \<Rightarrow> rat option \<Rightarrow> 't session \<Rightarrow> 't session" where
  "session_timer ops x s = s\<lparr>s_transport := op_set_timeout ops x (s_transport s)\<rparr>"

definition recv ::
  "'t transport_ops \<Rightarrow> crypto \<Rightarrow> nat \<Rightarrow> rat option \<Rightarrow> ('t session, py_exc, bytes option) io" where
  "recv ops C fuel timeout s =
     (case effective_timeout timeout s of
        Some v \<Rightarrow>
          catch_io (wait_for PyTimeoutError (session_timer ops) v (recv_internal ops C fuel))
            (\<lambda>e. if e = PyTimeoutError then throw USMPTimeoutError else throw e) s
      | None \<Rightarrow> recv_internal ops C fuel s)"

lemma recv_eq:
  "recv ops C fuel timeout s =
     (case effective_timeout timeout s of
        None \<Rightarrow> recv_internal ops C fuel s
      | Some v \<Rightarrow>
          if v \<le> 0 then (Raise USMPTimeoutError, s)
          else (case recv_internal ops C fuel (session_timer ops (Some v) s) of
                  (Ret r, s') \<Rightarrow> (Ret r, session_timer ops None s')
                | (Raise e, s') \<Rightarrow>
                    (Raise (if e = PyTimeoutError then USMPTimeoutError else e), session_timer ops None s')
                | (Blocked, s') \<Rightarrow> (Raise USMPTimeoutError, session_timer ops None s')))"
  by (auto simp: recv_def catch_io_def wait_for_def split: option.splits prod.splits outcome.splits)

lemma recv_Ret:
  assumes "\<And>x s. session_timer ops x s = s" and "\<forall>v. effective_timeout timeout s = Some v \<longrightarrow> 0 < v"
    and "recv_internal ops C fuel s = (Ret r, s')"
  shows "recv ops C fuel timeout s = (Ret r, s')"
  using assms by (auto simp: recv_eq split: option.splits)

end
