(* ===== verification/Dicts.thy ===== *)
theory Dicts
  imports Prelude "HOL-Library.AList"
begin

text \<open>
  Python dictionaries as association lists in insertion order: \<open>d[k] = v\<close> is
  \<open>AList.update\<close>, which keeps the place of a key that is there and appends a new one,
  \<open>del d[k]\<close> and \<open>d.pop(k, None)\<close> are \<open>AList.delete\<close>, \<open>d.get(k)\<close> is \<open>map_of\<close>.  The
  locale \<open>bounded_dict\<close> is the contract of the tables that unauthenticated peers can fill;
  \<open>counter_inc\<close> and \<open>counter_dec\<close> keep the per-address connection counters.
\<close>

type_synonym ('k, 'v) dict = "('k \<times> 'v) list"

definition dict_ok :: "('k, 'v) dict \<Rightarrow> bool" where
  "dict_ok d \<longleftrightarrow> distinct (map fst d)"

lemma dict_empty: "(\<And>k. map_of d k = None) \<Longrightarrow> d = []"
  by (metis map_of_eq_empty_iff ext)

lemma dict_ok_update [simp]: "dict_ok d \<Longrightarrow> dict_ok (AList.update k v d)"
  by (simp add: dict_ok_def distinct_update)

lemma dict_ok_delete [simp]: "dict_ok d \<Longrightarrow> dict_ok (AList.delete k d)"
  by (simp add: dict_ok_def distinct_delete)

lemma dict_ok_filter [simp]: "dict_ok d \<Longrightarrow> dict_ok (filter P d)"
  by (simp add: dict_ok_def distinct_map_filter)

lemma map_of_update: "map_of (AList.update k v d) k' = (if k' = k then Some v else map_of d k')"
  by (simp add: update_conv')

lemma map_of_delete_iff: "map_of (AList.delete k d) k' = (if k' = k then None else map_of d k')"
  by (simp add: delete_conv')

lemma map_of_filter_Some:
  "dict_ok d \<Longrightarrow> map_of (filter P d) k = Some v \<longleftrightarrow> map_of d k = Some v \<and> P (k, v)"
  by (simp add: dict_ok_def distinct_map_filter map_of_eq_Some_iff)

lemma map_of_filter_None:
  "map_of d k = None \<Longrightarrow> map_of (filter P d) k = None"
  by (auto simp: map_of_eq_None_iff)

lemma length_update:
  "length (AList.update k v d) = (if map_of d k = None then Suc (length d) else length d)"
  by (induction d) auto

lemma length_delete_present:
  "map_of d k \<noteq> None \<Longrightarrow> Suc (length (AList.delete k d)) \<le> length d"
proof (induction d)
  case (Cons p d)
  then show ?case
    using length_delete_le [of k d] by (cases "fst p = k") (auto split: if_splits)
qed simp

lemma length_delete_eq:
  "dict_ok d \<Longrightarrow> k \<in> fst ` set d \<Longrightarrow> Suc (length (AList.delete k d)) = length d"
proof (induction d)
  case (Cons p d)
  show ?case
  proof (cases "fst p = k")
    case True
    then have "AList.delete k (p # d) = d"
      using Cons.prems(1) by (auto simp: dict_ok_def)
    then show ?thesis by simp
  next
    case False
    with Cons have "Suc (length (AList.delete k d)) = length d" by (auto simp: dict_ok_def)
    with False show ?thesis by (cases p) auto
  qed
qed simp

section \<open>Tables with a cap\<close>

locale bounded_dict =
  fixes step :: "'a \<Rightarrow> ('k, 'v) dict \<Rightarrow> ('k, 'v) dict" and cap :: nat
  assumes step_ok: "dict_ok d \<Longrightarrow> dict_ok (step a d)"
    and step_cap: "dict_ok d \<Longrightarrow> length d \<le> cap \<Longrightarrow> length (step a d) \<le> cap"
begin

lemma run_bounded:
  "dict_ok d \<Longrightarrow> length d \<le> cap \<Longrightarrow> dict_ok (fold step as d) \<and> length (fold step as d) \<le> cap"
  by (induction as arbitrary: d) (simp_all add: step_ok step_cap)

end

section \<open>Counters per address\<close>

text \<open>
  A counter that reaches zero is removed.  \<open>total\<close> is \<open>sum(d.values())\<close>.
\<close>

definition counter_inc :: "'k \<Rightarrow> ('k, int) dict \<Rightarrow> ('k, int) dict" where
  "counter_inc k d = AList.update k ((case map_of d k of Some n \<Rightarrow> n | None \<Rightarrow> 0) + 1) d"

definition counter_dec :: "'k \<Rightarrow> ('k, int) dict \<Rightarrow> ('k, int) dict" where
  "counter_dec k d =
     (case map_of d k of
        None \<Rightarrow> d
      | Some n \<Rightarrow>
          let d' = AList.update k (n - 1) d in
          if n - 1 \<le> 0 then AList.delete k d' else d')"

definition count_of :: "('k, int) dict \<Rightarrow> 'k \<Rightarrow> int" where
  "count_of d k = (case map_of d k of Some n \<Rightarrow> n | None \<Rightarrow> 0)"

definition total :: "('k, int) dict \<Rightarrow> int" where
  "total d = sum_list (map snd d)"

text \<open>The counters of a multiset of holders: exactly the positive counts are stored.\<close>

definition counts :: "('k, int) dict \<Rightarrow> 'k list \<Rightarrow> bool" where
  "counts d ks \<longleftrightarrow> dict_ok d \<and> (\<forall>k. map_of d k =
     (if k \<in> set ks then Some (int (count_list ks k)) else None))"

lemma counts_none [simp]: "counts d [] \<longleftrightarrow> d = []"
  by (auto simp: counts_def dict_ok_def intro: dict_empty)

lemma counts_count_of: "counts d ks \<Longrightarrow> count_of d k = int (count_list ks k)"
  by (simp add: counts_def count_of_def count_notin)

lemma counts_inc:
  assumes "counts d ks"
  shows "counts (counter_inc k d) (k # ks)"
  using assms by (auto simp: counts_def counter_inc_def map_of_update count_notin)

lemma count_list_remove1:
  "count_list (remove1 k ks) k' = (if k = k' then count_list ks k' - 1 else count_list ks k')"
  by (induction ks) (auto simp: count_list_0_iff Suc_diff_le dest: count_notin
      intro!: Suc_pred [symmetric] simp: Suc_le_eq count_list_0_iff)

lemma counts_dec:
  assumes "counts d ks" and "k \<in> set ks"
  shows "counts (counter_dec k d) (remove1 k ks)"
proof -
  have mem: "k' \<in> set xs \<longleftrightarrow> 0 < count_list xs k'" for k' and xs :: "'a list"
    by (simp add: count_list_0_iff flip: neq0_conv)
  have pos: "0 < count_list ks k" using assms(2) mem by metis
  have k: "map_of d k = Some (int (count_list ks k))" using assms by (simp add: counts_def)
  show ?thesis
  proof (cases "count_list ks k = 1")
    case True
    with k assms(1) show ?thesis
      by (auto simp: counts_def counter_dec_def map_of_update map_of_delete_iff Let_def mem
          count_list_remove1)
  next
    case False
    with pos have "1 < count_list ks k" by simp
    with k assms(1) show ?thesis
      by (auto simp: counts_def counter_dec_def map_of_update Let_def mem count_list_remove1 of_nat_diff)
  qed
qed

lemma counts_total:
  assumes "counts d ks"
  shows "total d = int (length ks)"
proof -
  have d: "distinct (map fst d)" using assms by (simp add: counts_def dict_ok_def)
  have dom: "fst ` set d = set ks"
    using assms by (auto simp: counts_def dom_map_of_conv_image_fst [symmetric] split: if_splits)
  have "total d = (\<Sum>k\<leftarrow>map fst d. the (map_of d k))"
    unfolding total_def map_map
    by (rule arg_cong [where f = sum_list], rule map_cong) (use d in auto)
  also have "\<dots> = (\<Sum>k\<in>fst ` set d. the (map_of d k))"
    using sum_list_distinct_conv_sum_set [OF d, of "\<lambda>k. the (map_of d k)"] by simp
  also have "\<dots> = (\<Sum>k\<in>set ks. int (count_list ks k))"
    using assms by (simp add: dom counts_def)
  also have "\<dots> = int (length ks)"
    using sum_count_set [of ks "set ks"] by (simp flip: of_nat_sum)
  finally show ?thesis .
qed

lemma counts_cong: "counts d ks \<Longrightarrow> (\<And>k. count_list ks' k = count_list ks k) \<Longrightarrow> counts d ks'"
proof -
  assume d: "counts d ks" and eq: "\<And>k. count_list ks' k = count_list ks k"
  have "k \<in> set ks' \<longleftrightarrow> k \<in> set ks" for k by (metis count_list_0_iff eq)
  with d eq show "counts d ks'" by (simp add: counts_def)
qed

end
