(* ===== verification/Limiter.thy ===== *)
theory Limiter
  imports Complex_Main Dicts Errors
begin

text \<open>
  The failed-handshake limiter of \<open>_handshake.py\<close>: the module's dictionary
  \<open>_failed_handshakes\<close> from an address to the number of failures, the end of the lockout
  and the time of the last attempt.  Floats are rationals, except that \<open>2.0 ** n\<close> raises
  \<open>OverflowError\<close> where the result exceeds the range of a double.
\<close>

type_synonym failed_table = "(string, int \<times> rat \<times> rat) dict"

definition float_pow2 :: "int \<Rightarrow> py_exc + rat" where
  "float_pow2 n = (if 1024 \<le> n then Inl OverflowError else Inr (2 ^ nat n))"

text \<open>The new end of the lockout after the \<open>fails\<close>-th failure.\<close>

definition new_lockout :: "int \<Rightarrow> rat \<Rightarrow> py_exc + rat" where
  "new_lockout fails now =
     (if fails \<ge> 5 then bindE (float_pow2 (fails - 5)) (\<lambda>p. Inr (now + min 60 p)) else Inr 0)"

text \<open>\<open>min(d.keys(), key=lambda k: d[k][2])\<close>: the first key with the least time.\<close>

definition oldest_key :: "failed_table \<Rightarrow> string" where
  "oldest_key d = fst (arg_min_list (\<lambda>(_, _, _, last_attempt). last_attempt) d)"

definition evict_oldest :: "string \<Rightarrow> failed_table \<Rightarrow> failed_table" where
  "evict_oldest limiter_key d =
     (if length d \<ge> 1000 \<and> map_of d limiter_key = None then AList.delete (oldest_key d) d else d)"

definition entry_expired :: "rat \<Rightarrow> int \<times> rat \<times> rat \<Rightarrow> bool" where
  "entry_expired now v =
     (case v of (_, lockout_until, last_attempt) \<Rightarrow>
        now - last_attempt > 600 \<or> lockout_until > 0 \<and> lockout_until < now)"

definition record_failed_handshake :: "string \<Rightarrow> rat \<Rightarrow> failed_table \<Rightarrow> py_exc + failed_table" where
  "record_failed_handshake limiter_key now d =
     (let fails = (case map_of d limiter_key of Some (f, _, _) \<Rightarrow> f | None \<Rightarrow> 0) + 1 in
      bindE (new_lockout fails now) (\<lambda>lockout_until.
      let d = AList.update limiter_key (fails, lockout_until, now) (evict_oldest limiter_key d)
      in Inr (filter (\<lambda>(_, v). \<not> entry_expired now v) d)))"

text \<open>The check at the start of a handshake.\<close>

definition locked_out :: "failed_table \<Rightarrow> string \<Rightarrow> rat \<Rightarrow> bool" where
  "locked_out d limiter_key now =
     (case map_of d limiter_key of Some (_, lockout_until, _) \<Rightarrow> lockout_until > now | None \<Rightarrow> False)"

section \<open>The size of the table\<close>

lemma oldest_key_in: "d \<noteq> [] \<Longrightarrow> map_of d (oldest_key d) \<noteq> None"
  using arg_min_list_in [of d] by (auto simp: oldest_key_def map_of_eq_None_iff)

lemma oldest_key_least:
  "(k, f, l, t) \<in> set d \<Longrightarrow> \<exists>f' l' t'. (oldest_key d, f', l', t') \<in> set d \<and> t' \<le> t"
proof -
  assume e: "(k, f, l, t) \<in> set d"
  let ?f = "\<lambda>p :: string \<times> int \<times> rat \<times> rat. case p of (_, _, _, last_attempt) \<Rightarrow> last_attempt"
  have ne: "d \<noteq> []" using e by auto
  have "?f (arg_min_list ?f d) = Min (?f ` set d)" by (rule f_arg_min_list_f [OF ne])
  also have "\<dots> \<le> ?f (k, f, l, t)" using e by (intro Min_le) (simp, rule imageI)
  finally have "?f (arg_min_list ?f d) \<le> t" by simp
  moreover have "arg_min_list ?f d \<in> set d" by (rule arg_min_list_in [OF ne])
  ultimately show ?thesis
    by (cases "arg_min_list ?f d") (auto simp: oldest_key_def)
qed

lemma evict_ok [simp]: "dict_ok d \<Longrightarrow> dict_ok (evict_oldest k d)"
  by (simp add: evict_oldest_def)

lemma length_update_evict:
  assumes "length d \<le> 1000"
  shows "length (AList.update k v (evict_oldest k d)) \<le> 1000"
proof (cases "length d \<ge> 1000 \<and> map_of d k = None")
  case True
  then have "d \<noteq> []" by auto
  then have "Suc (length (AList.delete (oldest_key d) d)) \<le> length d"
    by (intro length_delete_present oldest_key_in)
  with True assms show ?thesis by (simp add: evict_oldest_def length_update)
next
  case False
  with assms show ?thesis by (auto simp: evict_oldest_def length_update)
qed

text \<open>The table after a call, whether or not it raises.\<close>

definition failed_step :: "string \<times> rat \<Rightarrow> failed_table \<Rightarrow> failed_table" where
  "failed_step a d = (case record_failed_handshake (fst a) (snd a) d of Inr d' \<Rightarrow> d' | Inl _ \<Rightarrow> d)"

interpretation failed: bounded_dict failed_step 1000
proof
  fix a and d :: failed_table
  assume "dict_ok d"
  then show "dict_ok (failed_step a d)"
    by (auto simp: failed_step_def record_failed_handshake_def Let_def bindE_Inr split: sum.split)
next
  fix a and d :: failed_table
  assume "length d \<le> 1000"
  then have "length (AList.update k v (evict_oldest k d)) \<le> 1000" for k v
    by (rule length_update_evict)
  then show "length (failed_step a d) \<le> 1000"
    using \<open>length d \<le> 1000\<close>
    by (auto simp: failed_step_def record_failed_handshake_def Let_def bindE_Inr split: sum.split
        intro: order_trans [OF length_filter_le])
qed

text \<open>
  The limiter cannot be used to exhaust memory: after any sequence of failures, from any
  addresses at any times, the table has at most 1000 entries, one per address.
\<close>

theorem failed_table_bounded:
  "dict_ok (fold failed_step failures []) \<and> length (fold failed_step failures []) \<le> 1000"
  by (rule failed.run_bounded) (simp_all add: dict_ok_def)

section \<open>Lockouts\<close>

lemma new_lockout_range:
  assumes "new_lockout fails now = Inr l"
  shows "fails < 5 \<and> l = 0 \<or> 5 \<le> fails \<and> now + 1 \<le> l \<and> l \<le> now + 60"
proof (cases "5 \<le> fails")
  case True
  with assms have "l = now + min 60 (2 ^ nat (fails - 5))"
    by (auto simp: new_lockout_def float_pow2_def bindE_Inr split: if_splits)
  with True show ?thesis by simp
qed (use assms in \<open>simp add: new_lockout_def\<close>)

lemma map_of_evict: "map_of (evict_oldest k d) k = map_of d k"
  by (cases "d = []") (auto simp: evict_oldest_def map_of_delete_iff dest: oldest_key_in)

lemma record_own_entry:
  assumes "dict_ok d" and "record_failed_handshake k now d = Inr d'"
  shows "\<exists>l. new_lockout ((case map_of d k of Some (f, _, _) \<Rightarrow> f | None \<Rightarrow> 0) + 1) now = Inr l
     \<and> map_of d' k = Some ((case map_of d k of Some (f, _, _) \<Rightarrow> f | None \<Rightarrow> 0) + 1, l, now)"
proof -
  let ?fails = "(case map_of d k of Some (f, _, _) \<Rightarrow> f | None \<Rightarrow> 0) + 1"
  from assms(2) obtain l where l: "new_lockout ?fails now = Inr l"
    and d': "d' = filter (\<lambda>(_, v). \<not> entry_expired now v)
        (AList.update k (?fails, l, now) (evict_oldest k d))"
    by (auto simp: record_failed_handshake_def Let_def bindE_Inr)
  have "\<not> entry_expired now (?fails, l, now)"
    using new_lockout_range [OF l] by (auto simp: entry_expired_def)
  with assms(1) l show ?thesis
    by (simp add: d' map_of_filter_Some map_of_update)
qed

text \<open>
  A failure is always counted: after it the entry of the address has one failure more and
  the current time, and from the fifth failure on the address is locked out, for at least
  one and at most sixty seconds; the entry survives the pruning that follows.
\<close>

theorem failure_locks_out:
  assumes "dict_ok d" and "record_failed_handshake k now d = Inr d'"
    and "map_of d k = Some (fails, until, last_attempt)" and "4 \<le> fails"
  shows "\<exists>l. map_of d' k = Some (fails + 1, l, now) \<and> now + 1 \<le> l \<and> l \<le> now + 60
     \<and> (\<forall>t. now \<le> t \<and> t < l \<longrightarrow> locked_out d' k t)"
proof -
  obtain l where l: "new_lockout (fails + 1) now = Inr l" "map_of d' k = Some (fails + 1, l, now)"
    using record_own_entry [OF assms(1,2)] assms(3) by auto
  with new_lockout_range [OF l(1)] assms(4) show ?thesis by (auto simp: locked_out_def)
qed

theorem failure_locks_out_witness:
  "\<exists>d' l. record_failed_handshake ''h'' 7 [(''h'', 4, 0, 6)] = Inr d' \<and> map_of d' ''h'' = Some (5, l, 7)"
proof -
  obtain d' where d': "record_failed_handshake ''h'' 7 [(''h'', 4, 0, 6)] = Inr d'"
    by (simp add: record_failed_handshake_def new_lockout_def float_pow2_def Let_def)
  from failure_locks_out [OF _ d'] d' show ?thesis by (auto simp: dict_ok_def)
qed

text \<open>
  The limiter fails open against a persistent peer: from the 1029th failure of an address
  on, recording another one raises \<open>OverflowError\<close> (\<open>2.0 ** 1024\<close>, before the cap of 60
  seconds applies) and leaves the table, and so the lockout that has run out, as it was.
\<close>

theorem limiter_overflow:
  assumes "map_of d k = Some (fails, until, last_attempt)" and "1028 \<le> fails"
  shows "record_failed_handshake k now d = Inl OverflowError \<and> failed_step (k, now) d = d
    \<and> (until \<le> now \<longrightarrow> \<not> locked_out (failed_step (k, now) d) k now)"
  using assms
  by (simp add: record_failed_handshake_def failed_step_def new_lockout_def float_pow2_def Let_def locked_out_def)

theorem limiter_overflow_witness:
  "record_failed_handshake ''h'' 100 [(''h'', 1028, 90, 30)] = Inl OverflowError"
  using limiter_overflow [of "[(''h'', 1028, 90, 30)]" "''h''" 1028 90 30 100] by simp

end
