(* ===== verification/Handshake.thy ===== *)
theory Handshake
  imports Session Limiter
begin

text \<open>
  \<open>_handshake.py\<close>: the server and the client side of the key exchange, over any transport.
  The server's state is its transport and the table of failed handshakes; the randomness
  each side draws is an argument.  The pre-shared key of the server comes from a value of
  one of the four kinds the code distinguishes.
\<close>

section \<open>Pre-shared keys\<close>

text \<open>\<open>bytes\<close>, \<open>None\<close>, or another object with the result of \<open>len\<close>, if it has one.\<close>

datatype py_value = Py_bytes bytes | Py_none | Py_other "nat option"

text \<open>What the call of a PSK function does: \<open>bytes\<close>, an awaitable and its result, or another object.\<close>

datatype psk_reply = Reply_bytes bytes | Reply_awaitable py_value | Reply_other | Reply_raises py_exc

datatype psk_source =
    Psk_bytes bytes
  | Psk_dict "(bytes, py_value) dict"
  | Psk_callable "bytes \<Rightarrow> psk_reply"
  | Psk_invalid

definition dict_value :: "(bytes, py_value) dict \<Rightarrow> bytes \<Rightarrow> py_value" where
  "dict_value d k = (case map_of d k of Some v \<Rightarrow> v | None \<Rightarrow> Py_none)"

definition find_psk :: "psk_source \<Rightarrow> bytes \<Rightarrow> py_exc + py_value" where
  "find_psk src dev_id =
     (case src of
        Psk_dict d \<Rightarrow>
          let v = dict_value d dev_id;
              v = (if v = Py_none then dict_value d [] else v)
          in if v = Py_none then Inl HandshakeError else Inr v
      | Psk_bytes k \<Rightarrow> Inr (Py_bytes k)
      | Psk_callable f \<Rightarrow>
          (case f dev_id of
             Reply_bytes k \<Rightarrow> Inr (Py_bytes k)
           | Reply_awaitable v \<Rightarrow> Inr v
           | Reply_other \<Rightarrow> Inl HandshakeError
           | Reply_raises e \<Rightarrow> Inl e)
      | Psk_invalid \<Rightarrow> Inl HandshakeError)"

definition resolve_psk :: "psk_source \<Rightarrow> bytes \<Rightarrow> py_exc + bytes" where
  "resolve_psk src dev_id =
     bindE (find_psk src dev_id) (\<lambda>v.
     case v of
       Py_bytes k \<Rightarrow> if length k < 16 then Inl HandshakeError else Inr k
     | _ \<Rightarrow> Inl HandshakeError)"

section \<open>Messages\<close>

text \<open>\<open>struct.pack("<H", USMP_MAGIC) + bytes([USMP_VERSION, ptype])\<close>.\<close>

definition hmac_prefix :: "packet_type \<Rightarrow> bytes" where
  "hmac_prefix ptype =
     le_bytes 2 USMP_MAGIC @ [word_of_int USMP_VERSION, word_of_int (packet_type_code ptype)]"

definition compute_hmac :: "crypto \<Rightarrow> bytes \<Rightarrow> bytes list \<Rightarrow> bytes" where
  "compute_hmac C psk parts = hmac_sha256 C psk (concat parts)"

definition client_hmac :: "crypto \<Rightarrow> bytes \<Rightarrow> bytes \<Rightarrow> bytes \<Rightarrow> bytes \<Rightarrow> bytes \<Rightarrow> bytes" where
  "client_hmac C psk nonce dev_id pub_c pub_s =
     compute_hmac C psk [hmac_prefix HELLO_ACK, nonce, dev_id, pub_c, pub_s]"

definition server_hmac :: "crypto \<Rightarrow> bytes \<Rightarrow> bytes \<Rightarrow> bytes \<Rightarrow> bytes \<Rightarrow> bytes \<Rightarrow> bytes" where
  "server_hmac C psk nonce sess_id pub_c pub_s =
     compute_hmac C psk [hmac_prefix SESSION_OK, nonce, sess_id, pub_c, pub_s]"

text \<open>\<open>try: read_frame(verify_crc=False) except IncompleteReadError: raise HandshakeError\<close>.\<close>

definition read_handshake :: "'t transport_ops \<Rightarrow> ('t, py_exc, usmp_frame) io" where
  "read_handshake ops =
     catch_io (op_read_frame ops False)
       (\<lambda>e. if e = IncompleteReadError then throw HandshakeError else throw e)"

text \<open>A frame of the expected type and one of the expected lengths.\<close>

definition expect_frame :: "packet_type \<Rightarrow> int list \<Rightarrow> usmp_frame \<Rightarrow> ('s, py_exc, unit) io" where
  "expect_frame ptype lengths frame =
     bind_io (throw_if (fr_type frame \<noteq> ptype) HandshakeError) (\<lambda>_.
     throw_if (fr_length frame \<notin> set lengths) HandshakeError)"

section \<open>The server\<close>

record 't server_side =
  h_transport :: 't
  h_failed :: failed_table

definition on_link :: "('t, 'e, 'a) io \<Rightarrow> ('t server_side, 'e, 'a) io" where
  "on_link m s = (case m (h_transport s) of (out, t) \<Rightarrow> (out, s\<lparr>h_transport := t\<rparr>))"

record server_random =
  r_private :: bytes
  r_nonce :: bytes
  r_session_id :: bytes

text \<open>The messages: HELLO and CHALLENGE, then HELLO_ACK and SESSION_OK.\<close>

definition server_exchange ::
  "'t transport_ops \<Rightarrow> crypto \<Rightarrow> server_random \<Rightarrow> psk_source \<Rightarrow>
   ('t, py_exc, bytes \<times> bytes \<times> bytes) io" where
  "server_exchange ops C rnd psk =
     bind_io (read_handshake ops) (\<lambda>hello.
     bind_io (expect_frame HELLO [38, 54] hello) (\<lambda>_.
     let dev_id = take USMP_DEVICE_ID_LEN (fr_payload hello);
         pub_c = slice USMP_DEVICE_ID_LEN (USMP_DEVICE_ID_LEN + USMP_PUB_KEY_LEN) (fr_payload hello)
     in
     bind_io (lift_sum (resolve_psk psk dev_id)) (\<lambda>resolved_psk.
     let (priv_s, pub_s) = generate_keypair C (r_private rnd);
         nonce = r_nonce rnd
     in
     bind_io (op_write_frame ops CHALLENGE (nonce @ pub_s) 0) (\<lambda>_.
     bind_io (lift_sum (derive_session_keys C priv_s pub_c nonce pub_c pub_s)) (\<lambda>(k_c2s, k_s2c).
     bind_io (read_handshake ops) (\<lambda>ack.
     bind_io (expect_frame HELLO_ACK [int USMP_HMAC_LEN] ack) (\<lambda>_.
     let expected_client = client_hmac C resolved_psk nonce dev_id pub_c pub_s;
         received_client = take USMP_HMAC_LEN (fr_payload ack)
     in
     bind_io (throw_if (expected_client \<noteq> received_client) AuthError) (\<lambda>_.
     let sess_id = r_session_id rnd;
         hmac_server = server_hmac C resolved_psk nonce sess_id pub_c pub_s
     in
     bind_io (modify (op_set_session_keys ops k_s2c k_c2s)) (\<lambda>_.
     bind_io (op_write_frame ops SESSION_OK (sess_id @ hmac_server) 0) (\<lambda>_.
     ret (dev_id, k_s2c, k_c2s)))))))))))"

text \<open>
  The body of the outer \<open>try\<close>: the entry of the peer is removed after SESSION_OK is written
  and before the session information is built.
\<close>

definition server_body ::
  "'t transport_ops \<Rightarrow> crypto \<Rightarrow> server_random \<Rightarrow> psk_source \<Rightarrow> string \<Rightarrow>
   ('t server_side, py_exc, session_info) io" where
  "server_body ops C rnd psk limiter_key =
     bind_io (on_link (server_exchange ops C rnd psk)) (\<lambda>(dev_id, k_s2c, k_c2s).
     bind_io (modify (h_failed_update (AList.delete limiter_key))) (\<lambda>_.
     lift_sum (SessionInfo dev_id (r_session_id rnd) k_s2c k_c2s)))"

definition record_failure ::
  "'t transport_ops \<Rightarrow> string \<Rightarrow> ('t server_side, py_exc, unit) io" where
  "record_failure ops limiter_key =
     bind_io (on_link (monotonic ops)) (\<lambda>now.
     bind_io (gets h_failed) (\<lambda>d.
     bind_io (lift_sum (record_failed_handshake limiter_key now d)) (\<lambda>d'.
     modify (h_failed_update (\<lambda>_. d')))))"

text \<open>The two \<open>except\<close> clauses: failures of the transport, and failures that count.\<close>

definition counted_failure :: "py_exc \<Rightarrow> bool" where
  "counted_failure e \<longleftrightarrow>
     \<not> (is_OSError e \<or> is_EOFError e) \<and> (is_USMPError e \<or> e = ValueError \<or> e = StructError)"

definition limiter_key_of :: "peer \<Rightarrow> int \<Rightarrow> string" where
  "limiter_key_of addr ident =
     (case addr of
        Peer_addr host _ \<Rightarrow> host
      | Peer_other s \<Rightarrow> s
      | No_peer \<Rightarrow> ''conn_'' @ str_int ident)"

definition server_handshake ::
  "'t transport_ops \<Rightarrow> crypto \<Rightarrow> server_random \<Rightarrow> int \<Rightarrow> psk_source \<Rightarrow>
   ('t server_side, py_exc, session_info) io" where
  "server_handshake ops C rnd ident psk s =
     (let limiter_key = limiter_key_of (op_peername ops (h_transport s)) ident in
      bind_io (on_link (monotonic ops)) (\<lambda>now.
      bind_io (gets h_failed) (\<lambda>d.
      bind_io (throw_if (locked_out d limiter_key now) HandshakeError) (\<lambda>_.
      catch_io (server_body ops C rnd psk limiter_key)
        (\<lambda>e. if counted_failure e
             then bind_io (record_failure ops limiter_key) (\<lambda>_. throw e)
             else throw e)))) s)"

section \<open>The client\<close>

definition read_challenge ::
  "'t transport_ops \<Rightarrow> bytes \<Rightarrow> bytes \<Rightarrow> ('t, py_exc, usmp_frame) io" where
  "read_challenge ops dev_id pub_c =
     bind_io (read_handshake ops) (\<lambda>frame.
     if fr_type frame = HELLO_RETRY then
       bind_io (throw_if (fr_length frame \<noteq> 16) HandshakeError) (\<lambda>_.
       let cookie = take 16 (fr_payload frame) in
       bind_io (op_write_frame ops HELLO (dev_id @ pub_c @ cookie) 1) (\<lambda>_.
       read_handshake ops))
     else ret frame)"

definition client_handshake ::
  "'t transport_ops \<Rightarrow> crypto \<Rightarrow> bytes \<Rightarrow> bytes \<Rightarrow> bytes option \<Rightarrow>
   ('t, py_exc, session_info) io" where
  "client_handshake ops C rnd psk dev =
     bind_io (throw_if (length psk < 16) ValueError) (\<lambda>_.
     case dev of
       None \<Rightarrow> throw ValueError
     | Some dev_id \<Rightarrow>
     let (priv_c, pub_c) = generate_keypair C rnd in
     bind_io (op_write_frame ops HELLO (dev_id @ pub_c) 0) (\<lambda>_.
     bind_io (read_challenge ops dev_id pub_c) (\<lambda>challenge.
     bind_io (expect_frame CHALLENGE [int (USMP_NONCE_LEN + USMP_PUB_KEY_LEN)] challenge) (\<lambda>_.
     let nonce = take USMP_NONCE_LEN (fr_payload challenge);
         pub_s = slice USMP_NONCE_LEN (USMP_NONCE_LEN + USMP_PUB_KEY_LEN) (fr_payload challenge)
     in
     bind_io (lift_sum (derive_session_keys C priv_c pub_s nonce pub_c pub_s)) (\<lambda>(k_c2s, k_s2c).
     bind_io (op_write_frame ops HELLO_ACK (client_hmac C psk nonce dev_id pub_c pub_s) 2) (\<lambda>_.
     bind_io (read_handshake ops) (\<lambda>ok.
     bind_io (expect_frame SESSION_OK [int (USMP_SESSION_ID_LEN + USMP_HMAC_LEN)] ok) (\<lambda>_.
     let sess_id = take USMP_SESSION_ID_LEN (fr_payload ok);
         hmac_server = slice USMP_SESSION_ID_LEN (USMP_SESSION_ID_LEN + USMP_HMAC_LEN) (fr_payload ok);
         expected_server = server_hmac C psk nonce sess_id pub_c pub_s
     in
     bind_io (throw_if (expected_server \<noteq> hmac_server) AuthError) (\<lambda>_.
     bind_io (modify (op_set_session_keys ops k_c2s k_s2c)) (\<lambda>_.
     lift_sum (SessionInfo dev_id sess_id k_c2s k_s2c)))))))))))"

end
