(* ===== verification/Udp.thy ===== *)
theory Udp
  imports Transport Crypto
begin

text \<open>
  \<open>UDPStream\<close> of \<open>transport/udp.py\<close>: a stream over datagrams with a stop-and-wait ARQ.  The
  state holds the object's fields and its environment: the datagrams handed to the asyncio
  endpoint so far, the time, and the events that arrive while a coroutine waits, each with
  the time of its arrival.  Time passes only while the coroutine waits; a timeout set on it
  (\<open>asyncio.wait_for\<close>) cancels it when its waiting reaches the deadline.
\<close>

section \<open>State\<close>

datatype net_event = Datagram bytes | Lost
  \<comment> \<open>\<open>datagram_received\<close>, and \<open>error_received\<close> or \<open>connection_lost\<close>\<close>

record udp_stream =
  u_remote_addr :: "string \<times> int"
  u_is_server :: bool
  u_read_buffer :: bytes
  u_last_rx_seq :: int
  u_last_rx_type :: int
  u_pending_data :: "bytes option"
  u_pending_seq :: "int option"
  u_pending_type :: "int option"
  u_ack_received :: bool
  u_closed :: bool
  u_tx_key :: "bytes option"
  u_rx_key :: "bytes option"
  u_srtt :: rat
  u_rttvar :: rat
  u_rto :: rat
  u_sent :: "bytes list"
  u_endpoint_closed :: bool
  u_now :: rat
  u_deadline :: "rat option"
  u_incoming :: "(rat \<times> net_event) list"

abbreviation (input) UTACK_MAGIC :: bytes where "UTACK_MAGIC \<equiv> [0xAC, 0xAC]"
abbreviation (input) UTACK_MAC_LEN :: nat where "UTACK_MAC_LEN \<equiv> 8"
abbreviation (input) UTACK_HEADER_LEN :: nat where "UTACK_HEADER_LEN \<equiv> 7"
abbreviation (input) MAX_READ_BUFFER :: nat where "MAX_READ_BUFFER \<equiv> 4096"

definition UDPStream ::
  "string \<times> int \<Rightarrow> bool \<Rightarrow> rat \<Rightarrow> (rat \<times> net_event) list \<Rightarrow> udp_stream" where
  "UDPStream remote_addr is_server now incoming =
     \<lparr>u_remote_addr = remote_addr, u_is_server = is_server, u_read_buffer = [],
      u_last_rx_seq = -1, u_last_rx_type = -1, u_pending_data = None, u_pending_seq = None,
      u_pending_type = None, u_ack_received = False, u_closed = False, u_tx_key = None,
      u_rx_key = None, u_srtt = 2 / 10, u_rttvar = 1 / 10, u_rto = 5 / 10,
      u_sent = [], u_endpoint_closed = False, u_now = now,
      u_deadline = None, u_incoming = incoming\<rparr>"

definition udp_set_session_keys :: "bytes \<Rightarrow> bytes \<Rightarrow> udp_stream \<Rightarrow> udp_stream" where
  "udp_set_session_keys tx rx u = u\<lparr>u_tx_key := Some tx, u_rx_key := Some rx\<rparr>"

definition sendto :: "bytes \<Rightarrow> udp_stream \<Rightarrow> udp_stream" where
  "sendto data u = u\<lparr>u_sent := u_sent u @ [data]\<rparr>"

definition udp_close :: "udp_stream \<Rightarrow> udp_stream" where
  "udp_close u =
     (let u = u\<lparr>u_closed := True\<rparr> in
      if \<not> u_is_server u then u\<lparr>u_endpoint_closed := True\<rparr> else u)"

section \<open>Acknowledgements\<close>

definition utack_mac :: "crypto \<Rightarrow> bytes \<Rightarrow> bytes \<Rightarrow> bytes" where
  "utack_mac C key header = take UTACK_MAC_LEN (hmac_sha256 C key header)"

text \<open>\<open>UTACK_MAGIC + bytes([type_val]) + struct.pack("<I", seq_val)\<close>, on values unpacked before.\<close>

definition utack_header :: "int \<Rightarrow> int \<Rightarrow> bytes" where
  "utack_header type_val seq_val = UTACK_MAGIC @ [word_of_int type_val] @ le_bytes 4 seq_val"

definition build_utack :: "crypto \<Rightarrow> udp_stream \<Rightarrow> int \<Rightarrow> int \<Rightarrow> bytes" where
  "build_utack C u type_val seq_val =
     (let header = utack_header type_val seq_val in
      case u_rx_key u of
        Some k \<Rightarrow> if type_val \<ge> 5 then header @ utack_mac C k header else header
      | None \<Rightarrow> header)"

definition is_utack :: "bytes \<Rightarrow> bool" where
  "is_utack data \<longleftrightarrow> UTACK_HEADER_LEN \<le> length data \<and> take 2 data = UTACK_MAGIC"

text \<open>The checks on a session-phase acknowledgement: a key, the length, and the MAC.\<close>

definition utack_authentic :: "crypto \<Rightarrow> udp_stream \<Rightarrow> bytes \<Rightarrow> bool" where
  "utack_authentic C u data \<longleftrightarrow>
     (case u_tx_key u of
        None \<Rightarrow> False
      | Some k \<Rightarrow> UTACK_HEADER_LEN + UTACK_MAC_LEN \<le> length data
          \<and> utack_mac C k (take UTACK_HEADER_LEN data)
            = slice UTACK_HEADER_LEN (UTACK_HEADER_LEN + UTACK_MAC_LEN) data)"

definition feed_utack :: "crypto \<Rightarrow> bytes \<Rightarrow> udp_stream \<Rightarrow> udp_stream" where
  "feed_utack C data u =
     (let type_val = u8_at data 2; seq_val = u32_at data 3 in
      if type_val \<ge> 5 \<and> \<not> utack_authentic C u data then u
      else if Some seq_val = u_pending_seq u \<and> Some type_val = u_pending_type u
      then u\<lparr>u_ack_received := True\<rparr>
      else u)"

section \<open>Incoming datagrams\<close>

definition handshake_duplicate :: "udp_stream \<Rightarrow> int \<Rightarrow> bool" where
  "handshake_duplicate u type_val \<longleftrightarrow>
     type_val = u_last_rx_type u
     \<or> type_val = 0x0A \<and> u_last_rx_type u \<noteq> -1
     \<or> type_val = 2 \<and> u_last_rx_type u = 4
     \<or> u_is_server u \<and> u_last_rx_type u \<noteq> -1 \<and> type_val \<le> u_last_rx_type u"

text \<open>The end of \<open>feed_packet\<close>: the cap on the buffer, the acknowledgement, the append.\<close>

definition accept_datagram :: "crypto \<Rightarrow> bytes \<Rightarrow> int \<Rightarrow> int \<Rightarrow> udp_stream \<Rightarrow> udp_stream" where
  "accept_datagram C data type_val seq_val u =
     (if length (u_read_buffer u) + length data > MAX_READ_BUFFER then u
      else let u = sendto (build_utack C u type_val seq_val) u in
           u\<lparr>u_read_buffer := u_read_buffer u @ data\<rparr>)"

definition feed_frame :: "crypto \<Rightarrow> bytes \<Rightarrow> udp_stream \<Rightarrow> udp_stream" where
  "feed_frame C data u =
     (let type_val = u8_at data 3; seq_val = u32_at data 4 in
      if type_val < 5 \<or> type_val = 0x0A then
        if handshake_duplicate u type_val then sendto (build_utack C u type_val seq_val) u
        else accept_datagram C data type_val seq_val (u\<lparr>u_last_rx_type := type_val\<rparr>)
      else if u_last_rx_seq u \<noteq> -1 \<and> seq_val \<le> u_last_rx_seq u - 64
      then sendto (build_utack C u type_val seq_val) u
      else accept_datagram C data type_val seq_val u)"

definition feed_packet :: "crypto \<Rightarrow> bytes \<Rightarrow> udp_stream \<Rightarrow> udp_stream" where
  "feed_packet C data u =
     (if u_closed u then u
      else if is_utack data then feed_utack C data u
      else if length data < USMP_HEADER_SIZE then u
      else if u16_at data 0 \<noteq> 0xABCD then u
      else if u16_at data 8 > int USMP_MAX_PAYLOAD then u
      else if int (length data) \<noteq> int USMP_HEADER_SIZE + u16_at data 8 then u
      else feed_frame C data u)"

definition udp_confirm_authenticated :: "int \<Rightarrow> udp_stream \<Rightarrow> udp_stream" where
  "udp_confirm_authenticated seq u =
     (if seq > u_last_rx_seq u then u\<lparr>u_last_rx_seq := seq\<rparr> else u)"

text \<open>\<open>ClientUDPProtocol\<close>: what the events of the endpoint do to the stream.\<close>

definition net_event :: "crypto \<Rightarrow> net_event \<Rightarrow> udp_stream \<Rightarrow> udp_stream" where
  "net_event C ev u = (case ev of Datagram data \<Rightarrow> feed_packet C data u | Lost \<Rightarrow> udp_close u)"

text \<open>The next event happens: at its time, or now if it is overdue.\<close>

definition next_event :: "crypto \<Rightarrow> rat \<times> net_event \<Rightarrow> (rat \<times> net_event) list \<Rightarrow> udp_stream \<Rightarrow> udp_stream" where
  "next_event C ev rest u =
     net_event C (snd ev) (u\<lparr>u_now := max (u_now u) (fst ev), u_incoming := rest\<rparr>)"

text \<open>The timer on the waiting coroutine, and its cancellation at the deadline.\<close>

definition udp_set_timeout :: "rat option \<Rightarrow> udp_stream \<Rightarrow> udp_stream" where
  "udp_set_timeout timeout u = u\<lparr>u_deadline := map_option ((+) (u_now u)) timeout\<rparr>"

definition in_time :: "udp_stream \<Rightarrow> rat \<Rightarrow> bool" where
  "in_time u t \<longleftrightarrow> (case u_deadline u of None \<Rightarrow> True | Some d \<Rightarrow> max (u_now u) t < d)"

definition wait_until :: "rat \<Rightarrow> udp_stream \<Rightarrow> udp_stream" where
  "wait_until t u = u\<lparr>u_now := max (u_now u) t\<rparr>"

definition expire :: "udp_stream \<Rightarrow> udp_stream" where
  "expire u = (case u_deadline u of None \<Rightarrow> u | Some d \<Rightarrow> wait_until d u)"

section \<open>Reading\<close>

text \<open>
  \<open>readexactly\<close>: while the buffer is short, wait for the next event (the list is the fuel);
  with no event left, or none in time, the coroutine waits for ever or until it is cancelled.
\<close>

fun udp_read_wait ::
  "crypto \<Rightarrow> nat \<Rightarrow> (rat \<times> net_event) list \<Rightarrow> (udp_stream, py_exc, bytes) io" where
  "udp_read_wait C n evs u =
     (if length (u_read_buffer u) < n then
        if u_closed u then (Raise IncompleteReadError, u)
        else case evs of
          [] \<Rightarrow> (Blocked, expire u)
        | ev # rest \<Rightarrow>
            if in_time u (fst ev) then udp_read_wait C n rest (next_event C ev rest u)
            else (Blocked, expire u)
      else (Ret (take n (u_read_buffer u)), u\<lparr>u_read_buffer := drop n (u_read_buffer u)\<rparr>))"

declare udp_read_wait.simps [simp del]

definition udp_readexactly :: "crypto \<Rightarrow> nat \<Rightarrow> (udp_stream, py_exc, bytes) io" where
  "udp_readexactly C n u = udp_read_wait C n (u_incoming u) u"

definition udp_read_frame :: "crypto \<Rightarrow> bool \<Rightarrow> (udp_stream, py_exc, usmp_frame) io" where
  "udp_read_frame C verify_crc = read_frame (udp_readexactly C) verify_crc"

section \<open>Writing\<close>

definition udp_write :: "bytes \<Rightarrow> (udp_stream, py_exc, unit) io" where
  "udp_write data u =
     (if u_closed u then (Raise OSError, u)
      else
        let u = u\<lparr>u_pending_data := Some data\<rparr> in
        (Ret (),
         if 8 \<le> length data
         then u\<lparr>u_pending_type := Some (u8_at data 3), u_pending_seq := Some (u32_at data 4)\<rparr>
         else u\<lparr>u_pending_type := None, u_pending_seq := None\<rparr>))"

text \<open>
  \<open>asyncio.wait_for(self._ack_received_event.wait(), timeout)\<close>: the event is set, its timeout
  passes, or the coroutine is cancelled because an outer timeout passes first.
\<close>

definition ack_timeout :: "rat \<Rightarrow> (udp_stream, py_exc, unit) io" where
  "ack_timeout deadline u =
     (if in_time u deadline then (Raise PyTimeoutError, wait_until deadline u) else (Blocked, expire u))"

fun await_ack :: "crypto \<Rightarrow> rat \<Rightarrow> (rat \<times> net_event) list \<Rightarrow> (udp_stream, py_exc, unit) io" where
  "await_ack C deadline evs u =
     (if u_ack_received u then (Ret (), u)
      else case evs of
        [] \<Rightarrow> ack_timeout deadline u
      | ev # rest \<Rightarrow>
          if fst ev < deadline \<and> in_time u (fst ev)
          then await_ack C deadline rest (next_event C ev rest u)
          else ack_timeout deadline u)"

declare await_ack.simps [simp del]

definition attempt_timeout :: "rat \<Rightarrow> nat \<Rightarrow> rat" where
  "attempt_timeout base_rto attempt = min 5 (max (5 / 100) (base_rto * 2 ^ attempt))"

text \<open>The Jacobson/Karn estimator, on the sample of an attempt acknowledged at once.\<close>

definition update_rtt :: "rat \<Rightarrow> udp_stream \<Rightarrow> udp_stream" where
  "update_rtt sample_rtt u =
     (let err = sample_rtt - u_srtt u;
          rttvar = u_rttvar u + 1 / 4 * (\<bar>err\<bar> - u_rttvar u);
          srtt = u_srtt u + 1 / 8 * err
      in u\<lparr>u_rttvar := rttvar, u_srtt := srtt, u_rto := max (1 / 10) (min 5 (srtt + 4 * rttvar))\<rparr>)"

fun arq :: "crypto \<Rightarrow> bytes \<Rightarrow> rat \<Rightarrow> nat list \<Rightarrow> (udp_stream, py_exc, unit) io" where
  "arq C data base_rto [] u = (Raise OSError, u)"
| "arq C data base_rto (attempt # rest) u =
     (let timeout = attempt_timeout base_rto attempt;
          start_time = u_now u
      in case await_ack C (start_time + timeout) (u_incoming u) (sendto data u) of
           (Ret _, u') \<Rightarrow>
             (Ret (), if attempt = 0 then update_rtt (u_now u' - start_time) u' else u')
         | (Raise _, u') \<Rightarrow> arq C data base_rto rest u'
         | (Blocked, u') \<Rightarrow> (Blocked, u'))"

definition udp_drain :: "crypto \<Rightarrow> (udp_stream, py_exc, unit) io" where
  "udp_drain C u =
     (case u_pending_data u of
        None \<Rightarrow> (Ret (), u)
      | Some data \<Rightarrow>
          let u = u\<lparr>u_pending_data := None\<rparr> in
          if u_pending_seq u = None then (Ret (), sendto data u)
          else arq C data (u_rto u) [0..<5] (u\<lparr>u_ack_received := False\<rparr>))"

definition udp_write_frame ::
  "crypto \<Rightarrow> packet_type \<Rightarrow> bytes \<Rightarrow> int \<Rightarrow> (udp_stream, py_exc, unit) io" where
  "udp_write_frame C ptype payload seq = write_frame udp_write (udp_drain C) ptype payload seq"

definition udp_peername :: "udp_stream \<Rightarrow> peer" where
  "udp_peername u = (case u_remote_addr u of (host, port) \<Rightarrow> Peer_addr host port)"

text \<open>The class \<open>UDPStream\<close>: unreliable.\<close>

definition udp_ops :: "crypto \<Rightarrow> udp_stream transport_ops" where
  "udp_ops C =
     \<lparr>is_reliable = False, op_read_frame = udp_read_frame C, op_write_frame = udp_write_frame C,
      op_set_session_keys = udp_set_session_keys,
      op_confirm_authenticated = udp_confirm_authenticated,
      op_peername = udp_peername, op_close = udp_close,
      op_monotonic = (\<lambda>u. (u_now u, u)), op_set_timeout = udp_set_timeout\<rparr>"

lemma udp_ops_simps [simp]:
  "\<not> is_reliable (udp_ops C)" "op_read_frame (udp_ops C) = udp_read_frame C"
  "op_write_frame (udp_ops C) = udp_write_frame C"
  "op_set_session_keys (udp_ops C) = udp_set_session_keys"
  "op_confirm_authenticated (udp_ops C) = udp_confirm_authenticated"
  "op_close (udp_ops C) = udp_close" "op_peername (udp_ops C) = udp_peername"
  "op_monotonic (udp_ops C) u = (u_now u, u)" "op_set_timeout (udp_ops C) = udp_set_timeout"
  by (simp_all add: udp_ops_def)

section \<open>What a datagram changes\<close>

lemma sendto_simps [simp]:
  "u_read_buffer (sendto d u) = u_read_buffer u" "u_closed (sendto d u) = u_closed u"
  "u_incoming (sendto d u) = u_incoming u" "u_now (sendto d u) = u_now u"
  "u_tx_key (sendto d u) = u_tx_key u" "u_rx_key (sendto d u) = u_rx_key u"
  "u_ack_received (sendto d u) = u_ack_received u" "u_sent (sendto d u) = u_sent u @ [d]"
  "u_pending_seq (sendto d u) = u_pending_seq u" "u_pending_type (sendto d u) = u_pending_type u"
  "u_last_rx_seq (sendto d u) = u_last_rx_seq u" "u_last_rx_type (sendto d u) = u_last_rx_type u"
  "u_srtt (sendto d u) = u_srtt u" "u_rttvar (sendto d u) = u_rttvar u" "u_rto (sendto d u) = u_rto u"
  "u_deadline (sendto d u) = u_deadline u"
  by (simp_all add: sendto_def)

lemma udp_close_simps [simp]:
  "u_read_buffer (udp_close u) = u_read_buffer u" "u_closed (udp_close u)"
  "u_incoming (udp_close u) = u_incoming u" "u_now (udp_close u) = u_now u"
  "u_tx_key (udp_close u) = u_tx_key u" "u_rx_key (udp_close u) = u_rx_key u"
  "u_ack_received (udp_close u) = u_ack_received u" "u_sent (udp_close u) = u_sent u"
  "u_pending_seq (udp_close u) = u_pending_seq u" "u_pending_type (udp_close u) = u_pending_type u"
  "u_last_rx_seq (udp_close u) = u_last_rx_seq u"
  "u_srtt (udp_close u) = u_srtt u" "u_rttvar (udp_close u) = u_rttvar u" "u_rto (udp_close u) = u_rto u"
  "u_deadline (udp_close u) = u_deadline u"
  by (simp_all add: udp_close_def Let_def)

text \<open>Waiting, whatever ends it, only lets time pass.\<close>

lemma wait_until_simps [simp]:
  "u_read_buffer (wait_until t u) = u_read_buffer u" "u_closed (wait_until t u) = u_closed u"
  "u_incoming (wait_until t u) = u_incoming u" "u_now (wait_until t u) = max (u_now u) t"
  "u_tx_key (wait_until t u) = u_tx_key u" "u_rx_key (wait_until t u) = u_rx_key u"
  "u_ack_received (wait_until t u) = u_ack_received u" "u_sent (wait_until t u) = u_sent u"
  "u_pending_seq (wait_until t u) = u_pending_seq u" "u_pending_type (wait_until t u) = u_pending_type u"
  "u_last_rx_seq (wait_until t u) = u_last_rx_seq u" "u_deadline (wait_until t u) = u_deadline u"
  "u_srtt (wait_until t u) = u_srtt u" "u_rttvar (wait_until t u) = u_rttvar u" "u_rto (wait_until t u) = u_rto u"
  by (simp_all add: wait_until_def)

lemma expire_waits: "\<exists>t. expire u = wait_until t u"
proof (cases "u_deadline u")
  case None
  then have "expire u = wait_until (u_now u) u" by (simp add: expire_def wait_until_def)
  then show ?thesis by blast
qed (auto simp: expire_def)

lemma expire_simps [simp]:
  "u_read_buffer (expire u) = u_read_buffer u" "u_closed (expire u) = u_closed u"
  "u_incoming (expire u) = u_incoming u" "u_now u \<le> u_now (expire u)"
  "u_tx_key (expire u) = u_tx_key u" "u_rx_key (expire u) = u_rx_key u"
  "u_ack_received (expire u) = u_ack_received u" "u_sent (expire u) = u_sent u"
  "u_pending_seq (expire u) = u_pending_seq u" "u_pending_type (expire u) = u_pending_type u"
  "u_deadline (expire u) = u_deadline u"
  using expire_waits [of u] by auto

lemma ack_timeout_waits:
  assumes "ack_timeout deadline u = (out, u')"
  shows "out \<noteq> Ret () \<and> (\<exists>t. u' = wait_until t u)"
  using assms expire_waits [of u] by (auto simp: ack_timeout_def split: if_splits intro: sym)

lemma udp_set_timeout_simps [simp]:
  "u_read_buffer (udp_set_timeout x u) = u_read_buffer u" "u_closed (udp_set_timeout x u) = u_closed u"
  "u_incoming (udp_set_timeout x u) = u_incoming u" "u_now (udp_set_timeout x u) = u_now u"
  "u_tx_key (udp_set_timeout x u) = u_tx_key u" "u_rx_key (udp_set_timeout x u) = u_rx_key u"
  "u_sent (udp_set_timeout x u) = u_sent u" "u_last_rx_seq (udp_set_timeout x u) = u_last_rx_seq u"
  "u_srtt (udp_set_timeout x u) = u_srtt u" "u_rttvar (udp_set_timeout x u) = u_rttvar u"
  "u_rto (udp_set_timeout x u) = u_rto u"
  by (simp_all add: udp_set_timeout_def)

lemmas feed_defs = feed_packet_def feed_utack_def feed_frame_def accept_datagram_def Let_def

lemma feed_packet_frame [simp]:
  "u_closed (feed_packet C d u) = u_closed u" "u_incoming (feed_packet C d u) = u_incoming u"
  "u_now (feed_packet C d u) = u_now u" "u_tx_key (feed_packet C d u) = u_tx_key u"
  "u_rx_key (feed_packet C d u) = u_rx_key u" "u_pending_seq (feed_packet C d u) = u_pending_seq u"
  "u_pending_type (feed_packet C d u) = u_pending_type u"
  "u_last_rx_seq (feed_packet C d u) = u_last_rx_seq u"
  "u_srtt (feed_packet C d u) = u_srtt u" "u_rttvar (feed_packet C d u) = u_rttvar u"
  "u_rto (feed_packet C d u) = u_rto u" "u_deadline (feed_packet C d u) = u_deadline u"
  by (simp_all add: feed_defs)

text \<open>A datagram that holds exactly one frame, by the length in its header.\<close>

definition framed :: "bytes \<Rightarrow> bool" where
  "framed d \<longleftrightarrow> 12 \<le> length d \<and> u16_at d 0 = USMP_MAGIC \<and> u16_at d 8 \<le> 480
     \<and> int (length d) = 12 + u16_at d 8"

lemma feed_packet_buffer:
  "u_read_buffer (feed_packet C d u) = u_read_buffer u
   \<or> \<not> u_closed u \<and> framed d \<and> u_read_buffer (feed_packet C d u) = u_read_buffer u @ d
     \<and> length (u_read_buffer u @ d) \<le> 4096"
  by (auto simp: feed_defs framed_def)

lemma feed_packet_acked:
  "u_ack_received (feed_packet C d u) \<longleftrightarrow>
     u_ack_received u
     \<or> \<not> u_closed u \<and> is_utack d \<and> u_pending_type u = Some (u8_at d 2)
       \<and> u_pending_seq u = Some (u32_at d 3) \<and> (u8_at d 2 \<ge> 5 \<longrightarrow> utack_authentic C u d)"
  by (auto simp: feed_defs)

lemma feed_packet_closed: "u_closed u \<Longrightarrow> feed_packet C d u = u"
  by (simp add: feed_packet_def)

section \<open>The stream contract\<close>

fun event_size :: "rat \<times> net_event \<Rightarrow> nat" where
  "event_size (t, Datagram d) = length d"
| "event_size (t, Lost) = 0"

text \<open>The bytes that can still be read: those in the buffer and those yet to arrive.\<close>

definition udp_total :: "udp_stream \<Rightarrow> nat" where
  "udp_total u = length (u_read_buffer u) + sum_list (map event_size (u_incoming u))"

definition udp_advance :: "nat \<Rightarrow> udp_stream \<Rightarrow> udp_stream" where
  "udp_advance n u = u\<lparr>u_read_buffer := drop n (u_read_buffer u)\<rparr>"

lemma next_event_simps [simp]:
  "u_incoming (next_event C ev rest u) = rest" "u_deadline (next_event C ev rest u) = u_deadline u"
  "u_now (next_event C ev rest u) = max (u_now u) (fst ev)"
  by (simp_all add: next_event_def net_event_def split: net_event.split)

lemmas next_event_incoming = next_event_simps(1)

lemma feed_packet_grows:
  "length (u_read_buffer (feed_packet C d u)) \<le> length (u_read_buffer u) + length d"
  using feed_packet_buffer [of C d u] by auto

lemma next_event_total:
  assumes "u_incoming u = ev # rest"
  shows "udp_total (next_event C ev rest u) \<le> udp_total u"
proof -
  let ?u = "u\<lparr>u_now := max (u_now u) (fst ev), u_incoming := rest\<rparr>"
  obtain t e where ev: "ev = (t, e)" by fastforce
  show ?thesis
  proof (cases e)
    case (Datagram d)
    with assms ev feed_packet_grows [of C d ?u] show ?thesis
      by (simp add: next_event_def net_event_def udp_total_def)
  next
    case Lost
    with assms ev show ?thesis by (simp add: next_event_def net_event_def udp_total_def)
  qed
qed

lemma udp_read_wait_uses:
  "udp_read_wait C n evs u = (out, u') \<Longrightarrow> u_incoming u = evs \<Longrightarrow>
   udp_total u' \<le> udp_total u \<and>
   (out \<in> {Blocked, Raise IncompleteReadError}
    \<or> (\<exists>bs. out = Ret bs \<and> length bs = n \<and> udp_total u' + n \<le> udp_total u))"
proof (induction evs arbitrary: u)
  case Nil
  then show ?case
    by (subst (asm) udp_read_wait.simps) (auto simp: udp_total_def split: if_splits)
next
  case (Cons ev rest)
  show ?case
  proof (cases "length (u_read_buffer u) < n \<and> \<not> u_closed u \<and> in_time u (fst ev)")
    case True
    with Cons.prems(1) have "udp_read_wait C n rest (next_event C ev rest u) = (out, u')"
      by (subst (asm) udp_read_wait.simps) simp
    from Cons.IH [OF this next_event_incoming] next_event_total [OF Cons.prems(2), of C]
    show ?thesis by auto
  next
    case False
    with Cons.prems show ?thesis
        by (subst (asm) udp_read_wait.simps) (auto simp: udp_total_def split: if_splits)
  qed
qed

interpretation udp: exact_reader "udp_readexactly C" u_read_buffer udp_advance udp_total for C
proof
  fix n and r :: udp_stream
  assume "n \<le> length (u_read_buffer r)"
  then show "udp_readexactly C n r = (Ret (take n (u_read_buffer r)), udp_advance n r)"
    unfolding udp_readexactly_def by (subst udp_read_wait.simps) (simp add: udp_advance_def)
next
  fix n r out r'
  assume "udp_readexactly C n r = (out, r')"
  then show "udp_total r' \<le> udp_total r \<and>
       (out \<in> {Blocked, Raise IncompleteReadError}
        \<or> (\<exists>bs. out = Ret bs \<and> length bs = n \<and> udp_total r' + n \<le> udp_total r))"
    unfolding udp_readexactly_def by (rule udp_read_wait_uses) simp
qed (simp_all add: udp_advance_def add.commute)

section \<open>Invariants of waiting\<close>

text \<open>
  A property of streams that the events of the network, sending, and the estimator keep is
  kept by reading and writing.
\<close>

locale stream_invariant =
  fixes C :: crypto and I :: "udp_stream \<Rightarrow> bool"
  assumes event_inv: "I u \<Longrightarrow> u_incoming u = ev # rest \<Longrightarrow> in_time u (fst ev) \<Longrightarrow> I (next_event C ev rest u)"
    and sendto_inv: "I u \<Longrightarrow> I (sendto d u)"
    and clock_inv: "I u \<Longrightarrow> in_time u t \<or> u_deadline u = Some t \<Longrightarrow> I (wait_until t u)"
    and rtt_inv: "I u \<Longrightarrow> 0 \<le> sample \<Longrightarrow> I (update_rtt sample u)"
    and fields_inv: "I u \<Longrightarrow>
      I (u\<lparr>u_pending_data := pd, u_pending_type := pt, u_pending_seq := ps, u_ack_received := b\<rparr>)"
begin

lemma expire_inv: "I u \<Longrightarrow> I (expire u)"
  using clock_inv by (auto simp: expire_def split: option.splits)

lemma ack_timeout_inv: "ack_timeout deadline u = (out, u') \<Longrightarrow> I u \<Longrightarrow> I u' \<and> u_now u \<le> u_now u'"
  using clock_inv expire_inv by (auto simp: ack_timeout_def split: if_splits)

lemma await_ack_inv:
  "await_ack C deadline evs u = (b, u') \<Longrightarrow> u_incoming u = evs \<Longrightarrow> I u \<Longrightarrow>
   I u' \<and> u_now u \<le> u_now u'"
proof (induction evs arbitrary: u)
  case Nil
  then show ?case
    by (subst (asm) await_ack.simps) (auto split: if_splits dest!: ack_timeout_inv)
next
  case (Cons ev rest)
  show ?case
  proof (cases "\<not> u_ack_received u \<and> fst ev < deadline \<and> in_time u (fst ev)")
    case True
    with Cons.prems have e: "await_ack C deadline rest (next_event C ev rest u) = (b, u')"
      by (subst (asm) await_ack.simps) simp
    have "u_now u \<le> u_now (next_event C ev rest u)"
      by (simp add: next_event_def net_event_def split: net_event.split)
    with Cons.IH [OF e next_event_incoming event_inv [OF Cons.prems(3,2)]] True show ?thesis by auto
  next
    case False
    with Cons.prems show ?thesis
      by (subst (asm) await_ack.simps) (auto split: if_splits dest!: ack_timeout_inv)
  qed
qed

lemma arq_inv: "arq C data base attempts u = (out, u') \<Longrightarrow> I u \<Longrightarrow> I u'"
proof (induction attempts arbitrary: u)
  case Nil
  then show ?case by simp
next
  case (Cons k ks)
  obtain b u1 where aw: "await_ack C (u_now u + attempt_timeout base k) (u_incoming u) (sendto data u) = (b, u1)"
    by fastforce
  have "I u1 \<and> u_now (sendto data u) \<le> u_now u1"
    by (rule await_ack_inv [OF aw]) (simp_all add: sendto_inv Cons.prems)
  with aw Cons show ?case
    by (auto simp: Let_def intro!: rtt_inv split: outcome.splits if_splits)
qed

lemma write_inv: "udp_write_frame C ty p s u = (out, u') \<Longrightarrow> I u \<Longrightarrow> I u'"
proof -
  assume wr: "udp_write_frame C ty p s u = (out, u')" and I: "I u"
  have flds: "I (v\<lparr>u_pending_data := pd, u_pending_type := pt, u_pending_seq := ps\<rparr>)" if "I v" for v pd pt ps
    using fields_inv [OF that, where pd = pd and pt = pt and ps = ps and b = "u_ack_received v"] by simp
  have pd: "I (v\<lparr>u_pending_data := x\<rparr>)" and ack: "I (v\<lparr>u_ack_received := y\<rparr>)" if "I v" for v x y
    using fields_inv [OF that, where pd = x and pt = "u_pending_type v" and ps = "u_pending_seq v"
        and b = "u_ack_received v"]
      fields_inv [OF that, where pd = "u_pending_data v" and pt = "u_pending_type v"
        and ps = "u_pending_seq v" and b = y] by simp_all
  have w: "I (snd (udp_write d u))" for d
    using I flds by (simp add: udp_write_def Let_def)
  have d: "I (snd (udp_drain C v))" if "I v" for v
  proof (cases "u_pending_data v")
    case (Some data)
    show ?thesis
    proof (cases "u_pending_seq v")
      case None
      with Some that show ?thesis by (simp add: udp_drain_def sendto_inv pd)
    next
      case (Some n)
      let ?w = "v\<lparr>u_pending_data := None, u_ack_received := False\<rparr>"
      have "I ?w" using that pd ack by blast
      then have "I (snd (arq C data (u_rto v) [0..<5] ?w))" by (metis arq_inv prod.collapse)
      with Some \<open>u_pending_data v = Some data\<close> show ?thesis by (simp add: udp_drain_def)
    qed
  qed (use that in \<open>simp add: udp_drain_def\<close>)
  have "I (snd (udp_write_frame C ty p s u))"
    using I w d
    by (auto simp: udp_write_frame_def write_frame_def bind_io_def lift_sum_def
        split: sum.splits prod.splits outcome.splits) (metis snd_conv)+
  with wr show "I u'" by simp
qed

lemma read_wait_inv: "udp_read_wait C n evs u = (out, u') \<Longrightarrow> u_incoming u = evs \<Longrightarrow> I u \<Longrightarrow>
   \<exists>v. I v \<and> (u' = v \<or> u' = udp_advance n v)"
proof (induction evs arbitrary: u)
  case Nil
  with expire_inv [OF Nil.prems(3)] show ?case
    by (subst (asm) udp_read_wait.simps) (auto simp: udp_advance_def split: if_splits)
next
  case (Cons ev rest)
  with expire_inv [OF Cons.prems(3)] show ?case
    by (subst (asm) udp_read_wait.simps)
      (auto simp: udp_advance_def event_inv split: if_splits)
qed

end

end
