(* ===== verification/Server.thy ===== *)
theory Server
  imports Handshake Udp
begin

text \<open>
  \<open>_server.py\<close>, and the demultiplexer of \<open>UDPListener\<close> in \<open>transport/udp.py\<close>, which shares
  the server's tables: validation of the keys, the rate limit on cookies, admission of
  connections and datagrams, registration of UDP sessions, the clean-up of a connection, and
  the watchdog.  Each definition runs from one \<open>await\<close> to the next, so it is atomic under
  asyncio; \<open>ServerSafety\<close> puts them together in a step relation.  Streams live in a store,
  and the tables hold their names, as the code compares them by identity.
\<close>

type_synonym addr = "string \<times> int"
type_synonym cookie_table = "(string, rat \<times> rat) dict"

record server =
  sv_max_connections :: int
  sv_max_connections_per_ip :: int
  sv_cookie_secret :: bytes
  sv_failed :: failed_table
  sv_cookie_limiter :: cookie_table
  sv_tcp_connections :: "(string, int) dict"
  sv_in_progress :: "(string, int) dict"
  sv_handshakes :: "(addr, nat) dict"
  sv_sessions :: "(addr, nat) dict"
  sv_streams :: "(nat, udp_stream) dict"
  sv_next :: nat
  sv_sent :: "(addr \<times> bytes) list"

section \<open>Construction\<close>

text \<open>\<open>if not val or len(val) < 16\<close>.\<close>

definition check_dict_value :: "py_value \<Rightarrow> py_exc + unit" where
  "check_dict_value v =
     (case v of
        Py_bytes k \<Rightarrow> if length k < 16 then Inl ValueError else Inr ()
      | Py_none \<Rightarrow> Inl ValueError
      | Py_other None \<Rightarrow> Inl TypeError
      | Py_other (Some n) \<Rightarrow> if n < 16 then Inl ValueError else Inr ())"

fun check_dict :: "(bytes, py_value) dict \<Rightarrow> py_exc + unit" where
  "check_dict [] = Inr ()"
| "check_dict ((_, v) # d) = bindE (check_dict_value v) (\<lambda>_. check_dict d)"

definition check_psk :: "psk_source \<Rightarrow> py_exc + unit" where
  "check_psk src =
     (case src of
        Psk_bytes k \<Rightarrow> if k = [] then Inl ValueError else if length k < 16 then Inl ValueError else Inr ()
      | Psk_dict d \<Rightarrow> if d = [] then Inl ValueError else check_dict d
      | Psk_callable _ \<Rightarrow> Inr ()
      | Psk_invalid \<Rightarrow> Inr ())"

definition USMPServer :: "psk_source \<Rightarrow> int \<Rightarrow> int \<Rightarrow> bytes \<Rightarrow> failed_table \<Rightarrow> py_exc + server" where
  "USMPServer psk max_connections max_connections_per_ip secret failed =
     bindE (check_psk psk) (\<lambda>_.
     Inr \<lparr>sv_max_connections = max_connections, sv_max_connections_per_ip = max_connections_per_ip,
          sv_cookie_secret = secret, sv_failed = failed, sv_cookie_limiter = [],
          sv_tcp_connections = [], sv_in_progress = [], sv_handshakes = [], sv_sessions = [],
          sv_streams = [], sv_next = 0, sv_sent = []\<rparr>)"

section \<open>The rate limit on cookies\<close>

definition refilled :: "rat \<Rightarrow> rat \<times> rat \<Rightarrow> rat" where
  "refilled now v = (case v of (tokens, last_time) \<Rightarrow> min 10 (tokens + (now - last_time) * 5))"

text \<open>The bound on the table: refilled entries go first, then the least recently seen ones.\<close>

definition evict_seen :: "cookie_table \<Rightarrow> cookie_table" where
  "evict_seen d =
     (let oldest = map fst (sort_key (\<lambda>(_, _, last_time). last_time) d)
      in fold AList.delete (take (length d - 1000) oldest) d)"

definition bound_cookies :: "rat \<Rightarrow> cookie_table \<Rightarrow> cookie_table" where
  "bound_cookies now d =
     (if length d > 1000 then
        let d = filter (\<lambda>(_, v). refilled now v < 10) d in
        if length d > 1000 then evict_seen d else d
      else d)"

definition allow_udp_cookie :: "string \<Rightarrow> rat \<Rightarrow> cookie_table \<Rightarrow> bool \<times> cookie_table" where
  "allow_udp_cookie ip now d =
     (let tokens = refilled now (case map_of d ip of Some v \<Rightarrow> v | None \<Rightarrow> (10, now)) in
      if tokens < 1 then (False, AList.update ip (tokens, now) d)
      else (True, bound_cookies now (AList.update ip (tokens - 1, now) d)))"

section \<open>Datagrams\<close>

definition feed_stream :: "crypto \<Rightarrow> nat \<Rightarrow> bytes \<Rightarrow> server \<Rightarrow> server" where
  "feed_stream C i data sv =
     (case map_of (sv_streams sv) i of
        Some u \<Rightarrow> sv\<lparr>sv_streams := AList.update i (feed_packet C data u) (sv_streams sv)\<rparr>
      | None \<Rightarrow> sv)"

definition send_datagram :: "addr \<Rightarrow> bytes \<Rightarrow> server \<Rightarrow> server" where
  "send_datagram addr data sv = sv\<lparr>sv_sent := sv_sent sv @ [(addr, data)]\<rparr>"

text \<open>The type a datagram claims: of the acknowledged frame, or of the frame it holds.\<close>

definition datagram_type :: "bytes \<Rightarrow> int option" where
  "datagram_type data =
     (if is_utack data then Some (u8_at data 2)
      else if 12 \<le> length data then Some (u8_at data 3) else None)"

text \<open>\<open>f"\{addr[0]\}:\{addr[1]\}:\{time_bucket\}".encode()\<close>, and the truncated HMAC of it.\<close>

definition cookie_message :: "addr \<Rightarrow> int \<Rightarrow> string" where
  "cookie_message addr time_bucket =
     fst addr @ '':'' @ str_int (snd addr) @ '':'' @ str_int time_bucket"

definition cookie_for :: "crypto \<Rightarrow> bytes \<Rightarrow> addr \<Rightarrow> int \<Rightarrow> bytes" where
  "cookie_for C secret addr time_bucket =
     take 16 (hmac_sha256 C secret (ascii (cookie_message addr time_bucket)))"

text \<open>\<open>int(time.time() // 30)\<close>.\<close>

definition time_bucket :: "rat \<Rightarrow> int" where
  "time_bucket wall = \<lfloor>wall / 30\<rfloor>"

text \<open>A HELLO of 50 bytes: no cookie yet; the answer is an acknowledgement and a HELLO_RETRY.\<close>

definition issue_cookie :: "crypto \<Rightarrow> rat \<Rightarrow> rat \<Rightarrow> bytes \<Rightarrow> addr \<Rightarrow> server \<Rightarrow> server" where
  "issue_cookie C wall now data addr sv =
     (case allow_udp_cookie (fst addr) now (sv_cookie_limiter sv) of (allowed, d) \<Rightarrow>
        let sv = sv\<lparr>sv_cookie_limiter := d\<rparr> in
        if \<not> allowed then sv
        else
          let sv = send_datagram addr (utack_header (u8_at data 3) (u32_at data 4)) sv;
              cookie = cookie_for C (sv_cookie_secret sv) addr (time_bucket wall)
          in case encode_frame HELLO_RETRY cookie 0 of
               Inl _ \<Rightarrow> sv
             | Inr retry_packet \<Rightarrow> send_datagram addr retry_packet sv)"

definition cookie_valid :: "crypto \<Rightarrow> bytes \<Rightarrow> addr \<Rightarrow> rat \<Rightarrow> bytes \<Rightarrow> bool" where
  "cookie_valid C secret addr wall data \<longleftrightarrow>
     slice 50 66 data = cookie_for C secret addr (time_bucket wall)
     \<or> slice 50 66 data = cookie_for C secret addr (time_bucket wall - 1)"

text \<open>A HELLO of 66 bytes with a valid cookie: the limits, and the new stream with its task.\<close>

definition handshake_admissible :: "rat \<Rightarrow> addr \<Rightarrow> server \<Rightarrow> bool" where
  "handshake_admissible now addr sv \<longleftrightarrow>
     \<not> locked_out (sv_failed sv) (fst addr) now
     \<and> count_of (sv_in_progress sv) (fst addr) < 3
     \<and> int (length (sv_handshakes sv)) < sv_max_connections sv * 2"

definition start_handshake :: "crypto \<Rightarrow> rat \<Rightarrow> bytes \<Rightarrow> addr \<Rightarrow> server \<Rightarrow> server" where
  "start_handshake C now data addr sv =
     (let i = sv_next sv;
          stream = UDPStream addr True now [] in
      sv\<lparr>sv_in_progress := counter_inc (fst addr) (sv_in_progress sv),
         sv_next := i + 1,
         sv_handshakes := AList.update addr i (sv_handshakes sv),
         sv_streams := AList.update i (feed_packet C data stream) (sv_streams sv)\<rparr>)"

text \<open>Frames of running sessions go to the handshake of the address, if there is one.\<close>

definition route_data :: "crypto \<Rightarrow> bytes \<Rightarrow> addr \<Rightarrow> server \<Rightarrow> server" where
  "route_data C data addr sv =
     (case map_of (sv_handshakes sv) addr of
        Some i \<Rightarrow> feed_stream C i data sv
      | None \<Rightarrow> (case map_of (sv_sessions sv) addr of
          Some i \<Rightarrow> feed_stream C i data sv
        | None \<Rightarrow> sv))"

text \<open>
  \<open>_handle_udp_datagram\<close>: the new state, and the name of the stream if a connection task was
  created.  \<open>wall\<close> is \<open>time.time()\<close> and \<open>now\<close> \<open>time.monotonic()\<close>.
\<close>

definition handle_hello ::
  "crypto \<Rightarrow> rat \<Rightarrow> rat \<Rightarrow> bytes \<Rightarrow> addr \<Rightarrow> server \<Rightarrow> server \<times> nat option" where
  "handle_hello C wall now data addr sv =
     (if length data = 50 then (issue_cookie C wall now data addr sv, None)
      else if length data = 66 then
        if \<not> cookie_valid C (sv_cookie_secret sv) addr wall data then (sv, None)
        else if \<not> handshake_admissible now addr sv then (sv, None)
        else (start_handshake C now data addr sv, Some (sv_next sv))
      else (sv, None))"

definition handle_udp_datagram ::
  "crypto \<Rightarrow> rat \<Rightarrow> rat \<Rightarrow> bytes \<Rightarrow> addr \<Rightarrow> server \<Rightarrow> server \<times> nat option" where
  "handle_udp_datagram C wall now data addr sv =
     (case datagram_type data of
        None \<Rightarrow> (route_data C data addr sv, None)
      | Some type_val \<Rightarrow>
          if type_val < 5 then
            (case map_of (sv_handshakes sv) addr of
               Some i \<Rightarrow> (feed_stream C i data sv, None)
             | None \<Rightarrow>
                 if type_val \<noteq> 1 then (sv, None) else handle_hello C wall now data addr sv)
          else (route_data C data addr sv, None))"

section \<open>Connections\<close>

text \<open>\<open>addr[0] if addr and isinstance(addr, tuple) else str(addr)\<close>.\<close>

definition ip_of_peer :: "peer \<Rightarrow> string" where
  "ip_of_peer p = (case p of Peer_addr host _ \<Rightarrow> host | Peer_other s \<Rightarrow> s | No_peer \<Rightarrow> ''None'')"

text \<open>The start of \<open>_on_transport_connect\<close> on TCP: \<open>None\<close> when a limit closes the connection.\<close>

definition admit_tcp :: "string \<Rightarrow> server \<Rightarrow> server option" where
  "admit_tcp ip sv =
     (if total (sv_tcp_connections sv) \<ge> sv_max_connections sv then None
      else if count_of (sv_tcp_connections sv) ip \<ge> sv_max_connections_per_ip sv then None
      else Some (sv\<lparr>sv_tcp_connections := counter_inc ip (sv_tcp_connections sv)\<rparr>))"

definition release_tcp :: "string \<Rightarrow> server \<Rightarrow> server" where
  "release_tcp ip sv = sv\<lparr>sv_tcp_connections := counter_dec ip (sv_tcp_connections sv)\<rparr>"

definition close_stream :: "nat \<Rightarrow> server \<Rightarrow> server" where
  "close_stream i sv =
     (case map_of (sv_streams sv) i of
        Some u \<Rightarrow> sv\<lparr>sv_streams := AList.update i (udp_close u) (sv_streams sv)\<rparr>
      | None \<Rightarrow> sv)"

text \<open>The stream object of a task, after the task has worked on it.\<close>

definition store_stream :: "nat \<Rightarrow> udp_stream \<Rightarrow> server \<Rightarrow> server" where
  "store_stream i u sv = sv\<lparr>sv_streams := AList.update i u (sv_streams sv)\<rparr>"

text \<open>
  After the handshake on UDP: the count of handshakes, the limits on sessions, and the
  registration, which closes the session it replaces.  The flag tells whether the
  connection goes on.
\<close>

definition sessions_of_ip :: "string \<Rightarrow> server \<Rightarrow> nat" where
  "sessions_of_ip ip sv = length (filter (\<lambda>a. fst a = ip) (map fst (sv_sessions sv)))"

definition register_udp :: "addr \<Rightarrow> nat \<Rightarrow> server \<Rightarrow> server \<times> bool" where
  "register_udp addr i sv =
     (let sv = sv\<lparr>sv_in_progress := counter_dec (fst addr) (sv_in_progress sv)\<rparr> in
      if int (length (sv_sessions sv)) \<ge> sv_max_connections sv then (close_stream i sv, False)
      else if int (sessions_of_ip (fst addr) sv) \<ge> sv_max_connections_per_ip sv
      then (close_stream i sv, False)
      else
        let sv = (case map_of (sv_sessions sv) addr of Some j \<Rightarrow> close_stream j sv | None \<Rightarrow> sv) in
        (sv\<lparr>sv_sessions := AList.update addr i (sv_sessions sv),
            sv_handshakes := AList.delete addr (sv_handshakes sv)\<rparr>, True))"

text \<open>The \<open>finally\<close> block on UDP; \<open>decremented\<close> is \<open>handshake_decremented\<close>.\<close>

definition release_udp :: "addr \<Rightarrow> nat \<Rightarrow> bool \<Rightarrow> server \<Rightarrow> server" where
  "release_udp addr i decremented sv =
     (let sv = (if decremented then sv
                else sv\<lparr>sv_in_progress := counter_dec (fst addr) (sv_in_progress sv)\<rparr>);
          sv = (if map_of (sv_handshakes sv) addr = Some i
                then sv\<lparr>sv_handshakes := AList.delete addr (sv_handshakes sv)\<rparr> else sv);
          sv = (if map_of (sv_sessions sv) addr = Some i
                then sv\<lparr>sv_sessions := AList.delete addr (sv_sessions sv)\<rparr> else sv)
      in close_stream i sv)"

text \<open>
  The \<open>except\<close> clauses: only a timeout is recorded, whether the handshake or the session's
  handler raised it; the rest is logged.
\<close>

definition connection_error :: "string \<Rightarrow> rat \<Rightarrow> py_exc \<Rightarrow> failed_table \<Rightarrow> py_exc option \<times> failed_table" where
  "connection_error limiter_key now e d =
     (if is_HandshakeError e then (None, d)
      else if e \<in> {PyTimeoutError, USMPTimeoutError} then
        (case record_failed_handshake limiter_key now d of
           Inl e' \<Rightarrow> (Some e', d)
         | Inr d' \<Rightarrow> (None, d'))
      else if e = CancelledError then (Some e, d)
      else (None, d))"

text \<open>
  \<open>_run_handshake\<close> under \<open>asyncio.wait_for\<close> with \<open>handshake_timeout\<close>; the semaphore in it, which only
  delays its start.
\<close>

definition run_handshake ::
  "'t transport_ops \<Rightarrow> crypto \<Rightarrow> server_random \<Rightarrow> int \<Rightarrow> psk_source \<Rightarrow> rat \<Rightarrow>
   ('t server_side, py_exc, session_info) io" where
  "run_handshake ops C rnd ident psk handshake_timeout =
     wait_for PyTimeoutError (\<lambda>x s. s\<lparr>h_transport := op_set_timeout ops x (h_transport s)\<rparr>)
       handshake_timeout (server_handshake ops C rnd ident psk)"

section \<open>The watchdog\<close>

text \<open>
  The loop of \<open>_watchdog\<close>: the list is the session as each wake-up after \<open>interval\<close> finds
  it.  On a timeout the callback, if there is one, gets the two identifiers (its exceptions
  are logged), and the transport is closed.
\<close>

definition watchdog_interval :: "rat \<Rightarrow> rat" where
  "watchdog_interval session_timeout = session_timeout / 2"

definition watchdog_wakes ::
  "'t transport_ops \<Rightarrow> rat \<Rightarrow> bool \<Rightarrow> 't session \<Rightarrow> ((string \<times> string) option \<times> 't session) option" where
  "watchdog_wakes ops session_timeout has_callback s =
     (case op_monotonic ops (s_transport s) of (now, t) \<Rightarrow>
        let elapsed = now - s_last_recv s in
        if elapsed > session_timeout
        then Some (if has_callback then Some (device_id_str (s_info s), session_id_str (s_info s)) else None,
                   s\<lparr>s_transport := op_close ops t\<rparr>)
        else None)"

fun watchdog ::
  "'t transport_ops \<Rightarrow> rat \<Rightarrow> bool \<Rightarrow> 't session list \<Rightarrow> ((string \<times> string) option \<times> 't session) option" where
  "watchdog ops session_timeout has_callback [] = None"
| "watchdog ops session_timeout has_callback (s # ss) =
     (case watchdog_wakes ops session_timeout has_callback s of
        Some r \<Rightarrow> Some r
      | None \<Rightarrow> watchdog ops session_timeout has_callback ss)"

end
