(* ===== verification/Window.thy ===== *)
theory Window
  imports Session
begin

text \<open>
  The sliding replay window of UDP sessions: the 64-bit bitmap implements the set of
  accepted sequence numbers.  The interface \<open>replay_guard\<close> states what a receiver needs of
  any such window; the interpretation discharges it for \<open>replay_drop\<close> and \<open>window_update\<close>.
\<close>

section \<open>The interface\<close>

locale replay_guard =
  fixes drops :: "'w \<Rightarrow> int \<Rightarrow> bool"
    and accept :: "int \<Rightarrow> 'w \<Rightarrow> 'w"
    and tracks :: "'w \<Rightarrow> int set \<Rightarrow> bool"
    and stale :: "'w \<Rightarrow> int \<Rightarrow> bool"
  assumes seen_dropped: "tracks w A \<Longrightarrow> n \<in> A \<Longrightarrow> drops w n"
    and fresh_admitted: "tracks w A \<Longrightarrow> n \<notin> A \<Longrightarrow> \<not> stale w n \<Longrightarrow> \<not> drops w n"
    and accept_tracks: "tracks w A \<Longrightarrow> \<not> drops w n \<Longrightarrow> tracks (accept n w) (insert n A)"
begin

fun accepted :: "'w \<Rightarrow> int list \<Rightarrow> int list" where
  "accepted w [] = []"
| "accepted w (n # ns) = (if drops w n then accepted w ns else n # accepted (accept n w) ns)"

lemma accepted_fresh: "tracks w A \<Longrightarrow> distinct (accepted w ns) \<and> set (accepted w ns) \<inter> A = {}"
proof (induction ns arbitrary: w A)
  case Nil
  then show ?case by simp
next
  case (Cons n ns)
  show ?case
  proof (cases "drops w n")
    case True
    with Cons show ?thesis by simp
  next
    case False
    then have "n \<notin> A" using Cons.prems seen_dropped by blast
    with False Cons.IH [OF accept_tracks [OF Cons.prems False]] show ?thesis by auto
  qed
qed

end

section \<open>The bitmap and the set it stands for\<close>

definition window_tracks :: "session_info \<Rightarrow> int set \<Rightarrow> bool" where
  "window_tracks info A \<longleftrightarrow>
     (\<forall>n\<in>A. n \<le> rx_seq info)
     \<and> (\<forall>k<64. bit (rx_window_bitmap info) k \<longleftrightarrow> rx_seq info - int k \<in> A)"

definition window_stale :: "session_info \<Rightarrow> int \<Rightarrow> bool" where
  "window_stale info n \<longleftrightarrow> n \<le> rx_seq info - 64"

lemma replay_drop_bit:
  "replay_drop info n \<longleftrightarrow>
     window_stale info n
     \<or> n \<le> rx_seq info \<and> bit (rx_window_bitmap info) (nat (rx_seq info - n))"
  by (auto simp: replay_drop_def window_stale_def bit_iff_and_push_bit_not_eq_0)

lemma shifted_bitmap_bit:
  "k < 64 \<Longrightarrow>
   bit ((push_bit m b AND 0xFFFFFFFFFFFFFFFF) OR (1 :: int)) k
     \<longleftrightarrow> k = 0 \<or> m \<le> k \<and> bit b (k - m)"
proof -
  assume k: "k < 64"
  have "(0xFFFFFFFFFFFFFFFF :: int) = mask 64" by (simp add: mask_eq_exp_minus_1)
  moreover have "bit (mask 64 :: int) k" using k by (simp only: bit_mask_iff possible_bit_int)
  ultimately have "bit (0xFFFFFFFFFFFFFFFF :: int) k" by (simp only:)
  then show ?thesis by (auto simp: bit_simps bit_1_iff)
qed

lemma window_tracks_advance:
  assumes "window_tracks info A" and "rx_seq info < n"
  shows "window_tracks (window_update n info) (insert n A)"
proof -
  let ?m = "nat (n - rx_seq info)"
  have below: "n - int k \<notin> A" if "k < ?m" for k
    using assms that unfolding window_tracks_def by (metis diff_less_eq linorder_not_less
        zless_nat_eq_int_zless add.commute less_diff_eq)
  have old: "bit (rx_window_bitmap info) (k - ?m) \<longleftrightarrow> n - int k \<in> A" if "?m \<le> k" "k < 64" for k
  proof -
    have "rx_seq info - int (k - ?m) = n - int k" using that assms(2) by (simp add: of_nat_diff)
    with assms(1) that show ?thesis unfolding window_tracks_def by (metis less_imp_diff_less)
  qed
  have "bit (rx_window_bitmap (window_update n info)) k \<longleftrightarrow> n - int k \<in> insert n A"
    if "k < 64" for k
    using that assms(2) below [of k] old [of k]
    by (cases "k < ?m"; cases "k = 0")
      (auto simp: window_update_def Let_def shifted_bitmap_bit bit_1_iff)
  moreover have "rx_seq (window_update n info) = n"
    using assms(2) by (simp add: window_update_def Let_def)
  ultimately show ?thesis using assms by (auto simp: window_tracks_def)
qed

lemma window_tracks_late:
  assumes "window_tracks info A" and "n \<le> rx_seq info"
  shows "window_tracks (window_update n info) (insert n A)"
  using assms by (auto simp: window_tracks_def window_update_def Let_def bit_simps bit_1_iff)

interpretation window: replay_guard replay_drop window_update window_tracks window_stale
proof
  fix w A and n :: int
  assume t: "window_tracks w A" and n: "n \<in> A"
  then have le: "n \<le> rx_seq w" by (simp add: window_tracks_def)
  show "replay_drop w n"
  proof (cases "window_stale w n")
    case True
    then show ?thesis by (simp add: replay_drop_bit)
  next
    case False
    with le have "nat (rx_seq w - n) < 64" "rx_seq w - int (nat (rx_seq w - n)) = n"
      by (simp_all add: window_stale_def)
    with t n le show ?thesis by (auto simp: replay_drop_bit window_tracks_def)
  qed
next
  fix w A and n :: int
  assume "window_tracks w A" and "n \<notin> A" and "\<not> window_stale w n"
  then show "\<not> replay_drop w n"
    by (auto simp: replay_drop_bit window_tracks_def window_stale_def)
next
  fix w A and n :: int
  assume "window_tracks w A"
  then show "window_tracks (window_update n w) (insert n A)"
    by (cases "rx_seq w < n") (simp_all add: window_tracks_advance window_tracks_late)
qed

lemma window_tracks_fresh: "rx_window_bitmap info = 0 \<Longrightarrow> window_tracks info {}"
  by (simp add: window_tracks_def)

text \<open>
  C21: the 64-bit window refines the set of accepted sequence numbers: over any stream of
  sequence numbers, the window admits a number only if it was never admitted before, and
  refuses a new one only if it lies 64 or more below the highest one admitted.
\<close>

theorem replay_window_refines_set:
  assumes "window_tracks info A"
  shows "(replay_drop info n \<longleftrightarrow> n \<in> A \<or> n \<le> rx_seq info - 64)
    \<and> (\<not> replay_drop info n \<longrightarrow> window_tracks (window_update n info) (insert n A))"
  using window.seen_dropped [OF assms] window.fresh_admitted [OF assms]
    window.accept_tracks [OF assms]
  by (auto simp: window_stale_def replay_drop_bit)

theorem replay_window_refines_set_witness:
  "\<not> replay_drop demo_info 70
   \<and> replay_drop (window_update 70 demo_info) 70 \<and> replay_drop (window_update 70 demo_info) 6
   \<and> \<not> replay_drop (window_update 70 demo_info) 7"
proof -
  have t: "window_tracks demo_info {}" by (simp add: window_tracks_fresh demo_info_def)
  have a: "\<not> replay_drop demo_info 70"
    using replay_window_refines_set [OF t, of 70] by (simp add: demo_info_def)
  with replay_window_refines_set [OF t, of 70]
  have "window_tracks (window_update 70 demo_info) {70}" by simp
  from replay_window_refines_set [OF this] a show ?thesis
    by (simp add: window_update_def demo_info_def Let_def)
qed

end
