(* ===== verification/SessionSafety.thy ===== *)
theory SessionSafety
  imports Window
begin

text \<open>
  Safety of sessions over an arbitrary transport and any sequence of method calls, whatever
  the transport does (fail a write after sending it, deliver forged frames): no AEAD nonce is
  used twice under a key, no sequence number is accepted twice in a key epoch, and the
  lengths of keys and identifiers stay right.  The transport is instrumented: it records the
  frames written, the keys installed and the sequence numbers confirmed, newest first.
\<close>

section \<open>A recording transport\<close>

datatype t_event = Wrote packet_type bytes int | Installed bytes bytes | Confirmed int

definition recording :: "'t transport_ops \<Rightarrow> ('t \<times> t_event list) transport_ops" where
  "recording ops =
     \<lparr>is_reliable = is_reliable ops,
      op_read_frame = (\<lambda>v (t, l). case op_read_frame ops v t of (out, t') \<Rightarrow> (out, (t', l))),
      op_write_frame = (\<lambda>ty p s (t, l).
        case op_write_frame ops ty p s t of (out, t') \<Rightarrow> (out, (t', Wrote ty p s # l))),
      op_set_session_keys = (\<lambda>tx rx (t, l). (op_set_session_keys ops tx rx t, Installed tx rx # l)),
      op_confirm_authenticated = (\<lambda>s (t, l). (op_confirm_authenticated ops s t, Confirmed s # l)),
      op_peername = (\<lambda>(t, l). op_peername ops t),
      op_close = (\<lambda>(t, l). (op_close ops t, l)),
      op_monotonic = (\<lambda>(t, l). case op_monotonic ops t of (now, t') \<Rightarrow> (now, (t', l))),
      op_set_timeout = (\<lambda>x (t, l). (op_set_timeout ops x t, l))\<rparr>"

lemma recording_simps [simp]:
  "is_reliable (recording ops) = is_reliable ops"
  "snd (snd (op_read_frame (recording ops) v x)) = snd x"
  "snd (snd (op_write_frame (recording ops) ty p s x)) = Wrote ty p s # snd x"
  "snd (op_set_session_keys (recording ops) tx rx x) = Installed tx rx # snd x"
  "snd (op_confirm_authenticated (recording ops) s x) = Confirmed s # snd x"
  "snd (op_close (recording ops) x) = snd x"
  "snd (snd (op_monotonic (recording ops) x)) = snd x"
  "snd (snd (monotonic (recording ops) x)) = snd x"
  "snd (op_set_timeout (recording ops) tmo x) = snd x"
  by (cases x; simp add: recording_def monotonic_def split: prod.splits)+

text \<open>Writes and confirmations since the newest installation of keys.\<close>

fun epoch_writes :: "t_event list \<Rightarrow> (bytes \<times> int) list" where
  "epoch_writes [] = []"
| "epoch_writes (Wrote ty p s # l) = (p, s) # epoch_writes l"
| "epoch_writes (Installed tx rx # l) = []"
| "epoch_writes (Confirmed s # l) = epoch_writes l"

fun epoch_confirms :: "t_event list \<Rightarrow> int list" where
  "epoch_confirms [] = []"
| "epoch_confirms (Wrote ty p s # l) = epoch_confirms l"
| "epoch_confirms (Installed tx rx # l) = []"
| "epoch_confirms (Confirmed s # l) = s # epoch_confirms l"

text \<open>A frame payload starts with the nonce it was encrypted under.\<close>

definition wire_nonce :: "bytes \<Rightarrow> bytes" where
  "wire_nonce payload = take 12 payload"

fun nonces_fresh :: "t_event list \<Rightarrow> bool" where
  "nonces_fresh [] = True"
| "nonces_fresh (Wrote ty p s # l) \<longleftrightarrow>
     wire_nonce p \<notin> wire_nonce ` fst ` set (epoch_writes l) \<and> nonces_fresh l"
| "nonces_fresh (Installed tx rx # l) = nonces_fresh l"
| "nonces_fresh (Confirmed s # l) = nonces_fresh l"

fun confirms_fresh :: "t_event list \<Rightarrow> bool" where
  "confirms_fresh [] = True"
| "confirms_fresh (Wrote ty p s # l) = confirms_fresh l"
| "confirms_fresh (Installed tx rx # l) = confirms_fresh l"
| "confirms_fresh (Confirmed s # l) \<longleftrightarrow> s \<notin> set (epoch_confirms l) \<and> confirms_fresh l"

section \<open>Sequences of method calls\<close>

datatype session_op =
    Op_send bytes | Op_recv nat "rat option" | Op_ping | Op_rekey bytes | Op_bye

fun run_op :: "'t transport_ops \<Rightarrow> crypto \<Rightarrow> session_op \<Rightarrow> 't session \<Rightarrow> 't session" where
  "run_op ops C (Op_send data) s = snd (send ops C data s)"
| "run_op ops C (Op_recv fuel timeout) s = snd (recv ops C fuel timeout s)"
| "run_op ops C Op_ping s = snd (ping ops C s)"
| "run_op ops C (Op_rekey salt) s = snd (rekey ops C salt s)"
| "run_op ops C Op_bye s = snd (bye ops C s)"

fun run_ops :: "'t transport_ops \<Rightarrow> crypto \<Rightarrow> session_op list \<Rightarrow> 't session \<Rightarrow> 't session" where
  "run_ops ops C [] s = s"
| "run_ops ops C (c # cs) s = run_ops ops C cs (run_op ops C c s)"

section \<open>What a verified frame has passed\<close>

lemma on_transport_info:
  "on_transport m s = (out, s') \<Longrightarrow>
   s_info s' = s_info s \<and> s_closed s' = s_closed s \<and> (out, s_transport s') = m (s_transport s)"
  by (auto simp: on_transport_def split: prod.splits)

lemma read_verified_Some:
  assumes "read_verified ops C s = (Ret (Some (frame, pt)), s')"
  shows "s_info s' = s_info s \<and> s_closed s' = s_closed s
    \<and> open_frame C (s_info s) frame = Inr pt
    \<and> (is_reliable ops \<or> \<not> replay_drop (s_info s') (fr_seq frame))
    \<and> fst (op_read_frame ops True (s_transport s)) = Ret frame"
proof -
  from assms obtain s1 where rd: "on_transport (op_read_frame ops True) s = (Ret frame, s1)"
    and nd: "is_reliable ops \<or> \<not> replay_drop (s_info s1) (fr_seq frame)"
    and op: "open_frame C (s_info s1) frame = Inr pt"
    and s': "\<exists>now s2. on_transport (monotonic ops) s1 = (Ret now, s2) \<and> s' = s2\<lparr>s_last_recv := now\<rparr>"
    by (auto simp: read_verified_defs bind_io_def catch_io_def lift_sum_def
        split: prod.splits outcome.splits if_splits sum.splits)
  have "s_info s1 = s_info s" "s_closed s1 = s_closed s"
    and "fst (op_read_frame ops True (s_transport s)) = Ret frame"
    using on_transport_info [OF rd] by (metis fst_conv)+
  moreover have "s_info s' = s_info s1" "s_closed s' = s_closed s1"
    using s' by (auto dest!: on_transport_info)
  ultimately show ?thesis using nd op by simp
qed

section \<open>Which invariants a session keeps\<close>

text \<open>
  The methods change a session through five kinds of steps.  An invariant that each of
  them keeps is kept by every method: this is the interface between the code's control
  structure and the individual invariants below.
\<close>

locale session_steps =
  fixes ops :: "'t transport_ops" and C :: crypto and Inv :: "'t session \<Rightarrow> bool"
  assumes inv_read: "preserves Inv (on_transport (op_read_frame ops v))"
    and inv_clock: "preserves Inv (on_transport (monotonic ops))"
    and inv_stamp: "Inv s \<Longrightarrow> Inv (s\<lparr>s_last_recv := now\<rparr>)"
    and inv_send: "ptype \<noteq> BYE \<Longrightarrow> preserves Inv (send_encrypted_locked ops C ptype plaintext)"
    and inv_bye: "preserves Inv (bye ops C)"
    and inv_rotate: "preserves Inv (rotate_keys ops C ini salt)"
    and inv_accept: "Inv s \<Longrightarrow> is_reliable ops \<or> \<not> replay_drop (s_info s) n \<Longrightarrow>
      Inv (snd (accept_seq ops n s))"
begin

lemmas inv_steps = inv_read inv_clock inv_send inv_bye inv_rotate

lemma inv_send_loop: "preserves Inv (send_loop ops C data offset)"
proof (induction "length data - offset" arbitrary: offset rule: less_induct)
  case less
  let ?chunk = "slice offset (offset + USMP_MAX_DATA_LEN) data"
  show ?case
  proof (cases "offset < length data \<or> length data = 0")
    case False
    then show ?thesis by (subst send_loop.simps) (auto intro: preserve)
  next
    case True
    then have rest: "preserves Inv (if length data = 0 then ret ()
        else send_loop ops C data (offset + length ?chunk))"
      using less by (auto simp: length_slice intro: preserve)
    from True show ?thesis
      by (subst send_loop.simps) (simp only: if_True Let_def, intro preserves_bind inv_send rest, simp)
  qed
qed

lemma inv_send_message: "preserves Inv (send ops C data)"
  by (auto simp: send_def intro!: preserve inv_send_loop)

lemma inv_rekey: "preserves Inv (rekey ops C salt)"
  by (auto simp: rekey_def intro!: preserve inv_send inv_rotate)

lemma inv_control: "preserves Inv (handle_control ops C ptype l)"
  by (auto simp: handle_control_def send_pong_def send_encrypted_def Let_def
      intro!: preserve inv_send inv_clock)

lemma inv_guarded_dispatch: "preserves Inv (guarded_dispatch ops C frame plaintext l)"
  by (auto simp: guarded_dispatch_def dispatch_frame_def handle_rekey_def handle_data_def Let_def
      intro!: preserve inv_control inv_rotate)

lemma inv_read_verified: "preserves Inv (read_verified ops C)"
  by (auto simp: read_verified_defs intro!: preserve inv_read inv_clock inv_stamp)

lemma inv_recv_step: "preserves Inv (recv_step ops C l)"
proof (rule preservesI)
  fix s
  assume s: "Inv s"
  obtain out s1 where rv: "read_verified ops C s = (out, s1)" by fastforce
  have s1: "Inv s1" using preservesD [OF inv_read_verified s rv] .
  show "Inv (snd (recv_step ops C l s))"
  proof (cases "\<exists>frame pt. out = Ret (Some (frame, pt)) \<and> fr_seq frame < 0xFFFFFFFF")
    case False
    then show ?thesis
      using s1 rv by (auto simp: recv_step_def bind_io_def split: outcome.splits option.splits)
  next
    case True
    then obtain frame pt where out: "out = Ret (Some (frame, pt))" "fr_seq frame < 0xFFFFFFFF"
      by blast
    obtain o2 s2 where acc: "accept_seq ops (fr_seq frame) s1 = (o2, s2)" by fastforce
    have "is_reliable ops \<or> \<not> replay_drop (s_info s1) (fr_seq frame)"
      using rv out read_verified_Some by blast
    then have s2: "Inv s2" using inv_accept [OF s1] acc by (metis snd_conv)
    show ?thesis
      using s2 rv out acc inv_guarded_dispatch
      by (auto simp: recv_step_def bind_io_def preserves_def split: outcome.splits)
  qed
qed

lemma inv_recv_loop: "preserves Inv (recv_loop ops C fuel l)"
  by (induction fuel arbitrary: l)
    (auto intro!: preserve inv_recv_step split: recv_flow.splits)

lemma inv_recv_internal: "preserves Inv (recv_internal ops C fuel)"
  by (auto simp: recv_internal_def intro!: preserve inv_clock inv_recv_loop)

end

text \<open>With the timers, whole calls of \<open>recv\<close> are covered.\<close>

locale session_invariant = session_steps +
  assumes inv_timer: "Inv s \<Longrightarrow> Inv (session_timer ops x s)"
begin

lemma inv_recv: "preserves Inv (recv ops C fuel timeout)"
proof (rule preservesI)
  fix s
  assume "Inv s"
  moreover have "preserves Inv (catch_io
      (wait_for PyTimeoutError (session_timer ops) v (recv_internal ops C fuel))
      (\<lambda>e. if e = PyTimeoutError then throw USMPTimeoutError else throw e))" for v
    by (auto intro!: preserve inv_timer inv_recv_internal)
  moreover note inv_recv_internal [of fuel]
  ultimately show "Inv (snd (recv ops C fuel timeout s))"
    by (simp add: recv_def preserves_def split: option.splits)
qed

lemma inv_run_op: "Inv s \<Longrightarrow> Inv (run_op ops C c s)"
  using inv_send_message inv_recv inv_send [of PING "[]"] inv_rekey inv_bye
  by (cases c) (auto simp: preserves_def ping_def send_encrypted_def)

lemma inv_run_ops: "Inv s \<Longrightarrow> Inv (run_ops ops C cs s)"
  by (induction cs arbitrary: s) (auto intro: inv_run_op)

end

section \<open>Nonces\<close>

definition used_nonces_below :: "'t session \<Rightarrow> (bytes \<times> int) list \<Rightarrow> bool" where
  "used_nonces_below s ws \<longleftrightarrow>
     (\<forall>(p, x)\<in>set ws. 0 \<le> x \<and> wire_nonce p = le_bytes 4 x @ take 8 (session_id (s_info s))
        \<and> (x < tx_seq (s_info s)
           \<or> s_closed s \<and> tx_seq (s_info s) = 0xFFFFFFFF \<and> x = 0xFFFFFFFF))"

definition tx_inv :: "('t \<times> t_event list) session \<Rightarrow> bool" where
  "tx_inv s \<longleftrightarrow>
     8 \<le> length (session_id (s_info s)) \<and> 0 \<le> tx_seq (s_info s) \<and> tx_seq (s_info s) \<le> 0xFFFFFFFF
     \<and> nonces_fresh (snd (s_transport s))
     \<and> used_nonces_below s (epoch_writes (snd (s_transport s)))"

lemma seal_nonce:
  assumes "8 \<le> length (session_id info)" "0 \<le> tx_seq info" "tx_seq info \<le> 0xFFFFFFFF"
    and "seal C info ptype pt = Inr ct"
  shows "wire_nonce ct = le_bytes 4 (tx_seq info) @ take 8 (session_id info)"
proof -
  have "session_nonce info (tx_seq info) = Inr (le_bytes 4 (tx_seq info) @ take 8 (session_id info))"
    using assms(2,3) by (simp add: session_nonce_def pack_I_ok)
  with assms(4) have "encrypt C (tx_key info) (le_bytes 4 (tx_seq info) @ take 8 (session_id info))
      (tx_seq info) (packet_type_code ptype) USMP_VERSION USMP_MAGIC pt (cipher_suite info) = Inr ct"
    by (simp add: seal_def)
  from encrypt_Inr_nonce [OF this]
  have "take (length (le_bytes 4 (tx_seq info) @ take 8 (session_id info))) ct
      = le_bytes 4 (tx_seq info) @ take 8 (session_id info)" .
  with assms(1) show ?thesis by (simp add: wire_nonce_def)
qed

lemma send_locked_state:
  "snd (send_encrypted_locked ops C ptype pt s) =
     (if 0xFFFFFFFF \<le> tx_seq (s_info s) \<and> ptype \<noteq> BYE then s
      else case seal C (s_info s) ptype pt of
        Inl e \<Rightarrow> s
      | Inr ct \<Rightarrow>
          (update_info (tx_seq_update (\<lambda>_. min (tx_seq (s_info s) + 1) 0xFFFFFFFF)) s)
            \<lparr>s_transport := snd (op_write_frame ops ptype ct (tx_seq (s_info s)) (s_transport s))\<rparr>)"
  by (auto simp: send_encrypted_locked_def Let_def bind_io_def lift_sum_def on_transport_def
      update_info_def split: sum.splits prod.splits)

lemma le_nonce_eq:
  assumes "0 \<le> x" "x \<le> 0xFFFFFFFF" "0 \<le> y" "y \<le> 0xFFFFFFFF"
    and "le_bytes 4 x @ sid = le_bytes 4 y @ sid"
  shows "x = y"
  using assms le_bytes_inj [of x 4 y] by simp

lemma send_locked_tx_inv:
  assumes inv: "tx_inv s"
    and bye: "ptype \<noteq> BYE \<or> s_closed s \<and>
      (\<forall>(p, x)\<in>set (epoch_writes (snd (s_transport s))). x < tx_seq (s_info s))"
  shows "tx_inv (snd (send_encrypted_locked (recording ops) C ptype pt s))"
proof (cases "0xFFFFFFFF \<le> tx_seq (s_info s) \<and> ptype \<noteq> BYE \<or> (\<exists>e. seal C (s_info s) ptype pt = Inl e)")
  case True
  with inv show ?thesis by (auto simp: send_locked_state split: sum.splits)
next
  case False
  then obtain ct where ct: "seal C (s_info s) ptype pt = Inr ct" by (metis sum.exhaust)
  let ?n = "tx_seq (s_info s)"
  let ?l = "snd (s_transport s)"
  let ?sid = "take 8 (session_id (s_info s))"
  have n: "0 \<le> ?n" "?n \<le> 0xFFFFFFFF" and used: "used_nonces_below s (epoch_writes ?l)"
    using inv by (simp_all add: tx_inv_def)
  have below: "0 \<le> x \<and> x < ?n \<and> wire_nonce p = le_bytes 4 x @ ?sid"
    if "(p, x) \<in> set (epoch_writes ?l)" for p x
    using that used bye False by (fastforce simp: used_nonces_below_def)
  have nonce: "wire_nonce ct = le_bytes 4 ?n @ ?sid"
    using inv ct by (intro seal_nonce) (simp_all add: tx_inv_def)
  have fresh: "wire_nonce ct \<notin> wire_nonce ` fst ` set (epoch_writes ?l)"
  proof
    assume "wire_nonce ct \<in> wire_nonce ` fst ` set (epoch_writes ?l)"
    then obtain p x where px: "(p, x) \<in> set (epoch_writes ?l)" "wire_nonce ct = wire_nonce p"
      by force
    then have "x = ?n" using below [OF px(1)] nonce n le_nonce_eq [of x ?n ?sid] by simp
    with below [OF px(1)] show False by simp
  qed
  let ?m = "min (?n + 1) 0xFFFFFFFF"
  have new: "x < ?m \<or> s_closed s \<and> ?m = 0xFFFFFFFF \<and> x = 0xFFFFFFFF" if "x \<le> ?n" for x
    using that n False bye by (auto simp: min_def)
  have "snd (send_encrypted_locked (recording ops) C ptype pt s) =
      (update_info (tx_seq_update (\<lambda>_. ?m)) s)
        \<lparr>s_transport := snd (op_write_frame (recording ops) ptype ct ?n (s_transport s))\<rparr>"
    using False ct by (auto simp: send_locked_state)
  moreover have "used_nonces_below (update_info (tx_seq_update (\<lambda>_. ?m)) s) ((ct, ?n) # epoch_writes ?l)"
    using below new nonce n
    by (auto simp: used_nonces_below_def update_info_def dest!: below intro: order_less_imp_le)
  ultimately show ?thesis
    using inv fresh n by (simp add: tx_inv_def update_info_def used_nonces_below_def)
qed

lemma bye_state:
  assumes "\<not> s_closed s"
    and "s1 = snd (send_encrypted_locked ops C BYE [] (s\<lparr>s_closed := True\<rparr>))"
  shows "snd (bye ops C s) = s1 \<or> snd (bye ops C s) = s1\<lparr>s_transport := op_close ops (s_transport s1)\<rparr>"
  using assms
  by (auto simp: bye_def send_encrypted_def finally_io_def catch_io_def
      split: prod.splits outcome.splits if_splits)

lemma tx_inv_transport:
  "tx_inv s \<Longrightarrow> s_info s' = s_info s \<Longrightarrow> s_closed s' = s_closed s \<Longrightarrow>
   snd (s_transport s') = snd (s_transport s) \<Longrightarrow> tx_inv s'"
  by (simp add: tx_inv_def used_nonces_below_def)

lemma on_transport_log:
  "snd (snd (m (s_transport s))) = snd (s_transport s) \<Longrightarrow>
   s_info (snd (on_transport m s)) = s_info s \<and> s_closed (snd (on_transport m s)) = s_closed s
   \<and> snd (s_transport (snd (on_transport m s))) = snd (s_transport s)"
  by (auto simp: on_transport_def split: prod.splits)

lemma accept_seq_reliable:
  "is_reliable ops \<Longrightarrow>
   snd (accept_seq ops n s) = (if n = rx_seq (s_info s) then update_info (rx_seq_update (\<lambda>n. n + 1)) s else s)"
  by (simp add: accept_seq_def bind_io_def)

lemma accept_seq_unreliable:
  "\<not> is_reliable ops \<Longrightarrow>
   snd (accept_seq ops n s) =
     s_transport_update (op_confirm_authenticated ops n) (update_info (window_update n) s)"
  by (simp add: accept_seq_def bind_io_def)

lemma window_update_frame [simp]:
  "tx_seq (window_update n info) = tx_seq info" "session_id (window_update n info) = session_id info"
  "tx_key (window_update n info) = tx_key info" "rx_key (window_update n info) = rx_key info"
  "device_id (window_update n info) = device_id info"
  "cipher_suite (window_update n info) = cipher_suite info"
  by (simp_all add: window_update_def Let_def)

lemma rekey_info_fields [simp]:
  "tx_seq (rekey_info C ini salt info) = 0" "rx_seq (rekey_info C ini salt info) = 0"
  "rx_window_bitmap (rekey_info C ini salt info) = 0"
  "session_id (rekey_info C ini salt info) = session_id info"
  "device_id (rekey_info C ini salt info) = device_id info"
  "cipher_suite (rekey_info C ini salt info) = cipher_suite info"
  by (simp_all add: rekey_info_def split: prod.splits)

lemma rotate_keys_state:
  "snd (rotate_keys ops C ini salt s) = install_keys ops (update_info (rekey_info C ini salt) s)"
  by (simp add: rotate_keys_def)

interpretation tx: session_invariant "recording ops" C tx_inv for ops C
proof
  fix v
  show "preserves tx_inv (on_transport (op_read_frame (recording ops) v))"
    by (rule preservesI) (erule tx_inv_transport, simp_all add: on_transport_log)
  show "preserves tx_inv (on_transport (monotonic (recording ops)))"
    by (rule preservesI) (erule tx_inv_transport, simp_all add: on_transport_log)
next
  fix s :: "('a \<times> t_event list) session" and now
  show "tx_inv s \<Longrightarrow> tx_inv (s\<lparr>s_last_recv := now\<rparr>)"
    by (erule tx_inv_transport) simp_all
  show "tx_inv s \<Longrightarrow> tx_inv (session_timer (recording ops) x s)" for x
    by (erule tx_inv_transport) (simp_all add: session_timer_def)
next
  fix ptype plaintext
  show "ptype \<noteq> BYE \<Longrightarrow> preserves tx_inv (send_encrypted_locked (recording ops) C ptype plaintext)"
    by (rule preservesI) (simp add: send_locked_tx_inv)
next
  show "preserves tx_inv (bye (recording ops) C)"
  proof (rule preservesI)
    fix s :: "('a \<times> t_event list) session"
    assume inv: "tx_inv s"
    show "tx_inv (snd (bye (recording ops) C s))"
    proof (cases "s_closed s")
      case True
      with inv show ?thesis by (simp add: bye_def)
    next
      case False
      let ?s = "s\<lparr>s_closed := True\<rparr>"
      have "\<forall>(p, x)\<in>set (epoch_writes (snd (s_transport ?s))). x < tx_seq (s_info ?s)"
        using inv False by (auto simp: tx_inv_def used_nonces_below_def)
      moreover have "tx_inv ?s" using inv by (auto simp: tx_inv_def used_nonces_below_def)
      ultimately have "tx_inv (snd (send_encrypted_locked (recording ops) C BYE [] ?s))"
        by (intro send_locked_tx_inv) simp_all
      then show ?thesis
        using bye_state [OF False refl, of "recording ops" C] by (auto elim!: tx_inv_transport)
    qed
  qed
next
  fix ini salt
  show "preserves tx_inv (rotate_keys (recording ops) C ini salt)"
    by (rule preservesI)
      (simp add: rotate_keys_state install_keys_def update_info_def tx_inv_def used_nonces_below_def)
next
  fix s :: "('a \<times> t_event list) session" and n
  show "tx_inv s \<Longrightarrow> tx_inv (snd (accept_seq (recording ops) n s))"
    by (cases "is_reliable ops")
      (simp_all add: accept_seq_reliable accept_seq_unreliable update_info_def tx_inv_def
        used_nonces_below_def)
qed

text \<open>
  C10: no AEAD nonce is ever used twice under one key.  Over any transport (its writes may
  fail after the frame has left), with any cryptography and after any sequence of sends,
  receives, pings, rekeys and closings of a session, the frames written since any
  installation of keys carry pairwise different nonces.
\<close>

theorem session_nonces_never_repeat:
  assumes "s_transport s = (t, [])" and "8 \<le> length (session_id (s_info s))"
    and "0 \<le> tx_seq (s_info s)" and "tx_seq (s_info s) \<le> 0xFFFFFFFF"
  shows "nonces_fresh (snd (s_transport (run_ops (recording ops) C cs s)))"
proof -
  have "tx_inv s" using assms by (simp add: tx_inv_def used_nonces_below_def)
  from tx.inv_run_ops [OF this] show ?thesis by (simp add: tx_inv_def)
qed

text \<open>A fresh session at which the theorems are instantiated.\<close>

definition demo_session :: "'t \<Rightarrow> 't session" where
  "demo_session t =
     \<lparr>s_transport = t, s_info = demo_info, s_recv_timeout = None, s_last_recv = 0,
      s_closed = False\<rparr>"

theorem session_nonces_never_repeat_witness:
  "nonces_fresh (snd (s_transport (run_ops (recording tcp_ops) demo_crypto
     [Op_send [1, 2], Op_ping, Op_rekey (replicate 32 5), Op_send [], Op_bye, Op_ping, Op_bye]
     (demo_session (tcp_connected No_peer (0, []) [] False, [])))))"
  by (rule session_nonces_never_repeat) (simp_all add: demo_session_def demo_info_def)

section \<open>Replay\<close>

definition rx_inv :: "'t transport_ops \<Rightarrow> ('t \<times> t_event list) session \<Rightarrow> bool" where
  "rx_inv ops s \<longleftrightarrow> is_reliable ops
     \<or> window_tracks (s_info s) (set (epoch_confirms (snd (s_transport s))))
       \<and> confirms_fresh (snd (s_transport s))"

lemma window_tracks_cong:
  "rx_seq i = rx_seq j \<Longrightarrow> rx_window_bitmap i = rx_window_bitmap j \<Longrightarrow>
   window_tracks i A \<longleftrightarrow> window_tracks j A"
  by (simp add: window_tracks_def)

lemma rx_inv_transport:
  "rx_inv ops s \<Longrightarrow> rx_seq (s_info s') = rx_seq (s_info s) \<Longrightarrow>
   rx_window_bitmap (s_info s') = rx_window_bitmap (s_info s) \<Longrightarrow>
   epoch_confirms (snd (s_transport s')) = epoch_confirms (snd (s_transport s)) \<Longrightarrow>
   confirms_fresh (snd (s_transport s')) = confirms_fresh (snd (s_transport s)) \<Longrightarrow> rx_inv ops s'"
  by (auto simp: rx_inv_def window_tracks_cong [of "s_info s'" "s_info s"])

lemma rx_inv_send: "rx_inv ops s \<Longrightarrow> rx_inv ops (snd (send_encrypted_locked (recording ops) C ty p s))"
  by (auto simp: send_locked_state update_info_def elim!: rx_inv_transport split: sum.splits)

interpretation rx: session_invariant "recording ops" C "rx_inv ops" for ops C
proof
  fix v
  show "preserves (rx_inv ops) (on_transport (op_read_frame (recording ops) v))"
    by (rule preservesI) (erule rx_inv_transport, simp_all add: on_transport_log)
  show "preserves (rx_inv ops) (on_transport (monotonic (recording ops)))"
    by (rule preservesI) (erule rx_inv_transport, simp_all add: on_transport_log)
next
  fix s :: "('a \<times> t_event list) session" and now
  show "rx_inv ops s \<Longrightarrow> rx_inv ops (s\<lparr>s_last_recv := now\<rparr>)"
    by (erule rx_inv_transport) simp_all
  show "rx_inv ops s \<Longrightarrow> rx_inv ops (session_timer (recording ops) x s)" for x
    by (erule rx_inv_transport) (simp_all add: session_timer_def)
next
  fix ptype plaintext
  show "preserves (rx_inv ops) (send_encrypted_locked (recording ops) C ptype plaintext)"
    by (rule preservesI) (rule rx_inv_send)
next
  show "preserves (rx_inv ops) (bye (recording ops) C)"
  proof (rule preservesI)
    fix s :: "('a \<times> t_event list) session"
    assume inv: "rx_inv ops s"
    show "rx_inv ops (snd (bye (recording ops) C s))"
    proof (cases "s_closed s")
      case True
      with inv show ?thesis by (simp add: bye_def)
    next
      case False
      have "rx_inv ops (s\<lparr>s_closed := True\<rparr>)" using inv by (auto elim: rx_inv_transport)
      then have "rx_inv ops (snd (send_encrypted_locked (recording ops) C BYE [] (s\<lparr>s_closed := True\<rparr>)))"
        by (rule rx_inv_send)
      then show ?thesis
        using bye_state [OF False refl, of "recording ops" C] by (auto elim!: rx_inv_transport)
    qed
  qed
next
  fix ini salt
  show "preserves (rx_inv ops) (rotate_keys (recording ops) C ini salt)"
    by (rule preservesI)
      (auto simp: rotate_keys_state install_keys_def update_info_def rx_inv_def window_tracks_fresh)
next
  fix s :: "('a \<times> t_event list) session" and n
  assume inv: "rx_inv ops s" and ok: "is_reliable (recording ops) \<or> \<not> replay_drop (s_info s) n"
  show "rx_inv ops (snd (accept_seq (recording ops) n s))"
  proof (cases "is_reliable ops")
    case True
    then show ?thesis by (simp add: rx_inv_def)
  next
    case False
    with inv ok have t: "window_tracks (s_info s) (set (epoch_confirms (snd (s_transport s))))"
      and drop: "\<not> replay_drop (s_info s) n" by (simp_all add: rx_inv_def)
    from window.accept_tracks [OF t drop] window.seen_dropped [OF t, of n] drop inv False
    show ?thesis by (auto simp: accept_seq_unreliable update_info_def rx_inv_def)
  qed
qed

text \<open>
  C11: replay protection on unreliable transports: whatever datagrams arrive, and whatever the
  application calls, no two frames with the same sequence number pass the receive loop's
  checks (and are confirmed to the transport) between two installations of keys.
\<close>

theorem session_rejects_replays:
  assumes "\<not> is_reliable ops" and "s_transport s = (t, [])"
    and "rx_window_bitmap (s_info s) = 0"
  shows "confirms_fresh (snd (s_transport (run_ops (recording ops) C cs s)))"
proof -
  have "rx_inv ops s" using assms by (simp add: rx_inv_def window_tracks_fresh)
  from rx.inv_run_ops [OF this] assms(1) show ?thesis by (simp add: rx_inv_def)
qed

theorem session_rejects_replays_witness:
  "confirms_fresh (snd (s_transport (run_ops (recording (tcp_ops\<lparr>is_reliable := False\<rparr>)) demo_crypto
     [Op_recv 3 None, Op_send [7], Op_recv 2 None]
     (demo_session (tcp_connected No_peer (0, []) (concat (replicate 2 (frame_bytes PING [] 0))) True, [])))))"
  by (rule session_rejects_replays) (simp_all add: demo_session_def demo_info_def)

section \<open>Lengths\<close>

definition info_inv :: "crypto \<Rightarrow> 't session \<Rightarrow> bool" where
  "info_inv C s \<longleftrightarrow> (hkdf_law C \<longrightarrow> info_ok (s_info s) \<and> 0 \<le> tx_seq (s_info s)
     \<and> tx_seq (s_info s) \<le> 0xFFFFFFFF)"

lemma info_inv_cong: "info_inv C s \<Longrightarrow> s_info s' = s_info s \<Longrightarrow> info_inv C s'"
  by (simp add: info_inv_def)

lemma info_inv_send: "info_inv C s \<Longrightarrow> info_inv C (snd (send_encrypted_locked ops C' ty p s))"
  by (auto simp: send_locked_state update_info_def info_inv_def info_ok_def split: sum.splits)

lemma info_ok_rekey: "hkdf_law C \<Longrightarrow> info_ok info \<Longrightarrow> info_ok (rekey_info C ini salt info)"
  using derive_rekey_keys_length [of C]
  by (auto simp: info_ok_def rekey_info_def split: prod.splits)

interpretation info: session_invariant ops C "info_inv C" for ops C
proof
  fix v
  show "preserves (info_inv C) (on_transport (op_read_frame ops v))"
    by (rule preservesI) (auto elim!: info_inv_cong simp: on_transport_def split: prod.splits)
  show "preserves (info_inv C) (on_transport (monotonic ops))"
    by (rule preservesI) (auto elim!: info_inv_cong simp: on_transport_def split: prod.splits)
next
  fix s :: "'a session" and now
  show "info_inv C s \<Longrightarrow> info_inv C (s\<lparr>s_last_recv := now\<rparr>)"
    by (simp add: info_inv_def)
  show "info_inv C s \<Longrightarrow> info_inv C (session_timer ops x s)" for x
    by (simp add: info_inv_def session_timer_def)
next
  fix ptype plaintext
  show "preserves (info_inv C) (send_encrypted_locked ops C ptype plaintext)"
    by (rule preservesI) (rule info_inv_send)
next
  show "preserves (info_inv C) (bye ops C)"
  proof (rule preservesI)
    fix s :: "'a session"
    assume inv: "info_inv C s"
    show "info_inv C (snd (bye ops C s))"
    proof (cases "s_closed s")
      case True
      with inv show ?thesis by (simp add: bye_def)
    next
      case False
      have "info_inv C (snd (send_encrypted_locked ops C BYE [] (s\<lparr>s_closed := True\<rparr>)))"
        using inv by (intro info_inv_send) (simp add: info_inv_def)
      then show ?thesis
        using bye_state [OF False refl, of ops C] by (auto elim!: info_inv_cong)
    qed
  qed
next
  fix ini salt
  show "preserves (info_inv C) (rotate_keys ops C ini salt)"
    by (rule preservesI)
      (auto simp: rotate_keys_state install_keys_def update_info_def info_inv_def info_ok_rekey)
next
  fix s :: "'a session" and n
  show "info_inv C s \<Longrightarrow> info_inv C (snd (accept_seq ops n s))"
    by (cases "is_reliable ops")
      (simp_all add: accept_seq_reliable accept_seq_unreliable update_info_def info_inv_def
        info_ok_def)
qed

text \<open>
  C31: a session information that passed \<open>__post_init__\<close> stays well-formed: after any sequence
  of method calls its keys have 32 bytes, its identifiers 6 and 16, and its send sequence
  number is a 32-bit value.
\<close>

theorem session_info_stays_ok:
  assumes "hkdf_law C" and "SessionInfo dev sid tx rx = Inr info"
    and "s_info s = info"
  shows "info_ok (s_info (run_ops ops C cs s))
    \<and> 0 \<le> tx_seq (s_info (run_ops ops C cs s)) \<and> tx_seq (s_info (run_ops ops C cs s)) \<le> 0xFFFFFFFF"
proof -
  have "info_inv C s" using SessionInfo_Inr [OF assms(2)] assms(3) by (simp add: info_inv_def)
  from info.inv_run_ops [OF this] assms(1) show ?thesis by (simp add: info_inv_def)
qed

theorem session_info_stays_ok_witness:
  "info_ok (s_info (run_ops tcp_ops demo_crypto [Op_send [1], Op_rekey (replicate 32 5), Op_bye]
     (demo_session (tcp_connected No_peer (0, []) [] False))))"
proof -
  have "SessionInfo (replicate 6 1) (replicate 16 2) (replicate 32 3) (replicate 32 4) = Inr demo_info"
    by (simp add: SessionInfo_def session_info_post_init_def demo_info_def)
  from session_info_stays_ok [OF _ this, of demo_crypto
      "demo_session (tcp_connected No_peer (0, []) [] False)" tcp_ops
      "[Op_send [1], Op_rekey (replicate 32 5), Op_bye]"]
  show ?thesis by (simp add: demo_session_def)
qed

section \<open>Invariants of the transport\<close>

lemma preservesI_transport:
  "(\<And>t. Q t \<Longrightarrow> Q (snd (m t))) \<Longrightarrow> preserves (\<lambda>s. Q (s_transport s)) (on_transport m)"
  by (auto simp: preserves_def on_transport_def split: prod.splits) (metis snd_conv)

sublocale transport_steps \<subseteq> session: session_steps ops C "\<lambda>s. T (s_transport s)" for C
proof
  fix v
  show "preserves (\<lambda>s. T (s_transport s)) (on_transport (op_read_frame ops v))"
    by (rule preservesI_transport) (rule read_keeps)
  show "preserves (\<lambda>s. T (s_transport s)) (on_transport (monotonic ops))"
    by (rule preservesI_transport) (simp add: monotonic_def split_beta clock_keeps)
next
  fix ptype plaintext
  have send: "T (s_transport s) \<Longrightarrow> T (s_transport (snd (send_encrypted_locked ops C ty p s)))"
    for ty p and s :: "'t session"
    using write_keeps by (simp add: send_locked_state update_info_def split: sum.splits)
  then show "preserves (\<lambda>s. T (s_transport s)) (send_encrypted_locked ops C ptype plaintext)"
    by (rule preservesI)
  show "preserves (\<lambda>s. T (s_transport s)) (bye ops C)"
  proof (rule preservesI)
    fix s :: "'t session"
    assume k: "T (s_transport s)"
    show "T (s_transport (snd (bye ops C s)))"
    proof (cases "s_closed s")
      case True
      with k show ?thesis by (simp add: bye_def)
    next
      case False
      from bye_state [OF False refl, of ops C] send [of "s\<lparr>s_closed := True\<rparr>" BYE "[]"] k
      show ?thesis by (auto simp: close_keeps)
    qed
  qed
next
  fix ini salt
  show "preserves (\<lambda>s. T (s_transport s)) (rotate_keys ops C ini salt)"
    by (rule preservesI)
      (simp add: rotate_keys_state install_keys_def update_info_def keys_keep)
next
  fix s :: "'t session" and n
  show "T (s_transport s) \<Longrightarrow> T (s_transport (snd (accept_seq ops n s)))"
    by (cases "is_reliable ops")
      (simp_all add: accept_seq_reliable accept_seq_unreliable update_info_def confirm_keeps)
qed simp

sublocale transport_invariant \<subseteq> session: session_invariant ops C "\<lambda>s. T (s_transport s)" for C
  by unfold_locales (simp add: session_timer_def timeout_keeps)

end
