(* ===== verification/ServerSafety.thy ===== *)
theory ServerSafety
  imports Server SessionSafety
begin

text \<open>
  The server under any interleaving of datagrams, connections, handshakes and disconnections:
  its limits hold in every reachable state, its counters are exact, and nothing is left
  behind by connections that ended.  Unauthenticated datagrams: no state for an address
  before it has proved that it receives what is sent to it, and no amplification.
\<close>

section \<open>The connection tasks\<close>

text \<open>
  The running tasks of \<open>_on_transport_connect\<close>: the addresses of TCP tasks, and for UDP tasks
  the name of the stream, its address, and \<open>handshake_decremented\<close>.
\<close>

record system =
  sys_server :: server
  sys_tcp :: "string list"
  sys_udp :: "(nat, addr \<times> bool) dict"

definition after_error :: "string \<Rightarrow> rat \<Rightarrow> py_exc option \<Rightarrow> server \<Rightarrow> server" where
  "after_error ip now e sv =
     (case e of
        None \<Rightarrow> sv
      | Some x \<Rightarrow> sv\<lparr>sv_failed := snd (connection_error ip now x (sv_failed sv))\<rparr>)"

inductive server_step :: "crypto \<Rightarrow> system \<Rightarrow> system \<Rightarrow> bool" for C :: crypto where
  datagram: "handle_udp_datagram C wall now data addr (sys_server s) = (sv, None) \<Longrightarrow>
    server_step C s (s\<lparr>sys_server := sv\<rparr>)"
| udp_task: "handle_udp_datagram C wall now data addr (sys_server s) = (sv, Some i) \<Longrightarrow>
    server_step C s (s\<lparr>sys_server := sv, sys_udp := (i, addr, False) # sys_udp s\<rparr>)"
| udp_registered: "map_of (sys_udp s) i = Some (addr, False) \<Longrightarrow>
    register_udp addr i (sys_server s) = (sv, True) \<Longrightarrow>
    server_step C s (s\<lparr>sys_server := sv, sys_udp := AList.update i (addr, True) (sys_udp s)\<rparr>)"
| udp_refused: "map_of (sys_udp s) i = Some (addr, False) \<Longrightarrow>
    register_udp addr i (sys_server s) = (sv, False) \<Longrightarrow>
    server_step C s (s\<lparr>sys_server := release_udp addr i True sv, sys_udp := AList.delete i (sys_udp s)\<rparr>)"
| udp_ended: "map_of (sys_udp s) i = Some (addr, decremented) \<Longrightarrow>
    server_step C s (s\<lparr>sys_server := release_udp addr i decremented (after_error (fst addr) now e (sys_server s)),
      sys_udp := AList.delete i (sys_udp s)\<rparr>)"
| tcp_accepted: "admit_tcp ip (sys_server s) = Some sv \<Longrightarrow>
    server_step C s (s\<lparr>sys_server := sv, sys_tcp := ip # sys_tcp s\<rparr>)"
| tcp_ended: "ip \<in> set (sys_tcp s) \<Longrightarrow>
    server_step C s (s\<lparr>sys_server := release_tcp ip (after_error ip now e (sys_server s)),
      sys_tcp := remove1 ip (sys_tcp s)\<rparr>)"
| handshake_counted: "d = AList.delete k (sv_failed (sys_server s))
      \<or> record_failed_handshake k now (sv_failed (sys_server s)) = Inr d \<Longrightarrow>
    server_step C s (s\<lparr>sys_server := (sys_server s)\<lparr>sv_failed := d\<rparr>\<rparr>)"
| stream_used: "map_of (sys_udp s) i = Some t \<Longrightarrow>
    server_step C s (s\<lparr>sys_server := store_stream i u (sys_server s)\<rparr>)"

inductive server_reachable :: "crypto \<Rightarrow> system \<Rightarrow> system \<Rightarrow> bool" for C :: crypto and s0 :: system where
  start: "server_reachable C s0 s0"
| step: "server_reachable C s0 s \<Longrightarrow> server_step C s s' \<Longrightarrow> server_reachable C s0 s'"

definition started :: "server \<Rightarrow> system" where
  "started sv = \<lparr>sys_server = sv, sys_tcp = [], sys_udp = []\<rparr>"

section \<open>What each operation changes\<close>

text \<open>The tables that the invariants are about.\<close>

definition same_tables :: "server \<Rightarrow> server \<Rightarrow> bool" where
  "same_tables sv sv' \<longleftrightarrow>
     sv_max_connections sv' = sv_max_connections sv
     \<and> sv_max_connections_per_ip sv' = sv_max_connections_per_ip sv
     \<and> sv_tcp_connections sv' = sv_tcp_connections sv \<and> sv_in_progress sv' = sv_in_progress sv
     \<and> sv_handshakes sv' = sv_handshakes sv \<and> sv_sessions sv' = sv_sessions sv
     \<and> sv_next sv' = sv_next sv"

lemma same_tables_refl [simp]: "same_tables sv sv"
  by (simp add: same_tables_def)

lemma same_tables_ops [simp]:
  "same_tables sv (feed_stream C i data sv)" "same_tables sv (close_stream i sv)"
  "same_tables sv (after_error ip now e sv)" "same_tables sv (send_datagram a d sv)"
  "same_tables sv (sv\<lparr>sv_failed := f\<rparr>)" "same_tables sv (store_stream i u sv)"
  by (simp_all add: same_tables_def feed_stream_def close_stream_def after_error_def send_datagram_def
      store_stream_def
      split: option.split)

lemma same_tables_route [simp]: "same_tables sv (route_data C data addr sv)"
  by (simp add: route_data_def split: option.split)

lemma same_tables_cookie [simp]: "same_tables sv (issue_cookie C wall now data addr sv)"
  by (simp add: issue_cookie_def Let_def same_tables_def send_datagram_def split: prod.split sum.split)

lemma handle_udp_datagram_cases:
  assumes "handle_udp_datagram C wall now data addr sv = (sv', r)"
  shows "r = None \<and> same_tables sv sv'
    \<or> r = Some (sv_next sv) \<and> map_of (sv_handshakes sv) addr = None
      \<and> handshake_admissible now addr sv \<and> cookie_valid C (sv_cookie_secret sv) addr wall data
      \<and> sv' = start_handshake C now data addr sv"
  using assms
  by (auto simp: handle_udp_datagram_def handle_hello_def split: option.splits if_splits)

section \<open>TCP connections\<close>

definition tcp_inv :: "system \<Rightarrow> bool" where
  "tcp_inv s \<longleftrightarrow>
     counts (sv_tcp_connections (sys_server s)) (sys_tcp s)
     \<and> int (length (sys_tcp s)) \<le> sv_max_connections (sys_server s)
     \<and> (\<forall>ip. int (count_list (sys_tcp s) ip) \<le> sv_max_connections_per_ip (sys_server s))"

lemma tcp_inv_same:
  "same_tables (sys_server s) sv \<Longrightarrow> tcp_inv s \<Longrightarrow> tcp_inv (s\<lparr>sys_server := sv, sys_udp := t\<rparr>)"
  by (simp add: tcp_inv_def same_tables_def)

lemma tcp_inv_admit:
  assumes "tcp_inv s" "admit_tcp ip (sys_server s) = Some sv"
  shows "tcp_inv (s\<lparr>sys_server := sv, sys_tcp := ip # sys_tcp s\<rparr>)"
proof -
  let ?d = "sv_tcp_connections (sys_server s)"
  have c: "counts ?d (sys_tcp s)" using assms(1) by (simp add: tcp_inv_def)
  have "total ?d < sv_max_connections (sys_server s)"
    and "count_of ?d ip < sv_max_connections_per_ip (sys_server s)"
    and sv: "sv = (sys_server s)\<lparr>sv_tcp_connections := counter_inc ip ?d\<rparr>"
    using assms(2) by (auto simp: admit_tcp_def split: if_splits)
  with counts_inc [OF c, of ip] counts_total [OF c] counts_count_of [OF c, of ip] assms(1)
  show ?thesis by (auto simp: tcp_inv_def sv)
qed

lemma tcp_inv_release:
  assumes "tcp_inv s" "ip \<in> set (sys_tcp s)" "same_tables (sys_server s) sv"
  shows "tcp_inv (s\<lparr>sys_server := release_tcp ip sv, sys_tcp := remove1 ip (sys_tcp s)\<rparr>)"
proof -
  have le: "int (count_list (sys_tcp s) x) \<le> sv_max_connections_per_ip (sys_server s)" for x
    using assms(1) by (simp add: tcp_inv_def)
  have "int (count_list (remove1 ip (sys_tcp s)) x) \<le> sv_max_connections_per_ip (sys_server s)" for x
    using le [of x] by (simp add: count_list_remove1)
  then show ?thesis
    using assms counts_dec [OF _ assms(2)]
    by (auto simp: tcp_inv_def release_tcp_def same_tables_def length_remove1)
qed

section \<open>UDP handshakes and sessions\<close>

text \<open>The addresses of the tasks that still count as handshakes in progress.\<close>

definition pending_ips :: "(nat, addr \<times> bool) dict \<Rightarrow> string list" where
  "pending_ips T = map (\<lambda>(_, a, _). fst a) (filter (\<lambda>(_, _, decremented). \<not> decremented) T)"

definition ip_count :: "string \<Rightarrow> (addr, nat) dict \<Rightarrow> nat" where
  "ip_count ip d = length (filter (\<lambda>a. fst a = ip) (map fst d))"

definition tasks_match ::
  "(addr, nat) dict \<Rightarrow> (addr, nat) dict \<Rightarrow> nat \<Rightarrow> (nat, addr \<times> bool) dict \<Rightarrow> bool" where
  "tasks_match hs ss nxt T \<longleftrightarrow>
     dict_ok T \<and> dict_ok hs \<and> dict_ok ss \<and> (\<forall>i\<ge>nxt. map_of T i = None)
     \<and> (\<forall>a i. map_of hs a = Some i \<longleftrightarrow> map_of T i = Some (a, False))
     \<and> (\<forall>a i. map_of ss a = Some i \<longrightarrow> map_of T i = Some (a, True))"

definition udp_inv :: "system \<Rightarrow> bool" where
  "udp_inv s \<longleftrightarrow> (let sv = sys_server s; T = sys_udp s in
     tasks_match (sv_handshakes sv) (sv_sessions sv) (sv_next sv) T
     \<and> counts (sv_in_progress sv) (pending_ips T)
     \<and> (\<forall>ip. count_list (pending_ips T) ip \<le> 3)
     \<and> int (length (sv_handshakes sv)) \<le> sv_max_connections sv * 2
     \<and> int (length (sv_sessions sv)) \<le> sv_max_connections sv
     \<and> (\<forall>ip. int (ip_count ip (sv_sessions sv)) \<le> sv_max_connections_per_ip sv))"

lemma pending_ips_mem: "map_of T i = Some (a, False) \<Longrightarrow> fst a \<in> set (pending_ips T)"
  by (induction T) (auto simp: pending_ips_def split: if_splits)

lemma pending_ips_update:
  "dict_ok T \<Longrightarrow> map_of T i = Some (a, False) \<Longrightarrow>
   count_list (pending_ips (AList.update i (a, True) T)) ip = count_list (remove1 (fst a) (pending_ips T)) ip"
proof (induction T)
  case (Cons p T)
  obtain j b d where p: "p = (j, b, d)" by (metis prod.exhaust)
  show ?case
  proof (cases "j = i")
    case False
    with Cons p have "0 < count_list (pending_ips T) (fst a)"
      using pending_ips_mem [of T i a] by (simp add: count_list_0_iff flip: neq0_conv)
    with False Cons p show ?thesis
      by (auto simp: pending_ips_def dict_ok_def count_list_remove1)
  qed (use Cons.prems p in \<open>simp add: pending_ips_def\<close>)
qed simp

lemma pending_ips_delete:
  "dict_ok T \<Longrightarrow> map_of T i = Some (a, d) \<Longrightarrow>
   count_list (pending_ips (AList.delete i T)) ip
     = (if d then count_list (pending_ips T) ip else count_list (remove1 (fst a) (pending_ips T)) ip)"
proof (induction T)
  case (Cons p T)
  obtain j b e where p: "p = (j, b, e)" by (metis prod.exhaust)
  show ?case
  proof (cases "j = i")
    case True
    then have "AList.delete i (p # T) = T" using Cons.prems(1) p by (auto simp: dict_ok_def image_iff)
    with True Cons.prems p show ?thesis by (auto simp: pending_ips_def)
  next
    case False
    then have "\<not> d \<Longrightarrow> 0 < count_list (pending_ips T) (fst a)"
      using pending_ips_mem [of T i a] Cons.prems p by (simp add: count_list_0_iff flip: neq0_conv)
    with False Cons p show ?thesis
      by (auto simp: pending_ips_def dict_ok_def count_list_remove1)
  qed
qed simp

lemma ip_count_update:
  "ip_count ip (AList.update a i d)
   = (if map_of d a = None \<and> fst a = ip then ip_count ip d + 1 else ip_count ip d)"
  by (induction d) (auto simp: ip_count_def)

lemma ip_count_delete: "ip_count ip (AList.delete a d) \<le> ip_count ip d"
  by (induction d) (auto simp: ip_count_def AList.delete_eq)

lemma dict_ok_Cons: "dict_ok ((k, v) # d) \<longleftrightarrow> map_of d k = None \<and> dict_ok d"
  by (auto simp: dict_ok_def map_of_eq_None_iff)

lemma tasks_matchD:
  assumes "tasks_match hs ss nxt T"
  shows "dict_ok T" "dict_ok hs" "dict_ok ss" "nxt \<le> i \<Longrightarrow> map_of T i = None"
    "map_of hs a = Some i \<longleftrightarrow> map_of T i = Some (a, False)"
    "map_of ss a = Some i \<Longrightarrow> map_of T i = Some (a, True)"
  using assms unfolding tasks_match_def by blast+

lemma tasks_matchI:
  assumes "dict_ok T" "dict_ok hs" "dict_ok ss" "\<And>i. nxt \<le> i \<Longrightarrow> map_of T i = None"
    "\<And>a i. map_of hs a = Some i \<longleftrightarrow> map_of T i = Some (a, False)"
    "\<And>a i. map_of ss a = Some i \<Longrightarrow> map_of T i = Some (a, True)"
  shows "tasks_match hs ss nxt T"
  using assms unfolding tasks_match_def by blast

lemma tasks_match_none: "tasks_match hs ss nxt [] \<Longrightarrow> hs = [] \<and> ss = []"
  unfolding tasks_match_def
  by (metis dict_empty map_of.simps(1) option.distinct(1) option.exhaust)

lemma tasks_match_start:
  assumes m: "tasks_match hs ss nxt T" and new: "map_of hs a = None"
  shows "tasks_match (AList.update a nxt hs) ss (Suc nxt) ((nxt, a, False) # T)"
proof (rule tasks_matchI)
  have T: "map_of T nxt = None" by (rule tasks_matchD(4) [OF m]) simp
  show "dict_ok ((nxt, a, False) # T)" using tasks_matchD(1) [OF m] T by (simp add: dict_ok_Cons)
  show "Suc nxt \<le> i \<Longrightarrow> map_of ((nxt, a, False) # T) i = None" for i
    using tasks_matchD(4) [OF m, of i] by simp
  show "map_of (AList.update a nxt hs) b = Some i \<longleftrightarrow> map_of ((nxt, a, False) # T) i = Some (b, False)"
    for b i
    using tasks_matchD(5) [OF m, of b i] T new by (auto simp: map_of_update)
  show "map_of ss b = Some i \<Longrightarrow> map_of ((nxt, a, False) # T) i = Some (b, True)" for b i
    using tasks_matchD(6) [OF m, of b i] T by auto
qed (simp_all add: tasks_matchD(2,3) [OF m])

lemma tasks_match_register:
  assumes m: "tasks_match hs ss nxt T" and i: "map_of T i = Some (a, False)"
  shows "tasks_match (AList.delete a hs) (AList.update a i ss) nxt (AList.update i (a, True) T)"
proof (rule tasks_matchI)
  show "nxt \<le> j \<Longrightarrow> map_of (AList.update i (a, True) T) j = None" for j
    using tasks_matchD(4) [OF m, of j] i by (auto simp: map_of_update)
  have hs: "map_of hs a = Some i" using tasks_matchD(5) [OF m] i by simp
  show "map_of (AList.delete a hs) b = Some j \<longleftrightarrow> map_of (AList.update i (a, True) T) j = Some (b, False)"
    for b j
    using tasks_matchD(5) [OF m, of b j] i hs by (auto simp: map_of_update map_of_delete_iff)
  show "map_of (AList.update a i ss) b = Some j \<Longrightarrow> map_of (AList.update i (a, True) T) j = Some (b, True)"
    for b j
    using tasks_matchD(6) [OF m, of b j] i by (auto simp: map_of_update split: if_splits)
qed (simp_all add: tasks_matchD(1-3) [OF m])

lemma tasks_match_end:
  assumes m: "tasks_match hs ss nxt T" and i: "map_of T i = Some (a, d)"
    and hs': "hs' = (if map_of hs a = Some i then AList.delete a hs else hs)"
    and ss': "ss' = (if map_of ss a = Some i then AList.delete a ss else ss)"
  shows "tasks_match hs' ss' nxt (AList.delete i T)"
proof (rule tasks_matchI)
  show "nxt \<le> j \<Longrightarrow> map_of (AList.delete i T) j = None" for j
    using tasks_matchD(4) [OF m, of j] by (simp add: map_of_delete_iff)
  show "map_of hs' b = Some j \<longleftrightarrow> map_of (AList.delete i T) j = Some (b, False)" for b j
    using tasks_matchD(5) [OF m, of b j] tasks_matchD(5) [OF m, of a i] i
    by (auto simp: hs' map_of_delete_iff)
  show "map_of ss' b = Some j \<Longrightarrow> map_of (AList.delete i T) j = Some (b, True)" for b j
    using tasks_matchD(6) [OF m, of b j] i
    by (cases "j = i") (auto simp: ss' map_of_delete_iff split: if_splits)
qed (simp_all add: tasks_matchD(1-3) [OF m] hs' ss')

lemma udp_inv_same:
  "same_tables (sys_server s) sv \<Longrightarrow> udp_inv s \<Longrightarrow> udp_inv (s\<lparr>sys_server := sv, sys_tcp := t\<rparr>)"
  by (simp add: udp_inv_def same_tables_def Let_def)

lemma udp_inv_start:
  assumes inv: "udp_inv s" and new: "map_of (sv_handshakes (sys_server s)) addr = None"
    and ok: "handshake_admissible now addr (sys_server s)"
  shows "udp_inv (s\<lparr>sys_server := start_handshake C now data addr (sys_server s),
      sys_udp := (sv_next (sys_server s), addr, False) # sys_udp s\<rparr>)"
proof -
  let ?sv = "sys_server s"
  have c: "counts (sv_in_progress ?sv) (pending_ips (sys_udp s))" using inv by (simp add: udp_inv_def Let_def)
  have p: "pending_ips ((sv_next ?sv, addr, False) # sys_udp s) = fst addr # pending_ips (sys_udp s)"
    by (simp add: pending_ips_def)
  have "count_list (pending_ips (sys_udp s)) (fst addr) < 3"
    using ok counts_count_of [OF c, of "fst addr"] by (simp add: handshake_admissible_def)
  moreover have "tasks_match (AList.update addr (sv_next ?sv) (sv_handshakes ?sv)) (sv_sessions ?sv)
      (Suc (sv_next ?sv)) ((sv_next ?sv, addr, False) # sys_udp s)"
    using inv by (intro tasks_match_start new) (simp add: udp_inv_def Let_def)
  ultimately show ?thesis
    using inv ok new counts_inc [OF c, of "fst addr"]
    by (auto simp: udp_inv_def Let_def start_handshake_def p length_update handshake_admissible_def)
qed

lemma register_udp_True:
  assumes "register_udp addr i sv = (sv', True)"
  shows "same_tables (sv\<lparr>sv_in_progress := counter_dec (fst addr) (sv_in_progress sv),
      sv_sessions := AList.update addr i (sv_sessions sv),
      sv_handshakes := AList.delete addr (sv_handshakes sv)\<rparr>) sv'
    \<and> int (length (sv_sessions sv)) < sv_max_connections sv
    \<and> int (ip_count (fst addr) (sv_sessions sv)) < sv_max_connections_per_ip sv"
  using assms
  by (auto simp: register_udp_def Let_def sessions_of_ip_def ip_count_def same_tables_def
      close_stream_def split: if_splits option.splits)

lemma register_udp_False:
  assumes "register_udp addr i sv = (sv', False)"
  shows "same_tables (sv\<lparr>sv_in_progress := counter_dec (fst addr) (sv_in_progress sv)\<rparr>) sv'"
  using assms
  by (auto simp: register_udp_def Let_def split: if_splits option.splits)

lemma release_udp_tables:
  "same_tables (sv\<lparr>sv_in_progress := (if decremented then sv_in_progress sv
         else counter_dec (fst addr) (sv_in_progress sv)),
      sv_handshakes := (if map_of (sv_handshakes sv) addr = Some i
         then AList.delete addr (sv_handshakes sv) else sv_handshakes sv),
      sv_sessions := (if map_of (sv_sessions sv) addr = Some i
         then AList.delete addr (sv_sessions sv) else sv_sessions sv)\<rparr>)
     (release_udp addr i decremented sv)"
  by (auto simp: release_udp_def Let_def same_tables_def close_stream_def split: option.split)

lemma udp_inv_register:
  assumes inv: "udp_inv s" and i: "map_of (sys_udp s) i = Some (addr, False)"
    and reg: "register_udp addr i (sys_server s) = (sv, True)"
  shows "udp_inv (s\<lparr>sys_server := sv, sys_udp := AList.update i (addr, True) (sys_udp s)\<rparr>)"
proof -
  let ?sv = "sys_server s" and ?T = "sys_udp s"
  note r = register_udp_True [OF reg]
  have m: "tasks_match (sv_handshakes ?sv) (sv_sessions ?sv) (sv_next ?sv) ?T"
    and c: "counts (sv_in_progress ?sv) (pending_ips ?T)"
    and le: "count_list (pending_ips ?T) ip \<le> 3" for ip
    using inv by (simp_all add: udp_inv_def Let_def)
  have T: "dict_ok ?T" using m by (rule tasks_matchD)
  note p = pending_ips_update [OF T i]
  have "counts (counter_dec (fst addr) (sv_in_progress ?sv)) (pending_ips (AList.update i (addr, True) ?T))"
    by (rule counts_cong [OF counts_dec [OF c pending_ips_mem [OF i]] p])
  moreover have "count_list (pending_ips (AList.update i (addr, True) ?T)) ip \<le> 3" for ip
    using le [of ip] by (simp add: p count_list_remove1)
  moreover note tasks_match_register [OF m i]
  moreover have "int (length (AList.delete addr (sv_handshakes ?sv))) \<le> sv_max_connections ?sv * 2"
    using inv length_delete_le [of addr "sv_handshakes ?sv"] by (simp add: udp_inv_def Let_def)
  ultimately show ?thesis
    using r inv by (auto simp: udp_inv_def Let_def same_tables_def length_update ip_count_update)
qed

lemma udp_inv_release:
  assumes inv: "udp_inv s" and i: "map_of (sys_udp s) i = Some (addr, d)"
    and prog: "same_tables ((sys_server s)\<lparr>sv_in_progress := (if d = d' then sv_in_progress (sys_server s)
        else counter_dec (fst addr) (sv_in_progress (sys_server s)))\<rparr>) sv" and dd: "d \<longrightarrow> d'"
  shows "udp_inv (s\<lparr>sys_server := release_udp addr i d' sv, sys_udp := AList.delete i (sys_udp s)\<rparr>)"
proof -
  let ?sv = "sys_server s" and ?T = "sys_udp s" and ?sv' = "release_udp addr i d' sv"
  have m: "tasks_match (sv_handshakes ?sv) (sv_sessions ?sv) (sv_next ?sv) ?T"
    and c: "counts (sv_in_progress ?sv) (pending_ips ?T)"
    and le: "count_list (pending_ips ?T) ip \<le> 3" for ip
    using inv by (simp_all add: udp_inv_def Let_def)
  have T: "dict_ok ?T" using m by (rule tasks_matchD)
  note p = pending_ips_delete [OF T i]
  have f: "sv_in_progress ?sv' = (if d then sv_in_progress ?sv else counter_dec (fst addr) (sv_in_progress ?sv))"
    "sv_handshakes ?sv' = (if map_of (sv_handshakes ?sv) addr = Some i
         then AList.delete addr (sv_handshakes ?sv) else sv_handshakes ?sv)"
    "sv_sessions ?sv' = (if map_of (sv_sessions ?sv) addr = Some i
         then AList.delete addr (sv_sessions ?sv) else sv_sessions ?sv)"
    "sv_next ?sv' = sv_next ?sv" "sv_max_connections ?sv' = sv_max_connections ?sv"
    "sv_max_connections_per_ip ?sv' = sv_max_connections_per_ip ?sv"
    using release_udp_tables [of sv addr i d'] prog dd by (auto simp: same_tables_def)
  have "counts (sv_in_progress ?sv') (pending_ips (AList.delete i ?T))"
  proof (cases d)
    case True
    then show ?thesis unfolding f by (simp add: counts_cong [OF c] p)
  next
    case False
    with i have "map_of ?T i = Some (addr, False)" by simp
    from counts_cong [OF counts_dec [OF c pending_ips_mem [OF this]]] p False
    show ?thesis unfolding f by simp
  qed
  moreover have "count_list (pending_ips (AList.delete i ?T)) ip \<le> 3" for ip
    using le [of ip] by (auto simp: p count_list_remove1)
  moreover have "tasks_match (sv_handshakes ?sv') (sv_sessions ?sv') (sv_next ?sv') (AList.delete i ?T)"
    unfolding f(4) by (rule tasks_match_end [OF m i f(2,3)])
  moreover have "int (length (sv_handshakes ?sv')) \<le> sv_max_connections ?sv * 2"
    "int (length (sv_sessions ?sv')) \<le> sv_max_connections ?sv"
    using inv length_delete_le [of addr "sv_handshakes ?sv"] length_delete_le [of addr "sv_sessions ?sv"]
    by (auto simp: f udp_inv_def Let_def)
  moreover have "int (ip_count ip (sv_sessions ?sv')) \<le> sv_max_connections_per_ip ?sv" for ip
  proof -
    have "ip_count ip (sv_sessions ?sv') \<le> ip_count ip (sv_sessions ?sv)"
      using ip_count_delete by (simp add: f)
    moreover have "int (ip_count ip (sv_sessions ?sv)) \<le> sv_max_connections_per_ip ?sv"
      using inv by (simp add: udp_inv_def Let_def)
    ultimately show ?thesis by linarith
  qed
  ultimately show ?thesis by (simp add: udp_inv_def Let_def f(5,6))
qed

section \<open>Every reachable state\<close>

definition server_inv :: "system \<Rightarrow> bool" where
  "server_inv s \<longleftrightarrow> tcp_inv s \<and> udp_inv s"

lemma tcp_inv_udp: "tcp_inv s \<Longrightarrow> sv_tcp_connections sv = sv_tcp_connections (sys_server s) \<Longrightarrow>
   sv_max_connections sv = sv_max_connections (sys_server s) \<Longrightarrow>
   sv_max_connections_per_ip sv = sv_max_connections_per_ip (sys_server s) \<Longrightarrow>
   tcp_inv (s\<lparr>sys_server := sv, sys_udp := T\<rparr>)"
  by (simp add: tcp_inv_def)

lemma udp_inv_tcp: "udp_inv s \<Longrightarrow> same_tables (sv\<lparr>sv_tcp_connections := sv_tcp_connections (sys_server s)\<rparr>) (sys_server s) \<Longrightarrow>
   udp_inv (s\<lparr>sys_server := sv, sys_tcp := ips\<rparr>)"
  by (simp add: udp_inv_def Let_def same_tables_def)

lemma release_udp_tcp: "sv_tcp_connections (release_udp addr i d sv) = sv_tcp_connections sv"
  "sv_max_connections (release_udp addr i d sv) = sv_max_connections sv"
  "sv_max_connections_per_ip (release_udp addr i d sv) = sv_max_connections_per_ip sv"
  using release_udp_tables [of sv addr i d] by (simp_all add: same_tables_def)

lemma server_inv_same: "server_inv s \<Longrightarrow> same_tables (sys_server s) sv \<Longrightarrow> server_inv (s\<lparr>sys_server := sv\<rparr>)"
  using tcp_inv_same [of s sv "sys_udp s"] udp_inv_same [of s sv "sys_tcp s"]
  by (simp add: server_inv_def)

lemma server_inv_step:
  assumes "server_step C s s'" and "server_inv s"
  shows "server_inv s'"
  using assms
proof (induction rule: server_step.induct)
  case (datagram wall now data addr s sv)
  then have "same_tables (sys_server s) sv" using handle_udp_datagram_cases by fastforce
  with datagram show ?case by (simp add: server_inv_same)
next
  case (udp_task wall now data addr s sv i)
  from handle_udp_datagram_cases [OF udp_task(1)]
  have h: "i = sv_next (sys_server s)" "map_of (sv_handshakes (sys_server s)) addr = None"
    "handshake_admissible now addr (sys_server s)" "sv = start_handshake C now data addr (sys_server s)"
    by auto
  then have "udp_inv (s\<lparr>sys_server := sv, sys_udp := (i, addr, False) # sys_udp s\<rparr>)"
    using udp_inv_start [of s addr now C data] udp_task(2) by (simp add: server_inv_def)
  moreover have "tcp_inv (s\<lparr>sys_server := sv, sys_udp := (i, addr, False) # sys_udp s\<rparr>)"
    using udp_task(2) by (intro tcp_inv_udp) (simp_all add: server_inv_def h(4) start_handshake_def Let_def)
  ultimately show ?case by (simp add: server_inv_def)
next
  case (udp_registered s i addr sv)
  note r = register_udp_True [OF udp_registered(2)]
  have "tcp_inv (s\<lparr>sys_server := sv, sys_udp := AList.update i (addr, True) (sys_udp s)\<rparr>)"
    using udp_registered(3) r by (intro tcp_inv_udp) (simp_all add: server_inv_def same_tables_def)
  with udp_registered show ?case by (simp add: server_inv_def udp_inv_register)
next
  case (udp_refused s i addr sv)
  note r = register_udp_False [OF udp_refused(2)]
  have "tcp_inv (s\<lparr>sys_server := release_udp addr i True sv, sys_udp := AList.delete i (sys_udp s)\<rparr>)"
    using udp_refused(3) r
    by (intro tcp_inv_udp) (simp_all add: server_inv_def same_tables_def release_udp_tcp)
  moreover have "udp_inv (s\<lparr>sys_server := release_udp addr i True sv, sys_udp := AList.delete i (sys_udp s)\<rparr>)"
    using udp_refused r by (intro udp_inv_release [where d = False]) (simp_all add: server_inv_def)
  ultimately show ?case by (simp add: server_inv_def)
next
  case (udp_ended s i addr d now e)
  let ?sv = "after_error (fst addr) now e (sys_server s)"
  have st: "same_tables (sys_server s) ?sv" by simp
  have "tcp_inv (s\<lparr>sys_server := release_udp addr i d ?sv, sys_udp := AList.delete i (sys_udp s)\<rparr>)"
    using udp_ended(2) st
    by (intro tcp_inv_udp) (simp_all add: server_inv_def same_tables_def release_udp_tcp)
  moreover have "udp_inv (s\<lparr>sys_server := release_udp addr i d ?sv, sys_udp := AList.delete i (sys_udp s)\<rparr>)"
    using udp_ended by (intro udp_inv_release [where d = d]) (simp_all add: server_inv_def)
  ultimately show ?case by (simp add: server_inv_def)
next
  case (tcp_accepted ip s sv)
  have "udp_inv (s\<lparr>sys_server := sv, sys_tcp := ip # sys_tcp s\<rparr>)"
    using tcp_accepted by (intro udp_inv_tcp) (auto simp: server_inv_def admit_tcp_def same_tables_def split: if_splits)
  with tcp_accepted show ?case by (simp add: server_inv_def tcp_inv_admit)
next
  case (tcp_ended ip s now e)
  let ?sv = "after_error ip now e (sys_server s)"
  have "same_tables (sys_server s) ?sv" by simp
  then have "udp_inv (s\<lparr>sys_server := release_tcp ip ?sv, sys_tcp := remove1 ip (sys_tcp s)\<rparr>)"
    using tcp_ended by (intro udp_inv_tcp) (auto simp: server_inv_def release_tcp_def same_tables_def)
  with tcp_ended show ?case by (simp add: server_inv_def tcp_inv_release)
next
  case (handshake_counted d k s now)
  then show ?case by (simp add: server_inv_same)
next
  case (stream_used s i t u)
  then show ?case by (simp add: server_inv_same)
qed

lemma server_inv_reachable: "server_reachable C s0 s \<Longrightarrow> server_inv s0 \<Longrightarrow> server_inv s"
  by (induction rule: server_reachable.induct) (auto intro: server_inv_step)

lemma server_inv_started:
  "USMPServer psk max_connections per_ip secret failed = Inr sv \<Longrightarrow> 0 \<le> max_connections \<Longrightarrow> 0 \<le> per_ip \<Longrightarrow>
   server_inv (started sv)"
  by (auto simp: USMPServer_def bindE_Inr server_inv_def tcp_inv_def udp_inv_def started_def Let_def
      pending_ips_def ip_count_def tasks_match_def dict_ok_def)

lemma step_keeps_limits:
  "server_step C s s' \<Longrightarrow> sv_max_connections (sys_server s') = sv_max_connections (sys_server s)
     \<and> sv_max_connections_per_ip (sys_server s') = sv_max_connections_per_ip (sys_server s)"
proof (induction rule: server_step.induct)
  case (datagram wall now data addr s sv)
  from handle_udp_datagram_cases [OF this] show ?case by (auto simp: same_tables_def)
next
  case (udp_task wall now data addr s sv i)
  from handle_udp_datagram_cases [OF this] show ?case by (auto simp: start_handshake_def Let_def)
next
  case (udp_registered s i addr sv)
  from register_udp_True [OF this(2)] show ?case by (simp add: same_tables_def)
next
  case (udp_refused s i addr sv)
  from register_udp_False [OF this(2)] show ?case by (simp add: same_tables_def release_udp_tcp)
next
  case (udp_ended s i addr d now e)
  have "same_tables (sys_server s) (after_error (fst addr) now e (sys_server s))" by simp
  then show ?case by (simp add: release_udp_tcp same_tables_def)
next
  case (tcp_accepted ip s sv)
  then show ?case by (auto simp: admit_tcp_def split: if_splits)
next
  case (tcp_ended ip s now e)
  have "same_tables (sys_server s) (after_error ip now e (sys_server s))" by simp
  then show ?case by (simp add: release_tcp_def same_tables_def)
qed (simp_all add: store_stream_def)

lemma reachable_keeps_limits:
  "server_reachable C s0 s \<Longrightarrow> sv_max_connections (sys_server s) = sv_max_connections (sys_server s0)
     \<and> sv_max_connections_per_ip (sys_server s) = sv_max_connections_per_ip (sys_server s0)"
  by (induction rule: server_reachable.induct) (auto dest: step_keeps_limits)

text \<open>
  C33: the server's limits hold under any interleaving of datagrams, TCP connections, finished
  and failed handshakes and disconnections: at most \<open>max_connections\<close> TCP connections and
  as many UDP sessions, at most \<open>max_connections_per_ip\<close> of each per address, at most
  \<open>2 * max_connections\<close> UDP handshakes, and at most three of them per address; and the
  counters the code keeps are exactly the numbers of running connections.
\<close>

theorem server_limits:
  assumes "USMPServer psk max_connections per_ip secret failed = Inr sv"
    and "0 \<le> max_connections" and "0 \<le> per_ip" and "server_reachable C (started sv) s"
  shows "total (sv_tcp_connections (sys_server s)) = int (length (sys_tcp s))
    \<and> int (length (sys_tcp s)) \<le> max_connections
    \<and> int (count_list (sys_tcp s) ip) \<le> per_ip
    \<and> int (length (sv_sessions (sys_server s))) \<le> max_connections
    \<and> int (ip_count ip (sv_sessions (sys_server s))) \<le> per_ip
    \<and> int (length (sv_handshakes (sys_server s))) \<le> 2 * max_connections
    \<and> count_of (sv_in_progress (sys_server s)) ip = int (count_list (pending_ips (sys_udp s)) ip)
    \<and> count_list (pending_ips (sys_udp s)) ip \<le> 3"
proof -
  have inv: "tcp_inv s" "udp_inv s"
    using server_inv_reachable [OF assms(4) server_inv_started [OF assms(1-3)]]
    by (simp_all add: server_inv_def)
  have lim: "sv_max_connections (sys_server s) = max_connections"
    "sv_max_connections_per_ip (sys_server s) = per_ip"
    using reachable_keeps_limits [OF assms(4)] assms(1)
    by (auto simp: USMPServer_def bindE_Inr started_def)
  have c: "counts (sv_tcp_connections (sys_server s)) (sys_tcp s)"
    "counts (sv_in_progress (sys_server s)) (pending_ips (sys_udp s))"
    using inv by (simp_all add: tcp_inv_def udp_inv_def Let_def)
  show ?thesis
    using inv lim counts_total [OF c(1)] counts_count_of [OF c(2), of ip]
    by (simp add: tcp_inv_def udp_inv_def Let_def mult.commute)
qed

definition demo_server :: server where
  "demo_server = \<lparr>sv_max_connections = 2, sv_max_connections_per_ip = 1, sv_cookie_secret = [1],
     sv_failed = [], sv_cookie_limiter = [], sv_tcp_connections = [], sv_in_progress = [],
     sv_handshakes = [], sv_sessions = [], sv_streams = [], sv_next = 0, sv_sent = []\<rparr>"

lemma demo_server_init: "USMPServer (Psk_bytes (replicate 16 9)) 2 1 [1] [] = Inr demo_server"
  by (simp add: USMPServer_def check_psk_def demo_server_def)

lemma demo_accept_step:
  "server_step C (started demo_server)
     ((started demo_server)\<lparr>sys_server := demo_server\<lparr>sv_tcp_connections := [(''h'', 1)]\<rparr>, sys_tcp := [''h'']\<rparr>)"
proof -
  have "server_step C (started demo_server)
      ((started demo_server)\<lparr>sys_server := demo_server\<lparr>sv_tcp_connections := [(''h'', 1)]\<rparr>,
         sys_tcp := ''h'' # sys_tcp (started demo_server)\<rparr>)"
    by (rule server_step.tcp_accepted)
      (simp add: started_def demo_server_def admit_tcp_def total_def count_of_def counter_inc_def)
  then show ?thesis by (simp add: started_def)
qed

lemma demo_accept:
  "server_reachable C (started demo_server)
     ((started demo_server)\<lparr>sys_server := demo_server\<lparr>sv_tcp_connections := [(''h'', 1)]\<rparr>, sys_tcp := [''h'']\<rparr>)"
  using server_reachable.step [OF server_reachable.start demo_accept_step] .

theorem server_limits_witness:
  "int (length (sys_tcp ((started demo_server)\<lparr>sys_server := demo_server\<lparr>sv_tcp_connections := [(''h'', 1)]\<rparr>,
      sys_tcp := [''h'']\<rparr>))) \<le> 2"
  using server_limits [OF demo_server_init _ _ demo_accept [of demo_crypto]] by simp

text \<open>
  Nothing leaks: in every reachable state in which no connection task runs, the tables of
  connections, handshakes in progress, handshakes and sessions are all empty; and in any
  reachable state each UDP session in the table belongs to a running task of its address.
\<close>

theorem server_no_leak:
  assumes "USMPServer psk max_connections per_ip secret failed = Inr sv"
    and "0 \<le> max_connections" and "0 \<le> per_ip" and "server_reachable C (started sv) s"
  shows "(sys_tcp s = [] \<longrightarrow> sv_tcp_connections (sys_server s) = [])
    \<and> (sys_udp s = [] \<longrightarrow> sv_in_progress (sys_server s) = [] \<and> sv_handshakes (sys_server s) = []
         \<and> sv_sessions (sys_server s) = [])
    \<and> (map_of (sv_sessions (sys_server s)) addr = Some i \<longrightarrow> map_of (sys_udp s) i = Some (addr, True))"
proof -
  have inv: "tcp_inv s" "udp_inv s"
    using server_inv_reachable [OF assms(4) server_inv_started [OF assms(1-3)]]
    by (simp_all add: server_inv_def)
  have m: "tasks_match (sv_handshakes (sys_server s)) (sv_sessions (sys_server s))
      (sv_next (sys_server s)) (sys_udp s)"
    and c: "counts (sv_in_progress (sys_server s)) (pending_ips (sys_udp s))"
    using inv(2) by (simp_all add: udp_inv_def Let_def)
  show ?thesis
  proof (intro conjI impI)
    assume "sys_tcp s = []"
    with inv(1) show "sv_tcp_connections (sys_server s) = []" by (auto simp: tcp_inv_def)
  next
    assume e: "sys_udp s = []"
    with c show "sv_in_progress (sys_server s) = []" by (auto simp: pending_ips_def)
    show "sv_handshakes (sys_server s) = []" "sv_sessions (sys_server s) = []"
      using tasks_match_none [OF m [unfolded e]] by simp_all
  next
    assume "map_of (sv_sessions (sys_server s)) addr = Some i"
    then show "map_of (sys_udp s) i = Some (addr, True)" by (rule tasks_matchD(6) [OF m])
  qed
qed

theorem server_no_leak_witness:
  "sv_sessions (sys_server ((started demo_server)\<lparr>sys_server := demo_server\<lparr>sv_tcp_connections := [(''h'', 1)]\<rparr>,
      sys_tcp := [''h'']\<rparr>)) = []"
  using server_no_leak [OF demo_server_init _ _ demo_accept [of demo_crypto]] by (simp add: started_def)

section \<open>Unauthenticated datagrams\<close>

lemma colon_split:
  assumes "xs @ '':'' @ ys = xs' @ '':'' @ ys'" and "CHR '':'' \<notin> set ys" and "CHR '':'' \<notin> set ys'"
  shows "xs = xs' \<and> ys = ys'"
proof -
  have "rev ys @ CHR '':'' # rev xs = rev ys' @ CHR '':'' # rev xs'"
    using arg_cong [OF assms(1), of rev] by simp
  moreover have "takeWhile (\<lambda>c. c \<noteq> CHR '':'') (rev zs @ CHR '':'' # us) = rev zs"
    if "CHR '':'' \<notin> set zs" for zs us
  proof -
    have "takeWhile (\<lambda>c. c \<noteq> CHR '':'') (rev zs @ CHR '':'' # us)
        = rev zs @ takeWhile (\<lambda>c. c \<noteq> CHR '':'') (CHR '':'' # us)"
      by (rule takeWhile_append2) (use that in auto)
    then show ?thesis by simp
  qed
  ultimately have "rev ys = rev ys'" using assms(2,3) by metis
  with assms(1) show ?thesis by simp
qed

text \<open>Different addresses or time buckets have different messages under the cookie's HMAC.\<close>

lemma cookie_message_inj:
  assumes "cookie_message a t = cookie_message a' t'" "0 \<le> snd a" "0 \<le> snd a'" "0 \<le> t" "0 \<le> t'"
  shows "a = a' \<and> t = t'"
proof -
  have "(fst a @ '':'' @ str_int (snd a)) @ '':'' @ str_int t
      = (fst a' @ '':'' @ str_int (snd a')) @ '':'' @ str_int t'"
    using assms(1) by (simp add: cookie_message_def)
  from colon_split [OF this] assms str_int_no_colon
  have 1: "fst a @ '':'' @ str_int (snd a) = fst a' @ '':'' @ str_int (snd a')" and t: "str_int t = str_int t'"
    by auto
  from colon_split [OF 1] assms str_int_no_colon have "fst a = fst a'" "str_int (snd a) = str_int (snd a')"
    by auto
  with t assms str_int_inj show ?thesis by (metis prod.collapse)
qed

lemma issue_cookie_sent:
  "\<exists>out. issue_cookie C wall now data addr sv
      = sv\<lparr>sv_cookie_limiter := sv_cookie_limiter (issue_cookie C wall now data addr sv),
           sv_sent := sv_sent sv @ out\<rparr>
    \<and> (\<forall>(a, d)\<in>set out. a = addr) \<and> sum_list (map (length \<circ> snd) out) \<le> 35"
proof (cases "fst (allow_udp_cookie (fst addr) now (sv_cookie_limiter sv))")
  case False
  then show ?thesis
    by (intro exI [of _ "[]"]) (auto simp: issue_cookie_def split: prod.splits)
next
  case True
  let ?c = "cookie_for C (sv_cookie_secret sv) addr (time_bucket wall)"
  let ?u = "utack_header (u8_at data 3) (u32_at data 4)"
  have "length ?c \<le> 16" by (simp add: cookie_for_def)
  then have "sendable ?c 0" by (simp add: sendable_def)
  then have enc: "encode_frame HELLO_RETRY ?c 0 = Inr (frame_bytes HELLO_RETRY ?c 0)"
    by (rule encode_frame_sendable)
  show ?thesis
    using True enc \<open>length ?c \<le> 16\<close>
    by (intro exI [of _ "[(addr, ?u), (addr, frame_bytes HELLO_RETRY ?c 0)]"])
      (auto simp: issue_cookie_def Let_def send_datagram_def utack_header_def split: prod.splits)
qed

text \<open>
  C34: a peer that has not proved its address gets no state and no amplification: a datagram
  from an address without a handshake or session, other than a 66-byte HELLO with a valid
  cookie, creates no stream and no task and changes nothing but the cookie limiter, and what
  is sent back goes to that address and is at most as long as the datagram.
\<close>

theorem no_state_without_cookie:
  assumes "map_of (sv_handshakes sv) addr = None" and "map_of (sv_sessions sv) addr = None"
    and "length data \<noteq> 66 \<or> \<not> cookie_valid C (sv_cookie_secret sv) addr wall data"
    and "handle_udp_datagram C wall now data addr sv = (sv', r)"
  shows "r = None \<and> (\<exists>out. sv' = sv\<lparr>sv_cookie_limiter := sv_cookie_limiter sv', sv_sent := sv_sent sv @ out\<rparr>
    \<and> (\<forall>(a, d)\<in>set out. a = addr) \<and> sum_list (map (length \<circ> snd) out) \<le> length data)"
proof (cases "length data = 50 \<and> datagram_type data = Some 1")
  case True
  with assms have sv': "sv' = issue_cookie C wall now data addr sv" "r = None"
    by (auto simp: handle_udp_datagram_def handle_hello_def)
  from issue_cookie_sent [of C wall now data addr sv] obtain out where
    "sv' = sv\<lparr>sv_cookie_limiter := sv_cookie_limiter sv', sv_sent := sv_sent sv @ out\<rparr>"
    "\<forall>(a, d)\<in>set out. a = addr" "sum_list (map (length \<circ> snd) out) \<le> 35"
    unfolding sv'(1) by blast
  with True sv'(2) show ?thesis by (intro conjI exI [of _ out]) simp_all
next
  case False
  with assms have "sv' = sv \<and> r = None"
    by (auto simp: handle_udp_datagram_def handle_hello_def route_data_def split: option.splits if_splits)
  then show ?thesis by (intro conjI exI [of _ "[]"]) simp_all
qed

theorem no_state_without_cookie_witness:
  "snd (handle_udp_datagram demo_crypto 0 0 (replicate 12 1) (''h'', 1) demo_server) = None"
proof -
  obtain sv' r where h: "handle_udp_datagram demo_crypto 0 0 (replicate 12 1) (''h'', 1) demo_server = (sv', r)"
    by fastforce
  from no_state_without_cookie [OF _ _ _ h] h show ?thesis by (simp add: demo_server_def)
qed

text \<open>
  Cookies are bound to an address and a time: the server starts a handshake only on the
  truncated HMAC, under its secret, of the message for exactly this address and for the
  current half minute or the one before, and no other address or half minute has the same
  message, whatever the text of the address.
\<close>

theorem cookie_binds_address:
  assumes "handle_udp_datagram C wall now data addr sv = (sv', Some i)"
    and "0 \<le> snd addr" and "30 \<le> wall"
  shows "\<exists>t. t \<in> {time_bucket wall, time_bucket wall - 1}
    \<and> slice 50 66 data = take 16 (hmac_sha256 C (sv_cookie_secret sv) (ascii (cookie_message addr t)))
    \<and> (\<forall>addr' t'. 0 \<le> snd addr' \<and> 0 \<le> t' \<and> cookie_message addr' t' = cookie_message addr t
         \<longrightarrow> addr' = addr \<and> t' = t)"
proof -
  have "cookie_valid C (sv_cookie_secret sv) addr wall data"
    using handle_udp_datagram_cases [OF assms(1)] by simp
  then obtain t where t: "t \<in> {time_bucket wall, time_bucket wall - 1}"
    "slice 50 66 data = cookie_for C (sv_cookie_secret sv) addr t"
    by (auto simp: cookie_valid_def)
  have "1 \<le> time_bucket wall" using assms(3) by (simp add: time_bucket_def le_floor_iff)
  with t have "0 \<le> t" by auto
  with t cookie_message_inj [OF _ _ assms(2)] show ?thesis
    by (intro exI [of _ t]) (auto simp: cookie_for_def)
qed

lemma hello_datagram:
  assumes "sendable p s"
  shows "datagram_type (frame_bytes HELLO p s) = Some 1"
proof -
  note f = frame_bytes_fields [OF assms, of "frame_bytes HELLO p s" HELLO "[]", simplified]
  have "\<not> is_utack (frame_bytes HELLO p s)"
    by (simp add: is_utack_def frame_bytes_def frame_body_def numeral_2_eq_2)
  with f show ?thesis by (simp add: datagram_type_def)
qed

definition demo_cookie :: bytes where
  "demo_cookie = cookie_for demo_crypto [1] (''h'', 1) 2"

lemma demo_cookie_length [simp]: "length demo_cookie = 16"
  by (simp add: demo_cookie_def cookie_for_def demo_crypto_def)

lemma demo_hello:
  "length (frame_bytes HELLO (replicate 38 1) 0) = 50"
  "length (frame_bytes HELLO (replicate 38 1 @ demo_cookie) 1) = 66"
  "slice 50 66 (frame_bytes HELLO (replicate 38 1 @ demo_cookie) 1) = demo_cookie"
  "datagram_type (frame_bytes HELLO (replicate 38 1) 0) = Some 1"
  "datagram_type (frame_bytes HELLO (replicate 38 1 @ demo_cookie) 1) = Some 1"
proof -
  have "slice 50 66 (frame_bytes HELLO (replicate 38 1 @ demo_cookie) 1)
      = slice 38 54 (slice 12 (12 + length (replicate 38 (1 :: byte) @ demo_cookie))
          (frame_bytes HELLO (replicate 38 1 @ demo_cookie) 1))"
    by (simp add: slice_def min_def)
  also have "\<dots> = demo_cookie"
    using frame_bytes_fields(8) [of "replicate 38 1 @ demo_cookie" 1 "frame_bytes HELLO (replicate 38 1 @ demo_cookie) 1" HELLO "[]"]
    by (simp add: sendable_def slice_def)
  finally show "slice 50 66 (frame_bytes HELLO (replicate 38 1 @ demo_cookie) 1) = demo_cookie" .
qed (simp_all add: hello_datagram sendable_def)

lemma demo_cookie_accepted:
  "\<exists>sv'. handle_udp_datagram demo_crypto 60 0 (frame_bytes HELLO (replicate 38 1 @ demo_cookie) 1)
     (''h'', 1) demo_server = (sv', Some 0)"
proof -
  have "cookie_valid demo_crypto [1] (''h'', 1) 60 (frame_bytes HELLO (replicate 38 1 @ demo_cookie) 1)"
    by (simp add: cookie_valid_def demo_hello(3)) (simp add: demo_cookie_def time_bucket_def)
  then show ?thesis
    by (simp add: handle_udp_datagram_def handle_hello_def demo_hello demo_server_def
        handshake_admissible_def locked_out_def count_of_def)
qed

theorem cookie_binds_address_witness:
  "\<exists>t sv'. handle_udp_datagram demo_crypto 60 0 (frame_bytes HELLO (replicate 38 1 @ demo_cookie) 1)
       (''h'', 1) demo_server = (sv', Some 0)
     \<and> demo_cookie = take 16 (hmac_sha256 demo_crypto [1] (ascii (cookie_message (''h'', 1) t)))"
proof -
  obtain sv' where h: "handle_udp_datagram demo_crypto 60 0
      (frame_bytes HELLO (replicate 38 1 @ demo_cookie) 1) (''h'', 1) demo_server = (sv', Some 0)"
    using demo_cookie_accepted by blast
  from cookie_binds_address [OF h] obtain t where
    "slice 50 66 (frame_bytes HELLO (replicate 38 1 @ demo_cookie) 1)
       = take 16 (hmac_sha256 demo_crypto (sv_cookie_secret demo_server) (ascii (cookie_message (''h'', 1) t)))"
    by auto
  with h show ?thesis by (auto simp: demo_hello(3) demo_server_def)
qed

text \<open>
  The cookie exchange works: when the limiter allows it, a 50-byte HELLO is answered with an
  acknowledgement and a HELLO_RETRY, and a 66-byte HELLO from the same address that carries
  the cookie of that HELLO_RETRY, in the same half minute or the next, starts a handshake if
  the limits admit one.
\<close>

theorem cookie_round_trip:
  assumes "hmac_law C" and "map_of (sv_handshakes sv) addr = None"
    and "length hello = 50" and "datagram_type hello = Some 1"
    and "fst (allow_udp_cookie (fst addr) now (sv_cookie_limiter sv))"
    and "handle_udp_datagram C wall now hello addr sv = (sv1, r1)"
    and "sv_sent sv1 = sv_sent sv @ [(addr, ack), (addr, frame_bytes HELLO_RETRY cookie 0)]"
    and "length cookie = 16"
    and "length hello2 = 66" and "datagram_type hello2 = Some 1" and "slice 50 66 hello2 = cookie"
    and "time_bucket wall2 \<in> {time_bucket wall, time_bucket wall + 1}"
    and "handshake_admissible now2 addr sv1"
  shows "\<exists>sv2. handle_udp_datagram C wall2 now2 hello2 addr sv1 = (sv2, Some (sv_next sv1))
     \<and> map_of (sv_handshakes sv2) addr = Some (sv_next sv1)"
proof -
  let ?c = "cookie_for C (sv_cookie_secret sv) addr (time_bucket wall)"
  have c: "length ?c = 16" using assms(1) by (simp add: cookie_for_def hmac_law_def)
  then have ok: "sendable ?c 0" by (simp add: sendable_def)
  have sv1: "sv1 = issue_cookie C wall now hello addr sv"
    using assms(2,3,4,6) by (simp add: handle_udp_datagram_def handle_hello_def)
  have "sv_sent sv1 = sv_sent sv
      @ [(addr, utack_header (u8_at hello 3) (u32_at hello 4)), (addr, frame_bytes HELLO_RETRY ?c 0)]"
    using assms(5) encode_frame_sendable [OF ok, of HELLO_RETRY]
    by (auto simp: sv1 issue_cookie_def Let_def send_datagram_def split: prod.splits)
  with assms(7) have "frame_bytes HELLO_RETRY cookie 0 = frame_bytes HELLO_RETRY ?c 0" by simp
  then have "drop 12 (frame_bytes HELLO_RETRY cookie 0) = drop 12 (frame_bytes HELLO_RETRY ?c 0)" by simp
  then have cookie: "cookie = ?c" by (simp add: frame_bytes_def frame_body_def)
  have same: "same_tables sv sv1" by (simp add: sv1)
  have secret: "sv_cookie_secret sv1 = sv_cookie_secret sv"
    by (auto simp: sv1 issue_cookie_def Let_def send_datagram_def split: prod.split sum.split)
  have "cookie_valid C (sv_cookie_secret sv1) addr wall2 hello2"
    using assms(11,12) cookie secret by (auto simp: cookie_valid_def)
  then show ?thesis
    using assms(2,9,10,13) same
    by (simp add: handle_udp_datagram_def handle_hello_def same_tables_def start_handshake_def
        map_of_update Let_def)
qed

theorem cookie_round_trip_witness:
  "\<exists>sv1 r1 sv2. handle_udp_datagram demo_crypto 60 0 (frame_bytes HELLO (replicate 38 1) 0) (''h'', 1) demo_server = (sv1, r1)
     \<and> handle_udp_datagram demo_crypto 90 1 (frame_bytes HELLO (replicate 38 1 @ demo_cookie) 1) (''h'', 1) sv1 = (sv2, Some 0)"
proof -
  let ?h1 = "frame_bytes HELLO (replicate 38 1) 0"
  obtain sv1 r1 where h: "handle_udp_datagram demo_crypto 60 0 ?h1 (''h'', 1) demo_server = (sv1, r1)"
    by fastforce
  have al: "allow_udp_cookie ''h'' 0 [] = (True, [(''h'', 9, 0)])"
    by (simp add: allow_udp_cookie_def refilled_def bound_cookies_def Let_def)
  have enc: "encode_frame HELLO_RETRY demo_cookie 0 = Inr (frame_bytes HELLO_RETRY demo_cookie 0)"
    by (rule encode_frame_sendable) (simp add: sendable_def)
  have sv1: "sv1 = demo_server\<lparr>sv_cookie_limiter := [(''h'', 9, 0)],
      sv_sent := [((''h'', 1), utack_header (u8_at ?h1 3) (u32_at ?h1 4)),
                  ((''h'', 1), frame_bytes HELLO_RETRY demo_cookie 0)]\<rparr>"
    using h al enc
    by (simp add: handle_udp_datagram_def handle_hello_def demo_hello demo_server_def issue_cookie_def
        Let_def send_datagram_def time_bucket_def demo_cookie_def)
  have "\<exists>sv2. handle_udp_datagram demo_crypto 90 1 (frame_bytes HELLO (replicate 38 1 @ demo_cookie) 1) (''h'', 1) sv1
      = (sv2, Some (sv_next sv1)) \<and> map_of (sv_handshakes sv2) (''h'', 1) = Some (sv_next sv1)"
    by (rule cookie_round_trip [OF _ _ _ _ _ h, where cookie = demo_cookie
          and ack = "utack_header (u8_at ?h1 3) (u32_at ?h1 4)"])
      (simp_all add: demo_hello demo_server_def al sv1 time_bucket_def handshake_admissible_def
        locked_out_def count_of_def)
  with h show ?thesis by (auto simp: sv1 demo_server_def)
qed

section \<open>The cookie limiter\<close>

fun cookie_grants :: "string \<Rightarrow> (string \<times> rat) list \<Rightarrow> cookie_table \<Rightarrow> nat" where
  "cookie_grants k [] d = 0"
| "cookie_grants k ((ip, now) # calls) d =
     (case allow_udp_cookie ip now d of (allowed, d') \<Rightarrow>
        (if allowed \<and> ip = k then 1 else 0) + cookie_grants k calls d')"

lemma length_fold_delete:
  "dict_ok d \<Longrightarrow> distinct ks \<Longrightarrow> set ks \<subseteq> fst ` set d \<Longrightarrow>
   length (fold AList.delete ks d) + length ks = length d \<and> dict_ok (fold AList.delete ks d)"
proof (induction ks arbitrary: d)
  case (Cons k ks)
  have "length (AList.delete k d) + 1 = length d"
    using length_delete_eq [of d k] Cons.prems(1,3) by simp
  moreover have "set ks \<subseteq> fst ` set (AList.delete k d)"
  proof -
    have "fst ` set (AList.delete k d) = fst ` set d - {k}"
      by (metis delete_keys list.set_map set_removeAll)
    with Cons.prems(2,3) show ?thesis by auto
  qed
  moreover have "length (fold AList.delete ks (AList.delete k d)) + length ks = length (AList.delete k d)
      \<and> dict_ok (fold AList.delete ks (AList.delete k d))"
    using Cons.prems calculation(2) by (intro Cons.IH) simp_all
  ultimately show ?case by simp
qed simp

lemma evict_seen_bound:
  assumes "dict_ok d"
  shows "dict_ok (evict_seen d)" "length (evict_seen d) \<le> 1000"
proof -
  let ?ks = "take (length d - 1000) (map fst (sort_key (\<lambda>(_, _, t). t) d))"
  have dk: "distinct (map fst (sort_key (\<lambda>(_, _, t). t) d))"
    using assms by (simp add: dict_ok_def distinct_map)
  have "set ?ks \<subseteq> fst ` set d" using set_take_subset by fastforce
  note f = length_fold_delete [OF assms distinct_take [OF dk] this]
  have "length ?ks = length d - 1000" by simp
  with f show "dict_ok (evict_seen d)" "length (evict_seen d) \<le> 1000"
    unfolding evict_seen_def Let_def by linarith+
qed

lemma bound_cookies_ok:
  assumes "dict_ok d"
  shows "dict_ok (bound_cookies now d)" "length (bound_cookies now d) \<le> 1000"
  using assms evict_seen_bound [of "filter (\<lambda>(_, v). refilled now v < 10) d"]
  by (auto simp: bound_cookies_def Let_def)

definition cookie_step :: "string \<times> rat \<Rightarrow> cookie_table \<Rightarrow> cookie_table" where
  "cookie_step a d = snd (allow_udp_cookie (fst a) (snd a) d)"

interpretation cookies: bounded_dict cookie_step 1000
proof
  fix a and d :: cookie_table
  assume d: "dict_ok d"
  then show "dict_ok (cookie_step a d)"
    by (simp add: cookie_step_def allow_udp_cookie_def Let_def bound_cookies_ok)
  assume len: "length d \<le> 1000"
  show "length (cookie_step a d) \<le> 1000"
  proof (cases "map_of d (fst a)")
    case None
    with d show ?thesis
      by (simp add: cookie_step_def allow_udp_cookie_def refilled_def Let_def bound_cookies_ok)
  next
    case (Some v)
    with d len show ?thesis
      by (simp add: cookie_step_def allow_udp_cookie_def Let_def bound_cookies_ok length_update)
  qed
qed

text \<open>While there are few addresses nothing is evicted, and the bucket of an address is its own.\<close>

lemma allow_small:
  assumes "dict_ok d" "fst ` set d \<subseteq> S" "ip \<in> S" "finite S" "card S \<le> 1000"
  shows "let tokens = refilled now (case map_of d ip of Some v \<Rightarrow> v | None \<Rightarrow> (10, now)) in
    allow_udp_cookie ip now d
      = (1 \<le> tokens, AList.update ip (if tokens < 1 then tokens else tokens - 1, now) d)"
proof -
  have "bound_cookies now (AList.update ip v d) = AList.update ip v d" for v
  proof -
    have "dict_ok (AList.update ip v d)" using assms(1) by simp
    then have "length (AList.update ip v d) = card (fst ` set (AList.update ip v d))"
      unfolding dict_ok_def by (metis distinct_card length_map list.set_map)
    also have "\<dots> \<le> card S" using assms by (intro card_mono) (auto simp: dom_update)
    finally show ?thesis using assms(5) by (simp add: bound_cookies_def)
  qed
  then show ?thesis by (auto simp: allow_udp_cookie_def Let_def)
qed

lemma cookie_grants_bound:
  assumes "dict_ok d" "fst ` set d \<subseteq> S" "finite S" "card S \<le> 1000" "fst ` set calls \<subseteq> S"
    and "sorted (map snd calls)" "\<forall>(ip, t)\<in>set calls. last_time \<le> t \<and> t \<le> end_time"
    and "map_of d k = Some (tokens, last_time)" "0 \<le> tokens" "last_time \<le> end_time"
  shows "of_nat (cookie_grants k calls d) \<le> tokens + (end_time - last_time) * 5"
  using assms
proof (induction calls arbitrary: d tokens last_time)
  case Nil
  then show ?case by simp
next
  case (Cons c calls)
  obtain ip now where c: "c = (ip, now)" by fastforce
  let ?v = "case map_of d ip of Some v \<Rightarrow> v | None \<Rightarrow> (10, now)"
  let ?tk = "refilled now ?v"
  let ?d = "AList.update ip (if ?tk < 1 then ?tk else ?tk - 1, now) d"
  have al: "allow_udp_cookie ip now d = (1 \<le> ?tk, ?d)"
    using allow_small [OF Cons.prems(1,2) _ Cons.prems(3,4), of ip now] Cons.prems(5) c
    by (simp add: Let_def)
  have now: "last_time \<le> now" "now \<le> end_time" using Cons.prems(7) c by auto
  have later: "\<forall>(ip, t)\<in>set calls. now \<le> t \<and> t \<le> end_time"
    using Cons.prems(6,7) c by auto
  have d': "dict_ok ?d" "fst ` set ?d \<subseteq> S"
    using Cons.prems(1,2,5) c by (auto simp: dom_update)
  show ?case
  proof (cases "ip = k")
    case False
    with Cons.prems(8) have "map_of ?d k = Some (tokens, last_time)" by (simp add: map_of_update)
    from Cons.IH [OF d' Cons.prems(3,4) _ _ _ this Cons.prems(9,10)] Cons.prems c False al
    show ?thesis by simp
  next
    case True
    have tk: "?tk \<le> tokens + (now - last_time) * 5" "0 \<le> ?tk"
      using True Cons.prems(8,9) now by (simp_all add: refilled_def)
    have "of_nat (cookie_grants k calls ?d)
        \<le> (if ?tk < 1 then ?tk else ?tk - 1) + (end_time - now) * 5"
      by (rule Cons.IH [OF d' Cons.prems(3,4) _ _ later])
        (use Cons.prems(5,6) c True tk(2) now in \<open>auto simp: map_of_update\<close>)
    with tk(1) True al c show ?thesis
      by (auto simp: algebra_simps split: if_splits)
  qed
qed

text \<open>
  The cookie limiter limits: while at most 1000 addresses ask, no address is granted more
  than ten cookies at once plus five for every second between its first and its last
  request, however its requests are spaced and mixed with those of others.
\<close>

theorem cookie_rate:
  assumes "sorted (map snd ((k, first_time) # calls))" and "\<forall>(ip, t)\<in>set calls. t \<le> end_time"
    and "card (insert k (fst ` set calls)) \<le> 1000" and "first_time \<le> end_time"
  shows "of_nat (cookie_grants k ((k, first_time) # calls) []) \<le> 10 + (end_time - first_time) * 5"
proof -
  let ?S = "insert k (fst ` set calls)"
  have "length [(k, (9, first_time :: rat))] \<le> 1000" by simp
  have al: "allow_udp_cookie k first_time [] = (True, [(k, 9, first_time)])"
    by (simp add: allow_udp_cookie_def refilled_def bound_cookies_def Let_def)
  have "of_nat (cookie_grants k calls [(k, 9, first_time)]) \<le> 9 + (end_time - first_time) * 5"
    using assms by (intro cookie_grants_bound [where S = ?S]) (auto simp: dict_ok_def)
  with al show ?thesis by simp
qed

theorem cookie_rate_witness:
  "of_nat (cookie_grants ''h'' ((''h'', 0) # replicate 30 (''h'', 1)) []) \<le> (15 :: rat)"
  using cookie_rate [of "''h''" 0 "replicate 30 (''h'', 1)" 1] by simp

text \<open>
  The cookie limiter cannot be used to exhaust memory: after any requests from any
  addresses at any times its table has at most 1000 entries, one per address.
\<close>

theorem cookie_table_bounded:
  "dict_ok (fold cookie_step requests []) \<and> length (fold cookie_step requests []) \<le> 1000"
  by (rule cookies.run_bounded) (simp_all add: dict_ok_def)

section \<open>Timeouts of running sessions\<close>

text \<open>
  Timeouts of established sessions count as failed handshakes: when a session's handler
  lets the \<open>USMPTimeoutError\<close> of \<open>recv\<close> escape, because no data came in time on an
  authenticated connection, the clause for handshake timeouts records a failure for the
  peer's address, and the fifth failure since the last successful handshake from there
  locks the address out.
\<close>

theorem session_timeout_locks_out:
  assumes "fst (recv_internal ops C fuel (session_timer ops (Some timeout) s)) = Blocked"
    and "dict_ok d" and "map_of d ip = Some (fails, until, last_attempt)" and "4 \<le> fails" and "fails < 1028"
  shows "\<exists>d'. fst (recv ops C fuel (Some timeout) s) = Raise USMPTimeoutError
     \<and> connection_error ip now USMPTimeoutError d = (None, d') \<and> locked_out d' ip now"
proof -
  have "\<exists>l. new_lockout (fails + 1) now = Inr l"
    using assms(5) by (simp add: new_lockout_def float_pow2_def)
  then obtain d' where d': "record_failed_handshake ip now d = Inr d'"
    using assms(3) by (auto simp: record_failed_handshake_def Let_def)
  obtain l where l: "new_lockout (fails + 1) now = Inr l" "map_of d' ip = Some (fails + 1, l, now)"
    using record_own_entry [OF assms(2) d'] assms(3) by auto
  have "locked_out d' ip now" using l new_lockout_range [OF l(1)] assms(4) by (auto simp: locked_out_def)
  moreover have "fst (recv ops C fuel (Some timeout) s) = Raise USMPTimeoutError"
    using assms(1)
    by (cases "recv_internal ops C fuel (session_timer ops (Some timeout) s)")
      (simp add: recv_eq effective_timeout_def)
  ultimately show ?thesis using d' by (simp add: connection_error_def is_HandshakeError_def)
qed

theorem session_timeout_locks_out_witness:
  "\<exists>d'. connection_error ''h'' 7 USMPTimeoutError [(''h'', 4, 0, 6)] = (None, d') \<and> locked_out d' ''h'' 7"
proof -
  let ?s = "\<lparr>s_transport = tcp_connected No_peer (0, []) [] False, s_info = demo_info, s_recv_timeout = None,
      s_last_recv = 0, s_closed = False\<rparr>"
  have "fst (recv_internal tcp_ops demo_crypto 1 (session_timer tcp_ops (Some 7) ?s)) = Blocked"
    by (simp add: session_timer_def recv_internal_def recv_step_def read_verified_def bind_io_def catch_io_def on_transport_def
        monotonic_def tcp_monotonic_def tcp_connected_def tcp_read_frame_def read_frame_def
        tcp_readexactly_def)
  from session_timeout_locks_out [OF this, of "[(''h'', 4, 0, 6)]" "''h''" 4 0 6 7] show ?thesis
    by (auto simp: dict_ok_def)
qed

section \<open>The watchdog\<close>

text \<open>The time a wake-up reads.\<close>

definition wake_time :: "'t transport_ops \<Rightarrow> 't session \<Rightarrow> rat" where
  "wake_time ops s = fst (op_monotonic ops (s_transport s))"

fun spaced :: "rat \<Rightarrow> rat \<Rightarrow> rat list \<Rightarrow> bool" where
  "spaced interval t [] = True"
| "spaced interval t (w # ws) \<longleftrightarrow> w = t + interval \<and> spaced interval w ws"

lemma watchdog_wakes_iff:
  "watchdog_wakes ops T cb s = None \<longleftrightarrow> wake_time ops s - s_last_recv s \<le> T"
  by (auto simp: watchdog_wakes_def wake_time_def Let_def not_less split: prod.split)

lemma watchdog_closes:
  assumes "0 < T" and "list_all (\<lambda>s. s_last_recv s = r) ss"
    and "spaced (watchdog_interval T) t (map (wake_time ops) ss)" and "t \<le> r + T"
    and "\<exists>s\<in>set ss. r + T < wake_time ops s"
  shows "\<exists>s\<in>set ss. watchdog ops T cb ss = watchdog_wakes ops T cb s
    \<and> watchdog_wakes ops T cb s \<noteq> None \<and> r + T < wake_time ops s \<and> wake_time ops s \<le> r + 3 / 2 * T"
  using assms
proof (induction ss arbitrary: t)
  case Nil
  then show ?case by simp
next
  case (Cons s ss)
  have r: "s_last_recv s = r" and w: "wake_time ops s = t + T / 2"
    using Cons.prems(2,3) by (auto simp: watchdog_interval_def)
  show ?case
  proof (cases "watchdog_wakes ops T cb s")
    case None
    then have "wake_time ops s \<le> r + T" using r by (simp add: watchdog_wakes_iff)
    then have "\<exists>s\<in>set ss. watchdog ops T cb ss = watchdog_wakes ops T cb s
        \<and> watchdog_wakes ops T cb s \<noteq> None \<and> r + T < wake_time ops s \<and> wake_time ops s \<le> r + 3 / 2 * T"
      using Cons.prems by (intro Cons.IH [of "wake_time ops s"]) auto
    with None show ?thesis by auto
  next
    case (Some x)
    then have "\<not> wake_time ops s - s_last_recv s \<le> T"
      using watchdog_wakes_iff [of ops T cb s] by auto
    with r w Cons.prems(4) have "r + T < wake_time ops s" "wake_time ops s \<le> r + 3 / 2 * T" by simp_all
    with Some show ?thesis by (intro bexI [of _ s]) auto
  qed
qed

text \<open>
  C26: the watchdog is neither early nor late: when a session has been idle since a time \<open>r\<close>,
  and the watchdog, which wakes every half timeout, was not already overdue, it closes the
  transport at its first wake-up after \<open>r\<close> plus the timeout, at most one and a half
  timeouts after \<open>r\<close>, and gives the callback the identifiers of the session.\<close>

theorem watchdog_window:
  assumes "0 < session_timeout" and "list_all (\<lambda>s. s_last_recv s = r \<and> s_info s = info) ss"
    and "spaced (watchdog_interval session_timeout) t (map (wake_time ops) ss)"
    and "t \<le> r + session_timeout" and "\<exists>s\<in>set ss. r + session_timeout < wake_time ops s"
  shows "\<exists>s\<in>set ss. r + session_timeout < wake_time ops s
    \<and> wake_time ops s \<le> r + 3 / 2 * session_timeout
    \<and> watchdog ops session_timeout True ss =
        Some (Some (device_id_str info, session_id_str info),
              s\<lparr>s_transport := op_close ops (snd (op_monotonic ops (s_transport s)))\<rparr>)"
proof -
  have "list_all (\<lambda>s. s_last_recv s = r) ss" using assms(2) by (simp add: list_all_iff)
  from watchdog_closes [OF assms(1) this assms(3-5), of True] obtain s where s: "s \<in> set ss"
    "watchdog ops session_timeout True ss = watchdog_wakes ops session_timeout True s"
    "r + session_timeout < wake_time ops s" "wake_time ops s \<le> r + 3 / 2 * session_timeout" by blast
  have "s_last_recv s = r" "s_info s = info" using assms(2) s(1) by (auto simp: list_all_iff)
  with s show ?thesis
    by (intro bexI [of _ s]) (auto simp: watchdog_wakes_def wake_time_def Let_def split: prod.splits)
qed

theorem watchdog_window_witness:
  "\<exists>s. watchdog tcp_ops 10 True
      (map (\<lambda>now. demo_session (tcp_connected No_peer (now, []) [] False)) [5, 10, 15])
      = Some (Some (device_id_str demo_info, session_id_str demo_info), s)"
proof -
  have "\<exists>s\<in>set (map (\<lambda>now. demo_session (tcp_connected No_peer (now, []) [] False)) [5, 10, 15]).
      0 + 10 < wake_time tcp_ops s \<and> wake_time tcp_ops s \<le> 0 + 3 / 2 * 10
    \<and> watchdog tcp_ops 10 True (map (\<lambda>now. demo_session (tcp_connected No_peer (now, []) [] False)) [5, 10, 15])
      = Some (Some (device_id_str demo_info, session_id_str demo_info),
          s\<lparr>s_transport := op_close tcp_ops (snd (op_monotonic tcp_ops (s_transport s)))\<rparr>)"
    by (rule watchdog_window [where t = 0])
      (simp_all add: demo_session_def wake_time_def tcp_monotonic_def tcp_connected_def watchdog_interval_def)
  then show ?thesis by blast
qed

end
