(* ===== verification/Delivery.thy ===== *)
theory Delivery
  imports SessionSafety
begin

text \<open>
  What sessions deliver: fragmentation against its specification, end-to-end delivery of
  messages over TCP, agreement of the two ends after rekeying, termination of the receive
  loop, and its resilience on unreliable transports.
\<close>

section \<open>Fragmentation\<close>

function fragments :: "bytes \<Rightarrow> (packet_type \<times> bytes) list" where
  "fragments data =
     (if length data \<le> USMP_MAX_DATA_LEN then [(DATA, data)]
      else (DATA_FRAG, take USMP_MAX_DATA_LEN data) # fragments (drop USMP_MAX_DATA_LEN data))"
  by pat_completeness auto
termination
  by (relation "measure length") auto

declare fragments.simps [simp del]

fun send_all ::
  "'t transport_ops \<Rightarrow> crypto \<Rightarrow> (packet_type \<times> bytes) list \<Rightarrow> ('t session, py_exc, unit) io" where
  "send_all ops C [] = ret ()"
| "send_all ops C ((ty, p) # frs) =
     bind_io (send_encrypted_locked ops C ty p) (\<lambda>_. send_all ops C frs)"

lemma send_loop_fragments:
  "offset < length data \<or> data = [] \<Longrightarrow>
   send_loop ops C data offset = send_all ops C (fragments (drop offset data))"
proof (induction "length data - offset" arbitrary: offset rule: less_induct)
  case less
  let ?chunk = "slice offset (offset + 452) data"
  show ?case
  proof (cases "length data \<le> offset + 452")
    case True
    then have chunk: "?chunk = drop offset data" and "offset + length ?chunk = length data \<or> data = []"
      using less.prems by (auto simp: slice_def)
    moreover have "send_loop ops C data (length data) = ret ()" if "data \<noteq> []"
      using that by (subst send_loop.simps) simp
    ultimately show ?thesis
      using True less.prems by (subst send_loop.simps, subst fragments.simps) (auto simp: Let_def)
  next
    case False
    then have chunk: "?chunk = take 452 (drop offset data)" "length ?chunk = 452"
      by (auto simp: slice_def)
    have "send_loop ops C data (offset + 452) = send_all ops C (fragments (drop (offset + 452) data))"
      using False less by auto
    with False chunk show ?thesis
      by (subst send_loop.simps, subst fragments.simps) (auto simp: Let_def add.commute)
  qed
qed

lemma concat_fragments: "concat (map snd (fragments data)) = data"
proof (induction data rule: fragments.induct)
  case (1 data)
  then show ?case by (subst fragments.simps) simp
qed

lemma fragments_size: "(ty, p) \<in> set (fragments data) \<Longrightarrow> length p \<le> 452"
proof (induction data rule: fragments.induct)
  case (1 data)
  then show ?case by (subst (asm) fragments.simps) (auto split: if_splits)
qed

lemma fragments_types:
  "\<exists>frs p. fragments data = frs @ [(DATA, p)] \<and> list_all (\<lambda>(ty, _). ty = DATA_FRAG) frs"
proof (induction data rule: fragments.induct)
  case (1 data)
  show ?case
  proof (cases "length data \<le> 452")
    case True
    then show ?thesis by (subst fragments.simps) simp
  next
    case False
    with 1 obtain frs p where "fragments (drop 452 data) = frs @ [(DATA, p)]"
      "list_all (\<lambda>(ty, _). ty = DATA_FRAG) frs" by auto
    with False have "fragments data = ((DATA_FRAG, take 452 data) # frs) @ [(DATA, p)]
        \<and> list_all (\<lambda>(ty, _). ty = DATA_FRAG) ((DATA_FRAG, take 452 data) # frs)"
      by (subst fragments.simps) simp
    then show ?thesis by blast
  qed
qed

lemma length_fragments: "length data \<le> 452 * (Suc n) \<Longrightarrow> length (fragments data) \<le> Suc n"
proof (induction n arbitrary: data)
  case 0
  then show ?case by (subst fragments.simps) simp
next
  case (Suc n)
  show ?case
  proof (cases "length data \<le> 452")
    case True
    then show ?thesis by (subst fragments.simps) simp
  next
    case False
    have "length (fragments (drop 452 data)) \<le> Suc n" by (rule Suc.IH) (use Suc.prems in simp)
    with False show ?thesis by (subst fragments.simps) simp
  qed
qed

lemma send_is_fragments:
  "send ops C data =
     (if 1808 < length data then throw PayloadError else send_all ops C (fragments data))
   \<and> concat (map snd (fragments data)) = data
   \<and> list_all (\<lambda>(_, p). length p \<le> 452) (fragments data)
   \<and> (1808 < length data \<or> length (fragments data) \<le> 4)
   \<and> map fst (fragments data) = replicate (length (fragments data) - 1) DATA_FRAG @ [DATA]"
proof -
  obtain frs p where f: "fragments data = frs @ [(DATA, p)]"
    and frag: "list_all (\<lambda>(ty, _). ty = DATA_FRAG) frs"
    using fragments_types by blast
  have "map fst frs = replicate (length frs) DATA_FRAG"
    using frag by (induction frs) auto
  then have types: "map fst (fragments data) = replicate (length (fragments data) - 1) DATA_FRAG @ [DATA]"
    using f by simp
  have "length (fragments data) \<le> 4" if "\<not> 1808 < length data"
    using that length_fragments [of data 3] by simp
  then show ?thesis
    using types send_loop_fragments [of 0 data ops C]
    by (auto simp: send_def concat_fragments list_all_iff fragments_size)
qed

text \<open>
  \<open>send\<close> is its specification: it refuses exactly the messages above 1808 bytes, before
  anything is sent, and otherwise sends the fragments of the message in order, stopping at
  the first failure.  The fragments concatenate to the message, have at most 452 bytes each,
  number at most four, and only the last one is typed \<open>DATA\<close>.
\<close>

theorem send_refines_fragments:
  "send ops C data =
     (if 1808 < length data then throw PayloadError else send_all ops C (fragments data))
   \<and> concat (map snd (fragments data)) = data
   \<and> list_all (\<lambda>(_, p). length p \<le> 452) (fragments data)
   \<and> (1808 < length data \<or> length (fragments data) \<le> 4)
   \<and> map fst (fragments data) = replicate (length (fragments data) - 1) DATA_FRAG @ [DATA]"
  by (rule send_is_fragments)

section \<open>Paired sessions\<close>

text \<open>The receive side of \<open>b\<close> continues the send side of \<open>a\<close>.\<close>

definition paired :: "session_info \<Rightarrow> session_info \<Rightarrow> bool" where
  "paired a b \<longleftrightarrow>
     rx_key b = tx_key a \<and> session_id b = session_id a \<and> cipher_suite b = cipher_suite a
     \<and> rx_seq b = tx_seq a \<and> 8 \<le> length (session_id a) \<and> 0 \<le> tx_seq a"

lemma seal_ok:
  assumes "0 \<le> tx_seq info" "tx_seq info < 4294967296" "length pt \<le> 452"
  shows "\<exists>ct. seal C info ty pt = Inr ct"
  using assms encrypt_ok [OF assms] by (auto simp: seal_def session_nonce_def pack_I_ok)

lemma seal_length:
  assumes "aead_law C" "8 \<le> length (session_id info)" "seal C info ty pt = Inr ct"
  shows "length ct = length pt + 28"
  using assms encrypt_Inr_length [OF assms(1)]
  by (fastforce simp: seal_def session_nonce_def bindE_Inr dest!: pack_I_Inr)

lemma open_seal:
  assumes "aead_law C" "paired a b" "seal C a ty pt = Inr ct"
  shows "open_frame C b (sent_frame ty ct (tx_seq a)) = Inr pt"
proof -
  from assms(3) obtain bs where bs: "pack_I (tx_seq a) = Inr bs"
    and enc: "encrypt C (tx_key a) (bs @ take 8 (session_id a)) (tx_seq a) (packet_type_code ty)
        USMP_VERSION USMP_MAGIC pt (cipher_suite a) = Inr ct"
    by (auto simp: seal_def session_nonce_def bindE_Inr)
  have "length (bs @ take 8 (session_id a)) = 12"
    using pack_I_Inr [OF bs] assms(2) by (simp add: paired_def)
  from decrypt_encrypted [OF assms(1) this enc] assms(2) bs show ?thesis
    by (simp add: open_frame_def session_nonce_def paired_def)
qed

section \<open>Delivery over TCP\<close>

definition tcp_open :: "tcp_transport \<Rightarrow> bool" where
  "tcp_open t \<longleftrightarrow> \<not> tcp_lost t \<and> \<not> tcp_closed t"

definition advance_tx :: "nat \<Rightarrow> session_info \<Rightarrow> session_info" where
  "advance_tx n info = info\<lparr>tx_seq := tx_seq info + int n\<rparr>"

definition advance_rx :: "nat \<Rightarrow> session_info \<Rightarrow> session_info" where
  "advance_rx n info = info\<lparr>rx_seq := rx_seq info + int n\<rparr>"

lemma paired_advance: "paired a b \<Longrightarrow> paired (advance_tx n a) (advance_rx n b)"
  by (simp add: paired_def advance_tx_def advance_rx_def)

lemma advance_0 [simp]: "advance_tx 0 a = a" "advance_rx 0 b = b"
  by (simp_all add: advance_tx_def advance_rx_def)

lemma advance_rx_step: "rx_seq_update (\<lambda>n. n + 1) b = advance_rx 1 b"
  by (simp add: advance_rx_def)

lemma advance_Suc:
  "advance_tx n (advance_tx (Suc 0) a) = advance_tx (Suc n) a"
  "advance_rx n (advance_rx (Suc 0) b) = advance_rx (Suc n) b"
  by (simp_all add: advance_tx_def advance_rx_def)

text \<open>The bytes that a list of fragments becomes on the wire.\<close>

fun wire_of :: "crypto \<Rightarrow> session_info \<Rightarrow> (packet_type \<times> bytes) list \<Rightarrow> bytes" where
  "wire_of C info [] = []"
| "wire_of C info ((ty, p) # frs) =
     (case seal C info ty p of
        Inl e \<Rightarrow> []
      | Inr ct \<Rightarrow> frame_bytes ty ct (tx_seq info) @ wire_of C (advance_tx 1 info) frs)"

lemma send_locked_tcp:
  assumes "aead_law C" "8 \<le> length (session_id (s_info s))" "0 \<le> tx_seq (s_info s)"
    "tx_seq (s_info s) < 0xFFFFFFFF" "length p \<le> 452" "tcp_open (s_transport s)"
    and ct: "seal C (s_info s) ty p = Inr ct"
  shows "send_encrypted_locked tcp_ops C ty p s =
    (Ret (), s\<lparr>s_info := advance_tx 1 (s_info s),
              s_transport := (s_transport s)\<lparr>tcp_out := tcp_out (s_transport s)
                 @ frame_bytes ty ct (tx_seq (s_info s))\<rparr>\<rparr>)"
proof -
  have "sendable ct (tx_seq (s_info s))"
    using assms seal_length [OF assms(1,2) ct] by (simp add: sendable_def)
  then have "tcp_write_frame ty ct (tx_seq (s_info s)) (s_transport s) =
      (Ret (), (s_transport s)\<lparr>tcp_out := tcp_out (s_transport s) @ frame_bytes ty ct (tx_seq (s_info s))\<rparr>)"
    using assms(6) by (simp add: tcp_write_frame_cases encode_frame_sendable tcp_open_def)
  then show ?thesis
    using assms(4) ct
    by (simp add: send_encrypted_locked_def Let_def bind_io_def on_transport_def update_info_def
        advance_tx_def min_def)
qed

lemma send_all_tcp:
  assumes "aead_law C" "8 \<le> length (session_id (s_info s))" "0 \<le> tx_seq (s_info s)"
    "tx_seq (s_info s) + int (length frs) \<le> 0xFFFFFFFF" "list_all (\<lambda>(_, p). length p \<le> 452) frs"
    "tcp_open (s_transport s)"
  shows "send_all tcp_ops C frs s =
    (Ret (), s\<lparr>s_info := advance_tx (length frs) (s_info s),
              s_transport := (s_transport s)\<lparr>tcp_out := tcp_out (s_transport s)
                 @ wire_of C (s_info s) frs\<rparr>\<rparr>)"
  using assms(2-)
proof (induction frs arbitrary: s)
  case Nil
  then show ?case by simp
next
  case (Cons fr frs)
  obtain ty p where fr: "fr = (ty, p)" by fastforce
  obtain ct where ct: "seal C (s_info s) ty p = Inr ct"
    using seal_ok [of "s_info s" p C ty] Cons.prems fr by auto
  have step: "send_encrypted_locked tcp_ops C ty p s =
    (Ret (), s\<lparr>s_info := advance_tx 1 (s_info s),
              s_transport := (s_transport s)\<lparr>tcp_out := tcp_out (s_transport s)
                 @ frame_bytes ty ct (tx_seq (s_info s))\<rparr>\<rparr>)" (is "_ = (Ret (), ?s)")
    using Cons.prems fr by (intro send_locked_tcp assms(1) ct) simp_all
  have "send_all tcp_ops C frs ?s =
    (Ret (), ?s\<lparr>s_info := advance_tx (length frs) (s_info ?s),
              s_transport := (s_transport ?s)\<lparr>tcp_out := tcp_out (s_transport ?s)
                 @ wire_of C (s_info ?s) frs\<rparr>\<rparr>)"
    using Cons.prems by (intro Cons.IH) (auto simp: advance_tx_def tcp_open_def)
  then show ?case
    by (simp add: fr bind_io_def step ct advance_Suc)
qed

lemma guarded_dispatch_reliable:
  "is_reliable ops \<Longrightarrow> guarded_dispatch ops C f p l = dispatch_frame ops C f p l"
  by (rule ext) (auto simp: guarded_dispatch_def catch_io_def split: prod.splits outcome.splits)

text \<open>What reading leaves alone.\<close>

definition quiet :: "tcp_transport session \<Rightarrow> tcp_transport session \<Rightarrow> bool" where
  "quiet s s' \<longleftrightarrow>
     s_closed s' = s_closed s \<and> s_recv_timeout s' = s_recv_timeout s
     \<and> tcp_out (s_transport s') = tcp_out (s_transport s)
     \<and> tcp_eof (s_transport s') = tcp_eof (s_transport s)
     \<and> tcp_open (s_transport s') = tcp_open (s_transport s)
     \<and> tcp_peer (s_transport s') = tcp_peer (s_transport s)"

lemma quiet_refl [simp]: "quiet s s"
  by (simp add: quiet_def)

lemma quiet_trans: "quiet s s' \<Longrightarrow> quiet s' s'' \<Longrightarrow> quiet s s''"
  by (simp add: quiet_def)

lemma read_verified_tcp:
  assumes law: "aead_law C" and pair: "paired a (s_info s)" and ct: "seal C a ty p = Inr ct"
    and seq: "tx_seq a < 0xFFFFFFFF" and p: "length p \<le> 452"
    and input: "tcp_in (s_transport s) = frame_bytes ty ct (tx_seq a) @ rest"
  shows "\<exists>s'. read_verified tcp_ops C s = (Ret (Some (sent_frame ty ct (tx_seq a), p)), s')
    \<and> s_info s' = s_info s \<and> tcp_in (s_transport s') = rest \<and> quiet s s'"
proof -
  let ?f = "sent_frame ty ct (tx_seq a)"
  have sid: "8 \<le> length (session_id a)" and n0: "0 \<le> tx_seq a"
    using pair by (simp_all add: paired_def)
  have ok: "sendable ct (tx_seq a)"
    using seal_length [OF law sid ct] p n0 seq by (simp add: sendable_def)
  let ?t1 = "(s_transport s)\<lparr>tcp_in := rest\<rparr>"
  have rd: "tcp_read_frame True (s_transport s) = (Ret ?f, ?t1)"
    using tcp.read_frame_wire [OF ok input, of True] input
    by (simp add: tcp_read_frame_def tcp_advance_def)
  obtain now c where "tick (tcp_clock (s_transport s)) = (now, c)" by (metis surj_pair)
  then have clk: "tcp_monotonic ?t1 = (now, ?t1\<lparr>tcp_clock := c\<rparr>)" (is "_ = (_, ?t2)")
    by (simp add: tcp_monotonic_def)
  let ?s2 = "s\<lparr>s_transport := ?t2, s_last_recv := now\<rparr>"
  have "read_verified tcp_ops C s = (Ret (Some (?f, p)), ?s2)"
    using open_seal [OF law pair ct]
    by (simp add: read_verified_defs bind_io_def catch_io_def on_transport_def rd clk monotonic_def)
  then show ?thesis by (intro exI [of _ ?s2]) (simp add: quiet_def tcp_open_def)
qed

lemma recv_step_tcp:
  assumes law: "aead_law C" and pair: "paired a (s_info s)" and ct: "seal C a ty p = Inr ct"
    and seq: "tx_seq a < 0xFFFFFFFF" and p: "length p \<le> 452"
    and input: "tcp_in (s_transport s) = frame_bytes ty ct (tx_seq a) @ rest"
    and ty: "ty \<in> {DATA, DATA_FRAG}"
  shows "\<exists>s'. recv_step tcp_ops C l s = handle_data (sent_frame ty ct (tx_seq a)) p l s'
    \<and> s_info s' = advance_rx 1 (s_info s) \<and> tcp_in (s_transport s') = rest
    \<and> quiet s s'"
proof -
  let ?f = "sent_frame ty ct (tx_seq a)"
  obtain s2 where rv: "read_verified tcp_ops C s = (Ret (Some (?f, p)), s2)"
    and s2: "s_info s2 = s_info s" "tcp_in (s_transport s2) = rest" "quiet s s2"
    using read_verified_tcp [OF law pair ct seq p input] by blast
  let ?s3 = "update_info (rx_seq_update (\<lambda>n. n + 1)) s2"
  have acc: "accept_seq tcp_ops (tx_seq a) s2 = (Ret (), ?s3)"
    using pair s2 by (simp add: accept_seq_def bind_io_def paired_def)
  have "recv_step tcp_ops C l s = handle_data ?f p l ?s3"
    using seq ty by (auto simp: recv_step_def bind_io_def rv acc guarded_dispatch_reliable dispatch_frame_def)
  then show ?thesis
    using s2 by (intro exI [of _ ?s3]) (simp add: update_info_def advance_rx_def quiet_def)
qed

lemma recv_loop_tcp:
  assumes law: "aead_law C"
    and "paired a (s_info s)" "tx_seq a + int (length frs) \<le> 0xFFFFFFFF"
    and "list_all (\<lambda>(_, p). length p \<le> 452) frs"
    and "map fst frs = replicate (length frs - 1) DATA_FRAG @ [DATA]"
    and "tcp_in (s_transport s) = wire_of C a frs @ rest"
    and "frame_count l + length frs \<le> 4"
    and "0 < frame_count l \<Longrightarrow> expected_frag_seq l = tx_seq a"
    and "length frs \<le> fuel"
  shows "\<exists>s'. recv_loop tcp_ops C fuel l s = (Ret (Some (assembled_payload l @ concat (map snd frs))), s')
    \<and> s_info s' = advance_rx (length frs) (s_info s) \<and> tcp_in (s_transport s') = rest
    \<and> quiet s s'"
  using assms(2-)
proof (induction frs arbitrary: a s l fuel)
  case Nil
  then show ?case by simp
next
  case (Cons fr frs)
  obtain ty p where fr: "fr = (ty, p)" by fastforce
  obtain ct where ct: "seal C a ty p = Inr ct"
    using seal_ok [of a p C ty] Cons.prems fr by (auto simp: paired_def)
  obtain n where fuel: "fuel = Suc n" using Cons.prems(8) by (cases fuel) auto
  have ty: "ty = (if frs = [] then DATA else DATA_FRAG)"
    using Cons.prems(4) fr by (cases frs) auto
  have "\<exists>s1. recv_step tcp_ops C l s = handle_data (sent_frame ty ct (tx_seq a)) p l s1
    \<and> s_info s1 = advance_rx 1 (s_info s) \<and> tcp_in (s_transport s1) = wire_of C (advance_tx 1 a) frs @ rest
    \<and> quiet s s1"
    using Cons.prems fr ct ty by (intro recv_step_tcp law) auto
  then obtain s1 where step: "recv_step tcp_ops C l s = handle_data (sent_frame ty ct (tx_seq a)) p l s1"
    and s1: "s_info s1 = advance_rx 1 (s_info s)" "quiet s s1"
      "tcp_in (s_transport s1) = wire_of C (advance_tx 1 a) frs @ rest" by blast
  have in_order: "\<not> (0 < frame_count l \<and> tx_seq a \<noteq> expected_frag_seq l)"
    by (metis Cons.prems(7))
  show ?case
  proof (cases "frs = []")
    case True
    with in_order have "handle_data (sent_frame ty ct (tx_seq a)) p l s1
        = (Ret (Done (assembled_payload l @ p)), s1)"
      using ty by (simp add: handle_data_def bind_io_def Let_def throw_if_def)
    with True s1 show ?thesis by (simp add: fuel bind_io_def step fr)
  next
    case False
    let ?l = "l\<lparr>expected_frag_seq := tx_seq a + 1, assembled_payload := assembled_payload l @ p,
        frame_count := frame_count l + 1\<rparr>"
    have cnt: "frame_count l + 1 < 4" using Cons.prems(6) False by (cases frs) auto
    with False ty have h: "handle_data (sent_frame ty ct (tx_seq a)) p l s1 = (Ret (Next ?l), s1)"
      using in_order by (auto simp: handle_data_def bind_io_def Let_def throw_if_def)
    have "\<exists>s'. recv_loop tcp_ops C n ?l s1
        = (Ret (Some (assembled_payload ?l @ concat (map snd frs))), s')
      \<and> s_info s' = advance_rx (length frs) (s_info s1) \<and> tcp_in (s_transport s') = rest
      \<and> quiet s1 s'"
    proof (rule Cons.IH)
      show "paired (advance_tx 1 a) (s_info s1)"
        using paired_advance [OF Cons.prems(1), of 1] s1 by simp
      show "map fst frs = replicate (length frs - 1) DATA_FRAG @ [DATA]"
        using Cons.prems(4) False by (cases frs) auto
    qed (use Cons.prems s1 cnt fuel False in \<open>auto simp: advance_tx_def\<close>)
    then show ?thesis
      using s1 quiet_trans [OF s1(2)] by (auto simp: fuel bind_io_def step h fr advance_Suc)
  qed
qed

text \<open>A whole message: what \<open>send\<close> does, and \<open>recv\<close> when that is what arrives.\<close>

lemma tcp_send_message:
  assumes "aead_law C" and "length data \<le> 1808" and "8 \<le> length (session_id (s_info s))"
    and "0 \<le> tx_seq (s_info s)" and "tx_seq (s_info s) + 4 \<le> 0xFFFFFFFF" and "tcp_open (s_transport s)"
  shows "send tcp_ops C data s =
    (Ret (), s\<lparr>s_info := advance_tx (length (fragments data)) (s_info s),
              s_transport := (s_transport s)\<lparr>tcp_out := tcp_out (s_transport s)
                 @ wire_of C (s_info s) (fragments data)\<rparr>\<rparr>)"
proof -
  note spec = send_is_fragments [of tcp_ops C data]
  have "length (fragments data) \<le> 4" using spec assms(2) by auto
  with assms(2-) spec show ?thesis
    using send_all_tcp [OF assms(1,3,4) _ _ assms(6), of "fragments data"] by auto
qed

lemma tcp_recv_message:
  assumes "aead_law C" and "length data \<le> 1808" and "paired a (s_info s)"
    and "tx_seq a + 4 \<le> 0xFFFFFFFF" and "4 \<le> fuel"
    and "tcp_in (s_transport s) = wire_of C a (fragments data) @ rest"
    and "\<forall>v. effective_timeout timeout s = Some v \<longrightarrow> 0 < v"
  shows "\<exists>s'. recv tcp_ops C fuel timeout s = (Ret (Some data), s')
    \<and> s_info s' = advance_rx (length (fragments data)) (s_info s)
    \<and> tcp_in (s_transport s') = rest \<and> quiet s s'"
proof -
  let ?frs = "fragments data"
  note spec = send_is_fragments [of tcp_ops C data]
  have len: "length ?frs \<le> 4" using spec assms(2) by auto
  obtain now c where "tick (tcp_clock (s_transport s)) = (now, c)" by (metis surj_pair)
  then have clk: "tcp_monotonic (s_transport s) = (now, (s_transport s)\<lparr>tcp_clock := c\<rparr>)" (is "_ = (_, ?t)")
    by (simp add: tcp_monotonic_def)
  let ?s = "s\<lparr>s_transport := ?t\<rparr>"
  have "\<exists>s'. recv_loop tcp_ops C fuel (recv_start now) ?s =
      (Ret (Some (assembled_payload (recv_start now) @ concat (map snd ?frs))), s')
    \<and> s_info s' = advance_rx (length ?frs) (s_info ?s) \<and> tcp_in (s_transport s') = rest
    \<and> quiet ?s s'"
    using assms spec len by (intro recv_loop_tcp [where a = a]) (auto simp: recv_start_def)
  then obtain s' where loop: "recv_loop tcp_ops C fuel (recv_start now) ?s = (Ret (Some data), s')"
    and s': "s_info s' = advance_rx (length ?frs) (s_info s)" "tcp_in (s_transport s') = rest" "quiet ?s s'"
    using spec by (auto simp: recv_start_def)
  have "recv_internal tcp_ops C fuel s = (Ret (Some data), s')"
    using loop by (simp add: recv_internal_def bind_io_def on_transport_def monotonic_def clk)
  then have "recv tcp_ops C fuel timeout s = (Ret (Some data), s')"
    using assms(7) by (intro recv_Ret) (simp_all add: session_timer_def)
  moreover have "quiet s s'" using s'(3) by (simp add: quiet_def tcp_open_def)
  ultimately show ?thesis using s' by blast
qed

text \<open>
  End-to-end delivery: when one side of a session sends a message of at most 1808 bytes
  over an open TCP connection and the bytes it wrote arrive at the other side, whose receive
  state is paired with the sender's, then \<open>recv\<close> returns exactly that message, consumes
  exactly its frames, and leaves the two sides paired again, ready for the next message.
\<close>

theorem tcp_message_delivery:
  assumes "aead_law C" and "length data \<le> 1808"
    and "paired (s_info a) (s_info b)" and "tx_seq (s_info a) + 4 \<le> 0xFFFFFFFF"
    and "tcp_open (s_transport a)" and "tcp_out (s_transport a) = []"
    and "send tcp_ops C data a = (out, a')"
    and "tcp_in (s_transport b) = tcp_out (s_transport a') @ rest" and "4 \<le> fuel"
    and "\<forall>v. effective_timeout timeout b = Some v \<longrightarrow> 0 < v"
  shows "out = Ret () \<and>
    (\<exists>b'. recv tcp_ops C fuel timeout b = (Ret (Some data), b')
       \<and> tcp_in (s_transport b') = rest \<and> paired (s_info a') (s_info b'))"
proof -
  have "8 \<le> length (session_id (s_info a))" and "0 \<le> tx_seq (s_info a)"
    using assms(3) by (simp_all add: paired_def)
  from tcp_send_message [OF assms(1,2) this assms(4,5)] assms(6,7) have out: "out = Ret ()"
    and a': "s_info a' = advance_tx (length (fragments data)) (s_info a)"
      "tcp_out (s_transport a') = wire_of C (s_info a) (fragments data)"
    by auto
  from tcp_recv_message [OF assms(1-4,9) _ assms(10)] assms(8) a'(2) obtain b' where
    "recv tcp_ops C fuel timeout b = (Ret (Some data), b')"
    "s_info b' = advance_rx (length (fragments data)) (s_info b)" "tcp_in (s_transport b') = rest"
    by auto
  with out a' paired_advance [OF assms(3)] show ?thesis by auto
qed

definition demo_peer_info :: session_info where
  "demo_peer_info = demo_info\<lparr>tx_key := rx_key demo_info, rx_key := tx_key demo_info\<rparr>"

definition demo_tcp :: "bytes \<Rightarrow> tcp_transport" where
  "demo_tcp input = tcp_connected No_peer (0, []) input False"

theorem tcp_message_delivery_witness:
  "\<exists>a' b'. send tcp_ops demo_crypto [1, 2, 3] (demo_session (demo_tcp [])) = (Ret (), a')
     \<and> recv tcp_ops demo_crypto 4 None
         ((demo_session (demo_tcp (tcp_out (s_transport a') @ [9])))\<lparr>s_info := demo_peer_info\<rparr>)
       = (Ret (Some [1, 2, 3]), b') \<and> tcp_in (s_transport b') = [9]"
proof -
  obtain out a' where snd: "send tcp_ops demo_crypto [1, 2, 3] (demo_session (demo_tcp [])) = (out, a')"
    by fastforce
  let ?b = "(demo_session (demo_tcp (tcp_out (s_transport a') @ [9])))\<lparr>s_info := demo_peer_info\<rparr>"
  have "paired (s_info (demo_session (demo_tcp []))) (s_info ?b)"
    by (simp add: paired_def demo_session_def demo_info_def demo_peer_info_def)
  moreover have "tcp_open (s_transport (demo_session (demo_tcp [])))"
    and "tcp_out (s_transport (demo_session (demo_tcp []))) = []"
    and "tcp_in (s_transport ?b) = tcp_out (s_transport a') @ [9]"
    and "tx_seq (s_info (demo_session (demo_tcp []))) + 4 \<le> 0xFFFFFFFF"
    by (simp_all add: demo_session_def demo_info_def demo_tcp_def tcp_connected_def tcp_open_def)
  ultimately have "out = Ret () \<and>
    (\<exists>b'. recv tcp_ops demo_crypto 4 None ?b = (Ret (Some [1, 2, 3]), b')
       \<and> tcp_in (s_transport b') = [9] \<and> paired (s_info a') (s_info b'))"
    using tcp_message_delivery [OF _ _ _ _ _ _ snd, of ?b "[9]" 4 None]
    by (simp add: effective_timeout_def demo_session_def)
  with snd show ?thesis by blast
qed

section \<open>Rekeying over TCP\<close>

definition peers :: "session_info \<Rightarrow> session_info \<Rightarrow> bool" where
  "peers a b \<longleftrightarrow> paired a b \<and> paired b a"

lemma peers_rekey:
  assumes "peers a b"
  shows "peers (rekey_info C True salt a) (rekey_info C False salt (advance_rx n b))"
proof -
  have keys: "tx_key b = rx_key a" "rx_key b = tx_key a" "session_id b = session_id a"
    "cipher_suite b = cipher_suite a" "8 \<le> length (session_id a)"
    using assms unfolding peers_def paired_def by metis+
  obtain x y where xy: "derive_rekey_keys C True (tx_key a) (rx_key a) (session_id a) salt = (x, y)"
    by fastforce
  then have "derive_rekey_keys C False (rx_key a) (tx_key a) (session_id a) salt = (y, x)"
    by (simp add: derive_rekey_swap)
  with xy keys show ?thesis
    by (simp add: peers_def paired_def rekey_info_def advance_rx_def)
qed

lemma recv_rekey_tcp:
  assumes law: "aead_law C" and pair: "paired a (s_info s)" and ct: "seal C a REKEY salt = Inr ct"
    and seq: "tx_seq a < 0xFFFFFFFF" and salt: "length salt = 32"
    and input: "tcp_in (s_transport s) = frame_bytes REKEY ct (tx_seq a) @ rest"
  shows "\<exists>s'. recv_step tcp_ops C (recv_start now) s = (Ret (Next (recv_start now)), s')
    \<and> s_info s' = rekey_info C False salt (advance_rx 1 (s_info s)) \<and> tcp_in (s_transport s') = rest"
proof -
  obtain s1 where s1: "read_verified tcp_ops C s = (Ret (Some (sent_frame REKEY ct (tx_seq a), salt)), s1)"
      "s_info s1 = s_info s" "tcp_in (s_transport s1) = rest"
    using read_verified_tcp [OF law pair ct seq _ input] salt by auto
  let ?s2 = "update_info (rx_seq_update (\<lambda>n. n + 1)) s1"
  have acc: "accept_seq tcp_ops (tx_seq a) s1 = (Ret (), ?s2)"
    using pair s1 by (simp add: accept_seq_def bind_io_def paired_def)
  let ?s' = "install_keys tcp_ops (update_info (rekey_info C False salt) ?s2)"
  have "recv_step tcp_ops C (recv_start now) s = (Ret (Next (recv_start now)), ?s')"
    using salt seq
    by (simp add: recv_step_def bind_io_def s1 acc guarded_dispatch_reliable dispatch_frame_def
        handle_rekey_def rotate_keys_def recv_start_def)
  moreover have "s_info ?s' = rekey_info C False salt (advance_rx 1 (s_info s))"
    using s1 by (simp add: install_keys_def update_info_def advance_rx_step)
  moreover have "tcp_in (s_transport ?s') = rest"
    using s1 by (simp add: install_keys_def update_info_def)
  ultimately show ?thesis by blast
qed

text \<open>
  C24: in-band rekeying over TCP: one side calls \<open>rekey\<close> and the other reads the bytes it wrote
  in its receive loop; afterwards both hold the same fresh pair of keys with the roles
  swapped, all four sequence numbers are zero, and the sides are paired in both directions.
\<close>

theorem tcp_rekey_agreement:
  assumes "aead_law C" and "peers (s_info a) (s_info b)" and "length salt = 32"
    and "tx_seq (s_info a) < 0xFFFFFFFF" and "tcp_open (s_transport a)"
    and "tcp_out (s_transport a) = []" and "rekey tcp_ops C salt a = (out, a')"
    and "tcp_in (s_transport b) = tcp_out (s_transport a') @ rest"
  shows "out = Ret () \<and>
    (\<exists>b'. recv_step tcp_ops C (recv_start now) b = (Ret (Next (recv_start now)), b')
       \<and> tcp_in (s_transport b') = rest \<and> peers (s_info a') (s_info b')
       \<and> tx_seq (s_info a') = 0 \<and> tx_seq (s_info b') = 0)"
proof -
  have pair: "paired (s_info a) (s_info b)" using assms(2) by (simp add: peers_def)
  then have sid: "8 \<le> length (session_id (s_info a))" and n0: "0 \<le> tx_seq (s_info a)"
    by (simp_all add: paired_def)
  obtain ct where ct: "seal C (s_info a) REKEY salt = Inr ct"
    using seal_ok [of "s_info a" salt C REKEY] n0 assms(3,4) by auto
  have "send_encrypted_locked tcp_ops C REKEY salt a =
    (Ret (), a\<lparr>s_info := advance_tx 1 (s_info a),
              s_transport := (s_transport a)\<lparr>tcp_out := tcp_out (s_transport a)
                 @ frame_bytes REKEY ct (tx_seq (s_info a))\<rparr>\<rparr>)"
    using assms by (intro send_locked_tcp sid n0 ct) simp_all
  then have out: "out = Ret ()" and a': "s_info a' = rekey_info C True salt (advance_tx 1 (s_info a))"
    "tcp_out (s_transport a') = frame_bytes REKEY ct (tx_seq (s_info a))"
    using assms(6,7) by (auto simp: rekey_def bind_io_def rotate_keys_def install_keys_def update_info_def)
  have ri: "rekey_info C True salt (advance_tx 1 (s_info a)) = rekey_info C True salt (s_info a)"
    by (simp add: rekey_info_def advance_tx_def split: prod.splits)
  have "tcp_in (s_transport b) = frame_bytes REKEY ct (tx_seq (s_info a)) @ rest" using assms(8) a'(2) by simp
  from recv_rekey_tcp [OF assms(1) pair ct assms(4,3) this, of now] obtain b' where
    b': "recv_step tcp_ops C (recv_start now) b = (Ret (Next (recv_start now)), b')"
      "s_info b' = rekey_info C False salt (advance_rx 1 (s_info b))" "tcp_in (s_transport b') = rest"
    by blast
  have "peers (s_info a') (s_info b')" using peers_rekey [OF assms(2), of C salt 1] a'(1) ri b'(2) by simp
  moreover have "tx_seq (s_info a') = 0" "tx_seq (s_info b') = 0"
    by (simp_all add: a'(1) b'(2) rekey_info_def split: prod.splits)
  ultimately show ?thesis using out b' by blast
qed

theorem tcp_rekey_agreement_witness:
  "\<exists>a' b'. rekey tcp_ops demo_crypto (replicate 32 5) (demo_session (demo_tcp [])) = (Ret (), a')
     \<and> recv_step tcp_ops demo_crypto (recv_start 0)
         ((demo_session (demo_tcp (tcp_out (s_transport a'))))\<lparr>s_info := demo_peer_info\<rparr>)
       = (Ret (Next (recv_start 0)), b') \<and> peers (s_info a') (s_info b')"
proof -
  obtain out a' where rk: "rekey tcp_ops demo_crypto (replicate 32 5) (demo_session (demo_tcp [])) = (out, a')"
    by fastforce
  let ?b = "(demo_session (demo_tcp (tcp_out (s_transport a'))))\<lparr>s_info := demo_peer_info\<rparr>"
  have "peers (s_info (demo_session (demo_tcp []))) (s_info ?b)"
    by (simp add: peers_def paired_def demo_session_def demo_info_def demo_peer_info_def)
  moreover have "tcp_open (s_transport (demo_session (demo_tcp [])))"
    and "tcp_out (s_transport (demo_session (demo_tcp []))) = []"
    and "tcp_in (s_transport ?b) = tcp_out (s_transport a') @ []"
    and "tx_seq (s_info (demo_session (demo_tcp []))) < 0xFFFFFFFF"
    by (simp_all add: demo_session_def demo_info_def demo_tcp_def tcp_connected_def tcp_open_def)
  ultimately have "out = Ret () \<and>
    (\<exists>b'. recv_step tcp_ops demo_crypto (recv_start 0) ?b = (Ret (Next (recv_start 0)), b')
       \<and> tcp_in (s_transport b') = [] \<and> peers (s_info a') (s_info b')
       \<and> tx_seq (s_info a') = 0 \<and> tx_seq (s_info b') = 0)"
    using tcp_rekey_agreement [OF _ _ _ _ _ _ rk, of ?b "[]" 0] by simp
  with rk show ?thesis by blast
qed

section \<open>The receive loop ends\<close>

context transport begin

lemma read_verified_progress:
  assumes "read_verified ops C s = (Ret r, s')"
  shows "avail (s_transport s') < avail (s_transport s)"
proof -
  obtain o1 t1 where rd: "op_read_frame ops True (s_transport s) = (o1, t1)" by fastforce
  let ?s1 = "s\<lparr>s_transport := t1\<rparr>"
  let ?B = "\<lambda>s. avail (s_transport s) \<le> avail t1"
  have tail: "preserves ?B (verify_frame ops C f)" "preserves ?B (drop_malformed ops e)" for f e
    by (auto simp: verify_frame_def drop_malformed_def intro!: preserve below.session.inv_clock)
  have "o1 \<noteq> Blocked \<and> o1 \<noteq> Raise IncompleteReadError"
    using assms rd
    by (auto simp: read_verified_def bind_io_def catch_io_def on_transport_def drop_malformed_def
        is_USMPError_def)
  then have "avail t1 < avail (s_transport s)"
    using read_progress [of True "s_transport s"] rd by auto
  moreover have "?B s'"
  proof (cases o1)
    case (Ret f)
    have P: "preserves ?B (catch_io (verify_frame ops C f) (drop_malformed ops))"
      by (intro preserve tail)
    have E: "catch_io (verify_frame ops C f) (drop_malformed ops) ?s1 = (Ret r, s')"
      using assms rd Ret by (simp add: read_verified_def bind_io_def catch_io_def on_transport_def)
    show ?thesis using preservesD [OF P _ E] by simp
  next
    case (Raise e)
    have "drop_malformed ops e ?s1 = (Ret r, s')"
      using assms rd Raise by (simp add: read_verified_def bind_io_def catch_io_def on_transport_def)
    from preservesD [OF tail(2) _ this] show ?thesis by simp
  next
    case Blocked
    with assms rd show ?thesis
      by (simp add: read_verified_def bind_io_def catch_io_def on_transport_def)
  qed
  ultimately show ?thesis by simp
qed

lemma recv_step_progress:
  assumes "recv_step ops C l s = (Ret flow, s')"
  shows "avail (s_transport s') < avail (s_transport s)"
proof -
  obtain r s1 where rv: "read_verified ops C s = (Ret r, s1)"
    using assms by (auto simp: recv_step_def bind_io_def split: prod.splits outcome.splits)
  let ?B = "\<lambda>s. avail (s_transport s) \<le> avail (s_transport s1)"
  have "preserves ?B (accept_seq ops n)" for n
    by (rule preservesI, cases "is_reliable ops")
      (simp_all add: accept_seq_reliable accept_seq_unreliable update_info_def confirm_avail)
  then have P: "preserves ?B (case r of None \<Rightarrow> ret (Next l)
     | Some (frame, plaintext) \<Rightarrow>
         bind_io (throw_if (fr_seq frame \<ge> 0xFFFFFFFF) SequenceError) (\<lambda>_.
         bind_io (accept_seq ops (fr_seq frame)) (\<lambda>_.
         guarded_dispatch ops C frame plaintext l)))" (is "preserves ?B ?m")
    by (auto intro!: preserve below.session.inv_guarded_dispatch split: option.splits prod.splits)
  have E: "?m s1 = (Ret flow, s')"
    using assms rv by (simp add: recv_step_def bind_io_def)
  have "?B s'" using preservesD [OF P _ E] by simp
  with read_verified_progress [OF rv] show ?thesis by simp
qed

lemma recv_loop_enough_fuel:
  "avail (s_transport s) < fuel \<Longrightarrow> fst (recv_loop ops C fuel l s) \<noteq> Ret None"
proof (induction fuel arbitrary: l s)
  case 0
  then show ?case by simp
next
  case (Suc fuel)
  obtain o1 s1 where step: "recv_step ops C l s = (o1, s1)" by fastforce
  show ?case
  proof (cases "\<exists>l'. o1 = Ret (Next l')")
    case True
    with step recv_step_progress Suc.prems have "avail (s_transport s1) < fuel" by fastforce
    with True step Suc.IH show ?thesis by (auto simp: bind_io_def)
  next
    case False
    with step show ?thesis
      by (auto simp: bind_io_def split: outcome.splits recv_flow.splits)
  qed
qed

lemma recv_enough_fuel:
  assumes "avail (s_transport s) < fuel"
  shows "fst (recv ops C fuel timeout s) \<noteq> Ret None"
proof -
  have internal: "fst (recv_internal ops C fuel s) \<noteq> Ret None" if "avail (s_transport s) < fuel" for s
  proof -
    obtain now t where clk: "op_monotonic ops (s_transport s) = (now, t)" by fastforce
    then have "avail t = avail (s_transport s)" using clock_avail [of "s_transport s"] by simp
    then have "fst (recv_loop ops C fuel (recv_start now) (s\<lparr>s_transport := t\<rparr>)) \<noteq> Ret None"
      using that by (intro recv_loop_enough_fuel) simp
    then show ?thesis
      using clk by (simp add: recv_internal_def bind_io_def on_transport_def monotonic_def)
  qed
  have "fst (recv_internal ops C fuel (session_timer ops (Some v) s)) \<noteq> Ret None" for v
    using assms by (intro internal) (simp add: session_timer_def timeout_avail)
  then show ?thesis
    using internal [OF assms]
    by (auto simp: recv_eq split: option.split prod.split outcome.split) (metis fst_conv not_Some_eq)+
qed

end

text \<open>
  The receive loop ends over TCP: with one unit of fuel more than there are bytes to read,
  \<open>recv\<close> returns a message, raises, or waits for input that has not arrived; it never spins.
\<close>

theorem tcp_recv_terminates:
  assumes "length (tcp_in (s_transport s)) < fuel"
  shows "(\<exists>data. fst (recv tcp_ops C fuel timeout s) = Ret (Some data))
    \<or> (\<exists>e. fst (recv tcp_ops C fuel timeout s) = Raise e)
    \<or> fst (recv tcp_ops C fuel timeout s) = Blocked"
  using tcp_transport.recv_enough_fuel [OF assms, of C timeout]
  by (cases "fst (recv tcp_ops C fuel timeout s)") auto

theorem tcp_recv_terminates_witness:
  "fst (recv tcp_ops demo_crypto 4 None (demo_session (demo_tcp [1, 2, 3]))) \<noteq> Ret None"
  using tcp_recv_terminates [of "demo_session (demo_tcp [1, 2, 3])" 4 demo_crypto None]
  by (auto simp: demo_session_def demo_tcp_def tcp_connected_def)

section \<open>Unreliable transports: what an attacker cannot do\<close>

lemma open_frame_Inl: "open_frame C info f = Inl e \<Longrightarrow> e \<in> {CryptoError, StructError}"
  by (auto simp: open_frame_def session_nonce_def bindE_Inl pack_I_def split: if_splits
      dest: decrypt_Inl)

lemma verify_frame_forged:
  "\<not> is_reliable ops \<Longrightarrow> open_frame C (s_info s) f = Inl e \<Longrightarrow>
   catch_io (verify_frame ops C f) (drop_malformed ops) s = (Ret None, s)"
  using open_frame_Inl [of C "s_info s" f e]
  by (auto simp: verify_frame_def drop_malformed_def bind_io_def catch_io_def is_USMPError_def)

lemma unauthentic_frame_skipped:
  assumes "\<not> is_reliable ops" and "op_read_frame ops True (s_transport s) = (out, t)"
    and "(\<exists>f e. out = Ret f \<and> open_frame C (s_info s) f = Inl e) \<or> (\<exists>e. out = Raise e \<and> is_USMPError e)"
  shows "recv_step ops C l s = (Ret (Next l), s\<lparr>s_transport := t\<rparr>)"
proof -
  have "read_verified ops C s = (Ret None, s\<lparr>s_transport := t\<rparr>)"
    using assms(3)
  proof
    assume "\<exists>f e. out = Ret f \<and> open_frame C (s_info s) f = Inl e"
    then obtain f e where f: "out = Ret f" and e: "open_frame C (s_info s) f = Inl e" by blast
    have "catch_io (verify_frame ops C f) (drop_malformed ops) (s\<lparr>s_transport := t\<rparr>)
        = (Ret None, s\<lparr>s_transport := t\<rparr>)"
      by (rule verify_frame_forged [where e = e]) (simp_all add: assms(1) e)
    with f assms(2) show ?thesis
      by (simp add: read_verified_def bind_io_def catch_io_def on_transport_def)
  next
    assume "\<exists>e. out = Raise e \<and> is_USMPError e"
    with assms(1,2) show ?thesis
      by (auto simp: read_verified_def bind_io_def catch_io_def on_transport_def drop_malformed_def)
  qed
  then show ?thesis by (simp add: recv_step_def bind_io_def)
qed

text \<open>
  Over an unreliable transport a frame that does not authenticate (forged, altered,
  encrypted under other keys), and a datagram that is malformed, has no effect on the
  session: the loop goes on with the same local variables, session information, time of
  last activity and closed flag; only the transport has consumed it.
\<close>

theorem unreliable_forged_frame_ignored:
  assumes "\<not> is_reliable ops"
    and "op_read_frame ops True (s_transport s) = (out, t)"
    and "(\<exists>f e. out = Ret f \<and> open_frame C (s_info s) f = Inl e)
      \<or> (\<exists>e. out = Raise e \<and> is_USMPError e)"
  shows "recv_step ops C l s = (Ret (Next l), s\<lparr>s_transport := t\<rparr>)"
  by (rule unauthentic_frame_skipped [OF assms])

theorem unreliable_forged_frame_ignored_witness:
  "recv_step (tcp_ops\<lparr>is_reliable := False\<rparr>) demo_crypto (recv_start 0)
     (demo_session (demo_tcp (frame_bytes DATA [1, 2, 3] 5)))
   = (Ret (Next (recv_start 0)), demo_session (demo_tcp []))"
proof -
  let ?s = "demo_session (demo_tcp (frame_bytes DATA [1, 2, 3] 5))"
  have ok: "sendable [1, 2, 3] 5" by (simp add: sendable_def)
  have "read_frame tcp_readexactly True (s_transport ?s)
      = (Ret (sent_frame DATA [1, 2, 3] 5), tcp_advance (12 + length [1, 2, 3 :: byte]) (s_transport ?s))"
    by (rule tcp.read_frame_wire [OF ok, of _ _ "[]"])
      (simp add: demo_session_def demo_tcp_def tcp_connected_def)
  then have rd: "op_read_frame (tcp_ops\<lparr>is_reliable := False\<rparr>) True (s_transport ?s)
      = (Ret (sent_frame DATA [1, 2, 3] 5), demo_tcp [])"
    by (simp add: tcp_ops_def tcp_read_frame_def tcp_advance_def demo_session_def demo_tcp_def
        tcp_connected_def)
  have "open_frame demo_crypto (s_info ?s) (sent_frame DATA [1, 2, 3] 5) = Inl CryptoError"
    by (simp add: open_frame_def session_nonce_def pack_I_ok decrypt_def)
  then have "(\<exists>f e. Ret (sent_frame DATA [1, 2, 3] 5) = Ret f
        \<and> open_frame demo_crypto (s_info ?s) f = Inl e)
      \<or> (\<exists>e. (Ret (sent_frame DATA [1, 2, 3] 5) :: (py_exc, usmp_frame) outcome) = Raise e
           \<and> is_USMPError e)"
    by blast
  from unreliable_forged_frame_ignored [OF _ rd this, of "recv_start 0"] show ?thesis
    by (simp add: demo_session_def)
qed

text \<open>
  Over an unreliable transport a protocol violation does not end the session: the loop
  never raises a \<open>FrameError\<close> (an oversized fragment run, a bad REKEY), and it raises a
  \<open>SequenceError\<close> only when an authenticated frame carries the last sequence number.
\<close>

theorem unreliable_violation_survives:
  assumes "\<not> is_reliable ops" and "recv_step ops C l s = (Raise e, s')"
  shows "\<not> is_FrameError e
    \<and> (e = SequenceError \<longrightarrow> (\<exists>frame pt s1. read_verified ops C s = (Ret (Some (frame, pt)), s1)
          \<and> fr_seq frame \<ge> 0xFFFFFFFF))"
proof -
  obtain o1 s1 where rv: "read_verified ops C s = (o1, s1)" by fastforce
  have raised: "\<not> is_USMPError x" if "o1 = Raise x" for x
    using that rv assms(1)
    by (auto simp: read_verified_def catch_io_def drop_malformed_def split: prod.splits
        outcome.splits if_splits)
  have guarded: "\<not> is_FrameError x \<and> x \<noteq> SequenceError"
    if "guarded_dispatch ops C f p l s2 = (Raise x, s3)" for x f p s2 s3
    using that assms(1)
    by (auto simp: guarded_dispatch_def catch_io_def split: prod.splits outcome.splits if_splits)
  have accepted: "\<exists>s3. accept_seq ops n s2 = (Ret (), s3)" for n s2
    using assms(1) by (simp add: accept_seq_def bind_io_def)
  show ?thesis
  proof (cases "\<exists>frame pt. o1 = Ret (Some (frame, pt)) \<and> fr_seq frame < 0xFFFFFFFF")
    case True
    then obtain frame pt where o1: "o1 = Ret (Some (frame, pt))" "fr_seq frame < 0xFFFFFFFF" by blast
    obtain s3 where "accept_seq ops (fr_seq frame) s1 = (Ret (), s3)" using accepted by blast
    with assms(2) rv o1 have "guarded_dispatch ops C frame pt l s3 = (Raise e, s')"
      by (simp add: recv_step_def bind_io_def)
    with guarded show ?thesis by blast
  next
    case False
    with assms(2) rv raised show ?thesis
      by (auto simp: recv_step_def bind_io_def is_FrameError_USMPError is_FrameError_def is_USMPError_def
          split: outcome.splits option.splits)
  qed
qed

theorem unreliable_violation_survives_witness:
  "\<exists>e s'. recv_step (tcp_ops\<lparr>is_reliable := False\<rparr>) demo_crypto (recv_start 0)
       (demo_session (tcp_connected No_peer (0, []) [] True)) = (Raise e, s')
     \<and> \<not> is_FrameError e \<and> e \<noteq> SequenceError"
proof -
  let ?s = "demo_session (tcp_connected No_peer (0, []) [] True)"
  let ?ops = "tcp_ops\<lparr>is_reliable := False\<rparr>"
  have "op_read_frame ?ops True (s_transport ?s) = (Raise IncompleteReadError, s_transport ?s)"
    by (simp add: tcp_ops_def tcp_read_frame_def read_frame_def bind_io_def tcp_readexactly_def
        demo_session_def tcp_connected_def)
  then have rv: "read_verified ?ops demo_crypto ?s = (Raise IncompleteReadError, ?s)"
    by (simp add: read_verified_def bind_io_def catch_io_def on_transport_def drop_malformed_def
        is_USMPError_def)
  then have "recv_step ?ops demo_crypto (recv_start 0) ?s = (Raise IncompleteReadError, ?s)"
    by (simp add: recv_step_def bind_io_def)
  with unreliable_violation_survives [OF _ this] rv show ?thesis by auto
qed

end
