(* ===== verification/HandshakeSafety.thy ===== *)
theory HandshakeSafety
  imports Handshake Delivery
begin

text \<open>
  The handshake: over TCP both sides come out with matching sessions; over any transport each
  side accepts only a peer that has computed the HMAC of the transcript with the shared key;
  and the limiter sees exactly the failures that count.
\<close>

section \<open>Agreement over TCP\<close>

lemma tcp_read_handshake:
  assumes "sendable p s" and "tcp_in t = frame_bytes ty p s @ rest"
  shows "read_handshake tcp_ops t = (Ret (sent_frame ty p s), t\<lparr>tcp_in := rest\<rparr>)"
proof -
  have "read_frame tcp_readexactly False t = (Ret (sent_frame ty p s), tcp_advance (12 + length p) t)"
    by (rule tcp.read_frame_wire [OF assms])
  then show ?thesis
    using assms(2) by (simp add: read_handshake_def catch_io_def tcp_read_frame_def tcp_advance_def)
qed

lemma tcp_write_sendable:
  assumes "sendable p s" and "tcp_open t"
  shows "tcp_write_frame ty p s t = (Ret (), t\<lparr>tcp_out := tcp_out t @ frame_bytes ty p s\<rparr>)"
  using assms by (simp add: tcp_write_frame_cases encode_frame_sendable tcp_open_def)

lemma expect_sent_frame [simp]:
  "int (length p) \<in> set ls \<Longrightarrow> expect_frame ty ls (sent_frame ty p s) t = (Ret (), t)"
  by (simp add: expect_frame_def bind_io_def)

lemma resolve_psk_length: "resolve_psk src d = Inr psk \<Longrightarrow> 16 \<le> length psk"
  by (auto simp: resolve_psk_def bindE_def split: sum.splits py_value.splits if_splits)

lemma compute_hmac_length [simp]: "hmac_law C \<Longrightarrow> length (client_hmac C psk n d pc ps) = 32"
  "hmac_law C \<Longrightarrow> length (server_hmac C psk n d pc ps) = 32"
  by (simp_all add: client_hmac_def server_hmac_def compute_hmac_def hmac_law_def)

text \<open>
  The two sides over any transport: if the reads and writes of a run succeed one after the
  other with the right frames, the handshake returns the agreed keys.
\<close>

lemma server_exchange_run:
  assumes laws: "dh_law C" "hmac_law C"
    and lens: "length dev = 6" "length (r_nonce rnd) = 32" "length (r_session_id rnd) = 16"
      "length hello_rest \<in> {0, 16}"
    and psk: "resolve_psk src dev = Inr psk"
    and keys: "derive_session_keys C (r_private rnd) pub_c (r_nonce rnd) pub_c pub_s = Inr (k1, k2)"
    and pubs: "length pub_c = 32" "pub_s = x_public C (r_private rnd)"
    and r1: "read_handshake ops t = (Ret (sent_frame HELLO (dev @ pub_c @ hello_rest) n1), t1)"
    and w1: "op_write_frame ops CHALLENGE (r_nonce rnd @ pub_s) 0 t1 = (Ret (), t2)"
    and r2: "read_handshake ops t2
      = (Ret (sent_frame HELLO_ACK (client_hmac C psk (r_nonce rnd) dev pub_c pub_s) n2), t3)"
    and w2: "op_write_frame ops SESSION_OK
      (r_session_id rnd @ server_hmac C psk (r_nonce rnd) (r_session_id rnd) pub_c pub_s) 0
      (op_set_session_keys ops k2 k1 t3) = (Ret (), t4)"
  shows "server_exchange ops C rnd src t = (Ret (dev, k2, k1), t4)"
proof -
  let ?mac = "client_hmac C psk (r_nonce rnd) dev pub_c pub_s"
  have parts: "take 6 (dev @ pub_c @ hello_rest) = dev" "slice 6 38 (dev @ pub_c @ hello_rest) = pub_c"
    "take 32 ?mac = ?mac" "int (length (dev @ pub_c @ hello_rest)) \<in> set [38, 54]"
    using lens pubs(1) laws(2) by (auto simp: slice_def)
  show ?thesis
    using lens(1) pubs(1) psk keys parts laws(2)
    by (simp add: server_exchange_def bind_io_def r1 w1 r2 w2 generate_keypair_def Let_def
        pubs(2) [symmetric])
qed

definition fresh_info :: "bytes \<Rightarrow> bytes \<Rightarrow> bytes \<Rightarrow> bytes \<Rightarrow> session_info" where
  "fresh_info dev sid k1 k2 =
     \<lparr>device_id = dev, session_id = sid, tx_key = k1, rx_key = k2, tx_seq = 0, rx_seq = 0,
      rx_window_bitmap = 0, cipher_suite = AES256_GCM\<rparr>"

lemma fresh_info_simps [simp]:
  "device_id (fresh_info dev sid k1 k2) = dev" "session_id (fresh_info dev sid k1 k2) = sid"
  "tx_key (fresh_info dev sid k1 k2) = k1" "rx_key (fresh_info dev sid k1 k2) = k2"
  by (simp_all add: fresh_info_def)

lemma SessionInfo_fresh:
  "length dev = 6 \<Longrightarrow> length sid = 16 \<Longrightarrow> length k1 = 32 \<Longrightarrow> length k2 = 32 \<Longrightarrow>
   SessionInfo dev sid k1 k2 = Inr (fresh_info dev sid k1 k2) \<and> info_ok (fresh_info dev sid k1 k2)"
  by (simp add: SessionInfo_def session_info_post_init_def fresh_info_def info_ok_def)

lemma client_handshake_run:
  assumes laws: "dh_law C" "hmac_law C" "hkdf_law C"
    and lens: "length dev = 6" "length nonce = 32" "length sid = 16" "16 \<le> length psk"
    and keys: "derive_session_keys C priv_c pub_s nonce pub_c pub_s = Inr (k1, k2)"
    and pubs: "length pub_s = 32" "pub_c = x_public C priv_c"
    and w1: "op_write_frame ops HELLO (dev @ pub_c) 0 t = (Ret (), t1)"
    and r1: "read_challenge ops dev pub_c t1 = (Ret (sent_frame CHALLENGE (nonce @ pub_s) n1), t2)"
    and w2: "op_write_frame ops HELLO_ACK (client_hmac C psk nonce dev pub_c pub_s) 2 t2 = (Ret (), t3)"
    and r2: "read_handshake ops t3
      = (Ret (sent_frame SESSION_OK (sid @ server_hmac C psk nonce sid pub_c pub_s) n2), t4)"
  shows "client_handshake ops C priv_c psk (Some dev) t
    = (Ret (fresh_info dev sid k1 k2), op_set_session_keys ops k1 k2 t4)"
proof -
  let ?ok = "sid @ server_hmac C psk nonce sid pub_c pub_s"
  have klen: "length k1 = 32 \<and> length k2 = 32" by (rule derive_session_keys_length [OF laws(3) keys])
  have parts: "take 32 (nonce @ pub_s) = nonce" "slice 32 64 (nonce @ pub_s) = pub_s"
    "take 16 ?ok = sid" "slice 16 48 ?ok = server_hmac C psk nonce sid pub_c pub_s"
    using lens pubs(1) laws(2) by (simp_all add: slice_def)
  show ?thesis
    using lens pubs(1) keys parts laws(2) klen SessionInfo_fresh [of dev sid k1 k2]
    by (simp add: client_handshake_def bind_io_def w1 r1 w2 r2 generate_keypair_def
        Let_def throw_if_def pubs(2) [symmetric])
qed

lemma server_exchange_tcp:
  assumes laws: "dh_law C" "hmac_law C"
    and lens: "length dev = 6" "length (r_nonce rnd) = 32" "length (r_session_id rnd) = 16"
    and psk: "resolve_psk src dev = Inr psk"
    and keys: "derive_session_keys C (r_private rnd) pub_c (r_nonce rnd) pub_c pub_s = Inr (k1, k2)"
    and pubs: "length pub_c = 32" "pub_s = x_public C (r_private rnd)"
    and t: "tcp_open t" "tcp_in t = frame_bytes HELLO (dev @ pub_c) 0
        @ frame_bytes HELLO_ACK (client_hmac C psk (r_nonce rnd) dev pub_c pub_s) 2 @ rest"
  shows "server_exchange tcp_ops C rnd src t = (Ret (dev, k2, k1),
     t\<lparr>tcp_in := rest, tcp_out := tcp_out t @ frame_bytes CHALLENGE (r_nonce rnd @ pub_s) 0
        @ frame_bytes SESSION_OK
            (r_session_id rnd @ server_hmac C psk (r_nonce rnd) (r_session_id rnd) pub_c pub_s) 0\<rparr>)"
proof (rule server_exchange_run [OF laws lens _ psk keys pubs, where hello_rest = "[]" and ?n1.0 = 0 and ?n2.0 = 2])
  let ?mac = "client_hmac C psk (r_nonce rnd) dev pub_c pub_s"
  let ?ok = "r_session_id rnd @ server_hmac C psk (r_nonce rnd) (r_session_id rnd) pub_c pub_s"
  have len_s: "length pub_s = 32" using laws(1) pubs(2) by (simp add: dh_law_def)
  have ok: "sendable (dev @ pub_c) 0" "sendable ?mac 2" "sendable (r_nonce rnd @ pub_s) 0" "sendable ?ok 0"
    using lens pubs(1) len_s laws(2) by (simp_all add: sendable_def)
  let ?t1 = "t\<lparr>tcp_in := frame_bytes HELLO_ACK ?mac 2 @ rest\<rparr>"
  let ?t2 = "?t1\<lparr>tcp_out := tcp_out t @ frame_bytes CHALLENGE (r_nonce rnd @ pub_s) 0\<rparr>"
  let ?t3 = "t\<lparr>tcp_out := tcp_out t @ frame_bytes CHALLENGE (r_nonce rnd @ pub_s) 0, tcp_in := rest\<rparr>"
  show "read_handshake tcp_ops t = (Ret (sent_frame HELLO (dev @ pub_c @ []) 0), ?t1)"
    using tcp_read_handshake [OF ok(1)] t(2) by simp
  show "op_write_frame tcp_ops CHALLENGE (r_nonce rnd @ pub_s) 0 ?t1 = (Ret (), ?t2)"
    using tcp_write_sendable [OF ok(3), of ?t1 CHALLENGE] t(1) by (simp add: tcp_open_def)
  show "read_handshake tcp_ops ?t2 = (Ret (sent_frame HELLO_ACK ?mac 2), ?t3)"
    using tcp_read_handshake [OF ok(2), of ?t2 HELLO_ACK rest] by simp
  show "op_write_frame tcp_ops SESSION_OK ?ok 0 (op_set_session_keys tcp_ops k2 k1 ?t3) = (Ret (),
     t\<lparr>tcp_in := rest, tcp_out := tcp_out t @ frame_bytes CHALLENGE (r_nonce rnd @ pub_s) 0
        @ frame_bytes SESSION_OK ?ok 0\<rparr>)"
    using tcp_write_sendable [OF ok(4), of ?t3 SESSION_OK] t(1) by (simp add: tcp_open_def)
qed simp

lemma client_handshake_tcp:
  assumes laws: "dh_law C" "hmac_law C" "hkdf_law C"
    and lens: "length dev = 6" "length nonce = 32" "length sid = 16" "16 \<le> length psk"
    and keys: "derive_session_keys C priv_c pub_s nonce pub_c pub_s = Inr (k1, k2)"
    and pubs: "length pub_s = 32" "pub_c = x_public C priv_c"
    and t: "tcp_open t" "tcp_in t = frame_bytes CHALLENGE (nonce @ pub_s) 0
        @ frame_bytes SESSION_OK (sid @ server_hmac C psk nonce sid pub_c pub_s) 0 @ rest"
  shows "client_handshake tcp_ops C priv_c psk (Some dev) t =
     (Ret (fresh_info dev sid k1 k2),
      t\<lparr>tcp_out := tcp_out t @ frame_bytes HELLO (dev @ pub_c) 0
        @ frame_bytes HELLO_ACK (client_hmac C psk nonce dev pub_c pub_s) 2, tcp_in := rest\<rparr>)"
proof -
  let ?mac = "client_hmac C psk nonce dev pub_c pub_s"
  let ?ok = "sid @ server_hmac C psk nonce sid pub_c pub_s"
  have len_c: "length pub_c = 32" using laws(1) pubs(2) by (simp add: dh_law_def)
  have ok: "sendable (dev @ pub_c) 0" "sendable ?mac 2" "sendable (nonce @ pub_s) 0" "sendable ?ok 0"
    using lens pubs(1) len_c laws(2) by (simp_all add: sendable_def)
  let ?t1 = "t\<lparr>tcp_out := tcp_out t @ frame_bytes HELLO (dev @ pub_c) 0\<rparr>"
  let ?t2 = "?t1\<lparr>tcp_in := frame_bytes SESSION_OK ?ok 0 @ rest\<rparr>"
  let ?t3 = "t\<lparr>tcp_in := frame_bytes SESSION_OK ?ok 0 @ rest, tcp_out := tcp_out t
      @ frame_bytes HELLO (dev @ pub_c) 0 @ frame_bytes HELLO_ACK ?mac 2\<rparr>"
  have w1: "op_write_frame tcp_ops HELLO (dev @ pub_c) 0 t = (Ret (), ?t1)"
    using tcp_write_sendable [OF ok(1) t(1)] by simp
  have "read_handshake tcp_ops ?t1 = (Ret (sent_frame CHALLENGE (nonce @ pub_s) 0), ?t2)"
    using tcp_read_handshake [OF ok(3), of ?t1] t(2) by simp
  then have r1: "read_challenge tcp_ops dev pub_c ?t1 = (Ret (sent_frame CHALLENGE (nonce @ pub_s) 0), ?t2)"
    by (simp add: read_challenge_def bind_io_def)
  have w2: "op_write_frame tcp_ops HELLO_ACK ?mac 2 ?t2 = (Ret (), ?t3)"
    using tcp_write_sendable [OF ok(2), of ?t2] t(1) by (simp add: tcp_open_def)
  have r2: "read_handshake tcp_ops ?t3 = (Ret (sent_frame SESSION_OK ?ok 0), ?t3\<lparr>tcp_in := rest\<rparr>)"
    using tcp_read_handshake [OF ok(4), of ?t3 SESSION_OK rest] by simp
  from client_handshake_run [OF laws lens keys pubs w1 r1 w2 r2] show ?thesis by simp
qed

lemma server_handshake_body:
  assumes "op_monotonic ops (h_transport s) = (now, t)"
    and "\<not> locked_out (h_failed s) (limiter_key_of (op_peername ops (h_transport s)) ident) now"
    and "server_body ops C rnd src (limiter_key_of (op_peername ops (h_transport s)) ident)
           (s\<lparr>h_transport := t\<rparr>) = (Ret si, s')"
  shows "server_handshake ops C rnd ident src s = (Ret si, s')"
  using assms by (simp add: server_handshake_def Let_def bind_io_def on_link_def monotonic_def catch_io_def)

text \<open>The whole server side, on a connection whose input continues after the handshake.\<close>

lemma server_handshake_tcp:
  assumes laws: "dh_law C" "hmac_law C" "hkdf_law C"
    and lens: "length dev = 6" "length (r_nonce rnd) = 32" "length (r_session_id rnd) = 16"
    and psk: "resolve_psk src dev = Inr psk"
    and keys: "derive_session_keys C (r_private rnd) pub_c (r_nonce rnd) pub_c pub_s = Inr (k1, k2)"
    and pubs: "length pub_c = 32" "pub_s = x_public C (r_private rnd)"
    and t: "tcp_open t" "tcp_in t = frame_bytes HELLO (dev @ pub_c) 0
        @ frame_bytes HELLO_ACK (client_hmac C psk (r_nonce rnd) dev pub_c pub_s) 2 @ rest"
    and free: "\<not> locked_out d (limiter_key_of (tcp_peer t) ident) (fst (tick (tcp_clock t)))"
  shows "server_handshake tcp_ops C rnd ident src \<lparr>h_transport = t, h_failed = d\<rparr> =
     (Ret (fresh_info dev (r_session_id rnd) k2 k1),
      \<lparr>h_transport = t\<lparr>tcp_clock := snd (tick (tcp_clock t)), tcp_in := rest,
         tcp_out := tcp_out t @ frame_bytes CHALLENGE (r_nonce rnd @ pub_s) 0
           @ frame_bytes SESSION_OK
               (r_session_id rnd @ server_hmac C psk (r_nonce rnd) (r_session_id rnd) pub_c pub_s) 0\<rparr>,
       h_failed = AList.delete (limiter_key_of (tcp_peer t) ident) d\<rparr>)"
proof -
  let ?t = "t\<lparr>tcp_clock := snd (tick (tcp_clock t))\<rparr>"
  have clk: "tcp_monotonic t = (fst (tick (tcp_clock t)), ?t)"
    by (simp add: tcp_monotonic_def split: prod.split)
  have klen: "length k1 = 32 \<and> length k2 = 32" by (rule derive_session_keys_length [OF laws(3) keys])
  have x: "server_exchange tcp_ops C rnd src ?t = (Ret (dev, k2, k1), ?t\<lparr>tcp_in := rest,
      tcp_out := tcp_out ?t @ frame_bytes CHALLENGE (r_nonce rnd @ pub_s) 0 @ frame_bytes SESSION_OK
        (r_session_id rnd @ server_hmac C psk (r_nonce rnd) (r_session_id rnd) pub_c pub_s) 0\<rparr>)"
    by (rule server_exchange_tcp [OF laws(1,2) lens psk keys pubs]) (use t in \<open>simp_all add: tcp_open_def\<close>)
  show ?thesis
    using free clk lens klen
    by (intro server_handshake_body [of _ _ "fst (tick (tcp_clock t))" ?t])
      (simp_all add: server_body_def bind_io_def on_link_def x SessionInfo_fresh)
qed

lemma agreed_sessions:
  "length sid = 16 \<Longrightarrow> peers (fresh_info dev sid k1 k2) (fresh_info dev sid k2 k1)"
  by (simp add: peers_def paired_def fresh_info_def)

lemma handshake_agrees:
  assumes laws: "dh_law C" "hmac_law C" "hkdf_law C"
    and lens: "length dev = 6" "length (r_nonce rnd) = 32" "length (r_session_id rnd) = 16"
    and psk: "resolve_psk src dev = Inr psk"
    and keys: "derive_session_keys C priv_c (x_public C (r_private rnd)) (r_nonce rnd) (x_public C priv_c)
           (x_public C (r_private rnd)) = Inr (k1, k2)"
    and free: "\<not> locked_out d (limiter_key_of pc ident) now" "fst (tick clk) = now"
  shows "\<exists>c' s' ci si.
     client_handshake tcp_ops C priv_c psk (Some dev) (tcp_connected ps clk' (tcp_out (h_transport s')) eof)
       = (Ret ci, c')
   \<and> server_handshake tcp_ops C rnd ident src
       \<lparr>h_transport = tcp_connected pc clk (tcp_out c') eof, h_failed = d\<rparr> = (Ret si, s')
   \<and> peers ci si \<and> info_ok ci \<and> info_ok si
   \<and> device_id ci = dev \<and> device_id si = dev \<and> session_id si = r_session_id rnd
   \<and> h_failed s' = AList.delete (limiter_key_of pc ident) d
   \<and> tcp_in c' = [] \<and> tcp_in (h_transport s') = []"
proof -
  let ?pc = "x_public C priv_c" and ?ps = "x_public C (r_private rnd)"
  let ?sid = "r_session_id rnd" and ?n = "r_nonce rnd"
  let ?ci = "fresh_info dev ?sid k1 k2" and ?si = "fresh_info dev ?sid k2 k1"
  let ?mc = "frame_bytes HELLO (dev @ ?pc) 0 @ frame_bytes HELLO_ACK (client_hmac C psk ?n dev ?pc ?ps) 2"
  let ?ms = "frame_bytes CHALLENGE (?n @ ?ps) 0
      @ frame_bytes SESSION_OK (?sid @ server_hmac C psk ?n ?sid ?pc ?ps) 0"
  let ?c = "tcp_connected ps clk' ?ms eof" and ?t = "tcp_connected pc clk ?mc eof"
  have pub: "length ?pc = 32" "length ?ps = 32" using laws(1) by (simp_all add: dh_law_def)
  have keys': "derive_session_keys C (r_private rnd) ?pc ?n ?pc ?ps = Inr (k1, k2)"
    using keys laws(1) by (simp add: derive_session_keys_def dh_law_def)
  have klen: "length k1 = 32 \<and> length k2 = 32" by (rule derive_session_keys_length [OF laws(3) keys])
  have c: "client_handshake tcp_ops C priv_c psk (Some dev) ?c = (Ret ?ci, ?c\<lparr>tcp_out := ?mc, tcp_in := []\<rparr>)"
    using client_handshake_tcp [OF laws lens(1,2,3) resolve_psk_length [OF psk] keys pub(2) refl, of ?c "[]"]
    by (simp add: tcp_connected_def tcp_open_def)
  let ?s2 = "\<lparr>h_transport = ?t\<lparr>tcp_clock := snd (tick clk), tcp_in := [], tcp_out := ?ms\<rparr>,
      h_failed = AList.delete (limiter_key_of pc ident) d\<rparr>"
  have s: "server_handshake tcp_ops C rnd ident src \<lparr>h_transport = ?t, h_failed = d\<rparr> = (Ret ?si, ?s2)"
    using server_handshake_tcp [OF laws lens psk keys' pub(1) refl, of ?t "[]" d ident] free
    by (simp add: tcp_connected_def tcp_open_def)
  from c s agreed_sessions [OF lens(3)] lens klen SessionInfo_fresh show ?thesis
    by (intro exI [of _ "?c\<lparr>tcp_out := ?mc, tcp_in := []\<rparr>"] exI [of _ ?s2] exI [of _ ?ci] exI [of _ ?si]) simp
qed

text \<open>
  C1: the handshake over TCP agrees: when each side's input is what the other side writes, the
  server holds the client's pre-shared key for its device, and the peer is not locked out,
  both return, with the same session and device identifiers and the same two keys in
  opposite roles, ready to exchange messages; the server forgets the peer's failures.
\<close>

theorem handshake_agreement_tcp:
  assumes "dh_law C" and "hmac_law C" and "hkdf_law C"
    and "length dev = 6" and "length (r_nonce rnd) = 32" and "length (r_session_id rnd) = 16"
    and "resolve_psk src dev = Inr psk"
    and "derive_session_keys C priv_c (x_public C (r_private rnd)) (r_nonce rnd) (x_public C priv_c)
           (x_public C (r_private rnd)) = Inr (k1, k2)"
    and "\<not> locked_out d (limiter_key_of pc ident) now" and "fst (tick clk) = now"
  shows "\<exists>c' s' ci si.
     client_handshake tcp_ops C priv_c psk (Some dev) (tcp_connected ps clk' (tcp_out (h_transport s')) eof)
       = (Ret ci, c')
   \<and> server_handshake tcp_ops C rnd ident src
       \<lparr>h_transport = tcp_connected pc clk (tcp_out c') eof, h_failed = d\<rparr> = (Ret si, s')
   \<and> peers ci si \<and> info_ok ci \<and> info_ok si
   \<and> device_id ci = dev \<and> device_id si = dev \<and> session_id si = r_session_id rnd
   \<and> h_failed s' = AList.delete (limiter_key_of pc ident) d
   \<and> tcp_in c' = [] \<and> tcp_in (h_transport s') = []"
  using assms by (rule handshake_agrees)

definition demo_random :: server_random where
  "demo_random = \<lparr>r_private = [7], r_nonce = replicate 32 1, r_session_id = replicate 16 2\<rparr>"

lemma demo_shared:
  "x_exchange demo_crypto [5] (x_public demo_crypto [7]) = Inr (12 # replicate 31 0)"
  by (simp add: demo_crypto_def pad32_def)

lemma demo_shared_nonzero: "(12 :: byte) # replicate 31 0 \<noteq> replicate n 0"
  by (cases n) auto

theorem handshake_agreement_tcp_witness:
  "\<exists>c' s' ci si.
     client_handshake tcp_ops demo_crypto [5] (replicate 16 9) (Some (replicate 6 3))
       (tcp_connected No_peer (0, []) (tcp_out (h_transport s')) False) = (Ret ci, c')
   \<and> server_handshake tcp_ops demo_crypto demo_random 0 (Psk_bytes (replicate 16 9))
       \<lparr>h_transport = tcp_connected (Peer_addr ''h'' 1) (0, []) (tcp_out c') False, h_failed = []\<rparr> = (Ret si, s')
   \<and> peers ci si"
proof -
  obtain k1 k2 where keys: "derive_session_keys demo_crypto [5] (x_public demo_crypto [7]) (replicate 32 1)
      (x_public demo_crypto [5]) (x_public demo_crypto [7]) = Inr (k1, k2)"
    using demo_shared demo_shared_nonzero by (simp add: derive_session_keys_def Let_def)
  have "resolve_psk (Psk_bytes (replicate 16 9)) (replicate 6 3) = Inr (replicate 16 9)"
    by (simp add: resolve_psk_def find_psk_def)
  from handshake_agreement_tcp [of demo_crypto "replicate 6 3" demo_random _ _ _ k1 k2 "[]"
      "Peer_addr ''h'' 1" 0 0 "(0, [])", OF _ _ _ _ _ _ this] keys
  show ?thesis by (fastforce simp: demo_random_def locked_out_def)
qed

section \<open>Authentication\<close>

lemma read_handshake_Ret:
  "read_handshake ops t = (Ret f, t') \<longleftrightarrow> op_read_frame ops False t = (Ret f, t')"
  by (auto simp: read_handshake_def catch_io_def split: prod.splits outcome.splits)

lemma expect_frame_Ret:
  "expect_frame ty ls f t = (Ret u, t') \<longleftrightarrow> t' = t \<and> fr_type f = ty \<and> fr_length f \<in> set ls"
  by (auto simp: expect_frame_def bind_io_def throw_if_def)

lemma lift_sum_Ret: "lift_sum r t = (Ret x, t') \<longleftrightarrow> t' = t \<and> r = Inr x"
  by (auto simp: lift_sum_def split: sum.split)

lemma throw_if_Ret: "throw_if b e t = (Ret u, t') \<longleftrightarrow> t' = t \<and> \<not> b"
  by (auto simp: throw_if_def)

lemmas ret_simps = bind_io_Ret read_handshake_Ret expect_frame_Ret lift_sum_Ret throw_if_Ret

lemma server_exchange_Ret:
  assumes "server_exchange ops C rnd src t = (Ret (dev, tx, rx), t')"
  shows "\<exists>hello ack psk t1 t2 t3 pub_c.
     op_read_frame ops False t = (Ret hello, t1) \<and> fr_type hello = HELLO
   \<and> op_write_frame ops CHALLENGE (r_nonce rnd @ x_public C (r_private rnd)) 0 t1 = (Ret (), t2)
   \<and> op_read_frame ops False t2 = (Ret ack, t3) \<and> fr_type ack = HELLO_ACK
   \<and> dev = take 6 (fr_payload hello) \<and> pub_c = slice 6 38 (fr_payload hello)
   \<and> resolve_psk src dev = Inr psk
   \<and> take 32 (fr_payload ack)
     = client_hmac C psk (r_nonce rnd) dev pub_c (x_public C (r_private rnd))
   \<and> derive_session_keys C (r_private rnd) pub_c (r_nonce rnd) pub_c (x_public C (r_private rnd))
     = Inr (rx, tx)"
  using assms
  by (auto simp: server_exchange_def ret_simps Let_def generate_keypair_def split: prod.splits)

text \<open>
  What a device has to show in a handshake that begins on the transport \<open>t\<close>: the first frame read from
  it is a HELLO that names the device and holds its public key, and the next one, read after the
  CHALLENGE has been written, is a HELLO_ACK with the HMAC of this challenge under the pre-shared key
  of that device.
\<close>

definition proved_psk ::
  "'t transport_ops \<Rightarrow> crypto \<Rightarrow> server_random \<Rightarrow> psk_source \<Rightarrow> 't \<Rightarrow> session_info \<Rightarrow> bool" where
  "proved_psk ops C rnd src t info \<longleftrightarrow>
     (\<exists>hello ack psk t1 t2 t3 pub_c.
        op_read_frame ops False t = (Ret hello, t1) \<and> fr_type hello = HELLO
      \<and> op_write_frame ops CHALLENGE (r_nonce rnd @ x_public C (r_private rnd)) 0 t1 = (Ret (), t2)
      \<and> op_read_frame ops False t2 = (Ret ack, t3) \<and> fr_type ack = HELLO_ACK
      \<and> device_id info = take 6 (fr_payload hello) \<and> pub_c = slice 6 38 (fr_payload hello)
      \<and> resolve_psk src (device_id info) = Inr psk
      \<and> take 32 (fr_payload ack)
        = client_hmac C psk (r_nonce rnd) (device_id info) pub_c (x_public C (r_private rnd))
      \<and> derive_session_keys C (r_private rnd) pub_c (r_nonce rnd) pub_c (x_public C (r_private rnd))
        = Inr (rx_key info, tx_key info)
      \<and> session_id info = r_session_id rnd)"

text \<open>The transport after the clock has been read, which is what the handshake does first.\<close>

abbreviation clock_read :: "'t transport_ops \<Rightarrow> 't \<Rightarrow> 't" where
  "clock_read ops t \<equiv> snd (op_monotonic ops t)"

lemma server_handshake_Ret:
  assumes "server_handshake ops C rnd ident src s = (Ret info, s')"
  shows "proved_psk ops C rnd src (clock_read ops (h_transport s)) info
   \<and> \<not> locked_out (h_failed s) (limiter_key_of (op_peername ops (h_transport s)) ident)
        (fst (op_monotonic ops (h_transport s)))"
proof -
  let ?k = "limiter_key_of (op_peername ops (h_transport s)) ident"
  obtain now t where clk: "op_monotonic ops (h_transport s) = (now, t)" by fastforce
  have free: "\<not> locked_out (h_failed s) ?k now"
    using assms clk by (auto simp: server_handshake_def Let_def on_link_def monotonic_def ret_simps)
  obtain s2 where "server_body ops C rnd src ?k (s\<lparr>h_transport := t\<rparr>) = (Ret info, s2)"
    using assms clk free
    by (auto simp: server_handshake_def Let_def on_link_def monotonic_def bind_io_def catch_io_def
        split: prod.splits outcome.splits if_splits)
  then obtain dev tx rx t' where x: "server_exchange ops C rnd src t = (Ret (dev, tx, rx), t')"
    and info: "SessionInfo dev (r_session_id rnd) tx rx = Inr info"
    by (auto simp: server_body_def ret_simps on_link_def split: prod.splits)
  have "device_id info = dev" "session_id info = r_session_id rnd" "tx_key info = tx" "rx_key info = rx"
    using info by (auto simp: SessionInfo_def session_info_post_init_def split: if_splits)
  with server_exchange_Ret [OF x] free clk show ?thesis by (simp add: proved_psk_def)
qed

text \<open>
  C12: the server authenticates: it returns a session only if the first frame it read from the
  transport is a HELLO and the frame it read after writing its CHALLENGE is a HELLO_ACK that
  holds the HMAC, under the pre-shared key registered for the device named in that HELLO, of the
  server's own fresh nonce, that device and both public keys; the session's keys are
  those derived with the client's public key of that same HELLO, and the peer was not locked
  out when the handshake began.
\<close>

theorem server_authenticates:
  assumes "server_handshake ops C rnd ident src s = (Ret info, s')"
  shows "\<exists>hello ack psk t1 t2 t3 pub_c.
     op_read_frame ops False (clock_read ops (h_transport s)) = (Ret hello, t1) \<and> fr_type hello = HELLO
   \<and> op_write_frame ops CHALLENGE (r_nonce rnd @ x_public C (r_private rnd)) 0 t1 = (Ret (), t2)
   \<and> op_read_frame ops False t2 = (Ret ack, t3) \<and> fr_type ack = HELLO_ACK
   \<and> device_id info = take 6 (fr_payload hello) \<and> pub_c = slice 6 38 (fr_payload hello)
   \<and> resolve_psk src (device_id info) = Inr psk
   \<and> take 32 (fr_payload ack)
     = client_hmac C psk (r_nonce rnd) (device_id info) pub_c (x_public C (r_private rnd))
   \<and> derive_session_keys C (r_private rnd) pub_c (r_nonce rnd) pub_c (x_public C (r_private rnd))
     = Inr (rx_key info, tx_key info)
   \<and> session_id info = r_session_id rnd
   \<and> \<not> locked_out (h_failed s) (limiter_key_of (op_peername ops (h_transport s)) ident)
        (fst (op_monotonic ops (h_transport s)))"
  using server_handshake_Ret [OF assms] unfolding proved_psk_def by blast

text \<open>
  C13: the client authenticates: it returns a session only if the last frame it read is a
  SESSION_OK holding, after the session identifier, the HMAC under its own pre-shared key of
  the nonce and public key of the CHALLENGE it read, that identifier and its own public key.
\<close>

theorem client_authenticates:
  assumes "client_handshake ops C rnd psk dev t = (Ret info, t')"
  shows "\<exists>challenge ok t1 t2 t3 t4 nonce pub_s.
     op_read_frame ops False t1 = (Ret challenge, t2) \<and> fr_type challenge = CHALLENGE
   \<and> op_read_frame ops False t3 = (Ret ok, t4) \<and> fr_type ok = SESSION_OK
   \<and> nonce = take 32 (fr_payload challenge) \<and> pub_s = slice 32 64 (fr_payload challenge)
   \<and> dev = Some (device_id info) \<and> session_id info = take 16 (fr_payload ok)
   \<and> slice 16 48 (fr_payload ok)
     = server_hmac C psk nonce (session_id info) (x_public C rnd) pub_s
   \<and> derive_session_keys C rnd pub_s nonce (x_public C rnd) pub_s = Inr (tx_key info, rx_key info)
   \<and> 16 \<le> length psk"
proof -
  obtain d where d: "dev = Some d" "16 \<le> length psk"
    using assms by (cases dev) (auto simp: client_handshake_def ret_simps)
  have rc: "\<exists>t1. op_read_frame ops False t1 = (Ret f, t3)"
    if "read_challenge ops d pub t2 = (Ret f, t3)" for f pub t2 t3
    using that by (auto simp: read_challenge_def ret_simps Let_def split: if_splits)
  from assms d obtain challenge t1 t2 t3 t4 ok k1 k2 where
    "op_read_frame ops False t1 = (Ret challenge, t2)" "fr_type challenge = CHALLENGE"
    "op_read_frame ops False t3 = (Ret ok, t4)" "fr_type ok = SESSION_OK"
    "derive_session_keys C rnd (slice 32 64 (fr_payload challenge)) (take 32 (fr_payload challenge))
       (x_public C rnd) (slice 32 64 (fr_payload challenge)) = Inr (k1, k2)"
    "server_hmac C psk (take 32 (fr_payload challenge)) (take 16 (fr_payload ok)) (x_public C rnd)
       (slice 32 64 (fr_payload challenge)) = slice 16 48 (fr_payload ok)"
    "SessionInfo d (take 16 (fr_payload ok)) k1 k2 = Inr info"
    by (auto simp: client_handshake_def ret_simps Let_def generate_keypair_def dest!: rc
        split: prod.splits)
  moreover from this(7) have "device_id info = d" "session_id info = take 16 (fr_payload ok)"
    "tx_key info = k1" "rx_key info = k2"
    by (auto simp: SessionInfo_def session_info_post_init_def split: if_splits)
  ultimately show ?thesis using d by (metis option.inject)
qed

lemma demo_handshake:
  "\<exists>c' s' ci si.
     client_handshake tcp_ops demo_crypto [5] (replicate 16 9) (Some (replicate 6 3))
       (tcp_connected No_peer (0, []) (tcp_out (h_transport s')) False) = (Ret ci, c')
   \<and> server_handshake tcp_ops demo_crypto demo_random 0 (Psk_bytes (replicate 16 9))
       \<lparr>h_transport = tcp_connected (Peer_addr ''h'' 1) (0, []) (tcp_out c') False, h_failed = []\<rparr> = (Ret si, s')
   \<and> peers ci si"
proof -
  obtain k1 k2 where keys: "derive_session_keys demo_crypto [5] (x_public demo_crypto [7]) (replicate 32 1)
      (x_public demo_crypto [5]) (x_public demo_crypto [7]) = Inr (k1, k2)"
    using demo_shared demo_shared_nonzero by (simp add: derive_session_keys_def Let_def)
  have "resolve_psk (Psk_bytes (replicate 16 9)) (replicate 6 3) = Inr (replicate 16 9)"
    by (simp add: resolve_psk_def find_psk_def)
  from handshake_agrees [of demo_crypto "replicate 6 3" demo_random _ _ _ k1 k2 "[]"
      "Peer_addr ''h'' 1" 0 0 "(0, [])", OF _ _ _ _ _ _ this] keys
  show ?thesis by (fastforce simp: demo_random_def locked_out_def)
qed

theorem server_authenticates_witness:
  "\<exists>input s' si ack psk pub_c. server_handshake tcp_ops demo_crypto demo_random 0 (Psk_bytes (replicate 16 9))
       \<lparr>h_transport = tcp_connected (Peer_addr ''h'' 1) (0, []) input False, h_failed = []\<rparr> = (Ret si, s')
   \<and> take 32 (fr_payload (ack :: usmp_frame)) = client_hmac demo_crypto psk (r_nonce demo_random) (device_id si)
        pub_c (x_public demo_crypto (r_private demo_random))"
proof -
  obtain input si s' where "server_handshake tcp_ops demo_crypto demo_random 0 (Psk_bytes (replicate 16 9))
       \<lparr>h_transport = tcp_connected (Peer_addr ''h'' 1) (0, []) input False, h_failed = []\<rparr> = (Ret si, s')"
    using demo_handshake by blast
  moreover from server_authenticates [OF this] obtain ack psk pub_c where
    "take 32 (fr_payload (ack :: usmp_frame)) = client_hmac demo_crypto psk (r_nonce demo_random) (device_id si)
        pub_c (x_public demo_crypto (r_private demo_random))" by blast
  ultimately show ?thesis by blast
qed

theorem client_authenticates_witness:
  "\<exists>input c' ci ok nonce pub_s. client_handshake tcp_ops demo_crypto [5] (replicate 16 9) (Some (replicate 6 3))
       (tcp_connected No_peer (0, []) input False) = (Ret ci, c')
   \<and> slice 16 48 (fr_payload (ok :: usmp_frame)) = server_hmac demo_crypto (replicate 16 9) nonce (session_id ci)
        (x_public demo_crypto [5]) pub_s"
proof -
  obtain input ci c' where "client_handshake tcp_ops demo_crypto [5] (replicate 16 9) (Some (replicate 6 3))
       (tcp_connected No_peer (0, []) input False) = (Ret ci, c')"
    using demo_handshake by blast
  moreover from client_authenticates [OF this] obtain ok nonce pub_s where
    "slice 16 48 (fr_payload (ok :: usmp_frame)) = server_hmac demo_crypto (replicate 16 9) nonce (session_id ci)
        (x_public demo_crypto [5]) pub_s" by blast
  ultimately show ?thesis by blast
qed

section \<open>Which failures count\<close>

lemma server_handshake_open:
  assumes "op_monotonic ops (h_transport s) = (now, t)"
    and "limiter_key_of (op_peername ops (h_transport s)) ident = k"
    and "\<not> locked_out (h_failed s) k now"
  shows "server_handshake ops C rnd ident src s =
    catch_io (server_body ops C rnd src k)
        (\<lambda>e. if counted_failure e then bind_io (record_failure ops k) (\<lambda>_. throw e) else throw e)
        (s\<lparr>h_transport := t\<rparr>)"
  using assms by (simp add: server_handshake_def Let_def bind_io_def on_link_def monotonic_def)

lemma server_body_failed:
  assumes "server_body ops C rnd src k s = (out, s1)"
  shows "(case out of
      Ret _ \<Rightarrow> h_failed s1 = AList.delete k (h_failed s)
    | Blocked \<Rightarrow> h_failed s1 = h_failed s
    | Raise e \<Rightarrow> h_failed s1 = h_failed s
        \<or> e = ValueError \<and> h_failed s1 = AList.delete k (h_failed s))"
  using assms
  by (auto simp: server_body_def bind_io_def on_link_def lift_sum_def SessionInfo_def
      session_info_post_init_def split: prod.splits outcome.splits if_splits)

lemma record_failure_cases:
  "record_failure ops k s =
    (case op_monotonic ops (h_transport s) of (now, t) \<Rightarrow>
       case record_failed_handshake k now (h_failed s) of
         Inl e \<Rightarrow> (Raise e, s\<lparr>h_transport := t\<rparr>)
       | Inr d \<Rightarrow> (Ret (), s\<lparr>h_transport := t, h_failed := d\<rparr>))"
  by (simp add: record_failure_def bind_io_def on_link_def monotonic_def split: prod.split sum.split)

lemma record_Inl: "record_failed_handshake k now d = Inl e \<Longrightarrow> e = OverflowError"
  by (auto simp: record_failed_handshake_def new_lockout_def float_pow2_def Let_def bindE_Inl
      split: if_splits)

text \<open>
  C16: the limiter's bookkeeping: a peer that is locked out is refused before a single frame is
  read or written; a handshake that succeeds removes the peer's entry; a transport failure
  leaves the table as it was; and every protocol, authentication or cryptographic failure is
  recorded for the peer's address before it is raised.
\<close>

theorem server_handshake_accounting:
  assumes "server_handshake ops C rnd ident src s = (out, s')"
    and "op_monotonic ops (h_transport s) = (now, t)"
    and "k = limiter_key_of (op_peername ops (h_transport s)) ident"
  shows "(locked_out (h_failed s) k now \<longrightarrow> out = Raise HandshakeError \<and> s' = s\<lparr>h_transport := t\<rparr>)
    \<and> (\<forall>info. out = Ret info \<longrightarrow> h_failed s' = AList.delete k (h_failed s))
    \<and> (\<forall>e. out = Raise e \<and> (is_OSError e \<or> is_EOFError e) \<longrightarrow> h_failed s' = h_failed s)
    \<and> (\<forall>e. out = Raise e \<and> counted_failure e \<and> \<not> locked_out (h_failed s) k now \<longrightarrow>
         (\<exists>now' d. d \<in> {h_failed s, AList.delete k (h_failed s)}
            \<and> record_failed_handshake k now' d = Inr (h_failed s')))"
proof (cases "locked_out (h_failed s) k now")
  case True
  then have "out = Raise HandshakeError \<and> s' = s\<lparr>h_transport := t\<rparr>"
    using assms by (simp add: server_handshake_def Let_def bind_io_def on_link_def monotonic_def throw_if_def)
  with True show ?thesis by (simp add: is_OSError_def is_EOFError_def)
next
  case False
  obtain o1 s1 where body: "server_body ops C rnd src k (s\<lparr>h_transport := t\<rparr>) = (o1, s1)" by fastforce
  note tbl = server_body_failed [OF body]
  have run: "catch_io (server_body ops C rnd src k)
        (\<lambda>e. if counted_failure e then bind_io (record_failure ops k) (\<lambda>_. throw e) else throw e)
        (s\<lparr>h_transport := t\<rparr>) = (out, s')"
    using server_handshake_open [OF assms(2) assms(3) [symmetric] False, of C rnd src] assms(1) by simp
  have val: "counted_failure ValueError" by (simp add: counted_failure_def is_OSError_def is_EOFError_def)
  show ?thesis
  proof (cases o1)
    case (Ret info)
    with run body have "out = Ret info" "s' = s1" by (auto simp: catch_io_def)
    with tbl Ret False show ?thesis by simp
  next
    case Blocked
    with run body have "out = Blocked" "s' = s1" by (auto simp: catch_io_def)
    with False show ?thesis by simp
  next
    case (Raise e)
    show ?thesis
    proof (cases "counted_failure e")
      case True
      obtain now' t' where clk: "op_monotonic ops (h_transport s1) = (now', t')" by fastforce
      show ?thesis
      proof (cases "record_failed_handshake k now' (h_failed s1)")
        case (Inl x)
        with run body Raise True clk record_Inl [OF Inl] False show ?thesis
          by (simp add: catch_io_def bind_io_def record_failure_cases)
            (auto simp: counted_failure_def is_OSError_def is_EOFError_def is_USMPError_def)
      next
        case (Inr d)
        with run body Raise True clk have "out = Raise e" "h_failed s' = d"
          by (auto simp: catch_io_def bind_io_def record_failure_cases)
        with tbl Raise Inr True False show ?thesis
          by (auto simp: counted_failure_def)
      qed
    next
      case False
      with run body Raise have "out = Raise e" "s' = s1" by (auto simp: catch_io_def)
      moreover have "h_failed s1 = h_failed s" using tbl Raise False val by auto
      ultimately show ?thesis using False \<open>\<not> locked_out (h_failed s) k now\<close> by simp
    qed
  qed
qed

text \<open>What a handshake, whatever its outcome, may do to the table: forget the peer, then record it.\<close>

definition limiter_move :: "failed_table \<Rightarrow> failed_table \<Rightarrow> bool" where
  "limiter_move d d' \<longleftrightarrow>
     (\<exists>k d1. d1 \<in> {d, AList.delete k d} \<and> (d' = d1 \<or> (\<exists>now. record_failed_handshake k now d1 = Inr d')))"

lemma limiter_move_refl [simp]: "limiter_move d d"
  by (auto simp: limiter_move_def)

lemma server_handshake_table:
  assumes "server_handshake ops C rnd ident src s = (out, s')"
  shows "limiter_move (h_failed s) (h_failed s')"
proof -
  let ?k = "limiter_key_of (op_peername ops (h_transport s)) ident"
  obtain now t where clk: "op_monotonic ops (h_transport s) = (now, t)" by fastforce
  show ?thesis
  proof (cases "locked_out (h_failed s) ?k now")
    case True
    with assms clk have "h_failed s' = h_failed s"
      by (auto simp: server_handshake_def Let_def bind_io_def on_link_def monotonic_def throw_if_def)
    then show ?thesis by simp
  next
    case False
    obtain o1 s1 where b: "server_body ops C rnd src ?k (s\<lparr>h_transport := t\<rparr>) = (o1, s1)" by fastforce
    have "h_failed s1 \<in> {h_failed s, AList.delete ?k (h_failed s)}"
      using server_body_failed [OF b] by (cases o1) auto
    moreover have "h_failed s' = h_failed s1
        \<or> (\<exists>now. record_failed_handshake ?k now (h_failed s1) = Inr (h_failed s'))"
      using assms b
      by (cases o1) (auto simp: server_handshake_open [OF clk refl False] catch_io_def bind_io_def
          record_failure_cases split: prod.splits sum.splits if_splits)
    ultimately show ?thesis unfolding limiter_move_def by blast
  qed
qed

text \<open>
  A clean disconnect counts as a failure, although the handler of transport failures says
  it does not: a TCP peer that connects and closes before it sends anything makes the
  handshake raise \<open>HandshakeError\<close>, not \<open>IncompleteReadError\<close>, so the limiter records it,
  and the fifth time the address is locked out.
\<close>

theorem clean_disconnect_counts:
  assumes "h_transport s = tcp_connected (Peer_addr host port) (now, []) [] True"
    and "map_of (h_failed s) host = Some (fails, until, last_attempt)"
    and "0 \<le> fails" and "fails < 1028" and "until \<le> now" and "dict_ok (h_failed s)"
  shows "\<exists>s'. server_handshake tcp_ops C rnd ident src s = (Raise HandshakeError, s')
    \<and> (\<exists>l. map_of (h_failed s') host = Some (fails + 1, l, now))
    \<and> (4 \<le> fails \<longrightarrow> locked_out (h_failed s') host now)"
proof -
  let ?k = "host" and ?t = "h_transport s"
  have clk: "op_monotonic tcp_ops ?t = (now, ?t)"
    using assms(1) by (simp add: tcp_monotonic_def tcp_connected_def)
  have key: "limiter_key_of (op_peername tcp_ops ?t) ident = host"
    using assms(1) by (simp add: tcp_connected_def limiter_key_of_def)
  have free: "\<not> locked_out (h_failed s) host now" using assms(2,5) by (simp add: locked_out_def)
  have "read_handshake tcp_ops ?t = (Raise HandshakeError, ?t)"
    using assms(1)
    by (simp add: read_handshake_def tcp_read_frame_def read_frame_def bind_io_def catch_io_def
        tcp_readexactly_def tcp_connected_def)
  then have body: "server_body tcp_ops C rnd src host s = (Raise HandshakeError, s)"
    by (simp add: server_body_def bind_io_def on_link_def server_exchange_def)
  have "\<exists>l. new_lockout (fails + 1) now = Inr l"
    using assms(4) by (simp add: new_lockout_def float_pow2_def)
  then obtain d where d: "record_failed_handshake host now (h_failed s) = Inr d"
    using assms(2) by (auto simp: record_failed_handshake_def Let_def)
  have "server_handshake tcp_ops C rnd ident src s = (Raise HandshakeError, s\<lparr>h_failed := d\<rparr>)"
    using server_handshake_open [OF clk key free, of C rnd src] body clk d
    by (simp add: catch_io_def counted_failure_def is_OSError_def is_EOFError_def is_USMPError_def
        bind_io_def record_failure_cases)
  moreover obtain l where l: "new_lockout (fails + 1) now = Inr l" "map_of d host = Some (fails + 1, l, now)"
    using record_own_entry [OF assms(6) d] assms(2) by auto
  moreover have "4 \<le> fails \<longrightarrow> locked_out d host now"
    using l new_lockout_range [OF l(1)] by (auto simp: locked_out_def)
  ultimately show ?thesis by (intro exI [of _ "s\<lparr>h_failed := d\<rparr>"]) auto
qed

theorem clean_disconnect_counts_witness:
  "\<exists>s'. server_handshake tcp_ops demo_crypto demo_random 0 (Psk_bytes (replicate 16 9))
      \<lparr>h_transport = tcp_connected (Peer_addr ''h'' 1) (50, []) [] True, h_failed = [(''h'', 4, 0, 49)]\<rparr>
      = (Raise HandshakeError, s') \<and> locked_out (h_failed s') ''h'' 50"
  using clean_disconnect_counts [of "\<lparr>h_transport = tcp_connected (Peer_addr ''h'' 1) (50, []) [] True,
      h_failed = [(''h'', 4, 0, 49)]\<rparr>" "''h''" 1 50 4 0 49 demo_crypto demo_random 0
      "Psk_bytes (replicate 16 9)"]
  by (auto simp: dict_ok_def)

theorem server_handshake_accounting_witness:
  "\<exists>out s'. server_handshake tcp_ops demo_crypto demo_random 0 (Psk_bytes [])
      \<lparr>h_transport = tcp_connected (Peer_addr ''h'' 1) (50, []) [] True, h_failed = [(''h'', 5, 60, 49)]\<rparr>
      = (out, s') \<and> out = Raise HandshakeError"
proof -
  let ?s = "\<lparr>h_transport = tcp_connected (Peer_addr ''h'' 1) (50, []) [] True, h_failed = [(''h'', 5, 60, 49)]\<rparr>"
  obtain out s' where hs: "server_handshake tcp_ops demo_crypto demo_random 0 (Psk_bytes []) ?s = (out, s')"
    by fastforce
  obtain t where clk: "op_monotonic tcp_ops (h_transport ?s) = (50, t)"
    by (simp add: tcp_monotonic_def tcp_connected_def)
  from server_handshake_accounting [OF hs clk refl] hs show ?thesis
    by (simp add: locked_out_def tcp_connected_def limiter_key_of_def)
qed

end
