(* ===== verification/Connection.thy ===== *)
theory Connection
  imports ServerSafety HandshakeSafety
begin

text \<open>
  \<open>_on_transport_connect\<close> of \<open>_server.py\<close> as one coroutine: admission, handshake,
  registration, the session handler, the \<open>except\<close> clauses and the \<open>finally\<close> block.  The
  handler is the application's: an argument, any coroutine on the session.  This is the run
  in which no other task gets a turn; that it is a path of the step relation of
  \<open>ServerSafety\<close>, in which the tasks interleave, is what \<open>tcp_connection_refines\<close> and
  \<open>udp_connection_refines\<close> show.  The watchdog task is cancelled in the \<open>finally\<close> block, which
  leaves no trace in the state.
\<close>

section \<open>The coroutine\<close>

record 't connection =
  k_server :: server
  k_transport :: 't
  k_decremented :: bool

type_synonym 't session_handler = "('t session, py_exc, unit) io"

text \<open>\<open>await asyncio.wait_for(self._run_handshake(transport), \<dots>)\<close>.\<close>

definition connection_handshake ::
  "'t transport_ops \<Rightarrow> crypto \<Rightarrow> server_random \<Rightarrow> int \<Rightarrow> psk_source \<Rightarrow> rat \<Rightarrow>
   ('t connection, py_exc, session_info) io" where
  "connection_handshake ops C rnd ident psk timeout k =
     (case run_handshake ops C rnd ident psk timeout
             \<lparr>h_transport = k_transport k, h_failed = sv_failed (k_server k)\<rparr> of
        (out, s) \<Rightarrow> (out, k\<lparr>k_transport := h_transport s,
                            k_server := (k_server k)\<lparr>sv_failed := h_failed s\<rparr>\<rparr>))"

text \<open>\<open>session = USMPSession(transport, info)\<close> and \<open>if self._handler: await self._handler(session)\<close>.\<close>

definition run_session ::
  "'t transport_ops \<Rightarrow> 't session_handler option \<Rightarrow> session_info \<Rightarrow> ('t connection, py_exc, unit) io" where
  "run_session ops handler info k =
     (let s = new_session ops (k_transport k) info None in
      case handler of
        None \<Rightarrow> (Ret (), k\<lparr>k_transport := s_transport s\<rparr>)
      | Some h \<Rightarrow> (case h s of (out, s') \<Rightarrow> (out, k\<lparr>k_transport := s_transport s'\<rparr>)))"

text \<open>The \<open>except\<close> clauses; only the one for timeouts reads the clock.\<close>

definition report_error ::
  "'t transport_ops \<Rightarrow> string \<Rightarrow> py_exc \<Rightarrow> ('t connection, py_exc, unit) io" where
  "report_error ops limiter_key e k =
     (let (now, t) = (if e \<in> {PyTimeoutError, USMPTimeoutError} then op_monotonic ops (k_transport k)
                      else (0, k_transport k));
          (escaped, d) = connection_error limiter_key now e (sv_failed (k_server k));
          k' = k\<lparr>k_transport := t, k_server := (k_server k)\<lparr>sv_failed := d\<rparr>\<rparr>
      in (case escaped of None \<Rightarrow> Ret () | Some e' \<Rightarrow> Raise e', k'))"

text \<open>A TCP connection; one over a limit is closed at once.\<close>

definition tcp_finally :: "'t transport_ops \<Rightarrow> string \<Rightarrow> 't connection \<Rightarrow> 't connection" where
  "tcp_finally ops ip k =
     k\<lparr>k_server := release_tcp ip (k_server k), k_transport := op_close ops (k_transport k)\<rparr>"

definition on_tcp_connect ::
  "'t transport_ops \<Rightarrow> crypto \<Rightarrow> server_random \<Rightarrow> int \<Rightarrow> psk_source \<Rightarrow> rat \<Rightarrow>
   't session_handler option \<Rightarrow> ('t connection, py_exc, unit) io" where
  "on_tcp_connect ops C rnd ident psk timeout handler k =
     (let ip = ip_of_peer (op_peername ops (k_transport k)) in
      case admit_tcp ip (k_server k) of
        None \<Rightarrow> (Ret (), k\<lparr>k_transport := op_close ops (k_transport k)\<rparr>)
      | Some sv \<Rightarrow>
          finally_io
            (catch_io
              (bind_io (connection_handshake ops C rnd ident psk timeout) (run_session ops handler))
              (report_error ops ip))
            (tcp_finally ops ip) (k\<lparr>k_server := sv\<rparr>))"

text \<open>
  A UDP connection.  \<open>transport\<close> is the object the server's tables name \<open>i\<close>, so the state of
  the stream is stored under that name before code that works on the tables runs.
\<close>

definition udp_register ::
  "addr \<Rightarrow> nat \<Rightarrow> (udp_stream connection, py_exc, bool) io" where
  "udp_register addr i k =
     (case register_udp addr i (store_stream i (k_transport k) (k_server k)) of
        (sv, accepted) \<Rightarrow>
          (Ret accepted, k\<lparr>k_server := sv, k_decremented := True,
             k_transport := the (map_of (sv_streams sv) i)\<rparr>))"

definition udp_finally :: "addr \<Rightarrow> nat \<Rightarrow> udp_stream connection \<Rightarrow> udp_stream connection" where
  "udp_finally addr i k =
     k\<lparr>k_server := release_udp addr i (k_decremented k) (store_stream i (k_transport k) (k_server k)),
       k_transport := udp_close (k_transport k)\<rparr>"

definition on_udp_connect ::
  "crypto \<Rightarrow> server_random \<Rightarrow> int \<Rightarrow> psk_source \<Rightarrow> rat \<Rightarrow> udp_stream session_handler option \<Rightarrow>
   nat \<Rightarrow> (udp_stream connection, py_exc, unit) io" where
  "on_udp_connect C rnd ident psk timeout handler i k =
     (let addr = u_remote_addr (k_transport k) in
      finally_io
        (catch_io
          (bind_io (connection_handshake (udp_ops C) C rnd ident psk timeout) (\<lambda>info.
           bind_io (udp_register addr i) (\<lambda>accepted.
           if accepted then run_session (udp_ops C) handler info else ret ())))
          (report_error (udp_ops C) (fst addr)))
        (udp_finally addr i) (k\<lparr>k_decremented := False\<rparr>))"

section \<open>What the pieces do\<close>

lemma connection_error_escapes:
  "connection_error key now e d = (r, d') \<Longrightarrow>
   (r = None \<or> r = Some CancelledError \<and> e = CancelledError \<or> r = Some OverflowError)
   \<and> (d' = d \<or> record_failed_handshake key now d = Inr d')"
  by (auto simp: connection_error_def is_HandshakeError_def record_Inl split: if_splits sum.splits)

lemma report_error_run:
  assumes "report_error ops key e k = (out, k')"
  shows "out \<noteq> Blocked \<and> (\<forall>x. out = Raise x \<longrightarrow> x = OverflowError \<or> x = CancelledError \<and> e = CancelledError)
    \<and> k_decremented k' = k_decremented k
    \<and> (\<exists>now. k_server k' = after_error key now (Some e) (k_server k))"
proof -
  obtain now t where t: "(if e \<in> {PyTimeoutError, USMPTimeoutError} then op_monotonic ops (k_transport k)
      else (0, k_transport k)) = (now, t)" by fastforce
  obtain r d where c: "connection_error key now e (sv_failed (k_server k)) = (r, d)" by fastforce
  have "report_error ops key e k
      = (case r of None \<Rightarrow> Ret () | Some e' \<Rightarrow> Raise e', k\<lparr>k_transport := t, k_server := (k_server k)\<lparr>sv_failed := d\<rparr>\<rparr>)"
    by (simp only: report_error_def Let_def t c prod.case)
  then have "k_server k' = after_error key now (Some e) (k_server k)"
    and "k_decremented k' = k_decremented k" and "out = (case r of None \<Rightarrow> Ret () | Some e' \<Rightarrow> Raise e')"
    using assms by (auto simp: after_error_def c)
  with connection_error_escapes [OF c] show ?thesis by (auto split: option.splits)
qed

text \<open>The transport as the handshake of a connection finds it: its deadline is set and the clock is read.\<close>

definition handshake_start :: "'t transport_ops \<Rightarrow> rat \<Rightarrow> 't \<Rightarrow> 't" where
  "handshake_start ops timeout t = clock_read ops (op_set_timeout ops (Some timeout) t)"

lemma run_handshake_Ret:
  assumes "run_handshake ops C rnd ident psk timeout s = (Ret info, s')"
  shows "proved_psk ops C rnd psk (handshake_start ops timeout (h_transport s)) info"
proof -
  obtain o1 s1 where h: "server_handshake ops C rnd ident psk
      (s\<lparr>h_transport := op_set_timeout ops (Some timeout) (h_transport s)\<rparr>) = (o1, s1)" by fastforce
  with assms have "o1 = Ret info" by (cases o1) (auto simp: run_handshake_def wait_for_def split: if_splits)
  with server_handshake_Ret [of ops C rnd ident psk _ info s1] h show ?thesis
    by (fastforce simp: handshake_start_def)
qed

lemma run_handshake_table:
  assumes "run_handshake ops C rnd ident psk timeout s = (out, s')"
  shows "limiter_move (h_failed s) (h_failed s')"
proof (cases "timeout \<le> 0")
  case True
  with assms show ?thesis by (auto simp: run_handshake_def wait_for_def)
next
  case False
  obtain o1 s1 where "server_handshake ops C rnd ident psk
      (s\<lparr>h_transport := op_set_timeout ops (Some timeout) (h_transport s)\<rparr>) = (o1, s1)" by fastforce
  from server_handshake_table [OF this] this assms False show ?thesis
    by (cases o1) (auto simp: run_handshake_def wait_for_def)
qed

lemma run_handshake_never_blocks: "fst (run_handshake ops C rnd ident psk timeout s) \<noteq> Blocked"
  by (simp add: run_handshake_def wait_for_never_blocks)

lemma run_session_server:
  "run_session ops handler info k = (out, k') \<Longrightarrow>
   k_server k' = k_server k \<and> k_decremented k' = k_decremented k"
  by (auto simp: run_session_def Let_def split: option.splits prod.splits)

lemma connection_handshake_server:
  assumes "connection_handshake ops C rnd ident psk timeout k = (out, k1)"
  shows "out \<noteq> Blocked \<and> k_decremented k1 = k_decremented k
    \<and> (\<exists>d. limiter_move (sv_failed (k_server k)) d \<and> k_server k1 = (k_server k)\<lparr>sv_failed := d\<rparr>)"
proof -
  obtain s where s: "run_handshake ops C rnd ident psk timeout
      \<lparr>h_transport = k_transport k, h_failed = sv_failed (k_server k)\<rparr> = (out, s)"
    using assms by (auto simp: connection_handshake_def split: prod.splits)
  with assms run_handshake_table [OF s] run_handshake_never_blocks [of ops C rnd ident psk timeout] show ?thesis
    by (auto simp: connection_handshake_def split: prod.splits) (metis fst_conv)+
qed

text \<open>The three ways a guarded body ends: it waits for ever, it returns, or it raises.\<close>

lemma guarded_cases:
  assumes "finally_io (catch_io m (report_error ops key)) f k = (out, k')"
  obtains (blocked) "m k = (Blocked, k')" and "out = Blocked"
  | (returned) k1 where "m k = (Ret (), k1)" and "out = Ret ()" and "k' = f k1"
  | (raised) e k1 k2 where "m k = (Raise e, k1)" and "report_error ops key e k1 = (out, k2)" and "k' = f k2"
proof -
  obtain o1 k1 where m: "m k = (o1, k1)" by fastforce
  show thesis
  proof (cases o1)
    case (Raise e)
    obtain o2 k2 where r: "report_error ops key e k1 = (o2, k2)" by fastforce
    have "o2 \<noteq> Blocked" using report_error_run [OF r] by simp
    with assms m Raise r show thesis
      by (intro that(3) [of e k1 k2]) (auto simp: finally_io_def catch_io_def split: outcome.splits)
  next
    case (Ret x)
    with assms m show thesis by (intro that(2) [of k1]) (auto simp: finally_io_def catch_io_def)
  next
    case Blocked
    with assms m show thesis by (intro that(1)) (auto simp: finally_io_def catch_io_def)
  qed
qed

lemma run_session_blocks:
  "run_session ops handler info k = (Blocked, k') \<Longrightarrow> \<exists>h s. handler = Some h \<and> fst (h s) = Blocked"
  by (auto simp: run_session_def Let_def split: option.splits prod.splits) (metis fst_conv)

section \<open>A connection never takes the server down\<close>

lemma stored_stream [simp]: "map_of (sv_streams (store_stream i u sv)) i = Some u"
  by (simp add: store_stream_def map_of_update)

lemma released_stream:
  "map_of (sv_streams sv) i = Some u \<Longrightarrow> map_of (sv_streams (release_udp addr i d sv)) i = Some (udp_close u)"
  by (simp add: release_udp_def Let_def close_stream_def map_of_update)

lemma tcp_connection_blocks:
  assumes "on_tcp_connect ops C rnd ident psk timeout handler k = (Blocked, k')"
  shows "\<exists>h s. handler = Some h \<and> fst (h s) = Blocked"
proof -
  let ?ip = "ip_of_peer (op_peername ops (k_transport k))"
  obtain sv where "finally_io (catch_io (bind_io (connection_handshake ops C rnd ident psk timeout)
      (run_session ops handler)) (report_error ops ?ip)) (tcp_finally ops ?ip) (k\<lparr>k_server := sv\<rparr>) = (Blocked, k')"
    using assms by (auto simp: on_tcp_connect_def Let_def split: option.splits)
  then show ?thesis
  proof (cases rule: guarded_cases)
    case blocked
    then show ?thesis
      by (auto simp: bind_io_def dest: connection_handshake_server dest!: run_session_blocks
          split: prod.splits outcome.splits)
  next
    case (raised e k1 k2)
    with report_error_run [OF raised(2)] show ?thesis by simp
  qed simp_all
qed

lemma udp_connection_blocks:
  assumes "on_udp_connect C rnd ident psk timeout handler i k = (Blocked, k')"
  shows "\<exists>h s. handler = Some h \<and> fst (h s) = Blocked"
proof -
  let ?a = "u_remote_addr (k_transport k)"
  have "finally_io (catch_io (bind_io (connection_handshake (udp_ops C) C rnd ident psk timeout) (\<lambda>info.
      bind_io (udp_register ?a i) (\<lambda>accepted.
      if accepted then run_session (udp_ops C) handler info else ret ())))
      (report_error (udp_ops C) (fst ?a))) (udp_finally ?a i) (k\<lparr>k_decremented := False\<rparr>) = (Blocked, k')"
    using assms by (simp add: on_udp_connect_def Let_def)
  then show ?thesis
  proof (cases rule: guarded_cases)
    case blocked
    then show ?thesis
      by (auto simp: bind_io_def udp_register_def dest: connection_handshake_server dest!: run_session_blocks
          split: prod.splits outcome.splits if_splits)
  next
    case (raised e k1 k2)
    with report_error_run [OF raised(2)] show ?thesis by simp
  qed simp_all
qed

lemma report_error_outcome:
  "report_error ops key e k = (out, k') \<Longrightarrow> out \<in> {Ret (), Raise CancelledError, Raise OverflowError}"
  using report_error_run [of ops key e k out k'] by (cases out) auto

text \<open>
  C18: a connection never takes the server down: whatever the peer sends, whatever the handshake and
  the handler raise, the task of a connection lets no exception escape except its own
  cancellation and the \<open>OverflowError\<close> of the limiter; it waits for ever only where the
  application's handler does; and when it ends, in any way, its transport has been closed, on
  UDP also the stream the server's tables named.\<close>

theorem connection_contained:
  assumes "on_tcp_connect ops C rnd ident psk timeout handler k = (out, k')"
    and "on_udp_connect C rnd ident psk timeout uhandler i u = (out2, u')"
  shows "out \<in> {Ret (), Blocked, Raise CancelledError, Raise OverflowError}
    \<and> (out = Blocked \<longrightarrow> (\<exists>h s. handler = Some h \<and> fst (h s) = Blocked))
    \<and> (out \<noteq> Blocked \<longrightarrow> (\<exists>t. k_transport k' = op_close ops t))
    \<and> out2 \<in> {Ret (), Blocked, Raise CancelledError, Raise OverflowError}
    \<and> (out2 = Blocked \<longrightarrow> (\<exists>h s. uhandler = Some h \<and> fst (h s) = Blocked))
    \<and> (out2 \<noteq> Blocked \<longrightarrow> u_closed (k_transport u') \<and> map_of (sv_streams (k_server u')) i = Some (k_transport u'))"
proof -
  let ?ip = "ip_of_peer (op_peername ops (k_transport k))" and ?a = "u_remote_addr (k_transport u)"
  have "out \<in> {Ret (), Blocked, Raise CancelledError, Raise OverflowError}
    \<and> (out \<noteq> Blocked \<longrightarrow> (\<exists>t. k_transport k' = op_close ops t))"
  proof (cases "admit_tcp ?ip (k_server k)")
    case None
    with assms(1) show ?thesis by (auto simp: on_tcp_connect_def)
  next
    case (Some sv)
    then have "finally_io (catch_io (bind_io (connection_handshake ops C rnd ident psk timeout) (run_session ops handler))
        (report_error ops ?ip)) (tcp_finally ops ?ip) (k\<lparr>k_server := sv\<rparr>) = (out, k')"
      using assms(1) by (simp add: on_tcp_connect_def Let_def)
    then show ?thesis
      by (cases rule: guarded_cases) (auto simp: tcp_finally_def dest!: report_error_outcome)
  qed
  moreover have "finally_io (catch_io
          (bind_io (connection_handshake (udp_ops C) C rnd ident psk timeout) (\<lambda>info.
           bind_io (udp_register ?a i) (\<lambda>accepted.
           if accepted then run_session (udp_ops C) uhandler info else ret ())))
          (report_error (udp_ops C) (fst ?a)))
        (udp_finally ?a i) (u\<lparr>k_decremented := False\<rparr>) = (out2, u')"
    using assms(2) by (simp add: on_udp_connect_def Let_def)
  then have "out2 \<in> {Ret (), Blocked, Raise CancelledError, Raise OverflowError}
    \<and> (out2 \<noteq> Blocked \<longrightarrow> u_closed (k_transport u') \<and> map_of (sv_streams (k_server u')) i = Some (k_transport u'))"
    by (cases rule: guarded_cases)
      (auto simp: udp_finally_def released_stream udp_close_def Let_def dest!: report_error_outcome)
  moreover note tcp_connection_blocks [of ops C rnd ident psk timeout handler k k']
    udp_connection_blocks [of C rnd ident psk timeout uhandler i u u']
  ultimately show ?thesis using assms by blast
qed

definition demo_connection :: "'t \<Rightarrow> 't connection" where
  "demo_connection t = \<lparr>k_server = demo_server, k_transport = t, k_decremented = False\<rparr>"

abbreviation demo_tcp_run :: "(py_exc, unit) outcome \<times> tcp_transport connection" where
  "demo_tcp_run \<equiv> on_tcp_connect tcp_ops demo_crypto demo_random 0 (Psk_bytes (replicate 16 9)) 10 None
     (demo_connection (tcp_connected (Peer_addr ''h'' 1) (0, []) [] True))"

abbreviation demo_udp_run :: "(py_exc, unit) outcome \<times> udp_stream connection" where
  "demo_udp_run \<equiv> on_udp_connect demo_crypto demo_random 0 (Psk_bytes (replicate 16 9)) 10 None 0
     (demo_connection (UDPStream (''h'', 1) True 0 []))"

lemma demo_runs_end: "fst demo_tcp_run \<noteq> Blocked" "fst demo_udp_run \<noteq> Blocked"
  using tcp_connection_blocks udp_connection_blocks by (metis option.distinct(1) prod.collapse)+

theorem connection_contained_witness:
  "\<exists>t. k_transport (snd demo_tcp_run) = op_close tcp_ops t \<and> u_closed (k_transport (snd demo_udp_run))"
  using connection_contained [where ops = tcp_ops and C = demo_crypto and rnd = demo_random and ident = 0
      and psk = "Psk_bytes (replicate 16 9)" and timeout = 10 and handler = None and uhandler = None and i = 0
      and k = "demo_connection (tcp_connected (Peer_addr ''h'' 1) (0, []) [] True)"
      and u = "demo_connection (UDPStream (''h'', 1) True 0 [])", OF prod.collapse [symmetric] prod.collapse [symmetric]]
    demo_runs_end by blast

section \<open>The coroutine is a path of the step relation\<close>

lemma reachable_trans:
  assumes "server_reachable C s0 s" and "server_reachable C s s'"
  shows "server_reachable C s0 s'"
  using assms(2,1) by (induction rule: server_reachable.induct) (auto intro: server_reachable.step)

lemma reachable_step [intro]: "server_step C s s' \<Longrightarrow> server_reachable C s s'"
  using server_reachable.step [OF server_reachable.start] .

lemma limiter_path:
  assumes "limiter_move (sv_failed (sys_server s)) d"
  shows "server_reachable C s (s\<lparr>sys_server := (sys_server s)\<lparr>sv_failed := d\<rparr>\<rparr>)"
proof -
  let ?at = "\<lambda>f. s\<lparr>sys_server := (sys_server s)\<lparr>sv_failed := f\<rparr>\<rparr>"
  obtain k d1 where d1: "d1 \<in> {sv_failed (sys_server s), AList.delete k (sv_failed (sys_server s))}"
    and d: "d = d1 \<or> (\<exists>now. record_failed_handshake k now d1 = Inr d)"
    using assms by (auto simp: limiter_move_def)
  have 1: "server_reachable C s (?at d1)"
  proof (cases "d1 = sv_failed (sys_server s)")
    case True
    then show ?thesis using server_reachable.start [of C s] by simp
  next
    case False
    with d1 show ?thesis by (intro reachable_step server_step.handshake_counted [where k = k]) simp
  qed
  have "server_reachable C (?at d1) (?at d)"
  proof (cases "d = d1")
    case True
    then show ?thesis using server_reachable.start by simp
  next
    case False
    with d obtain now where "record_failed_handshake k now (sv_failed (sys_server (?at d1))) = Inr d" by auto
    then have "server_step C (?at d1) ((?at d1)\<lparr>sys_server := (sys_server (?at d1))\<lparr>sv_failed := d\<rparr>\<rparr>)"
      by (blast intro: server_step.handshake_counted)
    then show ?thesis by auto
  qed
  with 1 show ?thesis by (rule reachable_trans)
qed

lemma tcp_body_server:
  assumes "bind_io (connection_handshake ops C rnd ident psk timeout) (run_session ops handler) k = (out, k1)"
  shows "\<exists>d. limiter_move (sv_failed (k_server k)) d \<and> k_server k1 = (k_server k)\<lparr>sv_failed := d\<rparr>"
  using assms
  by (auto simp: bind_io_def dest!: connection_handshake_server run_session_server split: prod.splits outcome.splits)

lemma tcp_connection_path:
  assumes "on_tcp_connect ops C rnd ident psk timeout handler k = (out, k')"
    and "out \<noteq> Blocked" and "sys_server s = k_server k"
  shows "server_reachable C s (s\<lparr>sys_server := k_server k'\<rparr>)"
proof -
  let ?ip = "ip_of_peer (op_peername ops (k_transport k))"
  show ?thesis
  proof (cases "admit_tcp ?ip (k_server k)")
    case None
    with assms have "s\<lparr>sys_server := k_server k'\<rparr> = s" by (auto simp: on_tcp_connect_def)
    then show ?thesis by (simp add: server_reachable.start)
  next
    case (Some sv)
    let ?s1 = "s\<lparr>sys_server := sv, sys_tcp := ?ip # sys_tcp s\<rparr>"
    have 1: "server_reachable C s ?s1"
      using Some assms(3) by (intro reachable_step server_step.tcp_accepted) simp
    have ended: "server_reachable C s (s\<lparr>sys_server := release_tcp ?ip (after_error ?ip now e (sv\<lparr>sv_failed := d\<rparr>))\<rparr>)"
      if d: "limiter_move (sv_failed sv) d" for now e d
    proof -
      let ?s2 = "?s1\<lparr>sys_server := sv\<lparr>sv_failed := d\<rparr>\<rparr>"
      have 2: "server_reachable C ?s1 ?s2" using limiter_path [of ?s1 d C] d by simp
      have "server_step C ?s2 (?s2\<lparr>sys_server := release_tcp ?ip (after_error ?ip now e (sys_server ?s2)),
          sys_tcp := remove1 ?ip (sys_tcp ?s2)\<rparr>)"
        by (rule server_step.tcp_ended) simp
      then have "server_reachable C ?s2 (s\<lparr>sys_server := release_tcp ?ip (after_error ?ip now e (sv\<lparr>sv_failed := d\<rparr>))\<rparr>)"
        by auto
      with 1 2 show ?thesis by (blast intro: reachable_trans)
    qed
    have "finally_io (catch_io (bind_io (connection_handshake ops C rnd ident psk timeout) (run_session ops handler))
        (report_error ops ?ip)) (tcp_finally ops ?ip) (k\<lparr>k_server := sv\<rparr>) = (out, k')"
      using assms(1) Some by (simp add: on_tcp_connect_def Let_def)
    then show ?thesis
    proof (cases rule: guarded_cases)
      case blocked
      with assms(2) show ?thesis by simp
    next
      case (returned k1)
      with tcp_body_server [OF returned(1)] ended [where e = None] show ?thesis
        by (auto simp: tcp_finally_def after_error_def)
    next
      case (raised e k1 k2)
      from tcp_body_server [OF raised(1)] report_error_run [OF raised(2)] raised(3) ended [where e = "Some e"]
      show ?thesis by (auto simp: tcp_finally_def)
    qed
  qed
qed

lemma register_udp_False_stream:
  "register_udp addr i sv = (sv', False) \<Longrightarrow> map_of (sv_streams sv) i = Some u \<Longrightarrow>
   map_of (sv_streams sv') i = Some (udp_close u)"
  by (auto simp: register_udp_def Let_def close_stream_def map_of_update split: if_splits option.splits)

lemma store_stream_same: "map_of (sv_streams sv) i = Some u \<Longrightarrow> store_stream i u sv = sv"
  by (simp add: store_stream_def update_triv)

lemma after_error_store: "after_error ip now e (store_stream i u sv) = store_stream i u (after_error ip now e sv)"
  by (simp add: after_error_def store_stream_def split: option.split)

text \<open>The body of a UDP connection: it fails before the registration, it is accepted, or it is refused.\<close>

lemma udp_body_server:
  assumes "bind_io (connection_handshake (udp_ops C) C rnd ident psk timeout) (\<lambda>info.
      bind_io (udp_register addr i) (\<lambda>accepted.
      if accepted then run_session (udp_ops C) handler info else ret ())) k = (out, k1)"
  obtains d u where "limiter_move (sv_failed (k_server k)) d"
    and "k_decremented k1 = k_decremented k \<and> k_server k1 = (k_server k)\<lparr>sv_failed := d\<rparr>
      \<or> k_decremented k1 \<and> register_udp addr i (store_stream i u ((k_server k)\<lparr>sv_failed := d\<rparr>)) = (k_server k1, True)
      \<or> k_decremented k1 \<and> out = Ret () \<and> map_of (sv_streams (k_server k1)) i = Some (k_transport k1)
        \<and> register_udp addr i (store_stream i u ((k_server k)\<lparr>sv_failed := d\<rparr>)) = (k_server k1, False)"
proof -
  obtain o1 k2 where h: "connection_handshake (udp_ops C) C rnd ident psk timeout k = (o1, k2)" by fastforce
  from connection_handshake_server [OF h] obtain d where d: "limiter_move (sv_failed (k_server k)) d"
    "k_server k2 = (k_server k)\<lparr>sv_failed := d\<rparr>" "k_decremented k2 = k_decremented k" "o1 \<noteq> Blocked" by auto
  obtain sv acc where r: "register_udp addr i (store_stream i (k_transport k2) (k_server k2)) = (sv, acc)" by fastforce
  show thesis
  proof (cases o1)
    case (Raise e)
    with assms h d have "k1 = k2" by (simp add: bind_io_def)
    with d show thesis by (intro that [of d]) auto
  next
    case Blocked
    with d show thesis by simp
  next
    case (Ret info)
    show thesis
    proof (cases acc)
      case True
      with assms h Ret r have "k_server k1 = sv \<and> k_decremented k1"
        by (auto simp: bind_io_def udp_register_def dest!: run_session_server)
      with True r d show thesis by (intro that [of d "k_transport k2"]) auto
    next
      case False
      with assms h Ret r have k1: "out = Ret ()" "k_server k1 = sv" "k_decremented k1"
        "k_transport k1 = the (map_of (sv_streams sv) i)"
        by (auto simp: bind_io_def udp_register_def)
      with register_udp_False_stream [of addr i _ sv] r False
      have "map_of (sv_streams sv) i = Some (k_transport k1)" by fastforce
      with k1 False r d show thesis by (intro that [of d "k_transport k2"]) auto
    qed
  qed
qed

lemma stream_path:
  assumes "map_of (sys_udp s) i = Some t"
  shows "server_reachable C s (s\<lparr>sys_server := store_stream i u (sys_server s)\<rparr>)"
  by (rule reachable_step, rule server_step.stream_used, rule assms)

text \<open>A task that goes on from state \<open>sv\<close>, perhaps stores its stream, and then ends.\<close>

lemma udp_end_path:
  assumes i: "map_of (sys_udp s) i = Some (addr, d)"
  shows "server_reachable C s (s\<lparr>sys_server :=
      release_udp addr i d (store_stream i u (after_error (fst addr) now e (sys_server s))),
      sys_udp := AList.delete i (sys_udp s)\<rparr>)"
proof -
  let ?s = "s\<lparr>sys_server := store_stream i u (sys_server s)\<rparr>"
  have "server_step C ?s (?s\<lparr>sys_server := release_udp addr i d (after_error (fst addr) now e (sys_server ?s)),
      sys_udp := AList.delete i (sys_udp ?s)\<rparr>)"
    by (rule server_step.udp_ended) (simp add: i)
  with stream_path [OF i, of C u] show ?thesis
    by (simp add: after_error_store) (blast intro: reachable_trans)
qed

lemma udp_connection_path:
  assumes run: "on_udp_connect C rnd ident psk timeout handler i k = (out, k')"
    and "out \<noteq> Blocked" and "sys_server s = k_server k"
    and i: "map_of (sys_udp s) i = Some (u_remote_addr (k_transport k), False)"
  shows "server_reachable C s (s\<lparr>sys_server := k_server k', sys_udp := AList.delete i (sys_udp s)\<rparr>)"
proof -
  let ?a = "u_remote_addr (k_transport k)" and ?T = "sys_udp s"
  let ?body = "bind_io (connection_handshake (udp_ops C) C rnd ident psk timeout) (\<lambda>info.
      bind_io (udp_register ?a i) (\<lambda>accepted.
      if accepted then run_session (udp_ops C) handler info else ret ()))"
  let ?goal = "\<lambda>sv. server_reachable C s (s\<lparr>sys_server := sv, sys_udp := AList.delete i ?T\<rparr>)"
  have ended: "?goal (release_udp ?a i (k_decremented k1) (store_stream i (k_transport k2) (after_error (fst ?a) now e (k_server k1))))"
    if body: "?body (k\<lparr>k_decremented := False\<rparr>) = (o1, k1)"
      and refused: "o1 = Ret () \<Longrightarrow> k_transport k2 = k_transport k1 \<and> e = None" for o1 now e and k1 k2 :: "udp_stream connection"
  proof -
    from udp_body_server [OF body] obtain d u where d: "limiter_move (sv_failed (k_server k)) d"
      and cases: "\<not> k_decremented k1 \<and> k_server k1 = (k_server k)\<lparr>sv_failed := d\<rparr>
      \<or> k_decremented k1 \<and> register_udp ?a i (store_stream i u ((k_server k)\<lparr>sv_failed := d\<rparr>)) = (k_server k1, True)
      \<or> k_decremented k1 \<and> o1 = Ret () \<and> map_of (sv_streams (k_server k1)) i = Some (k_transport k1)
        \<and> register_udp ?a i (store_stream i u ((k_server k)\<lparr>sv_failed := d\<rparr>)) = (k_server k1, False)"
      by auto
    let ?s1 = "s\<lparr>sys_server := (k_server k)\<lparr>sv_failed := d\<rparr>\<rparr>"
    let ?s2 = "?s1\<lparr>sys_server := store_stream i u (sys_server ?s1)\<rparr>"
    have 1: "server_reachable C s ?s1" using limiter_path [of s d C] d assms(3) by simp
    have 2: "server_reachable C s ?s2"
      using stream_path [of ?s1 i _ C u] i by (auto intro: reachable_trans [OF 1])
    from cases show ?thesis
    proof (elim disjE conjE)
      assume "\<not> k_decremented k1" and sv: "k_server k1 = (k_server k)\<lparr>sv_failed := d\<rparr>"
      with udp_end_path [of ?s1 i ?a False C "k_transport k2" now e] i show ?thesis
        by (auto intro: reachable_trans [OF 1])
    next
      assume k1: "k_decremented k1"
        and reg: "register_udp ?a i (store_stream i u ((k_server k)\<lparr>sv_failed := d\<rparr>)) = (k_server k1, True)"
      let ?s3 = "?s2\<lparr>sys_server := k_server k1, sys_udp := AList.update i (?a, True) (sys_udp ?s2)\<rparr>"
      have "server_step C ?s2 ?s3" by (rule server_step.udp_registered) (simp_all add: i reg)
      then have 3: "server_reachable C s ?s3" by (rule reachable_trans [OF 2 reachable_step])
      have "map_of (sys_udp ?s3) i = Some (?a, True)" by (simp add: map_of_update)
      from udp_end_path [OF this, of C "k_transport k2" now e] k1 show ?thesis
        by (auto intro: reachable_trans [OF 3] simp: delete_update_same)
    next
      assume k1: "k_decremented k1" "o1 = Ret ()" "map_of (sv_streams (k_server k1)) i = Some (k_transport k1)"
        and reg: "register_udp ?a i (store_stream i u ((k_server k)\<lparr>sv_failed := d\<rparr>)) = (k_server k1, False)"
      have "server_step C ?s2 (?s2\<lparr>sys_server := release_udp ?a i True (k_server k1),
          sys_udp := AList.delete i (sys_udp ?s2)\<rparr>)"
        by (rule server_step.udp_refused) (simp_all add: i reg)
      from reachable_trans [OF 2 reachable_step [OF this]] k1 refused show ?thesis
        by (simp add: after_error_def store_stream_same)
    qed
  qed
  have "finally_io (catch_io ?body (report_error (udp_ops C) (fst ?a))) (udp_finally ?a i)
      (k\<lparr>k_decremented := False\<rparr>) = (out, k')"
    using run by (simp add: on_udp_connect_def Let_def)
  then show ?thesis
  proof (cases rule: guarded_cases)
    case blocked
    with assms(2) show ?thesis by simp
  next
    case (returned k1)
    with ended [OF returned(1), of k1 None] show ?thesis by (simp add: udp_finally_def after_error_def)
  next
    case (raised e k1 k2)
    from report_error_run [OF raised(2)] obtain now where
      "k_decremented k2 = k_decremented k1" "k_server k2 = after_error (fst ?a) now (Some e) (k_server k1)" by auto
    with ended [OF raised(1), of k2 "Some e" now] raised(3) show ?thesis by (simp add: udp_finally_def)
  qed
qed

text \<open>
  C17: the coroutine refines the step relation: when the whole of \<open>_on_transport_connect\<close> has run for
  a TCP transport, or for the stream of a UDP task, the server is in a state that the
  atomic steps reach, with the task gone; so a connection, from admission to clean-up and
  on every path through it, keeps every property of the reachable states.\<close>

theorem connection_refines_steps:
  assumes "on_tcp_connect ops C rnd ident psk timeout handler k = (out, k')" and "out \<noteq> Blocked"
    and "on_udp_connect C rnd ident psk timeout uhandler i u = (out2, u')" and "out2 \<noteq> Blocked"
    and "sys_server s = k_server k" and "sys_server s2 = k_server u"
    and "map_of (sys_udp s2) i = Some (u_remote_addr (k_transport u), False)"
  shows "server_reachable C s (s\<lparr>sys_server := k_server k'\<rparr>)
    \<and> server_reachable C s2 (s2\<lparr>sys_server := k_server u', sys_udp := AList.delete i (sys_udp s2)\<rparr>)"
  using tcp_connection_path [OF assms(1,2,5)] udp_connection_path [OF assms(3,4,6,7)] by blast

definition demo_udp_task :: system where
  "demo_udp_task = \<lparr>sys_server = demo_server, sys_tcp = [], sys_udp = [(0, (''h'', 1), False)]\<rparr>"

theorem connection_refines_steps_witness:
  "server_reachable demo_crypto (started demo_server) ((started demo_server)\<lparr>sys_server := k_server (snd demo_tcp_run)\<rparr>)
   \<and> server_reachable demo_crypto demo_udp_task
       (demo_udp_task\<lparr>sys_server := k_server (snd demo_udp_run), sys_udp := []\<rparr>)"
  using connection_refines_steps [OF prod.collapse [symmetric] demo_runs_end(1) prod.collapse [symmetric] demo_runs_end(2),
      of "started demo_server" demo_udp_task]
  by (simp add: started_def demo_udp_task_def demo_connection_def UDPStream_def)

section \<open>Only authenticated devices reach the application\<close>

lemma connection_handshake_Ret:
  assumes "connection_handshake ops C rnd ident psk timeout k = (Ret info, k')"
  shows "proved_psk ops C rnd psk (handshake_start ops timeout (k_transport k)) info"
  using assms by (auto simp: connection_handshake_def dest!: run_handshake_Ret split: prod.splits)

lemma run_session_same:
  assumes "\<And>s. s_info s = info \<Longrightarrow> f s = f' s"
  shows "run_session ops (Some f) info k = run_session ops (Some f') info k"
proof -
  have "f (new_session ops (k_transport k) info None) = f' (new_session ops (k_transport k) info None)"
    by (intro assms) (simp add: new_session_def split: prod.split)
  then show ?thesis by (simp add: run_session_def)
qed

lemma bind_io_same:
  assumes "\<And>x s'. m s = (Ret x, s') \<Longrightarrow> f x s' = g x s'"
  shows "bind_io m f s = bind_io m g s"
  using assms by (auto simp: bind_io_def split: prod.split outcome.split)

text \<open>
  C14: the session handler runs only for a device that has proved, in this very connection, that
  it knows its pre-shared key: two handlers that do the same on every session whose keys and
  identifiers come from such a proof, that is from a HELLO that is the first frame on the connection's own
  transport and from a HELLO_ACK that is read after the CHALLENGE and has the right HMAC for it, cannot be
  told apart on that connection, over TCP or UDP.  So on a connection on which no such frames
  arrive nothing depends on the handler at all.\<close>

theorem handler_sees_only_authenticated:
  assumes "\<And>s. proved_psk tcp_ops C rnd psk (handshake_start tcp_ops timeout (k_transport k)) (s_info s) \<Longrightarrow> h s = h' s"
    and "\<And>s. proved_psk (udp_ops C) C rnd psk (handshake_start (udp_ops C) timeout (k_transport u)) (s_info s) \<Longrightarrow> g s = g' s"
  shows "on_tcp_connect tcp_ops C rnd ident psk timeout (Some h) k
       = on_tcp_connect tcp_ops C rnd ident psk timeout (Some h') k
    \<and> on_udp_connect C rnd ident psk timeout (Some g) i u
      = on_udp_connect C rnd ident psk timeout (Some g') i u"
proof -
  have "bind_io (connection_handshake tcp_ops C rnd ident psk timeout) (run_session tcp_ops (Some h)) k0
      = bind_io (connection_handshake tcp_ops C rnd ident psk timeout) (run_session tcp_ops (Some h')) k0"
    if "k_transport k0 = k_transport k" for k0
    using assms(1) connection_handshake_Ret [of tcp_ops C rnd ident psk timeout k0] that
    by (intro bind_io_same run_session_same) fastforce
  moreover have "bind_io (connection_handshake (udp_ops C) C rnd ident psk timeout) (\<lambda>info. bind_io (udp_register a i)
        (\<lambda>accepted. if accepted then run_session (udp_ops C) (Some g) info else ret ())) k0
      = bind_io (connection_handshake (udp_ops C) C rnd ident psk timeout) (\<lambda>info. bind_io (udp_register a i)
        (\<lambda>accepted. if accepted then run_session (udp_ops C) (Some g') info else ret ())) k0"
    if "k_transport k0 = k_transport u" for a k0
  proof (rule bind_io_same)
    fix info k1
    assume "connection_handshake (udp_ops C) C rnd ident psk timeout k0 = (Ret info, k1)"
    then have "run_session (udp_ops C) (Some g) info k2 = run_session (udp_ops C) (Some g') info k2" for k2
      using assms(2) connection_handshake_Ret that by (intro run_session_same) fastforce
    then show "bind_io (udp_register a i) (\<lambda>accepted. if accepted then run_session (udp_ops C) (Some g) info else ret ()) k1
        = bind_io (udp_register a i) (\<lambda>accepted. if accepted then run_session (udp_ops C) (Some g') info else ret ()) k1"
      by (intro bind_io_same) simp
  qed
  ultimately show ?thesis
    by (simp add: on_tcp_connect_def on_udp_connect_def Let_def finally_io_def catch_io_def split: option.split)
qed

text \<open>
  A connection on which nothing arrives, and one with the frames of a device that knows the key:
  a handler that hangs makes no difference to the first, and hangs on the second.
\<close>

abbreviation demo_handled :: "tcp_transport session_handler \<Rightarrow> bytes \<Rightarrow> (py_exc, unit) outcome \<times> tcp_transport connection" where
  "demo_handled h input \<equiv> on_tcp_connect tcp_ops demo_crypto demo_random 0 (Psk_bytes (replicate 16 9)) 10 (Some h)
     (demo_connection (tcp_connected (Peer_addr ''h'' 1) (0, []) input True))"

lemma demo_handler_runs: "\<exists>input. fst (demo_handled (\<lambda>s. (Blocked, s)) input) = Blocked"
proof -
  obtain k1 k2 where keys: "derive_session_keys demo_crypto [5] (x_public demo_crypto [7]) (replicate 32 1)
      (x_public demo_crypto [5]) (x_public demo_crypto [7]) = Inr (k1, k2)"
    using demo_shared demo_shared_nonzero by (simp add: derive_session_keys_def Let_def)
  have "resolve_psk (Psk_bytes (replicate 16 9)) (replicate 6 3) = Inr (replicate 16 9)"
    by (simp add: resolve_psk_def find_psk_def)
  from handshake_agrees [of demo_crypto "replicate 6 3" demo_random _ _ _ k1 k2 "[]"
      "Peer_addr ''h'' 1" 0 0 "(0, [])", OF _ _ _ _ _ _ this] keys
  obtain input s' si where run: "server_handshake tcp_ops demo_crypto demo_random 0 (Psk_bytes (replicate 16 9))
       \<lparr>h_transport = tcp_connected (Peer_addr ''h'' 1) (0, []) input True, h_failed = []\<rparr> = (Ret si, s')"
    by (fastforce simp: demo_random_def locked_out_def)
  then have "connection_handshake tcp_ops demo_crypto demo_random 0 (Psk_bytes (replicate 16 9)) 10
      (demo_connection (tcp_connected (Peer_addr ''h'' 1) (0, []) input True)\<lparr>k_server := sv\<rparr>)
      = (Ret si, \<lparr>k_server = sv\<lparr>sv_failed := h_failed s'\<rparr>, k_transport = h_transport s', k_decremented = False\<rparr>)"
    if "sv_failed sv = []" for sv
    using that by (simp add: connection_handshake_def run_handshake_def wait_for_def demo_connection_def)
  then have "fst (demo_handled (\<lambda>s. (Blocked, s)) input) = Blocked"
    by (simp add: on_tcp_connect_def demo_connection_def demo_server_def admit_tcp_def finally_io_def catch_io_def
        bind_io_def run_session_def Let_def tcp_connected_def ip_of_peer_def count_of_def total_def)
  then show ?thesis by blast
qed

theorem handler_sees_only_authenticated_witness:
  "\<exists>input. demo_handled (\<lambda>s. (Blocked, s)) [] = demo_handled (ret ()) []
     \<and> fst (demo_handled (\<lambda>s. (Blocked, s)) input) = Blocked"
proof -
  have "\<not> proved_psk tcp_ops demo_crypto demo_random (Psk_bytes (replicate 16 9))
      (handshake_start tcp_ops 10 (k_transport (demo_connection (tcp_connected (Peer_addr ''h'' 1) (0, []) [] True)))) info"
    for info
    by (auto simp: proved_psk_def handshake_start_def demo_connection_def tcp_connected_def tcp_monotonic_def
        tcp_read_frame_def read_frame_def tcp_readexactly_def bind_io_def split: prod.splits)
  then have "demo_handled (\<lambda>s. (Blocked, s)) [] = demo_handled (ret ()) []"
    by (intro handler_sees_only_authenticated [where g = "ret ()" and g' = "ret ()" and i = 0
        and u = "demo_connection (UDPStream (''h'', 1) True 0 [])", THEN conjunct1]) auto
  with demo_handler_runs show ?thesis by blast
qed

end
