(* ===== verification/Client.thy ===== *)
theory Client
  imports HandshakeSafety
begin

text \<open>
  \<open>_client.py\<close>: the life of a client.  A transport class is its \<open>connect\<close>, which opens a
  transport to a host and port or raises; the registry has the classes.  While a session is there its transport is the client's, the
  same object, so the state holds it once; \<open>c_has_transport\<close> says whether \<open>_transport\<close> is set,
  and \<open>c_dropped\<close> keeps the transports that the client no longer refers to, to see whether
  they were closed.
\<close>

type_synonym 't transport_class = "string \<Rightarrow> int \<Rightarrow> py_exc + 't"

record 't client =
  c_host :: string
  c_port :: int
  c_protocol :: string
  c_psk :: bytes
  c_device_id :: bytes
  c_session :: "'t session option"
  c_has_transport :: bool
  c_dropped :: "'t list"

text \<open>
  \<open>device_id or os.urandom(USMP_DEVICE_ID_LEN)\<close>; the protocol is a string, as the members of
  \<open>USMPProtocol\<close> are.
\<close>

definition USMPClient ::
  "string \<Rightarrow> int \<Rightarrow> bytes \<Rightarrow> bytes option \<Rightarrow> string \<Rightarrow> bytes \<Rightarrow> 't client" where
  "USMPClient host port psk dev protocol rnd =
     \<lparr>c_host = host, c_port = port, c_protocol = lower protocol, c_psk = psk,
      c_device_id = (case dev of Some d \<Rightarrow> if d = [] then rnd else d | None \<Rightarrow> rnd),
      c_session = None, c_has_transport = False, c_dropped = []\<rparr>"

text \<open>A session that is overwritten takes its transport with it, open or not.\<close>

definition forget_session :: "'t client \<Rightarrow> 't client" where
  "forget_session c =
     (case c_session c of
        None \<Rightarrow> c
      | Some s \<Rightarrow> c\<lparr>c_session := None, c_dropped := s_transport s # c_dropped c\<rparr>)"

definition open_transport :: "('t transport_class, 'l) registry \<Rightarrow> 't client \<Rightarrow> py_exc + 't" where
  "open_transport reg c =
     bindE (get_transport_class reg (c_protocol c)) (\<lambda>transport_cls. transport_cls (c_host c) (c_port c))"

definition client_connect ::
  "'t transport_ops \<Rightarrow> crypto \<Rightarrow> ('t transport_class, 'l) registry \<Rightarrow> bytes \<Rightarrow> rat \<Rightarrow>
   ('t client, py_exc, unit) io" where
  "client_connect ops C reg rnd timeout c =
     (case open_transport reg c of
        Inl e \<Rightarrow> (Raise e, c)
      | Inr t \<Rightarrow>
          (case wait_for PyTimeoutError (op_set_timeout ops) timeout
                  (client_handshake ops C rnd (c_psk c) (Some (c_device_id c))) t of
             (Ret info, t') \<Rightarrow>
               (Ret (), (forget_session c)\<lparr>c_session := Some (new_session ops t' info None), c_has_transport := True\<rparr>)
           | (Raise e, t') \<Rightarrow>
               (Raise (if e = PyTimeoutError then USMPTimeoutError else e),
                c\<lparr>c_has_transport := False, c_dropped := op_close ops t' # c_dropped c\<rparr>)
           | (Blocked, t') \<Rightarrow> (Blocked, c)))"

text \<open>\<open>_ensure_connected\<close>, and a call on the session.\<close>

definition with_session :: "('t session, py_exc, 'a) io \<Rightarrow> ('t client, py_exc, 'a) io" where
  "with_session m c =
     (case c_session c of
        None \<Rightarrow> (Raise NotConnectedError, c)
      | Some s \<Rightarrow> (case m s of (out, s') \<Rightarrow> (out, c\<lparr>c_session := Some s'\<rparr>)))"

definition client_send :: "'t transport_ops \<Rightarrow> crypto \<Rightarrow> bytes \<Rightarrow> ('t client, py_exc, unit) io" where
  "client_send ops C data = with_session (send ops C data)"

definition client_recv :: "'t transport_ops \<Rightarrow> crypto \<Rightarrow> nat \<Rightarrow> ('t client, py_exc, bytes option) io" where
  "client_recv ops C fuel = with_session (recv ops C fuel None)"

definition client_ping :: "'t transport_ops \<Rightarrow> crypto \<Rightarrow> ('t client, py_exc, unit) io" where
  "client_ping ops C = with_session (ping ops C)"

definition client_disconnect :: "'t transport_ops \<Rightarrow> crypto \<Rightarrow> ('t client, py_exc, unit) io" where
  "client_disconnect ops C c =
     (case c_session c of
        None \<Rightarrow> (Ret (), c\<lparr>c_has_transport := False\<rparr>)
      | Some s \<Rightarrow>
          (case bye ops C s of
             (Blocked, s') \<Rightarrow> (Blocked, c\<lparr>c_session := Some s'\<rparr>)
           | (out, s') \<Rightarrow>
               (out, c\<lparr>c_session := None, c_has_transport := False,
                       c_dropped := (if c_has_transport c then op_close ops (s_transport s')
                                     else s_transport s') # c_dropped c\<rparr>)))"

definition client_session_id :: "'t client \<Rightarrow> string option" where
  "client_session_id c = map_option (\<lambda>s. session_id_str (s_info s)) (c_session c)"

section \<open>The life of a client\<close>

text \<open>
  A client that is not connected refuses to send, receive and ping, and changes nothing; a
  connection attempt whose transport cannot be opened changes nothing either; one whose
  handshake fails, for any reason, closes the transport it opened and leaves the session as
  it was, with a timeout reported as \<open>USMPTimeoutError\<close>; and one that succeeds holds an open
  session with the keys the handshake returned.  \<open>connect\<close> never waits for ever.\<close>

theorem client_connect_outcome:
  assumes "client_connect ops C reg rnd timeout c = (out, c')"
  shows "(c_session c = None \<longrightarrow>
       client_send ops C data c = (Raise NotConnectedError, c)
     \<and> client_recv ops C fuel c = (Raise NotConnectedError, c)
     \<and> client_ping ops C c = (Raise NotConnectedError, c))
   \<and> (\<forall>e. open_transport reg c = Inl e \<longrightarrow> out = Raise e \<and> c' = c)
   \<and> (\<forall>t. open_transport reg c = Inr t \<longrightarrow>
       (case out of
          Ret _ \<Rightarrow> 0 < timeout \<and> (\<exists>info s t1. c_session c' = Some s \<and> s_info s = info \<and> \<not> s_closed s
            \<and> client_handshake ops C rnd (c_psk c) (Some (c_device_id c)) (op_set_timeout ops (Some timeout) t)
              = (Ret info, t1))
        | Raise e \<Rightarrow> e \<noteq> PyTimeoutError \<and> c_session c' = c_session c \<and> \<not> c_has_transport c'
            \<and> (\<exists>t'. c_dropped c' = op_close ops t' # c_dropped c)
        | Blocked \<Rightarrow> False))"
  using assms
  by (auto simp: client_connect_def wait_for_def client_send_def client_recv_def client_ping_def
      with_session_def new_session_def split: prod.splits outcome.splits if_splits sum.splits)

text \<open>A registry whose TCP class reaches the given transport, and no UDP class.\<close>

definition demo_registry :: "'t \<Rightarrow> ('t transport_class, unit) registry" where
  "demo_registry t = register_transport ''tcp'' (\<lambda>host port. Inr t) () \<lparr>transports = Map.empty, listeners = Map.empty\<rparr>"

definition demo_client :: "'t client" where
  "demo_client = USMPClient ''h'' 9000 (replicate 16 9) (Some (replicate 6 3)) ''TCP'' []"

lemma demo_client_simps [simp]:
  "c_psk demo_client = replicate 16 9" "c_device_id demo_client = replicate 6 3"
  "c_session demo_client = None" "c_dropped demo_client = []"
  "open_transport (demo_registry t) demo_client = Inr t"
  "open_transport (demo_registry t) (demo_client\<lparr>c_session := cs\<rparr>) = Inr t"
proof -
  have "lower ''TCP'' = ''tcp''" by code_simp
  moreover have "lower ''tcp'' = ''tcp''" by code_simp
  ultimately show "open_transport (demo_registry t) demo_client = Inr t"
    "open_transport (demo_registry t) (demo_client\<lparr>c_session := cs\<rparr>) = Inr t"
    by (simp_all add: demo_client_def USMPClient_def open_transport_def demo_registry_def
        get_transport_class_def register_transport_def)
qed (simp_all add: demo_client_def USMPClient_def)

theorem client_connect_outcome_witness:
  "\<exists>c'. client_connect tcp_ops demo_crypto (demo_registry (tcp_connected No_peer (0, []) [] False)) [5] 10
       demo_client = (Raise USMPTimeoutError, c') \<and> c_session c' = None"
proof -
  let ?t = "tcp_connected No_peer (0, []) [] False"
  let ?t1 = "?t\<lparr>tcp_out := frame_bytes HELLO (replicate 6 3 @ x_public demo_crypto [5]) 0\<rparr>"
  have "sendable (replicate 6 3 @ x_public demo_crypto [5]) 0"
    by (simp add: sendable_def demo_crypto_def)
  then have w: "tcp_write_frame HELLO (replicate 6 3 @ x_public demo_crypto [5]) 0 ?t = (Ret (), ?t1)"
    using tcp_write_sendable [of _ 0 ?t HELLO] by (simp add: tcp_open_def tcp_connected_def)
  have "read_handshake tcp_ops ?t1 = (Blocked, ?t1)"
    by (simp add: read_handshake_def tcp_read_frame_def read_frame_def bind_io_def catch_io_def
        tcp_readexactly_def tcp_connected_def)
  then have "client_handshake tcp_ops demo_crypto [5] (replicate 16 9) (Some (replicate 6 3)) ?t = (Blocked, ?t1)"
    by (simp add: client_handshake_def read_challenge_def bind_io_def generate_keypair_def w throw_if_def Let_def)
  then obtain c' where c': "client_connect tcp_ops demo_crypto (demo_registry ?t) [5] 10 demo_client
      = (Raise USMPTimeoutError, c')"
    by (simp add: client_connect_def wait_for_def)
  from client_connect_outcome [OF this] c' show ?thesis by auto
qed

text \<open>
  Disconnecting always lets go: whatever \<open>bye\<close> does, also when its BYE cannot be delivered
  or it raises, the client has no session and no transport afterwards, and the transport of
  the session has been closed; a second call does nothing.
\<close>

theorem client_disconnect_closes:
  assumes "client_disconnect ops C c = (out, c')" and "out \<noteq> Blocked"
    and "c_session c = Some s" and "\<not> s_closed s"
  shows "c_session c' = None \<and> \<not> c_has_transport c'
     \<and> (\<exists>t. c_dropped c' = op_close ops t # c_dropped c)
     \<and> client_disconnect ops C c' = (Ret (), c')"
proof -
  obtain o1 s1 where b: "bye ops C s = (o1, s1)" by fastforce
  have "o1 \<noteq> Blocked" using assms(1,2,3) b by (auto simp: client_disconnect_def)
  then have "\<exists>t. s_transport s1 = op_close ops t"
    using b assms(4)
    by (auto simp: bye_def finally_io_def split: prod.splits outcome.splits)
  moreover have "c_session c' = None \<and> \<not> c_has_transport c'
      \<and> c_dropped c' = (if c_has_transport c then op_close ops (s_transport s1) else s_transport s1) # c_dropped c"
    using assms(1,3) b \<open>o1 \<noteq> Blocked\<close>
    by (auto simp: client_disconnect_def split: outcome.splits)
  ultimately show ?thesis by (auto simp: client_disconnect_def)
qed

theorem client_disconnect_closes_witness:
  "\<exists>out c' t. client_disconnect tcp_ops demo_crypto
       (demo_client\<lparr>c_session := Some (demo_session (demo_tcp [])), c_has_transport := True\<rparr>)
       = (out, c') \<and> c_dropped c' = [tcp_close t]"
proof -
  let ?s = "demo_session (demo_tcp [])"
  let ?c = "demo_client\<lparr>c_session := Some ?s, c_has_transport := True\<rparr>"
  obtain out c' where d: "client_disconnect tcp_ops demo_crypto ?c = (out, c')" by fastforce
  have "fst (bye tcp_ops demo_crypto ?s) \<noteq> Blocked"
    by (auto simp: bye_def demo_session_def finally_io_def catch_io_def send_encrypted_def
        send_encrypted_locked_def Let_def bind_io_def lift_sum_def on_transport_def tcp_write_frame_cases
        split: prod.splits outcome.splits sum.splits if_splits)
  then have "out \<noteq> Blocked"
    using d by (auto simp: client_disconnect_def split: prod.splits outcome.splits)
  from client_disconnect_closes [OF d this, of ?s] d show ?thesis
    by (auto simp: demo_session_def)
qed

text \<open>
  Connecting twice leaks: a second successful \<open>connect\<close> without \<open>disconnect\<close> drops the
  transport of the first session exactly as it was, neither closed nor told BYE.
\<close>

theorem client_reconnect_leaks:
  assumes "client_connect ops C reg rnd timeout c = (Ret (), c')" and "c_session c = Some s"
  shows "c_dropped c' = s_transport s # c_dropped c"
  using assms
  by (auto simp: client_connect_def wait_for_def forget_session_def
      split: prod.splits outcome.splits sum.splits if_splits)

theorem client_reconnect_leaks_witness:
  "\<exists>c' t. client_connect tcp_ops demo_crypto (demo_registry t) [5] 10
       (demo_client\<lparr>c_session := Some (demo_session (demo_tcp []))\<rparr>)
       = (Ret (), c') \<and> c_dropped c' = [demo_tcp []]"
proof -
  let ?c = "demo_client\<lparr>c_session := Some (demo_session (demo_tcp []))\<rparr>"
  obtain t ci t' where "client_handshake tcp_ops demo_crypto [5] (replicate 16 9) (Some (replicate 6 3)) t
      = (Ret ci, t')"
    using demo_handshake by blast
  then have "\<exists>c'. client_connect tcp_ops demo_crypto (demo_registry t) [5] 10 ?c = (Ret (), c')"
    by (simp add: client_connect_def wait_for_def)
  then obtain c' where c: "client_connect tcp_ops demo_crypto (demo_registry t) [5] 10 ?c = (Ret (), c')" by blast
  from client_reconnect_leaks [OF this] c show ?thesis by (auto simp: demo_session_def)
qed

end
