(* ===== verification/Dialogue.thy ===== *)
theory Dialogue
  imports Connection Client
begin

text \<open>
  Conversations over TCP: a client that sends messages and awaits the answer to each, and the
  loop of a session handler that receives, computes a reply and sends it.  Each side is
  described by what it writes and returns when the bytes that arrive are the messages of
  the other side, sealed under the paired session information.
\<close>

section \<open>The two sides\<close>

text \<open>A loop that has not returned when its fuel is spent is still running.\<close>

definition until_done :: "('s, 'e, 'a option) io \<Rightarrow> ('s, 'e, 'a) io" where
  "until_done m s =
     (case m s of
        (Ret None, s') \<Rightarrow> (Blocked, s')
      | (Ret (Some x), s') \<Rightarrow> (Ret x, s')
      | (Raise e, s') \<Rightarrow> (Raise e, s')
      | (Blocked, s') \<Rightarrow> (Blocked, s'))"

text \<open>\<open>while True\<close>: receive, reply, send; the fuel counts messages, \<open>fuel\<close> the frames of one.\<close>

fun answer_loop ::
  "'t transport_ops \<Rightarrow> crypto \<Rightarrow> (bytes \<Rightarrow> py_exc + bytes) \<Rightarrow> nat \<Rightarrow> nat \<Rightarrow>
   ('t session, py_exc, unit option) io" where
  "answer_loop ops C reply fuel 0 = ret None"
| "answer_loop ops C reply fuel (Suc n) =
     bind_io (recv ops C fuel None) (\<lambda>r.
     case r of
       None \<Rightarrow> ret None
     | Some data \<Rightarrow>
         bind_io (lift_sum (reply data)) (\<lambda>response.
         bind_io (send ops C response) (\<lambda>_. answer_loop ops C reply fuel n)))"

fun ask_all ::
  "'t transport_ops \<Rightarrow> crypto \<Rightarrow> nat \<Rightarrow> bytes list \<Rightarrow> ('t client, py_exc, bytes option list) io" where
  "ask_all ops C fuel [] = ret []"
| "ask_all ops C fuel (m # ms) =
     bind_io (client_send ops C m) (\<lambda>_.
     bind_io (client_recv ops C fuel) (\<lambda>r.
     bind_io (ask_all ops C fuel ms) (\<lambda>rs. ret (r # rs))))"

section \<open>Messages on the wire\<close>

definition frames_of :: "bytes list \<Rightarrow> nat" where
  "frames_of ms = sum_list (map (\<lambda>m. length (fragments m)) ms)"

fun wires :: "crypto \<Rightarrow> session_info \<Rightarrow> bytes list \<Rightarrow> bytes" where
  "wires C info [] = []"
| "wires C info (m # ms) =
     wire_of C info (fragments m) @ wires C (advance_tx (length (fragments m)) info) ms"

lemma frames_of_simps [simp]:
  "frames_of [] = 0" "frames_of (m # ms) = length (fragments m) + frames_of ms"
  by (simp_all add: frames_of_def)

lemma fragments_bound: "length data \<le> 1808 \<Longrightarrow> length (fragments data) \<le> 4"
  using length_fragments [of data 3] by simp

lemma advance_simps [simp]:
  "session_id (advance_tx n i) = session_id i" "session_id (advance_rx n i) = session_id i"
  "tx_seq (advance_rx n i) = tx_seq i" "tx_seq (advance_tx n i) = tx_seq i + int n"
  by (simp_all add: advance_tx_def advance_rx_def)

lemma seal_advance_rx: "seal C (advance_rx n info) ty p = seal C info ty p"
  by (simp add: seal_def session_nonce_def advance_rx_def)

lemma advance_commute: "advance_tx n (advance_rx k info) = advance_rx k (advance_tx n info)"
  by (simp add: advance_tx_def advance_rx_def)

lemma wire_of_advance_rx: "wire_of C (advance_rx n info) frs = wire_of C info frs"
  by (induction frs arbitrary: info) (auto simp: seal_advance_rx advance_commute split: sum.split)

lemma wires_advance_rx: "wires C (advance_rx n info) ms = wires C info ms"
  by (induction ms arbitrary: info) (simp_all add: wire_of_advance_rx advance_commute)

lemma advance_tx_twice: "advance_tx n (advance_tx k info) = advance_tx (k + n) info"
  by (simp add: advance_tx_def)

lemma advance_rx_twice: "advance_rx n (advance_rx k info) = advance_rx (k + n) info"
  by (simp add: advance_rx_def)

lemma tcp_open_out [simp]: "tcp_open (t\<lparr>tcp_out := x\<rparr>) = tcp_open t"
  by (simp add: tcp_open_def)

lemma paired_receiver: "paired a (advance_tx n b) \<longleftrightarrow> paired a b"
  by (simp add: paired_def advance_tx_def)

lemma paired_sender: "paired (advance_rx n a) b \<longleftrightarrow> paired a b"
  by (simp add: paired_def advance_rx_def)

lemma paired_sent: "paired a b \<Longrightarrow> 8 \<le> length (session_id a) \<and> 0 \<le> tx_seq a"
  by (simp add: paired_def)

section \<open>The server's side\<close>

text \<open>
  The session that has received \<open>ms\<close> and answered them by \<open>rs\<close>, or asked and been answered:
  what both sides of a dialogue have in common.
\<close>

definition after_dialogue ::
  "crypto \<Rightarrow> bytes list \<Rightarrow> bytes list \<Rightarrow> bytes \<Rightarrow> tcp_transport session \<Rightarrow> tcp_transport session \<Rightarrow> bool" where
  "after_dialogue C received sent rest s s' \<longleftrightarrow>
     s_info s' = advance_rx (frames_of received) (advance_tx (frames_of sent) (s_info s))
   \<and> tcp_in (s_transport s') = rest
   \<and> tcp_out (s_transport s') = tcp_out (s_transport s) @ wires C (s_info s) sent
   \<and> tcp_open (s_transport s') \<and> s_closed s' = s_closed s \<and> s_recv_timeout s' = s_recv_timeout s"

lemma answer_loop_tcp:
  assumes law: "aead_law C"
    and "list_all2 (\<lambda>m r. reply m = Inr r \<and> length m \<le> 1808 \<and> length r \<le> 1808) ms rs"
    and "paired a (s_info s)" and "tx_seq a + 4 * int (length ms) \<le> 0xFFFFFFFF"
    and "8 \<le> length (session_id (s_info s))" and "0 \<le> tx_seq (s_info s)"
    and "tx_seq (s_info s) + 4 * int (length ms) \<le> 0xFFFFFFFF"
    and "tcp_open (s_transport s)" and "s_recv_timeout s = None" and "4 \<le> fuel"
    and "tcp_in (s_transport s) = wires C a ms @ rest"
  shows "\<exists>s'. answer_loop tcp_ops C reply fuel (length ms + n) s = answer_loop tcp_ops C reply fuel n s'
    \<and> after_dialogue C ms rs rest s s'"
  using assms(2-)
proof (induction arbitrary: a s rule: list_all2_induct)
  case Nil
  then show ?case by (auto simp: after_dialogue_def)
next
  case (Cons m ms r rs)
  let ?m = "length (fragments m)" and ?r = "length (fragments r)"
  have m4: "?m \<le> 4" and r4: "?r \<le> 4" using Cons.hyps by (auto intro: fragments_bound)
  obtain s1 where recv: "recv tcp_ops C fuel None s = (Ret (Some m), s1)"
    and s1: "s_info s1 = advance_rx ?m (s_info s)" "quiet s s1"
      "tcp_in (s_transport s1) = wires C (advance_tx ?m a) ms @ rest"
    using tcp_recv_message [OF law, of m a s fuel "wires C (advance_tx ?m a) ms @ rest" None] Cons
    by (auto simp: effective_timeout_def)
  let ?s2 = "s1\<lparr>s_info := advance_tx ?r (s_info s1), s_transport := (s_transport s1)\<lparr>tcp_out
      := tcp_out (s_transport s1) @ wire_of C (s_info s1) (fragments r)\<rparr>\<rparr>"
  have send: "send tcp_ops C r s1 = (Ret (), ?s2)"
    using Cons.hyps Cons.prems s1 by (intro tcp_send_message law) (auto simp: quiet_def)
  have pair: "paired (advance_tx ?m a) (s_info ?s2)"
    using paired_advance [OF Cons.prems(1), of ?m] s1(1) by (simp add: paired_receiver)
  have "\<exists>s'. answer_loop tcp_ops C reply fuel (length ms + n) ?s2 = answer_loop tcp_ops C reply fuel n s'
      \<and> after_dialogue C ms rs rest ?s2 s'"
    using Cons.prems s1 m4 r4 pair by (intro Cons.IH) (simp_all add: quiet_def)
  moreover have "answer_loop tcp_ops C reply fuel (length (m # ms) + n) s
      = answer_loop tcp_ops C reply fuel (length ms + n) ?s2"
    using Cons.hyps by (simp add: bind_io_def recv send)
  moreover have "after_dialogue C (m # ms) (r # rs) rest s s'" if "after_dialogue C ms rs rest ?s2 s'" for s'
    using that s1
    by (simp add: after_dialogue_def quiet_def advance_commute advance_tx_twice advance_rx_twice
        wire_of_advance_rx wires_advance_rx)
  ultimately show ?case by metis
qed

section \<open>The client's side\<close>

lemma client_calls:
  "c_session c = Some s \<Longrightarrow> send ops C m s = (out, s') \<Longrightarrow>
   client_send ops C m c = (out, c\<lparr>c_session := Some s'\<rparr>)"
  "c_session c = Some s \<Longrightarrow> recv ops C fuel None s = (r, s') \<Longrightarrow>
   client_recv ops C fuel c = (r, c\<lparr>c_session := Some s'\<rparr>)"
  by (simp_all add: client_send_def client_recv_def with_session_def)

lemma ask_all_tcp:
  assumes law: "aead_law C"
    and "list_all2 (\<lambda>m r. length m \<le> 1808 \<and> length r \<le> 1808) ms rs"
    and "c_session c = Some s"
    and "paired b (s_info s)" and "tx_seq b + 4 * int (length ms) \<le> 0xFFFFFFFF"
    and "8 \<le> length (session_id (s_info s))" and "0 \<le> tx_seq (s_info s)"
    and "tx_seq (s_info s) + 4 * int (length ms) \<le> 0xFFFFFFFF"
    and "tcp_open (s_transport s)" and "s_recv_timeout s = None" and "4 \<le> fuel"
    and "tcp_in (s_transport s) = wires C b rs @ rest"
  shows "\<exists>s'. ask_all tcp_ops C fuel ms c = (Ret (map Some rs), c\<lparr>c_session := Some s'\<rparr>)
    \<and> after_dialogue C rs ms rest s s'"
  using assms(2-)
proof (induction arbitrary: b c s rule: list_all2_induct)
  case Nil
  then show ?case by (intro exI [of _ s]) (simp add: after_dialogue_def)
next
  case (Cons m ms r rs)
  let ?m = "length (fragments m)" and ?r = "length (fragments r)"
  have m4: "?m \<le> 4" and r4: "?r \<le> 4" using Cons.hyps by (auto intro: fragments_bound)
  let ?s1 = "s\<lparr>s_info := advance_tx ?m (s_info s), s_transport := (s_transport s)\<lparr>tcp_out
      := tcp_out (s_transport s) @ wire_of C (s_info s) (fragments m)\<rparr>\<rparr>"
  have send: "send tcp_ops C m s = (Ret (), ?s1)"
    using Cons.hyps Cons.prems by (intro tcp_send_message law) auto
  obtain s2 where recv: "recv tcp_ops C fuel None ?s1 = (Ret (Some r), s2)"
    and s2: "s_info s2 = advance_rx ?r (s_info ?s1)" "quiet ?s1 s2"
      "tcp_in (s_transport s2) = wires C (advance_tx ?r b) rs @ rest"
    using tcp_recv_message [OF law, of r b ?s1 fuel "wires C (advance_tx ?r b) rs @ rest" None] Cons.prems Cons.hyps
    by (auto simp: effective_timeout_def paired_receiver)
  have pair: "paired (advance_tx ?r b) (s_info s2)"
    using paired_advance [OF Cons.prems(2), of ?r] s2(1)
    by (simp add: advance_commute [symmetric] paired_receiver)
  have "\<exists>s'. ask_all tcp_ops C fuel ms (c\<lparr>c_session := Some s2\<rparr>)
        = (Ret (map Some rs), (c\<lparr>c_session := Some s2\<rparr>)\<lparr>c_session := Some s'\<rparr>)
      \<and> after_dialogue C rs ms rest s2 s'"
    using Cons.prems s2 m4 r4 pair by (intro Cons.IH) (simp_all add: quiet_def)
  then obtain s' where ask: "ask_all tcp_ops C fuel ms (c\<lparr>c_session := Some s2\<rparr>)
        = (Ret (map Some rs), c\<lparr>c_session := Some s'\<rparr>)" and s': "after_dialogue C rs ms rest s2 s'"
    by auto
  have "client_send tcp_ops C m c = (Ret (), c\<lparr>c_session := Some ?s1\<rparr>)"
    by (rule client_calls(1) [OF Cons.prems(1) send])
  moreover have "client_recv tcp_ops C fuel (c\<lparr>c_session := Some ?s1\<rparr>) = (Ret (Some r), c\<lparr>c_session := Some s2\<rparr>)"
    using client_calls(2) [OF _ recv, of "c\<lparr>c_session := Some ?s1\<rparr>"] by simp
  ultimately have "ask_all tcp_ops C fuel (m # ms) c = (Ret (map Some (r # rs)), c\<lparr>c_session := Some s'\<rparr>)"
    by (simp add: bind_io_def ask)
  moreover have "after_dialogue C (r # rs) (m # ms) rest s s'"
    using s' s2
    by (simp add: after_dialogue_def quiet_def advance_commute advance_tx_twice advance_rx_twice
        wires_advance_rx)
  ultimately show ?case by blast
qed

section \<open>The end\<close>

definition bye_frame :: "crypto \<Rightarrow> session_info \<Rightarrow> bytes" where
  "bye_frame C info = (case seal C info BYE [] of Inl e \<Rightarrow> [] | Inr ct \<Rightarrow> frame_bytes BYE ct (tx_seq info))"

lemma bye_frame_advance_rx: "bye_frame C (advance_rx n info) = bye_frame C info"
  by (simp add: bye_frame_def seal_advance_rx split: sum.split)

lemma bye_tcp:
  assumes "aead_law C" "8 \<le> length (session_id (s_info s))" "0 \<le> tx_seq (s_info s)"
    "tx_seq (s_info s) < 0xFFFFFFFF" "tcp_open (s_transport s)" "\<not> s_closed s"
  shows "bye tcp_ops C s = (Ret (), s\<lparr>s_closed := True, s_info := advance_tx 1 (s_info s),
     s_transport := (s_transport s)\<lparr>tcp_closed := True,
        tcp_out := tcp_out (s_transport s) @ bye_frame C (s_info s)\<rparr>\<rparr>)"
proof -
  obtain ct where ct: "seal C (s_info s) BYE [] = Inr ct"
    using seal_ok [of "s_info s" "[]" C BYE] assms by auto
  have "send_encrypted_locked tcp_ops C BYE [] (s\<lparr>s_closed := True\<rparr>) = (Ret (),
      (s\<lparr>s_closed := True\<rparr>)\<lparr>s_info := advance_tx 1 (s_info s), s_transport := (s_transport s)\<lparr>tcp_out :=
         tcp_out (s_transport s) @ frame_bytes BYE ct (tx_seq (s_info s))\<rparr>\<rparr>)"
    using send_locked_tcp [OF assms(1), of "s\<lparr>s_closed := True\<rparr>" "[]" BYE ct] assms ct by simp
  then show ?thesis
    using assms(6) ct
    by (simp add: bye_def send_encrypted_def catch_io_def finally_io_def tcp_close_def bye_frame_def)
qed

lemma recv_bye_tcp:
  assumes law: "aead_law C" and pair: "paired a (s_info s)" and seq: "tx_seq a < 0xFFFFFFFF"
    and input: "tcp_in (s_transport s) = bye_frame C a @ rest"
    and "s_recv_timeout s = None" and fuel: "0 < fuel"
  shows "\<exists>s'. recv tcp_ops C fuel None s = (Raise ConnectionClosedError, s') \<and> quiet s s'"
proof -
  obtain ct where ct: "seal C a BYE [] = Inr ct"
    using seal_ok [of a "[]" C BYE] seq pair by (auto simp: paired_def)
  obtain now c where clk: "tick (tcp_clock (s_transport s)) = (now, c)" by (metis surj_pair)
  let ?s = "s\<lparr>s_transport := (s_transport s)\<lparr>tcp_clock := c\<rparr>\<rparr>"
  obtain s1 where rv: "read_verified tcp_ops C ?s = (Ret (Some (sent_frame BYE ct (tx_seq a), [])), s1)"
    and s1: "s_info s1 = s_info s" "quiet ?s s1"
    using read_verified_tcp [OF law, of a ?s BYE "[]" ct rest] pair ct seq input
    by (auto simp: bye_frame_def)
  let ?s' = "update_info (rx_seq_update (\<lambda>n. n + 1)) s1"
  have "recv_step tcp_ops C (recv_start now) ?s = (Raise ConnectionClosedError, ?s')"
    using pair s1(1) seq
    by (simp add: recv_step_def bind_io_def rv accept_seq_def paired_def guarded_dispatch_reliable dispatch_frame_def)
  then have "recv_loop tcp_ops C fuel (recv_start now) ?s = (Raise ConnectionClosedError, ?s')"
    using fuel by (cases fuel) (simp_all add: bind_io_def)
  then have "recv tcp_ops C fuel None s = (Raise ConnectionClosedError, ?s')"
    using clk assms(5)
    by (simp add: recv_eq effective_timeout_def recv_internal_def bind_io_def on_transport_def monotonic_def
        tcp_monotonic_def)
  moreover have "quiet s ?s'" using s1(2) by (simp add: quiet_def tcp_open_def update_info_def)
  ultimately show ?thesis by blast
qed

lemma answer_until_bye:
  assumes law: "aead_law C"
    and replies: "list_all2 (\<lambda>m r. reply m = Inr r \<and> length m \<le> 1808 \<and> length r \<le> 1808) ms rs"
    and "paired a (s_info s)" and "tx_seq a + 4 * int (length ms) < 0xFFFFFFFF"
    and "8 \<le> length (session_id (s_info s))" and "0 \<le> tx_seq (s_info s)"
    and "tx_seq (s_info s) + 4 * int (length ms) \<le> 0xFFFFFFFF"
    and "tcp_open (s_transport s)" and "s_recv_timeout s = None" and "4 \<le> fuel" and "length ms < n"
    and input: "tcp_in (s_transport s) = wires C a ms @ bye_frame C (advance_tx (frames_of ms) a) @ rest"
  shows "\<exists>s'. answer_loop tcp_ops C reply fuel n s = (Raise ConnectionClosedError, s')
    \<and> tcp_out (s_transport s') = tcp_out (s_transport s) @ wires C (s_info s) rs"
proof -
  obtain k where n: "n = length ms + Suc k"
    using assms(11) less_iff_Suc_add [of "length ms" n] by auto
  obtain s1 where loop: "answer_loop tcp_ops C reply fuel (length ms + Suc k) s = answer_loop tcp_ops C reply fuel (Suc k) s1"
    and s1: "after_dialogue C ms rs (bye_frame C (advance_tx (frames_of ms) a) @ rest) s s1"
    using answer_loop_tcp [OF law replies assms(3), of fuel _ "Suc k"] assms by fastforce
  have "frames_of ms \<le> 4 * length ms"
    using replies by (induction rule: list_all2_induct) (auto dest: fragments_bound)
  then have seq: "tx_seq (advance_tx (frames_of ms) a) < 0xFFFFFFFF" using assms(4) by simp
  have pair: "paired (advance_tx (frames_of ms) a) (s_info s1)"
    using paired_advance [OF assms(3), of "frames_of ms"] s1
    by (simp add: after_dialogue_def advance_commute [symmetric] paired_receiver)
  obtain s2 where "recv tcp_ops C fuel None s1 = (Raise ConnectionClosedError, s2)" "quiet s1 s2"
    using recv_bye_tcp [OF law pair seq, of rest fuel] s1 assms(9,10) by (auto simp: after_dialogue_def)
  with s1 loop n show ?thesis by (simp add: bind_io_def after_dialogue_def quiet_def)
qed

section \<open>A whole connection\<close>

definition dialogue ::
  "'t transport_ops \<Rightarrow> crypto \<Rightarrow> ('t transport_class, 'l) registry \<Rightarrow> bytes \<Rightarrow> rat \<Rightarrow> nat \<Rightarrow> bytes list \<Rightarrow>
   ('t client, py_exc, bytes option list) io" where
  "dialogue ops C reg rnd timeout fuel ms =
     bind_io (client_connect ops C reg rnd timeout) (\<lambda>_.
     bind_io (ask_all ops C fuel ms) (\<lambda>rs.
     bind_io (client_disconnect ops C) (\<lambda>_. ret rs)))"

lemma new_session_tcp:
  "\<exists>t now. new_session tcp_ops t0 info None = \<lparr>s_transport = t0\<lparr>tcp_clock := t\<rparr>, s_info = info,
     s_recv_timeout = None, s_last_recv = now, s_closed = False\<rparr>"
  by (auto simp: new_session_def tcp_monotonic_def split: prod.split)

lemma frames_of_bound: "list_all (\<lambda>m. length m \<le> 1808) ms \<Longrightarrow> frames_of ms \<le> 4 * length ms"
  by (induction ms) (auto dest: fragments_bound)

lemma dialogue_tcp:
  assumes laws: "dh_law C" "hmac_law C" "hkdf_law C" "aead_law C"
    and lens: "length (c_device_id c) = 6" "length nonce = 32" "length sid = 16" "16 \<le> length (c_psk c)"
    and keys: "derive_session_keys C priv_c pub_s nonce (x_public C priv_c) pub_s = Inr (k1, k2)"
    and pubs: "length pub_s = 32"
    and msgs: "list_all2 (\<lambda>m r. length m \<le> 1808 \<and> length r \<le> 1808) ms rs"
      "4 * int (length ms) < 0xFFFFFFFF"
    and conn: "open_transport reg c = Inr t" "tcp_open t" "0 < timeout" "4 \<le> fuel" "c_session c = None"
    and input: "tcp_in t = frame_bytes CHALLENGE (nonce @ pub_s) 0
        @ frame_bytes SESSION_OK (sid @ server_hmac C (c_psk c) nonce sid (x_public C priv_c) pub_s) 0
        @ wires C (fresh_info (c_device_id c) sid k2 k1) rs"
  shows "\<exists>c' t'. dialogue tcp_ops C reg priv_c timeout fuel ms c = (Ret (map Some rs), c')
    \<and> c_session c' = None \<and> c_dropped c' = t' # c_dropped c \<and> tcp_closed t'
    \<and> tcp_out t' = tcp_out t @ frame_bytes HELLO (c_device_id c @ x_public C priv_c) 0
        @ frame_bytes HELLO_ACK (client_hmac C (c_psk c) nonce (c_device_id c) (x_public C priv_c) pub_s) 2
        @ wires C (fresh_info (c_device_id c) sid k1 k2) ms
        @ bye_frame C (advance_tx (frames_of ms) (fresh_info (c_device_id c) sid k1 k2))"
proof -
  let ?ci = "fresh_info (c_device_id c) sid k1 k2" and ?si = "fresh_info (c_device_id c) sid k2 k1"
  let ?hello = "frame_bytes HELLO (c_device_id c @ x_public C priv_c) 0
      @ frame_bytes HELLO_ACK (client_hmac C (c_psk c) nonce (c_device_id c) (x_public C priv_c) pub_s) 2"
  let ?t = "t\<lparr>tcp_out := tcp_out t @ ?hello, tcp_in := wires C ?si rs\<rparr>"
  have "client_handshake tcp_ops C priv_c (c_psk c) (Some (c_device_id c)) t = (Ret ?ci, ?t)"
    by (rule client_handshake_tcp [OF laws(1-3) lens keys pubs refl conn(2) input])
  moreover obtain clk now where new: "new_session tcp_ops ?t ?ci None = \<lparr>s_transport = ?t\<lparr>tcp_clock := clk\<rparr>,
      s_info = ?ci, s_recv_timeout = None, s_last_recv = now, s_closed = False\<rparr>" (is "_ = ?s")
    using new_session_tcp by blast
  ultimately have connect: "client_connect tcp_ops C reg priv_c timeout c
      = (Ret (), c\<lparr>c_session := Some ?s, c_has_transport := True\<rparr>)" (is "_ = (_, ?c)")
    using conn by (simp add: client_connect_def wait_for_def forget_session_def)
  have "peers ?si ?ci" by (rule agreed_sessions [OF lens(3)])
  then have pair: "paired ?si ?ci" by (simp add: peers_def)
  have "list_all (\<lambda>m. length m \<le> 1808) ms" using msgs(1) by (induction rule: list_all2_induct) auto
  then have frames: "frames_of ms \<le> 4 * length ms" by (rule frames_of_bound)
  have zero: "tx_seq ?ci = 0" "tx_seq ?si = 0" by (simp_all add: fresh_info_def)
  obtain s1 where ask: "ask_all tcp_ops C fuel ms ?c = (Ret (map Some rs), ?c\<lparr>c_session := Some s1\<rparr>)"
    and s1: "after_dialogue C rs ms [] ?s s1"
    using ask_all_tcp [OF laws(4) msgs(1), of ?c ?s ?si fuel "[]"] pair msgs(2) lens(3) conn(2,4) zero
    by (auto simp: tcp_open_def)
  let ?s2 = "s1\<lparr>s_closed := True, s_info := advance_tx 1 (s_info s1), s_transport := (s_transport s1)\<lparr>tcp_closed := True,
        tcp_out := tcp_out (s_transport s1) @ bye_frame C (s_info s1)\<rparr>\<rparr>"
  have "bye tcp_ops C s1 = (Ret (), ?s2)"
    by (rule bye_tcp) (use s1 laws(4) lens(3) zero msgs(2) frames in \<open>simp_all add: after_dialogue_def\<close>)
  then have "client_disconnect tcp_ops C (?c\<lparr>c_session := Some s1\<rparr>)
      = (Ret (), (?c\<lparr>c_session := None, c_has_transport := False,
           c_dropped := tcp_close (s_transport ?s2) # c_dropped c\<rparr>))"
    by (simp add: client_disconnect_def)
  then have "dialogue tcp_ops C reg priv_c timeout fuel ms c = (Ret (map Some rs),
      (?c\<lparr>c_session := None, c_has_transport := False, c_dropped := tcp_close (s_transport ?s2) # c_dropped c\<rparr>))"
    by (simp add: dialogue_def bind_io_def connect ask)
  moreover have "bye_frame C (s_info s1) = bye_frame C (advance_tx (frames_of ms) ?ci)"
    using s1 by (simp add: after_dialogue_def bye_frame_advance_rx)
  ultimately show ?thesis
    using s1 by (intro exI conjI) (assumption | simp add: tcp_close_def after_dialogue_def)+
qed

text \<open>The server's side of the same connection.\<close>

lemma answered_connection_tcp:
  assumes laws: "dh_law C" "hmac_law C" "hkdf_law C" "aead_law C"
    and lens: "length dev = 6" "length (r_nonce rnd) = 32" "length (r_session_id rnd) = 16"
    and psk: "resolve_psk src dev = Inr psk"
    and keys: "derive_session_keys C (r_private rnd) pub_c (r_nonce rnd) pub_c pub_s = Inr (k1, k2)"
    and pubs: "length pub_c = 32" "pub_s = x_public C (r_private rnd)"
    and msgs: "list_all2 (\<lambda>m r. reply m = Inr r \<and> length m \<le> 1808 \<and> length r \<le> 1808) ms rs"
      "4 * int (length ms) < 0xFFFFFFFF"
    and handler: "\<forall>s s'. answer_loop tcp_ops C reply fuel n s = (Raise ConnectionClosedError, s') \<longrightarrow> h s = (Ret (), s')"
    and conn: "tcp_open t" "0 < timeout" "4 \<le> fuel" "length ms < n"
      "admit_tcp (ip_of_peer (tcp_peer t)) sv = Some sv'"
      "\<not> locked_out (sv_failed sv) (limiter_key_of (tcp_peer t) ident) (fst (tick (tcp_clock t)))"
    and input: "tcp_in t = frame_bytes HELLO (dev @ pub_c) 0
        @ frame_bytes HELLO_ACK (client_hmac C psk (r_nonce rnd) dev pub_c pub_s) 2
        @ wires C (fresh_info dev (r_session_id rnd) k1 k2) ms
        @ bye_frame C (advance_tx (frames_of ms) (fresh_info dev (r_session_id rnd) k1 k2))"
  shows "\<exists>k'. on_tcp_connect tcp_ops C rnd ident src timeout (Some h)
       \<lparr>k_server = sv, k_transport = t, k_decremented = b\<rparr> = (Ret (), k')
    \<and> tcp_closed (k_transport k')
    \<and> k_server k' = release_tcp (ip_of_peer (tcp_peer t))
        (sv'\<lparr>sv_failed := AList.delete (limiter_key_of (tcp_peer t) ident) (sv_failed sv)\<rparr>)
    \<and> tcp_out (k_transport k') = tcp_out t @ frame_bytes CHALLENGE (r_nonce rnd @ pub_s) 0
        @ frame_bytes SESSION_OK
            (r_session_id rnd @ server_hmac C psk (r_nonce rnd) (r_session_id rnd) pub_c pub_s) 0
        @ wires C (fresh_info dev (r_session_id rnd) k2 k1) rs"
proof -
  let ?ci = "fresh_info dev (r_session_id rnd) k1 k2" and ?si = "fresh_info dev (r_session_id rnd) k2 k1"
  let ?sent = "frame_bytes CHALLENGE (r_nonce rnd @ pub_s) 0 @ frame_bytes SESSION_OK
      (r_session_id rnd @ server_hmac C psk (r_nonce rnd) (r_session_id rnd) pub_c pub_s) 0"
  let ?key = "limiter_key_of (tcp_peer t) ident"
  let ?rest = "wires C ?ci ms @ bye_frame C (advance_tx (frames_of ms) ?ci)"
  let ?t = "t\<lparr>tcp_clock := snd (tick (tcp_clock t)), tcp_in := ?rest, tcp_out := tcp_out t @ ?sent\<rparr>"
  have failed: "sv_failed sv' = sv_failed sv" using conn(5) by (auto simp: admit_tcp_def Let_def split: if_splits)
  have "server_handshake tcp_ops C rnd ident src \<lparr>h_transport = t, h_failed = sv_failed sv\<rparr>
      = (Ret ?si, \<lparr>h_transport = ?t, h_failed = AList.delete ?key (sv_failed sv)\<rparr>)"
    by (rule server_handshake_tcp [OF laws(1-3) lens psk keys pubs conn(1) input conn(6)])
  then have shake: "connection_handshake tcp_ops C rnd ident src timeout
        \<lparr>k_server = sv', k_transport = t, k_decremented = b\<rparr>
      = (Ret ?si, \<lparr>k_server = sv'\<lparr>sv_failed := AList.delete ?key (sv_failed sv)\<rparr>, k_transport = ?t, k_decremented = b\<rparr>)"
    using conn(2) failed by (simp add: connection_handshake_def run_handshake_def wait_for_def)
  obtain clk now where new: "new_session tcp_ops ?t ?si None = \<lparr>s_transport = ?t\<lparr>tcp_clock := clk\<rparr>,
      s_info = ?si, s_recv_timeout = None, s_last_recv = now, s_closed = False\<rparr>" (is "_ = ?s")
    using new_session_tcp by blast
  have "peers ?ci ?si" by (rule agreed_sessions [OF lens(3)])
  then have pair: "paired ?ci ?si" by (simp add: peers_def)
  have zero: "tx_seq ?ci = 0" "tx_seq ?si = 0" by (simp_all add: fresh_info_def)
  obtain s' where "answer_loop tcp_ops C reply fuel n ?s = (Raise ConnectionClosedError, s')"
    and s': "tcp_out (s_transport s') = tcp_out t @ ?sent @ wires C ?si rs"
    using answer_until_bye [OF laws(4) msgs(1), of ?ci ?s fuel n "[]"] pair msgs(2) lens(3) conn(1,3,4) zero
    by (auto simp: tcp_open_def)
  with handler have h: "h ?s = (Ret (), s')" by blast
  show ?thesis
    using conn(5) shake new h s'
    by (simp add: on_tcp_connect_def bind_io_def catch_io_def finally_io_def run_session_def tcp_finally_def tcp_close_def)
qed

text \<open>Both: each side reads what the other writes.\<close>

lemma dialogue_agrees:
  assumes laws: "dh_law C" "hmac_law C" "hkdf_law C" "aead_law C"
    and lens: "length (c_device_id c) = 6" "length (r_nonce rnd) = 32" "length (r_session_id rnd) = 16"
    and psk: "resolve_psk src (c_device_id c) = Inr (c_psk c)"
    and keys: "derive_session_keys C priv_c (x_public C (r_private rnd)) (r_nonce rnd) (x_public C priv_c)
           (x_public C (r_private rnd)) = Inr (k1, k2)"
    and msgs: "list_all2 (\<lambda>m r. reply m = Inr r \<and> length m \<le> 1808 \<and> length r \<le> 1808) ms rs"
      "4 * int (length ms) < 0xFFFFFFFF"
    and handler: "\<forall>s s'. answer_loop tcp_ops C reply fuel n s = (Raise ConnectionClosedError, s') \<longrightarrow> h s = (Ret (), s')"
    and conn: "\<And>input. open_transport (reg input) c = Inr (tcp_connected ps clk input False)" "c_session c = None"
      "0 < ctimeout" "0 < timeout" "4 \<le> fuel" "length ms < n"
      "admit_tcp (ip_of_peer pc) sv = Some sv'"
      "\<not> locked_out (sv_failed sv) (limiter_key_of pc ident) (fst (tick clk'))"
  shows "\<exists>c' t' k'.
     dialogue tcp_ops C (reg (tcp_out (k_transport k'))) priv_c ctimeout fuel ms c = (Ret (map Some rs), c')
   \<and> on_tcp_connect tcp_ops C rnd ident src timeout (Some h)
       \<lparr>k_server = sv, k_transport = tcp_connected pc clk' (tcp_out t') False, k_decremented = b\<rparr> = (Ret (), k')
   \<and> c_dropped c' = t' # c_dropped c \<and> c_session c' = None \<and> tcp_closed t' \<and> tcp_closed (k_transport k')
   \<and> k_server k' = release_tcp (ip_of_peer pc)
        (sv'\<lparr>sv_failed := AList.delete (limiter_key_of pc ident) (sv_failed sv)\<rparr>)"
proof -
  let ?dev = "c_device_id c" and ?sid = "r_session_id rnd" and ?n = "r_nonce rnd"
  let ?pc = "x_public C priv_c" and ?ps = "x_public C (r_private rnd)"
  let ?ms = "frame_bytes CHALLENGE (?n @ ?ps) 0
      @ frame_bytes SESSION_OK (?sid @ server_hmac C (c_psk c) ?n ?sid ?pc ?ps) 0
      @ wires C (fresh_info ?dev ?sid k2 k1) rs"
  have pub: "length ?pc = 32" "length ?ps = 32" using laws(1) by (simp_all add: dh_law_def)
  have keys': "derive_session_keys C (r_private rnd) ?pc ?n ?pc ?ps = Inr (k1, k2)"
    using keys laws(1) by (simp add: derive_session_keys_def dh_law_def)
  have sizes: "list_all2 (\<lambda>m r. length m \<le> 1808 \<and> length r \<le> 1808) ms rs"
    using msgs(1) by (rule list_all2_mono) simp
  obtain c' t' where d: "dialogue tcp_ops C (reg ?ms) priv_c ctimeout fuel ms c = (Ret (map Some rs), c')"
      "c_session c' = None" "c_dropped c' = t' # c_dropped c" "tcp_closed t'"
    and out: "tcp_out t' = frame_bytes HELLO (?dev @ ?pc) 0
        @ frame_bytes HELLO_ACK (client_hmac C (c_psk c) ?n ?dev ?pc ?ps) 2
        @ wires C (fresh_info ?dev ?sid k1 k2) ms
        @ bye_frame C (advance_tx (frames_of ms) (fresh_info ?dev ?sid k1 k2))"
    using dialogue_tcp [OF laws lens resolve_psk_length [OF psk] keys pub(2) sizes msgs(2) conn(1) _ conn(3,5,2), of ?ms]
    by (auto simp: tcp_connected_def tcp_open_def)
  define t where "t = tcp_connected pc clk' (tcp_out t') False"
  have t: "tcp_open t" "tcp_in t = tcp_out t'" "tcp_out t = []" "tcp_peer t = pc" "tcp_clock t = clk'"
    by (simp_all add: t_def tcp_connected_def tcp_open_def)
  obtain k' where "on_tcp_connect tcp_ops C rnd ident src timeout (Some h)
       \<lparr>k_server = sv, k_transport = t, k_decremented = b\<rparr> = (Ret (), k')" "tcp_closed (k_transport k')"
     "k_server k' = release_tcp (ip_of_peer pc)
        (sv'\<lparr>sv_failed := AList.delete (limiter_key_of pc ident) (sv_failed sv)\<rparr>)"
     "tcp_out (k_transport k') = ?ms"
    using answered_connection_tcp [OF laws lens psk keys' pub(1) refl msgs handler t(1) conn(4-6),
      where sv = sv and sv' = sv' and ident = ident and b = b] conn(7,8)
    unfolding t out by auto
  with d show ?thesis unfolding t_def by metis
qed

end
