(* ===== verification/Lifecycle.thy ===== *)
theory Lifecycle
  imports Connection
begin

text \<open>
  The life of a server: \<open>serve\<close> and \<open>stop\<close> of \<open>_server.py\<close> and \<open>stop\<close> of the listeners in
  \<open>transport/tcp.py\<close> and \<open>transport/udp.py\<close>.  Stopping cancels the tasks of the connections;
  how they end, one after the other, is a step relation, since each runs its \<open>finally\<close>
  block when it gets its turn and the order is asyncio's.
\<close>

section \<open>Starting\<close>

text \<open>
  The start of \<open>serve\<close>: a handler has to be registered, the protocol known, and the endpoint
  opened, which \<open>start\<close> does or raises.
\<close>

definition serve_start ::
  "bool \<Rightarrow> ('t, 'l) registry \<Rightarrow> string \<Rightarrow> ('l \<Rightarrow> py_exc + 'm) \<Rightarrow> py_exc + 'm" where
  "serve_start has_handler reg protocol start =
     (if \<not> has_handler then Inl RuntimeError
      else bindE (get_listener_class reg protocol) start)"

text \<open>\<open>USMPServer.stop\<close> on \<open>_shutdown_event\<close>: \<open>None\<close> before \<open>serve\<close>, then whether it is set.\<close>

definition stop_event :: "bool option \<Rightarrow> bool option" where
  "stop_event ev = (case ev of None \<Rightarrow> None | Some is_set \<Rightarrow> if \<not> is_set then Some True else ev)"

section \<open>Stopping\<close>

text \<open>\<open>UDPListener.stop\<close> before it cancels the tasks: every stream in the tables is closed.\<close>

definition stop_streams :: "server \<Rightarrow> server" where
  "stop_streams sv =
     (let sv = fold close_stream (map snd (sv_sessions sv)) sv;
          sv = fold close_stream (map snd (sv_handshakes sv)) sv
      in sv\<lparr>sv_sessions := [], sv_handshakes := []\<rparr>)"

definition listener_stop :: "protocol \<Rightarrow> system \<Rightarrow> system" where
  "listener_stop p s =
     (case p of TCP \<Rightarrow> s | UDP \<Rightarrow> s\<lparr>sys_server := stop_streams (sys_server s)\<rparr>)"

text \<open>
  A cancelled task ends: with the cancellation or with whatever its handler makes of it, the
  \<open>finally\<close> block runs; a UDP task that never got its first turn is only dropped.  A handler may catch
  the cancellation and go on, which only delays the end of its task: \<open>serve_step\<close> in \<open>Endpoints\<close>.
\<close>

inductive drain_step :: "system \<Rightarrow> system \<Rightarrow> bool" where
  tcp_cancelled: "ip \<in> set (sys_tcp s) \<Longrightarrow>
    drain_step s (s\<lparr>sys_server := release_tcp ip (after_error ip now e (sys_server s)),
      sys_tcp := remove1 ip (sys_tcp s)\<rparr>)"
| udp_cancelled: "map_of (sys_udp s) i = Some (addr, decremented) \<Longrightarrow>
    drain_step s (s\<lparr>sys_server := release_udp addr i decremented (after_error (fst addr) now e (sys_server s)),
      sys_udp := AList.delete i (sys_udp s)\<rparr>)"
| udp_unstarted: "map_of (sys_udp s) i = Some (addr, False) \<Longrightarrow>
    drain_step s (s\<lparr>sys_udp := AList.delete i (sys_udp s)\<rparr>)"

inductive_cases drain_stepE: "drain_step s s'"

definition task_count :: "system \<Rightarrow> nat" where
  "task_count s = length (sys_tcp s) + length (sys_udp s)"

section \<open>Nothing is left\<close>

lemma close_stream_closes:
  "map_of (sv_streams sv) i = Some u \<Longrightarrow>
   \<exists>u'. map_of (sv_streams (close_stream j sv)) i = Some u' \<and> (u_closed u \<or> i = j \<longrightarrow> u_closed u')"
  by (auto simp: close_stream_def map_of_update udp_close_def Let_def split: option.split)

lemma close_streams_close:
  "map_of (sv_streams sv) i = Some u \<Longrightarrow>
   \<exists>u'. map_of (sv_streams (fold close_stream js sv)) i = Some u' \<and> (u_closed u \<or> i \<in> set js \<longrightarrow> u_closed u')"
proof (induction js arbitrary: sv u)
  case (Cons j js)
  from close_stream_closes [OF Cons.prems, of j] obtain v
    where v: "map_of (sv_streams (close_stream j sv)) i = Some v" "u_closed u \<or> i = j \<longrightarrow> u_closed v" by blast
  from Cons.IH [OF v(1)] v(2) show ?case by auto
qed simp

lemma fold_close_tables: "same_tables sv (fold close_stream js sv)"
proof (induction js arbitrary: sv)
  case (Cons j js)
  from Cons [of "close_stream j sv"] same_tables_ops(2) [of sv j] show ?case
    by (simp add: same_tables_def)
qed simp

lemma stop_streams_tables:
  "sv_sessions (stop_streams sv) = [] \<and> sv_handshakes (stop_streams sv) = []
   \<and> sv_tcp_connections (stop_streams sv) = sv_tcp_connections sv"
  using fold_close_tables [of sv "map snd (sv_sessions sv)"]
    fold_close_tables [of "fold close_stream (map snd (sv_sessions sv)) sv"]
  by (simp add: stop_streams_def Let_def same_tables_def)

lemma stop_streams_close:
  assumes "map_of (sv_streams sv) i = Some u"
  shows "\<exists>u'. map_of (sv_streams (stop_streams sv)) i = Some u'
    \<and> (i \<in> snd ` set (sv_handshakes sv) \<longrightarrow> u_closed u')"
proof -
  let ?sv = "fold close_stream (map snd (sv_sessions sv)) sv"
  have "sv_handshakes ?sv = sv_handshakes sv"
    using fold_close_tables [of sv] by (simp add: same_tables_def)
  moreover obtain v where "map_of (sv_streams ?sv) i = Some v"
    using close_streams_close [OF assms] by blast
  ultimately show ?thesis
    using close_streams_close [of ?sv i v "map snd (sv_handshakes sv)"] by (auto simp: stop_streams_def Let_def)
qed

text \<open>The stream of every running task is in the store: no step takes a stream out of it.\<close>

definition streams_kept :: "server \<Rightarrow> server \<Rightarrow> bool" where
  "streams_kept sv sv' \<longleftrightarrow> dom (map_of (sv_streams sv)) \<subseteq> dom (map_of (sv_streams sv'))"

lemma streams_kept_same: "sv_streams sv' = sv_streams sv \<Longrightarrow> streams_kept sv sv'"
  by (simp add: streams_kept_def)

lemma dom_update: "dom (map_of (AList.update k v d)) = insert k (dom (map_of d))"
  by (auto simp: map_of_update)

lemma streams_kept_ops:
  "streams_kept sv (close_stream i sv)" "streams_kept sv (feed_stream C i d sv)"
  "streams_kept sv (store_stream i u sv)" "streams_kept sv (after_error ip now e sv)"
  "streams_kept sv (issue_cookie C wall now d a sv)" "streams_kept sv (release_tcp ip sv)"
  by (auto simp: streams_kept_def close_stream_def feed_stream_def store_stream_def after_error_def
      issue_cookie_def send_datagram_def release_tcp_def Let_def dom_update split: option.split prod.split sum.split)

lemma streams_kept_datagram:
  assumes "handle_udp_datagram C wall now d a sv = (sv', r)"
  shows "streams_kept sv sv' \<and> (\<forall>i. r = Some i \<longrightarrow> i \<in> dom (map_of (sv_streams sv')))"
proof (cases "sv' = start_handshake C now d a sv \<and> r = Some (sv_next sv)")
  case True
  then show ?thesis by (auto simp: start_handshake_def Let_def streams_kept_def dom_update)
next
  case False
  with assms have "r = None \<and> (sv' = sv \<or> (\<exists>i. sv' = feed_stream C i d sv) \<or> sv' = issue_cookie C wall now d a sv)"
    by (auto simp: handle_udp_datagram_def handle_hello_def route_data_def split: option.splits if_splits)
  then show ?thesis by (elim conjE disjE exE) (simp_all add: streams_kept_ops streams_kept_same)
qed

lemma streams_kept_register: "register_udp a i sv = (sv', ok) \<Longrightarrow> streams_kept sv sv'"
  by (auto simp: register_udp_def Let_def streams_kept_def close_stream_def map_of_update
      split: if_splits option.splits)

lemma streams_kept_release: "streams_kept sv (release_udp a i d sv)"
  by (auto simp: release_udp_def Let_def streams_kept_def close_stream_def map_of_update split: option.split)

lemma streams_kept_admit: "admit_tcp ip sv = Some sv' \<Longrightarrow> streams_kept sv sv'"
  by (auto simp: admit_tcp_def streams_kept_def split: if_splits)

lemma streams_kept_trans: "streams_kept sv1 sv2 \<Longrightarrow> streams_kept sv2 sv3 \<Longrightarrow> streams_kept sv1 sv3"
  by (auto simp: streams_kept_def)

definition tasks_have_streams :: "system \<Rightarrow> bool" where
  "tasks_have_streams s \<longleftrightarrow> dom (map_of (sys_udp s)) \<subseteq> dom (map_of (sv_streams (sys_server s)))"

lemma tasks_have_streamsI:
  "tasks_have_streams s \<Longrightarrow> streams_kept (sys_server s) (sys_server s') \<Longrightarrow>
   dom (map_of (sys_udp s')) \<subseteq> dom (map_of (sys_udp s)) \<Longrightarrow> tasks_have_streams s'"
  by (auto simp: tasks_have_streams_def streams_kept_def)

lemma dom_delete: "dom (map_of (AList.delete k d)) \<subseteq> dom (map_of d)"
  by (auto simp: map_of_delete_iff split: if_splits)

lemma tasks_have_streams_step: "server_step C s s' \<Longrightarrow> tasks_have_streams s \<Longrightarrow> tasks_have_streams s'"
proof (induction rule: server_step.induct)
  case (udp_task wall now data addr s sv i)
  then show ?case
    using streams_kept_datagram [OF udp_task(1)] by (auto simp: tasks_have_streams_def streams_kept_def)
next
  case (udp_registered s i addr sv)
  have "dom (map_of (AList.update i (addr, True) (sys_udp s))) \<subseteq> dom (map_of (sys_udp s))"
    unfolding dom_update using udp_registered(1) by auto
  with streams_kept_register [OF udp_registered(2)] show ?case
    by (intro tasks_have_streamsI [OF udp_registered(3)]) simp_all
next
  case (udp_refused s i addr sv)
  then show ?case
    by (intro tasks_have_streamsI [OF udp_refused(3)])
      (simp_all add: dom_delete streams_kept_trans [OF streams_kept_register [OF udp_refused(2)] streams_kept_release])
next
  case (udp_ended s i addr d now e)
  then show ?case
    by (intro tasks_have_streamsI [OF udp_ended(2)])
      (simp_all add: dom_delete streams_kept_trans [OF streams_kept_ops(4) streams_kept_release])
next
  case (tcp_ended ip s now e)
  then show ?case
    by (intro tasks_have_streamsI [OF tcp_ended(2)])
      (simp_all add: streams_kept_trans [OF streams_kept_ops(4) streams_kept_ops(6)])
next
  case (datagram wall now data addr s sv)
  then show ?case
    using streams_kept_datagram [OF datagram(1)] by (intro tasks_have_streamsI [OF datagram(2)]) simp_all
next
  case (tcp_accepted ip s sv)
  then show ?case
    using streams_kept_admit [OF tcp_accepted(1)] by (intro tasks_have_streamsI [OF tcp_accepted(2)]) simp_all
next
  case (handshake_counted d k s now)
  then show ?case by (intro tasks_have_streamsI [OF handshake_counted(2)]) (simp_all add: streams_kept_same)
next
  case (stream_used s i t u)
  then show ?case by (intro tasks_have_streamsI [OF stream_used(2)]) (simp_all add: streams_kept_ops)
qed

lemma tasks_have_streams_reachable:
  "server_reachable C s0 s \<Longrightarrow> tasks_have_streams s0 \<Longrightarrow> tasks_have_streams s"
  by (induction rule: server_reachable.induct) (auto intro: tasks_have_streams_step)

text \<open>Every stream that is open belongs to a task that runs: no step leaves one behind.\<close>

definition opens :: "server \<Rightarrow> nat set" where
  "opens sv = {i. \<exists>u. map_of (sv_streams sv) i = Some u \<and> \<not> u_closed u}"

lemma opens_same: "sv_streams sv' = sv_streams sv \<Longrightarrow> opens sv' = opens sv"
  by (simp add: opens_def)

lemma opens_fields [simp]:
  "opens (sv\<lparr>sv_in_progress := c\<rparr>) = opens sv" "opens (sv\<lparr>sv_handshakes := h\<rparr>) = opens sv"
  "opens (sv\<lparr>sv_sessions := ss\<rparr>) = opens sv" "opens (sv\<lparr>sv_failed := d\<rparr>) = opens sv"
  "opens (sv\<lparr>sv_tcp_connections := c\<rparr>) = opens sv"
  by (simp_all add: opens_def)

lemma opens_close [simp]: "opens (close_stream i sv) = opens sv - {i}"
  by (auto simp: opens_def close_stream_def map_of_update split: option.split if_splits)

lemma opens_feed [simp]: "opens (feed_stream C i d sv) = opens sv"
  by (auto simp: opens_def feed_stream_def map_of_update split: option.split if_splits)

lemma opens_store: "opens (store_stream i u sv) \<subseteq> insert i (opens sv)"
  by (auto simp: opens_def store_stream_def map_of_update split: if_splits)

lemma opens_after_error [simp]: "opens (after_error ip now e sv) = opens sv"
  by (rule opens_same) (simp add: after_error_def split: option.split)

lemma opens_cookie [simp]: "opens (issue_cookie C wall now d a sv) = opens sv"
  by (rule opens_same) (simp add: issue_cookie_def send_datagram_def Let_def split: prod.split sum.split)

lemma opens_datagram: "handle_udp_datagram C wall now d a sv = (sv', r) \<Longrightarrow> opens sv' \<subseteq> opens sv \<union> set_option r"
  by (auto simp: handle_udp_datagram_def handle_hello_def route_data_def split: option.splits if_splits)
    (auto simp: opens_def start_handshake_def Let_def map_of_update split: if_splits)

lemma opens_register: "register_udp a i sv = (sv', ok) \<Longrightarrow> opens sv' \<subseteq> opens sv"
  by (auto simp: register_udp_def Let_def split: if_splits option.splits)

lemma opens_release: "opens (release_udp a i d sv) = opens sv - {i}"
  by (simp add: release_udp_def Let_def)

definition owned :: "system \<Rightarrow> bool" where
  "owned s \<longleftrightarrow> opens (sys_server s) \<subseteq> dom (map_of (sys_udp s))"

lemma owned_step: "server_step C s s' \<Longrightarrow> owned s \<Longrightarrow> owned s'"
proof (induction rule: server_step.induct)
  case (datagram wall now data addr s sv)
  then show ?case using opens_datagram [OF datagram(1)] by (auto simp: owned_def)
next
  case (udp_task wall now data addr s sv i)
  then show ?case using opens_datagram [OF udp_task(1)] by (auto simp: owned_def)
next
  case (udp_registered s i addr sv)
  then show ?case using opens_register [OF udp_registered(2)] by (auto simp: owned_def dom_update)
next
  case (udp_refused s i addr sv)
  then show ?case
    using opens_register [OF udp_refused(2)] by (fastforce simp: owned_def opens_release map_of_delete_iff)
next
  case (udp_ended s i addr d now e)
  then show ?case by (fastforce simp: owned_def opens_release map_of_delete_iff)
next
  case (tcp_accepted ip s sv)
  then show ?case by (auto simp: owned_def admit_tcp_def split: if_splits)
next
  case (tcp_ended ip s now e)
  then show ?case by (simp add: owned_def release_tcp_def)
next
  case (handshake_counted d k s now)
  then show ?case by (simp add: owned_def)
next
  case (stream_used s i t u)
  then show ?case using opens_store [of i u "sys_server s"] by (auto simp: owned_def)
qed

lemma owned_reachable: "server_reachable C s0 s \<Longrightarrow> owned s0 \<Longrightarrow> owned s"
  by (induction rule: server_reachable.induct) (auto intro: owned_step)

text \<open>
  What stays true while the tasks end; \<open>T\<close> are the UDP tasks that ran at the stop.  A stream
  that is not closed yet belongs to a task that is going to close it.
\<close>

definition drain_inv :: "(nat, addr \<times> bool) dict \<Rightarrow> system \<Rightarrow> bool" where
  "drain_inv T s \<longleftrightarrow>
     counts (sv_tcp_connections (sys_server s)) (sys_tcp s) \<and> dict_ok (sys_udp s)
     \<and> sv_handshakes (sys_server s) = [] \<and> sv_sessions (sys_server s) = []
     \<and> (\<forall>i t. map_of T i = Some t \<longrightarrow> (\<exists>u. map_of (sv_streams (sys_server s)) i = Some u
          \<and> (u_closed u \<or> map_of (sys_udp s) i = Some (fst t, True))))"

lemma drain_invI:
  assumes "counts (sv_tcp_connections (sys_server s)) (sys_tcp s)" "dict_ok (sys_udp s)"
    "sv_handshakes (sys_server s) = []" "sv_sessions (sys_server s) = []"
    "\<And>i t. map_of T i = Some t \<Longrightarrow> \<exists>u. map_of (sv_streams (sys_server s)) i = Some u
          \<and> (u_closed u \<or> map_of (sys_udp s) i = Some (fst t, True))"
  shows "drain_inv T s"
  using assms by (simp add: drain_inv_def)

lemma drain_invD:
  assumes "drain_inv T s"
  shows "counts (sv_tcp_connections (sys_server s)) (sys_tcp s)" "dict_ok (sys_udp s)"
    "sv_handshakes (sys_server s) = []" "sv_sessions (sys_server s) = []"
    "map_of T i = Some t \<Longrightarrow> \<exists>u. map_of (sv_streams (sys_server s)) i = Some u
          \<and> (u_closed u \<or> map_of (sys_udp s) i = Some (fst t, True))"
  using assms unfolding drain_inv_def by blast+

lemma release_udp_streams:
  "map_of (sv_streams sv) j = Some u \<Longrightarrow>
   \<exists>u'. map_of (sv_streams (release_udp a i d sv)) j = Some u' \<and> (u_closed u \<or> j = i \<longrightarrow> u_closed u')"
  unfolding release_udp_def Let_def by (rule close_stream_closes) simp

lemma after_error_fields [simp]:
  "sv_streams (after_error ip now e sv) = sv_streams sv"
  "sv_tcp_connections (after_error ip now e sv) = sv_tcp_connections sv"
  "sv_handshakes (after_error ip now e sv) = sv_handshakes sv"
  "sv_sessions (after_error ip now e sv) = sv_sessions sv"
  by (simp_all add: after_error_def split: option.split)

lemma drain_inv_step:
  assumes "drain_step s s'" and inv: "drain_inv T s"
  shows "drain_inv T s' \<and> Suc (task_count s') = task_count s"
  using assms(1)
proof (cases rule: drain_step.cases)
  case (tcp_cancelled ip now e)
  have "0 < length (sys_tcp s)" using tcp_cancelled(2) by (cases "sys_tcp s") auto
  moreover have "drain_inv T s'"
    using drain_invD [OF inv] tcp_cancelled
    by (intro drain_invI) (simp_all add: release_tcp_def counts_dec)
  ultimately show ?thesis using tcp_cancelled by (simp add: task_count_def length_remove1)
next
  case (udp_cancelled i addr d now e)
  let ?sv = "after_error (fst addr) now e (sys_server s)"
  note f = release_udp_tables [of ?sv addr i d]
  have "\<exists>u. map_of (sv_streams (sys_server s')) j = Some u
          \<and> (u_closed u \<or> map_of (sys_udp s') j = Some (fst t, True))" if j: "map_of T j = Some t" for j t
  proof -
    obtain u where u: "map_of (sv_streams (sys_server s)) j = Some u"
      "u_closed u \<or> map_of (sys_udp s) j = Some (fst t, True)" using drain_invD(5) [OF inv j] by blast
    obtain u' where "map_of (sv_streams (release_udp addr i d ?sv)) j = Some u'" "u_closed u \<or> j = i \<longrightarrow> u_closed u'"
      using release_udp_streams [of ?sv j u addr i d] u(1) by auto
    with u(2) show ?thesis by (cases "j = i") (auto simp: udp_cancelled(1) map_of_delete_iff)
  qed
  then have "drain_inv T s'"
    using drain_invD(1-4) [OF inv] f by (intro drain_invI) (simp_all add: udp_cancelled(1) same_tables_def)
  moreover have "Suc (length (AList.delete i (sys_udp s))) = length (sys_udp s)"
    using udp_cancelled(2) by (intro length_delete_eq drain_invD(2) [OF inv]) (force dest: map_of_SomeD)
  ultimately show ?thesis by (simp add: udp_cancelled(1) task_count_def)
next
  case (udp_unstarted i addr)
  have "\<exists>u. map_of (sv_streams (sys_server s')) j = Some u
          \<and> (u_closed u \<or> map_of (sys_udp s') j = Some (fst t, True))" if j: "map_of T j = Some t" for j t
    using drain_invD(5) [OF inv j] udp_unstarted by (cases "j = i") (auto simp: map_of_delete_iff)
  then have "drain_inv T s'"
    using drain_invD(1-4) [OF inv] by (intro drain_invI) (simp_all add: udp_unstarted(1))
  moreover have "Suc (length (AList.delete i (sys_udp s))) = length (sys_udp s)"
    using udp_unstarted(2) by (intro length_delete_eq drain_invD(2) [OF inv]) (force dest: map_of_SomeD)
  ultimately show ?thesis by (simp add: udp_unstarted(1) task_count_def)
qed

lemma drain_inv_run:
  "(drain_step ^^ n) s s' \<Longrightarrow> drain_inv T s \<Longrightarrow> drain_inv T s' \<and> task_count s' + n = task_count s"
proof (induction n arbitrary: s')
  case (Suc n)
  then obtain s1 where "(drain_step ^^ n) s s1" "drain_step s1 s'" by auto
  with Suc.IH [of s1] Suc.prems(2) drain_inv_step [of s1 s' T] show ?case by linarith
qed simp

lemma drain_progress:
  assumes "0 < task_count s"
  shows "\<exists>s'. drain_step s s'"
proof (cases "sys_tcp s")
  case (Cons ip ips)
  then have "ip \<in> set (sys_tcp s)" by simp
  then show ?thesis by (blast intro: drain_step.tcp_cancelled)
next
  case Nil
  with assms obtain i t T where "sys_udp s = (i, t) # T"
    by (cases "sys_udp s") (auto simp: task_count_def)
  then have "map_of (sys_udp s) i = Some (fst t, snd t)" by simp
  then show ?thesis by (blast intro: drain_step.udp_cancelled)
qed

lemma stop_drain_inv:
  assumes inv: "server_inv s" and st: "tasks_have_streams s" and p: "p = TCP \<Longrightarrow> sys_udp s = []"
  shows "drain_inv (sys_udp s) (listener_stop p s)"
proof -
  have c: "counts (sv_tcp_connections (sys_server s)) (sys_tcp s)"
    and m: "tasks_match (sv_handshakes (sys_server s)) (sv_sessions (sys_server s)) (sv_next (sys_server s)) (sys_udp s)"
    using inv by (simp_all add: server_inv_def tcp_inv_def udp_inv_def Let_def)
  show ?thesis
  proof (cases p)
    case TCP
    with p m c show ?thesis
      using tasks_match_none [of "sv_handshakes (sys_server s)"]
      by (intro drain_invI) (auto simp: listener_stop_def dict_ok_def)
  next
    case UDP
    have "\<exists>u. map_of (sv_streams (stop_streams (sys_server s))) i = Some u
        \<and> (u_closed u \<or> map_of (sys_udp s) i = Some (fst t, True))" if t: "map_of (sys_udp s) i = Some t" for i t
    proof -
      obtain u where "map_of (sv_streams (sys_server s)) i = Some u"
        using st t by (auto simp: tasks_have_streams_def)
      from stop_streams_close [OF this] obtain u' where u':
        "map_of (sv_streams (stop_streams (sys_server s))) i = Some u'"
        "i \<in> snd ` set (sv_handshakes (sys_server s)) \<longrightarrow> u_closed u'" by blast
      show ?thesis
      proof (cases "snd t")
        case True
        with u' t show ?thesis by (cases t) auto
      next
        case False
        with t tasks_matchD(5) [OF m, of "fst t" i] have "map_of (sv_handshakes (sys_server s)) (fst t) = Some i"
          by (cases t) simp
        then have "i \<in> snd ` set (sv_handshakes (sys_server s))" by (force dest: map_of_SomeD)
        with u' show ?thesis by blast
      qed
    qed
    then show ?thesis
      using UDP c tasks_matchD(1) [OF m] stop_streams_tables [of "sys_server s"]
      by (intro drain_invI) (simp_all add: listener_stop_def)
  qed
qed

lemma stop_leaves_nothing:
  assumes "USMPServer psk max_connections per_ip secret failed = Inr sv"
    and "0 \<le> max_connections" and "0 \<le> per_ip" and "server_reachable C (started sv) s"
    and "p = TCP \<Longrightarrow> sys_udp s = []" and "(drain_step ^^ n) (listener_stop p s) s'"
  shows "n \<le> task_count s \<and> (n < task_count s \<longrightarrow> (\<exists>s''. drain_step s' s''))
    \<and> (n = task_count s \<longrightarrow> sys_tcp s' = [] \<and> sys_udp s' = []
       \<and> sv_tcp_connections (sys_server s') = [] \<and> sv_handshakes (sys_server s') = []
       \<and> sv_sessions (sys_server s') = []
       \<and> (\<forall>i t. map_of (sys_udp s) i = Some t \<longrightarrow>
            (\<exists>u. map_of (sv_streams (sys_server s')) i = Some u \<and> u_closed u)))"
proof -
  have "server_inv s" by (rule server_inv_reachable [OF assms(4) server_inv_started [OF assms(1-3)]])
  moreover have "tasks_have_streams s"
    by (rule tasks_have_streams_reachable [OF assms(4)]) (simp add: tasks_have_streams_def started_def)
  ultimately have "drain_inv (sys_udp s) (listener_stop p s)" using assms(5) by (rule stop_drain_inv)
  from drain_inv_run [OF assms(6) this] have inv: "drain_inv (sys_udp s) s'"
    and n: "task_count s' + n = task_count s"
    by (auto simp: task_count_def listener_stop_def split: protocol.splits)
  have empty: "sys_tcp s' = [] \<and> sys_udp s' = []" if "n = task_count s" using n that by (simp add: task_count_def)
  show ?thesis
    using n drain_progress [of s'] empty drain_invD [OF inv] by fastforce
qed

text \<open>
  C20: stopping ends, and leaves nothing: in whatever state the listener is stopped, and in whatever
  order and way its tasks end, there is always a next one until none is left, which is after
  exactly as many steps as tasks were running; then no connection is counted, no handshake or
  session is in the tables, and the stream of every UDP task has been closed, also of those
  that had not run yet.  (A server has one listener: a TCP listener has no UDP tasks.)\<close>

theorem server_stop_leaves_nothing:
  assumes "USMPServer psk max_connections per_ip secret failed = Inr sv"
    and "0 \<le> max_connections" and "0 \<le> per_ip" and "server_reachable C (started sv) s"
    and "p = TCP \<Longrightarrow> sys_udp s = []" and "(drain_step ^^ n) (listener_stop p s) s'"
  shows "n \<le> task_count s \<and> (n < task_count s \<longrightarrow> (\<exists>s''. drain_step s' s''))
    \<and> (n = task_count s \<longrightarrow> sys_tcp s' = [] \<and> sys_udp s' = []
       \<and> sv_tcp_connections (sys_server s') = [] \<and> sv_handshakes (sys_server s') = []
       \<and> sv_sessions (sys_server s') = []
       \<and> (\<forall>i t. map_of (sys_udp s) i = Some t \<longrightarrow>
            (\<exists>u. map_of (sv_streams (sys_server s')) i = Some u \<and> u_closed u)))"
  by (rule stop_leaves_nothing [OF assms])

theorem server_stop_leaves_nothing_witness:
  "\<exists>s'. (drain_step ^^ 1) (listener_stop TCP ((started demo_server)\<lparr>sys_server := demo_server\<lparr>sv_tcp_connections := [(''h'', 1)]\<rparr>,
      sys_tcp := [''h'']\<rparr>)) s' \<and> sv_tcp_connections (sys_server s') = []"
proof -
  let ?s = "(started demo_server)\<lparr>sys_server := demo_server\<lparr>sv_tcp_connections := [(''h'', 1)]\<rparr>, sys_tcp := [''h'']\<rparr>"
  have c: "task_count ?s = 1" "sys_udp ?s = []" by (simp_all add: task_count_def started_def)
  then obtain s' where s': "drain_step ?s s'" using drain_progress [of ?s] by auto
  then have r: "(drain_step ^^ 1) (listener_stop TCP ?s) s'" by (auto simp: listener_stop_def)
  with server_stop_leaves_nothing [OF demo_server_init _ _ demo_accept [of demo_crypto] _ r] c
  show ?thesis by auto
qed

end
