(* ===== verification/Endpoints.thy ===== *)
theory Endpoints
  imports Lifecycle Client
begin

text \<open>
  What stands between asyncio and the rest: \<open>coerce_transport\<close> of \<open>transport/base.py\<close>; the
  protocol objects \<open>ClientUDPProtocol\<close> and \<open>ServerUDPProtocol\<close>, \<open>UDPStream.connect\<close> and the listeners
  of \<open>transport/udp.py\<close> and \<open>transport/tcp.py\<close>; and \<open>serve\<close> of \<open>_server.py\<close> as a whole.  asyncio
  calls \<open>connection_made\<close> once, then the other callbacks.
\<close>

section \<open>Legacy call forms\<close>

datatype ('t, 'r) first_arg = Is_transport 't | Has_session_keys 't | Stream_reader 'r

definition coerce_transport :: "('r \<Rightarrow> 'w \<Rightarrow> 't) \<Rightarrow> ('t, 'r) first_arg \<Rightarrow> 'w \<Rightarrow> 't" where
  "coerce_transport TCPTransport reader writer =
     (case reader of Is_transport t \<Rightarrow> t | Has_session_keys t \<Rightarrow> t | Stream_reader r \<Rightarrow> TCPTransport r writer)"

section \<open>The endpoint of a client\<close>

record client_protocol =
  cp_stream :: "udp_stream option"
  cp_resolved :: bool      \<comment> \<open>\<open>stream_future\<close> has its result, the stream\<close>

definition ClientUDPProtocol :: client_protocol where
  "ClientUDPProtocol = \<lparr>cp_stream = None, cp_resolved = False\<rparr>"

text \<open>\<open>is_datagram\<close>: the transport is a \<open>DatagramTransport\<close> or has a method \<open>sendto\<close>.\<close>

definition client_connection_made ::
  "bool \<Rightarrow> addr \<Rightarrow> rat \<Rightarrow> (rat \<times> net_event) list \<Rightarrow> (client_protocol, py_exc, unit) io" where
  "client_connection_made is_datagram peername now incoming =
     bind_io (throw_if (\<not> is_datagram) TypeError) (\<lambda>_.
       modify (\<lambda>p. p\<lparr>cp_stream := Some (UDPStream peername False now incoming), cp_resolved := True\<rparr>))"

datatype callback = Datagram_received bytes | Error_received | Connection_lost

definition client_callback :: "crypto \<Rightarrow> callback \<Rightarrow> client_protocol \<Rightarrow> client_protocol" where
  "client_callback C cb p =
     (case cp_stream p of
        None \<Rightarrow> p
      | Some u \<Rightarrow> p\<lparr>cp_stream := Some (case cb of Datagram_received data \<Rightarrow> feed_packet C data u
                                       | Error_received \<Rightarrow> udp_close u | Connection_lost \<Rightarrow> udp_close u)\<rparr>)"

text \<open>
  \<open>UDPStream.connect\<close>: opening the endpoint fails, or calls \<open>connection_made\<close>, whose exception asyncio
  only logs; then the future is awaited.
\<close>

definition udp_connect ::
  "py_exc + bool \<times> addr \<Rightarrow> rat \<Rightarrow> (rat \<times> net_event) list \<Rightarrow> (py_exc, udp_stream) outcome" where
  "udp_connect endpoint now incoming =
     (case endpoint of
        Inl e \<Rightarrow> Raise e
      | Inr (is_datagram, peername) \<Rightarrow>
          (let p = snd (client_connection_made is_datagram peername now incoming ClientUDPProtocol) in
           case cp_stream p of Some u \<Rightarrow> if cp_resolved p then Ret u else Blocked | None \<Rightarrow> Blocked))"

text \<open>The events of a stream (\<open>net_event\<close>), by the callback that delivers them.\<close>

fun event_of :: "callback \<Rightarrow> net_event" where
  "event_of (Datagram_received data) = Datagram data"
| "event_of Error_received = Lost"
| "event_of Connection_lost = Lost"

text \<open>
  The stream that \<open>connect\<close> returns receives, in order, exactly the events that asyncio reports
  after it; what it reports before, or on an endpoint that is not for datagrams, has no effect.
\<close>

lemma client_callbacks_refine_events:
  "cp_stream (fold (client_callback C) cbs p) = map_option (fold (net_event C) (map event_of cbs)) (cp_stream p)
   \<and> (udp_connect endpoint now incoming = Ret u \<longleftrightarrow>
       (\<exists>a. endpoint = Inr (True, a) \<and> u = UDPStream a False now incoming
          \<and> cp_stream (snd (client_connection_made True a now incoming ClientUDPProtocol)) = Some u))"
proof
  show "cp_stream (fold (client_callback C) cbs p) = map_option (fold (net_event C) (map event_of cbs)) (cp_stream p)"
  proof (induction cbs arbitrary: p)
    case Nil
    show ?case by (cases "cp_stream p") simp_all
  next
    case (Cons cb cbs)
    show ?case
      using Cons [of "client_callback C cb p"]
      by (cases "cp_stream p"; cases cb) (simp_all add: client_callback_def net_event_def)
  qed
  show "udp_connect endpoint now incoming = Ret u \<longleftrightarrow>
       (\<exists>a. endpoint = Inr (True, a) \<and> u = UDPStream a False now incoming
          \<and> cp_stream (snd (client_connection_made True a now incoming ClientUDPProtocol)) = Some u)"
    by (cases endpoint)
      (auto simp: udp_connect_def client_connection_made_def ClientUDPProtocol_def bind_io_def throw_if_def
        split: if_splits)
qed

section \<open>The endpoint of a server\<close>

text \<open>\<open>ServerUDPProtocol\<close>: whether it has its transport; a datagram goes to the listener.\<close>

definition server_connection_made :: "bool \<Rightarrow> (bool, py_exc, unit) io" where
  "server_connection_made is_datagram =
     bind_io (throw_if (\<not> is_datagram) TypeError) (\<lambda>_. modify (\<lambda>_. True))"

definition server_datagram_received ::
  "crypto \<Rightarrow> rat \<Rightarrow> rat \<Rightarrow> bool \<Rightarrow> bytes \<Rightarrow> addr \<Rightarrow> server \<Rightarrow> server \<times> nat option" where
  "server_datagram_received C wall now has_transport data addr sv =
     (if has_transport then handle_udp_datagram C wall now data addr sv else (sv, None))"

text \<open>\<open>USMPServer._handle_udp_datagram\<close>, to the listener if it is one for UDP.\<close>

definition delegate_datagram ::
  "crypto \<Rightarrow> rat \<Rightarrow> rat \<Rightarrow> protocol option \<Rightarrow> bytes \<Rightarrow> addr \<Rightarrow> server \<Rightarrow> server \<times> nat option" where
  "delegate_datagram C wall now listener data addr sv =
     (if listener = Some UDP then handle_udp_datagram C wall now data addr sv else (sv, None))"

text \<open>
  The listeners: their class and whether they hold an open endpoint (\<open>_transport\<close>, \<open>_srv\<close>).  \<open>start\<close>
  opens it, or raises what \<open>open_result\<close> says.
\<close>

record listener =
  ln_protocol :: protocol
  ln_open :: bool

definition new_listener :: "protocol \<Rightarrow> listener" where
  "new_listener p = \<lparr>ln_protocol = p, ln_open = False\<rparr>"

definition udp_listener_start :: "py_exc + bool \<Rightarrow> (listener, py_exc, unit) io" where
  "udp_listener_start open_result l =
     (case open_result of
        Inl e \<Rightarrow> (Raise e, l)
      | Inr is_datagram \<Rightarrow> (Ret (), l\<lparr>ln_open := snd (server_connection_made is_datagram False)\<rparr>))"

definition tcp_listener_start :: "py_exc + bool \<Rightarrow> (listener, py_exc, unit) io" where
  "tcp_listener_start open_result l =
     (case open_result of Inl e \<Rightarrow> (Raise e, l) | Inr _ \<Rightarrow> (Ret (), l\<lparr>ln_open := True\<rparr>))"

definition listener_start :: "(protocol \<Rightarrow> py_exc + bool) \<Rightarrow> protocol \<Rightarrow> py_exc + listener" where
  "listener_start open_result p =
     (case (case p of TCP \<Rightarrow> tcp_listener_start | UDP \<Rightarrow> udp_listener_start) (open_result p) (new_listener p) of
        (Raise e, _) \<Rightarrow> Inl e
      | (_, l) \<Rightarrow> Inr l)"

section \<open>Serving\<close>

text \<open>
  What happens while \<open>serve\<close> runs: the tasks of the server take their turns; the event is set, by
  \<open>stop\<close> or a signal, or the wait is interrupted, and the listener is stopped and the tasks are
  cancelled; cancelled tasks end, in any order, but the handler of a session may also catch the
  cancellation and go on using its stream (over TCP that is no change of this state); and
  \<open>serve\<close> returns when \<open>gather\<close> has seen the end of every task.  A TCP listener delivers no
  datagrams.
\<close>

datatype serve_phase = Serving | Stopping | Returned

inductive serve_step ::
  "crypto \<Rightarrow> protocol \<Rightarrow> serve_phase \<times> system \<Rightarrow> serve_phase \<times> system \<Rightarrow> bool"
  for C :: crypto and p :: protocol where
  tasks_run: "server_step C s s' \<Longrightarrow> (p = TCP \<longrightarrow> sys_udp s' = []) \<Longrightarrow>
    serve_step C p (Serving, s) (Serving, s')"
| interrupted: "serve_step C p (Serving, s) (Stopping, listener_stop p s)"
| task_ends: "drain_step s s' \<Longrightarrow> serve_step C p (Stopping, s) (Stopping, s')"
| handler_goes_on: "map_of (sys_udp s) i = Some (addr, True) \<Longrightarrow>
    serve_step C p (Stopping, s) (Stopping, s\<lparr>sys_server := store_stream i u (sys_server s)\<rparr>)"
| all_ended: "task_count s = 0 \<Longrightarrow> serve_step C p (Stopping, s) (Returned, s)"

inductive_cases servingE: "serve_step C p (Serving, s) c"
inductive_cases stoppingE: "serve_step C p (Stopping, s) c"
inductive_simps returned_final [simp]: "serve_step C p (Returned, s) c"

text \<open>\<open>serve\<close>: it fails to start, or it runs, which is \<open>Blocked\<close>, until it returns.\<close>

inductive serve ::
  "crypto \<Rightarrow> bool \<Rightarrow> string \<Rightarrow> (protocol \<Rightarrow> py_exc + bool) \<Rightarrow> system \<Rightarrow> (py_exc, unit) outcome \<Rightarrow> system \<Rightarrow> bool"
  for C :: crypto and has_handler :: bool and name :: string and endpoint :: "protocol \<Rightarrow> py_exc + bool"
    and s0 :: system where
  start_fails: "serve_start has_handler core_registry name (listener_start endpoint) = Inl e \<Longrightarrow>
    serve C has_handler name endpoint s0 (Raise e) s0"
| runs: "serve_start has_handler core_registry name (listener_start endpoint) = Inr l \<Longrightarrow>
    (serve_step C (ln_protocol l))\<^sup>*\<^sup>* (Serving, s0) (ph, s) \<Longrightarrow>
    serve C has_handler name endpoint s0 (if ph = Returned then Ret () else Blocked) s"

text \<open>\<open>on_session\<close> registers the handler.\<close>

definition on_session :: "'h \<Rightarrow> 'h option \<Rightarrow> 'h option" where
  "on_session fn _ = Some fn"

lemma core_names: "lower ''tcp'' = ''tcp''" "lower ''udp'' = ''udp''"
  by (simp_all add: lower_def lower_char_def)

text \<open>\<open>serve\<close> raises only if no handler is registered, the protocol is unknown, or its endpoint cannot be opened.\<close>

lemma serve_raises:
  assumes "serve C has_handler name endpoint s0 (Raise e) s"
  shows "s = s0 \<and> (if \<not> has_handler then e = RuntimeError
    else if lower name \<notin> {''tcp'', ''udp''} then e = ValueError else \<exists>p. endpoint p = Inl e)"
  using assms
proof (cases rule: serve.cases)
  case start_fails
  then show ?thesis
    by (auto simp: serve_start_def get_listener_class_def core_registry_def register_transport_def core_names
        listener_start_def tcp_listener_start_def udp_listener_start_def
        bindE_Inl Let_def split: option.splits if_splits sum.splits protocol.splits)
qed (simp split: if_splits)

section \<open>Stopping ends, and cleans up\<close>

text \<open>While tasks end, and handlers go on: the tables stay empty, and an open stream is one of a session's task.\<close>

definition stop_inv :: "system \<Rightarrow> bool" where
  "stop_inv s \<longleftrightarrow> drain_inv [] s \<and> (\<forall>i\<in>opens (sys_server s). \<exists>addr. map_of (sys_udp s) i = Some (addr, True))"

lemma opens_stop: "opens (stop_streams sv) \<subseteq> opens sv"
proof -
  have fold: "opens (fold close_stream js sv) \<subseteq> opens sv" for js sv
    by (induction js arbitrary: sv) fastforce+
  show ?thesis
    using fold [of "map snd (sv_sessions sv)" sv]
      fold [of "map snd (sv_handshakes sv)" "fold close_stream (map snd (sv_sessions sv)) sv"]
      fold_close_tables [of sv "map snd (sv_sessions sv)"]
    by (auto simp: stop_streams_def Let_def same_tables_def)
qed

lemma stop_inv_stopped:
  assumes "server_inv s" and "tasks_have_streams s" and "owned s" and "p = TCP \<Longrightarrow> sys_udp s = []"
  shows "stop_inv (listener_stop p s)" "task_count (listener_stop p s) = task_count s"
proof -
  have inv: "drain_inv (sys_udp s) (listener_stop p s)" using assms(1,2,4) by (rule stop_drain_inv)
  have udp: "sys_udp (listener_stop p s) = sys_udp s" by (simp add: listener_stop_def split: protocol.split)
  have "\<exists>addr. map_of (sys_udp s) i = Some (addr, True)" if i: "i \<in> opens (sys_server (listener_stop p s))" for i
  proof -
    have "i \<in> opens (sys_server s)"
      using i opens_stop by (auto simp: listener_stop_def split: protocol.splits)
    then obtain t where "map_of (sys_udp s) i = Some t" using assms(3) by (auto simp: owned_def)
    from drain_invD(5) [OF inv this] i udp show ?thesis by (auto simp: opens_def)
  qed
  moreover have "drain_inv [] (listener_stop p s)" using drain_invD(1-4) [OF inv] by (intro drain_invI) simp_all
  ultimately show "stop_inv (listener_stop p s)" by (simp add: stop_inv_def udp)
  show "task_count (listener_stop p s) = task_count s"
    by (simp add: task_count_def listener_stop_def split: protocol.split)
qed

lemma stop_inv_drain:
  assumes "drain_step s s'" and "stop_inv s"
  shows "stop_inv s' \<and> Suc (task_count s') = task_count s"
proof -
  have "\<forall>i\<in>opens (sys_server s'). \<exists>addr. map_of (sys_udp s') i = Some (addr, True)"
    using assms(1)
  proof (cases rule: drain_step.cases)
    case (tcp_cancelled ip now e)
    with assms(2) show ?thesis by (simp add: stop_inv_def release_tcp_def)
  next
    case (udp_cancelled i addr d now e)
    with assms(2) show ?thesis by (auto simp: stop_inv_def opens_release map_of_delete_iff)
  next
    case (udp_unstarted i addr)
    with assms(2) show ?thesis by (fastforce simp: stop_inv_def map_of_delete_iff)
  qed
  moreover have "drain_inv [] s" using assms(2) by (simp add: stop_inv_def)
  ultimately show ?thesis using drain_inv_step [OF assms(1)] by (auto simp: stop_inv_def)
qed

lemma stop_inv_goes_on:
  assumes "map_of (sys_udp s) i = Some (addr, True)" and "stop_inv s"
  shows "stop_inv (s\<lparr>sys_server := store_stream i u (sys_server s)\<rparr>)"
proof -
  have "drain_inv [] (s\<lparr>sys_server := store_stream i u (sys_server s)\<rparr>)"
    using assms(2) by (simp add: stop_inv_def drain_inv_def store_stream_def)
  moreover have "\<forall>j\<in>opens (store_stream i u (sys_server s)). \<exists>addr. map_of (sys_udp s) j = Some (addr, True)"
    using assms opens_store [of i u "sys_server s"] unfolding stop_inv_def by blast
  ultimately show ?thesis by (simp add: stop_inv_def)
qed

lemma stopping_step:
  assumes "serve_step C p (Stopping, s) (ph, s')" and "stop_inv s"
  shows "stop_inv s' \<and> (ph = Stopping \<and> task_count s \<le> Suc (task_count s') \<or> ph = Returned \<and> task_count s = 0 \<and> s' = s)"
  using assms(1)
  by (elim stoppingE)
    (use stop_inv_drain [OF _ assms(2)] stop_inv_goes_on [OF _ assms(2)] assms(2) in \<open>auto simp: task_count_def\<close>)

lemma stop_returns:
  assumes "stop_inv s"
  shows "\<exists>s'. (serve_step C p ^^ Suc (task_count s)) (Stopping, s) (Returned, s')"
  using assms
proof (induction "task_count s" arbitrary: s)
  case 0
  then have "serve_step C p (Stopping, s) (Returned, s)" by (intro serve_step.all_ended) simp
  with 0 show ?case by auto
next
  case (Suc n)
  then obtain s1 where s1: "drain_step s s1" using drain_progress [of s] by auto
  have "stop_inv s1" "n = task_count s1" using stop_inv_drain [OF s1 Suc.prems] Suc.hyps(2) by simp_all
  from Suc.hyps(1) [OF this(2,1)] obtain s' where "(serve_step C p ^^ Suc n) (Stopping, s1) (Returned, s')"
    unfolding \<open>n = task_count s1\<close> [symmetric] by blast
  moreover have "serve_step C p (Stopping, s) (Stopping, s1)" using s1 by (rule serve_step.task_ends)
  ultimately have "(serve_step C p ^^ Suc (Suc n)) (Stopping, s) (Returned, s')" by (rule relpowp_Suc_I2 [rotated])
  then show ?case using Suc.hyps(2) by auto
qed

lemma stop_waits:
  "(serve_step C p ^^ n) (Stopping, s) (Returned, s') \<Longrightarrow> stop_inv s \<Longrightarrow> task_count s < n"
proof (induction n arbitrary: s)
  case (Suc n)
  then obtain ph s1 where s1: "serve_step C p (Stopping, s) (ph, s1)" "(serve_step C p ^^ n) (ph, s1) (Returned, s')"
    using relpowp_Suc_D2 [OF Suc.prems(1)] by fast
  from stopping_step [OF s1(1) Suc.prems(2)] s1(2) Suc.IH [of s1] show ?case by auto
qed simp

lemma serve_step_inv:
  assumes "USMPServer psk max_connections per_ip secret failed = Inr sv"
    and "0 \<le> max_connections" and "0 \<le> per_ip" and "(serve_step C p)\<^sup>*\<^sup>* (Serving, started sv) (ph, s)"
  shows "case ph of
      Serving \<Rightarrow> server_reachable C (started sv) s \<and> (p = TCP \<longrightarrow> sys_udp s = []) \<and> stop_inv (listener_stop p s)
        \<and> task_count (listener_stop p s) = task_count s
    | Stopping \<Rightarrow> stop_inv s
    | Returned \<Rightarrow> stop_inv s \<and> task_count s = 0"
proof -
  have stopped: "stop_inv (listener_stop p s) \<and> task_count (listener_stop p s) = task_count s"
    if r: "server_reachable C (started sv) s" and tcp: "p = TCP \<longrightarrow> sys_udp s = []" for s
  proof -
    have "sv_streams sv = []" using assms(1) by (auto simp: USMPServer_def bindE_def split: sum.splits)
    then have "tasks_have_streams s" "owned s"
      using tasks_have_streams_reachable [OF r] owned_reachable [OF r]
      by (simp_all add: tasks_have_streams_def owned_def opens_def started_def)
    with server_inv_reachable [OF r server_inv_started [OF assms(1-3)]] stop_inv_stopped tcp show ?thesis by blast
  qed
  show ?thesis
    using assms(4)
  proof (induction "(ph, s)" arbitrary: ph s rule: rtranclp_induct)
    case base
    have "server_reachable C (started sv) (started sv)" by (rule server_reachable.start)
    with stopped [OF this] show ?case by (simp add: started_def)
  next
    case (step c)
    obtain ph0 s1 where c: "c = (ph0, s1)" by fastforce
    note IH = step(3) [OF c]
    show ?case
    proof (cases ph0)
      case Serving
      then have r: "server_reachable C (started sv) s1" "stop_inv (listener_stop p s1)" using IH by simp_all
      from step(2) [unfolded c Serving] show ?thesis
        by (elim servingE) (use stopped [OF server_reachable.step [OF r(1)]] r in \<open>auto intro: server_reachable.step\<close>)
    next
      case Stopping
      with stopping_step [of C p s1 ph s] step(2) c IH show ?thesis by auto
    qed (use step(2) c in simp)
  qed
qed

text \<open>
  C19: \<open>serve\<close> can be brought to an end from every state that it gets into, and cleans up: whatever tasks are
  running, it returns once it is interrupted and each of them has ended, in as many steps as there are
  tasks and one more, even when handlers that ignored the cancellation have gone on using their
  streams, and never before the last of them has ended; and when it has returned there is no task, no
  connection is counted, no handshake or session is in the tables, and no stream that the
  server ever made is open.\<close>

theorem serve_returns_clean:
  assumes "USMPServer psk max_connections per_ip secret failed = Inr sv"
    and "0 \<le> max_connections" and "0 \<le> per_ip"
    and "serve_start has_handler core_registry name (listener_start endpoint) = Inr l"
    and "(serve_step C (ln_protocol l))\<^sup>*\<^sup>* (Serving, started sv) (ph, s)"
  shows "serve C has_handler name endpoint (started sv) (if ph = Returned then Ret () else Blocked) s
    \<and> (case ph of
         Serving \<Rightarrow> \<exists>s'. (serve_step C (ln_protocol l) ^^ (task_count s + 2)) (Serving, s) (Returned, s')
       | Stopping \<Rightarrow> (\<exists>s'. (serve_step C (ln_protocol l) ^^ (task_count s + 1)) (Stopping, s) (Returned, s'))
           \<and> (\<forall>n s'. (serve_step C (ln_protocol l) ^^ n) (Stopping, s) (Returned, s') \<longrightarrow> task_count s < n)
       | Returned \<Rightarrow> sys_tcp s = [] \<and> sys_udp s = [] \<and> sv_tcp_connections (sys_server s) = []
           \<and> sv_handshakes (sys_server s) = [] \<and> sv_sessions (sys_server s) = [] \<and> opens (sys_server s) = {})"
proof -
  note inv = serve_step_inv [OF assms(1-3,5)]
  have "serve C has_handler name endpoint (started sv) (if ph = Returned then Ret () else Blocked) s"
    using assms(4,5) by (rule serve.runs)
  moreover have "\<exists>s'. (serve_step C (ln_protocol l) ^^ (task_count s + 2)) (Serving, s) (Returned, s')" if "ph = Serving"
  proof -
    from inv that stop_returns [of "listener_stop (ln_protocol l) s" C "ln_protocol l"] obtain s' where
      "(serve_step C (ln_protocol l) ^^ Suc (task_count s)) (Stopping, listener_stop (ln_protocol l) s) (Returned, s')"
      by auto
    with serve_step.interrupted [of C "ln_protocol l" s]
    have "(serve_step C (ln_protocol l) ^^ Suc (Suc (task_count s))) (Serving, s) (Returned, s')" by (rule relpowp_Suc_I2)
    then show ?thesis by auto
  qed
  moreover have "sys_tcp s = [] \<and> sys_udp s = [] \<and> sv_tcp_connections (sys_server s) = []
      \<and> sv_handshakes (sys_server s) = [] \<and> sv_sessions (sys_server s) = [] \<and> opens (sys_server s) = {}"
    if "ph = Returned"
  proof -
    have d: "drain_inv [] s" "task_count s = 0" "\<forall>i\<in>opens (sys_server s). \<exists>addr. map_of (sys_udp s) i = Some (addr, True)"
      using inv that by (simp_all add: stop_inv_def)
    with drain_invD(1,3,4) [OF d(1)] show ?thesis by (auto simp: task_count_def)
  qed
  ultimately show ?thesis
    using inv stop_returns [of s C "ln_protocol l"] stop_waits [of _ C "ln_protocol l" s] by (cases ph) auto
qed

text \<open>A server stopped while it has a connection.\<close>

theorem serve_returns_clean_witness:
  "\<exists>s. serve demo_crypto True ''TCP'' (\<lambda>_. Inr True) (started demo_server) (Ret ()) s \<and> sys_tcp s = []
     \<and> (serve_step demo_crypto TCP ^^ 3) (Serving, (started demo_server)\<lparr>sys_server :=
         demo_server\<lparr>sv_tcp_connections := [(''h'', 1)]\<rparr>, sys_tcp := [''h'']\<rparr>) (Returned, s)"
proof -
  let ?l = "\<lparr>ln_protocol = TCP, ln_open = True\<rparr>"
  let ?s = "(started demo_server)\<lparr>sys_server := demo_server\<lparr>sv_tcp_connections := [(''h'', 1)]\<rparr>, sys_tcp := [''h'']\<rparr>"
  have start: "serve_start True core_registry ''TCP'' (listener_start (\<lambda>_. Inr True)) = Inr ?l" by code_simp
  have "server_step demo_crypto (started demo_server) ?s" using demo_accept_step by simp
  then have "serve_step demo_crypto TCP (Serving, started demo_server) (Serving, ?s)"
    by (rule serve_step.tasks_run) (simp add: started_def)
  then have run: "(serve_step demo_crypto (ln_protocol ?l))\<^sup>*\<^sup>* (Serving, started demo_server) (Serving, ?s)" by simp
  note serving = serve_returns_clean [OF demo_server_init _ _ start run]
  have "task_count ?s = 1" by (simp add: task_count_def started_def)
  with serving obtain s where s: "(serve_step demo_crypto TCP ^^ 3) (Serving, ?s) (Returned, s)"
    by (auto simp: numeral_3_eq_3)
  then have "(serve_step demo_crypto TCP)\<^sup>*\<^sup>* (Serving, ?s) (Returned, s)" by (rule relpowp_imp_rtranclp)
  with run have "(serve_step demo_crypto (ln_protocol ?l))\<^sup>*\<^sup>* (Serving, started demo_server) (Returned, s)"
    by (simp add: rtranclp_trans)
  from serve_returns_clean [OF demo_server_init _ _ start this] s show ?thesis by auto
qed

text \<open>
  \<open>serve\<close> creates the event only when the listener has started: a call of \<open>stop\<close> before that is
  lost.
\<close>

lemma stop_while_starting_lost: "stop_event None = None"
  by (simp add: stop_event_def)

end
