(* ===== verification/Utf8.thy ===== *)
theory Utf8
  imports Errors
begin

text \<open>
  Texts as the example programs handle them: \<open>str.encode\<close>, \<open>bytes.decode\<close> with the error
  handlers \<open>strict\<close> and \<open>ignore\<close>, and \<open>str.strip\<close>.  A text is the list of its code points.
  Decoding drops, or reports, a maximal prefix of a well-formed sequence at a time, as
  CPython does.  The two Unicode errors are subclasses of \<open>ValueError\<close>.
\<close>

type_synonym ustring = "int list"

definition scalar_value :: "int \<Rightarrow> bool" where
  "scalar_value c \<longleftrightarrow> 0 \<le> c \<and> c < 0x110000 \<and> \<not> (0xD800 \<le> c \<and> c < 0xE000)"

section \<open>Encoding\<close>

definition byte_of :: "int \<Rightarrow> byte" where
  "byte_of v = word_of_int v"

definition encode_char :: "int \<Rightarrow> py_exc + bytes" where
  "encode_char c =
     (if \<not> scalar_value c then Inl ValueError
      else Inr (map byte_of
        (if c < 0x80 then [c]
         else if c < 0x800 then [0xC0 + c div 64, 0x80 + c mod 64]
         else if c < 0x10000 then [0xE0 + c div 4096, 0x80 + c div 64 mod 64, 0x80 + c mod 64]
         else [0xF0 + c div 262144, 0x80 + c div 4096 mod 64, 0x80 + c div 64 mod 64, 0x80 + c mod 64])))"

fun utf8_encode :: "ustring \<Rightarrow> py_exc + bytes" where
  "utf8_encode [] = Inr []"
| "utf8_encode (c # cs) =
     bindE (encode_char c) (\<lambda>b. bindE (utf8_encode cs) (\<lambda>bs. Inr (b @ bs)))"

section \<open>Decoding\<close>

text \<open>
  What a lead byte announces: the number of bytes to follow, the bounds of the first of
  them, and its own bits.
\<close>

definition utf8_lead :: "int \<Rightarrow> (nat \<times> int \<times> int \<times> int) option" where
  "utf8_lead b =
     (if 0xC2 \<le> b \<and> b < 0xE0 then Some (1, 0x80, 0xBF, b - 0xC0)
      else if 0xE0 \<le> b \<and> b < 0xF0 then
        Some (2, if b = 0xE0 then 0xA0 else 0x80, if b = 0xED then 0x9F else 0xBF, b - 0xE0)
      else if 0xF0 \<le> b \<and> b < 0xF5 then
        Some (3, if b = 0xF0 then 0x90 else 0x80, if b = 0xF4 then 0x8F else 0xBF, b - 0xF0)
      else None)"

text \<open>The bytes that follow; without a code point, what is left begins with the offending byte.\<close>

fun utf8_trail :: "nat \<Rightarrow> int \<Rightarrow> int \<Rightarrow> int \<Rightarrow> bytes \<Rightarrow> int option \<times> bytes" where
  "utf8_trail 0 lo hi acc bs = (Some acc, bs)"
| "utf8_trail (Suc n) lo hi acc [] = (None, [])"
| "utf8_trail (Suc n) lo hi acc (b # bs) =
     (if lo \<le> uint b \<and> uint b \<le> hi then utf8_trail n 0x80 0xBF (64 * acc + (uint b - 0x80)) bs
      else (None, b # bs))"

lemma utf8_trail_length: "length (snd (utf8_trail n lo hi acc bs)) \<le> length bs"
  by (induction n lo hi acc bs rule: utf8_trail.induct) auto

text \<open>The next code point, or \<open>None\<close> for a malformed sequence, and what is left.\<close>

definition utf8_next :: "byte \<Rightarrow> bytes \<Rightarrow> int option \<times> bytes" where
  "utf8_next b bs =
     (if uint b < 0x80 then (Some (uint b), bs)
      else case utf8_lead (uint b) of
             None \<Rightarrow> (None, bs)
           | Some (n, lo, hi, acc) \<Rightarrow> utf8_trail n lo hi acc bs)"

lemma utf8_next_length: "length (snd (utf8_next b bs)) \<le> length bs"
  by (simp add: utf8_next_def utf8_trail_length split: option.split prod.split)

datatype decode_errors = Strict | Ignore

function utf8_decode :: "decode_errors \<Rightarrow> bytes \<Rightarrow> py_exc + ustring" where
  "utf8_decode errors [] = Inr []"
| "utf8_decode errors (b # bs) =
     (case utf8_next b bs of
        (Some c, rest) \<Rightarrow> bindE (utf8_decode errors rest) (\<lambda>cs. Inr (c # cs))
      | (None, rest) \<Rightarrow> (case errors of Strict \<Rightarrow> Inl ValueError | Ignore \<Rightarrow> utf8_decode errors rest))"
  by pat_completeness auto
termination
proof (relation "measure (\<lambda>(_, bs). length bs)")
qed (simp, (metis case_prod_conv in_measure length_Cons less_Suc_eq_le snd_conv utf8_next_length)+)

text \<open>\<open>strip()\<close>: the characters that \<open>isspace\<close> holds of.\<close>

definition is_space :: "int \<Rightarrow> bool" where
  "is_space c \<longleftrightarrow> 9 \<le> c \<and> c \<le> 13 \<or> 28 \<le> c \<and> c \<le> 32 \<or> c = 0x85 \<or> c = 0xA0 \<or> c = 0x1680
     \<or> 0x2000 \<le> c \<and> c \<le> 0x200A \<or> c = 0x2028 \<or> c = 0x2029 \<or> c = 0x202F \<or> c = 0x205F \<or> c = 0x3000"

definition strip :: "ustring \<Rightarrow> ustring" where
  "strip cs = rev (dropWhile is_space (rev (dropWhile is_space cs)))"

text \<open>A literal of the source, in ASCII.\<close>

definition text_of :: "string \<Rightarrow> ustring" where
  "text_of s = map (\<lambda>c. of_char c) s"

section \<open>Encoding and decoding\<close>

lemma encode_char_cases:
  assumes "encode_char c = Inr bs"
  obtains (one) "0 \<le> c" "c < 0x80" "bs = [byte_of c]"
  | (two) "0x80 \<le> c" "c < 0x800" "bs = [byte_of (0xC0 + c div 64), byte_of (0x80 + c mod 64)]"
  | (three) "0x800 \<le> c" "c < 0x10000" "\<not> (0xD800 \<le> c \<and> c < 0xE000)"
      "bs = [byte_of (0xE0 + c div 4096), byte_of (0x80 + c div 64 mod 64), byte_of (0x80 + c mod 64)]"
  | (four) "0x10000 \<le> c" "c < 0x110000"
      "bs = [byte_of (0xF0 + c div 262144), byte_of (0x80 + c div 4096 mod 64),
             byte_of (0x80 + c div 64 mod 64), byte_of (0x80 + c mod 64)]"
  using assms by (auto simp: encode_char_def scalar_value_def split: if_splits)

lemma encode_char_scalar: "encode_char c = Inr bs \<Longrightarrow> scalar_value c"
  by (auto simp: encode_char_def split: if_splits)

text \<open>Reading what was written.\<close>

lemma uint_byte_of: "0 \<le> v \<Longrightarrow> v < 256 \<Longrightarrow> uint (byte_of v) = v"
  by (simp add: byte_of_def byte_roundtrip)

lemma byte_of_uint [simp]: "byte_of (uint b) = b"
  by (simp add: byte_of_def)

lemma base64_digits:
  fixes c :: int
  shows "64 * (64 * (c div 4096) + c div 64 mod 64) + c mod 64 = c"
    and "64 * (64 * (64 * (c div 262144) + c div 4096 mod 64) + c div 64 mod 64) + c mod 64 = c"
proof -
  have d: "c div 4096 = c div 64 div 64" "c div 262144 = c div 4096 div 64"
    by (simp_all add: zdiv_zmult2_eq [symmetric])
  show 1: "64 * (64 * (c div 4096) + c div 64 mod 64) + c mod 64 = c"
    by (simp add: d(1))
  have "64 * (c div 262144) + c div 4096 mod 64 = c div 4096"
    by (simp add: d(2))
  with 1 show "64 * (64 * (64 * (c div 262144) + c div 4096 mod 64) + c div 64 mod 64) + c mod 64 = c"
    by simp
qed

lemma utf8_next_2:
  "2 \<le> q \<Longrightarrow> q < 32 \<Longrightarrow> 0 \<le> r \<Longrightarrow> r < 64 \<Longrightarrow>
   utf8_next (byte_of (0xC0 + q)) (byte_of (0x80 + r) # rest) = (Some (64 * q + r), rest)"
  by (simp add: utf8_next_def utf8_lead_def uint_byte_of)

lemma utf8_next_3:
  "0 \<le> q \<Longrightarrow> q < 16 \<Longrightarrow> 0 \<le> m \<Longrightarrow> m < 64 \<Longrightarrow> 0 \<le> r \<Longrightarrow> r < 64 \<Longrightarrow>
   q = 0 \<longrightarrow> 0x20 \<le> m \<Longrightarrow> q = 13 \<longrightarrow> m < 0x20 \<Longrightarrow>
   utf8_next (byte_of (0xE0 + q)) (byte_of (0x80 + m) # byte_of (0x80 + r) # rest)
     = (Some (64 * (64 * q + m) + r), rest)"
  by (auto simp: utf8_next_def utf8_lead_def uint_byte_of numeral_2_eq_2)

lemma utf8_next_4:
  "0 \<le> q \<Longrightarrow> q < 5 \<Longrightarrow> 0 \<le> k \<Longrightarrow> k < 64 \<Longrightarrow> 0 \<le> m \<Longrightarrow> m < 64 \<Longrightarrow> 0 \<le> r \<Longrightarrow> r < 64 \<Longrightarrow>
   q = 0 \<longrightarrow> 0x10 \<le> k \<Longrightarrow> q = 4 \<longrightarrow> k < 0x10 \<Longrightarrow>
   utf8_next (byte_of (0xF0 + q)) (byte_of (0x80 + k) # byte_of (0x80 + m) # byte_of (0x80 + r) # rest)
     = (Some (64 * (64 * (64 * q + k) + m) + r), rest)"
  by (auto simp: utf8_next_def utf8_lead_def uint_byte_of numeral_3_eq_3)

lemma utf8_next_encoded:
  assumes "encode_char c = Inr p"
  shows "\<exists>b bs. p = b # bs \<and> utf8_next b (bs @ rest) = (Some c, rest)"
proof -
  have digits: "0 \<le> c mod 64" "c mod 64 < 64" "0 \<le> c div 64 mod 64" "c div 64 mod 64 < 64"
    "0 \<le> c div 4096 mod 64" "c div 4096 mod 64 < 64" by simp_all
  from assms show ?thesis
  proof (cases rule: encode_char_cases)
    case one
    then show ?thesis by (simp add: utf8_next_def uint_byte_of)
  next
    case two
    then have "2 \<le> c div 64" "c div 64 < 32" by simp_all
    from utf8_next_2 [OF this digits(1,2), of rest] two show ?thesis by simp
  next
    case three
    have 1: "0 \<le> c div 4096" "c div 4096 < 16" using three by simp_all
    have "(q = 0 \<longrightarrow> 0x20 \<le> m) \<and> (q = 13 \<longrightarrow> m < 0x20)"
      if "64 * (64 * q + m) + r = c" "m < 64" "0 \<le> r" "r < 64" for q m r
      using that three(1,3) by auto
    from this [OF base64_digits(1) digits(4,1,2)]
    have 2: "c div 4096 = 0 \<longrightarrow> 0x20 \<le> c div 64 mod 64" "c div 4096 = 13 \<longrightarrow> c div 64 mod 64 < 0x20"
      by blast+
    from utf8_next_3 [OF 1 digits(3,4,1,2) 2, of rest] three(4) show ?thesis
      by (simp only: base64_digits) simp
  next
    case four
    have 1: "0 \<le> c div 262144" "c div 262144 < 5" using four by simp_all
    have "(q = 0 \<longrightarrow> 0x10 \<le> k) \<and> (q = 4 \<longrightarrow> k < 0x10)"
      if "64 * (64 * (64 * q + k) + m) + r = c" "0 \<le> m" "m < 64" "0 \<le> r" "r < 64" for q k m r
      using that four(1,2) by auto
    from this [OF base64_digits(2) digits(3,4,1,2)]
    have 2: "c div 262144 = 0 \<longrightarrow> 0x10 \<le> c div 4096 mod 64" "c div 262144 = 4 \<longrightarrow> c div 4096 mod 64 < 0x10"
      by blast+
    from utf8_next_4 [OF 1 digits(5,6,3,4,1,2) 2, of rest] four(3) show ?thesis
      by (simp only: base64_digits) simp
  qed
qed

lemma utf8_encode_decode:
  "utf8_encode cs = Inr bs \<Longrightarrow> utf8_decode errors bs = Inr cs"
proof (induction cs arbitrary: bs)
  case Nil
  then show ?case by simp
next
  case (Cons c cs)
  then obtain p r where p: "encode_char c = Inr p" and r: "utf8_encode cs = Inr r" "bs = p @ r"
    by (auto simp: bindE_Inr)
  from utf8_next_encoded [OF p, of r] obtain b q where "p = b # q" "utf8_next b (q @ r) = (Some c, r)"
    by blast
  with r Cons.IH show ?case by simp
qed

text \<open>Writing what was read.\<close>

lemma encode_char_2:
  assumes "2 \<le> q" "q < 32" "0 \<le> r" "r < 64"
  shows "encode_char (64 * q + r) = Inr [byte_of (0xC0 + q), byte_of (0x80 + r)]"
proof -
  have "(64 * q + r) div 64 = q" "(64 * q + r) mod 64 = r" using assms by simp_all
  moreover have "scalar_value (64 * q + r)" using assms by (simp add: scalar_value_def)
  ultimately show ?thesis using assms by (simp add: encode_char_def)
qed

lemma digit:
  assumes "0 \<le> r" "r < (64 :: int)"
  shows "(64 * x + r) div 64 = x" "(64 * x + r) mod 64 = r"
  using assms by simp_all

lemma digits_3:
  assumes "0 \<le> m" "m < 64" "0 \<le> r" "r < (64 :: int)"
  shows "(64 * (64 * q + m) + r) div 4096 = q" "(64 * (64 * q + m) + r) div 64 mod 64 = m"
    "(64 * (64 * q + m) + r) mod 64 = r"
proof -
  have 1: "(64 * (64 * q + m) + r) div 64 = 64 * q + m" using assms by simp
  have "(64 * (64 * q + m) + r) div 4096 = (64 * (64 * q + m) + r) div 64 div 64"
    by (simp add: zdiv_zmult2_eq [symmetric])
  with 1 show "(64 * (64 * q + m) + r) div 4096 = q" using assms by simp
  from 1 show "(64 * (64 * q + m) + r) div 64 mod 64 = m" using assms by simp
  show "(64 * (64 * q + m) + r) mod 64 = r" using assms by (intro digit(2))
qed

lemma encode_char_3:
  assumes "0 \<le> q" "q < 16" "0 \<le> m" "m < 64" "0 \<le> r" "r < 64"
    and "q = 0 \<longrightarrow> 0x20 \<le> m" "q = 13 \<longrightarrow> m < 0x20"
  shows "encode_char (64 * (64 * q + m) + r)
    = Inr [byte_of (0xE0 + q), byte_of (0x80 + m), byte_of (0x80 + r)]"
proof -
  have "q = 0 \<or> 1 \<le> q \<and> q \<le> 12 \<or> q = 13 \<or> 14 \<le> q" using assms(1) by linarith
  then have "0x800 \<le> 64 * (64 * q + m) + r" "64 * (64 * q + m) + r < 0x10000"
    "64 * (64 * q + m) + r < 0xD800 \<or> 0xE000 \<le> 64 * (64 * q + m) + r"
    using assms by auto
  moreover from this have "scalar_value (64 * (64 * q + m) + r)" by (simp only: scalar_value_def) linarith
  ultimately show ?thesis
    by (simp only: encode_char_def digits_3 [OF assms(3-6)]) simp
qed

lemma encode_char_4:
  assumes "0 \<le> q" "q < 5" "0 \<le> k" "k < 64" "0 \<le> m" "m < 64" "0 \<le> r" "r < 64"
    and "q = 0 \<longrightarrow> 0x10 \<le> k" "q = 4 \<longrightarrow> k < 0x10"
  shows "encode_char (64 * (64 * (64 * q + k) + m) + r)
    = Inr [byte_of (0xF0 + q), byte_of (0x80 + k), byte_of (0x80 + m), byte_of (0x80 + r)]"
proof -
  define c where "c = 64 * (64 * (64 * q + k) + m) + r"
  have "q = 0 \<or> 1 \<le> q \<and> q \<le> 3 \<or> q = 4" using assms(1,2) by linarith
  then have c: "0x10000 \<le> c" "c < 0x110000" using assms by (auto simp: c_def)
  then have "scalar_value c" by (simp add: scalar_value_def)
  moreover have d: "c div 4096 = 64 * q + k" "c div 64 mod 64 = m" "c mod 64 = r"
    unfolding c_def by (rule digits_3 [OF assms(5-8)])+
  moreover have "c div 262144 = c div 4096 div 64" by (simp add: zdiv_zmult2_eq [symmetric])
  then have "c div 262144 = q" and "c div 4096 mod 64 = k" using assms(3,4) d(1) by simp_all
  ultimately have "encode_char c
      = Inr [byte_of (0xF0 + q), byte_of (0x80 + k), byte_of (0x80 + m), byte_of (0x80 + r)]"
    using c by (simp add: encode_char_def)
  then show ?thesis by (simp only: c_def)
qed

lemma utf8_trail_Suc_Some:
  "utf8_trail (Suc n) lo hi acc bs = (Some c, rest) \<longleftrightarrow>
   (\<exists>b bs'. bs = b # bs' \<and> lo \<le> uint b \<and> uint b \<le> hi
      \<and> utf8_trail n 0x80 0xBF (64 * acc + (uint b - 0x80)) bs' = (Some c, rest))"
  by (cases bs) auto

lemma utf8_next_inverse:
  assumes "utf8_next b bs = (Some c, rest)"
  shows "\<exists>p. encode_char c = Inr p \<and> b # bs = p @ rest"
proof (cases "uint b < 0x80")
  case True
  with assms have "c = uint b" "rest = bs" by (auto simp: utf8_next_def)
  moreover have "encode_char (uint b) = Inr [b]"
    using True by (simp add: encode_char_def scalar_value_def)
  ultimately show ?thesis by auto
next
  case False
  then obtain n lo hi acc where lead: "utf8_lead (uint b) = Some (n, lo, hi, acc)"
    and trail: "utf8_trail n lo hi acc bs = (Some c, rest)"
    using assms by (auto simp: utf8_next_def split: option.splits)
  consider (two) "n = 1" "lo = 0x80" "hi = 0xBF" "acc = uint b - 0xC0" "2 \<le> acc" "acc < 32"
    | (three) "n = 2" "lo = (if acc = 0 then 0xA0 else 0x80)" "hi = (if acc = 13 then 0x9F else 0xBF)"
        "acc = uint b - 0xE0" "0 \<le> acc" "acc < 16"
    | (four) "n = 3" "lo = (if acc = 0 then 0x90 else 0x80)" "hi = (if acc = 4 then 0x8F else 0xBF)"
        "acc = uint b - 0xF0" "0 \<le> acc" "acc < 5"
    using lead by (auto simp: utf8_lead_def split: if_splits)
  then show ?thesis
  proof cases
    case two
    with trail obtain b1 where b1: "bs = b1 # rest" "0x80 \<le> uint b1" "uint b1 \<le> 0xBF"
      "c = 64 * acc + (uint b1 - 0x80)" by (auto simp: utf8_trail_Suc_Some)
    have "encode_char c = Inr [byte_of (0xC0 + acc), byte_of (0x80 + (uint b1 - 0x80))]"
      unfolding b1(4) by (rule encode_char_2) (use two b1 in auto)
    with two(4) b1(1) show ?thesis by simp
  next
    case three
    with trail obtain b1 b2 where b: "bs = b1 # b2 # rest" "lo \<le> uint b1" "uint b1 \<le> hi"
      "0x80 \<le> uint b2" "uint b2 \<le> 0xBF" "c = 64 * (64 * acc + (uint b1 - 0x80)) + (uint b2 - 0x80)"
      by (auto simp: utf8_trail_Suc_Some numeral_2_eq_2)
    have "encode_char c = Inr [byte_of (0xE0 + acc), byte_of (0x80 + (uint b1 - 0x80)), byte_of (0x80 + (uint b2 - 0x80))]"
      unfolding b(6) by (rule encode_char_3) (use three b in \<open>auto split: if_splits\<close>)
    with three(4) b(1) show ?thesis by simp
  next
    case four
    with trail obtain b1 b2 b3 where b: "bs = b1 # b2 # b3 # rest" "lo \<le> uint b1" "uint b1 \<le> hi"
      "0x80 \<le> uint b2" "uint b2 \<le> 0xBF" "0x80 \<le> uint b3" "uint b3 \<le> 0xBF"
      "c = 64 * (64 * (64 * acc + (uint b1 - 0x80)) + (uint b2 - 0x80)) + (uint b3 - 0x80)"
      by (auto simp: utf8_trail_Suc_Some numeral_3_eq_3)
    have "encode_char c = Inr [byte_of (0xF0 + acc), byte_of (0x80 + (uint b1 - 0x80)),
        byte_of (0x80 + (uint b2 - 0x80)), byte_of (0x80 + (uint b3 - 0x80))]"
      unfolding b(8) by (rule encode_char_4) (use four b in \<open>auto split: if_splits\<close>)
    with four(4) b(1) show ?thesis by simp
  qed
qed

lemma utf8_decode_encode:
  "utf8_decode Strict bs = Inr cs \<Longrightarrow> utf8_encode cs = Inr bs"
proof (induction Strict bs arbitrary: cs rule: utf8_decode.induct)
  case 1
  then show ?case by simp
next
  case (2 b bs)
  then obtain c rest ds where n: "utf8_next b bs = (Some c, rest)"
    and d: "utf8_decode Strict rest = Inr ds" "cs = c # ds"
    by (auto simp: bindE_Inr split: prod.splits option.splits)
  from utf8_next_inverse [OF n] obtain p where "encode_char c = Inr p" "b # bs = p @ rest" by blast
  with 2 n d show ?case by simp
qed

text \<open>With \<open>ignore\<close>, decoding always gives a text, and one that encodes into no more bytes.\<close>

lemma utf8_ignore_total:
  "\<exists>cs out. utf8_decode Ignore bs = Inr cs \<and> utf8_encode cs = Inr out \<and> length out \<le> length bs"
proof (induction Ignore bs rule: utf8_decode.induct)
  case 1
  then show ?case by simp
next
  case (2 b bs)
  obtain oc rest where n: "utf8_next b bs = (oc, rest)" by fastforce
  then have len: "length rest \<le> length bs" using utf8_next_length [of b bs] by simp
  show ?case
  proof (cases oc)
    case None
    from 2(1) [OF n [symmetric] None] obtain cs out where
      "utf8_decode Ignore rest = Inr cs" "utf8_encode cs = Inr out" "length out \<le> length rest" by blast
    with None n len show ?thesis by simp
  next
    case (Some c)
    from utf8_next_inverse n Some obtain p where p: "encode_char c = Inr p" "b # bs = p @ rest" by blast
    have len: "length (b # bs) = length (p @ rest)" by (rule arg_cong [OF p(2)])
    from 2(2) [OF n [symmetric] Some] obtain cs out where
      "utf8_decode Ignore rest = Inr cs" "utf8_encode cs = Inr out" "length out \<le> length rest" by blast
    with Some n p(1) len show ?thesis by simp
  qed
qed

lemma utf8_encode_append:
  "utf8_encode (xs @ ys) = bindE (utf8_encode xs) (\<lambda>a. bindE (utf8_encode ys) (\<lambda>b. Inr (a @ b)))"
proof (induction xs)
  case Nil
  then show ?case by (cases "utf8_encode ys") simp_all
next
  case (Cons x xs)
  then show ?case
    by (cases "encode_char x"; cases "utf8_encode xs"; cases "utf8_encode ys") simp_all
qed

lemma strip_middle: "\<exists>xs ys. cs = xs @ strip cs @ ys"
proof -
  let ?m = "dropWhile is_space cs"
  have "?m = rev (takeWhile is_space (rev ?m) @ dropWhile is_space (rev ?m))" by simp
  then have "?m = strip cs @ rev (takeWhile is_space (rev ?m))"
    by (simp only: rev_append strip_def)
  with takeWhile_dropWhile_id [of is_space cs]
  have "takeWhile is_space cs @ strip cs @ rev (takeWhile is_space (rev ?m)) = cs" by simp
  from this [symmetric] show ?thesis by (intro exI)
qed

lemma strip_encodes:
  assumes "utf8_encode cs = Inr out"
  shows "\<exists>out'. utf8_encode (strip cs) = Inr out' \<and> length out' \<le> length out"
proof -
  obtain xs ys where "cs = xs @ strip cs @ ys" using strip_middle by blast
  with assms have "utf8_encode (xs @ strip cs @ ys) = Inr out" by simp
  then show ?thesis by (auto simp: utf8_encode_append bindE_Inr)
qed

lemma encode_char_ascii: "0 \<le> c \<Longrightarrow> c < 0x80 \<Longrightarrow> encode_char c = Inr [byte_of c]"
  by (simp add: encode_char_def scalar_value_def)

end
