(* ===== verification/Examples.thy ===== *)
theory Examples
  imports Dialogue Endpoints Utf8
begin

text \<open>
  The example servers of \<open>src/examples\<close>: the EC2 gateway (\<open>aws_ec2_test/server/server.py\<close>) and
  the two demonstration projects (\<open>project_tcp\<close>, \<open>project_udp\<close>).  Their session handlers are
  coroutines on a session, built from the answering loop of \<open>Dialogue\<close>; what they print is not
  modelled.
\<close>

section \<open>The EC2 gateway\<close>

definition DEFAULT_PSK :: bytes where "DEFAULT_PSK = ascii ''usmp-dev-psk-change-me-before-prod''"

text \<open>The answers of \<open>gethostname\<close> and \<open>getaddrinfo\<close> are arguments.\<close>

definition get_local_ips :: "py_exc + string \<Rightarrow> (string \<Rightarrow> py_exc + string list) \<Rightarrow> string set" where
  "get_local_ips hostname getaddrinfo =
     (case bindE hostname getaddrinfo of
        Inl e \<Rightarrow> {}
      | Inr addrs \<Rightarrow> set (filter (\<lambda>addr. CHR '':'' \<notin> set addr \<and> addr \<noteq> ''127.0.0.1'') addrs))"

text \<open>\<open>text = data.decode(errors='ignore').strip()\<close>, and the response encoded.\<close>

definition gateway_reply :: "bytes \<Rightarrow> py_exc + bytes" where
  "gateway_reply data =
     bindE (utf8_decode Ignore data) (\<lambda>cs. utf8_encode (text_of ''Echo from EC2: '' @ strip cs))"

definition handle_client :: "'t transport_ops \<Rightarrow> crypto \<Rightarrow> nat \<Rightarrow> nat \<Rightarrow> 't session_handler" where
  "handle_client ops C fuel n =
     until_done (catch_io (answer_loop ops C gateway_reply fuel n)
       (\<lambda>e. if e = ConnectionClosedError then ret (Some ())
            else if e = CancelledError then throw e
            else ret (Some ())))"

text \<open>
  The key: \<open>--psk\<close>, whose default is the environment variable; an empty argument falls back to
  that variable, and an empty or missing one to the constant.
\<close>

definition load_psk :: "ustring option \<Rightarrow> ustring option \<Rightarrow> py_exc + bytes" where
  "load_psk arg env =
     (let psk = (case arg of Some s \<Rightarrow> Some s | None \<Rightarrow> env) in
      case psk of
        Some (c # cs) \<Rightarrow> utf8_encode (c # cs)
      | _ \<Rightarrow> (case env of Some (c # cs) \<Rightarrow> utf8_encode (c # cs) | _ \<Rightarrow> Inr DEFAULT_PSK))"

text \<open>
  \<open>main\<close>: it refuses short keys, and otherwise serves until \<open>serve\<close> ends, in whatever way.  100 and 5
  are the default limits of \<open>USMPServer\<close>.
\<close>

inductive gateway_main ::
  "crypto \<Rightarrow> (protocol \<Rightarrow> py_exc + bool) \<Rightarrow> ustring option \<Rightarrow> ustring option \<Rightarrow> bytes \<Rightarrow> failed_table \<Rightarrow>
   (py_exc, unit) outcome \<Rightarrow> bool"
  for C :: crypto and endpoint :: "protocol \<Rightarrow> py_exc + bool" and arg :: "ustring option"
    and env :: "ustring option" and secret :: bytes and failed :: failed_table where
  not_encodable: "load_psk arg env = Inl e \<Longrightarrow> gateway_main C endpoint arg env secret failed (Raise e)"
| too_short: "load_psk arg env = Inr psk \<Longrightarrow> length psk < 16 \<Longrightarrow>
    gateway_main C endpoint arg env secret failed (Ret ())"
| no_server: "load_psk arg env = Inr psk \<Longrightarrow> 16 \<le> length psk \<Longrightarrow>
    USMPServer (Psk_bytes psk) 100 5 secret failed = Inl e \<Longrightarrow>
    gateway_main C endpoint arg env secret failed (Raise e)"
| serves: "load_psk arg env = Inr psk \<Longrightarrow> 16 \<le> length psk \<Longrightarrow>
    USMPServer (Psk_bytes psk) 100 5 secret failed = Inr sv \<Longrightarrow>
    serve C True (protocol_value TCP) endpoint (started sv) out s \<Longrightarrow>
    gateway_main C endpoint arg env secret failed (case out of Raise e \<Rightarrow> Ret () | r \<Rightarrow> r)"

inductive_cases gateway_mainE: "gateway_main C endpoint arg env secret failed out"

section \<open>The demonstration servers\<close>

text \<open>\<open>data.decode().strip()\<close> is only printed; the reply is a constant.\<close>

definition hello_reply :: "string \<Rightarrow> bytes \<Rightarrow> py_exc + bytes" where
  "hello_reply response data = bindE (utf8_decode Strict data) (\<lambda>_. Inr (ascii response))"

definition handle_demo ::
  "string \<Rightarrow> 't transport_ops \<Rightarrow> crypto \<Rightarrow> nat \<Rightarrow> nat \<Rightarrow> 't session_handler" where
  "handle_demo response ops C fuel n =
     until_done (catch_io (answer_loop ops C (hello_reply response) fuel n)
       (\<lambda>e. if e = ConnectionClosedError then ret (Some ()) else throw e))"

definition handle_project_tcp :: "crypto \<Rightarrow> nat \<Rightarrow> nat \<Rightarrow> tcp_transport session_handler" where
  "handle_project_tcp C = handle_demo ''hello from server'' tcp_ops C"

definition handle_project_udp :: "crypto \<Rightarrow> nat \<Rightarrow> nat \<Rightarrow> udp_stream session_handler" where
  "handle_project_udp C = handle_demo ''hello from server via UDP'' (udp_ops C) C"

text \<open>Both projects use the published key.\<close>

definition project_server :: "bytes \<Rightarrow> failed_table \<Rightarrow> py_exc + server" where
  "project_server secret failed = USMPServer (Psk_bytes DEFAULT_PSK) 100 5 secret failed"

lemma project_server_starts: "\<exists>sv. project_server secret failed = Inr sv"
  by (simp add: project_server_def USMPServer_def check_psk_def DEFAULT_PSK_def ascii_def)

section \<open>Echoes\<close>

definition echo :: "bytes \<Rightarrow> bytes" where
  "echo data = (case gateway_reply data of Inr r \<Rightarrow> r | Inl e \<Rightarrow> [])"

lemma prompt_encodes: "utf8_encode (text_of ''Echo from EC2: '') = Inr (ascii ''Echo from EC2: '')"
  by code_simp

lemma gateway_reply_total:
  "gateway_reply data = Inr (echo data) \<and> length (echo data) \<le> length data + 15"
proof -
  obtain cs out where d: "utf8_decode Ignore data = Inr cs" "utf8_encode cs = Inr out" "length out \<le> length data"
    using utf8_ignore_total by blast
  from strip_encodes [OF d(2)] obtain out' where "utf8_encode (strip cs) = Inr out'" "length out' \<le> length out" by blast
  with d show ?thesis by (simp add: echo_def gateway_reply_def utf8_encode_append prompt_encodes)
qed

lemma echo_text:
  "utf8_encode cs = Inr data \<Longrightarrow>
   gateway_reply data = utf8_encode (text_of ''Echo from EC2: '' @ strip cs)"
  by (simp add: gateway_reply_def utf8_encode_decode)

lemma handle_client_closed:
  "answer_loop tcp_ops C gateway_reply fuel n s = (Raise ConnectionClosedError, s') \<Longrightarrow>
   handle_client tcp_ops C fuel n s = (Ret (), s')"
  by (simp add: handle_client_def until_done_def catch_io_def)

text \<open>
  C2: the system end to end: a client that connects over TCP, sends any messages of at most 1793
  bytes, awaits the answer to each and disconnects, and a server that runs the gateway's
  handler, each reading exactly the bytes the other writes, both return; the answers are the
  echoes of the messages, in order; both transports are closed, and the server is as it was
  before the connection, but for the failures of the peer, which it has forgotten.
\<close>

theorem gateway_echoes_over_tcp:
  assumes "dh_law C" and "hmac_law C" and "hkdf_law C" and "aead_law C"
    and "length (c_device_id c) = 6" and "length (r_nonce rnd) = 32" and "length (r_session_id rnd) = 16"
    and "resolve_psk src (c_device_id c) = Inr (c_psk c)"
    and "derive_session_keys C priv_c (x_public C (r_private rnd)) (r_nonce rnd) (x_public C priv_c)
           (x_public C (r_private rnd)) = Inr (k1, k2)"
    and "list_all (\<lambda>m. length m \<le> 1793) ms" and "4 * int (length ms) < 0xFFFFFFFF"
    and "\<And>input. open_transport (reg input) c = Inr (tcp_connected ps clk input False)" and "c_session c = None"
    and "0 < ctimeout" and "0 < timeout" and "4 \<le> fuel" and "length ms < n"
    and "admit_tcp (ip_of_peer pc) sv = Some sv'"
    and "\<not> locked_out (sv_failed sv) (limiter_key_of pc ident) (fst (tick clk'))"
  shows "\<exists>c' t' k'.
     dialogue tcp_ops C (reg (tcp_out (k_transport k'))) priv_c ctimeout fuel ms c
       = (Ret (map (\<lambda>m. Some (echo m)) ms), c')
   \<and> on_tcp_connect tcp_ops C rnd ident src timeout (Some (handle_client tcp_ops C fuel n))
       \<lparr>k_server = sv, k_transport = tcp_connected pc clk' (tcp_out t') False, k_decremented = b\<rparr> = (Ret (), k')
   \<and> c_dropped c' = t' # c_dropped c \<and> c_session c' = None \<and> tcp_closed t' \<and> tcp_closed (k_transport k')
   \<and> k_server k' = release_tcp (ip_of_peer pc)
        (sv'\<lparr>sv_failed := AList.delete (limiter_key_of pc ident) (sv_failed sv)\<rparr>)"
proof -
  have "list_all2 (\<lambda>m r. gateway_reply m = Inr r \<and> length m \<le> 1808 \<and> length r \<le> 1808) ms (map echo ms)"
    using assms(10) by (induction ms) (use gateway_reply_total in fastforce)+
  moreover have "\<forall>s s'. answer_loop tcp_ops C gateway_reply fuel n s = (Raise ConnectionClosedError, s')
      \<longrightarrow> handle_client tcp_ops C fuel n s = (Ret (), s')"
    by (simp add: handle_client_closed)
  ultimately show ?thesis
    using dialogue_agrees [OF assms(1-9) _ assms(11) _ assms(12-19), where b = b and rs = "map echo ms"]
    by (simp add: comp_def)
qed

theorem gateway_echoes_over_tcp_witness:
  "\<exists>c' t' k'.
     dialogue tcp_ops demo_crypto (demo_registry (tcp_connected No_peer (0, []) (tcp_out (k_transport k')) False)) [5] 10 4
       [ascii ''hi'', []] demo_client = (Ret [Some (echo (ascii ''hi'')), Some (echo [])], c')
   \<and> on_tcp_connect tcp_ops demo_crypto demo_random 0 (Psk_bytes (replicate 16 9)) 10 (Some (handle_client tcp_ops demo_crypto 4 3))
       (demo_connection (tcp_connected (Peer_addr ''h'' 1) (0, []) (tcp_out t') False)) = (Ret (), k')
   \<and> c_dropped c' = [t'] \<and> tcp_closed t' \<and> tcp_closed (k_transport k')"
proof -
  obtain k1 k2 where keys: "derive_session_keys demo_crypto [5] (x_public demo_crypto [7]) (replicate 32 1)
      (x_public demo_crypto [5]) (x_public demo_crypto [7]) = Inr (k1, k2)"
    using demo_shared demo_shared_nonzero by (simp add: derive_session_keys_def Let_def)
  let ?c = "demo_client :: tcp_transport client" and ?sv' = "the (admit_tcp (ip_of_peer (Peer_addr ''h'' 1)) demo_server)"
  have "\<exists>c' t' k'.
     dialogue tcp_ops demo_crypto (demo_registry (tcp_connected No_peer (0, []) (tcp_out (k_transport k')) False)) [5] 10 4
       [ascii ''hi'', []] ?c = (Ret (map (\<lambda>m. Some (echo m)) [ascii ''hi'', []]), c')
   \<and> on_tcp_connect tcp_ops demo_crypto demo_random 0 (Psk_bytes (replicate 16 9)) 10 (Some (handle_client tcp_ops demo_crypto 4 3))
       \<lparr>k_server = demo_server, k_transport = tcp_connected (Peer_addr ''h'' 1) (0, []) (tcp_out t') False,
         k_decremented = False\<rparr> = (Ret (), k')
   \<and> c_dropped c' = t' # c_dropped ?c \<and> c_session c' = None \<and> tcp_closed t' \<and> tcp_closed (k_transport k')
   \<and> k_server k' = release_tcp (ip_of_peer (Peer_addr ''h'' 1))
        (?sv'\<lparr>sv_failed := AList.delete (limiter_key_of (Peer_addr ''h'' 1) 0) (sv_failed demo_server)\<rparr>)"
    by (rule gateway_echoes_over_tcp [where ?k1.0 = k1 and ?k2.0 = k2])
      (use keys in \<open>simp_all add: demo_random_def resolve_psk_def find_psk_def demo_server_def locked_out_def
          admit_tcp_def total_def count_of_def\<close>)
  then show ?thesis
    unfolding demo_connection_def list.map demo_client_simps by blast
qed

text \<open>
  The limit is sharp: a message within the limit of the protocol, but whose echo is not, ends the
  session: the handler's \<open>send\<close> raises \<open>PayloadError\<close>, the last \<open>except\<close> clause catches it, and the
  handler returns without an answer.  This happens to every text without spaces around it
  that has more than 1793 bytes.
\<close>

theorem long_message_ends_echo:
  assumes "utf8_encode cs = Inr data" and "strip cs = cs" and "1793 < length data"
    and "recv ops C fuel None s = (Ret (Some data), s')"
  shows "handle_client ops C fuel (Suc n) s = (Ret (), s')"
proof -
  have "gateway_reply data = Inr (ascii ''Echo from EC2: '' @ data)"
    using assms(1,2) echo_text [OF assms(1)] by (simp add: utf8_encode_append prompt_encodes)
  then show ?thesis
    using assms(3,4)
    by (simp add: handle_client_def until_done_def catch_io_def bind_io_def send_def)
qed

lemma letters_encode: "utf8_encode (replicate n 97) = Inr (replicate n 97)"
  by (induction n) (simp_all add: encode_char_ascii byte_of_def)

theorem long_message_ends_echo_witness:
  "\<exists>s s'. recv tcp_ops demo_crypto 4 None s = (Ret (Some (replicate 1800 97)), s')
     \<and> handle_client tcp_ops demo_crypto 4 1 s = (Ret (), s')"
proof -
  let ?data = "replicate 1800 97 :: bytes" and ?cs = "replicate 1800 97 :: ustring"
  let ?s = "(demo_session (demo_tcp (wire_of demo_crypto demo_info (fragments ?data))))\<lparr>s_info := demo_peer_info\<rparr>"
  have "paired demo_info (s_info ?s)"
    by (simp add: paired_def demo_info_def demo_peer_info_def)
  then obtain s' where r: "recv tcp_ops demo_crypto 4 None ?s = (Ret (Some ?data), s')"
    using tcp_recv_message [of demo_crypto ?data demo_info ?s 4 "[]" None]
    by (auto simp: demo_session_def demo_tcp_def tcp_connected_def effective_timeout_def demo_info_def)
  have "strip ?cs = ?cs"
    by (simp add: strip_def is_space_def dropWhile_eq_self_iff hd_replicate)
  then have "handle_client tcp_ops demo_crypto 4 (Suc 0) ?s = (Ret (), s')"
    by (rule long_message_ends_echo [OF letters_encode _ _ r]) simp
  with r show ?thesis by auto
qed

text \<open>Every other exception ends the handler quietly too; only a cancellation goes through.\<close>

lemma handle_client_outcome:
  "fst (handle_client ops C fuel n s) \<in> {Ret (), Blocked, Raise CancelledError}"
  by (auto simp: handle_client_def until_done_def catch_io_def
      split: prod.splits outcome.splits option.splits if_splits)

text \<open>
  The demonstration servers decode strictly: a message that is not UTF-8 raises out of their
  handlers, which ends the connection, and any other message gets the constant answer.
\<close>

lemma hello_rejects_malformed:
  assumes "recv ops C fuel None s = (Ret (Some data), s')"
  shows "(case utf8_decode Strict data of
     Inl e \<Rightarrow> e = ValueError \<and> handle_demo response ops C fuel (Suc n) s = (Raise ValueError, s')
   | Inr cs \<Rightarrow> utf8_encode cs = Inr data \<and> hello_reply response data = Inr (ascii response))"
proof -
  have "e = ValueError" if "utf8_decode Strict bs = Inl e" for bs e
    using that by (induction Strict bs rule: utf8_decode.induct)
      (auto simp: bindE_Inl split: prod.splits option.splits)
  then show ?thesis
    using assms
    by (auto simp: handle_demo_def until_done_def catch_io_def bind_io_def hello_reply_def utf8_decode_encode
        split: sum.split)
qed

section \<open>Starting the gateway\<close>

lemma load_psk_encodes:
  "load_psk arg env = Inl e \<Longrightarrow> e = ValueError"
proof -
  have e: "utf8_encode cs = Inl e \<Longrightarrow> e = ValueError" for cs
    by (induction cs) (auto simp: bindE_Inl encode_char_def split: if_splits)
  show "load_psk arg env = Inl e \<Longrightarrow> e = ValueError"
    by (auto simp: load_psk_def Let_def split: option.splits list.splits dest: e simp del: utf8_encode.simps)
qed

text \<open>
  \<open>main\<close> never hands \<open>USMPServer\<close> a key that it rejects, and raises only for a key with a
  character that has no UTF-8 encoding; it refuses just the keys of less than 16 bytes, and
  a key that it serves with is the one its handshakes use; with no key given it serves with
  the published one.
\<close>

lemma gateway_main_outcome:
  assumes "gateway_main C endpoint arg env secret failed out"
  shows "(case load_psk arg env of
       Inl e \<Rightarrow> out = Raise ValueError
     | Inr psk \<Rightarrow> if length psk < 16 then out = Ret ()
         else (\<forall>e. out \<noteq> Raise e) \<and> resolve_psk (Psk_bytes psk) dev = Inr psk)
    \<and> (arg \<in> {None, Some []} \<and> env \<in> {None, Some []} \<longrightarrow>
        load_psk arg env = Inr DEFAULT_PSK \<and> 16 \<le> length DEFAULT_PSK)"
proof -
  have "(case load_psk arg env of
       Inl e \<Rightarrow> out = Raise ValueError
     | Inr psk \<Rightarrow> if length psk < 16 then out = Ret ()
         else (\<forall>e. out \<noteq> Raise e) \<and> resolve_psk (Psk_bytes psk) dev = Inr psk)"
    using assms
    by (cases rule: gateway_main.cases)
      (auto simp: USMPServer_def check_psk_def bindE_Inl resolve_psk_def find_psk_def
        dest: load_psk_encodes split: outcome.splits if_splits)
  moreover have "arg \<in> {None, Some []} \<and> env \<in> {None, Some []} \<longrightarrow>
      load_psk arg env = Inr DEFAULT_PSK \<and> 16 \<le> length DEFAULT_PSK"
    by (auto simp: load_psk_def DEFAULT_PSK_def)
  ultimately show ?thesis by blast
qed

end
