(* ===== verification/HandshakeGate.thy ===== *)
theory HandshakeGate
  imports Connection
begin

text \<open>
  The semaphore of \<open>_run_handshake\<close>: ten handshakes run at a time, and the tasks beyond them wait
  in the order they came, which is how \<open>asyncio.Semaphore\<close> serves them.  The timeout of a
  handshake is set before its task waits for the semaphore.  A task is a name with the time
  at which its \<open>wait_for\<close> ends it; timers fire on time.
\<close>

section \<open>The gate\<close>

record gate =
  g_now :: rat
  g_running :: "(nat \<times> rat) list"
  g_waiting :: "(nat \<times> rat) list"

definition handshake_slots :: nat where "handshake_slots = 10"

abbreviation gate_tasks :: "gate \<Rightarrow> (nat \<times> rat) list" where
  "gate_tasks g \<equiv> g_running g @ g_waiting g"

text \<open>\<open>async with self._handshake_semaphore\<close> under \<open>wait_for(\<dots>, timeout)\<close>: entering and leaving.\<close>

definition gate_enter :: "rat \<Rightarrow> nat \<Rightarrow> gate \<Rightarrow> gate" where
  "gate_enter timeout i g =
     (if length (g_running g) < handshake_slots \<and> g_waiting g = []
      then g\<lparr>g_running := g_running g @ [(i, g_now g + timeout)]\<rparr>
      else g\<lparr>g_waiting := g_waiting g @ [(i, g_now g + timeout)]\<rparr>)"

definition gate_wake :: "gate \<Rightarrow> gate" where
  "gate_wake g =
     (case g_waiting g of
        [] \<Rightarrow> g
      | w # ws \<Rightarrow>
          if length (g_running g) < handshake_slots
          then g\<lparr>g_running := g_running g @ [w], g_waiting := ws\<rparr> else g)"

definition gate_leave :: "nat \<Rightarrow> gate \<Rightarrow> gate" where
  "gate_leave i g =
     gate_wake (g\<lparr>g_running := filter (\<lambda>p. fst p \<noteq> i) (g_running g),
                  g_waiting := filter (\<lambda>p. fst p \<noteq> i) (g_waiting g)\<rparr>)"

text \<open>
  A new task comes; a running handshake returns or fails; a task whose time is up is
  cancelled, running or waiting; time passes, up to the next timer.
\<close>

inductive gate_step :: "rat \<Rightarrow> gate \<Rightarrow> gate \<Rightarrow> bool" for timeout :: rat where
  enters: "i \<notin> fst ` set (gate_tasks g) \<Longrightarrow> gate_step timeout g (gate_enter timeout i g)"
| ends: "(i, d) \<in> set (g_running g) \<Longrightarrow> gate_step timeout g (gate_leave i g)"
| times_out: "(i, d) \<in> set (gate_tasks g) \<Longrightarrow> d \<le> g_now g \<Longrightarrow> gate_step timeout g (gate_leave i g)"
| time: "g_now g \<le> t \<Longrightarrow> \<forall>p \<in> set (gate_tasks g). t \<le> snd p \<Longrightarrow> gate_step timeout g (g\<lparr>g_now := t\<rparr>)"

inductive_cases gate_stepE: "gate_step timeout g g'"

inductive gate_reachable :: "rat \<Rightarrow> gate \<Rightarrow> bool" for timeout :: rat where
  empty: "gate_reachable timeout \<lparr>g_now = now, g_running = [], g_waiting = []\<rparr>"
| step: "gate_reachable timeout g \<Longrightarrow> gate_step timeout g g' \<Longrightarrow> gate_reachable timeout g'"

section \<open>The gate is fair\<close>

definition gate_inv :: "rat \<Rightarrow> rat \<Rightarrow> (nat \<times> rat) list \<Rightarrow> (nat \<times> rat) list \<Rightarrow> bool" where
  "gate_inv timeout now rs ws \<longleftrightarrow>
     length rs \<le> handshake_slots \<and> (ws \<noteq> [] \<longrightarrow> length rs = handshake_slots)
   \<and> distinct (map fst rs) \<and> distinct (map fst ws)
   \<and> (\<forall>p \<in> set rs. now \<le> snd p \<and> snd p \<le> now + timeout)
   \<and> (\<forall>p \<in> set ws. now \<le> snd p \<and> snd p \<le> now + timeout)
   \<and> sorted (map snd ws) \<and> (\<forall>p \<in> set rs. \<forall>q \<in> set ws. fst p \<noteq> fst q \<and> snd p \<le> snd q)"

definition gate_ok :: "rat \<Rightarrow> gate \<Rightarrow> bool" where
  "gate_ok timeout g \<longleftrightarrow> gate_inv timeout (g_now g) (g_running g) (g_waiting g)"

lemma gate_ok_enter:
  assumes "gate_ok timeout g" and "i \<notin> fst ` set (gate_tasks g)" and "0 \<le> timeout"
  shows "gate_ok timeout (gate_enter timeout i g)"
  using assms by (auto simp: gate_ok_def gate_inv_def gate_enter_def sorted_append image_iff)

lemma filter_absent: "i \<notin> fst ` set xs \<Longrightarrow> filter (\<lambda>p. fst p \<noteq> i) xs = xs"
  by (force simp: filter_id_conv)

lemma filter_task_length:
  "distinct (map fst xs) \<Longrightarrow> i \<in> fst ` set xs \<Longrightarrow> Suc (length (filter (\<lambda>p. fst p \<noteq> i) xs)) = length xs"
proof (induction xs)
  case (Cons x xs)
  show ?case
  proof (cases "fst x = i")
    case True
    with Cons.prems have "i \<notin> fst ` set xs" by auto
    with True show ?thesis by (simp add: filter_absent)
  next
    case False
    with Cons show ?thesis by auto
  qed
qed simp

lemma gate_inv_ended:
  assumes "gate_inv timeout now rs ws" and "i \<in> fst ` set rs"
  shows "case ws of
      [] \<Rightarrow> gate_inv timeout now (filter (\<lambda>p. fst p \<noteq> i) rs) []
    | w # ws' \<Rightarrow> gate_inv timeout now (filter (\<lambda>p. fst p \<noteq> i) rs @ [w]) ws'"
proof (cases ws)
  case Nil
  with assms filter_task_length [of rs i] show ?thesis
    by (auto simp: gate_inv_def distinct_map_filter)
next
  case (Cons w ws')
  with assms filter_task_length [of rs i] have "length (filter (\<lambda>p. fst p \<noteq> i) rs @ [w]) = handshake_slots"
    by (auto simp: gate_inv_def)
  moreover have "distinct (map fst (filter (\<lambda>p. fst p \<noteq> i) rs @ [w]))"
    using assms(1) Cons by (auto simp: gate_inv_def distinct_map_filter)
  moreover have "\<forall>q \<in> set ws'. fst w \<noteq> fst q \<and> snd w \<le> snd q"
    using assms(1) Cons by (auto simp: gate_inv_def image_iff)
  then have "\<forall>p \<in> set (filter (\<lambda>p. fst p \<noteq> i) rs @ [w]). \<forall>q \<in> set ws'. fst p \<noteq> fst q \<and> snd p \<le> snd q"
    using assms(1) Cons by (simp add: gate_inv_def)
  ultimately show ?thesis
    using assms(1) Cons by (simp add: gate_inv_def)
qed

lemma gate_inv_gave_up:
  assumes "gate_inv timeout now rs ws"
  shows "gate_inv timeout now rs (filter (\<lambda>p. fst p \<noteq> i) ws)"
  using assms by (auto simp: gate_inv_def distinct_map_filter sorted_filter)

lemma gate_ok_leave:
  assumes "gate_ok timeout g" and "i \<in> fst ` set (gate_tasks g)"
  shows "gate_ok timeout (gate_leave i g)"
proof (cases "i \<in> fst ` set (g_running g)")
  case True
  with assms(1) have "i \<notin> fst ` set (g_waiting g)" by (auto simp: gate_ok_def gate_inv_def)
  then have ws: "filter (\<lambda>p. fst p \<noteq> i) (g_waiting g) = g_waiting g" by (rule filter_absent)
  have "length (filter (\<lambda>p. fst p \<noteq> i) (g_running g)) < handshake_slots"
    using filter_task_length [OF _ True] assms(1) by (auto simp: gate_ok_def gate_inv_def)
  with gate_inv_ended [OF _ True, of timeout "g_now g" "g_waiting g"] assms(1) ws show ?thesis
    by (auto simp: gate_ok_def gate_leave_def gate_wake_def split: list.splits)
next
  case False
  with assms(2) have "g_waiting g \<noteq> []" by auto
  with assms(1) have "length (g_running g) = handshake_slots" by (simp add: gate_ok_def gate_inv_def)
  with gate_inv_gave_up [of timeout "g_now g" "g_running g" "g_waiting g" i] assms(1) filter_absent [OF False]
  show ?thesis by (auto simp: gate_ok_def gate_leave_def gate_wake_def split: list.splits)
qed

lemma gate_reachable_ok:
  assumes "gate_reachable timeout g" and "0 \<le> timeout"
  shows "gate_ok timeout g"
  using assms(1)
proof induction
  case (empty now)
  then show ?case by (simp add: gate_ok_def gate_inv_def)
next
  case (step g g')
  from step(2) show ?case
  proof (cases rule: gate_step.cases)
    case (enters i)
    with step assms(2) show ?thesis by (simp add: gate_ok_enter)
  next
    case (ends i d)
    then have "i \<in> fst ` set (gate_tasks g)" by force
    with ends(1) gate_ok_leave [OF step(3)] show ?thesis by simp
  next
    case (times_out i d)
    then have "i \<in> fst ` set (gate_tasks g)" by force
    with times_out(1) gate_ok_leave [OF step(3)] show ?thesis by simp
  next
    case (time t)
    with step(3) show ?thesis by (fastforce simp: gate_ok_def gate_inv_def)
  qed
qed

text \<open>
  C38: the gate of the handshakes: in every reachable state at most ten handshakes run, nobody waits
  while a slot is free, the queue is in the order of arrival, and a slot that becomes free goes
  to the first in the queue; so a task is cancelled in the queue only when the time of
  every running handshake is up as well.
\<close>

theorem handshake_gate_fair:
  assumes "gate_reachable timeout g" and "0 \<le> timeout"
  shows "length (g_running g) \<le> 10 \<and> (g_waiting g \<noteq> [] \<longrightarrow> length (g_running g) = 10)
    \<and> sorted (map snd (g_waiting g))
    \<and> (\<forall>i d w ws. (i, d) \<in> set (g_running g) \<and> g_waiting g = w # ws \<longrightarrow>
         w \<in> set (g_running (gate_leave i g)) \<and> g_waiting (gate_leave i g) = ws)
    \<and> (\<forall>i d. (i, d) \<in> set (g_waiting g) \<and> d \<le> g_now g \<longrightarrow> (\<forall>p \<in> set (g_running g). snd p \<le> g_now g))"
proof -
  have inv: "gate_inv timeout (g_now g) (g_running g) (g_waiting g)"
    using gate_reachable_ok [OF assms] by (simp add: gate_ok_def)
  have next_in: "w \<in> set (g_running (gate_leave i g)) \<and> g_waiting (gate_leave i g) = ws"
    if i: "(i, d) \<in> set (g_running g)" and ws: "g_waiting g = w # ws" for i d w ws
  proof -
    have mem: "i \<in> fst ` set (g_running g)" using i by force
    have "i \<notin> fst ` set (g_waiting g)" using inv i by (force simp: gate_inv_def)
    moreover have "length (filter (\<lambda>p. fst p \<noteq> i) (g_running g)) < handshake_slots"
      using filter_task_length [OF _ mem] inv by (auto simp: gate_inv_def)
    ultimately show ?thesis using ws by (simp add: gate_leave_def gate_wake_def filter_absent)
  qed
  have "snd p \<le> g_now g" if "(i, d) \<in> set (g_waiting g)" "d \<le> g_now g" "p \<in> set (g_running g)" for i d p
    using inv that by (fastforce simp: gate_inv_def)
  with next_in inv show ?thesis by (auto simp: gate_inv_def handshake_slots_def)
qed

text \<open>Eleven arrivals: ten run and one waits; when one of the ten has ended, the eleventh runs.\<close>

definition demo_gate :: gate where
  "demo_gate = fold (gate_enter 10) [0..<11] \<lparr>g_now = 0, g_running = [], g_waiting = []\<rparr>"

lemma enter_all_reachable:
  "gate_reachable timeout g \<Longrightarrow> distinct ts \<Longrightarrow> set ts \<inter> fst ` set (gate_tasks g) = {} \<Longrightarrow>
   gate_reachable timeout (fold (gate_enter timeout) ts g)"
proof (induction ts arbitrary: g)
  case (Cons i ts)
  have "gate_reachable timeout (gate_enter timeout i g)"
    using Cons.prems by (intro gate_reachable.step [OF Cons.prems(1)] gate_step.enters) auto
  then show ?case using Cons.prems by (simp, intro Cons.IH) (auto simp: gate_enter_def)
qed simp

lemma demo_gate_reachable: "gate_reachable 10 demo_gate"
  unfolding demo_gate_def by (rule enter_all_reachable [OF gate_reachable.empty]) simp_all

theorem handshake_gate_fair_witness:
  "gate_reachable 10 demo_gate \<and> g_waiting demo_gate = [(10, 10)] \<and> length (g_running demo_gate) = 10
   \<and> (10, 10) \<in> set (g_running (gate_leave 3 demo_gate))"
proof -
  note r = demo_gate_reachable
  have "g_waiting demo_gate = [(10, 10)]" "(3, 10) \<in> set (g_running demo_gate)"
    by code_simp+
  with handshake_gate_fair [OF r] r show ?thesis by simp blast
qed

section \<open>Waiting counts as failing\<close>

text \<open>
  As long as ten peers stall, those that come later only wait: time passes, others come, and
  tasks whose time is up are cancelled, but no handshake ends.
\<close>

inductive stalled :: "rat \<Rightarrow> gate \<Rightarrow> gate \<Rightarrow> bool" for timeout :: rat and g0 :: gate where
  start: "stalled timeout g0 g0"
| enters: "stalled timeout g0 g \<Longrightarrow> i \<notin> fst ` set (gate_tasks g) \<Longrightarrow> stalled timeout g0 (gate_enter timeout i g)"
| times_out: "stalled timeout g0 g \<Longrightarrow> (i, d) \<in> set (gate_tasks g) \<Longrightarrow> d \<le> g_now g \<Longrightarrow>
    stalled timeout g0 (gate_leave i g)"
| time: "stalled timeout g0 g \<Longrightarrow> g_now g \<le> t \<Longrightarrow> \<forall>p \<in> set (gate_tasks g). t \<le> snd p \<Longrightarrow>
    stalled timeout g0 (g\<lparr>g_now := t\<rparr>)"

lemma gate_leave_now [simp]: "g_now (gate_leave i g) = g_now g"
  by (simp add: gate_leave_def gate_wake_def split: list.split)

lemma stalled_reachable:
  "stalled timeout g0 g \<Longrightarrow> gate_reachable timeout g0 \<Longrightarrow> gate_reachable timeout g"
  by (induction rule: stalled.induct)
    (blast intro: gate_reachable.step gate_step.enters gate_step.times_out gate_step.time)+

lemma stalled_slots:
  assumes "stalled timeout g0 g" and "gate_reachable timeout g0" and "0 \<le> timeout"
    and "length (g_running g0) = handshake_slots" and "\<forall>p \<in> set (g_running g0). g_now g < snd p"
  shows "g_running g = g_running g0"
  using assms(1,5)
proof induction
  case start
  then show ?case by simp
next
  case (enters g i)
  with assms(4) show ?case by (simp add: gate_enter_def split: if_splits)
next
  case (times_out g i d)
  then have same: "g_running g = g_running g0" by simp
  have "gate_inv timeout (g_now g) (g_running g) (g_waiting g)"
    using gate_reachable_ok [OF stalled_reachable [OF times_out(1) assms(2)] assms(3)] by (simp add: gate_ok_def)
  moreover have "(i, d) \<notin> set (g_running g)" using times_out(3,5) same by fastforce
  ultimately have "i \<notin> fst ` set (g_running g)"
    using times_out(2) by (force simp: gate_inv_def)
  with same assms(4) show ?case
    by (simp add: gate_leave_def gate_wake_def filter_absent split: list.split)
next
  case (time g t)
  then show ?case by fastforce
qed

text \<open>
  \<open>_on_transport_connect\<close> of a task that has waited for the semaphore: what is left of its timeout
  is the time for its handshake.
\<close>

definition queued_connect ::
  "'t transport_ops \<Rightarrow> crypto \<Rightarrow> server_random \<Rightarrow> int \<Rightarrow> psk_source \<Rightarrow> rat \<Rightarrow> rat \<Rightarrow>
   't session_handler option \<Rightarrow> ('t connection, py_exc, unit) io" where
  "queued_connect ops C rnd ident psk timeout waited handler =
     on_tcp_connect ops C rnd ident psk (timeout - waited) handler"

text \<open>
  Waiting counts as failing: while ten peers stall, no other handshake runs before the time of one
  of the ten is up; and a peer whose task spends its whole timeout in the queue is recorded
  as having failed a handshake, like one that sent a wrong key, although nothing was read from
  it and nothing sent to it: five times, and it is locked out.
\<close>

theorem queue_wait_recorded:
  assumes "gate_reachable timeout g0" and "0 \<le> timeout" and "length (g_running g0) = 10"
    and "timeout \<le> waited" and "admit_tcp (ip_of_peer (tcp_peer (k_transport k))) (k_server k) = Some sv"
    and "record_failed_handshake (ip_of_peer (tcp_peer (k_transport k))) (fst (tick (tcp_clock (k_transport k))))
      (sv_failed (k_server k)) = Inr d"
  shows "(\<forall>g. stalled timeout g0 g \<and> (\<forall>p \<in> set (g_running g0). g_now g < snd p) \<longrightarrow> g_running g = g_running g0)
    \<and> (\<exists>k'. queued_connect tcp_ops C rnd ident psk timeout waited handler k = (Ret (), k')
         \<and> sv_failed (k_server k') = d \<and> tcp_closed (k_transport k')
         \<and> tcp_in (k_transport k') = tcp_in (k_transport k) \<and> tcp_out (k_transport k') = tcp_out (k_transport k))"
proof -
  have "sv_failed sv = sv_failed (k_server k)" using assms(5) by (auto simp: admit_tcp_def split: if_splits)
  moreover obtain now c where "tick (tcp_clock (k_transport k)) = (now, c)" by (metis surj_pair)
  ultimately have "\<exists>k'. queued_connect tcp_ops C rnd ident psk timeout waited handler k = (Ret (), k')
         \<and> sv_failed (k_server k') = d \<and> tcp_closed (k_transport k')
         \<and> tcp_in (k_transport k') = tcp_in (k_transport k) \<and> tcp_out (k_transport k') = tcp_out (k_transport k)"
    using assms(4-6)
    by (simp add: queued_connect_def on_tcp_connect_def connection_handshake_def run_handshake_def wait_for_def
        bind_io_def catch_io_def finally_io_def report_error_def connection_error_def is_HandshakeError_def
        tcp_monotonic_def tcp_finally_def release_tcp_def tcp_close_def)
  with stalled_slots [OF _ assms(1,2)] assms(3) show ?thesis by (simp add: handshake_slots_def)
qed

theorem queue_wait_recorded_witness:
  "\<exists>k'. queued_connect tcp_ops demo_crypto demo_random 0 (Psk_bytes (replicate 16 9)) 10 10 None
       (demo_connection (tcp_connected (Peer_addr ''h'' 1) (0, []) [1] False)) = (Ret (), k')
     \<and> map_of (sv_failed (k_server k')) (ip_of_peer (Peer_addr ''h'' 1)) = Some (1, 0, 0)"
proof -
  let ?k = "demo_connection (tcp_connected (Peer_addr ''h'' 1) (0, []) [1] False)" and ?ip = "ip_of_peer (Peer_addr ''h'' 1)"
  have "record_failed_handshake ?ip 0 [] = Inr [(?ip, 1, 0, 0)]"
    by (simp add: record_failed_handshake_def new_lockout_def evict_oldest_def entry_expired_def Let_def)
  moreover have "length (g_running demo_gate) = 10" by code_simp
  moreover have "admit_tcp ?ip demo_server = Some (demo_server\<lparr>sv_tcp_connections := counter_inc ?ip []\<rparr>)"
    by (simp add: admit_tcp_def demo_server_def total_def count_of_def)
  ultimately have "\<exists>k'. queued_connect tcp_ops demo_crypto demo_random 0 (Psk_bytes (replicate 16 9)) 10 10 None ?k = (Ret (), k')
     \<and> sv_failed (k_server k') = [(?ip, 1, 0, 0)] \<and> tcp_closed (k_transport k')
     \<and> tcp_in (k_transport k') = tcp_in (k_transport ?k) \<and> tcp_out (k_transport k') = tcp_out (k_transport ?k)"
    by (intro queue_wait_recorded [OF demo_gate_reachable, THEN conjunct2])
      (simp_all add: demo_connection_def demo_server_def tcp_connected_def)
  then show ?thesis by auto
qed

end
