(* ===== verification/CoreFrame.thy ===== *)
theory CoreFrame
  imports Frame
begin

text \<open>
  \<open>usmp_frame.c\<close> of the C core for devices (\<open>src/core\<close>), on the machine integers that it uses:
  the CRC, the header, and building and parsing a packet.  A buffer is the list of its
  bytes; \<open>payload\<close> is the array of the packet, of which \<open>length\<close> bytes are in use.  The
  lemmas relate it to the codec of the Python SDK, \<open>Frame\<close>.
\<close>

section \<open>The CRC and the header\<close>

definition usmp_crc_bit :: "16 word \<Rightarrow> 16 word" where
  "usmp_crc_bit crc = (if crc AND 1 \<noteq> 0 then drop_bit 1 crc XOR 0xA001 else drop_bit 1 crc)"

definition usmp_crc16_step :: "16 word \<Rightarrow> bytes \<Rightarrow> 16 word" where
  "usmp_crc16_step crc data = foldl (\<lambda>crc b. (usmp_crc_bit ^^ 8) (crc XOR ucast b)) crc data"

definition usmp_crc16 :: "bytes \<Rightarrow> 16 word" where
  "usmp_crc16 data = usmp_crc16_step 0xFFFF data"

definition usmp_serialize_header :: "16 word \<Rightarrow> 8 word \<Rightarrow> 8 word \<Rightarrow> 32 word \<Rightarrow> 16 word \<Rightarrow> bytes" where
  "usmp_serialize_header magic version type seq len =
     [ucast (magic AND 0xFF), ucast (drop_bit 8 magic AND 0xFF), version, type,
      ucast (seq AND 0xFF), ucast (drop_bit 8 seq AND 0xFF), ucast (drop_bit 16 seq AND 0xFF),
      ucast (drop_bit 24 seq AND 0xFF), ucast (len AND 0xFF), ucast (drop_bit 8 len AND 0xFF)]"

section \<open>Packets\<close>

record usmp_packet =
  pkt_magic :: "16 word"
  pkt_version :: "8 word"
  pkt_type :: "8 word"
  pkt_seq :: "32 word"
  pkt_length :: "16 word"
  pkt_crc :: "16 word"
  pkt_payload :: bytes

definition compute_crc :: "usmp_packet \<Rightarrow> 16 word" where
  "compute_crc pkt =
     (let header = usmp_serialize_header (pkt_magic pkt) (pkt_version pkt) (pkt_type pkt)
            (pkt_seq pkt) (pkt_length pkt);
          crc = usmp_crc16_step 0xFFFF header
      in usmp_crc16_step crc (take (unat (pkt_length pkt)) (pkt_payload pkt)))"

text \<open>The bytes written to \<open>out\<close>, which are \<open>total\<close> many, and the packet with its CRC.\<close>

definition usmp_build_packet :: "usmp_packet \<Rightarrow> usmp_packet \<times> bytes" where
  "usmp_build_packet pkt =
     (let pkt = pkt\<lparr>pkt_crc := compute_crc pkt\<rparr> in
      (pkt,
       usmp_serialize_header (pkt_magic pkt) (pkt_version pkt) (pkt_type pkt) (pkt_seq pkt) (pkt_length pkt)
       @ [ucast (pkt_crc pkt AND 0xFF), ucast (drop_bit 8 (pkt_crc pkt) AND 0xFF)]
       @ take (unat (pkt_length pkt)) (pkt_payload pkt)))"

definition get16 :: "bytes \<Rightarrow> nat \<Rightarrow> 16 word" where
  "get16 data i = ucast (data ! i) OR push_bit 8 (ucast (data ! (i + 1)))"

definition get32 :: "bytes \<Rightarrow> nat \<Rightarrow> 32 word" where
  "get32 data i = ucast (data ! i) OR push_bit 8 (ucast (data ! (i + 1)))
     OR push_bit 16 (ucast (data ! (i + 2))) OR push_bit 24 (ucast (data ! (i + 3)))"

text \<open>\<open>data\<close> has \<open>len\<close> bytes; the packet is what the caller passed, overwritten as far as parsing got.\<close>

definition usmp_parse_packet :: "bytes \<Rightarrow> usmp_packet \<Rightarrow> int \<times> usmp_packet" where
  "usmp_parse_packet data pkt =
     (if length data < 12 then (-1, pkt)
      else
        let pkt = pkt\<lparr>pkt_magic := get16 data 0, pkt_version := data ! 2, pkt_type := data ! 3,
              pkt_seq := get32 data 4, pkt_length := get16 data 8, pkt_crc := get16 data 10\<rparr>
        in
          if pkt_magic pkt \<noteq> 0xABCD then (-1, pkt)
          else if pkt_version pkt \<noteq> 0x02 then (-1, pkt)
          else if pkt_length pkt > 480 then (-1, pkt)
          else if length data < 12 + unat (pkt_length pkt) then (-1, pkt)
          else
            let n = unat (pkt_length pkt);
                pkt = pkt\<lparr>pkt_payload := take n (drop 12 data) @ drop n (pkt_payload pkt)\<rparr>;
                expected = compute_crc pkt
            in if pkt_crc pkt \<noteq> expected then (-1, pkt) else (0, pkt))"

section \<open>The same bytes\<close>

lemma usmp_crc_bit_eq: "usmp_crc_bit = crc_bit_w"
proof
  fix w :: "16 word"
  have "w AND 1 \<noteq> 0 \<longleftrightarrow> bit w 0"
    by (simp add: and_one_eq bit_0 flip: odd_iff_mod_2_eq_one)
  then show "usmp_crc_bit w = crc_bit_w w"
    by (simp add: usmp_crc_bit_def crc_bit_w_def)
qed

lemma usmp_crc16_step_eq: "usmp_crc16_step crc data = foldl crc_byte_w crc data"
proof -
  have "(\<lambda>crc b. (crc_bit_w ^^ 8) (crc XOR ucast b)) = crc_byte_w"
    by (intro ext) (simp add: crc_byte_w_def)
  then show ?thesis by (simp add: usmp_crc16_step_def usmp_crc_bit_eq)
qed

lemma core_crc: "uint (usmp_crc16 data) = crc16 data"
  by (simp add: usmp_crc16_def usmp_crc16_step_eq crc16_uint crc16_w_def)

text \<open>The bytes of a word, one at a time.\<close>

lemma word_byte: "(ucast (drop_bit n w) :: byte) = word_of_int (uint w div 2 ^ n)" for w :: "'a::len word"
  by (rule bit_word_eqI) (auto simp: bit_simps simp flip: drop_bit_eq_div dest: bit_imp_le_length)

lemma word_byte_0: "(ucast w :: byte) = word_of_int (uint w)" for w :: "'a::len word"
  using word_byte [of 0 w] by simp

lemma byte_mask: "(ucast (w AND 0xFF) :: byte) = ucast w" for w :: "'a::len word"
proof -
  have ff: "(0xFF :: 'a word) = mask 8" by (simp add: mask_eq_exp_minus_1)
  show ?thesis unfolding ff by (rule bit_word_eqI) (auto simp: bit_simps dest: bit_imp_le_length)
qed

lemma le_bytes_2: "le_bytes 2 v = [word_of_int v, word_of_int (v div 256)]"
  by (simp add: numeral_2_eq_2)

lemma le_bytes_4:
  "le_bytes 4 v = [word_of_int v, word_of_int (v div 256), word_of_int (v div 65536), word_of_int (v div 16777216)]"
proof -
  have "v div 256 div 256 = v div 65536" "v div 65536 div 256 = v div 16777216"
    by (simp_all flip: zdiv_zmult2_eq)
  then show ?thesis by (simp add: eval_nat_numeral)
qed

lemma le_bytes_uint:
  "le_bytes 2 (uint w) = [ucast w, ucast (drop_bit 8 w)]"
  "le_bytes 4 (uint v) = [ucast v, ucast (drop_bit 8 v), ucast (drop_bit 16 v), ucast (drop_bit 24 v)]"
  for w :: "16 word" and v :: "32 word"
  by (simp_all add: le_bytes_2 le_bytes_4 word_byte)

lemma core_header:
  "usmp_serialize_header magic version type seq len
   = le_bytes 2 (uint magic) @ [version, type] @ le_bytes 4 (uint seq) @ le_bytes 2 (uint len)"
  by (simp add: usmp_serialize_header_def byte_mask le_bytes_uint)

text \<open>Reading a word back.\<close>

lemma get_bytes:
  "(ucast (get16 data i) :: byte) = data ! i" "(ucast (drop_bit 8 (get16 data i)) :: byte) = data ! (i + 1)"
  "(ucast (get32 data i) :: byte) = data ! i" "(ucast (drop_bit 8 (get32 data i)) :: byte) = data ! (i + 1)"
  "(ucast (drop_bit 16 (get32 data i)) :: byte) = data ! (i + 2)"
  "(ucast (drop_bit 24 (get32 data i)) :: byte) = data ! (i + 3)"
  by (rule bit_word_eqI, auto simp: get16_def get32_def bit_simps dest: bit_imp_le_length)+

lemma slice_nths:
  "j = i + 2 \<Longrightarrow> j \<le> length data \<Longrightarrow> slice i j data = [data ! i, data ! (i + 1)]"
  "j = i + 4 \<Longrightarrow> j \<le> length data \<Longrightarrow> slice i j data = [data ! i, data ! (i + 1), data ! (i + 2), data ! (i + 3)]"
  by (rule nth_equalityI; auto simp: slice_def less_Suc_eq eval_nat_numeral)+

lemma get16_at: "i + 2 \<le> length data \<Longrightarrow> uint (get16 data i) = u16_at data i"
proof -
  assume "i + 2 \<le> length data"
  then have "u16_at data i = le_int (le_bytes 2 (uint (get16 data i)))"
    by (simp only: u16_at_def slice_nths [OF refl] le_bytes_uint get_bytes)
  with uint_lt2p [of "get16 data i"] show ?thesis by (simp add: le_int_le_bytes)
qed

lemma get32_at: "i + 4 \<le> length data \<Longrightarrow> uint (get32 data i) = u32_at data i"
proof -
  assume "i + 4 \<le> length data"
  then have "u32_at data i = le_int (le_bytes 4 (uint (get32 data i)))"
    by (simp only: u32_at_def slice_nths [OF refl] le_bytes_uint get_bytes)
  with uint_lt2p [of "get32 data i"] show ?thesis by (simp add: le_int_le_bytes)
qed

lemma header_of_bytes:
  assumes "12 \<le> length data"
  shows "usmp_serialize_header (get16 data 0) (data ! 2) (data ! 3) (get32 data 4) (get16 data 8) = take 10 data"
proof -
  have "take 10 data = slice 0 2 data @ slice 2 4 data @ slice 4 8 data @ slice 8 10 data"
    using slice_adjacent [of 4 8 10 data] slice_adjacent [of 2 4 10 data] slice_adjacent [of 0 2 10 data]
    by (simp add: slice_0)
  also have "\<dots> = [data ! 0, data ! 1] @ [data ! 2, data ! 3]
      @ [data ! 4, data ! 5, data ! 6, data ! 7] @ [data ! 8, data ! 9]"
    using assms slice_nths(1) [of 2 0 data] slice_nths(1) [of 4 2 data] slice_nths(2) [of 8 4 data] slice_nths(1) [of 10 8 data]
    by simp
  finally show ?thesis
    using get_bytes(1,2) [of data 0] get_bytes(3-6) [of data 4] get_bytes(1,2) [of data 8]
    by (simp add: usmp_serialize_header_def byte_mask)
qed

definition frame_of_packet :: "usmp_packet \<Rightarrow> packet_type \<Rightarrow> usmp_frame" where
  "frame_of_packet p t =
     \<lparr>fr_magic = uint (pkt_magic p), fr_version = uint (pkt_version p), fr_type = t, fr_seq = uint (pkt_seq p),
      fr_length = uint (pkt_length p), fr_crc = uint (pkt_crc p),
      fr_payload = take (unat (pkt_length p)) (pkt_payload p)\<rparr>"

lemma core_parse_decode:
  "case usmp_parse_packet data pkt of (rc, p) \<Rightarrow>
     if rc = 0 then
       decode_frame True data =
         (case PacketType_of (uint (pkt_type p)) of
            Inl e \<Rightarrow> Inl FrameError
          | Inr t \<Rightarrow> Inr (frame_of_packet p t))
     else rc = -1 \<and> (\<exists>e. decode_frame True data = Inl e \<and> is_FrameError e)"
proof (cases "12 \<le> length data")
  case False
  then show ?thesis by (simp add: usmp_parse_packet_def decode_frame_def is_FrameError_def)
next
  case True
  have fields: "uint (get16 data 0) = u16_at data 0" "uint (data ! 2) = u8_at data 2" "uint (data ! 3) = u8_at data 3"
    "uint (get32 data 4) = u32_at data 4" "uint (get16 data 8) = u16_at data 8" "uint (get16 data 10) = u16_at data 10"
    using True by (simp_all add: get16_at get32_at u8_at_def)
  have checks: "get16 data 0 = 0xABCD \<longleftrightarrow> u16_at data 0 = USMP_MAGIC" "data ! 2 = 0x02 \<longleftrightarrow> u8_at data 2 = USMP_VERSION"
    "get16 data 8 > 480 \<longleftrightarrow> u16_at data 8 > 480"
    by (simp_all add: word_uint_eq_iff word_less_def fields)
  have len: "unat (get16 data 8) = nat (u16_at data 8)" by (simp add: unat_eq_nat_uint fields)
  let ?n = "nat (u16_at data 8)"
  have short: "length data < 12 + ?n \<longleftrightarrow> int (length data) < 12 + u16_at data 8"
    using u16_at_bounds(1) [of data 8] by linarith
  have crc: "get16 data 10 = foldl crc_byte_w 0xFFFF (take 10 data @ take ?n (drop 12 data))
      \<longleftrightarrow> u16_at data 10 = crc16 (take 10 data @ slice 12 (12 + ?n) data)"
    by (simp add: word_uint_eq_iff fields crc16_uint crc16_w_def slice_def)
  let ?pkt = "pkt\<lparr>pkt_magic := get16 data 0, pkt_version := data ! 2, pkt_type := data ! 3,
      pkt_seq := get32 data 4, pkt_length := get16 data 8, pkt_crc := get16 data 10\<rparr>"
  let ?p = "?pkt\<lparr>pkt_payload := take ?n (drop 12 data) @ drop ?n (pkt_payload pkt)\<rparr>"
  have parse: "usmp_parse_packet data pkt =
     (if u16_at data 0 \<noteq> USMP_MAGIC \<or> u8_at data 2 \<noteq> USMP_VERSION \<or> u16_at data 8 > 480
         \<or> length data < 12 + ?n then (-1, ?pkt)
      else if u16_at data 10 \<noteq> crc16 (take 10 data @ slice 12 (12 + ?n) data) then (-1, ?p) else (0, ?p))"
  proof (cases "length data < 12 + ?n")
    case False
    then have "?n \<le> length data - 12" by simp
    with False True show ?thesis
      by (simp add: usmp_parse_packet_def Let_def checks len compute_crc_def usmp_crc16_step_eq
          header_of_bytes min_absorb2 flip: crc)
  qed (use True in \<open>simp add: usmp_parse_packet_def Let_def checks len\<close>)
  show ?thesis
  proof (cases "u16_at data 0 \<noteq> USMP_MAGIC \<or> u8_at data 2 \<noteq> USMP_VERSION \<or> u16_at data 8 > 480
         \<or> length data < 12 + ?n")
    case bad: True
    have "\<exists>e. decode_frame True data = Inl e \<and> is_FrameError e"
      using bad True short by (auto simp: decode_frame_def Let_def is_FrameError_def)
    with bad show ?thesis by (simp add: parse)
  next
    case good: False
    let ?crc = "crc16 (take 10 data @ slice 12 (12 + ?n) data)"
    have decode: "decode_frame True data =
       (if u16_at data 10 \<noteq> ?crc then Inl CRCError
        else case PacketType_of (u8_at data 3) of
               Inl e \<Rightarrow> Inl FrameError
             | Inr t \<Rightarrow> Inr (frame_of_packet ?p t))"
      using good True short
      by (simp only: decode_frame_def Let_def frame_crc_of_fields [OF True] bindE_simps)
        (auto simp: frame_of_packet_def fields len slice_def split: sum.split)
    show ?thesis
      using good by (simp add: parse decode fields is_FrameError_def)
  qed
qed

text \<open>
  C30: the C core parses what the SDK parses: on every datagram \<open>usmp_parse_packet\<close> succeeds just when
  \<open>decode_frame\<close> does, with the same fields and payload, except that it leaves the check of
  the type to its callers; where it fails, \<open>decode_frame\<close> raises a \<open>FrameError\<close>.
\<close>

theorem core_parses_as_sdk:
  "case usmp_parse_packet data pkt of (rc, p) \<Rightarrow>
     if rc = 0 then
       decode_frame True data =
         (case PacketType_of (uint (pkt_type p)) of
            Inl e \<Rightarrow> Inl FrameError
          | Inr t \<Rightarrow> Inr (frame_of_packet p t))
     else rc = -1 \<and> (\<exists>e. decode_frame True data = Inl e \<and> is_FrameError e)"
  by (rule core_parse_decode)

text \<open>What the SDK sends, the core builds.\<close>

lemma type_byte: "uint (word_of_int (packet_type_code t) :: byte) = packet_type_code t"
  using packet_type_code_bounds [of t] by (simp add: byte_roundtrip)

lemma core_frame_bytes:
  assumes "pkt_magic pkt = 0xABCD" and "pkt_version pkt = 2"
    and "pkt_type pkt = word_of_int (packet_type_code t)"
    and "unat (pkt_length pkt) \<le> length (pkt_payload pkt)"
  shows "snd (usmp_build_packet pkt)
    = frame_bytes t (take (unat (pkt_length pkt)) (pkt_payload pkt)) (uint (pkt_seq pkt))"
proof -
  let ?n = "unat (pkt_length pkt)" and ?s = "uint (pkt_seq pkt)"
  let ?p = "take ?n (pkt_payload pkt)"
  have len: "int (length ?p) = uint (pkt_length pkt)" using assms(4) by simp
  have header: "usmp_serialize_header (pkt_magic pkt) (pkt_version pkt) (pkt_type pkt) (pkt_seq pkt) (pkt_length pkt)
      = frame_body t ?p ?s"
    unfolding frame_body_def len core_header assms(1-3) by (simp add: le_bytes_2)
  have crc: "uint (compute_crc pkt) = crc16 (frame_body t ?p ?s @ ?p)"
    by (simp add: compute_crc_def header usmp_crc16_step_eq crc16_uint crc16_w_def)
  have "[ucast (compute_crc pkt AND 0xFF), ucast (drop_bit 8 (compute_crc pkt) AND 0xFF)]
      = le_bytes 2 (crc16 (frame_body t ?p ?s @ ?p))"
    unfolding crc [symmetric] by (simp add: byte_mask le_bytes_uint)
  then show ?thesis by (simp add: usmp_build_packet_def Let_def header frame_bytes_def)
qed

text \<open>
  The C core builds what the SDK encodes: a packet with the protocol's magic and version, a type of
  the SDK and a payload of at most 480 bytes becomes, byte for byte, the result of
  \<open>encode_frame\<close> on its type, its payload and its sequence number.
\<close>

theorem core_builds_as_sdk:
  assumes "pkt_magic pkt = 0xABCD" and "pkt_version pkt = 2"
    and "pkt_type pkt = word_of_int (packet_type_code t)"
    and "unat (pkt_length pkt) \<le> 480" and "unat (pkt_length pkt) \<le> length (pkt_payload pkt)"
  shows "encode_frame t (take (unat (pkt_length pkt)) (pkt_payload pkt)) (uint (pkt_seq pkt))
    = Inr (snd (usmp_build_packet pkt))"
proof -
  have "sendable (take (unat (pkt_length pkt)) (pkt_payload pkt)) (uint (pkt_seq pkt))"
    using assms(4) uint_lt2p [of "pkt_seq pkt"] by (simp add: sendable_def)
  then show ?thesis
    using core_frame_bytes [OF assms(1-3,5)] by (simp add: encode_frame_sendable)
qed

theorem core_builds_as_sdk_witness:
  "encode_frame DATA [1, 2, 3] 7 = Inr (snd (usmp_build_packet
     \<lparr>pkt_magic = 0xABCD, pkt_version = 2, pkt_type = 5, pkt_seq = 7, pkt_length = 3, pkt_crc = 0,
      pkt_payload = [1, 2, 3, 0, 0]\<rparr>))"
  using core_builds_as_sdk [of "\<lparr>pkt_magic = 0xABCD, pkt_version = 2, pkt_type = 5, pkt_seq = 7, pkt_length = 3,
      pkt_crc = 0, pkt_payload = [1, 2, 3, 0, 0]\<rparr>" DATA] by simp

end
