(* ===== verification/CoreSession.thy ===== *)
theory CoreSession
  imports CoreFrame Delivery
begin

text \<open>
  \<open>usmp_crypto.c\<close> and \<open>usmp_session.c\<close> of the C core: sealing and opening of payloads, and a
  session of a device over any transport.  The state is the struct \<open>usmp_t\<close>, on the integer
  widths it declares.  A C function that returns an error code is a coroutine that raises
  this code; \<open>Blocked\<close> is a call of the transport that never returns.
\<close>

section \<open>What the core calls\<close>

text \<open>
  The function pointers of \<open>usmp_transport_t\<close>, which are optional where the code tests
  them, and the hooks of \<open>usmp_port.h\<close>, on a state \<open>'t\<close> of the transport and the device.
  \<open>recv\<close> returns the bytes that it wrote into the buffer.
\<close>

record 't platform =
  t_send :: "bytes \<Rightarrow> ('t, int, unit) io"
  t_recv :: "nat \<Rightarrow> ('t, int, bytes) io"
  t_close :: "('t \<Rightarrow> 't) option"
  t_reconnect :: "('t, int, unit) io option"
  t_available :: "('t \<Rightarrow> int \<times> 't) option"
  t_confirm_authenticated :: "(32 word \<Rightarrow> 't \<Rightarrow> 't) option"
  t_set_session_keys :: "(bytes \<Rightarrow> bytes \<Rightarrow> 't \<Rightarrow> 't) option"
  p_millis :: "'t \<Rightarrow> 32 word \<times> 't"
  p_random :: "nat \<Rightarrow> ('t, int, bytes) io"
  p_device_id :: "('t, int, bytes) io"
  p_malloc :: bool
    \<comment> \<open>whether the buffers of the handshake can be allocated\<close>
  p_private_key :: "bytes \<Rightarrow> ('t, int, bytes) io"
    \<comment> \<open>mbedTLS's generator, seeded over \<open>usmp_port_random\<close> with a personalisation string, draws a key\<close>

text \<open>
  mbedTLS, a third-party library: every call may fail.  \<open>chachapoly\<close> is the build option
  \<open>MBEDTLS_CHACHAPOLY_C\<close>.
\<close>

record mbedtls =
  gcm_setkey :: "bytes \<Rightarrow> bool"
  gcm_crypt_and_tag :: "bytes \<Rightarrow> bytes \<Rightarrow> bytes \<Rightarrow> bytes \<Rightarrow> (bytes \<times> bytes) option"
    \<comment> \<open>key, nonce, associated data, input\<close>
  gcm_auth_decrypt :: "bytes \<Rightarrow> bytes \<Rightarrow> bytes \<Rightarrow> bytes \<Rightarrow> bytes \<Rightarrow> bytes option"
    \<comment> \<open>key, nonce, associated data, tag, input\<close>
  chachapoly :: bool
  chachapoly_setkey :: "bytes \<Rightarrow> bool"
  chachapoly_encrypt_and_tag :: "bytes \<Rightarrow> bytes \<Rightarrow> bytes \<Rightarrow> bytes \<Rightarrow> (bytes \<times> bytes) option"
  chachapoly_auth_decrypt :: "bytes \<Rightarrow> bytes \<Rightarrow> bytes \<Rightarrow> bytes \<Rightarrow> bytes \<Rightarrow> bytes option"
  mbedtls_hkdf :: "bytes \<Rightarrow> bytes \<Rightarrow> bytes \<Rightarrow> nat \<Rightarrow> bytes option"
    \<comment> \<open>HKDF-SHA256: salt, input key material, info, length\<close>
  md_hmac :: "bytes \<Rightarrow> bytes \<Rightarrow> bytes option"
    \<comment> \<open>HMAC-SHA256: key, message\<close>
  ecdh_setup :: bool
  ecdh_make_public :: "bytes \<Rightarrow> bytes option"
    \<comment> \<open>the public key of a private one in TLS format, the length before it\<close>
  ecdh_read_public :: "bytes \<Rightarrow> bytes option"
    \<comment> \<open>the key of the peer from this format\<close>
  ecdh_calc_secret :: "bytes \<Rightarrow> bytes \<Rightarrow> bytes option"

section \<open>Authenticated encryption\<close>

definition usmp_gcm_encrypt :: "mbedtls \<Rightarrow> bytes \<Rightarrow> bytes \<Rightarrow> bytes \<Rightarrow> bytes \<Rightarrow> bytes option" where
  "usmp_gcm_encrypt M key nonce aad plaintext =
     (if \<not> gcm_setkey M key then None
      else map_option (\<lambda>(ct, tag). nonce @ ct @ tag) (gcm_crypt_and_tag M key nonce aad plaintext))"

definition usmp_gcm_decrypt :: "mbedtls \<Rightarrow> bytes \<Rightarrow> bytes \<Rightarrow> bytes \<Rightarrow> bytes \<Rightarrow> bytes option" where
  "usmp_gcm_decrypt M key nonce aad nonce_ct_tag =
     (if length nonce_ct_tag < 28 then None
      else if take 12 nonce_ct_tag \<noteq> nonce then None
      else
        let cipher_len = length nonce_ct_tag - 12 - 16;
            ciphertext = take cipher_len (drop 12 nonce_ct_tag);
            tag = drop (12 + cipher_len) nonce_ct_tag
        in if \<not> gcm_setkey M key then None
           else gcm_auth_decrypt M key (take 12 nonce_ct_tag) aad tag ciphertext)"

definition usmp_chacha20_poly1305_encrypt ::
  "mbedtls \<Rightarrow> bytes \<Rightarrow> bytes \<Rightarrow> bytes \<Rightarrow> bytes \<Rightarrow> bytes option" where
  "usmp_chacha20_poly1305_encrypt M key nonce aad plaintext =
     (if \<not> chachapoly M then None
      else if \<not> chachapoly_setkey M key then None
      else map_option (\<lambda>(ct, tag). nonce @ ct @ tag) (chachapoly_encrypt_and_tag M key nonce aad plaintext))"

definition usmp_chacha20_poly1305_decrypt ::
  "mbedtls \<Rightarrow> bytes \<Rightarrow> bytes \<Rightarrow> bytes \<Rightarrow> bytes \<Rightarrow> bytes option" where
  "usmp_chacha20_poly1305_decrypt M key nonce aad nonce_ct_tag =
     (if \<not> chachapoly M then None
      else if length nonce_ct_tag < 28 then None
      else if take 12 nonce_ct_tag \<noteq> nonce then None
      else
        let cipher_len = length nonce_ct_tag - 12 - 16;
            ciphertext = take cipher_len (drop 12 nonce_ct_tag);
            tag = drop (12 + cipher_len) nonce_ct_tag
        in if \<not> chachapoly_setkey M key then None
           else chachapoly_auth_decrypt M key nonce aad tag ciphertext)"

definition usmp_crypto_encrypt ::
  "mbedtls \<Rightarrow> 8 word \<Rightarrow> bytes \<Rightarrow> bytes \<Rightarrow> bytes \<Rightarrow> bytes \<Rightarrow> bytes option" where
  "usmp_crypto_encrypt M suite key nonce aad plaintext =
     (if suite = 2 then usmp_chacha20_poly1305_encrypt M key nonce aad plaintext
      else usmp_gcm_encrypt M key nonce aad plaintext)"

definition usmp_crypto_decrypt ::
  "mbedtls \<Rightarrow> 8 word \<Rightarrow> bytes \<Rightarrow> bytes \<Rightarrow> bytes \<Rightarrow> bytes \<Rightarrow> bytes option" where
  "usmp_crypto_decrypt M suite key nonce aad nonce_ct_tag =
     (if suite = 2 then usmp_chacha20_poly1305_decrypt M key nonce aad nonce_ct_tag
      else usmp_gcm_decrypt M key nonce aad nonce_ct_tag)"

text \<open>The two new keys, to send and to receive; \<open>None\<close> when \<open>mbedtls_hkdf\<close> fails.\<close>

definition core_rekey_keys ::
  "mbedtls \<Rightarrow> bool \<Rightarrow> bytes \<Rightarrow> bytes \<Rightarrow> bytes \<Rightarrow> bytes \<Rightarrow> (bytes \<times> bytes) option" where
  "core_rekey_keys M is_initiator tx rx sid salt =
     (let secret = (if is_initiator then tx @ rx else rx @ tx);
          info = ascii ''usmp-rekey'' @ sid
      in map_option (\<lambda>key_material.
           if is_initiator then (take 32 key_material, drop 32 key_material)
           else (drop 32 key_material, take 32 key_material))
         (mbedtls_hkdf M salt secret info 64))"

definition core_aad :: "16 word \<Rightarrow> 8 word \<Rightarrow> 8 word \<Rightarrow> 32 word \<Rightarrow> 16 word \<Rightarrow> bytes" where
  "core_aad magic version type seq len = usmp_serialize_header magic version type seq len"

definition build_nonce :: "32 word \<Rightarrow> bytes \<Rightarrow> bytes" where
  "build_nonce seq sid =
     [ucast (seq AND 0xFF), ucast (drop_bit 8 seq AND 0xFF), ucast (drop_bit 16 seq AND 0xFF),
      ucast (drop_bit 24 seq AND 0xFF)] @ take 8 sid"

section \<open>The session context\<close>

record 't usmp_ctx =
  c_dev_id :: bytes
  c_session_id :: bytes
  c_tx_key :: bytes
  c_rx_key :: bytes
  c_established :: bool
  c_transport :: 't
  c_tx_seq :: "32 word"
  c_rx_seq :: "32 word"
  c_keepalive_ms :: "32 word"
  c_last_tx_ms :: "32 word"
  c_rx_window_bitmap :: "64 word"
  c_cipher_suite :: "8 word"
  c_device_psk :: "bytes option"

definition USMP_ERR_INVALID_ARG :: int where "USMP_ERR_INVALID_ARG = -1"
definition USMP_ERR_TRANSPORT_FAILED :: int where "USMP_ERR_TRANSPORT_FAILED = -2"
definition USMP_ERR_AUTH_FAILED :: int where "USMP_ERR_AUTH_FAILED = -3"
definition USMP_ERR_BUFFER_OVERFLOW :: int where "USMP_ERR_BUFFER_OVERFLOW = -6"
definition USMP_ERR_SEQ_EXHAUSTED :: int where "USMP_ERR_SEQ_EXHAUSTED = -7"
definition USMP_ERR_CRYPTO_FAILED :: int where "USMP_ERR_CRYPTO_FAILED = -8"
definition USMP_ERR_NOT_CONNECTED :: int where "USMP_ERR_NOT_CONNECTED = -9"

definition on_device :: "('t, int, 'a) io \<Rightarrow> ('t usmp_ctx, int, 'a) io" where
  "on_device m ctx = (case m (c_transport ctx) of (out, t) \<Rightarrow> (out, ctx\<lparr>c_transport := t\<rparr>))"

definition disconnect :: "'t usmp_ctx \<Rightarrow> 't usmp_ctx" where
  "disconnect ctx = ctx\<lparr>c_established := False\<rparr>"

definition fail_closed :: "int \<Rightarrow> ('t usmp_ctx, int, 'a) io" where
  "fail_closed rc = bind_io (modify disconnect) (\<lambda>_. throw rc)"

definition usmp_port_millis :: "'t platform \<Rightarrow> ('t usmp_ctx, int, 32 word) io" where
  "usmp_port_millis P = on_device (\<lambda>t. case p_millis P t of (now, t') \<Rightarrow> (Ret now, t'))"

abbreviation USMP_TYPE_DATA :: "8 word" where "USMP_TYPE_DATA \<equiv> 0x05"
abbreviation USMP_TYPE_PING :: "8 word" where "USMP_TYPE_PING \<equiv> 0x06"
abbreviation USMP_TYPE_PONG :: "8 word" where "USMP_TYPE_PONG \<equiv> 0x07"
abbreviation USMP_TYPE_BYE :: "8 word" where "USMP_TYPE_BYE \<equiv> 0x08"
abbreviation USMP_TYPE_DATA_FRAG :: "8 word" where "USMP_TYPE_DATA_FRAG \<equiv> 0x09"
abbreviation USMP_TYPE_REKEY :: "8 word" where "USMP_TYPE_REKEY \<equiv> 0x0B"

text \<open>The buffer of \<open>n\<close> bytes that the hook was to fill.\<close>

definition usmp_port_random :: "'t platform \<Rightarrow> nat \<Rightarrow> ('t usmp_ctx, int, bytes) io" where
  "usmp_port_random P n =
     bind_io (on_device (p_random P n)) (\<lambda>bs. ret (take n (bs @ replicate n 0)))"

section \<open>Sending\<close>

text \<open>The packet on the stack of \<open>emit_frame\<close>, with its payload of 480 bytes zeroed before it is filled.\<close>

definition sealed_packet ::
  "mbedtls \<Rightarrow> 8 word \<Rightarrow> bytes \<Rightarrow> 't usmp_ctx \<Rightarrow> usmp_packet option" where
  "sealed_packet M type data ctx =
     (let seq = c_tx_seq ctx;
          enc_length = 12 + word_of_nat (length data) + 16;
          aad = core_aad 0xABCD 2 type seq enc_length;
          nonce = build_nonce seq (c_session_id ctx)
      in map_option (\<lambda>enc.
           \<lparr>pkt_magic = 0xABCD, pkt_version = 2, pkt_type = type, pkt_seq = seq,
            pkt_length = word_of_nat (length enc), pkt_crc = 0,
            pkt_payload = enc @ replicate (480 - length enc) 0\<rparr>)
         (usmp_crypto_encrypt M (c_cipher_suite ctx) (c_tx_key ctx) nonce aad data))"

definition emit_frame :: "'t platform \<Rightarrow> mbedtls \<Rightarrow> 8 word \<Rightarrow> bytes \<Rightarrow> ('t usmp_ctx, int, unit) io" where
  "emit_frame P M type data ctx =
     (if c_tx_seq ctx \<ge> 0xFFFFFFFF then fail_closed (-1)
      else case sealed_packet M type data ctx of
        None \<Rightarrow> throw (-2)
      | Some pkt \<Rightarrow>
          let tx_buf = snd (usmp_build_packet pkt) in
          bind_io (modify (c_tx_seq_update (\<lambda>n. n + 1))) (\<lambda>_.
          bind_io (usmp_port_millis P) (\<lambda>now.
          bind_io (modify (c_last_tx_ms_update (\<lambda>_. now))) (\<lambda>_.
          catch_io (on_device (t_send P tx_buf)) (\<lambda>_. fail_closed (-1)))))) ctx"

definition send_control :: "'t platform \<Rightarrow> mbedtls \<Rightarrow> 8 word \<Rightarrow> ('t usmp_ctx, int, unit) io" where
  "send_control P M type = emit_frame P M type []"

definition if_connected :: "int \<Rightarrow> ('t usmp_ctx, int, 'a) io \<Rightarrow> ('t usmp_ctx, int, 'a) io" where
  "if_connected rc m ctx = (if c_established ctx then m ctx else (Raise rc, ctx))"

text \<open>An error code of a function called, replaced by the caller's own.\<close>

definition with_code :: "int \<Rightarrow> ('t usmp_ctx, int, 'a) io \<Rightarrow> ('t usmp_ctx, int, 'a) io" where
  "with_code rc m = catch_io m (\<lambda>_. throw rc)"

definition usmp_send_bye :: "'t platform \<Rightarrow> mbedtls \<Rightarrow> ('t usmp_ctx, int, unit) io" where
  "usmp_send_bye P M =
     if_connected USMP_ERR_NOT_CONNECTED (with_code USMP_ERR_TRANSPORT_FAILED (send_control P M USMP_TYPE_BYE))"

function usmp_send_loop :: "'t platform \<Rightarrow> mbedtls \<Rightarrow> bytes \<Rightarrow> nat \<Rightarrow> ('t usmp_ctx, int, unit) io" where
  "usmp_send_loop P M data offset =
     (if offset < length data \<or> length data = 0 then
        let chunk = slice offset (offset + min (length data - offset) 452) data;
            type = (if offset + length chunk < length data then USMP_TYPE_DATA_FRAG else USMP_TYPE_DATA)
        in bind_io (catch_io (emit_frame P M type chunk)
               (\<lambda>rc. throw (if rc = -2 then USMP_ERR_CRYPTO_FAILED else USMP_ERR_TRANSPORT_FAILED))) (\<lambda>_.
           if length data = 0 then ret () else usmp_send_loop P M data (offset + length chunk))
      else ret ())"
  by pat_completeness auto
termination
  by (relation "measure (\<lambda>(P, M, data, offset). length data - offset)") (auto simp: length_slice)

declare usmp_send_loop.simps [simp del]

text \<open>\<open>len\<close> is an \<open>uint16_t\<close>: \<open>data\<close> has fewer than 65536 bytes.\<close>

definition usmp_send :: "'t platform \<Rightarrow> mbedtls \<Rightarrow> bytes \<Rightarrow> ('t usmp_ctx, int, unit) io" where
  "usmp_send P M data =
     if_connected USMP_ERR_NOT_CONNECTED (\<lambda>ctx.
       let num_fragments = (if length data = 0 then 1 else word_of_nat ((length data + 452 - 1) div 452)) in
       (if num_fragments > 0xFFFFFFFF - c_tx_seq ctx then fail_closed USMP_ERR_SEQ_EXHAUSTED
        else if length data > 452 * 4 then throw USMP_ERR_BUFFER_OVERFLOW
        else usmp_send_loop P M data 0) ctx)"

definition usmp_ping :: "'t platform \<Rightarrow> mbedtls \<Rightarrow> ('t usmp_ctx, int, unit) io" where
  "usmp_ping P M =
     if_connected USMP_ERR_NOT_CONNECTED
       (catch_io (send_control P M USMP_TYPE_PING) (\<lambda>_. fail_closed USMP_ERR_TRANSPORT_FAILED))"

definition usmp_keepalive_tick :: "'t platform \<Rightarrow> mbedtls \<Rightarrow> ('t usmp_ctx, int, unit) io" where
  "usmp_keepalive_tick P M =
     if_connected USMP_ERR_NOT_CONNECTED
       (bind_io (gets c_keepalive_ms) (\<lambda>keepalive.
        if keepalive = 0 then ret ()
        else
          bind_io (usmp_port_millis P) (\<lambda>now.
          bind_io (gets c_last_tx_ms) (\<lambda>last.
          if now - last \<ge> keepalive then usmp_ping P M else ret ()))))"

section \<open>Rekeying\<close>

text \<open>The new keys, fresh counters, and \<open>set_session_keys\<close> of the transport.\<close>

definition install_core_keys :: "'t platform \<Rightarrow> bytes \<Rightarrow> bytes \<Rightarrow> 't usmp_ctx \<Rightarrow> 't usmp_ctx" where
  "install_core_keys P tx rx ctx =
     (let ctx = ctx\<lparr>c_tx_key := tx, c_rx_key := rx, c_tx_seq := 0, c_rx_seq := 0, c_rx_window_bitmap := 0\<rparr>
      in case t_set_session_keys P of
           None \<Rightarrow> ctx
         | Some f \<Rightarrow> ctx\<lparr>c_transport := f tx rx (c_transport ctx)\<rparr>)"

definition core_rotate ::
  "'t platform \<Rightarrow> mbedtls \<Rightarrow> int \<Rightarrow> bool \<Rightarrow> bytes \<Rightarrow> ('t usmp_ctx, int, unit) io" where
  "core_rotate P M rc is_initiator salt ctx =
     (case core_rekey_keys M is_initiator (c_tx_key ctx) (c_rx_key ctx) (c_session_id ctx) salt of
        None \<Rightarrow> (Raise rc, ctx)
      | Some (new_tx, new_rx) \<Rightarrow> (Ret (), install_core_keys P new_tx new_rx ctx))"

definition usmp_rekey :: "'t platform \<Rightarrow> mbedtls \<Rightarrow> ('t usmp_ctx, int, unit) io" where
  "usmp_rekey P M =
     if_connected USMP_ERR_NOT_CONNECTED
       (bind_io (with_code USMP_ERR_CRYPTO_FAILED (usmp_port_random P 32)) (\<lambda>salt.
        bind_io (with_code USMP_ERR_TRANSPORT_FAILED (emit_frame P M USMP_TYPE_REKEY salt)) (\<lambda>_.
        core_rotate P M USMP_ERR_CRYPTO_FAILED True salt)))"

section \<open>The replay window\<close>

text \<open>\<open>rx_seq\<close>, the bitmap, and the sequence number of the packet.\<close>

definition core_replay_drop :: "32 word \<Rightarrow> 64 word \<Rightarrow> 32 word \<Rightarrow> bool" where
  "core_replay_drop rx bitmap seq \<longleftrightarrow>
     rx \<ge> 64 \<and> seq \<le> rx - 64
     \<or> seq \<le> rx \<and> bitmap AND push_bit (unat (rx - seq)) 1 \<noteq> 0"

definition core_window_update :: "32 word \<Rightarrow> 't usmp_ctx \<Rightarrow> 't usmp_ctx" where
  "core_window_update seq ctx =
     (if seq > c_rx_seq ctx then
        let shift = seq - c_rx_seq ctx in
        ctx\<lparr>c_rx_window_bitmap :=
              (if shift < 64 then push_bit (unat shift) (c_rx_window_bitmap ctx) OR 1 else 1),
            c_rx_seq := seq\<rparr>
      else
        let offset = c_rx_seq ctx - seq in
        ctx\<lparr>c_rx_window_bitmap := c_rx_window_bitmap ctx OR push_bit (unat offset) 1\<rparr>)"

section \<open>Receiving\<close>

text \<open>\<open>l_out\<close> holds the \<open>bytes_written\<close> first bytes of the caller's buffer.\<close>

record core_local =
  l_out :: bytes
  l_frames :: nat
  l_expected :: "32 word"
  l_ctrl :: nat

datatype core_flow = Again core_local | Finish bytes

definition is_udp :: "'t platform \<Rightarrow> bool" where
  "is_udp P \<longleftrightarrow> t_confirm_authenticated P \<noteq> None"

text \<open>What the loop does with a packet that it rejects: \<open>None\<close> is \<open>continue\<close>.\<close>

definition core_reject :: "'t platform \<Rightarrow> ('t usmp_ctx, int, 'a option) io" where
  "core_reject P = (if is_udp P then ret None else throw (-1))"

text \<open>Only what the parser writes into the packet is read later, so it starts as zeros.\<close>

definition blank_packet :: usmp_packet where
  "blank_packet =
     \<lparr>pkt_magic = 0, pkt_version = 0, pkt_type = 0, pkt_seq = 0, pkt_length = 0, pkt_crc = 0,
      pkt_payload = replicate 480 0\<rparr>"

definition core_read :: "'t platform \<Rightarrow> ('t usmp_ctx, int, usmp_packet option) io" where
  "core_read P =
     bind_io (catch_io (on_device (t_recv P 492)) (\<lambda>_. fail_closed (-1))) (\<lambda>rx_buf.
     case usmp_parse_packet rx_buf blank_packet of
       (rc, pkt) \<Rightarrow> if rc \<noteq> 0 then core_reject P else ret (Some pkt))"

text \<open>The window of UDP sessions: whether the packet is to be dropped.\<close>

definition core_replay_check :: "'t platform \<Rightarrow> usmp_packet \<Rightarrow> ('t usmp_ctx, int, bool) io" where
  "core_replay_check P pkt =
     (if \<not> is_udp P then ret False
      else if pkt_seq pkt \<ge> 0xFFFFFFFF then fail_closed (-1)
      else gets (\<lambda>ctx. core_replay_drop (c_rx_seq ctx) (c_rx_window_bitmap ctx) (pkt_seq pkt)))"

text \<open>
  The room for the plaintext: 32 bytes on the stack for control frames and salts, the rest
  of the caller's buffer for data.
\<close>

definition core_dec_max ::
  "'t platform \<Rightarrow> 16 word \<Rightarrow> core_local \<Rightarrow> 8 word \<Rightarrow> ('t usmp_ctx, int, nat option) io" where
  "core_dec_max P max_len l type =
     (if type \<in> {USMP_TYPE_PONG, USMP_TYPE_PING, USMP_TYPE_BYE} then
        (if length (l_out l) > 0 then core_reject P else ret (Some 32))
      else if type = USMP_TYPE_REKEY then
        (if length (l_out l) > 0 then core_reject P else ret (Some 32))
      else if type = USMP_TYPE_DATA \<or> type = USMP_TYPE_DATA_FRAG then
        (if unat max_len < length (l_out l) then throw (-1)
         else ret (Some (unat max_len - length (l_out l))))
      else core_reject P)"

definition core_open ::
  "'t platform \<Rightarrow> mbedtls \<Rightarrow> nat \<Rightarrow> usmp_packet \<Rightarrow> ('t usmp_ctx, int, bytes option) io" where
  "core_open P M dec_max pkt =
     (if pkt_length pkt < 28 then core_reject P
      else if unat (pkt_length pkt - 12 - 16) > dec_max then core_reject P
      else
        bind_io (gets (\<lambda>ctx.
          usmp_crypto_decrypt M (c_cipher_suite ctx) (c_rx_key ctx)
            (build_nonce (pkt_seq pkt) (c_session_id ctx))
            (core_aad (pkt_magic pkt) (pkt_version pkt) (pkt_type pkt) (pkt_seq pkt) (pkt_length pkt))
            (take (unat (pkt_length pkt)) (pkt_payload pkt)))) (\<lambda>r.
        case r of None \<Rightarrow> core_reject P | Some plaintext \<Rightarrow> ret (Some plaintext)))"

definition core_accept_seq :: "'t platform \<Rightarrow> 32 word \<Rightarrow> ('t usmp_ctx, int, unit) io" where
  "core_accept_seq P seq =
     (case t_confirm_authenticated P of
        Some confirm \<Rightarrow>
          bind_io (modify (core_window_update seq)) (\<lambda>_.
          modify (c_transport_update (confirm seq)))
      | None \<Rightarrow>
          bind_io (gets c_rx_seq) (\<lambda>expected.
          if expected \<ge> 0xFFFFFFFF then fail_closed (-1)
          else if seq \<noteq> expected then throw (-1)
          else modify (c_rx_seq_update (\<lambda>n. n + 1))))"

text \<open>What follows a control frame: the limit of eight, and whether more has arrived.\<close>

definition core_next :: "'t platform \<Rightarrow> core_local \<Rightarrow> ('t usmp_ctx, int, core_flow) io" where
  "core_next P l =
     (let l = l\<lparr>l_ctrl := l_ctrl l + 1\<rparr> in
      if l_ctrl l > 8 then throw (-1)
      else case t_available P of
             None \<Rightarrow> ret (Again l)
           | Some available \<Rightarrow>
               bind_io (on_device (\<lambda>t. case available t of (n, t') \<Rightarrow> (Ret n, t'))) (\<lambda>n.
               if n \<le> 0 then ret (Finish []) else ret (Again l)))"

definition core_data ::
  "usmp_packet \<Rightarrow> bytes \<Rightarrow> core_local \<Rightarrow> ('t usmp_ctx, int, core_flow) io" where
  "core_data pkt plaintext l =
     (if l_frames l > 0 \<and> pkt_seq pkt \<noteq> l_expected l then throw (-1)
      else
        let l = l\<lparr>l_expected := (if l_frames l > 0 then l_expected l + 1 else pkt_seq pkt + 1),
                  l_out := l_out l @ plaintext, l_frames := l_frames l + 1\<rparr>
        in if pkt_type pkt = USMP_TYPE_DATA then ret (Finish (l_out l))
           else if l_frames l \<ge> 4 then throw (-1)
           else ret (Again l))"

definition core_dispatch ::
  "'t platform \<Rightarrow> mbedtls \<Rightarrow> usmp_packet \<Rightarrow> bytes \<Rightarrow> core_local \<Rightarrow> ('t usmp_ctx, int, core_flow) io" where
  "core_dispatch P M pkt plaintext l =
     (if pkt_type pkt = USMP_TYPE_PONG then core_next P l
      else if pkt_type pkt = USMP_TYPE_PING then
        bind_io (catch_io (send_control P M USMP_TYPE_PONG) (\<lambda>_. fail_closed (-1))) (\<lambda>_. core_next P l)
      else if pkt_type pkt = USMP_TYPE_BYE then fail_closed (-1)
      else if pkt_type pkt = USMP_TYPE_REKEY then
        (if length plaintext \<noteq> 32 then throw (-1)
         else bind_io (core_rotate P M (-1) False plaintext) (\<lambda>_. core_next P l))
      else core_data pkt plaintext l)"

text \<open>One round of the loop; \<open>unless_dropped\<close> is a \<open>continue\<close> before anything has changed.\<close>

definition unless_dropped ::
  "('t usmp_ctx, int, 'a option) io \<Rightarrow> core_local \<Rightarrow> ('a \<Rightarrow> ('t usmp_ctx, int, core_flow) io) \<Rightarrow>
   ('t usmp_ctx, int, core_flow) io" where
  "unless_dropped m l f =
     bind_io m (\<lambda>r. case r of None \<Rightarrow> ret (Again l) | Some x \<Rightarrow> f x)"

definition core_recv_step ::
  "'t platform \<Rightarrow> mbedtls \<Rightarrow> 16 word \<Rightarrow> core_local \<Rightarrow> ('t usmp_ctx, int, core_flow) io" where
  "core_recv_step P M max_len l =
     unless_dropped (core_read P) l (\<lambda>pkt.
     bind_io (core_replay_check P pkt) (\<lambda>dropped.
     if dropped then ret (Again l)
     else
       unless_dropped (core_dec_max P max_len l (pkt_type pkt)) l (\<lambda>dec_max.
       unless_dropped (core_open P M dec_max pkt) l (\<lambda>plaintext.
       bind_io (core_accept_seq P (pkt_seq pkt)) (\<lambda>_.
       core_dispatch P M pkt plaintext l)))))"

text \<open>The loop with the attempts that are left, ten at first.\<close>

fun core_recv_loop ::
  "'t platform \<Rightarrow> mbedtls \<Rightarrow> 16 word \<Rightarrow> nat \<Rightarrow> core_local \<Rightarrow> ('t usmp_ctx, int, bytes) io" where
  "core_recv_loop P M max_len 0 l = (if l_frames l > 0 then fail_closed (-1) else ret [])"
| "core_recv_loop P M max_len (Suc attempts) l =
     bind_io (core_recv_step P M max_len l) (\<lambda>flow.
     case flow of Finish out \<Rightarrow> ret out | Again l' \<Rightarrow> core_recv_loop P M max_len attempts l')"

text \<open>Returns the bytes written to \<open>out\<close>, whose number is the result of the C function.\<close>

definition usmp_recv :: "'t platform \<Rightarrow> mbedtls \<Rightarrow> 16 word \<Rightarrow> ('t usmp_ctx, int, bytes) io" where
  "usmp_recv P M max_len =
     if_connected (-1)
       (core_recv_loop P M max_len 10 \<lparr>l_out = [], l_frames = 0, l_expected = 0, l_ctrl = 0\<rparr>)"

end
