(* ===== verification/CoreRefine.thy ===== *)
theory CoreRefine
  imports CoreSession
begin

text \<open>
  The session of the C core against the one of the Python SDK: a context stands for a
  \<open>SessionInfo\<close>, the two libraries of primitives compute the same, and each operation of the core,
  over a transport that keeps the contract \<open>core_stream\<close>, does to this \<open>SessionInfo\<close> and writes and reads on
  the stream what the operation of the SDK does.
\<close>

section \<open>The session of the SDK that a context stands for\<close>

definition core_info :: "'t usmp_ctx \<Rightarrow> session_info" where
  "core_info ctx =
     \<lparr>device_id = c_dev_id ctx, session_id = c_session_id ctx, tx_key = c_tx_key ctx,
      rx_key = c_rx_key ctx, tx_seq = uint (c_tx_seq ctx), rx_seq = uint (c_rx_seq ctx),
      rx_window_bitmap = uint (c_rx_window_bitmap ctx),
      cipher_suite = (if c_cipher_suite ctx = 2 then CHACHA20_POLY1305 else AES256_GCM)\<rparr>"

lemma core_info_simps [simp]:
  "session_id (core_info ctx) = c_session_id ctx" "tx_key (core_info ctx) = c_tx_key ctx"
  "rx_key (core_info ctx) = c_rx_key ctx" "tx_seq (core_info ctx) = uint (c_tx_seq ctx)"
  "rx_seq (core_info ctx) = uint (c_rx_seq ctx)"
  "rx_window_bitmap (core_info ctx) = uint (c_rx_window_bitmap ctx)"
  "cipher_suite (core_info ctx) = (if c_cipher_suite ctx = 2 then CHACHA20_POLY1305 else AES256_GCM)"
  by (simp_all add: core_info_def)

section \<open>Both libraries implement the same algorithms\<close>

definition aead_agrees ::
  "crypto \<Rightarrow> cipher_suite \<Rightarrow> (bytes \<Rightarrow> bytes \<Rightarrow> bytes \<Rightarrow> bytes \<Rightarrow> (bytes \<times> bytes) option)
   \<Rightarrow> (bytes \<Rightarrow> bytes \<Rightarrow> bytes \<Rightarrow> bytes \<Rightarrow> bytes \<Rightarrow> bytes option) \<Rightarrow> bool" where
  "aead_agrees C suite enc dec \<longleftrightarrow>
     (\<forall>key nonce aad. length key = 32 \<and> length nonce = 12 \<longrightarrow>
        (\<forall>pt. \<exists>ct tag. enc key nonce aad pt = Some (ct, tag) \<and> length ct = length pt \<and> length tag = 16
           \<and> ct @ tag = aead_encrypt C suite key nonce pt aad)
        \<and> (\<forall>ct tag. length tag = 16 \<longrightarrow> dec key nonce aad tag ct = aead_decrypt C suite key nonce (ct @ tag) aad))"

text \<open>
  mbedTLS, built with ChaCha20-Poly1305, against the \<open>cryptography\<close> package: the same
  standards (AES-256-GCM, RFC 8439, RFC 5869, RFC 2104, RFC 7748), the ciphers on keys of 32 and
  nonces of 12 bytes.
\<close>

definition mbedtls_law :: "mbedtls \<Rightarrow> crypto \<Rightarrow> bool" where
  "mbedtls_law M C \<longleftrightarrow>
     chachapoly M \<and> (\<forall>key. length key = 32 \<longrightarrow> gcm_setkey M key \<and> chachapoly_setkey M key)
     \<and> aead_agrees C AES256_GCM (gcm_crypt_and_tag M) (gcm_auth_decrypt M)
     \<and> aead_agrees C CHACHA20_POLY1305 (chachapoly_encrypt_and_tag M) (chachapoly_auth_decrypt M)
     \<and> (\<forall>salt ikm info n. mbedtls_hkdf M salt ikm info n = Some (hkdf_sha256 C n salt info ikm))
     \<and> (\<forall>key msg. md_hmac M key msg = Some (hmac_sha256 C key msg))
     \<and> ecdh_setup M \<and> (\<forall>priv. ecdh_make_public M priv = Some (32 # x_public C priv))
     \<and> (\<forall>pub. ecdh_read_public M (32 # pub) = Some pub)
     \<and> (\<forall>priv pub s. x_exchange C priv pub = Inr s \<longrightarrow> ecdh_calc_secret M priv pub = Some s)"

text \<open>A library that satisfies it, from any \<open>crypto\<close>.\<close>

definition split_tag :: "bytes \<Rightarrow> bytes \<times> bytes" where
  "split_tag c = (take (length c - 16) c, drop (length c - 16) c)"

definition mbedtls_of :: "crypto \<Rightarrow> mbedtls" where
  "mbedtls_of C =
     \<lparr>gcm_setkey = (\<lambda>key. True),
      gcm_crypt_and_tag = (\<lambda>key nonce aad pt. Some (split_tag (aead_encrypt C AES256_GCM key nonce pt aad))),
      gcm_auth_decrypt = (\<lambda>key nonce aad tag ct. aead_decrypt C AES256_GCM key nonce (ct @ tag) aad),
      chachapoly = True, chachapoly_setkey = (\<lambda>key. True),
      chachapoly_encrypt_and_tag = (\<lambda>key nonce aad pt. Some (split_tag (aead_encrypt C CHACHA20_POLY1305 key nonce pt aad))),
      chachapoly_auth_decrypt = (\<lambda>key nonce aad tag ct. aead_decrypt C CHACHA20_POLY1305 key nonce (ct @ tag) aad),
      mbedtls_hkdf = (\<lambda>salt ikm info n. Some (hkdf_sha256 C n salt info ikm)),
      md_hmac = (\<lambda>key msg. Some (hmac_sha256 C key msg)), ecdh_setup = True,
      ecdh_make_public = (\<lambda>priv. Some (32 # x_public C priv)),
      ecdh_read_public = (\<lambda>buf. if take 1 buf = [32] then Some (drop 1 buf) else None),
      ecdh_calc_secret = (\<lambda>priv pub. case x_exchange C priv pub of Inl e \<Rightarrow> None | Inr s \<Rightarrow> Some s)\<rparr>"

lemma mbedtls_of_law: "aead_law C \<Longrightarrow> mbedtls_law (mbedtls_of C) C"
  by (simp add: mbedtls_law_def mbedtls_of_def aead_agrees_def aead_law_def split_tag_def)

lemma mbedtls_lawD:
  assumes "mbedtls_law M C"
  shows "aead_agrees C AES256_GCM (gcm_crypt_and_tag M) (gcm_auth_decrypt M)"
    and "aead_agrees C CHACHA20_POLY1305 (chachapoly_encrypt_and_tag M) (chachapoly_auth_decrypt M)"
    and "chachapoly M" and "length key = 32 \<Longrightarrow> gcm_setkey M key \<and> chachapoly_setkey M key"
    and "mbedtls_hkdf M salt ikm info n = Some (hkdf_sha256 C n salt info ikm)"
    and "md_hmac M key' msg = Some (hmac_sha256 C key' msg)"
    and "ecdh_setup M" "ecdh_make_public M priv = Some (32 # x_public C priv)"
    and "ecdh_read_public M (32 # pub) = Some pub"
    and "x_exchange C priv pub = Inr s \<Longrightarrow> ecdh_calc_secret M priv pub = Some s"
  using assms by (simp_all add: mbedtls_law_def)

lemma aead_agreesD:
  assumes "aead_agrees C suite enc dec" "length key = 32" "length nonce = 12"
  shows "\<exists>ct tag. enc key nonce aad pt = Some (ct, tag) \<and> ct @ tag = aead_encrypt C suite key nonce pt aad"
    and "length tag = 16 \<Longrightarrow> dec key nonce aad tag ct = aead_decrypt C suite key nonce (ct @ tag) aad"
  using assms unfolding aead_agrees_def by blast+

lemma core_encrypt:
  assumes "mbedtls_law M C" "length key = 32" "length nonce = 12"
  shows "usmp_crypto_encrypt M suite key nonce aad pt
    = Some (nonce @ aead_encrypt C (if suite = 2 then CHACHA20_POLY1305 else AES256_GCM) key nonce pt aad)"
  using aead_agreesD(1) [OF mbedtls_lawD(1) [OF assms(1)] assms(2,3), of aad pt]
    aead_agreesD(1) [OF mbedtls_lawD(2) [OF assms(1)] assms(2,3), of aad pt] mbedtls_lawD(3,4) [OF assms(1)] assms(2)
  by (auto simp: usmp_crypto_encrypt_def usmp_gcm_encrypt_def usmp_chacha20_poly1305_encrypt_def)

lemma core_decrypt:
  assumes "mbedtls_law M C" "length key = 32" "length nonce = 12"
  shows "usmp_crypto_decrypt M suite key nonce aad nct
    = (if length nct < 28 \<or> take 12 nct \<noteq> nonce then None
       else aead_decrypt C (if suite = 2 then CHACHA20_POLY1305 else AES256_GCM) key nonce (drop 12 nct) aad)"
proof (cases "length nct < 28 \<or> take 12 nct \<noteq> nonce")
  case True
  then show ?thesis
    by (auto simp: usmp_crypto_decrypt_def usmp_gcm_decrypt_def usmp_chacha20_poly1305_decrypt_def)
next
  case False
  let ?n = "length nct - 28"
  have join: "take ?n (drop 12 nct) @ drop (12 + ?n) nct = drop 12 nct"
    using append_take_drop_id [of ?n "drop 12 nct"] by (simp add: add.commute)
  have tag: "length (drop (12 + ?n) nct) = 16" using False by simp
  note dec = aead_agreesD(2) [OF mbedtls_lawD(1) [OF assms(1)] assms(2,3) tag, of aad "take ?n (drop 12 nct)"]
    aead_agreesD(2) [OF mbedtls_lawD(2) [OF assms(1)] assms(2,3) tag, of aad "take ?n (drop 12 nct)"]
  from dec [unfolded join] False mbedtls_lawD(3,4) [OF assms(1)] assms(2) show ?thesis
    by (auto simp: usmp_crypto_decrypt_def usmp_gcm_decrypt_def usmp_chacha20_poly1305_decrypt_def Let_def)
qed

section \<open>Sealing and opening\<close>

lemma build_nonce_eq: "build_nonce seq sid = le_bytes 4 (uint seq) @ take 8 sid"
  by (simp add: build_nonce_def byte_mask le_bytes_uint)

lemma core_session_nonce: "session_nonce info (uint seq) = Inr (build_nonce seq (session_id info))" for seq :: "32 word"
  using uint_lt2p [of seq] by (simp add: session_nonce_def pack_I_ok build_nonce_eq)

lemma unat_word16: "n < 65536 \<Longrightarrow> unat (word_of_nat n :: 16 word) = n"
  by (simp only: unat_of_nat) (simp add: take_bit_nat_eq_self_iff)

text \<open>What a context must satisfy for its session to be one of the SDK.\<close>

definition core_ok :: "'t usmp_ctx \<Rightarrow> bool" where
  "core_ok ctx \<longleftrightarrow> length (c_tx_key ctx) = 32 \<and> length (c_rx_key ctx) = 32 \<and> 8 \<le> length (c_session_id ctx)"

lemma length_build_nonce: "core_ok ctx \<Longrightarrow> length (build_nonce seq (c_session_id ctx)) = 12"
  by (simp add: core_ok_def build_nonce_def)

lemma core_aad_eq:
  "core_aad magic version type seq len
   = le_bytes 2 (uint magic) @ [version, type] @ le_bytes 4 (uint seq) @ le_bytes 2 (uint len)"
  by (simp add: core_aad_def core_header)

lemma core_seal:
  assumes law: "mbedtls_law M C" and aead: "aead_law C" and ok: "core_ok ctx" and pt: "length pt \<le> 452"
  shows "\<exists>pkt ct. sealed_packet M (word_of_int (packet_type_code ty)) pt ctx = Some pkt
    \<and> seal C (core_info ctx) ty pt = Inr ct \<and> length ct = length pt + 28
    \<and> snd (usmp_build_packet pkt) = frame_bytes ty ct (uint (c_tx_seq ctx))"
proof -
  let ?ty = "word_of_int (packet_type_code ty) :: 8 word"
  let ?seq = "c_tx_seq ctx"
  let ?nonce = "build_nonce ?seq (c_session_id ctx)"
  let ?len = "12 + word_of_nat (length pt) + 16 :: 16 word"
  define aad where "aad = core_aad 0xABCD 2 ?ty ?seq ?len"
  let ?suite = "if c_cipher_suite ctx = 2 then CHACHA20_POLY1305 else AES256_GCM"
  define ct where "ct = ?nonce @ aead_encrypt C ?suite (c_tx_key ctx) ?nonce pt aad"
  have len: "uint ?len = 28 + int (length pt)"
    using pt by (simp add: uint_nat unat_word_ariths unat_of_nat)
  have aad: "aad = le_bytes 2 USMP_MAGIC @ le_bytes 1 USMP_VERSION @ le_bytes 1 (packet_type_code ty)
      @ le_bytes 4 (uint ?seq) @ le_bytes 2 (28 + int (length pt))"
    unfolding aad_def core_aad_eq len by simp
  have enc: "usmp_crypto_encrypt M (c_cipher_suite ctx) (c_tx_key ctx) ?nonce aad pt = Some ct"
    unfolding ct_def
    using ok by (intro core_encrypt [OF law] length_build_nonce) (simp_all add: core_ok_def)
  have clen: "length ct = length pt + 28"
    using aead length_build_nonce [OF ok] by (simp add: ct_def aead_law_def)
  have sealed: "seal C (core_info ctx) ty pt = Inr ct"
    using uint_lt2p [of ?seq] pt by (simp add: seal_def core_session_nonce encrypt_ok aad ct_def)
  let ?pkt = "\<lparr>pkt_magic = 0xABCD, pkt_version = 2, pkt_type = ?ty, pkt_seq = ?seq,
      pkt_length = word_of_nat (length ct), pkt_crc = 0, pkt_payload = ct @ replicate (480 - length ct) 0\<rparr>"
  have plen: "unat (word_of_nat (length ct) :: 16 word) = length ct"
    using clen pt by (intro unat_word16) simp
  have "snd (usmp_build_packet ?pkt) = frame_bytes ty ct (uint ?seq)"
    using core_frame_bytes [of ?pkt ty] by (simp add: plen)
  moreover have "sealed_packet M ?ty pt ctx = Some ?pkt"
    unfolding sealed_packet_def Let_def aad_def [symmetric] enc by simp
  ultimately show ?thesis using sealed clen by blast
qed

lemma core_open_frame:
  assumes law: "mbedtls_law M C" and ok: "core_ok ctx" and ty: "uint (pkt_type p) = packet_type_code t"
  shows "open_frame C (core_info ctx) (frame_of_packet p t) =
    (case usmp_crypto_decrypt M (c_cipher_suite ctx) (c_rx_key ctx) (build_nonce (pkt_seq p) (c_session_id ctx))
        (core_aad (pkt_magic p) (pkt_version p) (pkt_type p) (pkt_seq p) (pkt_length p))
        (take (unat (pkt_length p)) (pkt_payload p)) of
       None \<Rightarrow> Inl CryptoError
     | Some pt \<Rightarrow> Inr pt)"
proof -
  let ?nonce = "build_nonce (pkt_seq p) (c_session_id ctx)"
  have type: "pkt_type p = word_of_int (packet_type_code t)" using ty by (metis word_of_int_uint)
  have "build_aad (uint (pkt_magic p)) (uint (pkt_version p)) (packet_type_code t) (uint (pkt_seq p)) (uint (pkt_length p))
      = Inr (core_aad (pkt_magic p) (pkt_version p) (pkt_type p) (pkt_seq p) (pkt_length p))"
    using uint_lt2p [of "pkt_magic p"] uint_lt2p [of "pkt_version p"] packet_type_code_bounds [of t]
      uint_lt2p [of "pkt_seq p"] uint_lt2p [of "pkt_length p"]
    by (simp add: build_aad_ok core_aad_eq type)
  moreover have "length ?nonce = 12" by (rule length_build_nonce [OF ok])
  ultimately show ?thesis
    using ok
    by (simp add: open_frame_def frame_of_packet_def core_session_nonce decrypt_def core_decrypt [OF law] core_ok_def)
qed

text \<open>What the parser reads from the bytes of a frame.\<close>

lemma core_parse_sent:
  assumes "sendable p s"
  shows "\<exists>pkt. usmp_parse_packet (frame_bytes ty p s) pkt0 = (0, pkt)
    \<and> frame_of_packet pkt ty = sent_frame ty p s
    \<and> pkt_type pkt = word_of_int (packet_type_code ty) \<and> uint (pkt_type pkt) = packet_type_code ty"
proof -
  obtain rc pkt where parse: "usmp_parse_packet (frame_bytes ty p s) pkt0 = (rc, pkt)" by fastforce
  have dec: "decode_frame True (frame_bytes ty p s) = Inr (sent_frame ty p s)"
    by (rule decode_frame_bytes [OF assms])
  have rc: "rc = 0"
    using core_parse_decode [of "frame_bytes ty p s" pkt0] by (auto simp: parse dec split: if_splits)
  then obtain t where t: "PacketType_of (uint (pkt_type pkt)) = Inr t" "sent_frame ty p s = frame_of_packet pkt t"
    using core_parse_decode [of "frame_bytes ty p s" pkt0] by (auto simp: parse dec split: sum.splits)
  have "fr_type (sent_frame ty p s) = fr_type (frame_of_packet pkt t)" using t(2) by simp
  then have "t = ty" by (simp add: frame_of_packet_def)
  with t have code: "uint (pkt_type pkt) = packet_type_code ty"
    by (simp add: PacketType_of_Inr)
  then have "pkt_type pkt = word_of_int (packet_type_code ty)" by (metis word_of_int_uint)
  with parse rc t \<open>t = ty\<close> code show ?thesis by simp
qed

section \<open>The replay window\<close>

lemma uint_diff: "y \<le> x \<Longrightarrow> uint (x - y) = uint x - uint y" for x y :: "'a::len word"
  by (simp add: word_le_def flip: uint_sub_lem)

lemma core_replay_drop_eq:
  "core_replay_drop (c_rx_seq ctx) (c_rx_window_bitmap ctx) seq = replay_drop (core_info ctx) (uint seq)"
proof -
  let ?rx = "c_rx_seq ctx"
  have old: "?rx \<ge> 64 \<and> seq \<le> ?rx - 64 \<longleftrightarrow> uint seq \<le> uint ?rx - 64"
  proof (cases "?rx \<ge> 64")
    case True
    then show ?thesis using uint_diff [OF True] by (simp add: word_le_def)
  next
    case False
    then have "uint ?rx < 64" by (simp add: word_le_def)
    with False show ?thesis using uint_ge_0 [of seq] by linarith
  qed
  have seen: "bit (c_rx_window_bitmap ctx) (unat (?rx - seq))
      \<longleftrightarrow> bit (uint (c_rx_window_bitmap ctx)) (nat (uint ?rx - uint seq))" if "seq \<le> ?rx"
    using uint_diff [OF that] by (auto simp: bit_uint_iff unat_eq_nat_uint dest: bit_imp_le_length)
  show ?thesis
    using old seen
    by (auto simp: core_replay_drop_def replay_drop_bit window_stale_def bit_iff_and_push_bit_not_eq_0 [symmetric, unfolded push_bit_of_1]
        word_le_def)
qed

lemma uint_push_64: "uint (push_bit n w) = push_bit n (uint w) AND 0xFFFFFFFFFFFFFFFF" for w :: "64 word"
proof -
  have "(0xFFFFFFFFFFFFFFFF :: int) = mask 64" by (simp add: mask_eq_exp_minus_1)
  then show ?thesis by (simp add: unsigned_push_bit_eq take_bit_eq_mask)
qed

lemma core_window_update_eq:
  assumes "\<not> core_replay_drop (c_rx_seq ctx) (c_rx_window_bitmap ctx) seq"
  shows "core_info (core_window_update seq ctx) = window_update (uint seq) (core_info ctx)"
proof (cases "seq > c_rx_seq ctx")
  case True
  let ?k = "seq - c_rx_seq ctx"
  have k: "uint ?k = uint seq - uint (c_rx_seq ctx)" using True by (intro uint_diff) simp
  then have "?k < 64 \<longleftrightarrow> uint seq - uint (c_rx_seq ctx) < 64" and "unat ?k = nat (uint seq - uint (c_rx_seq ctx))"
    by (simp_all add: word_less_def unat_eq_nat_uint)
  with True show ?thesis
    by (auto simp: core_window_update_def window_update_def Let_def core_info_def word_less_def unsigned_or_eq
        uint_push_64)
next
  case False
  let ?k = "c_rx_seq ctx - seq"
  have k: "uint ?k = uint (c_rx_seq ctx) - uint seq" using False by (intro uint_diff) simp
  have "\<not> uint seq \<le> uint (c_rx_seq ctx) - 64"
    using assms by (simp add: core_replay_drop_eq replay_drop_def)
  moreover have kn: "unat ?k = nat (uint (c_rx_seq ctx) - uint seq)" by (simp only: unat_eq_nat_uint k)
  ultimately have "unat ?k < 64" by linarith
  then have "uint (push_bit (unat ?k) (1 :: 64 word)) = push_bit (unat ?k) 1"
    unfolding unsigned_push_bit_eq take_bit_push_bit by simp
  then have "uint (c_rx_window_bitmap ctx OR push_bit (unat ?k) 1)
      = uint (c_rx_window_bitmap ctx) OR push_bit (nat (uint (c_rx_seq ctx) - uint seq)) 1"
    unfolding kn by (simp only: unsigned_or_eq)
  with False show ?thesis
    by (simp add: core_window_update_def window_update_def core_info_def word_less_def)
qed

lemma core_info_advance:
  assumes "core_info ctx' = advance_tx n (core_info ctx)"
  shows "uint (c_tx_seq ctx') = uint (c_tx_seq ctx) + int n" and "core_ok ctx \<Longrightarrow> core_ok ctx'"
  using assms by (simp_all add: core_ok_def core_info_def advance_tx_def)

section \<open>Over a stream\<close>

text \<open>
  What a session of the core needs of a reliable transport.  \<open>pending\<close> is the input that has
  arrived, \<open>out\<close> what was sent; while \<open>up\<close> holds, the connection works.
\<close>

locale core_stream =
  fixes P :: "'t platform" and pending :: "'t \<Rightarrow> bytes" and out :: "'t \<Rightarrow> bytes" and up :: "'t \<Rightarrow> bool"
  assumes reliable: "\<not> is_udp P"
    and recv_frame: "up t \<Longrightarrow> sendable p s \<Longrightarrow> pending t = frame_bytes ty p s @ rest \<Longrightarrow>
      \<exists>t'. t_recv P 492 t = (Ret (frame_bytes ty p s), t') \<and> up t' \<and> pending t' = rest \<and> out t' = out t"
    and send_frame: "up t \<Longrightarrow> sendable p s \<Longrightarrow>
      \<exists>t'. t_send P (frame_bytes ty p s) t = (Ret (), t')
        \<and> up t' \<and> pending t' = pending t \<and> out t' = out t @ frame_bytes ty p s"
    and clock: "up t \<Longrightarrow> p_millis P t = (now, t') \<Longrightarrow> up t' \<and> pending t' = pending t \<and> out t' = out t"
    and keys: "t_set_session_keys P = Some f \<Longrightarrow> up t \<Longrightarrow>
      up (f tx rx t) \<and> pending (f tx rx t) = pending t \<and> out (f tx rx t) = out t"
    and random: "up t \<Longrightarrow> p_random P n t = (Ret salt, t') \<Longrightarrow>
      length salt = n \<and> up t' \<and> pending t' = pending t \<and> out t' = out t"
begin

text \<open>A working session that has sent \<open>sent\<close>, has \<open>rest\<close> still to read, and now stands for \<open>info\<close>.\<close>

definition arrives :: "session_info \<Rightarrow> bytes \<Rightarrow> bytes \<Rightarrow> 't usmp_ctx \<Rightarrow> 't usmp_ctx \<Rightarrow> bool" where
  "arrives info sent rest ctx ctx' \<longleftrightarrow>
     core_info ctx' = info \<and> c_established ctx' = c_established ctx \<and> up (c_transport ctx')
     \<and> out (c_transport ctx') = out (c_transport ctx) @ sent \<and> pending (c_transport ctx') = rest"

lemma arrives_refl: "up (c_transport ctx) \<Longrightarrow> arrives (core_info ctx) [] (pending (c_transport ctx)) ctx ctx"
  by (simp add: arrives_def)

lemma arrives_trans:
  "arrives i xs r ctx ctx' \<Longrightarrow> arrives j ys r' ctx' ctx'' \<Longrightarrow> arrives j (xs @ ys) r' ctx ctx''"
  by (simp add: arrives_def)

lemma emit_frame_stream:
  assumes law: "mbedtls_law M C" and aead: "aead_law C" and ok: "core_ok ctx" and up: "up (c_transport ctx)"
    and seq: "uint (c_tx_seq ctx) < 0xFFFFFFFF" and pt: "length pt \<le> 452"
  shows "\<exists>ct ctx'. seal C (core_info ctx) ty pt = Inr ct \<and> length ct = length pt + 28
    \<and> emit_frame P M (word_of_int (packet_type_code ty)) pt ctx = (Ret (), ctx')
    \<and> arrives (advance_tx 1 (core_info ctx)) (frame_bytes ty ct (uint (c_tx_seq ctx)))
        (pending (c_transport ctx)) ctx ctx'"
proof -
  let ?seq = "c_tx_seq ctx"
  obtain pkt ct where sealed: "sealed_packet M (word_of_int (packet_type_code ty)) pt ctx = Some pkt"
    and ct: "seal C (core_info ctx) ty pt = Inr ct" "length ct = length pt + 28"
    and bytes: "snd (usmp_build_packet pkt) = frame_bytes ty ct (uint ?seq)"
    using core_seal [OF law aead ok pt] by blast
  obtain now t1 where now: "p_millis P (c_transport ctx) = (now, t1)" by fastforce
  note t1 = clock [OF up now]
  have "sendable ct (uint ?seq)" using ct(2) pt uint_lt2p [of ?seq] by (simp add: sendable_def)
  with up t1 obtain t2 where t2: "t_send P (frame_bytes ty ct (uint ?seq)) t1 = (Ret (), t2)" "up t2"
      "pending t2 = pending (c_transport ctx)" "out t2 = out (c_transport ctx) @ frame_bytes ty ct (uint ?seq)"
    using send_frame [of t1 ct "uint ?seq" ty] by auto
  let ?ctx = "ctx\<lparr>c_tx_seq := ?seq + 1, c_transport := t2, c_last_tx_ms := now\<rparr>"
  have low: "\<not> ?seq \<ge> 0xFFFFFFFF" using seq by (simp add: word_le_def)
  have "emit_frame P M (word_of_int (packet_type_code ty)) pt ctx = (Ret (), ?ctx)"
    using low
    by (simp add: emit_frame_def sealed Let_def bytes bind_io_def catch_io_def usmp_port_millis_def on_device_def
        now t2(1))
  moreover have "uint (?seq + 1) = uint ?seq + 1" using seq by (simp add: uint_word_ariths)
  ultimately show ?thesis
    using ct t2 by (auto simp: arrives_def core_info_def advance_tx_def)
qed

text \<open>The loop of \<open>usmp_send\<close> cuts a message as \<open>fragments\<close> does.\<close>

lemma send_loop_stream:
  assumes law: "mbedtls_law M C" and aead: "aead_law C"
  shows "core_ok ctx \<Longrightarrow> up (c_transport ctx) \<Longrightarrow> offset < length data \<or> data = [] \<Longrightarrow>
    uint (c_tx_seq ctx) + int (length (fragments (drop offset data))) \<le> 0xFFFFFFFF \<Longrightarrow>
    \<exists>ctx'. usmp_send_loop P M data offset ctx = (Ret (), ctx')
      \<and> arrives (advance_tx (length (fragments (drop offset data))) (core_info ctx))
          (wire_of C (core_info ctx) (fragments (drop offset data))) (pending (c_transport ctx)) ctx ctx'"
proof (induction "length data - offset" arbitrary: offset ctx rule: less_induct)
  case less
  let ?rest = "drop offset data"
  let ?n = "min (length data - offset) 452"
  let ?chunk = "slice offset (offset + ?n) data"
  show ?case
  proof (cases "length ?rest \<le> 452")
    case True
    then have chunk: "?chunk = ?rest" and last: "\<not> offset + length ?rest < length data"
      by (auto simp: slice_def min_def)
    have frs: "fragments ?rest = [(DATA, ?rest)]" using True by (subst fragments.simps) simp
    obtain ct ctx1 where e: "seal C (core_info ctx) DATA ?rest = Inr ct"
        "emit_frame P M USMP_TYPE_DATA ?rest ctx = (Ret (), ctx1)"
        "arrives (advance_tx 1 (core_info ctx)) (frame_bytes DATA ct (uint (c_tx_seq ctx)))
           (pending (c_transport ctx)) ctx ctx1"
      using emit_frame_stream [OF law aead less.prems(1,2), of ?rest DATA] less.prems(4) True
      by (auto simp: frs)
    have fin: "usmp_send_loop P M data (offset + length ?rest) ctx1 = (Ret (), ctx1)" if "data \<noteq> []"
      using that last by (subst usmp_send_loop.simps) simp
    have "usmp_send_loop P M data offset ctx = (Ret (), ctx1)"
      using less.prems(3) e(2) fin last
      by (subst usmp_send_loop.simps) (auto simp: chunk bind_io_def catch_io_def Let_def)
    with e show ?thesis by (auto simp: frs)
  next
    case False
    then have more: "offset + 452 < length data" and n: "?n = 452"
      and chunk: "slice offset (offset + 452) data = take 452 ?rest" "length (take 452 ?rest) = 452"
      by (auto simp: slice_def)
    have frs: "fragments ?rest = (DATA_FRAG, take 452 ?rest) # fragments (drop (offset + 452) data)"
      using False by (subst fragments.simps) (simp add: add.commute)
    obtain ct ctx1 where e: "seal C (core_info ctx) DATA_FRAG (take 452 ?rest) = Inr ct"
        "emit_frame P M USMP_TYPE_DATA_FRAG (take 452 ?rest) ctx = (Ret (), ctx1)"
        "arrives (advance_tx 1 (core_info ctx)) (frame_bytes DATA_FRAG ct (uint (c_tx_seq ctx)))
           (pending (c_transport ctx)) ctx ctx1"
      using emit_frame_stream [OF law aead less.prems(1,2), of "take 452 ?rest" DATA_FRAG] less.prems(4)
      by (auto simp: frs)
    have ctx1: "core_info ctx1 = advance_tx 1 (core_info ctx)" "up (c_transport ctx1)"
      "pending (c_transport ctx1) = pending (c_transport ctx)"
      using e(3) by (simp_all add: arrives_def)
    moreover have "uint (c_tx_seq ctx1) = uint (c_tx_seq ctx) + 1"
      using core_info_advance [OF ctx1(1)] by simp
    moreover have dec: "length data - (offset + 452) < length data - offset" using more by simp
    ultimately obtain ctx2 where c2: "usmp_send_loop P M data (offset + 452) ctx1 = (Ret (), ctx2)"
      "arrives (advance_tx (length (fragments (drop (offset + 452) data))) (core_info ctx1))
          (wire_of C (core_info ctx1) (fragments (drop (offset + 452) data))) (pending (c_transport ctx1)) ctx1 ctx2"
      using less.hyps [OF dec, of ctx1] less.prems more core_info_advance [OF ctx1(1)] by (auto simp: frs)
    have "usmp_send_loop P M data offset ctx = (Ret (), ctx2)"
      using e(2) c2(1) more less.prems(3)
      by (subst usmp_send_loop.simps) (auto simp: n chunk bind_io_def catch_io_def Let_def)
    with arrives_trans [OF e(3) c2(2)] e(1) ctx1 show ?thesis
      by (auto simp: frs advance_Suc)
  qed
qed

lemma usmp_send_stream:
  assumes "mbedtls_law M C" "aead_law C" "core_ok ctx" "up (c_transport ctx)" "c_established ctx"
    and len: "length data \<le> 1808" and seq: "uint (c_tx_seq ctx) + 4 \<le> 0xFFFFFFFF"
  shows "\<exists>ctx'. usmp_send P M data ctx = (Ret (), ctx')
    \<and> arrives (advance_tx (length (fragments data)) (core_info ctx))
        (wire_of C (core_info ctx) (fragments data)) (pending (c_transport ctx)) ctx ctx'"
proof -
  let ?num = "if length data = 0 then 1 else word_of_nat ((length data + 452 - 1) div 452) :: 32 word"
  let ?left = "0xFFFFFFFF - c_tx_seq ctx"
  have "(length data + 451) div 452 \<le> 4" using len by simp
  then have "uint (word_of_nat ((length data + 451) div 452) :: 32 word) \<le> 4"
    by (auto simp: unsigned_of_nat intro: order_trans [OF take_bit_nat_less_eq_self])
  then have num: "uint ?num \<le> 4" by (simp add: add.commute)
  have "uint ?left = 0xFFFFFFFF - uint (c_tx_seq ctx)"
    using seq by (subst uint_diff) (simp_all add: word_le_def)
  with num seq have "\<not> ?left < ?num" by (simp add: word_less_def)
  moreover have "length (fragments data) \<le> 4" using length_fragments [of data 3] len by simp
  ultimately show ?thesis
    using send_loop_stream [OF assms(1-4), of 0 data] assms(5) len seq
    by (auto simp: usmp_send_def if_connected_def Let_def)
qed

section \<open>Receiving from a stream\<close>

lemma core_read_stream:
  assumes "up (c_transport ctx)" and "sendable p s" and "pending (c_transport ctx) = frame_bytes ty p s @ rest"
  shows "\<exists>pkt t'. core_read P ctx = (Ret (Some pkt), ctx\<lparr>c_transport := t'\<rparr>)
    \<and> frame_of_packet pkt ty = sent_frame ty p s
    \<and> pkt_type pkt = word_of_int (packet_type_code ty) \<and> uint (pkt_type pkt) = packet_type_code ty
    \<and> up t' \<and> pending t' = rest \<and> out t' = out (c_transport ctx)"
proof -
  obtain t' where t': "t_recv P 492 (c_transport ctx) = (Ret (frame_bytes ty p s), t')"
    "up t'" "pending t' = rest" "out t' = out (c_transport ctx)"
    using recv_frame [OF assms] by blast
  obtain pkt where pkt: "usmp_parse_packet (frame_bytes ty p s) blank_packet = (0, pkt)"
    "frame_of_packet pkt ty = sent_frame ty p s"
    "pkt_type pkt = word_of_int (packet_type_code ty)" "uint (pkt_type pkt) = packet_type_code ty"
    using core_parse_sent [OF assms(2)] by blast
  have "core_read P ctx = (Ret (Some pkt), ctx\<lparr>c_transport := t'\<rparr>)"
    by (simp add: core_read_def bind_io_def catch_io_def on_device_def t' pkt(1))
  with t' pkt show ?thesis by blast
qed

text \<open>A frame of the paired peer is opened and its number accepted.\<close>

lemma core_recv_step_stream:
  assumes law: "mbedtls_law M C" and aead: "aead_law C" and ok: "core_ok ctx" and up: "up (c_transport ctx)"
    and pair: "paired a (core_info ctx)" and ct: "seal C a ty p = Inr ct" and seq: "tx_seq a < 0xFFFFFFFF"
    and p: "length p \<le> 452" and input: "pending (c_transport ctx) = frame_bytes ty ct (tx_seq a) @ rest"
    and room: "\<And>ctx. \<exists>m. core_dec_max P max_len l (word_of_int (packet_type_code ty)) ctx
      = (Ret (Some m), ctx) \<and> length p \<le> m"
  shows "\<exists>pkt ctx1. core_recv_step P M max_len l ctx = core_dispatch P M pkt p l ctx1
    \<and> pkt_type pkt = word_of_int (packet_type_code ty) \<and> uint (pkt_seq pkt) = tx_seq a
    \<and> arrives (advance_rx 1 (core_info ctx)) [] rest ctx ctx1"
proof -
  have a: "8 \<le> length (session_id a)" "0 \<le> tx_seq a" "rx_seq (core_info ctx) = tx_seq a"
    using pair by (simp_all add: paired_def)
  have clen: "length ct = length p + 28" by (rule seal_length [OF aead a(1) ct])
  have "sendable ct (tx_seq a)" using a seq p clen by (simp add: sendable_def)
  then obtain pkt t' where rd: "core_read P ctx = (Ret (Some pkt), ctx\<lparr>c_transport := t'\<rparr>)"
    and pkt: "frame_of_packet pkt ty = sent_frame ty ct (tx_seq a)"
      "pkt_type pkt = word_of_int (packet_type_code ty)" "uint (pkt_type pkt) = packet_type_code ty"
    and t': "up t'" "pending t' = rest" "out t' = out (c_transport ctx)"
    using core_read_stream [OF up _ input] by blast
  let ?ctx = "ctx\<lparr>c_transport := t'\<rparr>"
  have fields: "uint (pkt_seq pkt) = tx_seq a" "uint (pkt_length pkt) = int (length p) + 28"
    using arg_cong [OF pkt(1), of fr_seq] arg_cong [OF pkt(1), of fr_length]
    by (simp_all add: frame_of_packet_def clen)
  obtain m where m: "core_dec_max P max_len l (pkt_type pkt) ?ctx = (Ret (Some m), ?ctx)" "length p \<le> m"
    using room [of ?ctx] unfolding pkt(2) by blast
  have nat_len: "unat (pkt_length pkt) = length p + 28" using fields(2) by (simp add: unat_eq_nat_uint)
  have small: "\<not> pkt_length pkt < 28" and plain: "unat (pkt_length pkt - 12 - 16) = length p"
    using nat_len by (simp_all add: word_less_nat_alt unat_sub word_le_nat_alt)
  have opened: "core_open P M m pkt ?ctx = (Ret (Some p), ?ctx)"
    using core_open_frame [OF law, of ?ctx pkt ty] open_seal [OF aead pair ct] ok pkt m(2) small plain
    by (auto simp: core_open_def core_ok_def core_info_def bind_io_def split: option.splits)
  have rx: "\<not> c_rx_seq ctx \<ge> 0xFFFFFFFF" "pkt_seq pkt = c_rx_seq ctx"
    using a fields seq by (simp_all add: word_le_def word_uint_eq_iff)
  let ?ctx1 = "?ctx\<lparr>c_rx_seq := c_rx_seq ctx + 1\<rparr>"
  have acc: "core_accept_seq P (pkt_seq pkt) ?ctx = (Ret (), ?ctx1)"
    using reliable rx by (simp add: core_accept_seq_def is_udp_def bind_io_def)
  have "core_recv_step P M max_len l ctx = core_dispatch P M pkt p l ?ctx1"
    using reliable
    by (simp add: core_recv_step_def unless_dropped_def bind_io_def rd core_replay_check_def m(1) opened acc)
  moreover have "uint (c_rx_seq ctx + 1) = uint (c_rx_seq ctx) + 1"
    using rx(1) by (simp add: uint_word_ariths word_le_def)
  ultimately show ?thesis
    using pkt fields t' by (intro exI [of _ pkt] exI [of _ ?ctx1])
      (simp add: arrives_def core_info_def advance_rx_def)
qed

lemma core_recv_loop_stream:
  assumes law: "mbedtls_law M C" and aead: "aead_law C"
    and "core_ok ctx" "up (c_transport ctx)" "paired a (core_info ctx)"
    and "tx_seq a + int (length frs) \<le> 0xFFFFFFFF" "list_all (\<lambda>(_, p). length p \<le> 452) frs"
    and "map fst frs = replicate (length frs - 1) DATA_FRAG @ [DATA]"
    and "pending (c_transport ctx) = wire_of C a frs @ rest"
    and "l_frames l + length frs \<le> 4" and "0 < l_frames l \<Longrightarrow> uint (l_expected l) = tx_seq a"
    and "length (l_out l) + length (concat (map snd frs)) \<le> unat max_len"
    and "length frs \<le> attempts"
  shows "\<exists>ctx'. core_recv_loop P M max_len attempts l ctx = (Ret (l_out l @ concat (map snd frs)), ctx')
    \<and> arrives (advance_rx (length frs) (core_info ctx)) [] rest ctx ctx'"
  using assms(3-)
proof (induction frs arbitrary: a ctx l attempts)
  case Nil
  then show ?case by simp
next
  case (Cons fr frs)
  obtain ty p where fr: "fr = (ty, p)" by fastforce
  obtain ct where ct: "seal C a ty p = Inr ct"
    using seal_ok [of a p C ty] Cons.prems fr by (auto simp: paired_def)
  obtain n where n: "attempts = Suc n" using Cons.prems(11) by (cases attempts) auto
  have ty: "ty = (if frs = [] then DATA else DATA_FRAG)"
    using Cons.prems(6) fr by (cases frs) auto
  have room: "\<exists>m. core_dec_max P max_len l (word_of_int (packet_type_code ty)) ctx = (Ret (Some m), ctx)
      \<and> length p \<le> m" for ctx
    using Cons.prems(10) ty fr by (auto simp: core_dec_max_def)
  obtain pkt ctx1 where step: "core_recv_step P M max_len l ctx = core_dispatch P M pkt p l ctx1"
    and pkt: "pkt_type pkt = word_of_int (packet_type_code ty)" "uint (pkt_seq pkt) = tx_seq a"
    and c1: "arrives (advance_rx 1 (core_info ctx)) [] (wire_of C (advance_tx 1 a) frs @ rest) ctx ctx1"
    using core_recv_step_stream [OF law aead Cons.prems(1-3) ct _ _ _ room] Cons.prems fr ct by force
  have disp: "core_dispatch P M pkt p l ctx1 = core_data pkt p l ctx1"
    using ty pkt(1) by (auto simp: core_dispatch_def)
  have "\<not> (l_frames l > 0 \<and> pkt_seq pkt \<noteq> l_expected l)"
    using Cons.prems(9) pkt(2) by (metis word_uint_eq_iff)
  note in_order = this
  show ?case
  proof (cases "frs = []")
    case True
    then have "core_data pkt p l ctx1 = (Ret (Finish (l_out l @ p)), ctx1)"
      using in_order ty pkt(1) by (auto simp: core_data_def Let_def)
    with True c1 fr show ?thesis by (simp add: n bind_io_def step disp)
  next
    case False
    let ?l = "l\<lparr>l_expected := (if l_frames l > 0 then l_expected l + 1 else pkt_seq pkt + 1),
        l_out := l_out l @ p, l_frames := l_frames l + 1\<rparr>"
    have cnt: "l_frames l + 1 < 4" using Cons.prems(8) False by (cases frs) auto
    then have data: "core_data pkt p l ctx1 = (Ret (Again ?l), ctx1)"
      using False in_order ty pkt(1) by (auto simp: core_data_def Let_def)
    have "l_frames l > 0 \<Longrightarrow> l_expected l = pkt_seq pkt" using in_order by auto
    then have exp: "l_expected ?l = pkt_seq pkt + 1" by auto
    have seq: "uint (l_expected ?l) = tx_seq (advance_tx 1 a)"
      using Cons.prems(3,4) False pkt(2) unfolding exp
      by (cases frs) (auto simp: uint_word_ariths advance_tx_def paired_def)
    have info: "core_info ctx1 = advance_rx 1 (core_info ctx)" and up1: "up (c_transport ctx1)"
      and in1: "pending (c_transport ctx1) = wire_of C (advance_tx 1 a) frs @ rest"
      using c1 by (simp_all add: arrives_def)
    have "\<exists>ctx'. core_recv_loop P M max_len n ?l ctx1 = (Ret (l_out ?l @ concat (map snd frs)), ctx')
      \<and> arrives (advance_rx (length frs) (core_info ctx1)) [] rest ctx1 ctx'"
    proof (rule Cons.IH)
      show "core_ok ctx1" using Cons.prems(1) info by (simp add: core_ok_def core_info_def advance_rx_def)
      show "paired (advance_tx 1 a) (core_info ctx1)"
        using paired_advance [OF Cons.prems(3), of 1] info by simp
      show "map fst frs = replicate (length frs - 1) DATA_FRAG @ [DATA]"
        using Cons.prems(6) False by (cases frs) auto
    qed (use Cons.prems cnt seq fr n up1 in1 in \<open>auto simp: advance_tx_def\<close>)
    then obtain ctx' where loop: "core_recv_loop P M max_len n ?l ctx1 = (Ret (l_out ?l @ concat (map snd frs)), ctx')"
      and c2: "arrives (advance_rx (length frs) (core_info ctx1)) [] rest ctx1 ctx'" by blast
    have "core_recv_loop P M max_len attempts l ctx = (Ret (l_out l @ concat (map snd (fr # frs))), ctx')"
      using loop fr by (simp add: n bind_io_def step disp data)
    with arrives_trans [OF c1 c2] info show ?thesis by (auto simp: advance_Suc)
  qed
qed

lemma usmp_recv_stream:
  assumes law: "mbedtls_law M C" and aead: "aead_law C"
    and "core_ok ctx" "up (c_transport ctx)" "c_established ctx" "paired a (core_info ctx)"
    and len: "length data \<le> 1808" "length data \<le> unat max_len" and seq: "tx_seq a + 4 \<le> 0xFFFFFFFF"
    and "pending (c_transport ctx) = wire_of C a (fragments data) @ rest"
  shows "\<exists>ctx'. usmp_recv P M max_len ctx = (Ret data, ctx')
    \<and> arrives (advance_rx (length (fragments data)) (core_info ctx)) [] rest ctx ctx'"
proof -
  note spec = send_is_fragments [of tcp_ops C data]
  have n: "length (fragments data) \<le> 4" using spec len by simp
  let ?l = "\<lparr>l_out = [], l_frames = 0, l_expected = 0, l_ctrl = 0\<rparr>"
  have "\<exists>ctx'. core_recv_loop P M max_len 10 ?l ctx = (Ret (l_out ?l @ concat (map snd (fragments data))), ctx')
    \<and> arrives (advance_rx (length (fragments data)) (core_info ctx)) [] rest ctx ctx'"
    using spec len seq n assms(3,4,6,10)
    by (intro core_recv_loop_stream [OF law aead]) auto
  then show ?thesis
    using spec assms(5) by (simp add: usmp_recv_def if_connected_def)
qed

section \<open>Rekeying over a stream\<close>

lemma core_rotate_stream:
  assumes law: "mbedtls_law M C" and up: "up (c_transport ctx)"
  shows "\<exists>ctx'. core_rotate P M rc ini salt ctx = (Ret (), ctx')
    \<and> arrives (rekey_info C ini salt (core_info ctx)) [] (pending (c_transport ctx)) ctx ctx'"
proof -
  obtain tx rx where k: "derive_rekey_keys C ini (c_tx_key ctx) (c_rx_key ctx) (c_session_id ctx) salt = (tx, rx)"
    by fastforce
  have "core_rekey_keys M ini (c_tx_key ctx) (c_rx_key ctx) (c_session_id ctx) salt = Some (tx, rx)"
    using law k by (auto simp: core_rekey_keys_def derive_rekey_keys_def mbedtls_law_def Let_def)
  then have "core_rotate P M rc ini salt ctx = (Ret (), install_core_keys P tx rx ctx)"
    by (simp add: core_rotate_def)
  moreover have "arrives (rekey_info C ini salt (core_info ctx)) [] (pending (c_transport ctx)) ctx
      (install_core_keys P tx rx ctx)"
    using up k keys
    by (auto simp: arrives_def install_core_keys_def rekey_info_def core_info_def Let_def split: option.splits)
  ultimately show ?thesis by blast
qed

lemma usmp_rekey_stream:
  assumes law: "mbedtls_law M C" and aead: "aead_law C" and ok: "core_ok ctx" and up: "up (c_transport ctx)"
    and est: "c_established ctx" and seq: "uint (c_tx_seq ctx) < 0xFFFFFFFF"
    and salt: "p_random P 32 (c_transport ctx) = (Ret salt, t1)"
  shows "\<exists>ct ctx'. seal C (core_info ctx) REKEY salt = Inr ct \<and> length salt = 32
    \<and> usmp_rekey P M ctx = (Ret (), ctx')
    \<and> arrives (rekey_info C True salt (core_info ctx)) (frame_bytes REKEY ct (uint (c_tx_seq ctx)))
        (pending (c_transport ctx)) ctx ctx'"
proof -
  let ?ctx1 = "ctx\<lparr>c_transport := t1\<rparr>"
  note t1 = random [OF up salt]
  have ok1: "core_ok ?ctx1" and info1: "core_info ?ctx1 = core_info ctx"
    using ok by (simp_all add: core_ok_def core_info_def)
  have "up (c_transport ?ctx1)" "uint (c_tx_seq ?ctx1) < 0xFFFFFFFF" "length salt \<le> 452"
    using t1 seq by simp_all
  from emit_frame_stream [OF law aead ok1 this, of REKEY, unfolded info1] obtain ct ctx2 where e: "seal C (core_info ctx) REKEY salt = Inr ct"
      "emit_frame P M USMP_TYPE_REKEY salt ?ctx1 = (Ret (), ctx2)"
      "arrives (advance_tx 1 (core_info ctx)) (frame_bytes REKEY ct (uint (c_tx_seq ctx))) (pending t1) ?ctx1 ctx2"
    by auto
  then have up2: "up (c_transport ctx2)" and info2: "core_info ctx2 = advance_tx 1 (core_info ctx)"
    by (simp_all add: arrives_def)
  obtain ctx3 where r: "core_rotate P M USMP_ERR_CRYPTO_FAILED True salt ctx2 = (Ret (), ctx3)"
      "arrives (rekey_info C True salt (core_info ctx2)) [] (pending (c_transport ctx2)) ctx2 ctx3"
    using core_rotate_stream [OF law up2] by blast
  have "usmp_rekey P M ctx = (Ret (), ctx3)"
    using est t1 e(2) r(1)
    by (simp add: usmp_rekey_def if_connected_def with_code_def catch_io_def bind_io_def usmp_port_random_def
        on_device_def salt)
  moreover have "rekey_info C True salt (core_info ctx2) = rekey_info C True salt (core_info ctx)"
    by (simp add: info2 rekey_info_def advance_tx_def split: prod.splits)
  ultimately show ?thesis
    using e r(2) t1 by (auto simp: arrives_def)
qed

text \<open>A rekeying frame of the peer, after which the loop looks for more input.\<close>

lemma core_recv_rekey_stream:
  assumes law: "mbedtls_law M C" and aead: "aead_law C" and ok: "core_ok ctx" and up: "up (c_transport ctx)"
    and pair: "paired a (core_info ctx)" and ct: "seal C a REKEY salt = Inr ct" and seq: "tx_seq a < 0xFFFFFFFF"
    and salt: "length salt = 32" and input: "pending (c_transport ctx) = frame_bytes REKEY ct (tx_seq a) @ rest"
    and l: "l_out l = []"
  shows "\<exists>ctx'. core_recv_step P M max_len l ctx = core_next P l ctx'
    \<and> arrives (rekey_info C False salt (advance_rx 1 (core_info ctx))) [] rest ctx ctx'"
proof -
  have room: "\<exists>m. core_dec_max P max_len l (word_of_int (packet_type_code REKEY)) ctx = (Ret (Some m), ctx)
      \<and> length salt \<le> m" for ctx
    using salt l by (simp add: core_dec_max_def)
  obtain pkt ctx1 where step: "core_recv_step P M max_len l ctx = core_dispatch P M pkt salt l ctx1"
    and pkt: "pkt_type pkt = word_of_int (packet_type_code REKEY)"
    and c1: "arrives (advance_rx 1 (core_info ctx)) [] rest ctx ctx1"
    using core_recv_step_stream [OF law aead ok up pair ct seq _ input room] salt by auto
  have "up (c_transport ctx1)" using c1 by (simp add: arrives_def)
  then obtain ctx2 where r: "core_rotate P M (-1) False salt ctx1 = (Ret (), ctx2)"
      "arrives (rekey_info C False salt (core_info ctx1)) [] (pending (c_transport ctx1)) ctx1 ctx2"
    using core_rotate_stream [OF law] by blast
  have "core_dispatch P M pkt salt l ctx1 = core_next P l ctx2"
    using pkt salt r(1) by (simp add: core_dispatch_def bind_io_def)
  with step c1 r(2) show ?thesis by (auto simp: arrives_def)
qed

end

end
