(* ===== verification/UdpSafety.thy ===== *)
theory UdpSafety
  imports Udp Delivery
begin

text \<open>
  What \<open>UDPStream\<close> guarantees: it satisfies the transport contract; its read buffer holds
  whole datagrams and stays below its cap, so one malformed datagram cannot desynchronise the
  framing; its retransmission timer stays in its bounds and writing always ends; and a
  session-phase write succeeds only on an authenticated acknowledgement.
\<close>

section \<open>The transport contract\<close>

lemma udp_total_cong [simp]:
  "udp_total (sendto d u) = udp_total u" "udp_total (u\<lparr>u_now := t\<rparr>) = udp_total u"
  "udp_total (wait_until t u) = udp_total u" "udp_total (udp_set_timeout tmo u) = udp_total u"
  "udp_total (update_rtt x u) = udp_total u"
  "udp_total (u\<lparr>u_pending_data := pd, u_pending_type := pt, u_pending_seq := ps, u_ack_received := b\<rparr>)
     = udp_total u"
  "udp_total (udp_set_session_keys k1 k2 u) = udp_total u"
  "udp_total (udp_confirm_authenticated n u) = udp_total u"
  "udp_total (udp_close u) = udp_total u"
  by (simp_all add: udp_total_def update_rtt_def Let_def udp_set_session_keys_def
      udp_confirm_authenticated_def)

interpretation budget: stream_invariant C "\<lambda>u. udp_total u \<le> k" for C k
  by unfold_locales (auto intro: order_trans [OF next_event_total])

interpretation udp_transport: transport "udp_ops C" udp_total for C
proof
  fix v and t :: udp_stream
  obtain out t' where rd: "udp_read_frame C v t = (out, t')" by fastforce
  note c = udp.read_frame_consumes [OF rd [unfolded udp_read_frame_def]]
  show "udp_total (snd (op_read_frame (udp_ops C) v t)) \<le> udp_total t"
    using c rd by simp
  show "fst (op_read_frame (udp_ops C) v t) \<notin> {Blocked, Raise IncompleteReadError} \<Longrightarrow>
       udp_total (snd (op_read_frame (udp_ops C) v t)) < udp_total t"
    using c rd by auto
next
  fix ty p s and t :: udp_stream
  obtain out t' where "udp_write_frame C ty p s t = (out, t')" by fastforce
  then show "udp_total (snd (op_write_frame (udp_ops C) ty p s t)) \<le> udp_total t"
    using budget.write_inv [of C ty p s t out t' "udp_total t"] by simp
qed simp_all

section \<open>The read buffer and the timer\<close>

definition buffer_ok :: "bytes \<Rightarrow> bool" where
  "buffer_ok buf \<longleftrightarrow> (\<exists>ds. buf = concat ds \<and> list_all framed ds) \<and> length buf \<le> 4096"

definition udp_ok :: "udp_stream \<Rightarrow> bool" where
  "udp_ok u \<longleftrightarrow> buffer_ok (u_read_buffer u)
     \<and> 0 \<le> u_srtt u \<and> 0 \<le> u_rttvar u \<and> 1 / 10 \<le> u_rto u \<and> u_rto u \<le> 5"

lemma buffer_ok_append: "buffer_ok buf \<Longrightarrow> framed d \<Longrightarrow> length (buf @ d) \<le> 4096 \<Longrightarrow> buffer_ok (buf @ d)"
  unfolding buffer_ok_def
proof (elim conjE exE, intro conjI)
  fix ds
  assume "framed d" "buf = concat ds" "list_all framed ds"
  then show "\<exists>ds'. buf @ d = concat ds' \<and> list_all framed ds'"
    by (intro exI [of _ "ds @ [d]"]) simp
qed simp

lemma buffer_ok_cases:
  assumes "buffer_ok buf"
  obtains "buf = []" | d rest where "buf = d @ rest" "framed d" "buffer_ok rest"
proof -
  obtain ds where ds: "buf = concat ds" "list_all framed ds" "length buf \<le> 4096"
    using assms by (auto simp: buffer_ok_def)
  show thesis
  proof (cases ds)
    case Nil
    with ds that(1) show ?thesis by simp
  next
    case (Cons d ds')
    with ds have "buffer_ok (concat ds')" by (auto simp: buffer_ok_def)
    with Cons ds that(2) [of d "concat ds'"] show ?thesis by simp
  qed
qed

lemma udp_ok_feed: "udp_ok u \<Longrightarrow> udp_ok (feed_packet C d u)"
  using feed_packet_buffer [of C d u] buffer_ok_append [of "u_read_buffer u" d]
  by (auto simp: udp_ok_def)

lemma udp_ok_next_event: "udp_ok u \<Longrightarrow> udp_ok (next_event C ev rest u)"
  using udp_ok_feed [of "u\<lparr>u_now := max (u_now u) (fst ev), u_incoming := rest\<rparr>" C]
  by (simp add: next_event_def net_event_def udp_ok_def split: net_event.split)

lemma udp_ok_rtt:
  assumes "udp_ok u" "0 \<le> sample"
  shows "udp_ok (update_rtt sample u)"
proof -
  have "0 \<le> u_srtt u + 1 / 8 * (sample - u_srtt u)"
    using assms by (simp add: udp_ok_def field_simps)
  moreover have "0 \<le> u_rttvar u + 1 / 4 * (\<bar>sample - u_srtt u\<bar> - u_rttvar u)"
    using assms by (simp add: udp_ok_def field_simps)
  ultimately show ?thesis
    using assms by (simp add: udp_ok_def update_rtt_def Let_def)
qed

interpretation stream_ok: stream_invariant C udp_ok for C
    by unfold_locales (simp_all add: udp_ok_next_event udp_ok_rtt, simp_all add: udp_ok_def)

text \<open>The bytes of the next whole datagram come out of the buffer together.\<close>

definition read_result :: "bool \<Rightarrow> bytes \<Rightarrow> (py_exc, usmp_frame) outcome" where
  "read_result v d = (case decode_frame v d of Inl e \<Rightarrow> Raise e | Inr f \<Rightarrow> Ret f)"

lemma read_frame_framed:
  assumes d: "framed d" and buf: "u_read_buffer u = d @ rest"
  shows "udp_read_frame C v u = (read_result v d, u\<lparr>u_read_buffer := rest\<rparr>)"
proof -
  let ?n = "nat (u16_at d 8)"
  have len: "length d = 12 + ?n" "u16_at (take 12 d) 0 = USMP_MAGIC" "u16_at (take 12 d) 8 = u16_at d 8"
    using d by (auto simp: framed_def u16_at_def slice_take)
  have h: "udp_readexactly C 12 u = (Ret (take 12 d), udp_advance 12 u)"
    using udp.exact_enough [of 12 u C] len(1) buf by simp
  have b: "udp_readexactly C ?n (udp_advance 12 u) = (Ret (drop 12 d), udp_advance (12 + ?n) u)"
    using udp.exact_enough [of ?n "udp_advance 12 u" C] len(1) buf
    by (simp add: udp.pending_advance udp.advance_advance)
  have e: "udp_advance (12 + ?n) u = u\<lparr>u_read_buffer := rest\<rparr>"
    using buf len(1) by (simp add: udp_advance_def)
  have "0 \<le> u16_at d 8" by (rule u16_at_bounds)
  then show ?thesis
    using d h b len e
    by (cases "u16_at d 8 = 0")
      (auto simp: udp_read_frame_def read_frame_def bind_io_def Let_def framed_def
        read_result_def lift_sum_def split: sum.splits)
qed

lemma read_wait_ready:
  assumes "udp_read_wait C 12 evs u = (out, u')" and "udp_ok u" and "u_read_buffer u \<noteq> []"
  shows "\<exists>d rest. framed d \<and> u_read_buffer u = d @ rest \<and> buffer_ok rest
    \<and> out = Ret (take 12 d) \<and> u' = udp_advance 12 u"
proof -
  obtain d rest where d: "u_read_buffer u = d @ rest" "framed d" "buffer_ok rest"
    using assms(2,3) buffer_ok_cases [of "u_read_buffer u"] by (auto simp: udp_ok_def)
  then have "12 \<le> length d" by (simp add: framed_def)
  with assms(1) d(1) have "out = Ret (take 12 d)" "u' = udp_advance 12 u"
    by (subst (asm) udp_read_wait.simps; simp add: udp_advance_def)+
  with d show ?thesis by blast
qed

lemma read_wait_header:
  assumes "udp_read_wait C 12 evs u = (out, u')" and "u_incoming u = evs" and "udp_ok u"
  shows "(out \<in> {Blocked, Raise IncompleteReadError} \<and> u_read_buffer u' = [] \<and> udp_ok u')
   \<or> (\<exists>d rest w. framed d \<and> u_read_buffer w = d @ rest \<and> udp_ok w \<and> buffer_ok rest
        \<and> out = Ret (take 12 d) \<and> u' = udp_advance 12 w)"
  using assms
proof (induction evs arbitrary: u)
  case Nil
  show ?case
  proof (cases "u_read_buffer u = []")
    case True
    with Nil stream_ok.expire_inv [OF Nil(3)] show ?thesis
      by (subst (asm) udp_read_wait.simps) (auto split: if_splits)
  qed (use read_wait_ready [OF Nil(1,3)] Nil(3) in blast)
next
  case (Cons ev rest)
  show ?case
  proof (cases "u_read_buffer u = []")
    case empty: True
    show ?thesis
    proof (cases "u_closed u \<or> \<not> in_time u (fst ev)")
      case True
      with empty Cons.prems stream_ok.expire_inv [OF Cons.prems(3)] show ?thesis
        by (subst (asm) udp_read_wait.simps) (auto split: if_splits)
    next
      case False
      with empty Cons.prems have "udp_read_wait C 12 rest (next_event C ev rest u) = (out, u')"
        by (subst (asm) udp_read_wait.simps) simp
      then show ?thesis using Cons.IH Cons.prems(3) udp_ok_next_event by simp
    qed
  qed (use read_wait_ready [OF Cons.prems(1,3)] Cons.prems(3) in blast)
qed

lemma read_frame_ok:
  assumes "udp_read_frame C v u = (out, u')" and "udp_ok u"
  shows "udp_ok u' \<and> (out \<in> {Blocked, Raise IncompleteReadError} \<and> u_read_buffer u' = []
     \<or> (\<exists>d. framed d \<and> out = read_result v d))"
proof -
  obtain o1 u1 where h: "udp_readexactly C 12 u = (o1, u1)" by fastforce
  from read_wait_header [OF this [unfolded udp_readexactly_def] refl assms(2)] show ?thesis
  proof
    assume "o1 \<in> {Blocked, Raise IncompleteReadError} \<and> u_read_buffer u1 = [] \<and> udp_ok u1"
    then show ?thesis using assms(1) h by (auto simp: udp_read_frame_def read_frame_def bind_io_def)
  next
    assume "\<exists>d rest w. framed d \<and> u_read_buffer w = d @ rest \<and> udp_ok w \<and> buffer_ok rest
        \<and> o1 = Ret (take 12 d) \<and> u1 = udp_advance 12 w"
    then obtain d rest w where w: "framed d" "u_read_buffer w = d @ rest" "udp_ok w"
      "buffer_ok rest" "o1 = Ret (take 12 d)" "u1 = udp_advance 12 w" by blast
    have "udp_readexactly C 12 w = (o1, u1)"
      using udp.exact_enough [of 12 w C] w by (simp add: framed_def)
    with h have "udp_read_frame C v u = udp_read_frame C v w"
      by (simp add: udp_read_frame_def read_frame_def bind_io_def)
    with assms(1) w read_frame_framed [OF w(1,2)]
    have "out = read_result v d" "u' = w\<lparr>u_read_buffer := rest\<rparr>" by simp_all
    then show ?thesis using w(1,3,4) by (auto simp: udp_ok_def)
  qed
qed

interpretation udp_ok: transport_invariant "udp_ops C" udp_ok for C
proof
  fix t :: udp_stream
  assume t: "udp_ok t"
  show "udp_ok (snd (op_read_frame (udp_ops C) v t))" for v
    using read_frame_ok [OF _ t] by (cases "udp_read_frame C v t") simp
  show "udp_ok (snd (op_write_frame (udp_ops C) ty p s t))" for ty p s
    using stream_ok.write_inv [OF _ t] by (cases "udp_write_frame C ty p s t") auto
qed (simp_all add: udp_ok_def udp_set_session_keys_def udp_confirm_authenticated_def)

lemma udp_ok_initial: "udp_ok (UDPStream addr srv now incoming)"
  by (simp add: udp_ok_def UDPStream_def buffer_ok_def) (rule exI [of _ "[]"], simp)

text \<open>
  Whatever the network delivers to a UDP stream, and whatever a session calls on it, the
  unauthenticated read buffer never exceeds 4096 bytes and consists of whole datagrams, each
  holding exactly one frame, and the retransmission timeout stays between 0.1 and 5 seconds.
\<close>

theorem udp_session_transport_ok:
  assumes "s_transport s = UDPStream addr srv now incoming"
  shows "udp_ok (s_transport (run_ops (udp_ops C) C cs s))"
proof -
  have "udp_ok (s_transport s)" using assms udp_ok_initial by simp
  then show ?thesis by (rule udp_ok.session.inv_run_ops)
qed

theorem udp_session_transport_ok_witness:
  "udp_ok (s_transport (run_ops (udp_ops demo_crypto) demo_crypto [Op_send [1], Op_recv 2 None]
     (demo_session (UDPStream (''h'', 1) True 0 [(1, Datagram [1, 2, 3]), (2, Lost)]))))"
  by (rule udp_session_transport_ok [of _ "(''h'', 1)" True 0]) (simp add: demo_session_def)

text \<open>
  Reading a frame from a UDP stream consumes exactly one whole datagram, whether it decodes
  or not: if the buffer starts with one it is used up at once and the result is the decoding
  of that datagram; otherwise the stream waits for one, is closed, or blocks with an empty
  buffer.  A malformed datagram therefore never shifts the framing of the next.
\<close>

theorem udp_reads_whole_datagrams:
  assumes "udp_ok u" and "udp_read_frame C v u = (out, u')"
  shows "udp_ok u'
    \<and> (out \<in> {Blocked, Raise IncompleteReadError} \<and> u_read_buffer u' = []
      \<or> (\<exists>d. framed d \<and> out = read_result v d
           \<and> (u_read_buffer u = [] \<or> u_read_buffer u = d @ u_read_buffer u')))"
proof (cases "u_read_buffer u = []")
  case False
  moreover have "buffer_ok (u_read_buffer u)" using assms(1) by (simp add: udp_ok_def)
  ultimately obtain d rest where "u_read_buffer u = d @ rest" "framed d"
    by (metis buffer_ok_cases)
  with assms(2) read_frame_framed [of d u rest C v] read_frame_ok [OF assms(2,1)]
  show ?thesis by auto
qed (use read_frame_ok [OF assms(2,1)] in blast)

theorem udp_reads_whole_datagrams_witness:
  "\<exists>out u'. udp_read_frame demo_crypto True (UDPStream (''h'', 1) True 0 [(1, Datagram [1, 2, 3])])
     = (out, u') \<and> udp_ok u' \<and>
       (out \<in> {Blocked, Raise IncompleteReadError} \<or> (\<exists>d. framed d \<and> out = read_result True d))"
proof -
  obtain out u' where rd: "udp_read_frame demo_crypto True
      (UDPStream (''h'', 1) True 0 [(1, Datagram [1, 2, 3])]) = (out, u')" by fastforce
  from udp_reads_whole_datagrams [OF udp_ok_initial rd] rd show ?thesis by auto
qed

section \<open>Acknowledgements\<close>

text \<open>The datagrams that complete a pending write.\<close>

definition acknowledges :: "crypto \<Rightarrow> udp_stream \<Rightarrow> bytes \<Rightarrow> bool" where
  "acknowledges C u d \<longleftrightarrow>
     is_utack d \<and> u_pending_type u = Some (u8_at d 2) \<and> u_pending_seq u = Some (u32_at d 3)
     \<and> (u8_at d 2 \<ge> 5 \<longrightarrow> utack_authentic C u d)"

definition same_peer :: "udp_stream \<Rightarrow> udp_stream \<Rightarrow> bool" where
  "same_peer u v \<longleftrightarrow> u_tx_key v = u_tx_key u \<and> u_pending_seq v = u_pending_seq u
     \<and> u_pending_type v = u_pending_type u"

lemma same_peer_acknowledges: "same_peer u v \<Longrightarrow> acknowledges C v d = acknowledges C u d"
  by (simp add: same_peer_def acknowledges_def utack_authentic_def)

lemma same_peer_next_event: "same_peer u (next_event C ev rest u)"
  by (simp add: same_peer_def next_event_def net_event_def split: net_event.split)

lemma same_peer_trans: "same_peer u v \<Longrightarrow> same_peer v w \<Longrightarrow> same_peer u w"
  by (simp add: same_peer_def)

lemma next_event_acked:
  "u_ack_received (next_event C ev rest u) \<Longrightarrow>
   u_ack_received u \<or> (\<exists>d. snd ev = Datagram d \<and> acknowledges C u d)"
  by (auto simp: next_event_def net_event_def feed_packet_acked acknowledges_def
      utack_authentic_def split: net_event.splits)

lemma await_ack_spec:
  "await_ack C deadline evs u = (out, u') \<Longrightarrow> u_incoming u = evs \<Longrightarrow>
   same_peer u u' \<and> set (u_incoming u') \<subseteq> set evs
   \<and> (out = Ret ()) = u_ack_received u'
   \<and> (out = Ret () \<longrightarrow> u_ack_received u \<or> (\<exists>t d. (t, Datagram d) \<in> set evs \<and> acknowledges C u d))"
proof (induction evs arbitrary: u)
  case Nil
  then show ?case
    by (subst (asm) await_ack.simps) (auto simp: same_peer_def split: if_splits dest!: ack_timeout_waits)
next
  case (Cons ev rest)
  show ?case
  proof (cases "\<not> u_ack_received u \<and> fst ev < deadline \<and> in_time u (fst ev)")
    case True
    let ?v = "next_event C ev rest u"
    from True Cons.prems have e: "await_ack C deadline rest ?v = (out, u')"
      by (subst (asm) await_ack.simps) simp
    have ev: "ev = (fst ev, snd ev)" by simp
    show ?thesis
      using Cons.IH [OF e next_event_incoming] same_peer_next_event [of u C ev rest] True
        next_event_acked [of C ev rest u] same_peer_acknowledges
      by (auto intro: same_peer_trans) (metis ev list.set_intros(1))+
  next
    case False
    with Cons.prems show ?thesis
      by (subst (asm) await_ack.simps) (auto simp: same_peer_def split: if_splits dest!: ack_timeout_waits)
  qed
qed

lemma arq_Ret:
  "arq C data base ks u = (Ret (), u') \<Longrightarrow> \<not> u_ack_received u \<Longrightarrow>
   \<exists>t d. (t, Datagram d) \<in> set (u_incoming u) \<and> acknowledges C u d"
proof (induction ks arbitrary: u)
  case Nil
  then show ?case by simp
next
  case (Cons k ks)
  obtain b u1 where aw: "await_ack C (u_now u + attempt_timeout base k) (u_incoming u) (sendto data u) = (b, u1)"
    by fastforce
  have sp: "same_peer u (sendto data u)" by (simp add: same_peer_def)
  note spec = await_ack_spec [OF aw]
  show ?case
  proof (cases "b = Ret ()")
    case True
    with spec Cons.prems(2) same_peer_acknowledges [OF sp] show ?thesis by auto
  next
    case False
    with aw Cons.prems(1) have "arq C data base ks u1 = (Ret (), u')"
      by (cases b) (simp_all add: Let_def)
    with Cons.IH [of u1] False spec same_peer_acknowledges [OF sp] same_peer_acknowledges
    show ?thesis by (simp add: subset_iff) blast
  qed
qed

lemma utack_split:
  assumes "is_utack d"
  shows "take 7 d = utack_header (u8_at d 2) (u32_at d 3)"
proof -
  have len: "7 \<le> length d" and m: "take 2 d = [0xAC, 0xAC]" using assms by (simp_all add: is_utack_def)
  have "take 7 d = slice 0 2 d @ slice 2 3 d @ slice 3 7 d"
    by (simp add: slice_adjacent slice_0 [symmetric])
  moreover have "slice 2 3 d = [word_of_int (u8_at d 2)]"
    using slice_single [of 2 d] len by (simp add: u8_at_def)
  moreover have "slice 3 7 d = le_bytes 4 (u32_at d 3)"
    using len by (simp add: u32_at_def le_bytes_le_int length_slice)
  ultimately show ?thesis using m by (simp add: utack_header_def slice_0)
qed

definition armed :: "packet_type \<Rightarrow> int \<Rightarrow> udp_stream \<Rightarrow> udp_stream" where
  "armed ty s u = u\<lparr>u_pending_type := Some (packet_type_code ty), u_pending_seq := Some s,
     u_pending_data := None, u_ack_received := False\<rparr>"

lemma armed_simps [simp]:
  "u_pending_type (armed ty s u) = Some (packet_type_code ty)" "u_pending_seq (armed ty s u) = Some s"
  "\<not> u_ack_received (armed ty s u)" "u_incoming (armed ty s u) = u_incoming u"
  "u_now (armed ty s u) = u_now u" "u_tx_key (armed ty s u) = u_tx_key u"
  "u_closed (armed ty s u) = u_closed u" "u_rto (armed ty s u) = u_rto u"
  "u_sent (armed ty s u) = u_sent u" "u_read_buffer (armed ty s u) = u_read_buffer u"
  "u_deadline (armed ty s u) = u_deadline u"
  by (simp_all add: armed_def)

lemma in_time_cong:
  "u_deadline v = u_deadline u \<Longrightarrow> u_now v = u_now u \<Longrightarrow> in_time v t = in_time u t"
  by (auto simp: in_time_def split: option.split)

lemma in_time_simps [simp]:
  "in_time (armed ty s u) t = in_time u t" "in_time (sendto d u) t = in_time u t"
  "in_time (u\<lparr>u_incoming := evs\<rparr>) t = in_time u t"
  by (rule in_time_cong; simp)+

lemma udp_write_frame_open:
  assumes "sendable p s" "\<not> u_closed u"
  shows "udp_write_frame C ty p s u = arq C (frame_bytes ty p s) (u_rto u) [0..<5] (armed ty s u)"
proof -
  note f = frame_bytes_fields [OF assms(1), of "frame_bytes ty p s" ty "[]", simplified]
  show ?thesis
    using assms f
    by (simp add: udp_write_frame_def write_frame_def bind_io_def encode_frame_sendable udp_write_def
        udp_drain_def Let_def armed_def del: upt_Suc)
qed

lemma udp_write_frame_fails:
  assumes "\<not> sendable p s \<or> u_closed u"
  shows "\<exists>e. udp_write_frame C ty p s u = (Raise e, u)"
proof (cases "encode_frame ty p s")
  case (Inr data)
  with assms have "u_closed u" by (simp add: encode_frame_Inr)
  with Inr show ?thesis by (simp add: udp_write_frame_def write_frame_def bind_io_def udp_write_def)
qed (simp add: udp_write_frame_def write_frame_def bind_io_def)

text \<open>
  C15: no delivery without proof: writing a session-phase frame (DATA, DATA_FRAG, PING, PONG,
  BYE, REKEY) returns only if the network delivered an acknowledgement whose header names
  the type and sequence number of this frame and whose eight further bytes are the MAC of
  that header under the sender's session key.
\<close>

theorem udp_write_authenticated:
  assumes "udp_write_frame C ty payload seq u = (Ret (), u')" and "packet_type_code ty \<ge> 5"
  shows "\<exists>k t d. u_tx_key u = Some k \<and> (t, Datagram d) \<in> set (u_incoming u)
    \<and> take 7 d = utack_header (packet_type_code ty) seq
    \<and> slice 7 15 d = utack_mac C k (utack_header (packet_type_code ty) seq)"
proof -
  have ok: "sendable payload seq" "\<not> u_closed u"
    using udp_write_frame_fails [of payload seq u C ty] assms(1) by auto
  with assms(1) udp_write_frame_open obtain t d where "(t, Datagram d) \<in> set (u_incoming u)"
    and "acknowledges C (armed ty seq u) d"
    using arq_Ret [of C _ _ _ "armed ty seq u" u'] by (metis armed_simps(3,4))
  with assms(2) utack_split [of d] show ?thesis
    by (auto simp: acknowledges_def utack_authentic_def split: option.splits) 
qed

section \<open>Writing ends\<close>

lemma attempt_timeout_bounds: "5 / 100 \<le> attempt_timeout base k" "attempt_timeout base k \<le> 5"
  by (simp_all add: attempt_timeout_def)

lemma await_ack_time:
  "await_ack C deadline evs u = (out, u') \<Longrightarrow> u_incoming u = evs \<Longrightarrow> u_now u \<le> deadline \<Longrightarrow>
   u_deadline u = None \<Longrightarrow>
   u_now u' \<le> deadline \<and> u_deadline u' = None
   \<and> (out = Ret () \<or> out = Raise PyTimeoutError \<and> u_now u' = deadline)"
proof (induction evs arbitrary: u)
  case Nil
  then show ?case
    by (subst (asm) await_ack.simps) (auto simp: ack_timeout_def in_time_def split: if_splits)
next
  case (Cons ev rest)
  show ?case
  proof (cases "\<not> u_ack_received u \<and> fst ev < deadline")
    case True
    with Cons.prems have e: "await_ack C deadline rest (next_event C ev rest u) = (out, u')"
      by (subst (asm) await_ack.simps) (simp add: in_time_def)
    from Cons.IH [OF e next_event_incoming] True Cons.prems(3,4) show ?thesis by simp
  next
    case False
    with Cons.prems show ?thesis
      by (subst (asm) await_ack.simps) (auto simp: ack_timeout_def in_time_def split: if_splits)
  qed
qed

text \<open>While it waits a stream sends acknowledgements only.\<close>

lemma build_utack_magic: "take 2 (build_utack C u ty s) = [0xAC, 0xAC]"
  by (simp add: build_utack_def utack_header_def Let_def split: option.split)

lemma build_utack_last_type [simp]: "build_utack C (u\<lparr>u_last_rx_type := t\<rparr>) = build_utack C u"
  by (rule ext)+ (simp add: build_utack_def)

lemma feed_packet_sent:
  "u_sent (feed_packet C d u)
   \<in> {u_sent u, u_sent u @ [build_utack C u (u8_at d 3) (u32_at d 4)]}"
  by (simp add: feed_defs)

lemma next_event_sent:
  assumes "take 2 data \<noteq> [0xAC, 0xAC]"
  shows "count_list (u_sent (next_event C ev rest u)) data = count_list (u_sent u) data"
proof (cases "snd ev")
  case (Datagram d)
  have "build_utack C v ty s \<noteq> data" for v ty s using assms build_utack_magic by metis
  with Datagram feed_packet_sent [of C d "u\<lparr>u_now := max (u_now u) (fst ev), u_incoming := rest\<rparr>"]
  show ?thesis by (auto simp: next_event_def net_event_def)
qed (simp add: next_event_def net_event_def)

lemma await_ack_sent:
  "await_ack C deadline evs u = (b, u') \<Longrightarrow> take 2 data \<noteq> [0xAC, 0xAC] \<Longrightarrow>
   count_list (u_sent u') data = count_list (u_sent u) data"
proof (induction evs arbitrary: u)
  case Nil
  then show ?case by (subst (asm) await_ack.simps) (auto split: if_splits dest!: ack_timeout_waits)
next
  case (Cons ev rest)
  then show ?case
    by (subst (asm) await_ack.simps) (auto simp: next_event_sent split: if_splits dest!: ack_timeout_waits)
qed

lemma arq_bounded:
  "arq C data base ks u = (out, u') \<Longrightarrow> take 2 data \<noteq> [0xAC, 0xAC] \<Longrightarrow> u_deadline u = None \<Longrightarrow>
   \<exists>n. n \<le> length ks \<and> (ks \<noteq> [] \<longrightarrow> 0 < n) \<and> out \<in> {Ret (), Raise OSError}
     \<and> (out = Raise OSError \<longrightarrow> n = length ks)
     \<and> count_list (u_sent u') data = count_list (u_sent u) data + n
     \<and> u_now u' \<le> u_now u + sum_list (map (attempt_timeout base) (take n ks))
     \<and> (out = Raise OSError \<longrightarrow> u_now u' = u_now u + sum_list (map (attempt_timeout base) ks))"
proof (induction ks arbitrary: u)
  case Nil
  then show ?case by simp
next
  case (Cons k ks)
  let ?d = "u_now u + attempt_timeout base k"
  obtain b u1 where aw: "await_ack C ?d (u_incoming u) (sendto data u) = (b, u1)" by fastforce
  have cnt: "count_list (u_sent u1) data = Suc (count_list (u_sent u) data)"
    using await_ack_sent [OF aw Cons.prems(2)] by simp
  have now: "u_now u1 \<le> ?d \<and> u_deadline u1 = None
      \<and> (b = Ret () \<or> b = Raise PyTimeoutError \<and> u_now u1 = ?d)"
    by (rule await_ack_time [OF aw])
      (use attempt_timeout_bounds(1) [of base k] Cons.prems(3) in simp_all)
  show ?case
  proof (cases "b = Ret ()")
    case True
    with aw Cons.prems(1) have "out = Ret ()" "u' = u1 \<or> u' = update_rtt (u_now u1 - u_now u) u1"
      by (auto simp: Let_def split: if_splits)
    with cnt now True show ?thesis
      by (intro exI [of _ 1]) (auto simp: update_rtt_def Let_def)
  next
    case False
    with aw now Cons.prems(1) have "arq C data base ks u1 = (out, u')" by (auto simp: Let_def)
    moreover have "u_deadline u1 = None" using now by simp
    ultimately obtain n where n: "n \<le> length ks"
      "out \<in> {Ret (), Raise OSError}" "out = Raise OSError \<longrightarrow> n = length ks"
      "count_list (u_sent u') data = count_list (u_sent u1) data + n"
      "u_now u' \<le> u_now u1 + sum_list (map (attempt_timeout base) (take n ks))"
      "out = Raise OSError \<longrightarrow> u_now u' = u_now u1 + sum_list (map (attempt_timeout base) ks)"
      using Cons.IH [OF _ Cons.prems(2)] by blast
    with cnt now False show ?thesis by (intro exI [of _ "Suc n"]) auto
  qed
qed

lemma frame_bytes_not_utack: "take 2 (frame_bytes ty p s) \<noteq> [0xAC, 0xAC]"
  by (simp add: frame_bytes_def frame_body_def numeral_2_eq_2)

text \<open>
  C25: writing to an open UDP stream, with no timeout of the caller running, always ends: the frame
  is sent between one and five times, each wait lasts between 0.05 and 5 seconds, the write takes no longer than the timeouts of
  the attempts made, and it either returns or, after exactly five attempts and all five
  timeouts, raises \<open>OSError\<close>; it never blocks.
\<close>

theorem udp_write_bounded:
  assumes "sendable payload seq" and "\<not> u_closed u" and "u_deadline u = None"
    and "udp_write_frame C ty payload seq u = (out, u')"
  shows "\<exists>n. 1 \<le> n \<and> n \<le> 5 \<and> out \<in> {Ret (), Raise OSError} \<and> (out = Raise OSError \<longrightarrow> n = 5)
     \<and> count_list (u_sent u') (frame_bytes ty payload seq)
       = count_list (u_sent u) (frame_bytes ty payload seq) + n
     \<and> u_now u' \<le> u_now u + (\<Sum>k\<leftarrow>[0..<n]. attempt_timeout (u_rto u) k)
     \<and> (out = Raise OSError \<longrightarrow> u_now u' = u_now u + (\<Sum>k\<leftarrow>[0..<5]. attempt_timeout (u_rto u) k))
     \<and> (\<forall>k. 5 / 100 \<le> attempt_timeout (u_rto u) k \<and> attempt_timeout (u_rto u) k \<le> 5)"
proof -
  have "arq C (frame_bytes ty payload seq) (u_rto u) [0..<5] (armed ty seq u) = (out, u')"
    using assms by (simp add: udp_write_frame_open del: upt_Suc)
  from arq_bounded [OF this frame_bytes_not_utack] assms(3) obtain n where "n \<le> 5" "0 < n"
    and rest: "out \<in> {Ret (), Raise OSError}" "out = Raise OSError \<longrightarrow> n = 5"
     "count_list (u_sent u') (frame_bytes ty payload seq)
       = count_list (u_sent u) (frame_bytes ty payload seq) + n"
     "u_now u' \<le> u_now u + sum_list (map (attempt_timeout (u_rto u)) (take n [0..<5]))"
     "out = Raise OSError \<longrightarrow> u_now u' = u_now u + sum_list (map (attempt_timeout (u_rto u)) [0..<5])"
    by (auto simp del: upt_Suc)
  have "take n [0..<5] = [0..<n]" using \<open>n \<le> 5\<close> by (simp add: take_upt)
  with rest \<open>n \<le> 5\<close> \<open>0 < n\<close> attempt_timeout_bounds show ?thesis
    by (intro exI [of _ n]) (simp del: upt_Suc)
qed

theorem udp_write_bounded_witness:
  "fst (udp_write_frame demo_crypto PING [1] 0 (UDPStream (''h'', 1) True 0 [])) \<in> {Ret (), Raise OSError}"
proof -
  obtain out u' where wr: "udp_write_frame demo_crypto PING [1] 0 (UDPStream (''h'', 1) True 0 []) = (out, u')"
    by fastforce
  have "sendable [1] 0" "\<not> u_closed (UDPStream (''h'', 1) True 0 [])"
    "u_deadline (UDPStream (''h'', 1) True 0 []) = None"
    by (simp_all add: sendable_def UDPStream_def)
  from udp_write_bounded [OF this wr] wr show ?thesis by auto
qed

section \<open>Delivery\<close>

lemma frame_bytes_is_framed:
  assumes "sendable p s"
  shows "framed (frame_bytes ty p s)" "\<not> is_utack (frame_bytes ty p s)"
proof -
  note f = frame_bytes_fields [OF assms, of "frame_bytes ty p s" ty "[]", simplified]
  show "framed (frame_bytes ty p s)"
    using f assms by (simp add: framed_def sendable_def)
  show "\<not> is_utack (frame_bytes ty p s)"
    using frame_bytes_not_utack by (simp add: is_utack_def)
qed

definition session_phase :: "packet_type \<Rightarrow> bool" where
  "session_phase ty \<longleftrightarrow> ty \<notin> {HELLO, CHALLENGE, HELLO_ACK, SESSION_OK, HELLO_RETRY}"

lemma session_phase_code: "session_phase ty \<Longrightarrow> 5 \<le> packet_type_code ty \<and> packet_type_code ty \<noteq> 0x0A"
  by (cases ty) (auto simp: session_phase_def)

text \<open>What an open stream does with a session-phase frame: stale frames are only acknowledged.\<close>

lemma feed_session_frame:
  assumes "sendable p s" "session_phase ty" "\<not> u_closed r"
  shows "feed_packet C (frame_bytes ty p s) r =
    (if u_last_rx_seq r \<noteq> -1 \<and> s \<le> u_last_rx_seq r - 64
     then sendto (build_utack C r (packet_type_code ty) s) r
     else accept_datagram C (frame_bytes ty p s) (packet_type_code ty) s r)"
proof -
  note f = frame_bytes_fields [OF assms(1), of "frame_bytes ty p s" ty "[]", simplified]
  show ?thesis
    using f assms session_phase_code [OF assms(2)] frame_bytes_is_framed [OF assms(1), of ty]
    by (auto simp: feed_packet_def feed_frame_def framed_def)
qed

lemma utack_fields:
  assumes "0 \<le> ty" "ty < 256" "0 \<le> s" "s < 4294967296"
  shows "is_utack (utack_header ty s @ m)" "u8_at (utack_header ty s @ m) 2 = ty"
    "u32_at (utack_header ty s @ m) 3 = s" "take 7 (utack_header ty s @ m) = utack_header ty s"
    "length (utack_header ty s) = 7"
  using assms
  by (simp_all add: utack_header_def is_utack_def u8_at_def u32_at_def slice_def byte_roundtrip
      le_int_le_bytes)

text \<open>The receiver's acknowledgement is the one the sender waits for.\<close>

lemma build_utack_acknowledges:
  assumes "hmac_law C" "session_phase ty" "0 \<le> s" "s < 4294967296"
    and "u_rx_key r = Some k" "u_tx_key a = Some k"
  shows "acknowledges C (armed ty s a) (build_utack C r (packet_type_code ty) s)"
proof -
  let ?h = "utack_header (packet_type_code ty) s"
  have c: "0 \<le> packet_type_code ty" "packet_type_code ty < 256"
    using packet_type_code_bounds [of ty] by simp_all
  note f = utack_fields [OF c assms(3,4)]
  have mac: "length (utack_mac C k ?h) = 8" using assms(1) by (simp add: utack_mac_def hmac_law_def)
  have u: "build_utack C r (packet_type_code ty) s = ?h @ utack_mac C k ?h"
    using assms(5) session_phase_code [OF assms(2)] by (simp add: build_utack_def Let_def)
  have "slice 7 15 (?h @ utack_mac C k ?h) = utack_mac C k ?h"
    using mac f(5) by (simp add: slice_def)
  then show ?thesis
    using f mac assms(6) by (simp add: acknowledges_def u utack_authentic_def)
qed

lemma write_acked:
  assumes "sendable p s" "\<not> u_closed a" "u_incoming a = (t, Datagram d) # rest"
    and "t < u_now a + attempt_timeout (u_rto a) 0" "acknowledges C (armed ty s a) d" "in_time a t"
  shows "\<exists>a'. udp_write_frame C ty p s a = (Ret (), a') \<and> u_sent a' = u_sent a @ [frame_bytes ty p s]
    \<and> u_incoming a' = rest \<and> u_closed a' = u_closed a \<and> u_read_buffer a' = u_read_buffer a
    \<and> u_tx_key a' = u_tx_key a \<and> u_rx_key a' = u_rx_key a \<and> u_last_rx_seq a' = u_last_rx_seq a
    \<and> u_deadline a' = u_deadline a \<and> u_now a' = max (u_now a) t"
proof -
  let ?a = "sendto (frame_bytes ty p s) (armed ty s a)"
  let ?b = "next_event C (t, Datagram d) rest ?a"
  have "acknowledges C ?a d" using assms(5) by (simp add: acknowledges_def utack_authentic_def)
  then have acked: "u_ack_received ?b" and sent: "u_sent ?b = u_sent ?a" "u_read_buffer ?b = u_read_buffer ?a"
    using assms(2)
    by (auto simp: next_event_def net_event_def feed_packet_acked acknowledges_def
        utack_authentic_def feed_packet_def feed_utack_def Let_def)
  have kept: "u_incoming ?b = rest" "u_closed ?b = u_closed a" "u_tx_key ?b = u_tx_key a" "u_rx_key ?b = u_rx_key a"
    "u_last_rx_seq ?b = u_last_rx_seq a" "u_deadline ?b = u_deadline a" "u_now ?b = max (u_now a) t"
    by (simp_all add: next_event_def net_event_def armed_def)
  have "await_ack C (u_now a + attempt_timeout (u_rto a) 0) (u_incoming a) ?a = (Ret (), ?b)"
    using assms(3,4,6) acked by (simp add: await_ack.simps [of _ _ _ ?a] await_ack.simps [of _ _ _ ?b])
  then show ?thesis
    using assms(1,2) sent kept
    by (simp add: udp_write_frame_open upt_conv_Cons update_rtt_def Let_def del: upt_Suc)
qed

lemma read_arrival:
  assumes "sendable p s" and "session_phase ty"
    and "u_incoming b = (t0, Datagram (frame_bytes ty p s)) # rest"
    and "\<not> u_closed b" and "u_read_buffer b = []" and "u_last_rx_seq b < s + 64" and "in_time b t0"
  shows "udp_read_frame C v b = (Ret (sent_frame ty p s),
     b\<lparr>u_sent := u_sent b @ [build_utack C b (packet_type_code ty) s],
       u_now := max (u_now b) t0, u_incoming := rest\<rparr>)"
proof -
  let ?d = "frame_bytes ty p s"
  let ?ack = "build_utack C b (packet_type_code ty) s"
  let ?b1 = "b\<lparr>u_now := max (u_now b) t0, u_incoming := rest\<rparr>"
  let ?b2 = "(sendto ?ack ?b1)\<lparr>u_read_buffer := ?d\<rparr>"
  have bu: "build_utack C ?b1 (packet_type_code ty) s = ?ack" by (simp add: build_utack_def)
  have len: "length ?d \<le> 4096" using assms(1) by (simp add: sendable_def)
  have ev: "next_event C (t0, Datagram ?d) rest b = ?b2"
    using assms(1,2,4,5,6) bu len
    by (simp add: next_event_def net_event_def feed_session_frame accept_datagram_def)
  have "udp_readexactly C 12 b = udp_readexactly C 12 ?b2"
    using assms(3,4,5,7) ev
    by (simp add: udp_readexactly_def udp_read_wait.simps [of _ _ _ b])
  then have "udp_read_frame C v b = udp_read_frame C v ?b2"
    by (simp add: udp_read_frame_def read_frame_def bind_io_def)
  also have "\<dots> = (Ret (sent_frame ty p s), ?b2\<lparr>u_read_buffer := []\<rparr>)"
    using read_frame_framed [OF frame_bytes_is_framed(1) [OF assms(1)], of ?b2 ty "[]" C v]
      decode_frame_bytes [OF assms(1)] by (simp add: read_result_def)
  finally show ?thesis using assms(5) by (simp add: sendto_def)
qed

text \<open>
  A frame exchange over UDP: when a session-phase datagram reaches an open stream with an
  empty buffer whose receive key is the sender's send key, and it is not older than the 64
  latest frames, the receiver reads exactly the frame sent and answers with one
  acknowledgement; and when that acknowledgement reaches the sender before its first
  timeout, its write returns after a single transmission; both before any timeout of their
  callers passes.
\<close>

theorem udp_frame_exchange:
  assumes "hmac_law C" and "sendable payload seq" and "session_phase ty"
    and "u_incoming b = (t0, Datagram (frame_bytes ty payload seq)) # rest"
    and "\<not> u_closed b" and "u_read_buffer b = []" and "u_last_rx_seq b < seq + 64"
    and "u_tx_key a = Some k" and "u_rx_key b = Some k" and "\<not> u_closed a"
    and "t < u_now a + attempt_timeout (u_rto a) 0" and "in_time b t0" and "in_time a t"
  shows "\<exists>ack b' a'. udp_read_frame C v b = (Ret (sent_frame ty payload seq), b')
    \<and> u_sent b' = u_sent b @ [ack] \<and> u_read_buffer b' = []
    \<and> udp_write_frame C ty payload seq (a\<lparr>u_incoming := (t, Datagram ack) # evs\<rparr>) = (Ret (), a')
    \<and> u_sent a' = u_sent a @ [frame_bytes ty payload seq]"
proof -
  let ?ack = "build_utack C b (packet_type_code ty) seq"
  have "acknowledges C (armed ty seq (a\<lparr>u_incoming := (t, Datagram ?ack) # evs\<rparr>)) ?ack"
    using assms by (intro build_utack_acknowledges) (simp_all add: sendable_def)
  then have "\<exists>a'. udp_write_frame C ty payload seq (a\<lparr>u_incoming := (t, Datagram ?ack) # evs\<rparr>) = (Ret (), a')
            \<and> u_sent a' = u_sent a @ [frame_bytes ty payload seq]"
    using write_acked [OF assms(2), of "a\<lparr>u_incoming := (t, Datagram ?ack) # evs\<rparr>" t ?ack evs C ty]
      assms(10,11,13) by auto
  moreover note read_arrival [OF assms(2-7,12), of C v]
  ultimately show ?thesis using assms(6) by (intro exI [of _ ?ack]) auto
qed

definition demo_udp :: "bytes \<Rightarrow> bytes \<Rightarrow> (rat \<times> net_event) list \<Rightarrow> udp_stream" where
  "demo_udp tx rx incoming = udp_set_session_keys tx rx (UDPStream (''h'', 1) True 0 incoming)"

lemma demo_udp_simps [simp]:
  "u_tx_key (demo_udp tx rx evs) = Some tx" "u_rx_key (demo_udp tx rx evs) = Some rx"
  "u_incoming (demo_udp tx rx evs) = evs" "\<not> u_closed (demo_udp tx rx evs)"
  "u_read_buffer (demo_udp tx rx evs) = []" "u_last_rx_seq (demo_udp tx rx evs) = -1"
  "u_now (demo_udp tx rx evs) = 0" "u_rto (demo_udp tx rx evs) = 5 / 10"
  "u_sent (demo_udp tx rx evs) = []" "u_deadline (demo_udp tx rx evs) = None"
  "(demo_udp tx rx evs)\<lparr>u_incoming := evs'\<rparr> = demo_udp tx rx evs'"
  by (simp_all add: demo_udp_def udp_set_session_keys_def UDPStream_def)

theorem udp_frame_exchange_witness:
  "\<exists>ack b' a'. udp_read_frame demo_crypto True (demo_udp [2] [1] [(0, Datagram (frame_bytes PING [9] 7))])
      = (Ret (sent_frame PING [9] 7), b')
    \<and> udp_write_frame demo_crypto PING [9] 7 (demo_udp [1] [2] [(1 / 10, Datagram ack)]) = (Ret (), a')"
  using udp_frame_exchange [of demo_crypto "[9]" 7 PING "demo_udp [2] [1] [(0, Datagram (frame_bytes PING [9] 7))]"
      0 "[]" "demo_udp [1] [2] []" "[1]" "1 / 10" True "[]"]
  by (auto simp: sendable_def session_phase_def attempt_timeout_def in_time_def)

theorem udp_write_authenticated_witness:
  "\<exists>u' d. udp_write_frame demo_crypto PING [9] 7 (demo_udp [1] [2] [(1 / 10, Datagram d)]) = (Ret (), u')
     \<and> slice 7 15 d = utack_mac demo_crypto [1] (utack_header 6 7)"
proof -
  let ?ack = "build_utack demo_crypto (demo_udp [2] [1] []) (packet_type_code PING) 7"
  have "acknowledges demo_crypto (armed PING 7 (demo_udp [1] [2] [(1 / 10, Datagram ?ack)])) ?ack"
    by (rule build_utack_acknowledges) (simp_all add: session_phase_def)
  then obtain u' where wr: "udp_write_frame demo_crypto PING [9] 7
      (demo_udp [1] [2] [(1 / 10, Datagram ?ack)]) = (Ret (), u')"
    using write_acked [of "[9]" 7 "demo_udp [1] [2] [(1 / 10, Datagram ?ack)]" "1 / 10" ?ack "[]" demo_crypto PING]
    by (auto simp: sendable_def attempt_timeout_def in_time_def)
  from udp_write_authenticated [OF wr] wr show ?thesis by auto
qed

section \<open>Messages over UDP\<close>

lemma replay_drop_update: "replay_drop (window_update n info) n"
  by (auto simp: replay_drop_bit window_update_def Let_def bit_simps bit_1_iff)

lemma udp_message_received:
  assumes "aead_law C" and "length data \<le> 452"
    and "seal C a DATA data = Inr ct" and "0 \<le> tx_seq a" and "tx_seq a < 0xFFFFFFFF"
    and "rx_key (s_info b) = tx_key a" and "session_id (s_info b) = session_id a"
    and "cipher_suite (s_info b) = cipher_suite a" and "8 \<le> length (session_id a)"
    and "\<not> replay_drop (s_info b) (tx_seq a)"
    and "u_incoming (s_transport b) = (t, Datagram (frame_bytes DATA ct (tx_seq a))) # rest"
    and "\<not> u_closed (s_transport b)" and "u_read_buffer (s_transport b) = []"
    and "u_last_rx_seq (s_transport b) < tx_seq a + 64" and "0 < fuel"
    and "in_time (s_transport b) t"
  shows "\<exists>b'. recv_internal (udp_ops C) C fuel b = (Ret (Some data), b')
     \<and> s_info b' = window_update (tx_seq a) (s_info b)
     \<and> s_transport b' = udp_confirm_authenticated (tx_seq a) ((s_transport b)\<lparr>
           u_sent := u_sent (s_transport b) @ [build_utack C (s_transport b) (packet_type_code DATA) (tx_seq a)],
           u_now := max (u_now (s_transport b)) t, u_incoming := rest\<rparr>)"
proof -
  let ?f = "sent_frame DATA ct (tx_seq a)"
  have "length ct = length data + 28" by (rule seal_length [OF assms(1,9,3)])
  then have ok: "sendable ct (tx_seq a)" using assms by (simp add: sendable_def)
  obtain t1 where t1: "t1 = (s_transport b)\<lparr>
      u_sent := u_sent (s_transport b) @ [build_utack C (s_transport b) (packet_type_code DATA) (tx_seq a)],
      u_now := max (u_now (s_transport b)) t, u_incoming := rest\<rparr>" by blast
  have rd: "udp_read_frame C True (s_transport b) = (Ret ?f, t1)"
    using read_arrival [OF ok _ assms(11-14,16), of C True] by (simp add: session_phase_def t1)
  have "open_frame C ((s_info b)\<lparr>rx_seq := tx_seq a\<rparr>) ?f = Inr data"
    using assms by (intro open_seal [OF assms(1) _ assms(3)]) (simp add: paired_def)
  then have op: "open_frame C (s_info b) ?f = Inr data"
    by (simp add: open_frame_def session_nonce_def)
  let ?b1 = "b\<lparr>s_transport := t1, s_last_recv := u_now t1\<rparr>"
  have rv: "read_verified (udp_ops C) C b = (Ret (Some (?f, data)), ?b1)"
    using rd op assms(10)
    by (simp add: read_verified_defs bind_io_def catch_io_def on_transport_def monotonic_def)
  let ?b' = "update_info (window_update (tx_seq a)) (?b1\<lparr>s_transport :=
      udp_confirm_authenticated (tx_seq a) t1\<rparr>)"
  have "recv_step (udp_ops C) C (recv_start now) b = (Ret (Done data), ?b')" for now
    using rv assms(5)
    by (simp add: recv_step_def bind_io_def accept_seq_def guarded_dispatch_def catch_io_def
        dispatch_frame_def handle_data_def recv_start_def Let_def update_info_def throw_if_def)
  moreover obtain n where "fuel = Suc n" using assms(15) by (cases fuel) auto
  ultimately have "recv_internal (udp_ops C) C fuel b = (Ret (Some data), ?b')"
    by (simp add: recv_internal_def bind_io_def on_transport_def monotonic_def)
  then show ?thesis by (intro exI [of _ ?b']) (simp add: update_info_def t1)
qed

text \<open>
  Message delivery over UDP: when the datagram of a message of at most 452 bytes, sealed by
  the peer with the keys of this session, reaches an open stream, and the window and the
  stream have not yet seen its sequence number, before the timeout of \<open>recv\<close> if it has one,
  \<open>recv\<close> returns exactly the message and from then on the window drops every replay of it.
\<close>

theorem udp_message_delivery:
  assumes "aead_law C" and "length data \<le> 452"
    and "seal C a DATA data = Inr ct" and "0 \<le> tx_seq a" and "tx_seq a < 0xFFFFFFFF"
    and "rx_key (s_info b) = tx_key a" and "session_id (s_info b) = session_id a"
    and "cipher_suite (s_info b) = cipher_suite a" and "8 \<le> length (session_id a)"
    and "\<not> replay_drop (s_info b) (tx_seq a)"
    and "u_incoming (s_transport b) = (t, Datagram (frame_bytes DATA ct (tx_seq a))) # rest"
    and "\<not> u_closed (s_transport b)" and "u_read_buffer (s_transport b) = []"
    and "u_last_rx_seq (s_transport b) < tx_seq a + 64" and "0 < fuel"
    and "\<forall>v. effective_timeout timeout b = Some v \<longrightarrow> 0 < v \<and> t < u_now (s_transport b) + v"
    and "u_deadline (s_transport b) = None"
  shows "\<exists>b'. recv (udp_ops C) C fuel timeout b = (Ret (Some data), b')
     \<and> replay_drop (s_info b') (tx_seq a) \<and> u_incoming (s_transport b') = rest"
proof (cases "effective_timeout timeout b")
  case None
  have "in_time (s_transport b) t" using assms(17) by (simp add: in_time_def)
  from udp_message_received [OF assms(1-15) this] None show ?thesis
    by (auto simp: recv_eq replay_drop_update udp_confirm_authenticated_def)
next
  case (Some v)
  let ?b = "session_timer (udp_ops C) (Some v) b"
  have time: "in_time (s_transport ?b) t"
    using assms(16) Some by (simp add: session_timer_def in_time_def udp_set_timeout_def)
  have "\<exists>b'. recv_internal (udp_ops C) C fuel ?b = (Ret (Some data), b')
      \<and> replay_drop (s_info b') (tx_seq a) \<and> u_incoming (s_transport b') = rest"
    using udp_message_received [OF assms(1-5), of ?b t rest fuel] time
    by (auto simp: session_timer_def assms replay_drop_update udp_confirm_authenticated_def)
  with Some assms(16) show ?thesis by (auto simp: recv_eq session_timer_def)
qed

theorem udp_message_delivery_witness:
  "\<exists>ct b'. seal demo_crypto demo_info DATA [1, 2] = Inr ct
     \<and> recv (udp_ops demo_crypto) demo_crypto 1 None
         ((demo_session (demo_udp [2] [1] [(0, Datagram (frame_bytes DATA ct 0))]))
            \<lparr>s_info := demo_peer_info\<rparr>) = (Ret (Some [1, 2]), b')"
proof -
  obtain ct where ct: "seal demo_crypto demo_info DATA [1, 2] = Inr ct"
    using seal_ok [of demo_info "[1, 2]" demo_crypto DATA] by (auto simp: demo_info_def)
  let ?b = "(demo_session (demo_udp [2] [1] [(0, Datagram (frame_bytes DATA ct 0))]))
            \<lparr>s_info := demo_peer_info\<rparr>"
  have "\<exists>b'. recv (udp_ops demo_crypto) demo_crypto 1 None ?b = (Ret (Some [1, 2]), b')
     \<and> replay_drop (s_info b') (tx_seq demo_info) \<and> u_incoming (s_transport b') = []"
    by (rule udp_message_delivery [OF _ _ ct, where t = 0])
      (simp_all add: demo_info_def demo_peer_info_def demo_session_def replay_drop_def effective_timeout_def)
  with ct show ?thesis by blast
qed

text \<open>
  C29: a confirmed delivery is no delivery.  A stream acknowledges a session frame before anything has
  checked its CRC or its tag: when a frame that the session cannot open reaches it with the type
  and the number of a frame that never arrived, the session skips it and stays as it was, but
  the stream answers with an acknowledgement under its own key, which ends the wait of the peer
  for the frame that is lost, as if it had been delivered.
\<close>

theorem forged_frame_confirms_delivery:
  assumes "hmac_law C" and "session_phase ty" and "sendable forged s" and "sendable lost s"
    and "open_frame C (s_info b) (sent_frame ty forged s) = Inl e"
    and "u_incoming (s_transport b) = (t0, Datagram (frame_bytes ty forged s)) # rest"
    and "\<not> u_closed (s_transport b)" and "u_read_buffer (s_transport b) = []"
    and "u_last_rx_seq (s_transport b) < s + 64" and "in_time (s_transport b) t0"
    and "u_rx_key (s_transport b) = Some k" and "u_tx_key a = Some k" and "\<not> u_closed a"
    and "t < u_now a + attempt_timeout (u_rto a) 0" and "in_time a t"
  shows "\<exists>ack t1 a'. recv_step (udp_ops C) C l b = (Ret (Next l), b\<lparr>s_transport := t1\<rparr>)
     \<and> u_sent t1 = u_sent (s_transport b) @ [ack]
     \<and> udp_write_frame C ty lost s (a\<lparr>u_incoming := (t, Datagram ack) # evs\<rparr>) = (Ret (), a')"
proof -
  let ?ack = "build_utack C (s_transport b) (packet_type_code ty) s"
  let ?t1 = "(s_transport b)\<lparr>u_sent := u_sent (s_transport b) @ [?ack],
       u_now := max (u_now (s_transport b)) t0, u_incoming := rest\<rparr>"
  have read: "op_read_frame (udp_ops C) True (s_transport b) = (Ret (sent_frame ty forged s), ?t1)"
    using read_arrival [OF assms(3,2,6-10), of C True] by simp
  have "recv_step (udp_ops C) C l b = (Ret (Next l), b\<lparr>s_transport := ?t1\<rparr>)"
    by (rule unauthentic_frame_skipped [OF _ read]) (use assms(5) in auto)
  moreover have "acknowledges C (armed ty s (a\<lparr>u_incoming := (t, Datagram ?ack) # evs\<rparr>)) ?ack"
    using assms(4) by (intro build_utack_acknowledges [OF assms(1,2) _ _ assms(11)]) (simp_all add: sendable_def assms(12))
  then obtain a' where "udp_write_frame C ty lost s (a\<lparr>u_incoming := (t, Datagram ?ack) # evs\<rparr>) = (Ret (), a')"
    using write_acked [OF assms(4), of "a\<lparr>u_incoming := (t, Datagram ?ack) # evs\<rparr>" t ?ack evs C ty] assms(13-15) by auto
  ultimately show ?thesis by (intro exI [of _ ?ack] exI [of _ ?t1] exI [of _ a']) simp
qed

text \<open>Three bytes cannot be a sealed message.\<close>

theorem forged_frame_confirms_delivery_witness:
  "\<exists>ack t1 a'. recv_step (udp_ops demo_crypto) demo_crypto (recv_start 0)
       (demo_session (demo_udp [2] [1] [(0, Datagram (frame_bytes DATA [6, 6, 6] 7))]))
       = (Ret (Next (recv_start 0)), (demo_session (demo_udp [2] [1] []))\<lparr>s_transport := t1\<rparr>)
     \<and> udp_write_frame demo_crypto DATA [1, 2, 3, 4] 7 (demo_udp [1] [2] [(1 / 10, Datagram ack)]) = (Ret (), a')"
proof -
  let ?b = "demo_session (demo_udp [2] [1] [(0, Datagram (frame_bytes DATA [6, 6, 6] 7))])"
  have "open_frame demo_crypto (s_info ?b) (sent_frame DATA [6, 6, 6] 7) = Inl CryptoError"
    by (simp add: open_frame_def session_nonce_def pack_I_ok decrypt_def)
  from forged_frame_confirms_delivery [OF _ _ _ _ this, of "[1, 2, 3, 4]" 0 "[]" "[1]" "demo_udp [1] [2] []" "1 / 10" "recv_start 0" "[]"]
  show ?thesis
    by (auto simp: sendable_def session_phase_def attempt_timeout_def in_time_def demo_session_def)
qed

section \<open>Rekeying over UDP\<close>

text \<open>
  C28: rekeying over UDP loses data silently.  The session starts a new epoch at sequence
  number 0, but the stream keeps the highest sequence number of the old epoch, so once that
  is 64 or more, every frame of the new epoch that lies 64 or more below it is acknowledged,
  with a MAC the sender accepts, and dropped before the session's window, which would have
  admitted it, is asked.
\<close>

theorem udp_rekey_black_hole:
  assumes "hmac_law C" and "sendable payload seq" and "session_phase ty"
    and "\<not> u_closed (s_transport s)" and "seq + 64 \<le> u_last_rx_seq (s_transport s)"
    and "rotate_keys (udp_ops C) C ini salt s = (out, s')"
    and "u_tx_key a = Some (rx_key (s_info s'))"
  shows "\<not> replay_drop (s_info s') seq
    \<and> (\<exists>ack. feed_packet C (frame_bytes ty payload seq) (s_transport s') = sendto ack (s_transport s')
         \<and> acknowledges C (armed ty seq a) ack)"
proof -
  have s': "s' = install_keys (udp_ops C) (update_info (rekey_info C ini salt) s)"
    using assms(6) by (simp add: rotate_keys_def)
  then have seqs: "rx_seq (s_info s') = 0" "rx_window_bitmap (s_info s') = 0"
    by (simp_all add: install_keys_def update_info_def rekey_info_def split: prod.splits)
  have t: "s_transport s' = udp_set_session_keys (tx_key (s_info s')) (rx_key (s_info s')) (s_transport s)"
    by (simp add: s' install_keys_def update_info_def)
  have "feed_packet C (frame_bytes ty payload seq) (s_transport s')
      = sendto (build_utack C (s_transport s') (packet_type_code ty) seq) (s_transport s')"
    using assms(2,4,5)
    by (simp add: feed_session_frame [OF assms(2,3)] t udp_set_session_keys_def sendable_def)
  moreover have "acknowledges C (armed ty seq a) (build_utack C (s_transport s') (packet_type_code ty) seq)"
    using assms(2,7)
    by (intro build_utack_acknowledges assms(1,3)) (auto simp: t udp_set_session_keys_def sendable_def)
  ultimately show ?thesis
    using seqs assms(2) by (auto simp: replay_drop_def sendable_def)
qed

theorem udp_rekey_black_hole_witness:
  "\<exists>out s' ack. rotate_keys (udp_ops demo_crypto) demo_crypto False (replicate 32 7)
       (demo_session (udp_confirm_authenticated 100 (demo_udp [1] [2] []))) = (out, s')
     \<and> feed_packet demo_crypto (frame_bytes DATA [1] 36) (s_transport s') = sendto ack (s_transport s')"
proof -
  let ?s = "demo_session (udp_confirm_authenticated 100 (demo_udp [1] [2] []))"
  obtain out s' where r: "rotate_keys (udp_ops demo_crypto) demo_crypto False (replicate 32 7) ?s = (out, s')"
    by fastforce
  have "\<exists>ack. feed_packet demo_crypto (frame_bytes DATA [1] 36) (s_transport s') = sendto ack (s_transport s')"
    using udp_rekey_black_hole [OF _ _ _ _ _ r, of "[1]" 36 DATA "demo_udp (rx_key (s_info s')) [] []"]
    by (auto simp: sendable_def session_phase_def demo_session_def udp_confirm_authenticated_def)
  with r show ?thesis by blast
qed

section \<open>The receive loop ends, in time\<close>

text \<open>While a timeout runs, no waiting goes past its deadline.\<close>

definition timely :: "rat \<Rightarrow> udp_stream \<Rightarrow> bool" where
  "timely d u \<longleftrightarrow> u_deadline u = Some d \<and> u_now u \<le> d"

lemma timely_event: "timely d u \<Longrightarrow> in_time u (fst ev) \<Longrightarrow> timely d (next_event C ev rest u)"
  by (simp add: timely_def in_time_def)

interpretation timely_stream: stream_invariant C "timely d" for C d
  by unfold_locales (auto simp: timely_event, auto simp: timely_def in_time_def update_rtt_def Let_def)

lemma timely_read:
  assumes "udp_read_frame C v u = (out, u')" and "timely d u"
  shows "timely d u'"
proof -
  have adv: "timely d (udp_advance n w) = timely d w" for n w by (simp add: timely_def udp_advance_def)
  have "preserves (timely d) (udp_readexactly C n)" for n
  proof (rule preservesI)
    fix w
    assume "timely d w"
    obtain o1 w1 where "udp_readexactly C n w = (o1, w1)" by fastforce
    with timely_stream.read_wait_inv [of C n "u_incoming w" w o1 w1 d] \<open>timely d w\<close> adv
    show "timely d (snd (udp_readexactly C n w))" by (auto simp: udp_readexactly_def)
  qed
  then have "preserves (timely d) (udp_read_frame C v)"
    by (auto simp: udp_read_frame_def read_frame_def Let_def intro!: preserve split: sum.splits)
  from preservesD [OF this assms(2,1)] show ?thesis .
qed

interpretation timely: transport_steps "udp_ops C" "timely d" for C d
proof
  fix t :: udp_stream
  assume t: "timely d t"
  show "timely d (snd (op_read_frame (udp_ops C) v t))" for v
    using timely_read [OF _ t] by (cases "udp_read_frame C v t") auto
  show "timely d (snd (op_write_frame (udp_ops C) ty p s t))" for ty p s
    using timely_stream.write_inv [OF _ t] by (cases "udp_write_frame C ty p s t") auto
qed (auto simp: timely_def udp_set_session_keys_def udp_confirm_authenticated_def)

text \<open>
  C27: \<open>recv\<close> over UDP always ends, and in time: whatever datagrams arrive (duplicates, replays,
  forgeries, pings that have to be answered), with more fuel than there are bytes in the
  buffer and in the datagrams to come, the loop does not spin, and with a timeout the call
  of \<open>recv\<close> returns or raises no later than the timeout allows.\<close>

theorem udp_recv_in_time:
  assumes "udp_total (s_transport s) < fuel" and "recv (udp_ops C) C fuel timeout s = (out, s')"
  shows "out \<noteq> Ret None \<and> (\<forall>v. effective_timeout timeout s = Some v \<longrightarrow>
     out \<noteq> Blocked \<and> u_now (s_transport s') \<le> u_now (s_transport s) + max 0 v)"
proof -
  have "out \<noteq> Ret None" using udp_transport.recv_enough_fuel [OF assms(1)] assms(2) by (metis fst_conv)
  moreover have "out \<noteq> Blocked \<and> u_now (s_transport s') \<le> u_now (s_transport s) + max 0 v"
    if v: "effective_timeout timeout s = Some v" for v
  proof (cases "0 < v")
    case True
    let ?s = "session_timer (udp_ops C) (Some v) s"
    let ?d = "u_now (s_transport s) + v"
    obtain o1 s1 where i: "recv_internal (udp_ops C) C fuel ?s = (o1, s1)" by fastforce
    have "timely ?d (s_transport ?s)"
      using True by (simp add: session_timer_def timely_def udp_set_timeout_def)
    from preservesD [OF timely.session.inv_recv_internal this i] have "timely ?d (s_transport s1)" .
    with assms(2) v True i show ?thesis
      by (auto simp: recv_eq session_timer_def timely_def split: outcome.splits)
  qed (use assms(2) v in \<open>auto simp: recv_eq\<close>)
  ultimately show ?thesis by blast
qed

theorem udp_recv_in_time_witness:
  "\<exists>out s'. recv (udp_ops demo_crypto) demo_crypto 9 (Some 2)
      (demo_session (demo_udp [1] [2] [(1, Datagram [1, 2, 3]), (7, Datagram [4])])) = (out, s')
     \<and> out \<notin> {Ret None, Blocked} \<and> u_now (s_transport s') \<le> 2"
proof -
  let ?s = "demo_session (demo_udp [1] [2] [(1, Datagram [1, 2, 3]), (7, Datagram [4])])"
  obtain out s' where r: "recv (udp_ops demo_crypto) demo_crypto 9 (Some 2) ?s = (out, s')" by fastforce
  have "udp_total (s_transport ?s) < 9" by (simp add: demo_session_def udp_total_def)
  from udp_recv_in_time [OF this r] r show ?thesis
    by (auto simp: effective_timeout_def demo_session_def)
qed

end
