(* ===== verification/CoreUdp.thy ===== *)
theory CoreUdp
  imports CoreRefine UdpSafety
begin

text \<open>
  \<open>usmp_transport_udp.c\<close> of the ESP32 port: the UDP transport of a device, a stop-and-wait ARQ on
  a datagram socket.  As in \<open>CoreTcp\<close> the state holds the fields of \<open>usmp_udp_ctx_t\<close> and what the
  socket will do: the datagrams and errors that arrive, each with the milliseconds that pass
  before it, and the results of the next calls of \<open>send\<close>.  Time passes while the code waits in
  \<open>select\<close>, in \<open>recv\<close>, whose timeout is ten milliseconds, or in \<open>usmp_port_delay_ms\<close>.
\<close>

section \<open>The socket\<close>

text \<open>
  \<open>Interrupted_call\<close> is \<open>EINTR\<close>, \<open>Refused\<close> one of the other errors that \<open>is_transient_error\<close> accepts and
  that the socket reports to \<open>recv\<close>, \<open>Broken\<close> any other error, which ends \<open>usmp_udp_recv\<close> with -1 whether
  \<open>select\<close> or \<open>recv\<close> reports it.
\<close>

datatype udp_event = Packet bytes | Interrupted_call | Refused | Broken

datatype send_result = Accepted_send | Transient_error | Fatal_error

record esp_udp =
  d_open :: bool
  d_rx_buf :: bytes
    \<comment> \<open>the \<open>rx_len\<close> first bytes of \<open>rx_buf\<close>\<close>
  d_last_rx_seq :: "32 word"
  d_last_rx_seq_set :: bool
  d_last_rx_type :: "8 word"
  d_tx_key :: bytes
  d_rx_key :: bytes
  d_keys_set :: bool
  d_events :: "(32 word \<times> udp_event) list"
  d_now :: "32 word"
  d_sent :: "bytes list"
  d_sends :: "send_result list"
    \<comment> \<open>the results of the next calls of \<open>send\<close>; then they succeed\<close>
  d_dials :: "(32 word \<times> udp_event) list option list"
  d_random :: "nat \<Rightarrow> byte"
  d_mac :: bytes
  d_stack :: bytes
    \<comment> \<open>what \<open>utack_mac\<close> finds in its buffer when the HMAC fails\<close>

text \<open>While the code does not wait for the socket, what arrives queues up in it.\<close>

fun elapse :: "32 word \<Rightarrow> (32 word \<times> udp_event) list \<Rightarrow> (32 word \<times> udp_event) list" where
  "elapse r [] = []"
| "elapse r ((d, ev) # evs) = (if r \<le> d then (d - r, ev) # evs else (0, ev) # elapse (r - d) evs)"

definition pass :: "32 word \<Rightarrow> esp_udp \<Rightarrow> esp_udp" where
  "pass r t = t\<lparr>d_now := d_now t + r, d_events := elapse r (d_events t)\<rparr>"

definition dgram_send :: "bytes \<Rightarrow> esp_udp \<Rightarrow> send_result \<times> esp_udp" where
  "dgram_send data t =
     (case d_sends t of
        [] \<Rightarrow> (Accepted_send, t\<lparr>d_sent := d_sent t @ [data]\<rparr>)
      | r # rs \<Rightarrow> (r, if r = Accepted_send then t\<lparr>d_sends := rs, d_sent := d_sent t @ [data]\<rparr> else t\<lparr>d_sends := rs\<rparr>))"

text \<open>The next event happens.\<close>

definition arrive :: "32 word \<Rightarrow> (32 word \<times> udp_event) list \<Rightarrow> esp_udp \<Rightarrow> esp_udp" where
  "arrive d evs t = t\<lparr>d_now := d_now t + d, d_events := evs\<rparr>"

section \<open>Acknowledgements\<close>

definition core_utack_mac :: "mbedtls \<Rightarrow> bytes \<Rightarrow> bytes \<Rightarrow> esp_udp \<Rightarrow> bytes" where
  "core_utack_mac M key header t =
     take 8 (case md_hmac M key header of None \<Rightarrow> d_stack t | Some full \<Rightarrow> full)"

definition usmp_udp_set_session_keys :: "bytes \<Rightarrow> bytes \<Rightarrow> esp_udp \<Rightarrow> esp_udp" where
  "usmp_udp_set_session_keys tx rx t = t\<lparr>d_tx_key := tx, d_rx_key := rx, d_keys_set := True\<rparr>"

definition udp_dial :: "(esp_udp, int, unit) io" where
  "udp_dial t =
     (case d_dials t of
        Some evs # ds \<Rightarrow> (Ret (), t\<lparr>d_open := True, d_events := evs, d_dials := ds\<rparr>)
      | None # ds \<Rightarrow> (Raise (-1), t\<lparr>d_dials := ds\<rparr>)
      | [] \<Rightarrow> (Raise (-1), t))"

definition core_is_utack :: "bytes \<Rightarrow> bool" where
  "core_is_utack temp \<longleftrightarrow> 7 \<le> length temp \<and> temp ! 0 = 0xAC \<and> temp ! 1 = 0xAC"

text \<open>Whether a UTACK ends the wait: the frame it names, and from type 5 on its MAC.\<close>

definition core_ack_accepted :: "mbedtls \<Rightarrow> 8 word \<Rightarrow> 32 word \<Rightarrow> bytes \<Rightarrow> esp_udp \<Rightarrow> bool" where
  "core_ack_accepted M type seq temp t \<longleftrightarrow>
     temp ! 2 = type \<and> get32 temp 3 = seq
     \<and> (type \<ge> 5 \<longrightarrow> d_keys_set t \<and> 15 \<le> length temp
          \<and> core_utack_mac M (d_tx_key t) (take 7 temp) t = slice 7 15 temp)"

section \<open>Sending\<close>

text \<open>The inner loop of the ARQ; the result tells whether the acknowledgement has come.\<close>

function core_await_ack :: "mbedtls \<Rightarrow> 8 word \<Rightarrow> 32 word \<Rightarrow> 32 word \<Rightarrow> (esp_udp, int, bool) io" where
  "core_await_ack M type seq start_ms t =
     (if \<not> d_now t - start_ms < 500 then (Ret False, t)
      else case d_events t of
        [] \<Rightarrow> core_await_ack M type seq start_ms (pass 5 (pass 10 t))
      | (d, ev) # evs \<Rightarrow>
          if d > 10 then core_await_ack M type seq start_ms (pass 5 (pass 10 t))
          else
            let t = arrive d evs t in
            (case ev of
               Interrupted_call \<Rightarrow> core_await_ack M type seq start_ms (pass 5 t)
             | Refused \<Rightarrow> core_await_ack M type seq start_ms (pass 5 t)
             | Broken \<Rightarrow> (Raise (-1), t)
             | Packet bs \<Rightarrow>
                 let temp = take 492 bs in
                 if core_is_utack temp then
                   (if core_ack_accepted M type seq temp t then (Ret True, t)
                    else core_await_ack M type seq start_ms t)
                 else if 12 \<le> length temp \<and> d_rx_buf t = [] then
                   core_await_ack M type seq start_ms (t\<lparr>d_rx_buf := temp\<rparr>)
                 else core_await_ack M type seq start_ms t))"
  by pat_completeness auto

lemma length_elapse [simp]: "length (elapse r evs) = length evs"
  by (induction r evs rule: elapse.induct) auto

lemma pass_simps [simp]:
  "d_now (pass r t) = d_now t + r" "length (d_events (pass r t)) = length (d_events t)"
  "d_open (pass r t) = d_open t" "d_rx_buf (pass r t) = d_rx_buf t" "d_sent (pass r t) = d_sent t"
  "d_sends (pass r t) = d_sends t" "d_keys_set (pass r t) = d_keys_set t" "d_tx_key (pass r t) = d_tx_key t"
  "d_rx_key (pass r t) = d_rx_key t" "d_last_rx_type (pass r t) = d_last_rx_type t" "d_mac (pass r t) = d_mac t"
  "d_random (pass r t) = d_random t" "d_stack (pass r t) = d_stack t"
  by (simp_all add: pass_def)

lemma arrive_simps [simp]:
  "d_now (arrive d evs t) = d_now t + d" "d_events (arrive d evs t) = evs"
  "d_open (arrive d evs t) = d_open t" "d_rx_buf (arrive d evs t) = d_rx_buf t" "d_sent (arrive d evs t) = d_sent t"
  "d_sends (arrive d evs t) = d_sends t" "d_keys_set (arrive d evs t) = d_keys_set t" "d_tx_key (arrive d evs t) = d_tx_key t"
  "d_rx_key (arrive d evs t) = d_rx_key t" "d_last_rx_type (arrive d evs t) = d_last_rx_type t" "d_mac (arrive d evs t) = d_mac t"
  "d_random (arrive d evs t) = d_random t" "d_stack (arrive d evs t) = d_stack t"
  by (simp_all add: arrive_def)

text \<open>Time as a natural number since \<open>start\<close>: it does not wrap around within the loops.\<close>

lemma since_add:
  "unat (now - start) + unat d < 4294967296 \<Longrightarrow> unat (now + d - start) = unat (now - start) + unat d"
  for now start d :: "32 word"
proof -
  assume "unat (now - start) + unat d < 4294967296"
  then have "unat ((now - start) + d) = unat (now - start) + unat d" by (simp add: unat_word_ariths(1))
  moreover have "(now - start) + d = now + d - start" by simp
  ultimately show ?thesis by metis
qed

lemma since_less: "now - start < 500 \<longleftrightarrow> unat (now - start) < 500" for now start :: "32 word"
  by (simp add: word_less_nat_alt)

lemma delayed: "unat d \<le> 10 \<Longrightarrow> unat (d + 5) = unat d + 5" "unat d \<le> 50 \<Longrightarrow> unat (d + 5) = unat d + 5" for d :: "32 word"
  by (simp_all add: unat_word_ariths(1))

termination core_await_ack
  by (relation "measure (\<lambda>(M, type, seq, start, t). length (d_events t) + (500 - unat (d_now t - start)))")
    (auto simp: since_less word_le_nat_alt word_less_nat_alt not_less since_add delayed add.assoc)

declare core_await_ack.simps [simp del]

text \<open>The attempts that are left, five at first; a send that fails for a passing reason is waited for all the same.\<close>

fun core_arq :: "mbedtls \<Rightarrow> 8 word \<Rightarrow> 32 word \<Rightarrow> bytes \<Rightarrow> nat \<Rightarrow> (esp_udp, int, unit) io" where
  "core_arq M type seq data 0 t = (Raise (-1), t)"
| "core_arq M type seq data (Suc attempts) t =
     (case dgram_send data t of
        (Fatal_error, t1) \<Rightarrow> (Raise (-1), t1)
      | (_, t1) \<Rightarrow>
          (case core_await_ack M type seq (d_now t1) t1 of
             (Ret True, t2) \<Rightarrow> (Ret (), t2)
           | (Ret False, t2) \<Rightarrow> core_arq M type seq data attempts t2
           | (Raise e, t2) \<Rightarrow> (Raise e, t2)
           | (Blocked, t2) \<Rightarrow> (Blocked, t2)))"

definition usmp_udp_send :: "mbedtls \<Rightarrow> bytes \<Rightarrow> (esp_udp, int, unit) io" where
  "usmp_udp_send M data t =
     (if \<not> d_open t then (Raise (-1), t)
      else if \<not> 8 \<le> length data then
        (case dgram_send data t of (r, t1) \<Rightarrow> (if r = Accepted_send then Ret () else Raise (-1), t1))
      else core_arq M (data ! 3) (get32 data 4) data 5 t)"

section \<open>Receiving\<close>

definition core_utack :: "mbedtls \<Rightarrow> 8 word \<Rightarrow> 32 word \<Rightarrow> esp_udp \<Rightarrow> bytes" where
  "core_utack M type seq t =
     (let header = [0xAC, 0xAC, type, ucast (seq AND 0xFF), ucast (drop_bit 8 seq AND 0xFF),
            ucast (drop_bit 16 seq AND 0xFF), ucast (drop_bit 24 seq AND 0xFF)]
      in if type \<ge> 5 \<and> d_keys_set t then header @ core_utack_mac M (d_rx_key t) header t else header)"

definition core_duplicate :: "8 word \<Rightarrow> 8 word \<Rightarrow> bool" where
  "core_duplicate last_type type \<longleftrightarrow>
     type = last_type \<or> type = 0x0A \<and> last_type > 0 \<or> type = 2 \<and> last_type = 4"

text \<open>What the loop does with a datagram: \<open>None\<close> is \<open>continue\<close>.\<close>

definition core_take_datagram :: "mbedtls \<Rightarrow> nat \<Rightarrow> bytes \<Rightarrow> (esp_udp, int, bytes option) io" where
  "core_take_datagram M max_len temp t =
     (if length temp < 12 then (Ret None, t)
      else if temp ! 0 = 0xAC \<and> temp ! 1 = 0xAC then (Ret None, t)
      else if get16 temp 0 \<noteq> 0xABCD then (Ret None, t)
      else
        let type = temp ! 3; seq = get32 temp 4 in
          if length temp > max_len then (Raise (-1), t)
          else
            let t = snd (dgram_send (core_utack M type seq t) t) in
              if type < 5 \<or> type = 0x0A then
                (if core_duplicate (d_last_rx_type t) type then (Ret None, t)
                 else (Ret (Some temp), t\<lparr>d_last_rx_type := type\<rparr>))
              else (Ret (Some temp), t))"

lemma core_take_datagram_events:
  "core_take_datagram M max_len temp t = (r, t') \<Longrightarrow>
     d_events t' = d_events t \<and> d_rx_buf t' = d_rx_buf t \<and> d_now t' = d_now t \<and> d_keys_set t' = d_keys_set t"
  by (auto simp: core_take_datagram_def dgram_send_def Let_def split: if_splits list.splits)

text \<open>\<open>ret []\<close> is the result 0: nothing has arrived within 50 milliseconds.\<close>

function core_recv_datagram :: "mbedtls \<Rightarrow> nat \<Rightarrow> 32 word \<Rightarrow> (esp_udp, int, bytes) io" where
  "core_recv_datagram M max_len start_ms t =
     (if d_rx_buf t \<noteq> [] then
        (case core_take_datagram M max_len (d_rx_buf t) (t\<lparr>d_rx_buf := []\<rparr>) of
           (Ret None, t1) \<Rightarrow> core_recv_datagram M max_len start_ms t1
         | (Ret (Some temp), t1) \<Rightarrow> (Ret temp, t1)
         | (Raise e, t1) \<Rightarrow> (Raise e, t1)
         | (Blocked, t1) \<Rightarrow> (Blocked, t1))
      else
        let bounded = d_keys_set t; elapsed = d_now t - start_ms in
          if bounded \<and> elapsed \<ge> 50 then (Ret [], t)
          else case d_events t of
            [] \<Rightarrow> if bounded then (Ret [], pass (50 - elapsed) t) else (Blocked, t)
          | (d, ev) # evs \<Rightarrow>
              if bounded \<and> d > 50 - elapsed then (Ret [], pass (50 - elapsed) t)
              else
                let t = arrive d evs t in
                (case ev of
                   Interrupted_call \<Rightarrow> core_recv_datagram M max_len start_ms t
                 | Refused \<Rightarrow> core_recv_datagram M max_len start_ms (pass 5 t)
                 | Broken \<Rightarrow> (Raise (-1), t)
                 | Packet bs \<Rightarrow>
                     (case core_take_datagram M max_len (take 492 bs) t of
                        (Ret None, t1) \<Rightarrow> core_recv_datagram M max_len start_ms t1
                      | (Ret (Some temp), t1) \<Rightarrow> (Ret temp, t1)
                      | (Raise e, t1) \<Rightarrow> (Raise e, t1)
                      | (Blocked, t1) \<Rightarrow> (Blocked, t1))))"
  by pat_completeness auto
termination
  by (relation "measure (\<lambda>(M, max_len, start, t). length (d_events t) + (if d_rx_buf t = [] then 0 else 1))")
    (auto dest!: core_take_datagram_events [OF sym])

declare core_recv_datagram.simps [simp del]

definition usmp_udp_recv :: "mbedtls \<Rightarrow> nat \<Rightarrow> (esp_udp, int, bytes) io" where
  "usmp_udp_recv M max_len t =
     (if \<not> d_open t then (Raise (-1), t) else core_recv_datagram M max_len (d_now t) t)"

section \<open>The other hooks\<close>

definition usmp_udp_close :: "esp_udp \<Rightarrow> esp_udp" where
  "usmp_udp_close t = t\<lparr>d_open := False\<rparr>"

definition usmp_udp_reconnect :: "(esp_udp, int, unit) io" where
  "usmp_udp_reconnect =
     bind_io (modify usmp_udp_close) (\<lambda>_.
     bind_io (modify (\<lambda>t. t\<lparr>d_rx_buf := [], d_last_rx_seq_set := False, d_last_rx_type := 0, d_keys_set := False\<rparr>)) (\<lambda>_.
     udp_dial))"

definition usmp_udp_available :: "esp_udp \<Rightarrow> int \<times> esp_udp" where
  "usmp_udp_available t =
     (if \<not> d_open t then (0, t)
      else if d_rx_buf t \<noteq> [] then (1, t)
      else case d_events t of
        (d, ev) # evs \<Rightarrow>
          if d > 0 then (0, t)
          else if ev = Interrupted_call then (0, t\<lparr>d_events := evs\<rparr>)
          else (1, t)
      | [] \<Rightarrow> (0, t))"

definition usmp_udp_confirm_authenticated :: "32 word \<Rightarrow> esp_udp \<Rightarrow> esp_udp" where
  "usmp_udp_confirm_authenticated seq t = t\<lparr>d_last_rx_seq := seq, d_last_rx_seq_set := True\<rparr>"

definition udp_random :: "nat \<Rightarrow> (esp_udp, int, bytes) io" where
  "udp_random n t =
     (Ret (map (d_random t) [0..<n]), t\<lparr>d_random := (\<lambda>i. d_random t (i + n))\<rparr>)"

definition usmp_transport_udp :: "mbedtls \<Rightarrow> esp_udp platform" where
  "usmp_transport_udp M =
     \<lparr>t_send = usmp_udp_send M, t_recv = usmp_udp_recv M, t_close = Some usmp_udp_close,
      t_reconnect = Some usmp_udp_reconnect, t_available = Some usmp_udp_available,
      t_confirm_authenticated = Some usmp_udp_confirm_authenticated,
      t_set_session_keys = Some usmp_udp_set_session_keys,
      p_millis = (\<lambda>t. (d_now t, t)), p_random = udp_random,
      p_device_id = (\<lambda>t. (Ret (d_mac t), t)), p_malloc = True, p_private_key = (\<lambda>pers. udp_random 32)\<rparr>"

section \<open>The wait for an acknowledgement\<close>

definition arrivals :: "esp_udp \<Rightarrow> bytes set" where
  "arrivals t = {bs. Packet bs \<in> snd ` set (d_events t)}"

text \<open>What sending keeps, and what a wait keeps.\<close>

definition socket_kept :: "esp_udp \<Rightarrow> esp_udp \<Rightarrow> bool" where
  "socket_kept t t' \<longleftrightarrow>
     d_open t' = d_open t \<and> d_keys_set t' = d_keys_set t \<and> d_tx_key t' = d_tx_key t \<and> d_rx_key t' = d_rx_key t
     \<and> d_last_rx_type t' = d_last_rx_type t \<and> d_mac t' = d_mac t \<and> d_random t' = d_random t
     \<and> d_stack t' = d_stack t \<and> arrivals t' \<subseteq> arrivals t"

definition waited :: "esp_udp \<Rightarrow> esp_udp \<Rightarrow> bool" where
  "waited t t' \<longleftrightarrow> socket_kept t t' \<and> d_sent t' = d_sent t \<and> d_sends t' = d_sends t"

lemma kept_refl [simp]: "socket_kept t t"
  by (simp add: socket_kept_def)

lemma kept_trans: "socket_kept t t' \<Longrightarrow> socket_kept t' t'' \<Longrightarrow> socket_kept t t''"
  by (auto simp: socket_kept_def)

lemma waited_refl [simp]: "waited t t"
  by (simp add: waited_def)

lemma waited_trans: "waited t t' \<Longrightarrow> waited t' t'' \<Longrightarrow> waited t t''"
  using kept_trans by (simp add: waited_def) blast

lemma elapse_events: "snd ` set (elapse r evs) = snd ` set evs"
  by (induction r evs rule: elapse.induct) auto

lemma waited_step [simp]:
  "waited t (pass r t)" "waited t (t\<lparr>d_rx_buf := b\<rparr>)" "d_events t = e # evs \<Longrightarrow> waited t (arrive d evs t)"
  by (auto simp: waited_def socket_kept_def arrivals_def pass_def arrive_def elapse_events)

lemma kept_accepts: "socket_kept t t' \<Longrightarrow> core_ack_accepted M type seq temp t' = core_ack_accepted M type seq temp t"
  unfolding socket_kept_def core_ack_accepted_def core_utack_mac_def by (elim conjE) (simp only:)

lemma waited_accepts: "waited t t' \<Longrightarrow> core_ack_accepted M type seq temp t' = core_ack_accepted M type seq temp t"
  using kept_accepts by (simp add: waited_def)

lemma waited_arrivals: "waited t t' \<Longrightarrow> bs \<in> arrivals t' \<Longrightarrow> bs \<in> arrivals t"
  by (auto simp: waited_def socket_kept_def)

text \<open>How a wait that began at \<open>start\<close> ends.\<close>

definition awaits ::
  "mbedtls \<Rightarrow> 8 word \<Rightarrow> 32 word \<Rightarrow> 32 word \<Rightarrow> esp_udp \<Rightarrow> (int, bool) outcome \<Rightarrow> esp_udp \<Rightarrow> bool" where
  "awaits M type seq start t out t' \<longleftrightarrow>
     waited t t' \<and> out \<in> {Ret True, Ret False, Raise (-1)}
     \<and> (unat (d_now t - start) < 515 \<longrightarrow> unat (d_now t' - start) < 515)
     \<and> (out = Ret True \<longrightarrow>
          (\<exists>bs\<in>arrivals t. core_is_utack (take 492 bs) \<and> core_ack_accepted M type seq (take 492 bs) t))"

lemma awaits_later:
  assumes "waited t t1" and "unat (d_now t1 - start) < 515" and "awaits M type seq start t1 out t'"
  shows "awaits M type seq start t out t'"
  using assms(2,3) waited_trans [OF assms(1)] waited_accepts [OF assms(1)] waited_arrivals [OF assms(1)]
  unfolding awaits_def by blast

lemma core_await_ack_spec: "core_await_ack M type seq start t = (out, t') \<Longrightarrow> awaits M type seq start t out t'"
proof (induction M type seq start t rule: core_await_ack.induct)
  case (1 M type seq start t)
  show ?case
  proof (cases "d_now t - start < 500")
    case False
    then show ?thesis using "1.prems" by (subst (asm) core_await_ack.simps) (auto simp: awaits_def)
  next
    case elapsed: True
    let ?t1 = "pass 5 (pass 10 t)"
    have later: "waited t ?t1" "unat (d_now ?t1 - start) < 515"
      using waited_trans waited_step(1) elapsed by (blast, simp add: since_less since_add add.assoc)
    show ?thesis
    proof (cases "d_events t")
      case Nil
      then have "core_await_ack M type seq start ?t1 = (out, t')"
        using "1.prems" elapsed by (subst (asm) core_await_ack.simps) simp
      with "1.IH"(1) elapsed Nil show ?thesis using awaits_later [OF later] by blast
    next
      case (Cons e evs)
      obtain d ev where e: "e = (d, ev)" by fastforce
      show ?thesis
      proof (cases "10 < d")
        case True
        then have "core_await_ack M type seq start ?t1 = (out, t')"
          using "1.prems" elapsed Cons e by (subst (asm) core_await_ack.simps) simp
        with "1.IH"(2) elapsed Cons e True show ?thesis using awaits_later [OF later] by blast
      next
        case False
        let ?t2 = "arrive d evs t"
        have d: "unat d \<le> 10" using False by (simp add: word_less_nat_alt)
        then have t2: "waited t ?t2" "unat (d_now ?t2 - start) < 510"
          using elapsed Cons by (simp_all add: since_less since_add)
        have t3: "waited t (pass 5 ?t2)" "unat (d_now (pass 5 ?t2) - start) < 515"
          using waited_trans [OF t2(1) waited_step(1)] t2(2) d elapsed
          by (simp_all add: since_less since_add add.assoc delayed)
        show ?thesis
        proof (cases ev)
          case (Packet bs)
          let ?temp = "take 492 bs"
          have arrived: "bs \<in> arrivals t" using Cons e Packet by (auto simp: arrivals_def)
          have buf: "waited t (?t2\<lparr>d_rx_buf := ?temp\<rparr>)" "unat (d_now (?t2\<lparr>d_rx_buf := ?temp\<rparr>) - start) < 515"
            using waited_trans [OF t2(1) waited_step(2)] t2(2) by simp_all
          have "unat (d_now ?t2 - start) < 515" using t2(2) by simp
          note keep = awaits_later [OF t2(1) this] awaits_later [OF buf]
          note run = "1.prems" [unfolded core_await_ack.simps [of _ _ _ _ t] Cons e]
          show ?thesis
          proof (cases "core_is_utack ?temp")
            case True
            show ?thesis
            proof (cases "core_ack_accepted M type seq ?temp ?t2")
              case True
              then have "out = Ret True" "t' = ?t2"
                using run elapsed False Packet \<open>core_is_utack ?temp\<close> by (simp_all add: Let_def)
              then show ?thesis
                using True \<open>core_is_utack ?temp\<close> arrived t2 waited_accepts [OF t2(1)] by (auto simp: awaits_def)
            next
              case bad: False
              have "core_await_ack M type seq start ?t2 = (out, t')"
                using run elapsed False Packet True bad by (simp add: Let_def)
              then show ?thesis using "1.IH"(3) [OF _ Cons e [symmetric] False refl Packet refl True bad] elapsed keep(1) by simp
            qed
          next
            case no: False
            show ?thesis
            proof (cases "12 \<le> length ?temp \<and> d_rx_buf ?t2 = []")
              case True
              have "core_await_ack M type seq start (?t2\<lparr>d_rx_buf := ?temp\<rparr>) = (out, t')"
                using run elapsed False Packet True no by (simp add: Let_def)
              then show ?thesis using "1.IH"(4) [OF _ Cons e [symmetric] False refl Packet refl no True] elapsed keep(2) by simp
            next
              case full: False
              have "core_await_ack M type seq start ?t2 = (out, t')"
                using run elapsed False Packet full no by (auto simp: Let_def split: if_splits)
              then show ?thesis using "1.IH"(5) [OF _ Cons e [symmetric] False refl Packet refl no full] elapsed keep(1) by simp
            qed
          qed
        next
          case Interrupted_call
          then have "core_await_ack M type seq start (pass 5 ?t2) = (out, t')"
            using "1.prems" elapsed Cons e False by (subst (asm) core_await_ack.simps) (simp add: Let_def)
          with "1.IH"(6) [OF _ Cons e [symmetric] False refl Interrupted_call] elapsed show ?thesis
            using awaits_later [OF t3] by blast
        next
          case Refused
          then have "core_await_ack M type seq start (pass 5 ?t2) = (out, t')"
            using "1.prems" elapsed Cons e False by (subst (asm) core_await_ack.simps) (simp add: Let_def)
          with "1.IH"(7) [OF _ Cons e [symmetric] False refl Refused] elapsed show ?thesis
            using awaits_later [OF t3] by blast
        next
          case Broken
          then show ?thesis
            using "1.prems" elapsed Cons e False t2
            by (subst (asm) core_await_ack.simps) (auto simp: awaits_def Let_def)
        qed
      qed
    qed
  qed
qed

section \<open>The ARQ\<close>

text \<open>What a whole send keeps.\<close>

definition sending :: "bytes \<Rightarrow> nat \<Rightarrow> esp_udp \<Rightarrow> esp_udp \<Rightarrow> bool" where
  "sending data n t t' \<longleftrightarrow> socket_kept t t' \<and> (\<exists>k\<le>n. d_sent t' = d_sent t @ replicate k data)"

lemma sending_trans: "sending data m t t1 \<Longrightarrow> sending data n t1 t2 \<Longrightarrow> sending data (m + n) t t2"
proof -
  assume "sending data m t t1" "sending data n t1 t2"
  then obtain j k where "j \<le> m" "k \<le> n" "d_sent t2 = d_sent t @ replicate (j + k) data" "socket_kept t t2"
    using kept_trans by (auto simp: sending_def replicate_add)
  then show ?thesis unfolding sending_def by (meson add_mono)
qed

lemma sending_waited: "waited t t' \<Longrightarrow> sending data 0 t t'"
  by (simp add: sending_def waited_def)

lemma sending_more: "sending data n t t"
  unfolding sending_def by (auto intro: exI [of _ 0])

lemma dgram_send_sending:
  assumes "dgram_send data t = (r, t1)"
  shows "sending data 1 t t1" "d_now t1 = d_now t" "arrivals t1 = arrivals t" "d_events t1 = d_events t" "d_rx_buf t1 = d_rx_buf t"
proof -
  have "d_sent t1 = d_sent t @ replicate 0 data \<or> d_sent t1 = d_sent t @ replicate 1 data"
    using assms by (auto simp: dgram_send_def split: list.splits if_splits)
  moreover have "socket_kept t t1"
    using assms by (auto simp: dgram_send_def socket_kept_def arrivals_def split: list.splits if_splits)
  ultimately show "sending data 1 t t1" unfolding sending_def using le_numeral_extra(4) zero_le_one by blast
qed (use assms in \<open>auto simp: dgram_send_def arrivals_def split: list.splits if_splits\<close>)

lemma core_arq_spec:
  "core_arq M type seq data n t = (out, t') \<Longrightarrow> n \<le> 5 \<Longrightarrow>
   sending data n t t' \<and> out \<in> {Ret (), Raise (-1)} \<and> unat (d_now t' - d_now t) \<le> n * 514
   \<and> (out = Ret () \<longrightarrow>
        (\<exists>bs\<in>arrivals t. core_is_utack (take 492 bs) \<and> core_ack_accepted M type seq (take 492 bs) t))"
proof (induction n arbitrary: t)
  case 0
  then show ?case by (auto simp: sending_more)
next
  case (Suc n)
  obtain r t1 where send: "dgram_send data t = (r, t1)" by fastforce
  note t1 = dgram_send_sending [OF send]
  obtain ok t2 where await: "core_await_ack M type seq (d_now t1) t1 = (ok, t2)" by fastforce
  have t2: "awaits M type seq (d_now t1) t1 ok t2" using core_await_ack_spec [OF await] .
  then have s2: "sending data 1 t t2" "unat (d_now t2 - d_now t) \<le> 514" "\<And>bs. bs \<in> arrivals t2 \<Longrightarrow> bs \<in> arrivals t"
    using sending_trans [OF t1(1) sending_waited] t1(2,3) waited_arrivals by (auto simp: awaits_def)
  have acc: "core_ack_accepted M type seq temp t1 = core_ack_accepted M type seq temp t"
    "core_ack_accepted M type seq temp t2 = core_ack_accepted M type seq temp t" for temp
    using t1(1) s2(1) kept_accepts by (simp_all add: sending_def)
  show ?case
  proof (cases "r = Fatal_error")
    case True
    then show ?thesis
      using Suc.prems send t1(2) sending_trans [OF t1(1) sending_more] by (auto simp: add.commute)
  next
    case False
    show ?thesis
    proof (cases "ok = Ret False")
      case True
      have "core_arq M type seq data n t2 = (out, t')"
        using Suc.prems(1) False send await True by (cases r) simp_all
      from Suc.IH [OF this] Suc.prems(2) have IH: "sending data n t2 t'" "out \<in> {Ret (), Raise (-1)}"
        "unat (d_now t' - d_now t2) \<le> n * 514"
        "out = Ret () \<longrightarrow> (\<exists>bs\<in>arrivals t2. core_is_utack (take 492 bs) \<and> core_ack_accepted M type seq (take 492 bs) t2)"
        by simp_all
      have "d_now t' - d_now t = (d_now t' - d_now t2) + (d_now t2 - d_now t)" by simp
      then have "unat (d_now t' - d_now t) \<le> Suc n * 514"
        using IH(3) s2(2) Suc.prems(2) by (simp only: unat_word_ariths(1)) simp
      with IH(2,4) sending_trans [OF s2(1) IH(1)] s2(3) show ?thesis by (auto simp: acc)
    next
      case ended: False
      then have "ok = Ret True \<and> out = Ret () \<or> ok = Raise (-1) \<and> out = Raise (-1)" "t' = t2"
        using Suc.prems(1) False send await t2 by (cases r; auto simp: awaits_def)+
      with t2 s2(2) t1(3) sending_trans [OF s2(1) sending_more] show ?thesis by (auto simp: awaits_def acc)
    qed
  qed
qed

section \<open>Receiving in time\<close>

lemma core_take_datagram_result:
  "core_take_datagram M max_len temp t = (r, t') \<Longrightarrow>
     r = Ret None \<or> r = Ret (Some temp) \<and> length temp \<le> max_len \<and> 12 \<le> length temp \<or> r = Raise (-1)"
  by (auto simp: core_take_datagram_def Let_def split: if_splits)

lemma core_recv_datagram_in_time:
  "core_recv_datagram M max_len start t = (out, t') \<Longrightarrow> d_keys_set t \<Longrightarrow> unat (d_now t - start) \<le> 55 \<Longrightarrow>
   (out = Raise (-1) \<or> (\<exists>bs. out = Ret bs \<and> length bs \<le> max_len)) \<and> unat (d_now t' - start) \<le> 55"
proof (induction M max_len start t rule: core_recv_datagram.induct)
  case (1 M max_len start t)
  note run = "1.prems"(1) [unfolded core_recv_datagram.simps [of _ _ _ t]]
  show ?case
  proof (cases "d_rx_buf t = []")
    case False
    obtain r t1 where take: "core_take_datagram M max_len (d_rx_buf t) (t\<lparr>d_rx_buf := []\<rparr>) = (r, t1)" by fastforce
    note res = core_take_datagram_result [OF take] core_take_datagram_events [OF take]
    show ?thesis
    proof (cases "r = Ret None")
      case True
      then have "core_recv_datagram M max_len start t1 = (out, t')" using run False take by simp
      with "1.IH"(1) [OF False take [symmetric] True refl] res(2) "1.prems"(2,3) show ?thesis by simp
    next
      case ended: False
      then show ?thesis using run False take res "1.prems"(3) by auto
    qed
  next
    case empty: True
    let ?elapsed = "d_now t - start"
    show ?thesis
    proof (cases "50 \<le> ?elapsed")
      case True
      then show ?thesis using run empty "1.prems"(2,3) by (auto simp: Let_def)
    next
      case early: False
      then have e: "unat ?elapsed < 50" by (simp add: word_le_nat_alt not_le)
      have left: "unat (50 - ?elapsed) = 50 - unat ?elapsed" using early by (simp add: unat_sub)
      have idle: "unat (d_now (pass (50 - ?elapsed) t) - start) \<le> 55" using e left by (simp add: since_add)
      show ?thesis
      proof (cases "d_events t")
        case Nil
        then show ?thesis using run empty early "1.prems"(2) idle by (auto simp: Let_def)
      next
        case (Cons x evs)
        obtain d ev where x: "x = (d, ev)" by fastforce
        show ?thesis
        proof (cases "50 - ?elapsed < d")
          case True
          then show ?thesis using run empty early Cons x "1.prems"(2) idle by (auto simp: Let_def)
        next
          case False
          let ?t1 = "arrive d evs t"
          have d: "unat d \<le> 50 - unat ?elapsed" using False left by (simp add: word_less_nat_alt not_less)
          then have t1: "unat (d_now ?t1 - start) \<le> 50" "unat (d_now (pass 5 ?t1) - start) \<le> 55" "d_keys_set ?t1"
            using e "1.prems"(2) by (simp_all add: since_add add.assoc delayed)
          have g: "\<not> d_rx_buf t \<noteq> []" "\<not> (d_keys_set t \<and> 50 \<le> ?elapsed)" "\<not> (d_keys_set t \<and> 50 - ?elapsed < d)"
            using empty early False by simp_all
          note IH = "1.IH"(2-4) [OF g(1) refl refl g(2) Cons x [symmetric] g(3) refl]
          show ?thesis
          proof (cases ev)
            case Interrupted_call
            then have "core_recv_datagram M max_len start ?t1 = (out, t')"
              using run empty early Cons x False by (simp add: Let_def)
            with IH(2) [OF Interrupted_call] t1 show ?thesis by simp
          next
            case Refused
            then have "core_recv_datagram M max_len start (pass 5 ?t1) = (out, t')"
              using run empty early Cons x False by (simp add: Let_def)
            with IH(3) [OF Refused] t1 show ?thesis by simp
          next
            case Broken
            then show ?thesis using run empty early Cons x False t1(1) by (simp add: Let_def)
          next
            case (Packet bs)
            obtain r t2 where take: "core_take_datagram M max_len (take 492 bs) ?t1 = (r, t2)" by fastforce
            note res = core_take_datagram_result [OF take] core_take_datagram_events [OF take]
            show ?thesis
            proof (cases "r = Ret None")
              case True
              then have "core_recv_datagram M max_len start t2 = (out, t')"
                using run empty early Cons x False Packet take by (simp add: Let_def)
              with IH(1) [OF Packet take [symmetric] True refl] res(2) t1 show ?thesis by simp
            next
              case ended: False
              then show ?thesis using run empty early Cons x False Packet take res t1(1) by (auto simp: Let_def)
            qed
          qed
        qed
      qed
    qed
  qed
qed
section \<open>What the hooks guarantee\<close>

text \<open>The acknowledgement of the device's frame, as the stream of the SDK builds it.\<close>

lemma core_ack_accepted_utack:
  assumes law: "mbedtls_law M C" "hmac_law C" and acc: "core_ack_accepted M type seq temp t"
    and utack: "core_is_utack temp" and type: "5 \<le> type"
  shows "d_keys_set t \<and> take 15 temp = utack_header (uint type) (uint seq)
      @ utack_mac C (d_tx_key t) (utack_header (uint type) (uint seq))"
proof -
  let ?h = "utack_header (uint type) (uint seq)"
  have acc': "temp ! 2 = type" "get32 temp 3 = seq" "d_keys_set t" "15 \<le> length temp"
    "core_utack_mac M (d_tx_key t) (take 7 temp) t = slice 7 15 temp"
    using acc type by (simp_all add: core_ack_accepted_def)
  have "take 7 temp = [temp ! 0, temp ! 1, temp ! 2, temp ! 3, temp ! 4, temp ! 5, temp ! 6]"
    using acc'(4) by (simp add: list_eq_iff_nth_eq less_Suc_eq numeral_eq_Suc nth_Cons split: nat.split)
  moreover have "le_bytes 4 (uint seq) = [temp ! 3, temp ! 4, temp ! 5, temp ! 6]"
    using acc'(2) by (simp add: le_bytes_uint get_bytes flip: acc'(2))
  ultimately have "take 7 temp = ?h" using utack acc'(1) by (simp add: utack_header_def core_is_utack_def)
  moreover have "take 15 temp = take 7 temp @ slice 7 15 temp"
    using append_take_drop_id [of 7 "take 15 temp"] by (simp add: slice_def drop_take)
  ultimately show ?thesis
    using acc'(3,5) by (simp add: core_utack_mac_def mbedtls_lawD(6) [OF law(1)] utack_mac_def)
qed

text \<open>
  In the session phase the UDP transport of a device reports a frame as sent only when a
  datagram has arrived that acknowledges this type and sequence number with the right MAC
  under the device's send key; a forged acknowledgement or one without a MAC never ends the
  wait, and before the keys are set no session frame is reported as sent.
\<close>

theorem core_udp_send_authenticated:
  assumes "mbedtls_law M C" and "hmac_law C" and "usmp_udp_send M data t = (Ret (), t')"
    and "8 \<le> length data" and "5 \<le> data ! 3"
  shows "d_keys_set t \<and> (\<exists>bs\<in>arrivals t. take 15 bs = utack_header (u8_at data 3) (u32_at data 4)
      @ utack_mac C (d_tx_key t) (utack_header (u8_at data 3) (u32_at data 4)))"
proof -
  have "core_arq M (data ! 3) (get32 data 4) data 5 t = (Ret (), t')"
    using assms(3,4) by (simp add: usmp_udp_send_def split: if_splits)
  from core_arq_spec [OF this] obtain bs where bs: "bs \<in> arrivals t" "core_is_utack (take 492 bs)"
    "core_ack_accepted M (data ! 3) (get32 data 4) (take 492 bs) t" by auto
  have "uint (data ! 3) = u8_at data 3" using assms(4) by (simp add: u8_at_def)
  moreover have "uint (get32 data 4) = u32_at data 4" using assms(4) get32_at [of 4 data] by simp
  ultimately show ?thesis
    using core_ack_accepted_utack [OF assms(1,2) bs(3,2) assms(5)] bs(1) by (auto simp: min_def)
qed

text \<open>
  The waits of a device's UDP transport are bounded: a send hands the socket the same datagram at most
  five times and comes to an end within five times 514 milliseconds, and a receive of an
  established session ends within 55 milliseconds, with a datagram that fits the buffer, an
  empty result or an error, whatever arrives.
\<close>

theorem core_udp_bounded:
  assumes "d_open t" and "usmp_udp_send M data t = (o1, t1)" and "usmp_udp_recv M max_len t = (o2, t2)"
  shows "o1 \<in> {Ret (), Raise (-1)} \<and> unat (d_now t1 - d_now t) \<le> 5 * 514
    \<and> (\<exists>k\<le>5. d_sent t1 = d_sent t @ replicate k data)
    \<and> (d_keys_set t \<longrightarrow> (o2 = Raise (-1) \<or> (\<exists>bs. o2 = Ret bs \<and> length bs \<le> max_len))
          \<and> unat (d_now t2 - d_now t) \<le> 55)"
proof -
  have "o1 \<in> {Ret (), Raise (-1)} \<and> unat (d_now t1 - d_now t) \<le> 5 * 514
    \<and> (\<exists>k\<le>5. d_sent t1 = d_sent t @ replicate k data)"
  proof (cases "8 \<le> length data")
    case True
    then have "core_arq M (data ! 3) (get32 data 4) data 5 t = (o1, t1)"
      using assms(1,2) by (simp add: usmp_udp_send_def)
    from core_arq_spec [OF this] show ?thesis by (simp add: sending_def)
  next
    case False
    then obtain r where run: "dgram_send data t = (r, t1)" and o1: "o1 = (if r = Accepted_send then Ret () else Raise (-1))"
      using assms(1,2) by (auto simp: usmp_udp_send_def split: prod.splits)
    have "\<exists>k\<le>1. d_sent t1 = d_sent t @ replicate k data"
      using dgram_send_sending(1) [OF run] by (simp add: sending_def)
    then have "\<exists>k\<le>5. d_sent t1 = d_sent t @ replicate k data" by (meson le_trans one_le_numeral)
    with o1 dgram_send_sending(2) [OF run] show ?thesis by simp
  qed
  moreover have "core_recv_datagram M max_len (d_now t) t = (o2, t2)"
    using assms(1,3) by (simp add: usmp_udp_recv_def)
  from core_recv_datagram_in_time [OF this]
  have "d_keys_set t \<longrightarrow> (o2 = Raise (-1) \<or> (\<exists>bs. o2 = Ret bs \<and> length bs \<le> max_len)) \<and> unat (d_now t2 - d_now t) \<le> 55"
    by simp
  ultimately show ?thesis by blast
qed

section \<open>A device\<close>

definition demo_udp_device :: "(32 word \<times> udp_event) list \<Rightarrow> esp_udp" where
  "demo_udp_device evs =
     \<lparr>d_open = True, d_rx_buf = [], d_last_rx_seq = 0, d_last_rx_seq_set = False, d_last_rx_type = 0,
      d_tx_key = [], d_rx_key = [], d_keys_set = False, d_events = evs, d_now = 1000, d_sent = [], d_sends = [],
      d_dials = [], d_random = (\<lambda>i. if i = 0 then 5 else 0), d_mac = replicate 6 1, d_stack = []\<rparr>"

theorem core_udp_bounded_witness:
  "\<exists>o1 t1 o2 t2. usmp_udp_send (mbedtls_of demo_crypto) (replicate 12 7) (demo_udp_device [(600, Packet [1, 2])]) = (o1, t1)
     \<and> usmp_udp_recv (mbedtls_of demo_crypto) 492 (demo_udp_device [(600, Packet [1, 2])]) = (o2, t2)
     \<and> o1 \<in> {Ret (), Raise (-1)} \<and> unat (d_now t1 - 1000) \<le> 5 * 514"
proof -
  let ?t = "demo_udp_device [(600, Packet [1, 2])]" and ?M = "mbedtls_of demo_crypto"
  obtain o1 t1 where s: "usmp_udp_send ?M (replicate 12 7) ?t = (o1, t1)" by fastforce
  obtain o2 t2 where r: "usmp_udp_recv ?M 492 ?t = (o2, t2)" by fastforce
  have "d_open ?t" "d_now ?t = 1000" by (simp_all add: demo_udp_device_def)
  with core_udp_bounded [OF this(1) s r] s r show ?thesis by auto
qed

end
