(* ===== verification/CoreTcp.thy ===== *)
theory CoreTcp
  imports CoreRefine
begin

text \<open>
  \<open>usmp_transport_tcp.c\<close> of the ESP32 port: the TCP transport of a device, on BSD sockets.
  The state holds the socket and what its environment will do: the segments that arrive, each
  with the milliseconds that pass before it, and what may go wrong in between.  Time passes
  only while the code waits in \<open>select\<close>.
\<close>

section \<open>Sockets\<close>

text \<open>A segment of data, the empty one being the end of the stream; errors of \<open>select\<close> and \<open>recv\<close>.\<close>

datatype sock_event = Arrived bytes | Signal | Select_error | Not_ready | Recv_error

datatype selected = Readable | Timed_out | Interrupted | Select_failed

datatype received = Got bytes | Would_block | Recv_failed

record esp_tcp =
  e_open :: bool
  e_events :: "(32 word \<times> sock_event) list"
  e_now :: "32 word"
  e_out :: bytes
  e_accepts :: "nat option list"
    \<comment> \<open>how much the next calls of \<open>send\<close> accept, \<open>None\<close> for an error; then everything\<close>
  e_dials :: "(32 word \<times> sock_event) list option list"
    \<comment> \<open>the connections that the next calls of \<open>connect\<close> make, \<open>None\<close> for a failure\<close>
  e_random :: "nat \<Rightarrow> byte"
  e_mac :: bytes
  e_session_active :: bool

text \<open>\<open>select\<close> on the socket for reading, with a timeout in milliseconds or none.\<close>

definition socket_select :: "32 word option \<Rightarrow> (esp_tcp, int, selected) io" where
  "socket_select timeout t =
     (case e_events t of
        [] \<Rightarrow>
          (case timeout of
             None \<Rightarrow> (Blocked, t)
           | Some r \<Rightarrow> (Ret Timed_out, t\<lparr>e_now := e_now t + r\<rparr>))
      | (d, ev) # evs \<Rightarrow>
          if timeout \<noteq> None \<and> d > the timeout then
            (Ret Timed_out, t\<lparr>e_now := e_now t + the timeout, e_events := (d - the timeout, ev) # evs\<rparr>)
          else
            let t = t\<lparr>e_now := e_now t + d\<rparr> in
            (case ev of
               Signal \<Rightarrow> (Ret Interrupted, t\<lparr>e_events := evs\<rparr>)
             | Select_error \<Rightarrow> (Ret Select_failed, t\<lparr>e_events := evs\<rparr>)
             | _ \<Rightarrow> (Ret Readable, t\<lparr>e_events := (0, ev) # evs\<rparr>)))"

text \<open>\<open>recv\<close> on a socket that is readable, for at most \<open>n\<close> bytes.\<close>

definition socket_recv :: "nat \<Rightarrow> esp_tcp \<Rightarrow> received \<times> esp_tcp" where
  "socket_recv n t =
     (case e_events t of
        (d, Arrived bs) # evs \<Rightarrow>
          (Got (take n bs),
           t\<lparr>e_events := (if length bs \<le> n \<and> bs \<noteq> [] then evs else (0, Arrived (drop n bs)) # evs)\<rparr>)
      | (d, Not_ready) # evs \<Rightarrow> (Would_block, t\<lparr>e_events := evs\<rparr>)
      | (d, ev) # evs \<Rightarrow> (Recv_failed, t\<lparr>e_events := evs\<rparr>)
      | [] \<Rightarrow> (Would_block, t))"

section \<open>The hooks\<close>

definition tcp_dial :: "(esp_tcp, int, unit) io" where
  "tcp_dial t =
     (case e_dials t of
        Some evs # ds \<Rightarrow> (Ret (), t\<lparr>e_open := True, e_events := evs, e_dials := ds\<rparr>)
      | None # ds \<Rightarrow> (Raise (-1), t\<lparr>e_dials := ds\<rparr>)
      | [] \<Rightarrow> (Raise (-1), t))"

text \<open>\<open>send\<close> may take less than it is given, so the rest is sent again.\<close>

function tcp_send_from :: "bytes \<Rightarrow> (esp_tcp, int, unit) io" where
  "tcp_send_from data t =
     (if data = [] then (Ret (), t)
      else case e_accepts t of
             [] \<Rightarrow> (Ret (), t\<lparr>e_out := e_out t @ data\<rparr>)
           | None # as \<Rightarrow> (Raise (-1), t\<lparr>e_accepts := as\<rparr>)
           | Some n # as \<Rightarrow>
               tcp_send_from (drop n data) (t\<lparr>e_accepts := as, e_out := e_out t @ take n data\<rparr>))"
  by pat_completeness auto
termination
  by (relation "measure (\<lambda>(data, t). length (e_accepts t))") auto

declare tcp_send_from.simps [simp del]

definition usmp_tcp_send :: "bytes \<Rightarrow> (esp_tcp, int, unit) io" where
  "usmp_tcp_send data t = (if e_open t then tcp_send_from data t else (Raise (-1), t))"

lemma socket_select_shrinks:
  "socket_select timeout t = (Ret sel, t') \<Longrightarrow> sel \<noteq> Timed_out \<Longrightarrow>
   length (e_events t') \<le> length (e_events t)
   \<and> (sel \<in> {Interrupted, Select_failed} \<and> length (e_events t') < length (e_events t)
      \<or> sel = Readable \<and> e_events t' \<noteq> [])"
  by (auto simp: socket_select_def Let_def split: list.splits option.splits if_splits sock_event.splits)

lemma socket_select_waits: "fst (socket_select None t) \<noteq> Ret Timed_out"
  by (auto simp: socket_select_def Let_def split: list.splits sock_event.splits)

lemma socket_recv_shrinks:
  "socket_recv n t = (r, t') \<Longrightarrow> length (e_events t') \<le> length (e_events t)
   \<and> (r = Would_block \<longrightarrow> e_events t = [] \<or> length (e_events t') < length (e_events t))"
  by (auto simp: socket_recv_def split: list.splits sock_event.splits if_splits)

text \<open>
  The two loops of \<open>usmp_tcp_recv\<close>: \<open>need\<close> more bytes of the header or the payload, after
  \<open>got\<close>.  A stall ends them once the session is active; before any byte of a header it is
  an empty read, otherwise an error.
\<close>

definition tcp_stalled :: "bool \<Rightarrow> bytes \<Rightarrow> (esp_tcp, int, bytes) io" where
  "tcp_stalled header got = (if header \<and> got = [] then ret [] else throw (-1))"

function tcp_fill :: "bool \<Rightarrow> nat \<Rightarrow> bytes \<Rightarrow> 32 word \<Rightarrow> (esp_tcp, int, bytes) io" where
  "tcp_fill header need got last_progress t =
     (if need = 0 then (Ret got, t)
      else
        let bounded = e_session_active t;
            elapsed = e_now t - last_progress
        in
          if bounded \<and> elapsed \<ge> 2000 then tcp_stalled header got t
          else
            (case socket_select (if bounded then Some (2000 - elapsed) else None) t of
               (Blocked, t1) \<Rightarrow> (Blocked, t1)
             | (Raise e, t1) \<Rightarrow> (Raise e, t1)
             | (Ret sel, t1) \<Rightarrow>
                 if sel = Interrupted then tcp_fill header need got last_progress t1
                 else if sel = Select_failed then (Raise (-1), t1)
                 else if sel = Timed_out then
                   (if header \<and> \<not> bounded then tcp_fill header need got last_progress t1
                    else tcp_stalled header got t1)
                 else
                   (case socket_recv need t1 of
                      (Would_block, t2) \<Rightarrow> tcp_fill header need got last_progress t2
                    | (Recv_failed, t2) \<Rightarrow> (Raise (-1), t2)
                    | (Got bs, t2) \<Rightarrow>
                        if bs = [] then (Raise (-1), t2)
                        else tcp_fill header (need - length bs) (got @ bs) (e_now t2) t2)))"
  by pat_completeness auto
termination
proof (relation "measure (\<lambda>(header, need, got, last, t). need + length (e_events t))", goal_cases)
  case 1
  then show ?case by simp
next
  case (2 header need got last_progress t)
  then show ?case using socket_select_shrinks [of _ t Interrupted] by (auto dest!: socket_select_shrinks)
next
  case (3 header need got last_progress t)
  then show ?case using socket_select_waits [of t] by (auto simp: prod_eq_iff)
next
  case 4
  note select = socket_select_shrinks [OF 4(5) [symmetric, unfolded 4(6)] 4(9)]
    and recv = socket_recv_shrinks [OF 4(10) [symmetric]]
  have "n - length bs < n" if "n \<noteq> 0" "bs \<noteq> []" for n :: nat and bs :: bytes
    using that by simp
  then show ?case using 4(1,12) select recv by (simp add: add_less_le_mono)
next
  case 5
  note select = socket_select_shrinks [OF 5(5) [symmetric, unfolded 5(6)] 5(9)]
    and recv = socket_recv_shrinks [OF 5(10) [symmetric]]
  show ?case using 5(7,8,11) select recv by auto
qed

declare tcp_fill.simps [simp del]

text \<open>A whole frame, or nothing: \<open>ret []\<close> is the result 0.\<close>

definition usmp_tcp_recv :: "nat \<Rightarrow> (esp_tcp, int, bytes) io" where
  "usmp_tcp_recv max_len t =
     (if \<not> e_open t then (Raise (-1), t)
      else if max_len < 12 then (Raise (-1), t)
      else
        bind_io (tcp_fill True 12 [] (e_now t)) (\<lambda>header.
        if length header < 12 then ret header
        else
          let payload_len = unat (get16 header 8) in
          if payload_len > 480 then throw (-1)
          else if 12 + payload_len > max_len then throw (-1)
          else bind_io (gets e_now) (\<lambda>last_progress. tcp_fill False payload_len header last_progress)) t)"

definition usmp_tcp_close :: "esp_tcp \<Rightarrow> esp_tcp" where
  "usmp_tcp_close t = t\<lparr>e_open := False\<rparr>"

definition usmp_tcp_reconnect :: "(esp_tcp, int, unit) io" where
  "usmp_tcp_reconnect =
     bind_io (modify usmp_tcp_close) (\<lambda>_.
     bind_io (modify (e_session_active_update (\<lambda>_. False))) (\<lambda>_. tcp_dial))"

definition usmp_tcp_available :: "esp_tcp \<Rightarrow> int \<times> esp_tcp" where
  "usmp_tcp_available t =
     (if \<not> e_open t then (0, t)
      else case socket_select (Some 0) t of
             (Ret sel, t') \<Rightarrow> (if sel = Readable then 1 else 0, t')
           | (_, t') \<Rightarrow> (0, t'))"

text \<open>TCP has no use for the keys: it only learns that a session runs, which bounds its reads.\<close>

definition usmp_tcp_set_session_keys :: "bytes \<Rightarrow> bytes \<Rightarrow> esp_tcp \<Rightarrow> esp_tcp" where
  "usmp_tcp_set_session_keys tx rx t = t\<lparr>e_session_active := True\<rparr>"

definition esp_random :: "nat \<Rightarrow> (esp_tcp, int, bytes) io" where
  "esp_random n t =
     (Ret (map (e_random t) [0..<n]), t\<lparr>e_random := (\<lambda>i. e_random t (i + n))\<rparr>)"

definition usmp_transport_tcp :: "esp_tcp platform" where
  "usmp_transport_tcp =
     \<lparr>t_send = usmp_tcp_send, t_recv = usmp_tcp_recv, t_close = Some usmp_tcp_close,
      t_reconnect = Some usmp_tcp_reconnect, t_available = Some usmp_tcp_available,
      t_confirm_authenticated = None, t_set_session_keys = Some usmp_tcp_set_session_keys,
      p_millis = (\<lambda>t. (e_now t, t)), p_random = esp_random,
      p_device_id = (\<lambda>t. (Ret (e_mac t), t)), p_malloc = True, p_private_key = (\<lambda>pers. esp_random 32)\<rparr>"

section \<open>The stream\<close>

fun arrived :: "sock_event \<Rightarrow> bytes" where
  "arrived (Arrived bs) = bs"
| "arrived _ = []"

definition esp_pending :: "esp_tcp \<Rightarrow> bytes" where
  "esp_pending t = concat (map (arrived \<circ> snd) (e_events t))"

text \<open>
  The connection works: segments arrive less than two seconds after each other, however the
  network has cut them, and what is sent is accepted, if only in pieces.
\<close>

definition esp_up :: "esp_tcp \<Rightarrow> bool" where
  "esp_up t \<longleftrightarrow> e_open t \<and> None \<notin> set (e_accepts t)
     \<and> (\<forall>(d, ev)\<in>set (e_events t). d < 2000 \<and> (\<exists>bs. ev = Arrived bs \<and> bs \<noteq> []))"

lemma tcp_send_up:
  "None \<notin> set (e_accepts t) \<Longrightarrow> \<exists>as. tcp_send_from data t
     = (Ret (), t\<lparr>e_out := e_out t @ data, e_accepts := as\<rparr>) \<and> None \<notin> set as"
proof (induction data t rule: tcp_send_from.induct)
  case (1 data t)
  show ?case
  proof (cases "data = [] \<or> e_accepts t = []")
    case True
    then show ?thesis
      using "1.prems" by (subst tcp_send_from.simps) (auto intro: exI [of _ "e_accepts t"])
  next
    case False
    then obtain n as where as: "e_accepts t = Some n # as"
      using "1.prems" by (cases "e_accepts t"; cases "hd (e_accepts t)") auto
    obtain as' where "tcp_send_from (drop n data) (t\<lparr>e_accepts := as, e_out := e_out t @ take n data\<rparr>)
        = (Ret (), t\<lparr>e_out := e_out t @ data, e_accepts := as'\<rparr>)" "None \<notin> set as'"
      using "1.IH" [of "Some n" as n] "1.prems" False as by auto
    with False as show ?thesis by (subst tcp_send_from.simps) auto
  qed
qed

lemma esp_up_cons:
  assumes "esp_up t" and "esp_pending t \<noteq> []"
  obtains d bs evs where "e_events t = (d, Arrived bs) # evs" "d < 2000" "bs \<noteq> []"
proof (cases "e_events t")
  case Nil
  with assms(2) show ?thesis by (simp add: esp_pending_def)
next
  case (Cons e evs)
  with assms(1) that show ?thesis by (cases e) (auto simp: esp_up_def)
qed

lemma tcp_fill_up:
  "esp_up t \<Longrightarrow> n \<le> length (esp_pending t) \<Longrightarrow>
   \<exists>t'. tcp_fill header n got (e_now t) t = (Ret (got @ take n (esp_pending t)), t')
     \<and> esp_up t' \<and> esp_pending t' = drop n (esp_pending t) \<and> e_out t' = e_out t"
proof (induction n arbitrary: got t rule: less_induct)
  case (less n)
  show ?case
  proof (cases "n = 0")
    case True
    with less.prems show ?thesis by (subst tcp_fill.simps) simp
  next
    case False
    then have "esp_pending t \<noteq> []" using less.prems by auto
    then obtain d bs evs where ev: "e_events t = (d, Arrived bs) # evs" "d < 2000" "bs \<noteq> []"
      using esp_up_cons less.prems(1) by blast
    let ?t1 = "t\<lparr>e_now := e_now t + d, e_events := (0, Arrived bs) # evs\<rparr>"
    let ?t2 = "?t1\<lparr>e_events := (if length bs \<le> n then evs else (0, Arrived (drop n bs)) # evs)\<rparr>"
    have "socket_select (Some 2000) t = (Ret Readable, ?t1)" "socket_select None t = (Ret Readable, ?t1)"
      using ev order_less_not_sym [OF ev(2)] by (simp_all add: socket_select_def)
    moreover have "socket_recv n ?t1 = (Got (take n bs), ?t2)" using ev by (simp add: socket_recv_def)
    moreover have "take n bs \<noteq> []" using False ev by simp
    ultimately have step: "tcp_fill header n got (e_now t) t
        = tcp_fill header (n - length (take n bs)) (got @ take n bs) (e_now ?t2) ?t2"
      using False by (subst tcp_fill.simps) (simp add: Let_def)
    have pending: "esp_pending t = bs @ concat (map (arrived \<circ> snd) evs)"
      by (simp add: esp_pending_def ev)
    have up: "esp_up ?t2" using less.prems(1) ev by (auto simp: esp_up_def)
    have rest: "esp_pending ?t2 = drop (length (take n bs)) (esp_pending t)"
      by (simp add: esp_pending_def ev)
    have "n - length (take n bs) < n" using False ev by simp
    moreover have "n - length (take n bs) \<le> length (esp_pending ?t2)"
      using less.prems(2) unfolding rest by simp
    ultimately obtain t' where
      "tcp_fill header (n - length (take n bs)) (got @ take n bs) (e_now ?t2) ?t2
        = (Ret ((got @ take n bs) @ take (n - length (take n bs)) (esp_pending ?t2)), t')"
      "esp_up t'" "esp_pending t' = drop (n - length (take n bs)) (esp_pending ?t2)" "e_out t' = e_out ?t2"
      using less.IH [OF _ up] by blast
    then show ?thesis
      unfolding step rest by (auto simp: pending min_def)
  qed
qed

lemma usmp_tcp_recv_frame:
  assumes up: "esp_up t" and ok: "sendable p s" and input: "esp_pending t = frame_bytes ty p s @ rest"
    and room: "12 + length p \<le> max_len"
  shows "\<exists>t'. usmp_tcp_recv max_len t = (Ret (frame_bytes ty p s), t')
    \<and> esp_up t' \<and> esp_pending t' = rest \<and> e_out t' = e_out t"
proof -
  let ?f = "frame_bytes ty p s"
  let ?header = "take 12 ?f"
  have header: "take 12 (esp_pending t) = ?header" "drop 12 (esp_pending t) = p @ rest"
    using frame_bytes_header(3) [OF ok, of ty] by (simp_all add: input)
  obtain t1 where t1: "tcp_fill True 12 [] (e_now t) t = (Ret ?header, t1)" "esp_up t1"
    "esp_pending t1 = p @ rest" "e_out t1 = e_out t"
    using tcp_fill_up [OF up, of 12 True "[]"] header input by auto
  have "uint (get16 ?header 8) = int (length p)"
    using get16_at [of 8 ?header] frame_bytes_header(2) [OF ok] by simp
  then have len: "unat (get16 ?header 8) = length p" by (simp add: unat_eq_nat_uint)
  obtain t2 where t2: "tcp_fill False (length p) ?header (e_now t1) t1 = (Ret (?header @ p), t2)" "esp_up t2"
    "esp_pending t2 = rest" "e_out t2 = e_out t"
    using tcp_fill_up [OF t1(2), of "length p" False ?header] t1 by auto
  have all: "?header @ p = ?f"
    using append_take_drop_id [of 12 ?f] frame_bytes_header(3) [OF ok, of ty] by simp
  have "e_open t" using up by (simp add: esp_up_def)
  then have "usmp_tcp_recv max_len t = (Ret ?f, t2)"
    using ok room t1(1) t2(1) all by (simp add: usmp_tcp_recv_def bind_io_def len sendable_def)
  with t2 show ?thesis by blast
qed

interpretation esp: core_stream usmp_transport_tcp esp_pending e_out esp_up
proof
  fix t p s ty rest
  assume "esp_up t" "sendable p s" "esp_pending t = frame_bytes ty p s @ rest"
  then show "\<exists>t'. t_recv usmp_transport_tcp 492 t = (Ret (frame_bytes ty p s), t')
      \<and> esp_up t' \<and> esp_pending t' = rest \<and> e_out t' = e_out t"
    using usmp_tcp_recv_frame [of t p s ty rest 492] by (simp add: usmp_transport_tcp_def sendable_def)
next
  fix t p s ty
  assume "esp_up t"
  then show "\<exists>t'. t_send usmp_transport_tcp (frame_bytes ty p s) t = (Ret (), t')
      \<and> esp_up t' \<and> esp_pending t' = esp_pending t \<and> e_out t' = e_out t @ frame_bytes ty p s"
    using tcp_send_up [of t "frame_bytes ty p s"]
    by (auto simp: usmp_transport_tcp_def usmp_tcp_send_def esp_up_def esp_pending_def)
qed (auto simp: usmp_transport_tcp_def is_udp_def usmp_tcp_set_session_keys_def esp_random_def esp_up_def
    esp_pending_def)

section \<open>A device and a server\<close>

lemma peers_seq: "peers a b \<Longrightarrow> 0 \<le> tx_seq b \<and> 8 \<le> length (session_id b)"
  unfolding peers_def paired_def by blast

lemma paired_advance_back: "paired b a \<Longrightarrow> paired (advance_rx n b) (advance_tx n a)"
  by (simp add: paired_def advance_tx_def advance_rx_def)

lemma peers_advance:
  "peers a b \<Longrightarrow> peers (advance_tx n a) (advance_rx n b)"
  "peers a b \<Longrightarrow> peers (advance_rx n a) (advance_tx n b)"
  unfolding peers_def using paired_advance paired_advance_back by blast+

text \<open>
  C4: a device and the Python SDK understand each other: over TCP, with sessions whose keys and counters
  match, a message that the device sends with \<open>usmp_send\<close> is the message that \<open>recv\<close> of the
  server returns, and the answer that the server sends is the one that \<open>usmp_recv\<close> of the
  device returns, however the network cuts the bytes into segments; the sessions match again
  afterwards.
\<close>

theorem device_and_server_talk:
  assumes law: "mbedtls_law M C" "aead_law C"
    and device: "core_ok ctx" "esp_up (c_transport ctx)" "c_established ctx"
    and server: "tcp_open (s_transport s)" "4 \<le> fuel" "\<forall>v. effective_timeout timeout s = Some v \<longrightarrow> 0 < v"
    and peers: "peers (core_info ctx) (s_info s)"
    and lengths: "length data \<le> 1808" "length answer \<le> 1808" "length answer \<le> unat max_len"
    and seqs: "uint (c_tx_seq ctx) + 4 \<le> 0xFFFFFFFF" "tx_seq (s_info s) + 4 \<le> 0xFFFFFFFF"
    and request: "usmp_send usmp_transport_tcp M data ctx = (o1, ctx1)"
      "e_out (c_transport ctx1) = e_out (c_transport ctx) @ tcp_in (s_transport s)"
      "recv tcp_ops C fuel timeout s = (o2, s1)"
    and response: "send tcp_ops C answer s1 = (o3, s2)"
      "tcp_out (s_transport s2) = tcp_out (s_transport s) @ esp_pending (c_transport ctx)"
      "usmp_recv usmp_transport_tcp M max_len ctx1 = (o4, ctx2)"
  shows "o1 = Ret () \<and> o2 = Ret (Some data) \<and> o3 = Ret () \<and> o4 = Ret answer
    \<and> peers (core_info ctx2) (s_info s2)"
proof -
  let ?n = "length (fragments data)" and ?m = "length (fragments answer)"
  have o1: "o1 = Ret ()" and ctx1: "core_info ctx1 = advance_tx ?n (core_info ctx)" "esp_up (c_transport ctx1)"
      "c_established ctx1" "esp_pending (c_transport ctx1) = esp_pending (c_transport ctx)"
    and wire: "tcp_in (s_transport s) = wire_of C (core_info ctx) (fragments data)"
    using esp.usmp_send_stream [OF law device lengths(1) seqs(1)] request device
    by (auto simp: esp.arrives_def)
  have pair: "paired (core_info ctx) (s_info s)" using peers by (simp add: peers_def)
  have "tcp_in (s_transport s) = wire_of C (core_info ctx) (fragments data) @ []" using wire by simp
  from tcp_recv_message [OF law(2) lengths(1) pair _ server(2) this server(3)] seqs(1) request(3)
  have o2: "o2 = Ret (Some data)" and s1: "s_info s1 = advance_rx ?n (s_info s)" "quiet s s1" by auto
  have mid: "peers (core_info ctx1) (s_info s1)"
    using peers_advance(1) [OF peers] by (simp only: ctx1(1) s1(1))
  have open1: "tcp_open (s_transport s1)" "tcp_out (s_transport s1) = tcp_out (s_transport s)"
    using s1(2) server(1) by (simp_all add: quiet_def)
  have tx: "tx_seq (s_info s1) = tx_seq (s_info s)" by (simp add: s1(1) advance_rx_def)
  have "8 \<le> length (session_id (s_info s1))" "0 \<le> tx_seq (s_info s1)" "tx_seq (s_info s1) + 4 \<le> 0xFFFFFFFF"
    using peers_seq [OF mid] seqs(2) by (simp_all add: tx)
  note sent = tcp_send_message [OF law(2) lengths(2) this open1(1)]
  have o3: "o3 = Ret ()" and s2: "s_info s2 = advance_tx ?m (s_info s1)"
    and answer: "esp_pending (c_transport ctx1) = wire_of C (s_info s1) (fragments answer) @ []"
    using sent response(1,2) open1(2) ctx1(4) by simp_all
  have ok1: "core_ok ctx1" using core_info_advance(2) [OF ctx1(1) device(1)] .
  have "paired (s_info s1) (core_info ctx1)" using mid by (simp add: peers_def)
  from esp.usmp_recv_stream [OF law ok1 ctx1(2,3) this lengths(2,3) _ answer] seqs(2) response(3) tx
  have o4: "o4 = Ret answer" and ctx2: "core_info ctx2 = advance_rx ?m (core_info ctx1)"
    by (auto simp: esp.arrives_def)
  have "peers (core_info ctx2) (s_info s2)"
    using peers_advance(2) [OF mid] by (simp only: ctx2 s2)
  then show ?thesis using o1 o2 o3 o4 by blast
qed

definition demo_ctx :: "'t \<Rightarrow> 't usmp_ctx" where
  "demo_ctx t =
     \<lparr>c_dev_id = device_id demo_info, c_session_id = session_id demo_info, c_tx_key = tx_key demo_info,
      c_rx_key = rx_key demo_info, c_established = True, c_transport = t, c_tx_seq = 0, c_rx_seq = 0,
      c_keepalive_ms = 0, c_last_tx_ms = 0, c_rx_window_bitmap = 0, c_cipher_suite = 0, c_device_psk = None\<rparr>"

definition demo_esp :: "bytes \<Rightarrow> esp_tcp" where
  "demo_esp input =
     \<lparr>e_open = True, e_events = [(5, Arrived (take 20 input)), (300, Arrived (drop 20 input))], e_now = 1000,
      e_out = [], e_accepts = [Some 7], e_dials = [], e_random = (\<lambda>i. of_nat i), e_mac = replicate 6 1, e_session_active = True\<rparr>"

definition demo_device :: "bytes \<Rightarrow> esp_tcp usmp_ctx" where
  "demo_device input = demo_ctx (demo_esp input)"

lemma demo_device_simps [simp]:
  "core_ok (demo_device input)" "core_info (demo_device input) = demo_info" "c_established (demo_device input)"
  "c_tx_seq (demo_device input) = 0" "e_out (c_transport (demo_device input)) = []"
  "esp_pending (c_transport (demo_device input)) = input"
  "20 < length input \<Longrightarrow> esp_up (c_transport (demo_device input))"
  by (auto simp: demo_device_def demo_ctx_def demo_esp_def core_ok_def core_info_def demo_info_def esp_pending_def esp_up_def)

theorem device_and_server_talk_witness:
  "\<exists>request reply ctx1 s1 s2 ctx2.
     usmp_send usmp_transport_tcp (mbedtls_of demo_crypto) [1, 2, 3] (demo_device reply) = (Ret (), ctx1)
     \<and> recv tcp_ops demo_crypto 4 None ((demo_session (demo_tcp request))\<lparr>s_info := demo_peer_info\<rparr>)
       = (Ret (Some [1, 2, 3]), s1)
     \<and> send tcp_ops demo_crypto [7, 8] s1 = (Ret (), s2) \<and> tcp_out (s_transport s2) = reply
     \<and> usmp_recv usmp_transport_tcp (mbedtls_of demo_crypto) 452 ctx1 = (Ret [7, 8], ctx2)"
proof -
  let ?M = "mbedtls_of demo_crypto"
  let ?info = "advance_rx 1 demo_peer_info"
  let ?request = "wire_of demo_crypto demo_info (fragments [1, 2, 3])"
  let ?reply = "wire_of demo_crypto ?info (fragments [7, 8])"
  let ?s = "(demo_session (demo_tcp ?request))\<lparr>s_info := demo_peer_info\<rparr>"
  note law = mbedtls_of_law [OF demo_crypto_laws(1)] demo_crypto_laws(1)
  note infos = demo_peer_info_def demo_info_def demo_session_def demo_tcp_def tcp_connected_def
  have peers: "peers demo_info demo_peer_info" by (simp add: peers_def paired_def infos)
  have frs: "fragments [1, 2, 3] = [(DATA, [1, 2, 3])]" "fragments [7, 8] = [(DATA, [7, 8])]"
    by (subst fragments.simps, simp)+
  obtain ct where "seal demo_crypto ?info DATA [7, 8] = Inr ct" "length ct = 30"
    using seal_ok [of ?info "[7, 8]" demo_crypto DATA] seal_length [OF law(2), of ?info DATA "[7, 8]"]
    by (auto simp: infos advance_rx_def)
  then have long: "20 < length ?reply" by (simp add: frs)
  obtain o1 ctx1 where snd: "usmp_send usmp_transport_tcp ?M [1, 2, 3] (demo_device ?reply) = (o1, ctx1)" by fastforce
  obtain o2 s1 where rcv: "recv tcp_ops demo_crypto 4 None ?s = (o2, s1)" by fastforce
  obtain o3 s2 where snd2: "send tcp_ops demo_crypto [7, 8] s1 = (o3, s2)" by fastforce
  obtain o4 ctx2 where rcv2: "usmp_recv usmp_transport_tcp ?M 452 ctx1 = (o4, ctx2)" by fastforce
  have out1: "e_out (c_transport ctx1) = ?request"
    using esp.usmp_send_stream [OF law, of "demo_device ?reply" "[1, 2, 3]"] snd long
    by (auto simp: esp.arrives_def)
  have s1: "s_info s1 = ?info" "quiet ?s s1"
    using tcp_recv_message [OF law(2), of "[1, 2, 3]" demo_info ?s 4 "[]" None] rcv peers
    by (auto simp: peers_def effective_timeout_def frs infos)
  have "tcp_open (s_transport s1)" using s1(2) by (simp add: quiet_def infos tcp_open_def)
  then have out2: "tcp_out (s_transport s2) = ?reply"
    using tcp_send_message [OF law(2), of "[7, 8]" s1] snd2 s1
    by (simp add: infos advance_rx_def quiet_def)
  have s: "tcp_open (s_transport ?s)" "tcp_in (s_transport ?s) = ?request" "tcp_out (s_transport ?s) = []"
    "s_info ?s = demo_peer_info" "effective_timeout None ?s = None" "tx_seq demo_peer_info = 0"
    by (simp_all add: infos tcp_open_def effective_timeout_def)
  have "o1 = Ret () \<and> o2 = Ret (Some [1, 2, 3]) \<and> o3 = Ret () \<and> o4 = Ret [7, 8]
    \<and> peers (core_info ctx2) (s_info s2)"
    by (rule device_and_server_talk [OF law _ _ _ s(1) _ _ _ _ _ _ _ _ snd _ rcv snd2 _ rcv2])
      (use long peers out1 out2 in \<open>simp_all only: s demo_device_simps\<close>, simp_all)
  with snd rcv snd2 out2 rcv2 show ?thesis by blast
qed

text \<open>
  C22: a device and the server change keys together: the server that reads what \<open>usmp_rekey\<close> of the device
  has sent derives the same pair of keys with the roles swapped, so that the sessions match
  again, with all their counters at zero.
\<close>

theorem device_and_server_rekey:
  assumes law: "mbedtls_law M C" "aead_law C"
    and device: "core_ok ctx" "esp_up (c_transport ctx)" "c_established ctx"
    and peers: "peers (core_info ctx) (s_info s)" and seq: "uint (c_tx_seq ctx) < 0xFFFFFFFF"
    and request: "usmp_rekey usmp_transport_tcp M ctx = (o1, ctx1)"
      "e_out (c_transport ctx1) = e_out (c_transport ctx) @ tcp_in (s_transport s)"
      "recv_step tcp_ops C (recv_start now) s = (o2, s1)"
  shows "o1 = Ret () \<and> o2 = Ret (Next (recv_start now)) \<and> peers (core_info ctx1) (s_info s1)
    \<and> c_tx_seq ctx1 = 0 \<and> tx_seq (s_info s1) = 0"
proof -
  let ?salt = "map (e_random (c_transport ctx)) [0..<32]"
  have "p_random usmp_transport_tcp 32 (c_transport ctx)
      = (Ret ?salt, (c_transport ctx)\<lparr>e_random := (\<lambda>i. e_random (c_transport ctx) (i + 32))\<rparr>)"
    by (simp add: usmp_transport_tcp_def esp_random_def)
  from esp.usmp_rekey_stream [OF law device seq this] request obtain ct where
    ct: "seal C (core_info ctx) REKEY ?salt = Inr ct" "tcp_in (s_transport s) = frame_bytes REKEY ct (uint (c_tx_seq ctx)) @ []"
    and o1: "o1 = Ret ()" and info1: "core_info ctx1 = rekey_info C True ?salt (core_info ctx)"
    by (auto simp: esp.arrives_def)
  have pair: "paired (core_info ctx) (s_info s)" using peers by (simp add: peers_def)
  have s1: "o2 = Ret (Next (recv_start now)) \<and> s_info s1 = rekey_info C False ?salt (advance_rx 1 (s_info s))"
    using recv_rekey_tcp [OF law(2) pair ct(1), of "[]" now] ct(2) seq request(3) by auto
  then have "peers (core_info ctx1) (s_info s1)"
    using peers_rekey [OF peers, of C ?salt 1] info1 by simp
  moreover have "uint (c_tx_seq ctx1) = 0" "tx_seq (s_info s1) = 0"
    using arg_cong [OF info1, of tx_seq] s1 by (simp_all add: rekey_info_def split: prod.splits)
  ultimately show ?thesis using o1 s1 by (simp add: word_uint_eq_iff)
qed

theorem device_and_server_rekey_witness:
  "\<exists>ctx1 s1.
     usmp_rekey usmp_transport_tcp (mbedtls_of demo_crypto) (demo_device (replicate 21 0)) = (Ret (), ctx1)
     \<and> recv_step tcp_ops demo_crypto (recv_start 0)
         ((demo_session (demo_tcp (e_out (c_transport ctx1))))\<lparr>s_info := demo_peer_info\<rparr>)
       = (Ret (Next (recv_start 0)), s1)
     \<and> peers (core_info ctx1) (s_info s1)"
proof -
  let ?d = "demo_device (replicate 21 0)"
  obtain o1 ctx1 where rk: "usmp_rekey usmp_transport_tcp (mbedtls_of demo_crypto) ?d = (o1, ctx1)" by fastforce
  let ?s = "(demo_session (demo_tcp (e_out (c_transport ctx1))))\<lparr>s_info := demo_peer_info\<rparr>"
  obtain o2 s1 where rc: "recv_step tcp_ops demo_crypto (recv_start 0) ?s = (o2, s1)" by fastforce
  have "peers (core_info ?d) (s_info ?s)"
    by (simp add: peers_def paired_def demo_info_def demo_peer_info_def)
  moreover have "e_out (c_transport ctx1) = e_out (c_transport ?d) @ tcp_in (s_transport ?s)"
    by (simp add: demo_session_def demo_tcp_def tcp_connected_def)
  ultimately have "o1 = Ret () \<and> o2 = Ret (Next (recv_start 0)) \<and> peers (core_info ctx1) (s_info s1)
      \<and> c_tx_seq ctx1 = 0 \<and> tx_seq (s_info s1) = 0"
    by (intro device_and_server_rekey [OF mbedtls_of_law [OF demo_crypto_laws(1)] demo_crypto_laws(1) _ _ _ _ _ rk _ rc])
      simp_all
  with rk rc show ?thesis by blast
qed

section \<open>An idle connection\<close>

lemma tcp_recv_idle:
  assumes "e_open t" "e_session_active t" "\<forall>e\<in>set (take 1 (e_events t)). 2000 < fst e" "12 \<le> max_len"
  shows "\<exists>t'. usmp_tcp_recv max_len t = (Ret [], t') \<and> e_now t' = e_now t + 2000"
  using assms by (cases "e_events t")
    (auto simp: usmp_tcp_recv_def bind_io_def tcp_fill.simps [of True 12] socket_select_def tcp_stalled_def Let_def)

text \<open>
  When nothing arrives for two seconds, \<open>usmp_recv\<close> of an established session over TCP returns -1, although
  the transport reported an empty read and the session goes on unchanged: the caller cannot tell an idle
  connection from a frame that was rejected.
\<close>

theorem idle_recv_fails:
  assumes "c_established ctx" and "e_open (c_transport ctx)" and "e_session_active (c_transport ctx)"
    and "\<forall>e\<in>set (take 1 (e_events (c_transport ctx))). 2000 < fst e"
    and "usmp_recv usmp_transport_tcp M max_len ctx = (o1, ctx1)"
  shows "o1 = Raise (-1) \<and> c_established ctx1 \<and> core_info ctx1 = core_info ctx
    \<and> e_now (c_transport ctx1) = e_now (c_transport ctx) + 2000"
proof -
  obtain t' where "t_recv usmp_transport_tcp 492 (c_transport ctx) = (Ret [], t')"
      "e_now t' = e_now (c_transport ctx) + 2000"
    using tcp_recv_idle [OF assms(2-4), of 492] by (auto simp: usmp_transport_tcp_def)
  moreover have "fst (usmp_parse_packet [] blank_packet) \<noteq> 0" by (simp add: usmp_parse_packet_def)
  ultimately show ?thesis
    using assms(1,5) esp.reliable
    by (auto simp: usmp_recv_def if_connected_def numeral_eq_Suc core_recv_step_def unless_dropped_def core_read_def
        bind_io_def catch_io_def on_device_def core_reject_def core_info_def split: prod.splits)
qed

theorem idle_recv_fails_witness:
  "\<exists>ctx1. usmp_recv usmp_transport_tcp (mbedtls_of demo_crypto) 452
       (demo_ctx ((demo_esp [])\<lparr>e_events := [(5000, Arrived [1])]\<rparr>)) = (Raise (-1), ctx1)
   \<and> c_established ctx1"
proof -
  let ?ctx = "demo_ctx ((demo_esp [])\<lparr>e_events := [(5000, Arrived [1])]\<rparr>)"
  obtain o1 ctx1 where r: "usmp_recv usmp_transport_tcp (mbedtls_of demo_crypto) 452 ?ctx = (o1, ctx1)" by fastforce
  from idle_recv_fails [OF _ _ _ _ r] r show ?thesis by (simp add: demo_ctx_def demo_esp_def)
qed

end
