(* ===== verification/CoreSafety.thy ===== *)
theory CoreSafety
  imports CoreTcp
begin

text \<open>
  Safety of sessions of the C core over any transport, with any results of mbedTLS and after
  any sequence of calls: no nonce is used twice under a key, and over UDP no sequence number
  is confirmed twice in a key epoch.
\<close>

section \<open>Sequences of calls\<close>

datatype core_op = C_send bytes | C_recv "16 word" | C_ping | C_keepalive | C_rekey | C_bye

fun run_core :: "'t platform \<Rightarrow> mbedtls \<Rightarrow> core_op \<Rightarrow> 't usmp_ctx \<Rightarrow> 't usmp_ctx" where
  "run_core P M (C_send data) ctx = snd (usmp_send P M data ctx)"
| "run_core P M (C_recv max_len) ctx = snd (usmp_recv P M max_len ctx)"
| "run_core P M C_ping ctx = snd (usmp_ping P M ctx)"
| "run_core P M C_keepalive ctx = snd (usmp_keepalive_tick P M ctx)"
| "run_core P M C_rekey ctx = snd (usmp_rekey P M ctx)"
| "run_core P M C_bye ctx = snd (usmp_send_bye P M ctx)"

fun run_core_ops :: "'t platform \<Rightarrow> mbedtls \<Rightarrow> core_op list \<Rightarrow> 't usmp_ctx \<Rightarrow> 't usmp_ctx" where
  "run_core_ops P M [] ctx = ctx"
| "run_core_ops P M (c # cs) ctx = run_core_ops P M cs (run_core P M c ctx)"

section \<open>Which invariants a session of the core keeps\<close>

locale core_steps =
  fixes P :: "'t platform" and M :: mbedtls and Inv :: "'t usmp_ctx \<Rightarrow> bool"
  assumes inv_recv: "preserves Inv (on_device (t_recv P n))"
    and inv_random: "preserves Inv (on_device (p_random P n))"
    and inv_millis: "preserves Inv (usmp_port_millis P)"
    and inv_available: "t_available P = Some f \<Longrightarrow>
      preserves Inv (on_device (\<lambda>t. case f t of (n, t') \<Rightarrow> (Ret n, t')))"
    and inv_disconnect: "Inv ctx \<Longrightarrow> Inv (disconnect ctx)"
    and inv_emit: "length data \<le> 452 \<Longrightarrow> preserves Inv (emit_frame P M type data)"
    and inv_rotate: "preserves Inv (core_rotate P M rc ini salt)"
    and inv_accept: "Inv ctx \<Longrightarrow>
      \<not> is_udp P \<or> \<not> core_replay_drop (c_rx_seq ctx) (c_rx_window_bitmap ctx) seq \<Longrightarrow>
      Inv (snd (core_accept_seq P seq ctx))"
begin

lemma inv_fail_closed: "preserves Inv (fail_closed rc)"
  by (auto simp: fail_closed_def intro!: preserve inv_disconnect)

lemma inv_if_connected: "preserves Inv m \<Longrightarrow> preserves Inv (if_connected rc m)"
  by (auto simp: if_connected_def preserves_def)

lemma inv_with_code: "preserves Inv m \<Longrightarrow> preserves Inv (with_code rc m)"
  by (auto simp: with_code_def intro!: preserve)

lemma inv_control: "preserves Inv (send_control P M type)"
  by (simp add: send_control_def inv_emit)

lemmas inv_pieces = inv_fail_closed inv_if_connected inv_with_code inv_control inv_millis inv_random
  inv_recv inv_rotate

lemma inv_send_loop: "preserves Inv (usmp_send_loop P M data offset)"
proof (induction "length data - offset" arbitrary: offset rule: less_induct)
  case less
  show ?case
  proof (cases "offset < length data \<or> length data = 0")
    case False
    then show ?thesis by (subst usmp_send_loop.simps) (auto intro: preserve)
  next
    case True
    let ?chunk = "slice offset (offset + min (length data - offset) 452) data"
    have size: "length ?chunk \<le> 452" by (simp add: length_slice)
    have rest: "preserves Inv (if length data = 0 then ret ()
        else usmp_send_loop P M data (offset + length ?chunk))"
      using less True by (auto simp: length_slice intro: preserve)
    from True show ?thesis
      by (subst usmp_send_loop.simps)
        (simp only: if_True Let_def, intro preserve inv_emit size rest)
  qed
qed

lemma inv_usmp_send: "preserves Inv (usmp_send P M data)"
  unfolding usmp_send_def
  by (rule inv_if_connected)
    (auto simp: preserves_def Let_def fail_closed_def bind_io_def inv_disconnect
      intro: inv_send_loop [unfolded preserves_def, rule_format])

lemma inv_usmp_ping: "preserves Inv (usmp_ping P M)"
  by (auto simp: usmp_ping_def intro!: preserve inv_pieces)

lemma inv_usmp_keepalive: "preserves Inv (usmp_keepalive_tick P M)"
  by (auto simp: usmp_keepalive_tick_def intro!: preserve inv_pieces inv_usmp_ping)

lemma inv_usmp_send_bye: "preserves Inv (usmp_send_bye P M)"
  by (auto simp: usmp_send_bye_def intro!: inv_pieces)

lemma inv_usmp_rekey: "preserves Inv (usmp_rekey P M)"
  unfolding usmp_rekey_def
proof (rule inv_if_connected, rule preservesI)
  fix ctx
  assume ctx: "Inv ctx"
  let ?draw = "with_code USMP_ERR_CRYPTO_FAILED (usmp_port_random P 32)"
  let ?use = "\<lambda>salt. bind_io (with_code USMP_ERR_TRANSPORT_FAILED (emit_frame P M USMP_TYPE_REKEY salt)) (\<lambda>_.
    core_rotate P M USMP_ERR_CRYPTO_FAILED True salt)"
  obtain out ctx1 where draw: "?draw ctx = (out, ctx1)" by fastforce
  have "preserves Inv ?draw" by (auto simp: usmp_port_random_def intro!: preserve inv_pieces)
  from preservesD [OF this ctx draw] have ctx1: "Inv ctx1" .
  show "Inv (snd (bind_io ?draw ?use ctx))"
  proof (cases out)
    case (Ret salt)
    then have "length salt = 32"
      using draw
      by (auto simp: with_code_def catch_io_def usmp_port_random_def bind_io_def split: prod.splits outcome.splits)
    then have "preserves Inv (?use salt)" by (intro preserve inv_pieces inv_emit) simp
    with ctx1 show ?thesis by (simp add: bind_io_def draw Ret preserves_def)
  qed (simp_all add: bind_io_def draw ctx1)
qed

lemma inv_next: "preserves Inv (core_next P l)"
  by (auto simp: core_next_def Let_def intro!: preserve inv_available split: option.splits)

lemma inv_dispatch: "preserves Inv (core_dispatch P M pkt plaintext l)"
  by (auto simp: core_dispatch_def core_data_def Let_def intro!: preserve inv_pieces inv_next)

lemma reject_state: "snd (core_reject P ctx) = ctx"
  by (simp add: core_reject_def)

lemma dec_max_state: "snd (core_dec_max P max_len l type ctx) = ctx"
  by (simp add: core_dec_max_def reject_state)

lemma open_state: "snd (core_open P M dec_max pkt ctx) = ctx"
  by (auto simp: core_open_def bind_io_def reject_state split: option.splits)

lemma inv_unless:
  "preserves Inv m \<Longrightarrow> (\<And>x. preserves Inv (f x)) \<Longrightarrow> preserves Inv (unless_dropped m l f)"
  by (auto simp: unless_dropped_def intro!: preserve split: option.splits)

lemma inv_unless_read:
  "Inv ctx \<Longrightarrow> snd (m ctx) = ctx \<Longrightarrow> (\<And>x. Inv (snd (f x ctx))) \<Longrightarrow> Inv (snd (unless_dropped m l f ctx))"
  by (cases "m ctx") (auto simp: unless_dropped_def bind_io_def split: outcome.splits option.splits)

lemma inv_accept_dispatch:
  assumes "Inv ctx"
    and "\<not> is_udp P \<or> \<not> core_replay_drop (c_rx_seq ctx) (c_rx_window_bitmap ctx) (pkt_seq pkt)"
  shows "Inv (snd (bind_io (core_accept_seq P (pkt_seq pkt)) (\<lambda>_. core_dispatch P M pkt plaintext l) ctx))"
  using inv_accept [OF assms] inv_dispatch
  by (auto simp: bind_io_def preserves_def split: prod.splits outcome.splits)

lemma inv_checked:
  "preserves Inv (bind_io (core_replay_check P pkt) (\<lambda>dropped.
     if dropped then ret (Again l)
     else
       unless_dropped (core_dec_max P max_len l (pkt_type pkt)) l (\<lambda>dec_max.
       unless_dropped (core_open P M dec_max pkt) l (\<lambda>plaintext.
       bind_io (core_accept_seq P (pkt_seq pkt)) (\<lambda>_.
       core_dispatch P M pkt plaintext l)))))"
  (is "preserves Inv (bind_io ?check ?rest)")
proof (rule preservesI)
  fix ctx
  assume "Inv ctx"
  obtain r ctx1 where ck: "?check ctx = (r, ctx1)" by fastforce
  have "preserves Inv ?check"
    by (auto simp: core_replay_check_def intro!: preserve inv_pieces)
  from preservesD [OF this \<open>Inv ctx\<close> ck] have ctx1: "Inv ctx1" .
  show "Inv (snd (bind_io ?check ?rest ctx))"
  proof (cases "r = Ret False")
    case True
    have "\<not> is_udp P \<or> \<not> core_replay_drop (c_rx_seq ctx1) (c_rx_window_bitmap ctx1) (pkt_seq pkt)"
      using ck True by (auto simp: core_replay_check_def fail_closed_def bind_io_def split: if_splits)
    then have "Inv (snd (?rest False ctx1))"
      by (simp only: if_False) (intro inv_unless_read inv_accept_dispatch ctx1 dec_max_state open_state)
    with ck True show ?thesis by (simp add: bind_io_def)
  next
    case False
    with ck ctx1 show ?thesis by (auto simp: bind_io_def split: outcome.splits)
  qed
qed

lemma inv_recv_step: "preserves Inv (core_recv_step P M max_len l)"
proof -
  have "preserves Inv (core_read P)"
    by (auto simp: core_read_def core_reject_def intro!: preserve inv_pieces split: prod.splits)
  then show ?thesis unfolding core_recv_step_def by (rule inv_unless) (rule inv_checked)
qed

lemma inv_recv_loop: "preserves Inv (core_recv_loop P M max_len attempts l)"
  by (induction attempts arbitrary: l)
    (auto intro!: preserve inv_pieces inv_recv_step split: core_flow.splits)

lemma inv_usmp_recv: "preserves Inv (usmp_recv P M max_len)"
  by (auto simp: usmp_recv_def intro!: inv_pieces inv_recv_loop)
lemma inv_core_op: "Inv ctx \<Longrightarrow> Inv (run_core P M c ctx)"
  using inv_usmp_send inv_usmp_recv inv_usmp_ping inv_usmp_keepalive inv_usmp_rekey inv_usmp_send_bye
  by (cases c) (auto simp: preserves_def)

lemma inv_core_ops: "Inv ctx \<Longrightarrow> Inv (run_core_ops P M cs ctx)"
  by (induction cs arbitrary: ctx) (auto intro: inv_core_op)

end

section \<open>A recording platform\<close>

text \<open>It records the datagrams sent, the keys installed and the numbers confirmed, newest first.\<close>

datatype core_event = Sent bytes | Keys bytes bytes | Accepted "32 word"

definition keep_log :: "('t, int, 'a) io \<Rightarrow> ('t \<times> core_event list, int, 'a) io" where
  "keep_log m x = (case m (fst x) of (out, t) \<Rightarrow> (out, (t, snd x)))"

definition core_recording :: "'t platform \<Rightarrow> ('t \<times> core_event list) platform" where
  "core_recording P =
     \<lparr>t_send = (\<lambda>data x. case t_send P data (fst x) of (out, t) \<Rightarrow> (out, (t, Sent data # snd x))),
      t_recv = (\<lambda>n. keep_log (t_recv P n)),
      t_close = map_option (\<lambda>f x. (f (fst x), snd x)) (t_close P),
      t_reconnect = map_option keep_log (t_reconnect P),
      t_available = map_option (\<lambda>f x. case f (fst x) of (n, t) \<Rightarrow> (n, (t, snd x))) (t_available P),
      t_confirm_authenticated =
        map_option (\<lambda>f seq x. (f seq (fst x), Accepted seq # snd x)) (t_confirm_authenticated P),
      t_set_session_keys =
        Some (\<lambda>tx rx x. (case t_set_session_keys P of None \<Rightarrow> fst x | Some f \<Rightarrow> f tx rx (fst x),
                        Keys tx rx # snd x)),
      p_millis = (\<lambda>x. case p_millis P (fst x) of (now, t) \<Rightarrow> (now, (t, snd x))),
      p_random = (\<lambda>n. keep_log (p_random P n)), p_device_id = keep_log (p_device_id P),
      p_malloc = p_malloc P, p_private_key = (\<lambda>pers. keep_log (p_private_key P pers))\<rparr>"

fun epoch_sent :: "core_event list \<Rightarrow> bytes list" where
  "epoch_sent [] = []"
| "epoch_sent (Sent d # l) = d # epoch_sent l"
| "epoch_sent (Keys tx rx # l) = []"
| "epoch_sent (Accepted s # l) = epoch_sent l"

fun epoch_accepted :: "core_event list \<Rightarrow> int list" where
  "epoch_accepted [] = []"
| "epoch_accepted (Sent d # l) = epoch_accepted l"
| "epoch_accepted (Keys tx rx # l) = []"
| "epoch_accepted (Accepted s # l) = uint s # epoch_accepted l"

text \<open>The nonce of a datagram follows its header.\<close>

definition datagram_nonce :: "bytes \<Rightarrow> bytes" where
  "datagram_nonce d = take 12 (drop 12 d)"

fun sent_fresh :: "core_event list \<Rightarrow> bool" where
  "sent_fresh [] = True"
| "sent_fresh (Sent d # l) \<longleftrightarrow> datagram_nonce d \<notin> datagram_nonce ` set (epoch_sent l) \<and> sent_fresh l"
| "sent_fresh (Keys tx rx # l) = sent_fresh l"
| "sent_fresh (Accepted s # l) = sent_fresh l"

fun accepted_fresh :: "core_event list \<Rightarrow> bool" where
  "accepted_fresh [] = True"
| "accepted_fresh (Sent d # l) = accepted_fresh l"
| "accepted_fresh (Keys tx rx # l) = accepted_fresh l"
| "accepted_fresh (Accepted s # l) \<longleftrightarrow> uint s \<notin> set (epoch_accepted l) \<and> accepted_fresh l"

section \<open>Nonces\<close>

text \<open>
  What the buffers of the code rely on: the ciphertext is as long as the plaintext, and the
  tag has 16 bytes.
\<close>

definition mbedtls_lengths :: "mbedtls \<Rightarrow> bool" where
  "mbedtls_lengths M \<longleftrightarrow>
     (\<forall>key nonce aad pt ct tag.
        Some (ct, tag) \<in> {gcm_crypt_and_tag M key nonce aad pt, chachapoly_encrypt_and_tag M key nonce aad pt}
        \<longrightarrow> length ct = length pt \<and> length tag = 16)"

definition core_tx_inv :: "('t \<times> core_event list) usmp_ctx \<Rightarrow> bool" where
  "core_tx_inv ctx \<longleftrightarrow>
     8 \<le> length (c_session_id ctx) \<and> sent_fresh (snd (c_transport ctx))
     \<and> (\<forall>d\<in>set (epoch_sent (snd (c_transport ctx))). \<exists>n < uint (c_tx_seq ctx).
          0 \<le> n \<and> datagram_nonce d = le_bytes 4 n @ take 8 (c_session_id ctx))"

lemma sealed_nonce:
  assumes M: "mbedtls_lengths M" and pt: "length pt \<le> 452" and sid: "8 \<le> length (c_session_id ctx)"
    and sealed: "sealed_packet M type pt ctx = Some pkt"
  shows "datagram_nonce (snd (usmp_build_packet pkt)) = le_bytes 4 (uint (c_tx_seq ctx)) @ take 8 (c_session_id ctx)"
proof -
  let ?nonce = "build_nonce (c_tx_seq ctx) (c_session_id ctx)"
  obtain aad enc where enc: "usmp_crypto_encrypt M (c_cipher_suite ctx) (c_tx_key ctx) ?nonce aad pt = Some enc"
    and pkt: "pkt = \<lparr>pkt_magic = 0xABCD, pkt_version = 2, pkt_type = type, pkt_seq = c_tx_seq ctx,
      pkt_length = word_of_nat (length enc), pkt_crc = 0, pkt_payload = enc @ replicate (480 - length enc) 0\<rparr>"
    using sealed by (auto simp: sealed_packet_def Let_def)
  have len: "length ?nonce = 12" using sid by (simp add: build_nonce_def)
  obtain ct tag where e: "enc = ?nonce @ ct @ tag"
    and "Some (ct, tag) \<in> {gcm_crypt_and_tag M (c_tx_key ctx) ?nonce aad pt,
      chachapoly_encrypt_and_tag M (c_tx_key ctx) ?nonce aad pt}"
    using enc by (auto simp: usmp_crypto_encrypt_def usmp_gcm_encrypt_def usmp_chacha20_poly1305_encrypt_def
      split: if_splits)
  then have "length ct = length pt" "length tag = 16" using M unfolding mbedtls_lengths_def by blast+
  with e len have elen: "length enc = length pt + 28" by simp
  have "unat (word_of_nat (length enc) :: 16 word) = length enc"
    using elen pt by (intro unat_word16) simp
  then have "take 12 (drop 12 (snd (usmp_build_packet pkt))) = ?nonce"
    unfolding pkt using e len
    by (simp add: usmp_build_packet_def Let_def usmp_serialize_header_def)
  then show ?thesis by (simp add: datagram_nonce_def build_nonce_eq)
qed

abbreviation core_log :: "('t \<times> core_event list) usmp_ctx \<Rightarrow> core_event list" where
  "core_log ctx \<equiv> snd (c_transport ctx)"

text \<open>What the steps of a recorded session do to what the invariants read.\<close>

definition core_same :: "('t \<times> core_event list) usmp_ctx \<Rightarrow> ('t \<times> core_event list) usmp_ctx \<Rightarrow> bool" where
  "core_same ctx ctx' \<longleftrightarrow>
     c_session_id ctx' = c_session_id ctx \<and> c_tx_seq ctx' = c_tx_seq ctx \<and> c_rx_seq ctx' = c_rx_seq ctx
     \<and> c_rx_window_bitmap ctx' = c_rx_window_bitmap ctx \<and> core_log ctx' = core_log ctx"

lemma core_same_steps:
  "core_same ctx (snd (on_device (t_recv (core_recording P) n) ctx))"
  "core_same ctx (snd (on_device (p_random (core_recording P) n) ctx))"
  "core_same ctx (snd (usmp_port_millis (core_recording P) ctx))"
  "t_available (core_recording P) = Some f \<Longrightarrow>
   core_same ctx (snd (on_device (\<lambda>x. case f x of (n, x') \<Rightarrow> (Ret n, x')) ctx))"
  "core_same ctx (disconnect ctx)"
  by (auto simp: core_same_def on_device_def core_recording_def keep_log_def usmp_port_millis_def disconnect_def
      split: prod.splits)

lemma core_recording_udp [simp]: "is_udp (core_recording P) = is_udp P"
  by (simp add: is_udp_def core_recording_def)

lemma emit_frame_recorded:
  "c_session_id (snd (emit_frame (core_recording P) M type pt ctx)) = c_session_id ctx
   \<and> c_rx_seq (snd (emit_frame (core_recording P) M type pt ctx)) = c_rx_seq ctx
   \<and> c_rx_window_bitmap (snd (emit_frame (core_recording P) M type pt ctx)) = c_rx_window_bitmap ctx
   \<and> (if c_tx_seq ctx \<ge> 0xFFFFFFFF \<or> sealed_packet M type pt ctx = None
      then c_tx_seq (snd (emit_frame (core_recording P) M type pt ctx)) = c_tx_seq ctx
        \<and> core_log (snd (emit_frame (core_recording P) M type pt ctx)) = core_log ctx
      else c_tx_seq (snd (emit_frame (core_recording P) M type pt ctx)) = c_tx_seq ctx + 1
        \<and> core_log (snd (emit_frame (core_recording P) M type pt ctx))
          = Sent (snd (usmp_build_packet (the (sealed_packet M type pt ctx)))) # core_log ctx)"
  by (auto simp: emit_frame_def fail_closed_def disconnect_def bind_io_def catch_io_def usmp_port_millis_def
      on_device_def core_recording_def Let_def split: prod.splits outcome.splits)

lemma core_rotate_recorded:
  "snd (core_rotate (core_recording P) M rc ini salt ctx) = ctx
   \<or> (\<exists>tx rx t. snd (core_rotate (core_recording P) M rc ini salt ctx)
        = ctx\<lparr>c_tx_key := tx, c_rx_key := rx, c_tx_seq := 0, c_rx_seq := 0, c_rx_window_bitmap := 0,
              c_transport := (t, Keys tx rx # core_log ctx)\<rparr>)"
  by (auto simp: core_rotate_def install_core_keys_def core_recording_def Let_def split: option.splits)

lemma core_window_frame [simp]:
  "c_session_id (core_window_update seq ctx) = c_session_id ctx"
  "c_tx_seq (core_window_update seq ctx) = c_tx_seq ctx"
  "c_transport (core_window_update seq ctx) = c_transport ctx"
  by (simp_all add: core_window_update_def Let_def)

lemma core_accept_recorded:
  "\<not> is_udp P \<Longrightarrow>
   c_session_id (snd (core_accept_seq (core_recording P) seq ctx)) = c_session_id ctx
   \<and> c_tx_seq (snd (core_accept_seq (core_recording P) seq ctx)) = c_tx_seq ctx
   \<and> core_log (snd (core_accept_seq (core_recording P) seq ctx)) = core_log ctx"
  "is_udp P \<Longrightarrow>
   c_session_id (snd (core_accept_seq (core_recording P) seq ctx)) = c_session_id ctx
   \<and> c_tx_seq (snd (core_accept_seq (core_recording P) seq ctx)) = c_tx_seq ctx
   \<and> c_rx_seq (snd (core_accept_seq (core_recording P) seq ctx)) = c_rx_seq (core_window_update seq ctx)
   \<and> c_rx_window_bitmap (snd (core_accept_seq (core_recording P) seq ctx))
     = c_rx_window_bitmap (core_window_update seq ctx)
   \<and> core_log (snd (core_accept_seq (core_recording P) seq ctx)) = Accepted seq # core_log ctx"
  by (auto simp: core_accept_seq_def core_recording_def is_udp_def bind_io_def fail_closed_def disconnect_def)

lemma core_tx_inv_same: "core_tx_inv ctx \<Longrightarrow> core_same ctx ctx' \<Longrightarrow> core_tx_inv ctx'"
  by (simp add: core_tx_inv_def core_same_def)

lemma core_tx_inv_emit:
  assumes M: "mbedtls_lengths M" and pt: "length pt \<le> 452" and inv: "core_tx_inv ctx"
  shows "core_tx_inv (snd (emit_frame (core_recording P) M type pt ctx))"
proof (cases "c_tx_seq ctx \<ge> 0xFFFFFFFF \<or> sealed_packet M type pt ctx = None")
  case True
  then show ?thesis
    using inv emit_frame_recorded [of P M type pt ctx] by (simp add: core_tx_inv_def)
next
  case False
  then obtain pkt where pkt: "sealed_packet M type pt ctx = Some pkt" by auto
  let ?d = "snd (usmp_build_packet pkt)" and ?n = "uint (c_tx_seq ctx)" and ?sid = "take 8 (c_session_id ctx)"
  have nonce: "datagram_nonce ?d = le_bytes 4 ?n @ ?sid"
    using inv by (intro sealed_nonce [OF M pt _ pkt]) (simp add: core_tx_inv_def)
  have succ: "uint (c_tx_seq ctx + 1) = ?n + 1" using False by (simp add: uint_word_ariths word_le_def)
  have n: "0 \<le> ?n" "?n \<le> 0xFFFFFFFF" using uint_lt2p [of "c_tx_seq ctx"] by simp_all
  have below: "\<exists>m < ?n. 0 \<le> m \<and> datagram_nonce d = le_bytes 4 m @ ?sid" if "d \<in> set (epoch_sent (core_log ctx))" for d
    using inv that by (simp add: core_tx_inv_def)
  have "datagram_nonce ?d \<noteq> datagram_nonce d" if "d \<in> set (epoch_sent (core_log ctx))" for d
  proof -
    from below [OF that] obtain m where m: "m < ?n" "0 \<le> m" "datagram_nonce d = le_bytes 4 m @ ?sid" by blast
    with n nonce le_nonce_eq [of ?n m ?sid] show ?thesis by auto
  qed
  moreover have "\<exists>m < ?n + 1. 0 \<le> m \<and> datagram_nonce d = le_bytes 4 m @ ?sid"
    if "d = ?d \<or> d \<in> set (epoch_sent (core_log ctx))" for d
    using that below nonce n(1) by (metis add.commute zless_add1_eq)
  ultimately show ?thesis
    using inv False emit_frame_recorded [of P M type pt ctx]
    by (simp add: core_tx_inv_def pkt succ) blast
qed

interpretation core_tx: core_steps "core_recording P" M "\<lambda>ctx. mbedtls_lengths M \<longrightarrow> core_tx_inv ctx" for P M
proof
  fix data :: bytes and type
  assume "length data \<le> 452"
  then show "preserves (\<lambda>ctx. mbedtls_lengths M \<longrightarrow> core_tx_inv ctx) (emit_frame (core_recording P) M type data)"
    by (auto intro!: preservesI core_tx_inv_emit)
next
  fix rc ini salt
  show "preserves (\<lambda>ctx. mbedtls_lengths M \<longrightarrow> core_tx_inv ctx) (core_rotate (core_recording P) M rc ini salt)"
  proof (rule preservesI)
    fix ctx :: "('a \<times> core_event list) usmp_ctx"
    assume "mbedtls_lengths M \<longrightarrow> core_tx_inv ctx"
    then show "mbedtls_lengths M \<longrightarrow> core_tx_inv (snd (core_rotate (core_recording P) M rc ini salt ctx))"
      using core_rotate_recorded [of P M rc ini salt ctx] by (auto simp: core_tx_inv_def)
  qed
next
  fix ctx :: "('a \<times> core_event list) usmp_ctx" and seq
  assume "mbedtls_lengths M \<longrightarrow> core_tx_inv ctx"
  then show "mbedtls_lengths M \<longrightarrow> core_tx_inv (snd (core_accept_seq (core_recording P) seq ctx))"
    using core_accept_recorded [of P seq ctx] by (cases "is_udp P") (auto simp: core_tx_inv_def)
qed (auto intro!: preservesI intro: core_tx_inv_same core_same_steps)

text \<open>
  C7: no nonce of the C core is ever used twice under one key: over any transport, which may fail after
  the datagram has left, with any keys and ciphertexts, and after any sequence of calls of
  \<open>usmp_send\<close>, \<open>usmp_recv\<close>, \<open>usmp_ping\<close>, \<open>usmp_keepalive_tick\<close>, \<open>usmp_rekey\<close> and \<open>usmp_send_bye\<close>,
  the datagrams sent since any installation of keys carry pairwise different nonces.
\<close>

theorem core_nonces_never_repeat:
  assumes "mbedtls_lengths M" and "c_transport ctx = (t, [])" and "8 \<le> length (c_session_id ctx)"
  shows "sent_fresh (core_log (run_core_ops (core_recording P) M cs ctx))"
proof -
  have "core_tx_inv ctx" using assms by (simp add: core_tx_inv_def)
  with core_tx.inv_core_ops [of M ctx P cs] assms(1) show ?thesis by (simp add: core_tx_inv_def)
qed

lemma mbedtls_of_lengths: "aead_law C \<Longrightarrow> mbedtls_lengths (mbedtls_of C)"
  by (auto simp: mbedtls_lengths_def mbedtls_of_def split_tag_def aead_law_def)

theorem core_nonces_never_repeat_witness:
  "sent_fresh (core_log (run_core_ops (core_recording usmp_transport_tcp) (mbedtls_of demo_crypto)
     [C_send [1, 2], C_ping, C_rekey, C_send [], C_recv 100, C_bye]
     (demo_ctx (demo_esp [], []))))"
  by (rule core_nonces_never_repeat) (simp_all add: mbedtls_of_lengths demo_ctx_def demo_info_def)

section \<open>Replay\<close>

definition core_rx_inv :: "'t platform \<Rightarrow> ('t \<times> core_event list) usmp_ctx \<Rightarrow> bool" where
  "core_rx_inv P ctx \<longleftrightarrow>
     \<not> is_udp P
     \<or> window_tracks (core_info ctx) (set (epoch_accepted (core_log ctx))) \<and> accepted_fresh (core_log ctx)"

lemma core_window_cong:
  "c_rx_seq ctx' = c_rx_seq ctx \<Longrightarrow> c_rx_window_bitmap ctx' = c_rx_window_bitmap ctx \<Longrightarrow>
   window_tracks (core_info ctx') A \<longleftrightarrow> window_tracks (core_info ctx) A"
  by (rule window_tracks_cong) simp_all

lemma core_rx_inv_same: "core_rx_inv P ctx \<Longrightarrow> core_same ctx ctx' \<Longrightarrow> core_rx_inv P ctx'"
  using core_window_cong [of ctx' ctx] by (auto simp: core_rx_inv_def core_same_def)

interpretation core_rx: core_steps "core_recording P" M "core_rx_inv P" for P M
proof
  fix data :: bytes and type
  show "preserves (core_rx_inv P) (emit_frame (core_recording P) M type data)"
  proof (rule preservesI)
    fix ctx
    assume "core_rx_inv P ctx"
    then show "core_rx_inv P (snd (emit_frame (core_recording P) M type data ctx))"
      using emit_frame_recorded [of P M type data ctx]
        core_window_cong [of "snd (emit_frame (core_recording P) M type data ctx)" ctx]
      by (auto simp: core_rx_inv_def split: if_splits)
  qed
next
  fix rc ini salt
  show "preserves (core_rx_inv P) (core_rotate (core_recording P) M rc ini salt)"
  proof (rule preservesI)
    fix ctx
    assume "core_rx_inv P ctx"
    then show "core_rx_inv P (snd (core_rotate (core_recording P) M rc ini salt ctx))"
      using core_rotate_recorded [of P M rc ini salt ctx] by (auto simp: core_rx_inv_def window_tracks_fresh)
  qed
next
  fix ctx and seq
  assume inv: "core_rx_inv P ctx"
    and ok: "\<not> is_udp (core_recording P) \<or> \<not> core_replay_drop (c_rx_seq ctx) (c_rx_window_bitmap ctx) seq"
  show "core_rx_inv P (snd (core_accept_seq (core_recording P) seq ctx))"
  proof (cases "is_udp P")
    case False
    then show ?thesis by (simp add: core_rx_inv_def)
  next
    case True
    let ?A = "set (epoch_accepted (core_log ctx))"
    have t: "window_tracks (core_info ctx) ?A" and fresh: "accepted_fresh (core_log ctx)"
      and drop: "\<not> replay_drop (core_info ctx) (uint seq)"
      using inv ok True by (simp_all add: core_rx_inv_def core_replay_drop_eq)
    from drop have "\<not> core_replay_drop (c_rx_seq ctx) (c_rx_window_bitmap ctx) seq"
      by (simp add: core_replay_drop_eq)
    note upd = core_window_update_eq [OF this]
    have "window_tracks (core_info (core_window_update seq ctx)) (insert (uint seq) ?A)"
      unfolding upd by (rule window.accept_tracks [OF t drop])
    moreover have "uint seq \<notin> ?A" using window.seen_dropped [OF t] drop by blast
    ultimately show ?thesis
      using core_accept_recorded(2) [OF True, of seq ctx] fresh
        core_window_cong [of "snd (core_accept_seq (core_recording P) seq ctx)" "core_window_update seq ctx"]
      by (auto simp: core_rx_inv_def)
  qed
qed (auto intro!: preservesI intro: core_rx_inv_same core_same_steps)

text \<open>
  C8: the C core accepts no datagram twice: over UDP, whatever datagrams arrive and whatever the
  application calls, no sequence number is confirmed twice between two installations of keys.
\<close>

theorem core_rejects_replays:
  assumes "is_udp P" and "c_transport ctx = (t, [])" and "c_rx_window_bitmap ctx = 0"
  shows "accepted_fresh (core_log (run_core_ops (core_recording P) M cs ctx))"
proof -
  have "core_rx_inv P ctx" using assms by (simp add: core_rx_inv_def window_tracks_fresh)
  from core_rx.inv_core_ops [OF this] assms(1) show ?thesis by (simp add: core_rx_inv_def)
qed

theorem core_rejects_replays_witness:
  "accepted_fresh (core_log (run_core_ops
     (core_recording (usmp_transport_tcp\<lparr>t_confirm_authenticated := Some (\<lambda>seq t. t)\<rparr>)) (mbedtls_of demo_crypto)
     [C_recv 100, C_send [7], C_recv 100]
     (demo_ctx (demo_esp (frame_bytes PING [] 0 @ frame_bytes PING [] 0), []))))"
  by (rule core_rejects_replays) (simp_all add: is_udp_def demo_ctx_def)

end
