(* ===== verification/CoreHandshake.thy ===== *)
theory CoreHandshake
  imports CoreSafety HandshakeSafety
begin

text \<open>
  \<open>usmp_handshake.c\<close> and \<open>usmp_connect.c\<close> of the C core: the device's side of the handshake,
  and connecting, reconnecting and closing.  \<open>goto cleanup\<close> with an error code is a raise of
  that code; what the cleanup wipes are buffers that nothing reads afterwards.
\<close>

section \<open>Messages\<close>

definition core_session_keys :: "mbedtls \<Rightarrow> bytes \<Rightarrow> bytes \<Rightarrow> bytes \<Rightarrow> bytes \<Rightarrow> (bytes \<times> bytes) option" where
  "core_session_keys M shared_secret nonce pub_c pub_s =
     (let info = ascii ''usmp-v2'' @ pub_c @ pub_s
      in map_option (\<lambda>key_material. (take 32 key_material, drop 32 key_material))
           (mbedtls_hkdf M nonce shared_secret info 64))"

definition compute_transcript_hmac ::
  "mbedtls \<Rightarrow> bytes \<Rightarrow> 8 word \<Rightarrow> bytes \<Rightarrow> bytes \<Rightarrow> bytes \<Rightarrow> bytes \<Rightarrow> bytes option" where
  "compute_transcript_hmac M psk type nonce id_field pub_c pub_s =
     md_hmac M psk
       ([ucast (0xABCD AND 0xFF :: 16 word), ucast (drop_bit 8 0xABCD AND 0xFF :: 16 word), 2, type]
        @ nonce @ id_field @ pub_c @ pub_s)"

definition handshake_packet :: "8 word \<Rightarrow> 32 word \<Rightarrow> bytes \<Rightarrow> usmp_packet" where
  "handshake_packet type seq payload =
     \<lparr>pkt_magic = 0xABCD, pkt_version = 2, pkt_type = type, pkt_seq = seq,
      pkt_length = word_of_nat (length payload), pkt_crc = 0,
      pkt_payload = payload @ replicate (480 - length payload) 0\<rparr>"

abbreviation USMP_TYPE_HELLO :: "8 word" where "USMP_TYPE_HELLO \<equiv> 0x01"
abbreviation USMP_TYPE_CHALLENGE :: "8 word" where "USMP_TYPE_CHALLENGE \<equiv> 0x02"
abbreviation USMP_TYPE_HELLO_ACK :: "8 word" where "USMP_TYPE_HELLO_ACK \<equiv> 0x03"
abbreviation USMP_TYPE_SESSION_OK :: "8 word" where "USMP_TYPE_SESSION_OK \<equiv> 0x04"
abbreviation USMP_TYPE_HELLO_RETRY :: "8 word" where "USMP_TYPE_HELLO_RETRY \<equiv> 0x0A"

text \<open>A call whose failure ends the handshake with a code of its own.\<close>

definition or_fail :: "int \<Rightarrow> ('t, int, 'a) io \<Rightarrow> ('t, int, 'a) io" where
  "or_fail rc m = catch_io m (\<lambda>_. throw rc)"

definition some_or_fail :: "int \<Rightarrow> 'a option \<Rightarrow> ('t, int, 'a) io" where
  "some_or_fail rc r = (case r of None \<Rightarrow> throw rc | Some x \<Rightarrow> ret x)"

definition fail_if :: "bool \<Rightarrow> int \<Rightarrow> ('t, int, unit) io" where
  "fail_if b rc = throw_if b rc"

definition hs_send :: "'t platform \<Rightarrow> 8 word \<Rightarrow> 32 word \<Rightarrow> bytes \<Rightarrow> ('t, int, unit) io" where
  "hs_send P type seq payload =
     or_fail USMP_ERR_TRANSPORT_FAILED (t_send P (snd (usmp_build_packet (handshake_packet type seq payload))))"

definition hs_recv :: "'t platform \<Rightarrow> ('t, int, usmp_packet) io" where
  "hs_recv P =
     bind_io (or_fail USMP_ERR_TRANSPORT_FAILED (t_recv P 512)) (\<lambda>rx_buf.
     case usmp_parse_packet rx_buf blank_packet of
       (rc, pkt) \<Rightarrow> if rc \<noteq> 0 then throw USMP_ERR_AUTH_FAILED else ret pkt)"

section \<open>The handshake\<close>

text \<open>The fields of \<open>usmp_t\<close> that the handshake fills in.\<close>

record core_session =
  hs_device_id :: bytes
  hs_session_id :: bytes
  hs_tx_key :: bytes
  hs_rx_key :: bytes

text \<open>\<open>usmp_port_get_device_id\<close> into a buffer of six bytes.\<close>

definition get_device_id :: "'t platform \<Rightarrow> ('t, int, bytes) io" where
  "get_device_id P =
     bind_io (or_fail USMP_ERR_INVALID_ARG (p_device_id P)) (\<lambda>out. ret (take 6 (out @ replicate 6 0)))"

text \<open>The key pair; the public key is what follows the length byte of the TLS format.\<close>

definition hs_keypair :: "'t platform \<Rightarrow> mbedtls \<Rightarrow> ('t, int, bytes \<times> bytes) io" where
  "hs_keypair P M =
     bind_io (get_device_id P) (\<lambda>dev.
     let pers = dev @ ascii ''usmp-v1'' @ [0] in
     bind_io (or_fail USMP_ERR_CRYPTO_FAILED (p_private_key P pers)) (\<lambda>priv.
     bind_io (fail_if (\<not> ecdh_setup M) USMP_ERR_CRYPTO_FAILED) (\<lambda>_.
     bind_io (some_or_fail USMP_ERR_CRYPTO_FAILED (ecdh_make_public M priv)) (\<lambda>pub_buf.
     bind_io (fail_if (length pub_buf < 32) USMP_ERR_CRYPTO_FAILED) (\<lambda>_.
     ret (priv, drop (length pub_buf - 32) pub_buf))))))"

definition hs_challenge :: "'t platform \<Rightarrow> bytes \<Rightarrow> bytes \<Rightarrow> ('t, int, bytes \<times> bytes) io" where
  "hs_challenge P dev pub_c =
     bind_io (hs_recv P) (\<lambda>pkt.
     bind_io
       (if pkt_type pkt = USMP_TYPE_HELLO_RETRY then
          bind_io (fail_if (pkt_length pkt \<noteq> 16) USMP_ERR_AUTH_FAILED) (\<lambda>_.
          bind_io (hs_send P USMP_TYPE_HELLO 1 (dev @ pub_c @ take 16 (pkt_payload pkt))) (\<lambda>_.
          hs_recv P))
        else ret pkt) (\<lambda>pkt.
     bind_io (fail_if (pkt_type pkt \<noteq> USMP_TYPE_CHALLENGE \<or> pkt_length pkt \<noteq> 64) USMP_ERR_AUTH_FAILED) (\<lambda>_.
     ret (take 32 (pkt_payload pkt), slice 32 64 (pkt_payload pkt)))))"

definition hs_secret :: "mbedtls \<Rightarrow> bytes \<Rightarrow> bytes \<Rightarrow> ('t, int, bytes) io" where
  "hs_secret M priv pub_s =
     bind_io (some_or_fail USMP_ERR_CRYPTO_FAILED (ecdh_read_public M (32 # pub_s))) (\<lambda>peer.
     bind_io (some_or_fail USMP_ERR_CRYPTO_FAILED (ecdh_calc_secret M priv peer)) (\<lambda>shared_secret.
     bind_io (fail_if (shared_secret = replicate (length shared_secret) 0) USMP_ERR_CRYPTO_FAILED) (\<lambda>_.
     ret shared_secret)))"

definition usmp_handshake :: "'t platform \<Rightarrow> mbedtls \<Rightarrow> bytes option \<Rightarrow> ('t, int, core_session) io" where
  "usmp_handshake P M psk_arg =
     (case psk_arg of
        None \<Rightarrow> throw USMP_ERR_INVALID_ARG
      | Some psk \<Rightarrow>
     bind_io (fail_if (length psk < 16) USMP_ERR_INVALID_ARG) (\<lambda>_.
     bind_io (fail_if (\<not> p_malloc P) USMP_ERR_BUFFER_OVERFLOW) (\<lambda>_.
     bind_io (hs_keypair P M) (\<lambda>(priv, pub_c).
     bind_io (get_device_id P) (\<lambda>dev.
     bind_io (hs_send P USMP_TYPE_HELLO 0 (dev @ pub_c)) (\<lambda>_.
     bind_io (hs_challenge P dev pub_c) (\<lambda>(nonce, pub_s).
     bind_io (hs_secret M priv pub_s) (\<lambda>shared_secret.
     bind_io (some_or_fail USMP_ERR_CRYPTO_FAILED (core_session_keys M shared_secret nonce pub_c pub_s)) (\<lambda>(k_c2s, k_s2c).
     bind_io (some_or_fail USMP_ERR_CRYPTO_FAILED
       (compute_transcript_hmac M psk USMP_TYPE_HELLO_ACK nonce dev pub_c pub_s)) (\<lambda>hmac_client.
     bind_io (hs_send P USMP_TYPE_HELLO_ACK 2 hmac_client) (\<lambda>_.
     bind_io (hs_recv P) (\<lambda>pkt.
     bind_io (fail_if (pkt_type pkt \<noteq> USMP_TYPE_SESSION_OK \<or> pkt_length pkt \<noteq> 48) USMP_ERR_AUTH_FAILED) (\<lambda>_.
     let sid = take 16 (pkt_payload pkt);
         hmac_server_received = slice 16 48 (pkt_payload pkt)
     in
     bind_io (some_or_fail USMP_ERR_CRYPTO_FAILED
       (compute_transcript_hmac M psk USMP_TYPE_SESSION_OK nonce sid pub_c pub_s)) (\<lambda>hmac_server_expected.
     bind_io (fail_if (hmac_server_received \<noteq> hmac_server_expected) USMP_ERR_AUTH_FAILED) (\<lambda>_.
     ret \<lparr>hs_device_id = dev, hs_session_id = sid, hs_tx_key = k_c2s, hs_rx_key = k_s2c\<rparr>)))))))))))))))"

section \<open>Connecting and closing\<close>

definition close_device :: "'t platform \<Rightarrow> 't usmp_ctx \<Rightarrow> 't usmp_ctx" where
  "close_device P ctx =
     (case t_close P of None \<Rightarrow> ctx | Some f \<Rightarrow> ctx\<lparr>c_transport := f (c_transport ctx)\<rparr>)"

text \<open>The end of both functions: the handshake, and the context of the new session.\<close>

definition start_session :: "'t platform \<Rightarrow> mbedtls \<Rightarrow> (core_session \<Rightarrow> 't usmp_ctx \<Rightarrow> 't usmp_ctx) \<Rightarrow>
  ('t usmp_ctx, int, unit) io" where
  "start_session P M copy =
     bind_io (gets c_device_psk) (\<lambda>psk.
     bind_io
       (catch_io (on_device (usmp_handshake P M psk))
          (\<lambda>rc. bind_io (modify (close_device P)) (\<lambda>_. throw rc))) (\<lambda>hs.
     bind_io (modify (copy hs)) (\<lambda>_.
     bind_io (modify (\<lambda>ctx. case t_set_session_keys P of
                None \<Rightarrow> ctx
              | Some f \<Rightarrow> ctx\<lparr>c_transport := f (c_tx_key ctx) (c_rx_key ctx) (c_transport ctx)\<rparr>)) (\<lambda>_.
     bind_io (modify (\<lambda>ctx. ctx\<lparr>c_established := True, c_tx_seq := 0, c_rx_seq := 0\<rparr>)) (\<lambda>_.
     bind_io (usmp_port_millis P) (\<lambda>now.
     modify (c_last_tx_ms_update (\<lambda>_. now))))))))"

text \<open>
  The transport \<open>t\<close> is copied into the context; \<open>memset\<close> clears everything else except the key of
  the device and the keepalive interval.
\<close>

definition usmp_connect :: "'t platform \<Rightarrow> mbedtls \<Rightarrow> 't \<Rightarrow> ('t usmp_ctx, int, unit) io" where
  "usmp_connect P M t =
     bind_io (modify (\<lambda>ctx.
       \<lparr>c_dev_id = replicate 6 0, c_session_id = replicate 16 0, c_tx_key = replicate 32 0,
        c_rx_key = replicate 32 0, c_established = False, c_transport = t, c_tx_seq = 0, c_rx_seq = 0,
        c_keepalive_ms = c_keepalive_ms ctx, c_last_tx_ms = 0, c_rx_window_bitmap = 0, c_cipher_suite = 0,
        c_device_psk = c_device_psk ctx\<rparr>)) (\<lambda>_.
     start_session P M (\<lambda>hs ctx.
       ctx\<lparr>c_dev_id := hs_device_id hs, c_session_id := hs_session_id hs, c_tx_key := hs_tx_key hs,
           c_rx_key := hs_rx_key hs\<rparr>))"

definition zeroize_keys :: "'t usmp_ctx \<Rightarrow> 't usmp_ctx" where
  "zeroize_keys ctx = ctx\<lparr>c_tx_key := replicate 32 0, c_rx_key := replicate 32 0\<rparr>"

definition usmp_reconnect :: "'t platform \<Rightarrow> mbedtls \<Rightarrow> ('t usmp_ctx, int, unit) io" where
  "usmp_reconnect P M =
     bind_io (modify zeroize_keys) (\<lambda>_.
     case t_reconnect P of
       None \<Rightarrow> throw USMP_ERR_TRANSPORT_FAILED
     | Some redial \<Rightarrow>
         bind_io (modify disconnect) (\<lambda>_.
         bind_io (with_code USMP_ERR_TRANSPORT_FAILED (on_device redial)) (\<lambda>_.
         bind_io (start_session P M (\<lambda>hs ctx.
           ctx\<lparr>c_session_id := hs_session_id hs, c_tx_key := hs_tx_key hs, c_rx_key := hs_rx_key hs\<rparr>)) (\<lambda>_.
         modify (\<lambda>ctx. ctx\<lparr>c_rx_window_bitmap := 0\<rparr>)))))"

definition usmp_close :: "'t platform \<Rightarrow> mbedtls \<Rightarrow> ('t usmp_ctx, int, unit) io" where
  "usmp_close P M =
     bind_io (catch_io (usmp_send_bye P M) (\<lambda>_. ret ())) (\<lambda>_.
     bind_io (modify disconnect) (\<lambda>_.
     bind_io (modify (close_device P)) (\<lambda>_.
     modify zeroize_keys)))"

section \<open>The handshake over a stream\<close>

lemma uint_numeral_2: "uint (2 :: 32 word) = 2"
  by simp

lemma handshake_bytes:
  assumes "length p \<le> 480"
  shows "snd (usmp_build_packet (handshake_packet (word_of_int (packet_type_code ty)) s p)) = frame_bytes ty p (uint s)"
proof -
  have "unat (word_of_nat (length p) :: 16 word) = length p" using assms by (intro unat_word16) simp
  then show ?thesis
    using core_frame_bytes [of "handshake_packet (word_of_int (packet_type_code ty)) s p" ty]
    by (simp add: handshake_packet_def)
qed

lemma transcript_prefix:
  "[ucast (0xABCD AND 0xFF :: 16 word), ucast (drop_bit 8 0xABCD AND 0xFF :: 16 word), 2, word_of_int (packet_type_code ty)]
   = hmac_prefix ty"
proof -
  have "le_bytes 2 USMP_MAGIC = le_bytes 2 (uint (0xABCD :: 16 word))" by simp
  then show ?thesis unfolding hmac_prefix_def byte_mask by (simp only: le_bytes_uint) simp
qed

lemma transcript_hmac:
  assumes "mbedtls_law M C"
  shows "compute_transcript_hmac M psk USMP_TYPE_HELLO_ACK nonce dev pub_c pub_s = Some (client_hmac C psk nonce dev pub_c pub_s)"
    and "compute_transcript_hmac M psk USMP_TYPE_SESSION_OK nonce sid pub_c pub_s = Some (server_hmac C psk nonce sid pub_c pub_s)"
  using transcript_prefix [of HELLO_ACK] transcript_prefix [of SESSION_OK]
  by (simp_all only: compute_transcript_hmac_def mbedtls_lawD(6) [OF assms] client_hmac_def server_hmac_def
      compute_hmac_def concat.simps append_Nil2 packet_type_code.simps of_int_numeral)

lemma hs_secret_agrees:
  assumes law: "mbedtls_law M C" and keys: "derive_session_keys C priv pub_s nonce pub_c pub_s = Inr (k1, k2)"
  shows "\<exists>shared. hs_secret M priv pub_s t = (Ret shared, t)
    \<and> core_session_keys M shared nonce pub_c pub_s = Some (k1, k2)"
proof -
  obtain shared where x: "x_exchange C priv pub_s = Inr shared" "shared \<noteq> replicate (length shared) 0"
    and k: "k1 = take 32 (hkdf_sha256 C 64 nonce (ascii ''usmp-v2'' @ pub_c @ pub_s) shared)"
      "k2 = drop 32 (hkdf_sha256 C 64 nonce (ascii ''usmp-v2'' @ pub_c @ pub_s) shared)"
    using keys by (auto simp: derive_session_keys_def bindE_Inr Let_def split: if_splits)
  then show ?thesis
    by (simp add: hs_secret_def core_session_keys_def Let_def bind_io_def some_or_fail_def fail_if_def
        mbedtls_lawD(9) [OF law] mbedtls_lawD(10) [OF law x(1)] mbedtls_lawD(5) [OF law])
qed

text \<open>What the two sides of a message do, given what the transport does.\<close>

lemma hs_recv_frame:
  assumes "t_recv P 512 t = (Ret (frame_bytes ty p s), t')" and "sendable p s"
  shows "\<exists>pkt. hs_recv P t = (Ret pkt, t') \<and> pkt_type pkt = word_of_int (packet_type_code ty)
    \<and> unat (pkt_length pkt) = length p \<and> take (length p) (pkt_payload pkt) = p"
proof -
  obtain pkt where pkt: "usmp_parse_packet (frame_bytes ty p s) blank_packet = (0, pkt)"
    "frame_of_packet pkt ty = sent_frame ty p s" "pkt_type pkt = word_of_int (packet_type_code ty)"
    using core_parse_sent [OF assms(2)] by blast
  have "uint (pkt_length pkt) = int (length p)"
    using arg_cong [OF pkt(2), of fr_length] by (simp add: frame_of_packet_def)
  then have "unat (pkt_length pkt) = length p" by (simp add: unat_eq_nat_uint)
  moreover have "take (unat (pkt_length pkt)) (pkt_payload pkt) = p"
    using arg_cong [OF pkt(2), of fr_payload] by (simp add: frame_of_packet_def)
  moreover have "hs_recv P t = (Ret pkt, t')"
    by (simp add: hs_recv_def or_fail_def catch_io_def bind_io_def assms(1) pkt(1))
  ultimately show ?thesis using pkt by auto
qed

lemma hs_recv_challenge:
  assumes "t_recv P 512 t = (Ret (frame_bytes CHALLENGE (nonce @ pub_s) s), t')"
    and "length nonce = 32" and "length pub_s = 32" and "sendable (nonce @ pub_s) s"
  shows "\<exists>pkt. hs_recv P t = (Ret pkt, t') \<and> pkt_type pkt = USMP_TYPE_CHALLENGE \<and> pkt_length pkt = 64
    \<and> take 32 (pkt_payload pkt) = nonce \<and> slice 32 64 (pkt_payload pkt) = pub_s"
proof -
  obtain pkt where pkt: "hs_recv P t = (Ret pkt, t')" "pkt_type pkt = USMP_TYPE_CHALLENGE"
      "unat (pkt_length pkt) = 64" "take 64 (pkt_payload pkt) = nonce @ pub_s"
    using hs_recv_frame [OF assms(1,4)] assms(2,3) by auto
  have "pkt_length pkt = 64" using pkt(3) by (simp add: word_unat_eq_iff)
  moreover have "take 32 (pkt_payload pkt) = nonce"
    using arg_cong [OF pkt(4), of "take 32"] assms(2) by simp
  moreover have "slice 32 64 (pkt_payload pkt) = pub_s"
    using arg_cong [OF pkt(4), of "drop 32"] assms(2,3) by (simp add: slice_def drop_take)
  ultimately show ?thesis using pkt(1,2) by blast
qed

lemma hs_challenge_direct:
  assumes "t_recv P 512 t = (Ret (frame_bytes CHALLENGE (nonce @ pub_s) s), t')"
    and "length nonce = 32" and "length pub_s = 32" and "sendable (nonce @ pub_s) s"
  shows "hs_challenge P dev pub_c t = (Ret (nonce, pub_s), t')"
  using hs_recv_challenge [OF assms] by (auto simp: hs_challenge_def bind_io_def fail_if_def)

lemma hs_challenge_cookie:
  assumes "t_recv P 512 t = (Ret (frame_bytes HELLO_RETRY cookie r), t1)" and "length cookie = 16" and "sendable cookie r"
    and "hs_send P USMP_TYPE_HELLO 1 (dev @ pub_c @ cookie) t1 = (Ret (), t2)"
    and "t_recv P 512 t2 = (Ret (frame_bytes CHALLENGE (nonce @ pub_s) s), t')"
    and "length nonce = 32" and "length pub_s = 32" and "sendable (nonce @ pub_s) s"
  shows "hs_challenge P dev pub_c t = (Ret (nonce, pub_s), t')"
proof -
  obtain pkt where pkt: "hs_recv P t = (Ret pkt, t1)" "pkt_type pkt = USMP_TYPE_HELLO_RETRY"
      "unat (pkt_length pkt) = 16" "take 16 (pkt_payload pkt) = cookie"
    using hs_recv_frame [OF assms(1,3)] assms(2) by auto
  have "pkt_length pkt = 16" using pkt(3) by (simp add: word_unat_eq_iff)
  with pkt(1,2,4) assms(4) hs_recv_challenge [OF assms(5-8)] show ?thesis
    by (auto simp: hs_challenge_def bind_io_def fail_if_def)
qed

text \<open>The whole handshake, from its six calls of the transport.\<close>

lemma usmp_handshake_run:
  assumes law: "mbedtls_law M C" "hmac_law C" and lens: "length sid = 16" "16 \<le> length psk"
    and keys: "derive_session_keys C priv pub_s nonce pub_c pub_s = Inr (k1, k2)" and buffers: "p_malloc P"
    and steps: "hs_keypair P M t = (Ret (priv, pub_c), t1)" "get_device_id P t1 = (Ret dev, t1)"
      "hs_send P USMP_TYPE_HELLO 0 (dev @ pub_c) t1 = (Ret (), t2)"
      "hs_challenge P dev pub_c t2 = (Ret (nonce, pub_s), t3)"
      "hs_send P USMP_TYPE_HELLO_ACK 2 (client_hmac C psk nonce dev pub_c pub_s) t3 = (Ret (), t4)"
      "t_recv P 512 t4 = (Ret (frame_bytes SESSION_OK (sid @ server_hmac C psk nonce sid pub_c pub_s) 0), t5)"
  shows "usmp_handshake P M (Some psk) t
    = (Ret \<lparr>hs_device_id = dev, hs_session_id = sid, hs_tx_key = k1, hs_rx_key = k2\<rparr>, t5)"
proof -
  let ?hs = "server_hmac C psk nonce sid pub_c pub_s"
  have hlen: "length ?hs = 32" using law(2) by simp
  from hs_secret_agrees [OF law(1) keys, of t3]
  obtain shared where sec: "hs_secret M priv pub_s t3 = (Ret shared, t3)"
    "core_session_keys M shared nonce pub_c pub_s = Some (k1, k2)" by (elim exE conjE)
  have "sendable (sid @ ?hs) 0" using lens hlen by (simp add: sendable_def)
  from hs_recv_frame [OF steps(6) this] obtain pkt where pkt: "hs_recv P t4 = (Ret pkt, t5)"
    "pkt_type pkt = USMP_TYPE_SESSION_OK" "unat (pkt_length pkt) = 48" "take 48 (pkt_payload pkt) = sid @ ?hs"
    using lens(1) hlen by auto
  have len: "pkt_length pkt = 48" using pkt(3) by (simp add: word_unat_eq_iff)
  have sid: "take 16 (pkt_payload pkt) = sid"
    using arg_cong [OF pkt(4), of "take 16"] lens(1) by simp
  have hs: "slice 16 48 (pkt_payload pkt) = ?hs"
    using arg_cong [OF pkt(4), of "drop 16"] lens(1) hlen by (simp add: slice_def drop_take)
  show ?thesis
    using lens(2) buffers pkt(2) len
    by (simp add: usmp_handshake_def bind_io_def fail_if_def steps(1-5) sec some_or_fail_def
        transcript_hmac [OF law(1)] pkt(1) sid hs)
qed

locale core_link = core_stream P pending out up
  for P :: "'t platform" and pending out :: "'t \<Rightarrow> bytes" and up :: "'t \<Rightarrow> bool" +
  fixes mac :: "'t \<Rightarrow> bytes" and drawn :: "'t \<Rightarrow> bytes"
  assumes recv_handshake: "up t \<Longrightarrow> sendable p s \<Longrightarrow> pending t = frame_bytes ty p s @ rest \<Longrightarrow>
      \<exists>t'. t_recv P 512 t = (Ret (frame_bytes ty p s), t') \<and> up t' \<and> pending t' = rest \<and> out t' = out t"
    and device_id_hook: "up t \<Longrightarrow> p_device_id P t = (Ret (mac t), t)"
    and private_key_hook: "up t \<Longrightarrow> \<exists>t'. p_private_key P pers t = (Ret (drawn t), t')
      \<and> up t' \<and> pending t' = pending t \<and> out t' = out t \<and> mac t' = mac t"
    and buffers: "p_malloc P"
begin

lemma hs_send_stream:
  assumes "up t" and "length p \<le> 480"
  shows "\<exists>t'. hs_send P (word_of_int (packet_type_code ty)) s p t = (Ret (), t')
    \<and> up t' \<and> pending t' = pending t \<and> out t' = out t @ frame_bytes ty p (uint s)"
  using send_frame [OF assms(1), of p "uint s" ty] assms uint_lt2p [of s]
  by (auto simp: hs_send_def or_fail_def catch_io_def handshake_bytes sendable_def)

lemma hs_recv_stream:
  assumes "up t" and "sendable p s" and "pending t = frame_bytes ty p s @ rest"
  shows "\<exists>t'. t_recv P 512 t = (Ret (frame_bytes ty p s), t') \<and> up t' \<and> pending t' = rest \<and> out t' = out t"
  using recv_handshake [OF assms] by blast

lemma hs_challenge_stream:
  assumes "up t" and "length nonce = 32" and "length pub_s = 32" and "sendable (nonce @ pub_s) s"
    and "pending t = frame_bytes CHALLENGE (nonce @ pub_s) s @ rest"
  shows "\<exists>t'. hs_challenge P dev pub_c t = (Ret (nonce, pub_s), t') \<and> up t' \<and> pending t' = rest \<and> out t' = out t"
proof -
  obtain t' where t': "t_recv P 512 t = (Ret (frame_bytes CHALLENGE (nonce @ pub_s) s), t')"
      "up t'" "pending t' = rest" "out t' = out t"
    using hs_recv_stream [OF assms(1,4,5)] by blast
  with hs_challenge_direct [OF t'(1) assms(2-4)] show ?thesis by blast
qed

lemma hs_keypair_stream:
  assumes "mbedtls_law M C" and "dh_law C" and "up t"
  shows "\<exists>t'. hs_keypair P M t = (Ret (drawn t, x_public C (drawn t)), t')
    \<and> up t' \<and> pending t' = pending t \<and> out t' = out t \<and> mac t' = mac t"
proof -
  let ?pers = "take 6 (mac t @ replicate 6 0) @ ascii ''usmp-v1'' @ [0]"
  obtain t' where "p_private_key P ?pers t = (Ret (drawn t), t')" "up t'" "pending t' = pending t" "out t' = out t"
    "mac t' = mac t"
    using private_key_hook [OF assms(3), of ?pers] by blast
  moreover have "length (x_public C (drawn t)) = 32" using assms(2) by (simp add: dh_law_def)
  ultimately show ?thesis
    using device_id_hook [OF assms(3)]
    by (simp add: hs_keypair_def get_device_id_def bind_io_def or_fail_def catch_io_def fail_if_def some_or_fail_def
        mbedtls_lawD(7,8) [OF assms(1)])
qed

lemma usmp_handshake_stream:
  assumes law: "mbedtls_law M C" and laws: "dh_law C" "hmac_law C"
    and lens: "length (mac t) = 6" "length nonce = 32" "length sid = 16" "length pub_s = 32" "16 \<le> length psk"
    and pub_c: "pub_c = x_public C (drawn t)"
    and keys: "derive_session_keys C (drawn t) pub_s nonce pub_c pub_s = Inr (k1, k2)"
    and up: "up t"
    and input: "pending t = frame_bytes CHALLENGE (nonce @ pub_s) 0
      @ frame_bytes SESSION_OK (sid @ server_hmac C psk nonce sid pub_c pub_s) 0 @ rest"
  shows "\<exists>t'. usmp_handshake P M (Some psk) t
      = (Ret \<lparr>hs_device_id = mac t, hs_session_id = sid, hs_tx_key = k1, hs_rx_key = k2\<rparr>, t')
    \<and> up t' \<and> pending t' = rest
    \<and> out t' = out t @ frame_bytes HELLO (mac t @ pub_c) 0
        @ frame_bytes HELLO_ACK (client_hmac C psk nonce (mac t) pub_c pub_s) 2"
proof -
  let ?dev = "mac t"
  let ?hc = "client_hmac C psk nonce ?dev pub_c pub_s" and ?hs = "server_hmac C psk nonce sid pub_c pub_s"
  have plen: "length pub_c = 32" using laws(1) pub_c by (simp add: dh_law_def)
  have hlen: "length ?hc = 32" "length ?hs = 32" using laws(2) by simp_all
  obtain t1 where t1: "hs_keypair P M t = (Ret (drawn t, pub_c), t1)" "up t1" "pending t1 = pending t"
    "out t1 = out t" "mac t1 = ?dev"
    using hs_keypair_stream [OF law laws(1) up] pub_c by blast
  have dev: "get_device_id P t1 = (Ret ?dev, t1)"
    using device_id_hook [OF t1(2)] t1(5) lens(1)
    by (simp add: get_device_id_def bind_io_def or_fail_def catch_io_def)
  have hello: "length (?dev @ pub_c) \<le> 480" using lens(1) plen by simp
  obtain t2 where t2: "hs_send P USMP_TYPE_HELLO 0 (?dev @ pub_c) t1 = (Ret (), t2)" "up t2"
    "pending t2 = pending t" "out t2 = out t @ frame_bytes HELLO (?dev @ pub_c) 0"
    using hs_send_stream [OF t1(2) hello, of HELLO 0] unfolding t1(3,4) packet_type_code.simps of_int_1 uint_0_eq
    by (elim exE conjE)
  have "sendable (nonce @ pub_s) 0" using lens by (simp add: sendable_def)
  from hs_challenge_stream [OF t2(2) lens(2,4) this input [folded t2(3)], of ?dev pub_c]
  obtain t3 where t3: "hs_challenge P ?dev pub_c t2 = (Ret (nonce, pub_s), t3)" "up t3"
    "pending t3 = frame_bytes SESSION_OK (sid @ ?hs) 0 @ rest" "out t3 = out t2" by blast
  have ack: "length ?hc \<le> 480" using hlen by simp
  obtain t4 where t4: "hs_send P USMP_TYPE_HELLO_ACK 2 ?hc t3 = (Ret (), t4)" "up t4"
    "pending t4 = pending t3" "out t4 = out t3 @ frame_bytes HELLO_ACK ?hc 2"
    using hs_send_stream [OF t3(2) ack, of HELLO_ACK 2] unfolding packet_type_code.simps of_int_numeral uint_numeral_2
    by (elim exE conjE)
  have "sendable (sid @ ?hs) 0" using lens hlen by (simp add: sendable_def)
  from hs_recv_stream [OF t4(2) this, of SESSION_OK rest] t4(3) t3(3)
  obtain t5 where t5: "t_recv P 512 t4 = (Ret (frame_bytes SESSION_OK (sid @ ?hs) 0), t5)"
    "up t5" "pending t5 = rest" "out t5 = out t4" by auto
  from usmp_handshake_run [OF law laws(2) lens(3,5) keys buffers t1(1) dev t2(1) t3(1) t4(1) t5(1)] t2 t3 t4 t5
  show ?thesis by auto
qed

text \<open>The session that starts once the handshake is over.\<close>

lemma start_session_stream:
  assumes hs: "usmp_handshake P M (c_device_psk ctx) (c_transport ctx) = (Ret hs, t1)" "up t1"
    and copy: "\<And>c t. copy hs (c\<lparr>c_transport := t\<rparr>) = (copy hs c)\<lparr>c_transport := t\<rparr>"
  shows "\<exists>t' now. up t' \<and> pending t' = pending t1 \<and> out t' = out t1
    \<and> start_session P M copy ctx = (Ret (), (copy hs ctx)\<lparr>c_transport := t', c_established := True,
          c_tx_seq := 0, c_rx_seq := 0, c_last_tx_ms := now\<rparr>)"
proof -
  let ?c = "copy hs ctx"
  let ?t2 = "case t_set_session_keys P of None \<Rightarrow> t1 | Some f \<Rightarrow> f (c_tx_key ?c) (c_rx_key ?c) t1"
  have t2: "up ?t2" "pending ?t2 = pending t1" "out ?t2 = out t1"
    using keys [OF _ hs(2)] hs(2) by (auto split: option.splits)
  obtain now t3 where t3: "p_millis P ?t2 = (now, t3)" by fastforce
  note t4 = clock [OF t2(1) t3]
  have "start_session P M copy ctx = (Ret (), ?c\<lparr>c_transport := t3, c_established := True,
          c_tx_seq := 0, c_rx_seq := 0, c_last_tx_ms := now\<rparr>)"
    using t3 by (cases "t_set_session_keys P")
      (simp_all add: start_session_def bind_io_def on_device_def catch_io_def hs(1) copy usmp_port_millis_def)
  with t2 t4 show ?thesis by auto
qed

lemma usmp_connect_stream:
  assumes "usmp_handshake P M (c_device_psk ctx) t
      = (Ret \<lparr>hs_device_id = dev, hs_session_id = sid, hs_tx_key = k1, hs_rx_key = k2\<rparr>, t1)" "up t1"
  shows "\<exists>ctx'. usmp_connect P M t ctx = (Ret (), ctx') \<and> core_info ctx' = fresh_info dev sid k1 k2
    \<and> c_established ctx' \<and> up (c_transport ctx') \<and> pending (c_transport ctx') = pending t1
    \<and> out (c_transport ctx') = out t1"
proof -
  let ?ctx = "\<lparr>c_dev_id = replicate 6 0, c_session_id = replicate 16 0, c_tx_key = replicate 32 0,
        c_rx_key = replicate 32 0, c_established = False, c_transport = t, c_tx_seq = 0, c_rx_seq = 0,
        c_keepalive_ms = c_keepalive_ms ctx, c_last_tx_ms = 0, c_rx_window_bitmap = 0, c_cipher_suite = 0,
        c_device_psk = c_device_psk ctx\<rparr>"
  let ?copy = "\<lambda>hs ctx. ctx\<lparr>c_dev_id := hs_device_id hs, c_session_id := hs_session_id hs,
        c_tx_key := hs_tx_key hs, c_rx_key := hs_rx_key hs\<rparr>"
  from start_session_stream [of M ?ctx _ t1 ?copy] assms obtain t' now where
    "up t'" "pending t' = pending t1" "out t' = out t1"
    "start_session P M ?copy ?ctx = (Ret (), (?copy \<lparr>hs_device_id = dev, hs_session_id = sid,
        hs_tx_key = k1, hs_rx_key = k2\<rparr> ?ctx)\<lparr>c_transport := t', c_established := True,
        c_tx_seq := 0, c_rx_seq := 0, c_last_tx_ms := now\<rparr>)" by auto
  then show ?thesis
    by (simp add: usmp_connect_def bind_io_def core_info_def fresh_info_def)
qed

text \<open>Reconnecting keeps the cipher suite and the identifier of the device that the context had.\<close>

lemma usmp_reconnect_stream:
  assumes redial: "t_reconnect P = Some redial" "redial (c_transport ctx) = (Ret (), t)"
    and hs: "usmp_handshake P M (c_device_psk ctx) t
      = (Ret \<lparr>hs_device_id = dev, hs_session_id = sid, hs_tx_key = k1, hs_rx_key = k2\<rparr>, t1)" "up t1"
  shows "\<exists>ctx'. usmp_reconnect P M ctx = (Ret (), ctx')
    \<and> core_info ctx' = (fresh_info (c_dev_id ctx) sid k1 k2)\<lparr>cipher_suite := cipher_suite (core_info ctx)\<rparr>
    \<and> c_established ctx' \<and> up (c_transport ctx') \<and> pending (c_transport ctx') = pending t1
    \<and> out (c_transport ctx') = out t1"
proof -
  let ?ctx = "(disconnect (zeroize_keys ctx))\<lparr>c_transport := t\<rparr>"
  let ?copy = "\<lambda>hs ctx. ctx\<lparr>c_session_id := hs_session_id hs, c_tx_key := hs_tx_key hs, c_rx_key := hs_rx_key hs\<rparr>"
  from start_session_stream [of M ?ctx _ t1 ?copy] hs obtain t' now where
    "up t'" "pending t' = pending t1" "out t' = out t1"
    "start_session P M ?copy ?ctx = (Ret (), (?copy \<lparr>hs_device_id = dev, hs_session_id = sid,
        hs_tx_key = k1, hs_rx_key = k2\<rparr> ?ctx)\<lparr>c_transport := t', c_established := True,
        c_tx_seq := 0, c_rx_seq := 0, c_last_tx_ms := now\<rparr>)"
    by (auto simp: disconnect_def zeroize_keys_def)
  then show ?thesis using redial
    by (simp add: usmp_reconnect_def bind_io_def with_code_def catch_io_def on_device_def core_info_def
        fresh_info_def disconnect_def zeroize_keys_def)
qed

end

interpretation esp_link: core_link usmp_transport_tcp esp_pending e_out esp_up e_mac "\<lambda>t. map (e_random t) [0..<32]"
proof
  fix t p s ty rest
  assume "esp_up t" "sendable p s" "esp_pending t = frame_bytes ty p s @ rest"
  then show "\<exists>t'. t_recv usmp_transport_tcp 512 t = (Ret (frame_bytes ty p s), t')
      \<and> esp_up t' \<and> esp_pending t' = rest \<and> e_out t' = e_out t"
    using usmp_tcp_recv_frame [of t p s ty rest 512] by (simp add: usmp_transport_tcp_def sendable_def)
qed (auto simp: usmp_transport_tcp_def esp_random_def esp_up_def esp_pending_def)

section \<open>A device and a server\<close>

text \<open>
  What the server reads and what it answers when a device of identifier \<open>dev\<close> and private key
  \<open>priv\<close> connects.
\<close>

definition device_hellos :: "crypto \<Rightarrow> server_random \<Rightarrow> bytes \<Rightarrow> bytes \<Rightarrow> bytes \<Rightarrow> bytes" where
  "device_hellos C rnd psk dev priv =
     (let pub_c = x_public C priv; pub_s = x_public C (r_private rnd)
      in frame_bytes HELLO (dev @ pub_c) 0
         @ frame_bytes HELLO_ACK (client_hmac C psk (r_nonce rnd) dev pub_c pub_s) 2)"

lemma esp_handshake_agrees:
  assumes law: "mbedtls_law M C" and laws: "dh_law C" "hmac_law C" "hkdf_law C"
    and lens: "length dev = 6" "length (r_nonce rnd) = 32" "length (r_session_id rnd) = 16"
    and psk: "resolve_psk src dev = Inr psk"
    and keys: "derive_session_keys C priv (x_public C (r_private rnd)) (r_nonce rnd) (x_public C priv)
           (x_public C (r_private rnd)) = Inr (k1, k2)"
    and free: "\<not> locked_out d (limiter_key_of pc ident) now" "fst (tick clk) = now"
  shows "\<exists>s1. server_handshake tcp_ops C rnd ident src
       \<lparr>h_transport = tcp_connected pc clk (device_hellos C rnd psk dev priv) eof, h_failed = d\<rparr>
       = (Ret (fresh_info dev (r_session_id rnd) k2 k1), s1)
   \<and> (\<forall>t. esp_up t \<and> e_mac t = dev \<and> map (e_random t) [0..<32] = priv \<and> esp_pending t = tcp_out (h_transport s1)
       \<longrightarrow> (\<exists>t1. usmp_handshake usmp_transport_tcp M (Some psk) t
            = (Ret \<lparr>hs_device_id = dev, hs_session_id = r_session_id rnd, hs_tx_key = k1, hs_rx_key = k2\<rparr>, t1)
          \<and> esp_up t1 \<and> esp_pending t1 = [] \<and> e_out t1 = e_out t @ device_hellos C rnd psk dev priv))"
    (is "\<exists>s1. ?server s1 \<and> ?device s1")
proof -
  let ?pc = "x_public C priv" and ?ps = "x_public C (r_private rnd)"
  let ?sid = "r_session_id rnd" and ?n = "r_nonce rnd"
  let ?t = "tcp_connected pc clk (device_hellos C rnd psk dev priv) eof"
  let ?reply = "frame_bytes CHALLENGE (?n @ ?ps) 0 @ frame_bytes SESSION_OK (?sid @ server_hmac C psk ?n ?sid ?pc ?ps) 0"
  let ?s1 = "\<lparr>h_transport = ?t\<lparr>tcp_clock := snd (tick clk), tcp_in := [], tcp_out := ?reply\<rparr>,
      h_failed = AList.delete (limiter_key_of pc ident) d\<rparr>"
  have pub: "length ?pc = 32" "length ?ps = 32" using laws(1) by (simp_all add: dh_law_def)
  have keys': "derive_session_keys C (r_private rnd) ?pc ?n ?pc ?ps = Inr (k1, k2)"
    using keys laws(1) by (simp add: derive_session_keys_def dh_law_def)
  have "?server ?s1"
    using server_handshake_tcp [OF laws lens psk keys' pub(1) refl, of ?t "[]" d ident] free
    by (simp add: tcp_connected_def tcp_open_def device_hellos_def Let_def)
  moreover have "?device ?s1"
  proof (intro allI impI, elim conjE)
    fix t
    assume t: "esp_up t" "e_mac t = dev" "map (e_random t) [0..<32] = priv" "esp_pending t = tcp_out (h_transport ?s1)"
    have "esp_pending t = frame_bytes CHALLENGE (?n @ ?ps) 0
        @ frame_bytes SESSION_OK (?sid @ server_hmac C psk ?n ?sid ?pc ?ps) 0 @ []" using t(4) by simp
    from esp_link.usmp_handshake_stream [OF law laws(1,2), of t ?n ?sid ?ps psk ?pc k1 k2 "[]", unfolded t(2,3),
        OF lens pub(2) resolve_psk_length [OF psk] refl keys t(1) this]
    show "\<exists>t1. usmp_handshake usmp_transport_tcp M (Some psk) t
            = (Ret \<lparr>hs_device_id = dev, hs_session_id = ?sid, hs_tx_key = k1, hs_rx_key = k2\<rparr>, t1)
          \<and> esp_up t1 \<and> esp_pending t1 = [] \<and> e_out t1 = e_out t @ device_hellos C rnd psk dev priv"
      by (simp add: device_hellos_def Let_def)
  qed
  ultimately show ?thesis by blast
qed

lemma core_ok_fresh: "core_info ctx = fresh_info dev sid k1 k2 \<Longrightarrow>
  length k1 = 32 \<Longrightarrow> length k2 = 32 \<Longrightarrow> length sid = 16 \<Longrightarrow> core_ok ctx"
  by (auto simp: core_info_def fresh_info_def core_ok_def)

text \<open>
  C3: a device connects to a Python server over TCP: when the server reads what \<open>usmp_connect\<close> writes
  and the device receives what the server answers, however the network cuts it, both return,
  the device's session is established, and the two sessions match: the same identifiers, the
  same two keys in opposite roles, all counters at zero.
\<close>

theorem device_connects_to_server:
  assumes law: "mbedtls_law M C" and laws: "dh_law C" "hmac_law C" "hkdf_law C"
    and lens: "length dev = 6" "length (r_nonce rnd) = 32" "length (r_session_id rnd) = 16"
    and psk: "resolve_psk src dev = Inr psk"
    and keys: "derive_session_keys C priv (x_public C (r_private rnd)) (r_nonce rnd) (x_public C priv)
           (x_public C (r_private rnd)) = Inr (k1, k2)"
    and free: "\<not> locked_out d (limiter_key_of pc ident) now" "fst (tick clk) = now"
  shows "\<exists>input si s1. server_handshake tcp_ops C rnd ident src
       \<lparr>h_transport = tcp_connected pc clk input eof, h_failed = d\<rparr> = (Ret si, s1)
   \<and> (\<forall>t ctx. esp_up t \<and> e_mac t = dev \<and> map (e_random t) [0..<32] = priv \<and> e_out t = []
         \<and> esp_pending t = tcp_out (h_transport s1) \<and> c_device_psk ctx = Some psk
       \<longrightarrow> (\<exists>ctx1. usmp_connect usmp_transport_tcp M t ctx = (Ret (), ctx1)
          \<and> e_out (c_transport ctx1) = input \<and> peers (core_info ctx1) si
          \<and> c_established ctx1 \<and> core_ok ctx1 \<and> esp_up (c_transport ctx1)))"
proof -
  have klen: "length k1 = 32" "length k2 = 32" using derive_session_keys_length [OF laws(3) keys] by simp_all
  obtain s1 where server: "server_handshake tcp_ops C rnd ident src
       \<lparr>h_transport = tcp_connected pc clk (device_hellos C rnd psk dev priv) eof, h_failed = d\<rparr>
       = (Ret (fresh_info dev (r_session_id rnd) k2 k1), s1)"
    and device: "\<And>t. esp_up t \<Longrightarrow> e_mac t = dev \<Longrightarrow> map (e_random t) [0..<32] = priv
       \<Longrightarrow> esp_pending t = tcp_out (h_transport s1) \<Longrightarrow> \<exists>t1. usmp_handshake usmp_transport_tcp M (Some psk) t
            = (Ret \<lparr>hs_device_id = dev, hs_session_id = r_session_id rnd, hs_tx_key = k1, hs_rx_key = k2\<rparr>, t1)
          \<and> esp_up t1 \<and> esp_pending t1 = [] \<and> e_out t1 = e_out t @ device_hellos C rnd psk dev priv"
    using esp_handshake_agrees [OF assms] by blast
  show ?thesis
  proof (intro exI [of _ "device_hellos C rnd psk dev priv"] exI [of _ "fresh_info dev (r_session_id rnd) k2 k1"]
      exI [of _ s1] conjI allI impI)
    fix t and ctx :: "esp_tcp usmp_ctx"
    assume "esp_up t \<and> e_mac t = dev \<and> map (e_random t) [0..<32] = priv \<and> e_out t = []
         \<and> esp_pending t = tcp_out (h_transport s1) \<and> c_device_psk ctx = Some psk"
    then have t: "esp_up t" "e_mac t = dev" "map (e_random t) [0..<32] = priv" "e_out t = []"
      "esp_pending t = tcp_out (h_transport s1)" "c_device_psk ctx = Some psk" by simp_all
    from device [OF t(1,2,3,5)] obtain t1 where t1: "usmp_handshake usmp_transport_tcp M (c_device_psk ctx) t
            = (Ret \<lparr>hs_device_id = dev, hs_session_id = r_session_id rnd, hs_tx_key = k1, hs_rx_key = k2\<rparr>, t1)"
      "esp_up t1" "e_out t1 = e_out t @ device_hellos C rnd psk dev priv" unfolding t(6) by blast
    from esp_link.usmp_connect_stream [OF t1(1,2)] core_ok_fresh [OF _ klen lens(3)] agreed_sessions [OF lens(3)] t1(3) t(4)
    show "\<exists>ctx1. usmp_connect usmp_transport_tcp M t ctx = (Ret (), ctx1)
          \<and> e_out (c_transport ctx1) = device_hellos C rnd psk dev priv
          \<and> peers (core_info ctx1) (fresh_info dev (r_session_id rnd) k2 k1)
          \<and> c_established ctx1 \<and> core_ok ctx1 \<and> esp_up (c_transport ctx1)" by auto
  qed (rule server)
qed

text \<open>A device that draws the private key 5, and whose input arrives byte by byte.\<close>

definition demo_dialed :: "bytes \<Rightarrow> esp_tcp" where
  "demo_dialed input =
     (demo_esp [])\<lparr>e_events := map (\<lambda>b. (1, Arrived [b])) input, e_random := (\<lambda>i. if i = 0 then 5 else 0)\<rparr>"

abbreviation demo_priv :: bytes where "demo_priv \<equiv> map (\<lambda>i. if i = 0 then 5 else 0 :: byte) [0..<32]"

lemma demo_dialed_simps [simp]:
  "esp_up (demo_dialed input)" "e_mac (demo_dialed input) = replicate 6 1" "e_out (demo_dialed input) = []"
  "esp_pending (demo_dialed input) = input" "map (e_random (demo_dialed input)) [0..<32] = demo_priv"
  by (auto simp: demo_dialed_def demo_esp_def esp_up_def esp_pending_def o_def)

lemma demo_device_keys:
  "\<exists>k1 k2. derive_session_keys demo_crypto demo_priv (x_public demo_crypto (r_private demo_random))
      (r_nonce demo_random) (x_public demo_crypto demo_priv) (x_public demo_crypto (r_private demo_random)) = Inr (k1, k2)"
proof -
  have "demo_priv = 5 # replicate 31 0" by (simp add: upt_rec numeral_eq_Suc)
  then have "demo_priv = pad32 [5]" by (simp add: pad32_def)
  then have "x_exchange demo_crypto demo_priv (x_public demo_crypto (r_private demo_random)) = Inr (12 # replicate 31 0)"
    using demo_shared by (simp add: demo_crypto_def demo_random_def pad32_id)
  with demo_shared_nonzero show ?thesis by (simp add: derive_session_keys_def Let_def)
qed

theorem device_connects_to_server_witness:
  "\<exists>input si s1 ctx1.
     server_handshake tcp_ops demo_crypto demo_random 0 (Psk_bytes (replicate 16 9))
       \<lparr>h_transport = tcp_connected (Peer_addr ''h'' 1) (0, []) input False, h_failed = []\<rparr> = (Ret si, s1)
   \<and> usmp_connect usmp_transport_tcp (mbedtls_of demo_crypto) (demo_dialed (tcp_out (h_transport s1)))
       ((demo_device [])\<lparr>c_device_psk := Some (replicate 16 9)\<rparr>) = (Ret (), ctx1)
   \<and> input = e_out (c_transport ctx1) \<and> peers (core_info ctx1) si"
proof -
  obtain k1 k2 where keys: "derive_session_keys demo_crypto demo_priv (x_public demo_crypto (r_private demo_random))
      (r_nonce demo_random) (x_public demo_crypto demo_priv) (x_public demo_crypto (r_private demo_random)) = Inr (k1, k2)"
    using demo_device_keys by blast
  have psk: "resolve_psk (Psk_bytes (replicate 16 9)) (replicate 6 1) = Inr (replicate 16 9)"
    by (simp add: resolve_psk_def find_psk_def)
  have lens: "length (replicate 6 (1 :: byte)) = 6" "length (r_nonce demo_random) = 32" "length (r_session_id demo_random) = 16"
    by (simp_all add: demo_random_def)
  have free: "\<not> locked_out [] (limiter_key_of (Peer_addr ''h'' 1) 0) 0" "fst (tick (0, [])) = 0"
    by (simp_all add: locked_out_def)
  from device_connects_to_server [OF mbedtls_of_law demo_crypto_laws(3,4,2) lens psk keys free, of False]
  obtain input si s1 where
    server: "server_handshake tcp_ops demo_crypto demo_random 0 (Psk_bytes (replicate 16 9))
       \<lparr>h_transport = tcp_connected (Peer_addr ''h'' 1) (0, []) input False, h_failed = []\<rparr> = (Ret si, s1)"
    and device: "\<forall>t ctx. esp_up t \<and> e_mac t = replicate 6 1 \<and> map (e_random t) [0..<32] = demo_priv \<and> e_out t = []
         \<and> esp_pending t = tcp_out (h_transport s1) \<and> c_device_psk ctx = Some (replicate 16 9)
       \<longrightarrow> (\<exists>ctx1. usmp_connect usmp_transport_tcp (mbedtls_of demo_crypto) t ctx = (Ret (), ctx1)
          \<and> e_out (c_transport ctx1) = input \<and> peers (core_info ctx1) si
          \<and> c_established ctx1 \<and> core_ok ctx1 \<and> esp_up (c_transport ctx1))" using demo_crypto_laws(1) by blast
  have "c_device_psk ((demo_device [])\<lparr>c_device_psk := Some (replicate 16 9)\<rparr>) = Some (replicate 16 9)" by simp
  with server device show ?thesis using demo_dialed_simps by blast
qed

section \<open>Reconnecting without a transport that can\<close>

text \<open>The hook is optional; this is the transport of the port without it.\<close>

definition without_reconnect :: "'t platform \<Rightarrow> 't platform" where
  "without_reconnect P = P\<lparr>t_reconnect := None\<rparr>"

lemma without_reconnect_simps [simp]:
  "t_send (without_reconnect P) = t_send P" "t_recv (without_reconnect P) = t_recv P"
  "t_set_session_keys (without_reconnect P) = t_set_session_keys P" "is_udp (without_reconnect P) = is_udp P"
  "p_millis (without_reconnect P) = p_millis P" "p_random (without_reconnect P) = p_random P"
  "t_reconnect (without_reconnect P) = None"
  by (simp_all add: without_reconnect_def is_udp_def)

interpretation esp_fixed: core_stream "without_reconnect usmp_transport_tcp" esp_pending e_out esp_up
  by (unfold_locales; unfold without_reconnect_simps)
    (rule esp.reliable, (rule esp.recv_frame esp.send_frame; assumption)+,
     (rule esp.clock; assumption), (rule esp.keys; assumption), (rule esp.random; assumption))

text \<open>
  C23: \<open>usmp_reconnect\<close> with a transport that has no reconnect hook fails only after it has erased both keys,
  and it leaves the session established: the next message is sent all the same, sealed under a
  key of 32 zero bytes.
\<close>

theorem reconnect_leaves_zero_key:
  assumes law: "mbedtls_law M C" "aead_law C"
    and ctx: "esp_up (c_transport ctx)" "c_established ctx" "8 \<le> length (c_session_id ctx)"
    and data: "length data \<le> 1808" "uint (c_tx_seq ctx) + 4 \<le> 0xFFFFFFFF"
    and runs: "usmp_reconnect (without_reconnect usmp_transport_tcp) M ctx = (o1, ctx1)"
      "usmp_send (without_reconnect usmp_transport_tcp) M data ctx1 = (o2, ctx2)"
  shows "o1 = Raise USMP_ERR_TRANSPORT_FAILED \<and> o2 = Ret ()
    \<and> e_out (c_transport ctx2) = e_out (c_transport ctx)
        @ wire_of C ((core_info ctx)\<lparr>tx_key := replicate 32 0, rx_key := replicate 32 0\<rparr>) (fragments data)"
proof -
  have o1: "o1 = Raise USMP_ERR_TRANSPORT_FAILED" and ctx1: "ctx1 = zeroize_keys ctx"
    using runs(1) by (auto simp: usmp_reconnect_def bind_io_def)
  have zero: "core_ok ctx1" "c_transport ctx1 = c_transport ctx" "c_established ctx1" "c_tx_seq ctx1 = c_tx_seq ctx"
    "core_info ctx1 = (core_info ctx)\<lparr>tx_key := replicate 32 0, rx_key := replicate 32 0\<rparr>"
    using ctx by (simp_all add: ctx1 zeroize_keys_def core_ok_def core_info_def)
  from esp_fixed.usmp_send_stream [OF law zero(1) _ zero(3) data(1), unfolded zero(2,4), OF ctx(1) data(2)] runs(2) o1
  show ?thesis by (auto simp: esp_fixed.arrives_def zero(2,5))
qed

theorem reconnect_leaves_zero_key_witness:
  "\<exists>ctx1 ctx2. usmp_reconnect (without_reconnect usmp_transport_tcp) (mbedtls_of demo_crypto)
       (demo_device (replicate 21 0)) = (Raise USMP_ERR_TRANSPORT_FAILED, ctx1)
   \<and> usmp_send (without_reconnect usmp_transport_tcp) (mbedtls_of demo_crypto) [1, 2, 3] ctx1 = (Ret (), ctx2)
   \<and> e_out (c_transport ctx2)
       = wire_of demo_crypto (demo_info\<lparr>tx_key := replicate 32 0, rx_key := replicate 32 0\<rparr>) (fragments [1, 2, 3])"
proof -
  let ?P = "without_reconnect usmp_transport_tcp" and ?M = "mbedtls_of demo_crypto"
  obtain o1 ctx1 where r1: "usmp_reconnect ?P ?M (demo_device (replicate 21 0)) = (o1, ctx1)" by fastforce
  obtain o2 ctx2 where r2: "usmp_send ?P ?M [1, 2, 3] ctx1 = (o2, ctx2)" by fastforce
  have "8 \<le> length (c_session_id (demo_device (replicate 21 0)))"
    using demo_device_simps(1) unfolding core_ok_def by blast
  from reconnect_leaves_zero_key [OF mbedtls_of_law [OF demo_crypto_laws(1)] demo_crypto_laws(1) _ _ this _ _ r1 r2] r1 r2
  show ?thesis by simp
qed

end
