(* ===== verification/UdpHandshake.thy ===== *)
theory UdpHandshake
  imports HandshakeSafety UdpSafety ServerSafety Client
begin

text \<open>
  The handshake over UDP, end to end: the client's stream, the listener with its cookie, and
  the stream the server makes for the client, each fed with exactly the datagrams that the
  other end sent.
\<close>

section \<open>A stream between two operations\<close>

text \<open>
  What a handshake finds and leaves: nothing buffered, the type of the last handshake packet,
  the datagrams sent so far, the time, and what is still to arrive.
\<close>

definition at_rest ::
  "udp_stream \<Rightarrow> bool \<Rightarrow> rat option \<Rightarrow> (bytes \<times> bytes) option \<Rightarrow> int \<Rightarrow> bytes list \<Rightarrow> rat \<Rightarrow>
   (rat \<times> net_event) list \<Rightarrow> bool" where
  "at_rest u srv dl keys last_type sent now evs \<longleftrightarrow>
     \<not> u_closed u \<and> u_read_buffer u = [] \<and> u_is_server u = srv \<and> u_deadline u = dl
     \<and> u_tx_key u = map_option fst keys \<and> u_rx_key u = map_option snd keys
     \<and> u_last_rx_type u = last_type \<and> u_sent u = sent \<and> u_now u = now \<and> u_incoming u = evs
     \<and> 1 / 10 \<le> u_rto u \<and> u_last_rx_seq u = -1"

definition before :: "rat option \<Rightarrow> rat \<Rightarrow> bool" where
  "before dl t \<longleftrightarrow> (case dl of None \<Rightarrow> True | Some d \<Rightarrow> t < d)"

lemma in_time_before: "in_time u t = before (u_deadline u) (max (u_now u) t)"
  by (simp add: in_time_def before_def)

text \<open>Datagrams that follow each other within 100 milliseconds.\<close>

fun steady :: "rat \<Rightarrow> rat list \<Rightarrow> bool" where
  "steady t [] = True"
| "steady t (x # xs) \<longleftrightarrow> t \<le> x \<and> x < t + 1 / 10 \<and> steady x xs"

section \<open>Reading and writing handshake frames\<close>

text \<open>The acknowledgement of a handshake frame: before there are keys it has no MAC.\<close>

definition ack_of :: "packet_type \<Rightarrow> int \<Rightarrow> bytes" where
  "ack_of ty s = utack_header (packet_type_code ty) s"

definition handshake_phase :: "packet_type \<Rightarrow> bool" where
  "handshake_phase ty \<longleftrightarrow> ty \<in> {HELLO, CHALLENGE, HELLO_ACK, SESSION_OK}"

lemma handshake_phase_code: "handshake_phase ty \<Longrightarrow> 1 \<le> packet_type_code ty \<and> packet_type_code ty < 5"
  by (auto simp: handshake_phase_def)

lemma feed_ack:
  assumes "handshake_phase ty" "0 \<le> s" "s < 4294967296" "\<not> u_closed u"
    and "u_pending_type u = Some (packet_type_code ty)" "u_pending_seq u = Some s"
  shows "feed_packet C (utack_header (packet_type_code ty) s) u = u\<lparr>u_ack_received := True\<rparr>"
proof -
  have c: "0 \<le> packet_type_code ty" "packet_type_code ty < 256" "packet_type_code ty < 5"
    using handshake_phase_code [OF assms(1)] by simp_all
  note f = utack_fields(1-3) [OF c(1,2) assms(2,3), of "[]", simplified]
  show ?thesis using f c assms(4-6) by (simp add: feed_packet_def feed_utack_def)
qed

lemma write_rest:
  assumes "at_rest a srv dl keys lt sent now ((t, Datagram (ack_of ty s)) # evs)"
    and "handshake_phase ty" "sendable p s" "now \<le> t" "t < now + 1 / 10" "before dl t"
  shows "\<exists>a'. op_write_frame (udp_ops C) ty p s a = (Ret (), a')
    \<and> at_rest a' srv dl keys lt (sent @ [frame_bytes ty p s]) t evs"
proof -
  let ?h = "ack_of ty s"
  let ?a = "sendto (frame_bytes ty p s) (armed ty s a)"
  let ?b = "(?a\<lparr>u_now := t, u_incoming := evs\<rparr>)\<lparr>u_ack_received := True\<rparr>"
  have s: "0 \<le> s" "s < 4294967296" using assms(3) by (simp_all add: sendable_def)
  have "feed_packet C ?h (?a\<lparr>u_now := t, u_incoming := evs\<rparr>) = ?b"
    using assms(1) unfolding ack_of_def by (intro feed_ack assms(2) s) (simp_all add: at_rest_def sendto_def)
  then have ev: "next_event C (t, Datagram ?h) evs ?a = ?b"
    using assms(1,4) by (simp add: next_event_def net_event_def at_rest_def max_def)
  have "1 / 10 \<le> attempt_timeout (u_rto a) 0"
    using assms(1) by (simp add: attempt_timeout_def at_rest_def)
  moreover have "in_time ?a t"
    using assms(1,4,6) by (simp add: in_time_before at_rest_def max_def)
  ultimately have "await_ack C (u_now a + attempt_timeout (u_rto a) 0) (u_incoming a) ?a = (Ret (), ?b)"
    using assms(1,5) ev
    by (simp add: await_ack.simps [of _ _ _ ?a] await_ack.simps [of _ _ _ ?b] at_rest_def)
  then have "udp_write_frame C ty p s a = (Ret (), update_rtt (t - u_now a) ?b)"
    using assms(1,3) by (simp add: udp_write_frame_open at_rest_def upt_conv_Cons Let_def del: upt_Suc)
  moreover have "at_rest (update_rtt (t - u_now a) ?b) srv dl keys lt (sent @ [frame_bytes ty p s]) t evs"
    using assms(1) by (simp add: at_rest_def update_rtt_def Let_def armed_def sendto_def)
  ultimately show ?thesis by simp
qed

lemma feed_handshake_frame:
  assumes "sendable p s" "handshake_phase ty \<or> ty = HELLO_RETRY" "\<not> u_closed r"
    and "\<not> handshake_duplicate r (packet_type_code ty)"
  shows "feed_packet C (frame_bytes ty p s) r =
    accept_datagram C (frame_bytes ty p s) (packet_type_code ty) s (r\<lparr>u_last_rx_type := packet_type_code ty\<rparr>)"
proof -
  note f = frame_bytes_fields [OF assms(1), of "frame_bytes ty p s" ty "[]", simplified]
  have "packet_type_code ty < 5 \<or> packet_type_code ty = 0x0A"
    using assms(2) handshake_phase_code by auto
  then show ?thesis
    using f assms(3,4) frame_bytes_is_framed [OF assms(1), of ty]
    by (auto simp: feed_packet_def feed_frame_def framed_def Let_def)
qed

lemma build_utack_handshake:
  "packet_type_code ty < 5 \<or> u_rx_key u = None \<Longrightarrow>
   build_utack C u (packet_type_code ty) s = utack_header (packet_type_code ty) s"
  by (auto simp: build_utack_def Let_def split: option.split)

lemma read_rest:
  assumes "at_rest b srv dl keys lt sent now ((t, Datagram (frame_bytes ty p s)) # evs)"
    and "handshake_phase ty \<or> ty = HELLO_RETRY \<and> keys = None" "sendable p s" "now \<le> t" "before dl t"
    and "packet_type_code ty \<noteq> lt" "ty = HELLO_RETRY \<longrightarrow> lt = -1" "ty = CHALLENGE \<longrightarrow> lt \<noteq> 4"
      "srv \<longrightarrow> lt < packet_type_code ty"
  shows "\<exists>b'. read_handshake (udp_ops C) b = (Ret (sent_frame ty p s), b')
    \<and> at_rest b' srv dl keys (packet_type_code ty) (sent @ [ack_of ty s]) t evs"
proof -
  let ?d = "frame_bytes ty p s" and ?c = "packet_type_code ty"
  let ?b0 = "b\<lparr>u_now := t, u_incoming := evs, u_last_rx_type := ?c\<rparr>"
  let ?b2 = "(sendto (utack_header ?c s) ?b0)\<lparr>u_read_buffer := ?d\<rparr>"
  have bu: "build_utack C ?b0 ?c s = utack_header ?c s"
    using assms(1,2) handshake_phase_code [of ty] by (intro build_utack_handshake) (auto simp: at_rest_def)
  have len: "length ?d \<le> 4096" using assms(3) by (simp add: sendable_def)
  have nd: "\<not> handshake_duplicate (b\<lparr>u_now := t, u_incoming := evs\<rparr>) ?c"
    using assms(1,2,6-9) by (cases ty) (auto simp: handshake_duplicate_def at_rest_def handshake_phase_def)
  have "feed_packet C ?d (b\<lparr>u_now := t, u_incoming := evs\<rparr>) = ?b2"
    using assms(1,2) feed_handshake_frame [OF assms(3) _ _ nd, of C] bu len
    by (auto simp: accept_datagram_def at_rest_def)
  then have ev: "next_event C (t, Datagram ?d) evs b = ?b2"
    using assms(1,4) by (simp add: next_event_def net_event_def at_rest_def max_def)
  have "in_time b t" using assms(1,4,5) by (simp add: in_time_before at_rest_def max_def)
  then have "udp_readexactly C 12 b = udp_readexactly C 12 ?b2"
    using assms(1) ev by (simp add: udp_readexactly_def udp_read_wait.simps [of _ _ _ b] at_rest_def)
  then have "udp_read_frame C False b = udp_read_frame C False ?b2"
    by (simp add: udp_read_frame_def read_frame_def bind_io_def)
  also have "\<dots> = (Ret (sent_frame ty p s), ?b2\<lparr>u_read_buffer := []\<rparr>)"
    using read_frame_framed [OF frame_bytes_is_framed(1) [OF assms(3)], of ?b2 ty "[]" C False]
      decode_frame_bytes [OF assms(3)] by (simp add: read_result_def)
  finally have "read_handshake (udp_ops C) b = (Ret (sent_frame ty p s), ?b2\<lparr>u_read_buffer := []\<rparr>)"
    by (simp add: read_handshake_def catch_io_def)
  moreover have "at_rest (?b2\<lparr>u_read_buffer := []\<rparr>) srv dl keys ?c (sent @ [utack_header ?c s]) t evs"
    using assms(1) by (simp add: at_rest_def sendto_def)
  ultimately show ?thesis unfolding ack_of_def by blast
qed

section \<open>The two sides\<close>

text \<open>The datagrams of the exchange.\<close>

definition client_datagrams :: "bytes \<Rightarrow> bytes \<Rightarrow> bytes \<Rightarrow> bytes \<Rightarrow> bytes list" where
  "client_datagrams dev pub_c cookie mac =
     [frame_bytes HELLO (dev @ pub_c) 0, ack_of HELLO_RETRY 0, frame_bytes HELLO (dev @ pub_c @ cookie) 1,
      ack_of CHALLENGE 0, frame_bytes HELLO_ACK mac 2, ack_of SESSION_OK 0]"

definition listener_datagrams :: "bytes \<Rightarrow> bytes list" where
  "listener_datagrams cookie = [ack_of HELLO 0, frame_bytes HELLO_RETRY cookie 0]"

definition server_datagrams :: "bytes \<Rightarrow> bytes \<Rightarrow> bytes list" where
  "server_datagrams challenge ok =
     [ack_of HELLO 1, frame_bytes CHALLENGE challenge 0, ack_of HELLO_ACK 2, frame_bytes SESSION_OK ok 0]"

lemma at_rest_keys:
  "at_rest u srv dl keys lt sent now evs \<Longrightarrow>
   at_rest (op_set_session_keys (udp_ops C) k1 k2 u) srv dl (Some (k1, k2)) lt sent now evs"
  by (simp add: at_rest_def udp_set_session_keys_def)

lemma client_udp_handshake:
  assumes laws: "dh_law C" "hmac_law C" "hkdf_law C"
    and lens: "length dev = 6" "length nonce = 32" "length sid = 16" "16 \<le> length psk" "length cookie = 16"
    and keys: "derive_session_keys C priv_c pub_s nonce pub_c pub_s = Inr (k1, k2)"
    and pubs: "length pub_s = 32" "pub_c = x_public C priv_c"
    and times: "steady now [t1, t2, t3, t4, t5, t6]" "list_all (before dl) [t1, t2, t3, t4, t5, t6]"
    and u: "at_rest u False dl None (-1) [] now (zip [t1, t2, t3, t4, t5, t6] (map Datagram
       (listener_datagrams cookie @ server_datagrams (nonce @ pub_s)
         (sid @ server_hmac C psk nonce sid pub_c pub_s))))"
  shows "\<exists>u'. client_handshake (udp_ops C) C priv_c psk (Some dev) u = (Ret (fresh_info dev sid k1 k2), u')
    \<and> at_rest u' False dl (Some (k1, k2)) 4
        (client_datagrams dev pub_c cookie (client_hmac C psk nonce dev pub_c pub_s)) t6 []"
proof -
  let ?mac = "client_hmac C psk nonce dev pub_c pub_s"
  let ?ok = "sid @ server_hmac C psk nonce sid pub_c pub_s"
  have len_c: "length pub_c = 32" using laws(1) pubs(2) by (simp add: dh_law_def)
  have ok: "sendable (dev @ pub_c) 0" "sendable (dev @ pub_c @ cookie) 1" "sendable cookie 0"
    "sendable ?mac 2" "sendable (nonce @ pub_s) 0" "sendable ?ok 0"
    using lens pubs(1) len_c laws(2) by (simp_all add: sendable_def)
  have ph: "handshake_phase HELLO" "handshake_phase CHALLENGE" "handshake_phase HELLO_ACK"
    "handshake_phase SESSION_OK" by (simp_all add: handshake_phase_def)
  let ?ev = "\<lambda>t d. (t, Datagram d)"
  let ?e6 = "[?ev t6 (frame_bytes SESSION_OK ?ok 0)]"
  let ?e5 = "?ev t5 (ack_of HELLO_ACK 2) # ?e6"
  let ?e4 = "?ev t4 (frame_bytes CHALLENGE (nonce @ pub_s) 0) # ?e5"
  let ?e3 = "?ev t3 (ack_of HELLO 1) # ?e4"
  let ?e2 = "?ev t2 (frame_bytes HELLO_RETRY cookie 0) # ?e3"
  let ?s1 = "[frame_bytes HELLO (dev @ pub_c) 0]"
  let ?s2 = "?s1 @ [ack_of HELLO_RETRY 0]"
  let ?s3 = "?s2 @ [frame_bytes HELLO (dev @ pub_c @ cookie) 1]"
  let ?s4 = "?s3 @ [ack_of CHALLENGE 0]"
  let ?s5 = "?s4 @ [frame_bytes HELLO_ACK ?mac 2]"
  let ?s6 = "?s5 @ [ack_of SESSION_OK 0]"
  have u0: "at_rest u False dl None (-1) [] now (?ev t1 (ack_of HELLO 0) # ?e2)"
    using u by (simp add: listener_datagrams_def server_datagrams_def)
  note tm = times [simplified]
  obtain u1 where w1: "op_write_frame (udp_ops C) HELLO (dev @ pub_c) 0 u = (Ret (), u1)"
    and u1: "at_rest u1 False dl None (-1) ?s1 t1 ?e2"
    using write_rest [OF u0 ph(1) ok(1)] tm by auto
  obtain u2 where r1: "read_handshake (udp_ops C) u1 = (Ret (sent_frame HELLO_RETRY cookie 0), u2)"
    and u2: "at_rest u2 False dl None 10 ?s2 t2 ?e3"
    using read_rest [OF u1 _ ok(3)] tm by auto
  obtain u3 where w2: "op_write_frame (udp_ops C) HELLO (dev @ pub_c @ cookie) 1 u2 = (Ret (), u3)"
    and u3: "at_rest u3 False dl None 10 ?s3 t3 ?e4"
    using write_rest [OF u2 ph(1) ok(2)] tm by auto
  obtain u4 where r2: "read_handshake (udp_ops C) u3 = (Ret (sent_frame CHALLENGE (nonce @ pub_s) 0), u4)"
    and u4: "at_rest u4 False dl None 2 ?s4 t4 ?e5"
    using read_rest [OF u3 _ ok(5)] ph(2) tm by auto
  obtain u5 where w3: "op_write_frame (udp_ops C) HELLO_ACK ?mac 2 u4 = (Ret (), u5)"
    and u5: "at_rest u5 False dl None 2 ?s5 t5 ?e6"
    using write_rest [OF u4 ph(3) ok(4)] tm by auto
  obtain u6 where r3: "read_handshake (udp_ops C) u5 = (Ret (sent_frame SESSION_OK ?ok 0), u6)"
    and u6: "at_rest u6 False dl None 4 ?s6 t6 []"
    using read_rest [OF u5 _ ok(6)] ph(4) tm by auto
  have rc: "read_challenge (udp_ops C) dev pub_c u1 = (Ret (sent_frame CHALLENGE (nonce @ pub_s) 0), u4)"
    using r1 w2 r2 lens(5) by (simp add: read_challenge_def bind_io_def throw_if_def Let_def)
  show ?thesis
    using client_handshake_run [OF laws lens(1-4) keys pubs w1 rc w3 r3] at_rest_keys [OF u6, of C k1 k2]
    by (simp add: client_datagrams_def)
qed

lemma server_udp_exchange:
  assumes laws: "dh_law C" "hmac_law C"
    and lens: "length dev = 6" "length (r_nonce rnd) = 32" "length (r_session_id rnd) = 16" "length cookie = 16"
    and psk: "resolve_psk src dev = Inr psk"
    and keys: "derive_session_keys C (r_private rnd) pub_c (r_nonce rnd) pub_c pub_s = Inr (k1, k2)"
    and pubs: "length pub_c = 32" "pub_s = x_public C (r_private rnd)"
    and times: "steady now [t1, t2, t3]" "list_all (before dl) [t1, t2, t3]"
    and buf: "u_read_buffer u = frame_bytes HELLO (dev @ pub_c @ cookie) 1"
    and u: "at_rest (u\<lparr>u_read_buffer := []\<rparr>) True dl None 1 [ack_of HELLO 1] now (zip [t1, t2, t3]
       (map Datagram (drop 3 (client_datagrams dev pub_c cookie (client_hmac C psk (r_nonce rnd) dev pub_c pub_s)))))"
  shows "\<exists>u'. server_exchange (udp_ops C) C rnd src u = (Ret (dev, k2, k1), u')
    \<and> at_rest u' True dl (Some (k2, k1)) 3 (server_datagrams (r_nonce rnd @ pub_s)
        (r_session_id rnd @ server_hmac C psk (r_nonce rnd) (r_session_id rnd) pub_c pub_s)) t3 []"
proof -
  let ?mac = "client_hmac C psk (r_nonce rnd) dev pub_c pub_s"
  let ?ok = "r_session_id rnd @ server_hmac C psk (r_nonce rnd) (r_session_id rnd) pub_c pub_s"
  let ?u0 = "u\<lparr>u_read_buffer := []\<rparr>"
  have len_s: "length pub_s = 32" using laws(1) pubs(2) by (simp add: dh_law_def)
  have ok: "sendable (dev @ pub_c @ cookie) 1" "sendable (r_nonce rnd @ pub_s) 0" "sendable ?mac 2" "sendable ?ok 0"
    using lens pubs(1) len_s laws(2) by (simp_all add: sendable_def)
  have ph: "handshake_phase CHALLENGE" "handshake_phase HELLO_ACK" "handshake_phase SESSION_OK"
    by (simp_all add: handshake_phase_def)
  let ?ev = "\<lambda>t d. (t, Datagram d)"
  let ?e3 = "[?ev t3 (ack_of SESSION_OK 0)]"
  let ?e2 = "?ev t2 (frame_bytes HELLO_ACK ?mac 2) # ?e3"
  let ?s2 = "[ack_of HELLO 1] @ [frame_bytes CHALLENGE (r_nonce rnd @ pub_s) 0]"
  let ?s3 = "?s2 @ [ack_of HELLO_ACK 2]"
  let ?s4 = "?s3 @ [frame_bytes SESSION_OK ?ok 0]"
  have u0: "at_rest ?u0 True dl None 1 [ack_of HELLO 1] now (?ev t1 (ack_of CHALLENGE 0) # ?e2)"
    using u by (simp add: client_datagrams_def)
  note tm = times [simplified]
  have "udp_read_frame C False u = (Ret (sent_frame HELLO (dev @ pub_c @ cookie) 1), ?u0)"
    using read_frame_framed [OF frame_bytes_is_framed(1) [OF ok(1)], of u HELLO "[]" C False] buf
      decode_frame_bytes [OF ok(1)] by (simp add: read_result_def)
  then have r1: "read_handshake (udp_ops C) u = (Ret (sent_frame HELLO (dev @ pub_c @ cookie) 1), ?u0)"
    by (simp add: read_handshake_def catch_io_def)
  obtain u1 where w1: "op_write_frame (udp_ops C) CHALLENGE (r_nonce rnd @ pub_s) 0 ?u0 = (Ret (), u1)"
    and u1: "at_rest u1 True dl None 1 ?s2 t1 ?e2"
    using write_rest [OF u0 ph(1) ok(2)] tm by auto
  obtain u2 where r2: "read_handshake (udp_ops C) u1 = (Ret (sent_frame HELLO_ACK ?mac 2), u2)"
    and u2: "at_rest u2 True dl None 3 ?s3 t2 ?e3"
    using read_rest [OF u1 _ ok(3)] ph(2) tm by auto
  obtain u3 where w2: "op_write_frame (udp_ops C) SESSION_OK ?ok 0 (op_set_session_keys (udp_ops C) k2 k1 u2)
      = (Ret (), u3)" and u3: "at_rest u3 True dl (Some (k2, k1)) 3 ?s4 t3 []"
    using write_rest [OF at_rest_keys [OF u2, of C k2 k1] ph(3) ok(4), of C] tm by auto
  have c16: "length cookie \<in> {0, 16}" using lens(4) by simp
  from server_exchange_run [OF laws lens(1-3) c16 psk keys pubs r1 w1 r2 w2] u3 show ?thesis
    by (simp add: server_datagrams_def)
qed

section \<open>The whole exchange\<close>

lemma hello_fields:
  assumes "length dev = 6" "length pub_c = 32" "length x \<in> {0, 16}" "n \<in> {0, 1}"
  shows "length (frame_bytes HELLO (dev @ pub_c @ x) n) = 50 + length x"
    "datagram_type (frame_bytes HELLO (dev @ pub_c @ x) n) = Some 1"
    "slice 50 66 (frame_bytes HELLO (dev @ pub_c @ x) n) = x"
    "u8_at (frame_bytes HELLO (dev @ pub_c @ x) n) 3 = 1"
    "u32_at (frame_bytes HELLO (dev @ pub_c @ x) n) 4 = n"
    "sendable (dev @ pub_c @ x) n"
proof -
  show ok: "sendable (dev @ pub_c @ x) n" using assms by (auto simp: sendable_def)
  let ?d = "frame_bytes HELLO (dev @ pub_c @ x) n"
  note f = frame_bytes_fields [OF ok, of ?d HELLO "[]", simplified]
  show len: "length ?d = 50 + length x" using assms by auto
  show "u8_at ?d 3 = 1" "u32_at ?d 4 = n" using f by simp_all
  then show "datagram_type ?d = Some 1"
    using frame_bytes_is_framed [OF ok, of HELLO] len by (simp add: datagram_type_def)
  have "drop 12 ?d = dev @ pub_c @ x" by (simp add: frame_bytes_def frame_body_def)
  then have "drop 38 (drop 12 ?d) = x" using assms by simp
  then show "slice 50 66 ?d = x" using assms(3) by (auto simp: slice_def)
qed

lemma cookie_sent:
  assumes "hmac_law C" and "map_of (sv_handshakes sv) addr = None"
    and "length dev = 6" "length pub_c = 32"
    and "fst (allow_udp_cookie (fst addr) now (sv_cookie_limiter sv))"
    and "sv1 = fst (handle_udp_datagram C wall now (frame_bytes HELLO (dev @ pub_c) 0) addr sv)"
  shows "\<exists>cookie. length cookie = 16
    \<and> handle_udp_datagram C wall now (frame_bytes HELLO (dev @ pub_c) 0) addr sv = (sv1, None)
    \<and> sv_sent sv1 = sv_sent sv @ map (Pair addr) (listener_datagrams cookie)"
proof -
  let ?h = "frame_bytes HELLO (dev @ pub_c) 0"
  let ?c = "cookie_for C (sv_cookie_secret sv) addr (time_bucket wall)"
  note f = hello_fields [OF assms(3,4), of "[]" 0, simplified]
  have c: "length ?c = 16" using assms(1) by (simp add: cookie_for_def hmac_law_def)
  then have ok: "sendable ?c 0" by (simp add: sendable_def)
  have h: "handle_udp_datagram C wall now ?h addr sv = (issue_cookie C wall now ?h addr sv, None)"
    using assms(2) f by (simp add: handle_udp_datagram_def handle_hello_def)
  have "sv_sent (issue_cookie C wall now ?h addr sv)
      = sv_sent sv @ [(addr, utack_header 1 0), (addr, frame_bytes HELLO_RETRY ?c 0)]"
    using assms(5) encode_frame_sendable [OF ok, of HELLO_RETRY] f(4,5)
    by (auto simp: issue_cookie_def Let_def send_datagram_def split: prod.splits)
  with h c assms(6) show ?thesis by (intro exI [of _ ?c]) (simp add: listener_datagrams_def ack_of_def)
qed

text \<open>The stream the listener makes holds the client's second HELLO and has acknowledged it.\<close>

lemma started_stream:
  assumes "length dev = 6" "length pub_c = 32" "length cookie = 16"
    and "u = feed_packet C (frame_bytes HELLO (dev @ pub_c @ cookie) 1) (UDPStream addr True now [])"
  shows "u_read_buffer u = frame_bytes HELLO (dev @ pub_c @ cookie) 1"
    and "at_rest (u\<lparr>u_incoming := evs, u_deadline := dl, u_read_buffer := []\<rparr>) True dl None 1
           [ack_of HELLO 1] now evs"
    and "u_remote_addr u = addr" and "u_now u = now"
proof -
  let ?d = "frame_bytes HELLO (dev @ pub_c @ cookie) 1"
  let ?u = "(UDPStream addr True now [])\<lparr>u_last_rx_type := 1\<rparr>"
  have ok: "sendable (dev @ pub_c @ cookie) 1" using assms(1-3) by (simp add: sendable_def)
  have nd: "\<not> handshake_duplicate (UDPStream addr True now []) (packet_type_code HELLO)"
    by (simp add: handshake_duplicate_def UDPStream_def)
  have bu: "build_utack C ?u 1 1 = utack_header 1 1"
    by (simp add: build_utack_def UDPStream_def)
  have "length ?d \<le> 4096" using ok by (simp add: sendable_def)
  with feed_handshake_frame [OF ok _ _ nd, of C] assms(4) bu
  have u: "u = (sendto (utack_header 1 1) ?u)\<lparr>u_read_buffer := ?d\<rparr>"
    by (simp add: handshake_phase_def accept_datagram_def UDPStream_def)
  show "u_read_buffer u = ?d" "u_remote_addr u = addr" "u_now u = now"
    by (simp_all add: u sendto_def UDPStream_def)
  show "at_rest (u\<lparr>u_incoming := evs, u_deadline := dl, u_read_buffer := []\<rparr>) True dl None 1
           [ack_of HELLO 1] now evs"
    by (simp add: u sendto_def UDPStream_def at_rest_def ack_of_def)
qed

lemma steady_before:
  "steady now ts \<Longrightarrow> x \<in> set ts \<Longrightarrow> x < now + rat_of_nat (length ts) / 10"
proof (induction ts arbitrary: now)
  case (Cons y ts)
  then show ?case
  proof (cases "x = y")
    case False
    with Cons have "x < y + rat_of_nat (length ts) / 10" by simp
    with Cons.prems(1) show ?thesis by (simp add: field_simps)
  qed (auto simp: field_simps)
qed simp

lemma steady_in_time:
  assumes "steady now ts" and "rat_of_nat (length ts) / 10 \<le> timeout"
  shows "list_all (before (Some (now + timeout))) ts"
  using steady_before [OF assms(1)] assms(2) by (fastforce simp: list_all_iff before_def)

text \<open>The server's side: the listener and the stream it makes, when a client sends these datagrams.\<close>

lemma udp_server_agrees:
  assumes laws: "dh_law C" "hmac_law C" "hkdf_law C"
    and lens: "length dev = 6" "length (r_nonce rnd) = 32" "length (r_session_id rnd) = 16"
    and psk: "resolve_psk src dev = Inr psk"
    and keys: "derive_session_keys C priv_c (x_public C (r_private rnd)) (r_nonce rnd) (x_public C priv_c)
           (x_public C (r_private rnd)) = Inr (k1, k2)"
    and listener: "map_of (sv_handshakes sv) addr = None"
      "fst (allow_udp_cookie (fst addr) now (sv_cookie_limiter sv))"
      "handle_udp_datagram C wall now (frame_bytes HELLO (dev @ x_public C priv_c) 0) addr sv = (sv1, none)"
      "time_bucket wall2 \<in> {time_bucket wall, time_bucket wall + 1}" "handshake_admissible now2 addr sv1"
    and times: "steady now2 us" "length us = 3" "3 / 10 \<le> handshake_timeout"
  shows "\<exists>cookie sv2 i u s'. length cookie = 16
   \<and> none = None \<and> sv_sent sv1 = sv_sent sv @ map (Pair addr) (listener_datagrams cookie)
   \<and> handle_udp_datagram C wall2 now2 (frame_bytes HELLO (dev @ x_public C priv_c @ cookie) 1) addr sv1 = (sv2, Some i)
   \<and> map_of (sv_streams sv2) i = Some u
   \<and> run_handshake (udp_ops C) C rnd ident src handshake_timeout
       \<lparr>h_transport = u\<lparr>u_incoming := zip us (map Datagram (drop 3 (client_datagrams dev (x_public C priv_c) cookie
            (client_hmac C psk (r_nonce rnd) dev (x_public C priv_c) (x_public C (r_private rnd))))))\<rparr>,
        h_failed = sv_failed sv1\<rparr> = (Ret (fresh_info dev (r_session_id rnd) k2 k1), s')
   \<and> at_rest (h_transport s') True None (Some (k2, k1)) 3
       (server_datagrams (r_nonce rnd @ x_public C (r_private rnd)) (r_session_id rnd
          @ server_hmac C psk (r_nonce rnd) (r_session_id rnd) (x_public C priv_c) (x_public C (r_private rnd))))
       (last us) []"
proof -
  let ?pc = "x_public C priv_c" and ?ps = "x_public C (r_private rnd)"
  let ?n = "r_nonce rnd" and ?sid = "r_session_id rnd"
  let ?mac = "client_hmac C psk ?n dev ?pc ?ps" and ?ok = "?sid @ server_hmac C psk ?n ?sid ?pc ?ps"
  have pub: "length ?pc = 32" "length ?ps = 32" using laws(1) by (simp_all add: dh_law_def)
  have keys': "derive_session_keys C (r_private rnd) ?pc ?n ?pc ?ps = Inr (k1, k2)"
    using keys laws(1) by (simp add: derive_session_keys_def dh_law_def)
  have klen: "length k1 = 32 \<and> length k2 = 32" by (rule derive_session_keys_length [OF laws(3) keys])
  obtain cookie where ck: "length cookie = 16" "none = None"
    "sv_sent sv1 = sv_sent sv @ map (Pair addr) (listener_datagrams cookie)"
    using cookie_sent [OF laws(2) listener(1) lens(1) pub(1) listener(2), of sv1 wall] listener(3) by auto
  let ?h1 = "frame_bytes HELLO (dev @ ?pc) 0" and ?h2 = "frame_bytes HELLO (dev @ ?pc @ cookie) 1"
  have f1: "length ?h1 = 50" "datagram_type ?h1 = Some 1"
    using hello_fields [OF lens(1) pub(1), of "[]" 0] by simp_all
  have f2: "length ?h2 = 66" "datagram_type ?h2 = Some 1" "slice 50 66 ?h2 = cookie"
    using hello_fields [OF lens(1) pub(1), of cookie 1] ck(1) by simp_all
  let ?i = "sv_next sv1"
  obtain sv2 where sv2: "handle_udp_datagram C wall2 now2 ?h2 addr sv1 = (sv2, Some ?i)"
    using cookie_round_trip [OF laws(2) listener(1) f1(1,2) listener(2,3), of "ack_of HELLO 0" cookie ?h2 wall2 now2]
      ck f2 listener(4,5) by (auto simp: listener_datagrams_def)
  let ?u = "feed_packet C ?h2 (UDPStream addr True now2 [])"
  have "sv2 = start_handshake C now2 ?h2 addr sv1"
    using sv2 f2(1,2)
    by (auto simp: handle_udp_datagram_def handle_hello_def split: option.splits if_splits)
  then have u: "map_of (sv_streams sv2) ?i = Some ?u" by (simp add: start_handshake_def Let_def map_of_update)
  let ?cd = "client_datagrams dev ?pc cookie ?mac" and ?sd = "server_datagrams (?n @ ?ps) ?ok"
  obtain u1 u2 u3 where us: "us = [u1, u2, u3]" using times(2) by (auto simp: length_Suc_conv numeral_eq_Suc)
  let ?sdl = "Some (now2 + handshake_timeout)"
  let ?s0 = "?u\<lparr>u_incoming := zip us (map Datagram (drop 3 ?cd)), u_deadline := ?sdl\<rparr>"
  note st = started_stream [OF lens(1) pub(1) ck(1) refl, where C = C and addr = addr and now = now2]
  obtain su where su: "server_exchange (udp_ops C) C rnd src ?s0 = (Ret (dev, k2, k1), su)"
    and rest_s: "at_rest su True ?sdl (Some (k2, k1)) 3 ?sd u3 []"
    using server_udp_exchange [OF laws(1,2) lens ck(1) psk keys' pub(1) refl, of now2 u1 u2 u3 ?sdl ?s0]
      st(1,2) times(1) steady_in_time [OF times(1), of handshake_timeout] times(3) us by auto
  let ?si = "fresh_info dev ?sid k2 k1"
  have s0: "op_set_timeout (udp_ops C) (Some handshake_timeout)
      (?u\<lparr>u_incoming := zip us (map Datagram (drop 3 ?cd))\<rparr>) = ?s0"
    using st(4) by (simp add: udp_set_timeout_def)
  have "limiter_key_of (udp_peername ?s0) ident = fst addr"
    using st(3) by (cases addr) (simp add: udp_peername_def limiter_key_of_def)
  moreover have "\<not> locked_out (sv_failed sv1) (fst addr) now2"
    using listener(5) by (simp add: handshake_admissible_def)
  moreover have "server_body (udp_ops C) C rnd src (fst addr) \<lparr>h_transport = ?s0, h_failed = sv_failed sv1\<rparr>
      = (Ret ?si, \<lparr>h_transport = su, h_failed = AList.delete (fst addr) (sv_failed sv1)\<rparr>)"
    using su SessionInfo_fresh [OF lens(1,3)] klen by (simp add: server_body_def bind_io_def on_link_def)
  ultimately have "server_handshake (udp_ops C) C rnd ident src \<lparr>h_transport = ?s0, h_failed = sv_failed sv1\<rparr>
      = (Ret ?si, \<lparr>h_transport = su, h_failed = AList.delete (fst addr) (sv_failed sv1)\<rparr>)"
    using st(4) by (intro server_handshake_body [where now = now2 and t = ?s0]) simp_all
  then obtain s' where s': "run_handshake (udp_ops C) C rnd ident src handshake_timeout
       \<lparr>h_transport = ?u\<lparr>u_incoming := zip us (map Datagram (drop 3 ?cd))\<rparr>, h_failed = sv_failed sv1\<rparr>
       = (Ret ?si, s')" and hs: "h_transport s' = udp_set_timeout None su"
    using times(3) s0 by (simp add: run_handshake_def wait_for_def)
  have "at_rest (h_transport s') True None (Some (k2, k1)) 3 ?sd (last us) []"
    using hs rest_s us by (simp add: at_rest_def udp_set_timeout_def)
  with ck sv2 u s' show ?thesis by blast
qed

text \<open>
  C9: the handshake over UDP agrees: a client connects while its datagrams and the server's
  arrive, each within 100 milliseconds of the one before and none lost, and the cookie
  limiter, the handshake limits, the lockout and the key of the device allow it.  Then the
  listener answers the first HELLO with a cookie and keeps no stream, accepts the HELLO that
  the client sends with that cookie, and makes a stream; and with the client's stream fed
  with exactly what the listener and that stream sent, and that stream with exactly what the
  client sent after it, both sides return within their timeouts, with matching sessions and
  with acknowledgement keys that verify each other.\<close>

theorem handshake_agreement_udp:
  assumes laws: "dh_law C" "hmac_law C" "hkdf_law C"
    and lens: "length dev = 6" "length (r_nonce rnd) = 32" "length (r_session_id rnd) = 16"
    and psk: "resolve_psk src dev = Inr psk"
    and keys: "derive_session_keys C priv_c (x_public C (r_private rnd)) (r_nonce rnd) (x_public C priv_c)
           (x_public C (r_private rnd)) = Inr (k1, k2)"
    and listener: "map_of (sv_handshakes sv) addr = None"
      "fst (allow_udp_cookie (fst addr) now (sv_cookie_limiter sv))"
      "handle_udp_datagram C wall now (frame_bytes HELLO (dev @ x_public C priv_c) 0) addr sv = (sv1, none)"
      "time_bucket wall2 \<in> {time_bucket wall, time_bucket wall + 1}" "handshake_admissible now2 addr sv1"
    and client: "c_psk c = psk" "c_device_id c = dev"
      "\<And>evs. open_transport (reg evs) c = Inr (UDPStream ps False t0 evs)"
    and times: "steady t0 ts" "length ts = 6" "steady now2 us" "length us = 3"
      "6 / 10 \<le> timeout" "3 / 10 \<le> handshake_timeout"
  shows "\<exists>cookie hello2 sv2 i u c' sc s' si.
     none = None \<and> sv_sent sv1 = sv_sent sv @ map (Pair addr) (listener_datagrams cookie)
   \<and> handle_udp_datagram C wall2 now2 hello2 addr sv1 = (sv2, Some i) \<and> map_of (sv_streams sv2) i = Some u
   \<and> client_connect (udp_ops C) C
       (reg (zip ts (map Datagram (listener_datagrams cookie @ u_sent (h_transport s'))))) priv_c timeout c
     = (Ret (), c') \<and> c_session c' = Some sc
   \<and> run_handshake (udp_ops C) C rnd ident src handshake_timeout
       \<lparr>h_transport = u\<lparr>u_incoming := zip us (map Datagram (drop 3 (u_sent (s_transport sc))))\<rparr>,
        h_failed = sv_failed sv1\<rparr> = (Ret si, s')
   \<and> take 3 (u_sent (s_transport sc))
     = [frame_bytes HELLO (dev @ x_public C priv_c) 0, ack_of HELLO_RETRY 0, hello2]
   \<and> peers (s_info sc) si \<and> device_id (s_info sc) = dev \<and> device_id si = dev
   \<and> session_id si = r_session_id rnd
   \<and> u_tx_key (s_transport sc) = u_rx_key (h_transport s') \<and> u_rx_key (s_transport sc) = u_tx_key (h_transport s')"
proof -
  let ?pc = "x_public C priv_c" and ?ps = "x_public C (r_private rnd)"
  let ?n = "r_nonce rnd" and ?sid = "r_session_id rnd"
  let ?mac = "client_hmac C psk ?n dev ?pc ?ps" and ?ok = "?sid @ server_hmac C psk ?n ?sid ?pc ?ps"
  have pub: "length ?ps = 32" using laws(1) by (simp add: dh_law_def)
  obtain cookie sv2 i u s' where ck: "length cookie = 16"
    and server: "none = None" "sv_sent sv1 = sv_sent sv @ map (Pair addr) (listener_datagrams cookie)"
      "handle_udp_datagram C wall2 now2 (frame_bytes HELLO (dev @ ?pc @ cookie) 1) addr sv1 = (sv2, Some i)"
      "map_of (sv_streams sv2) i = Some u"
      "run_handshake (udp_ops C) C rnd ident src handshake_timeout
         \<lparr>h_transport = u\<lparr>u_incoming := zip us (map Datagram (drop 3 (client_datagrams dev ?pc cookie ?mac)))\<rparr>,
          h_failed = sv_failed sv1\<rparr> = (Ret (fresh_info dev ?sid k2 k1), s')"
      "at_rest (h_transport s') True None (Some (k2, k1)) 3 (server_datagrams (?n @ ?ps) ?ok) (last us) []"
    using udp_server_agrees [OF laws lens psk keys listener times(3,4,6)] by blast
  let ?cd = "client_datagrams dev ?pc cookie ?mac" and ?sd = "server_datagrams (?n @ ?ps) ?ok"
  obtain t1 t2 t3 t4 t5 t6 where ts: "ts = [t1, t2, t3, t4, t5, t6]"
    using times(2) by (auto simp: length_Suc_conv numeral_eq_Suc)
  let ?evs = "zip ts (map Datagram (listener_datagrams cookie @ ?sd))" and ?cdl = "Some (t0 + timeout)"
  have c0: "at_rest (udp_set_timeout (Some timeout) (UDPStream ps False t0 ?evs)) False ?cdl None (-1) [] t0 ?evs"
    by (simp add: at_rest_def UDPStream_def udp_set_timeout_def)
  obtain cu where cu: "client_handshake (udp_ops C) C priv_c psk (Some dev)
      (udp_set_timeout (Some timeout) (UDPStream ps False t0 ?evs)) = (Ret (fresh_info dev ?sid k1 k2), cu)"
    and rest_c: "at_rest cu False ?cdl (Some (k1, k2)) 4 ?cd t6 []"
    using client_udp_handshake [OF laws lens resolve_psk_length [OF psk] ck keys pub refl _ _ c0 [unfolded ts]]
      times(1) steady_in_time [OF times(1), of timeout] times(5) ts by auto
  let ?ci = "fresh_info dev ?sid k1 k2" and ?si = "fresh_info dev ?sid k2 k1"
  let ?cs = "new_session (udp_ops C) (udp_set_timeout None cu) ?ci None"
  obtain c' where c': "client_connect (udp_ops C) C (reg ?evs) priv_c timeout c = (Ret (), c')"
    "c_session c' = Some ?cs"
    using cu times(5) by (simp add: client_connect_def client wait_for_def)
  have sc: "s_info ?cs = ?ci" "u_sent (s_transport ?cs) = ?cd" "u_tx_key (s_transport ?cs) = Some k1"
    "u_rx_key (s_transport ?cs) = Some k2"
    using rest_c by (simp_all add: new_session_def at_rest_def)
  have ss: "u_sent (h_transport s') = ?sd" "u_tx_key (h_transport s') = Some k2" "u_rx_key (h_transport s') = Some k1"
    using server(6) by (simp_all add: at_rest_def)
  have "take 3 ?cd = [frame_bytes HELLO (dev @ ?pc) 0, ack_of HELLO_RETRY 0, frame_bytes HELLO (dev @ ?pc @ cookie) 1]"
    by (simp add: client_datagrams_def)
  then show ?thesis
    using server c' sc ss agreed_sessions [OF lens(3), of dev k1 k2]
    by (intro exI [of _ cookie] exI [of _ "frame_bytes HELLO (dev @ ?pc @ cookie) 1"] exI [of _ sv2] exI [of _ i]
        exI [of _ u] exI [of _ c'] exI [of _ ?cs] exI [of _ s'] exI [of _ ?si]) simp
qed

lemma issue_cookie_failed: "sv_failed (issue_cookie C wall now d addr sv) = sv_failed sv"
  by (auto simp: issue_cookie_def Let_def send_datagram_def split: prod.split sum.split)

lemma demo_keys:
  "\<exists>k1 k2. derive_session_keys demo_crypto [5] (x_public demo_crypto [7]) (replicate 32 1)
      (x_public demo_crypto [5]) (x_public demo_crypto [7]) = Inr (k1, k2)"
  using demo_shared demo_shared_nonzero by (simp add: derive_session_keys_def Let_def)

theorem handshake_agreement_udp_witness:
  "\<exists>sc si c' s' t evs. client_connect (udp_ops demo_crypto) demo_crypto
       (demo_registry (UDPStream (''s'', 9000) False 0 evs)) [5] 10 demo_client = (Ret (), c')
     \<and> c_session c' = Some sc
     \<and> run_handshake (udp_ops demo_crypto) demo_crypto demo_random 0 (Psk_bytes (replicate 16 9)) 10 t = (Ret si, s')
     \<and> peers (s_info sc) si"
proof -
  let ?h = "frame_bytes HELLO (replicate 6 3 @ x_public demo_crypto [5]) 0"
  let ?a = "(''h'', 1) :: addr"
  obtain k1 k2 where keys: "derive_session_keys demo_crypto [5] (x_public demo_crypto [7]) (replicate 32 1)
      (x_public demo_crypto [5]) (x_public demo_crypto [7]) = Inr (k1, k2)" using demo_keys by blast
  obtain sv1 r where h: "handle_udp_datagram demo_crypto 60 0 ?h ?a demo_server = (sv1, r)" by fastforce
  have al: "allow_udp_cookie ''h'' 0 [] = (True, [(''h'', 9, 0)])"
    by (simp add: allow_udp_cookie_def refilled_def bound_cookies_def Let_def)
  have pub: "length (x_public demo_crypto [5]) = 32" by (simp add: demo_crypto_def)
  note f = hello_fields [OF _ pub, of "replicate 6 3" "[]" 0, simplified]
  have "sv1 = issue_cookie demo_crypto 60 0 ?h ?a demo_server"
    using h f by (simp add: handle_udp_datagram_def handle_hello_def demo_server_def)
  then have "same_tables demo_server sv1" "sv_failed sv1 = []"
    by (simp_all add: issue_cookie_failed) (simp add: demo_server_def)
  then have adm: "handshake_admissible 1 ?a sv1"
    by (simp add: same_tables_def handshake_admissible_def locked_out_def count_of_def demo_server_def)
  have psk: "resolve_psk (Psk_bytes (replicate 16 9)) (replicate 6 3) = Inr (replicate 16 9)"
    by (simp add: resolve_psk_def find_psk_def)
  let ?ts = "[1 / 20, 2 / 20, 3 / 20, 4 / 20, 5 / 20, 6 / 20] :: rat list"
  let ?us = "[1 + 1 / 20, 1 + 2 / 20, 1 + 3 / 20] :: rat list"
  have t: "steady 0 ?ts" "steady 1 ?us" by simp_all
  have laws: "dh_law demo_crypto" "hmac_law demo_crypto" "hkdf_law demo_crypto" by simp_all
  have lens: "length (replicate 6 (3 :: byte)) = 6" "length (r_nonce demo_random) = 32"
    "length (r_session_id demo_random) = 16" by (simp_all add: demo_random_def)
  have keys': "derive_session_keys demo_crypto [5] (x_public demo_crypto (r_private demo_random))
      (r_nonce demo_random) (x_public demo_crypto [5]) (x_public demo_crypto (r_private demo_random)) = Inr (k1, k2)"
    using keys by (simp add: demo_random_def)
  have sv: "map_of (sv_handshakes demo_server) ?a = None"
    "fst (allow_udp_cookie (fst ?a) 0 (sv_cookie_limiter demo_server))"
    using al by (simp_all add: demo_server_def)
  have b: "time_bucket 90 \<in> {time_bucket 60, time_bucket 60 + 1}" by (simp add: time_bucket_def)
  have c: "c_psk demo_client = replicate 16 9" "c_device_id demo_client = replicate 6 3"
    "open_transport (demo_registry (UDPStream (''s'', 9000) False 0 evs)) demo_client
      = Inr (UDPStream (''s'', 9000) False 0 evs)" for evs by simp_all
  have n: "length ?ts = 6" "length ?us = 3" "6 / 10 \<le> (10 :: rat)" "3 / 10 \<le> (10 :: rat)" by simp_all
  note agreement = handshake_agreement_udp [OF laws lens psk keys' sv h b adm c t(1) n(1) t(2) n(2-4), of 0]
  show ?thesis
    using agreement by (elim exE conjE) (intro exI conjI; assumption)
qed

end
