(* ===== verification/CoreUdpLink.thy ===== *)
theory CoreUdpLink
  imports CoreUdp CoreHandshake UdpHandshake
begin

text \<open>
  A device on the UDP transport of the ESP32 port and the Python server on a network that works: each
  side fed with the datagrams that the other one sends, from the first HELLO to messages.
\<close>

section \<open>A working network\<close>

text \<open>
  The datagrams arrive within 480 milliseconds of each other, however long the device does not
  look at its socket, and what it sends is accepted.
\<close>

definition due_by :: "32 word \<Rightarrow> (32 word \<times> udp_event) list \<Rightarrow> bool" where
  "due_by w evs \<longleftrightarrow> (\<forall>e\<in>set evs. fst e \<le> w)"

definition soon :: "(32 word \<times> udp_event) list \<Rightarrow> bool" where
  "soon evs \<longleftrightarrow> (\<forall>e\<in>set evs. unat (fst e) < 480)"

definition datagrams :: "esp_udp \<Rightarrow> udp_event list" where
  "datagrams t = map snd (d_events t)"

definition udp_up :: "esp_udp \<Rightarrow> bool" where
  "udp_up t \<longleftrightarrow> d_open t \<and> set (d_sends t) \<subseteq> {Accepted_send} \<and> soon (d_events t)"

lemma elapse_soon [simp]: "soon evs \<Longrightarrow> soon (elapse r evs)" "map snd (elapse r evs) = map snd evs"
  by (induction r evs rule: elapse.induct) (auto simp: soon_def word_le_nat_alt unat_sub)

lemma due_by_elapse [simp]: "due_by w evs \<Longrightarrow> due_by w (elapse r evs)"
  by (induction r evs rule: elapse.induct) (auto simp: due_by_def word_le_nat_alt unat_sub)

lemma soon_due_by: "soon evs \<longleftrightarrow> due_by 479 evs"
  by (auto simp: soon_def due_by_def word_le_nat_alt)

lemma soon_simps [simp]: "soon []" "soon (e # evs) \<longleftrightarrow> unat (fst e) < 480 \<and> soon evs"
  by (simp_all add: soon_def)

lemma dgram_send_up:
  "set (d_sends t) \<subseteq> {Accepted_send} \<Longrightarrow>
     dgram_send data t = (Accepted_send, t\<lparr>d_sent := d_sent t @ [data], d_sends := tl (d_sends t)\<rparr>)"
  by (cases "d_sends t") (auto simp: dgram_send_def)

text \<open>The wait for an acknowledgement that arrives next.\<close>

lemma await_arrived:
  assumes "d_events t = (d, Packet ack) # evs" "d \<le> 10" "d_now t - start < 500"
    and "core_is_utack (take 492 ack)" "core_ack_accepted M ty seq (take 492 ack) t"
  shows "core_await_ack M ty seq start t = (Ret True, arrive d evs t)"
  using assms waited_accepts [OF waited_step(3) [OF assms(1)]]
  by (simp add: core_await_ack.simps [of _ _ _ _ t] Let_def leD)

lemma await_next:
  assumes "d_events t = (d, Packet ack) # evs" "unat (d_now t - start) + unat d < 485"
    and "core_is_utack (take 492 ack)" "core_ack_accepted M ty seq (take 492 ack) t"
  shows "\<exists>t'. core_await_ack M ty seq start t = (Ret True, t') \<and> waited t t' \<and> d_rx_buf t' = d_rx_buf t
    \<and> datagrams t' = map snd evs \<and> (\<forall>w. due_by w evs \<longrightarrow> due_by w (d_events t'))"
  using assms
proof (induction "unat d" arbitrary: d t evs rule: less_induct)
  case less
  show ?case
  proof (cases "d \<le> 10")
    case True
    have "d_now t - start < 500" using less.prems(2) by (simp add: since_less)
    from await_arrived [OF less.prems(1) True this less.prems(3,4)] less.prems(1) show ?thesis
      by (simp add: datagrams_def waited_step(3) [OF less.prems(1)])
  next
    case late: False
    let ?t1 = "pass 5 (pass 10 t)"
    have w: "waited t ?t1" using waited_trans waited_step(1) by blast
    have acc: "core_ack_accepted M ty seq (take 492 ack) ?t1" using less.prems(4) waited_accepts [OF w] by simp
    have step: "core_await_ack M ty seq start t = core_await_ack M ty seq start ?t1"
      using less.prems(1,2) late by (simp add: core_await_ack.simps [of _ _ _ _ t] since_less not_le)
    have now: "unat (d_now ?t1 - start) = unat (d_now t - start) + 15"
      using less.prems(2) by (simp add: since_add add.assoc)
    have ten: "10 \<le> d" "10 < unat d" using late by (simp_all add: word_le_nat_alt not_le)
    have sub: "unat (d - 10) = unat d - 10" using ten by (simp add: unat_sub)
    show ?thesis
    proof (cases "5 \<le> d - 10")
      case True
      have "unat (d - 10 - 5) = unat d - 15" using unat_sub [OF True] sub by simp
      moreover have "15 \<le> unat d" using True sub by (simp add: word_le_nat_alt)
      moreover have "d_events ?t1 = (d - 10 - 5, Packet ack) # evs" using less.prems(1) ten True by (simp add: pass_def)
      ultimately obtain t' where "core_await_ack M ty seq start ?t1 = (Ret True, t')" "waited ?t1 t'"
        "d_rx_buf t' = d_rx_buf ?t1" "datagrams t' = map snd evs"
        "\<forall>w. due_by w evs \<longrightarrow> due_by w (d_events t')"
        using less.hyps [of "d - 10 - 5" ?t1 evs] now less.prems(2,3) acc by auto
      with step waited_trans [OF w] show ?thesis by auto
    next
      case False
      let ?evs = "elapse (5 - (d - 10)) evs"
      have ev: "d_events ?t1 = (0, Packet ack) # ?evs" using less.prems(1) ten False by (simp add: pass_def)
      have "d_now ?t1 - start < 500" using now less.prems(2) ten by (simp add: since_less)
      from await_arrived [OF ev _ this less.prems(3) acc] waited_trans [OF w waited_step(3) [OF ev]] step
      show ?thesis by (simp add: datagrams_def)
    qed
  qed
qed

lemma core_arq_first:
  assumes "dgram_send data t = (Accepted_send, t1)" "core_await_ack M ty seq (d_now t1) t1 = (Ret True, t2)"
  shows "core_arq M ty seq data 5 t = (Ret (), t2)"
proof -
  have "core_arq M ty seq data (Suc 4) t = (Ret (), t2)" unfolding core_arq.simps assms by (simp add: assms(2))
  then show ?thesis by simp
qed

lemma udp_send_acked:
  assumes up: "udp_up t" and data: "8 \<le> length data" and first: "datagrams t = Packet ack # rest"
    and ack: "core_is_utack (take 492 ack)" "core_ack_accepted M (data ! 3) (get32 data 4) (take 492 ack) t"
  shows "\<exists>t'. usmp_udp_send M data t = (Ret (), t') \<and> udp_up t' \<and> socket_kept t t' \<and> d_rx_buf t' = d_rx_buf t
    \<and> d_sent t' = d_sent t @ [data] \<and> datagrams t' = rest
    \<and> (\<forall>w. due_by w (tl (d_events t)) \<longrightarrow> due_by w (d_events t'))"
proof -
  obtain d evs where ev: "d_events t = (d, Packet ack) # evs" "map snd evs = rest"
    using first by (cases "d_events t") (auto simp: datagrams_def)
  let ?t1 = "t\<lparr>d_sent := d_sent t @ [data], d_sends := tl (d_sends t)\<rparr>"
  have sent: "dgram_send data t = (Accepted_send, ?t1)" using up dgram_send_up by (simp add: udp_up_def)
  have k1: "socket_kept t ?t1" by (simp add: socket_kept_def arrivals_def)
  have "unat d < 480" "soon evs" using up ev by (simp_all add: udp_up_def)
  then obtain t' where t': "core_await_ack M (data ! 3) (get32 data 4) (d_now ?t1) ?t1 = (Ret True, t')"
    "waited ?t1 t'" "d_rx_buf t' = d_rx_buf t" "datagrams t' = rest"
    "\<forall>w. due_by w evs \<longrightarrow> due_by w (d_events t')"
    using await_next [of ?t1 d ack evs "d_now ?t1" M "data ! 3" "get32 data 4"] ev ack
    unfolding kept_accepts [OF k1] by (simp add: datagrams_def) blast
  have "set (tl (d_sends t)) \<subseteq> {Accepted_send}" using up by (cases "d_sends t") (auto simp: udp_up_def)
  moreover have "soon (d_events t')" using t'(5) \<open>soon evs\<close> by (simp add: soon_due_by)
  ultimately have "udp_up t'" using up t'(2) by (simp add: udp_up_def waited_def socket_kept_def)
  moreover have "usmp_udp_send M data t = (Ret (), t')"
    using up data core_arq_first [OF sent t'(1)] by (simp add: usmp_udp_send_def udp_up_def)
  moreover have "socket_kept t t'" using t'(2) kept_trans [OF k1] by (simp add: waited_def)
  ultimately show ?thesis using t' ev by (auto simp: waited_def)
qed

text \<open>The device acknowledges a frame as the stream of the SDK does.\<close>

lemma core_utack_eq:
  assumes "mbedtls_law M C"
  shows "core_utack M type seq t = utack_header (uint type) (uint seq)
    @ (if 5 \<le> type \<and> d_keys_set t then utack_mac C (d_rx_key t) (utack_header (uint type) (uint seq)) else [])"
  by (simp add: core_utack_def utack_header_def byte_mask le_bytes_uint core_utack_mac_def utack_mac_def
      mbedtls_lawD(6) [OF assms] Let_def)

lemma frame_bytes_words:
  assumes "sendable p s"
  shows "get16 (frame_bytes ty p s) 0 = 0xABCD" "uint (frame_bytes ty p s ! 3) = packet_type_code ty"
    "uint (get32 (frame_bytes ty p s) 4) = s" "frame_bytes ty p s ! 0 = 0xCD"
proof -
  note f = frame_bytes_fields [OF assms, of "frame_bytes ty p s" ty "[]", simplified]
  show magic: "get16 (frame_bytes ty p s) 0 = 0xABCD"
    using get16_at [of 0 "frame_bytes ty p s"] f(1) by (simp add: word_uint_eq_iff)
  show "uint (frame_bytes ty p s ! 3) = packet_type_code ty" using f(3) by (simp add: u8_at_def)
  show "uint (get32 (frame_bytes ty p s) 4) = s" using get32_at [of 4 "frame_bytes ty p s"] f(4) by simp
  show "frame_bytes ty p s ! 0 = 0xCD" using get_bytes(1) [of "frame_bytes ty p s" 0] magic by simp
qed

text \<open>Whether the transport delivers a frame, and the type it remembers then.\<close>

definition core_fresh :: "packet_type \<Rightarrow> esp_udp \<Rightarrow> bool" where
  "core_fresh ty t \<longleftrightarrow>
     (handshake_phase ty \<or> ty = HELLO_RETRY \<longrightarrow> \<not> core_duplicate (d_last_rx_type t) (word_of_int (packet_type_code ty)))"

definition core_seen :: "packet_type \<Rightarrow> esp_udp \<Rightarrow> 8 word" where
  "core_seen ty t = (if handshake_phase ty \<or> ty = HELLO_RETRY then word_of_int (packet_type_code ty) else d_last_rx_type t)"

lemma core_take_frame:
  assumes law: "mbedtls_law M C" and ok: "sendable p s" "12 + length p \<le> max_len" and fresh: "core_fresh ty t"
    and sends: "set (d_sends t) \<subseteq> {Accepted_send}"
  shows "core_take_datagram M max_len (frame_bytes ty p s) t = (Ret (Some (frame_bytes ty p s)),
     t\<lparr>d_sent := d_sent t @ [utack_header (packet_type_code ty) s
         @ (if 5 \<le> packet_type_code ty \<and> d_keys_set t then utack_mac C (d_rx_key t) (utack_header (packet_type_code ty) s) else [])],
       d_sends := tl (d_sends t), d_last_rx_type := core_seen ty t\<rparr>)"
proof -
  let ?d = "frame_bytes ty p s"
  note w = frame_bytes_words [OF ok(1), of ty]
  have type: "?d ! 3 = word_of_int (packet_type_code ty)" by (simp flip: w(2))
  have five: "5 \<le> ?d ! 3 \<longleftrightarrow> 5 \<le> packet_type_code ty" using w(2) by (simp add: word_le_def)
  define h where "h \<longleftrightarrow> handshake_phase ty \<or> ty = HELLO_RETRY"
  have hs: "(?d ! 3 < 5 \<or> ?d ! 3 = 0x0A) \<longleftrightarrow> h"
    unfolding type h_def by (cases ty) (simp_all add: handshake_phase_def)
  have seen: "core_seen ty t = (if h then ?d ! 3 else d_last_rx_type t)" by (simp add: core_seen_def h_def type)
  have "h \<longrightarrow> \<not> core_duplicate (d_last_rx_type t) (?d ! 3)" using fresh by (simp add: core_fresh_def h_def type)
  note h = hs this
  have ack: "core_utack M (?d ! 3) (get32 ?d 4) t = utack_header (packet_type_code ty) s
      @ (if 5 \<le> packet_type_code ty \<and> d_keys_set t then utack_mac C (d_rx_key t) (utack_header (packet_type_code ty) s) else [])"
    unfolding core_utack_eq [OF law] w(2,3) five ..
  have "length ?d = 12 + length p" by simp
  then show ?thesis
    unfolding ack [symmetric] seen using ok(2) w(1,4) h
    by (auto simp: core_take_datagram_def Let_def dgram_send_up [OF sends])
qed

lemma udp_recv_frame:
  assumes law: "mbedtls_law M C" and up: "udp_up t" "d_rx_buf t = []"
    and first: "datagrams t = Packet (frame_bytes ty p s) # rest"
    and ok: "sendable p s" "12 + length p \<le> max_len" and fresh: "core_fresh ty t"
    and soon: "d_keys_set t \<longrightarrow> fst (hd (d_events t)) \<le> 50"
  shows "\<exists>t'. usmp_udp_recv M max_len t = (Ret (frame_bytes ty p s), t') \<and> udp_up t' \<and> d_rx_buf t' = []
    \<and> datagrams t' = rest \<and> d_last_rx_type t' = core_seen ty t
    \<and> d_sent t' = d_sent t @ [utack_header (packet_type_code ty) s
         @ (if 5 \<le> packet_type_code ty \<and> d_keys_set t then utack_mac C (d_rx_key t) (utack_header (packet_type_code ty) s) else [])]
    \<and> d_keys_set t' = d_keys_set t \<and> d_tx_key t' = d_tx_key t \<and> d_rx_key t' = d_rx_key t
    \<and> d_mac t' = d_mac t \<and> d_random t' = d_random t"
proof -
  let ?d = "frame_bytes ty p s"
  obtain d evs where ev: "d_events t = (d, Packet ?d) # evs" "map snd evs = rest"
    using first by (cases "d_events t") (auto simp: datagrams_def)
  let ?t1 = "arrive d evs t"
  have "core_fresh ty ?t1" "core_seen ty ?t1 = core_seen ty t" using fresh by (simp_all add: core_fresh_def core_seen_def)
  moreover have sends: "set (d_sends ?t1) \<subseteq> {Accepted_send}" using up by (simp add: udp_up_def)
  ultimately have take: "core_take_datagram M max_len ?d ?t1 = (Ret (Some ?d),
     ?t1\<lparr>d_sent := d_sent t @ [utack_header (packet_type_code ty) s
         @ (if 5 \<le> packet_type_code ty \<and> d_keys_set t then utack_mac C (d_rx_key t) (utack_header (packet_type_code ty) s) else [])],
       d_sends := tl (d_sends t), d_last_rx_type := core_seen ty t\<rparr>)" (is "_ = (_, ?t2)")
    using core_take_frame [OF law ok, of ty ?t1] by simp
  have "length ?d \<le> 492" using ok(1) by (simp add: sendable_def)
  moreover have "(d_keys_set t \<and> 50 < d) = False" using soon ev by (simp add: not_less)
  ultimately have "usmp_udp_recv M max_len t = (Ret ?d, ?t2)"
    using up ev take by (auto simp: usmp_udp_recv_def udp_up_def core_recv_datagram.simps [of _ _ _ t] Let_def)
  moreover have "set (tl (d_sends t)) \<subseteq> {Accepted_send}" using up by (cases "d_sends t") (auto simp: udp_up_def)
  then have "udp_up ?t2" using up ev by (simp add: udp_up_def)
  ultimately show ?thesis using up ev by (auto simp: datagrams_def)
qed

theorem core_udp_send_authenticated_witness:
  "\<exists>ack t'. usmp_udp_send (mbedtls_of demo_crypto) [0xCD, 0xAB, 2, 5, 0, 0, 0, 0]
       ((demo_udp_device [(3, Packet ack)])\<lparr>d_tx_key := [9], d_keys_set := True\<rparr>) = (Ret (), t')
     \<and> take 15 ack = utack_header 5 0 @ utack_mac demo_crypto [9] (utack_header 5 0)"
proof -
  let ?h = "[0xAC, 0xAC, 5, 0, 0, 0, 0] :: bytes" and ?data = "[0xCD, 0xAB, 2, 5, 0, 0, 0, 0] :: bytes"
  let ?ack = "?h @ utack_mac demo_crypto [9] ?h" and ?M = "mbedtls_of demo_crypto"
  let ?t = "(demo_udp_device [(3, Packet ?ack)])\<lparr>d_tx_key := [9], d_keys_set := True\<rparr>"
  have mac: "length (utack_mac demo_crypto [9] ?h) = 8" by (simp add: utack_mac_def demo_crypto_def)
  have "core_ack_accepted ?M 5 0 ?ack ?t"
    using mac by (simp add: core_ack_accepted_def core_utack_mac_def utack_mac_def mbedtls_of_def get32_def slice_def
        demo_udp_device_def)
  moreover have "take 492 ?ack = ?ack" using mac by simp
  moreover have "?data ! 3 = 5" "get32 ?data 4 = 0" "8 \<le> length ?data" by (simp_all add: get32_def)
  moreover have "core_is_utack ?ack" using mac by (simp add: core_is_utack_def)
  moreover have "udp_up ?t" "datagrams ?t = [Packet ?ack]" by (simp_all add: udp_up_def datagrams_def demo_udp_device_def)
  ultimately obtain t' where run: "usmp_udp_send ?M ?data ?t = (Ret (), t')"
    using udp_send_acked [of ?t ?data ?ack "[]" ?M] by metis
  from core_udp_send_authenticated [OF mbedtls_of_law _ run] run show ?thesis
    by (auto simp: arrivals_def demo_udp_device_def u8_at_def u32_at_def slice_def)
qed


section \<open>Sessions that belong together\<close>

text \<open>
  Over UDP the receiver need not have seen every frame: the next frame of \<open>a\<close> is one that \<open>b\<close>
  can open and whose number is new to its window.
\<close>

definition udp_paired :: "session_info \<Rightarrow> session_info \<Rightarrow> bool" where
  "udp_paired a b \<longleftrightarrow>
     rx_key b = tx_key a \<and> session_id b = session_id a \<and> cipher_suite b = cipher_suite a
     \<and> 8 \<le> length (session_id a) \<and> 0 \<le> tx_seq a \<and> rx_seq b \<le> tx_seq a \<and> \<not> replay_drop b (tx_seq a)"

lemma window_update_keeps [simp]:
  "tx_seq (window_update m b) = tx_seq b" "tx_key (window_update m b) = tx_key b" "rx_key (window_update m b) = rx_key b"
  "session_id (window_update m b) = session_id b" "cipher_suite (window_update m b) = cipher_suite b"
  by (simp_all add: window_update_def Let_def)

lemma udp_paired_sent: "udp_paired a b \<Longrightarrow> udp_paired (advance_tx 1 a) (window_update (tx_seq a) b)"
  by (auto simp: udp_paired_def advance_tx_def window_update_def replay_drop_def Let_def)

lemma udp_paired_back: "udp_paired b a \<Longrightarrow> udp_paired (window_update m b) (advance_tx n a)"
  by (auto simp: udp_paired_def advance_tx_def window_update_def replay_drop_def Let_def)

text \<open>A device and a stream of the server, both with the keys of such sessions and nothing unread.\<close>

definition udp_linked :: "esp_udp usmp_ctx \<Rightarrow> udp_stream session \<Rightarrow> bool" where
  "udp_linked ctx s \<longleftrightarrow>
     core_ok ctx \<and> c_established ctx
     \<and> d_rx_buf (c_transport ctx) = [] \<and> d_open (c_transport ctx) \<and> set (d_sends (c_transport ctx)) \<subseteq> {Accepted_send}
     \<and> d_keys_set (c_transport ctx) \<and> d_tx_key (c_transport ctx) = c_tx_key ctx \<and> d_rx_key (c_transport ctx) = c_rx_key ctx
     \<and> \<not> u_closed (s_transport s) \<and> u_read_buffer (s_transport s) = [] \<and> u_deadline (s_transport s) = None
     \<and> u_tx_key (s_transport s) = Some (tx_key (s_info s)) \<and> u_rx_key (s_transport s) = Some (rx_key (s_info s))
     \<and> u_last_rx_seq (s_transport s) \<le> uint (c_tx_seq ctx)
     \<and> udp_paired (core_info ctx) (s_info s) \<and> udp_paired (s_info s) (core_info ctx)"

section \<open>The handshake of the device\<close>

text \<open>
  A device without keys that waits for these datagrams: the type of the last handshake packet, and
  the datagrams it has sent.
\<close>

definition idle :: "esp_udp \<Rightarrow> 8 word \<Rightarrow> bytes list \<Rightarrow> bytes list \<Rightarrow> bool" where
  "idle t ty sent expected \<longleftrightarrow>
     udp_up t \<and> d_rx_buf t = [] \<and> \<not> d_keys_set t \<and> d_last_rx_type t = ty \<and> d_sent t = sent
     \<and> datagrams t = map Packet expected"

lemma hs_send_udp:
  assumes law: "mbedtls_law M C" and t: "idle t lt sent (ack_of ty (uint s) # rest)" and ty: "handshake_phase ty"
    and len: "length p \<le> 480"
  shows "\<exists>t'. hs_send (usmp_transport_udp M) (word_of_int (packet_type_code ty)) s p t = (Ret (), t')
    \<and> idle t' lt (sent @ [frame_bytes ty p (uint s)]) rest \<and> d_mac t' = d_mac t \<and> d_random t' = d_random t"
proof -
  let ?d = "frame_bytes ty p (uint s)" and ?a = "ack_of ty (uint s)"
  have ok: "sendable p (uint s)" using len uint_lt2p [of s] by (simp add: sendable_def)
  note w = frame_bytes_words [OF ok, of ty]
  have c: "0 \<le> packet_type_code ty" "packet_type_code ty < 256" using packet_type_code_bounds [of ty] by simp_all
  have s: "0 \<le> uint s" "uint s < 4294967296" using uint_lt2p [of s] by simp_all
  note f = utack_fields(1-3) [OF c s, of "[]", simplified]
  have alen: "length ?a = 7" by (simp add: ack_of_def utack_header_def)
  then have "take 492 ?a = ?a" by simp
  moreover have "core_is_utack ?a" by (simp add: core_is_utack_def ack_of_def utack_header_def)
  moreover have "?a ! 2 = ?d ! 3" using w(2) by (simp add: ack_of_def utack_header_def flip: w(2))
  moreover have "uint (get32 ?a 3) = uint (get32 ?d 4)"
    using get32_at [of 3 ?a] alen f(3) w(3) by (simp add: ack_of_def)
  then have "get32 ?a 3 = get32 ?d 4" by (simp add: word_uint_eq_iff)
  moreover have "\<not> 5 \<le> ?d ! 3" using w(2) handshake_phase_code [OF ty] by (simp add: word_le_def)
  ultimately have "core_is_utack (take 492 ?a)" "core_ack_accepted M (?d ! 3) (get32 ?d 4) (take 492 ?a) t"
    by (simp_all add: core_ack_accepted_def)
  moreover have "8 \<le> length ?d" by simp
  ultimately obtain t' where t': "usmp_udp_send M ?d t = (Ret (), t')" "udp_up t'" "socket_kept t t'" "d_rx_buf t' = d_rx_buf t"
    "d_sent t' = d_sent t @ [?d]" "datagrams t' = map Packet rest"
    using udp_send_acked [of t ?d ?a "map Packet rest" M] t by (auto simp: idle_def)
  have "hs_send (usmp_transport_udp M) (word_of_int (packet_type_code ty)) s p t = (Ret (), t')"
    by (simp add: hs_send_def or_fail_def catch_io_def handshake_bytes [OF len] usmp_transport_udp_def t'(1))
  with t' t show ?thesis by (auto simp: idle_def socket_kept_def)
qed

lemma hs_recv_udp:
  assumes law: "mbedtls_law M C" and t: "idle t lt sent (frame_bytes ty p s # rest)" and ok: "sendable p s"
    and fresh: "core_fresh ty t" and ty: "handshake_phase ty \<or> ty = HELLO_RETRY"
  shows "\<exists>t'. t_recv (usmp_transport_udp M) 512 t = (Ret (frame_bytes ty p s), t')
    \<and> idle t' (word_of_int (packet_type_code ty)) (sent @ [ack_of ty s]) rest \<and> d_mac t' = d_mac t \<and> d_random t' = d_random t"
proof -
  have "12 + length p \<le> 512" using ok by (simp add: sendable_def)
  from udp_recv_frame [OF law _ _ _ ok this fresh, of "map Packet rest"] t
  obtain t' where t': "usmp_udp_recv M 512 t = (Ret (frame_bytes ty p s), t')" "udp_up t'" "d_rx_buf t' = []"
    "datagrams t' = map Packet rest" "d_last_rx_type t' = core_seen ty t"
    "d_sent t' = d_sent t @ [utack_header (packet_type_code ty) s]" "\<not> d_keys_set t'"
    "d_mac t' = d_mac t" "d_random t' = d_random t"
    by (auto simp: idle_def)
  moreover have "core_seen ty t = word_of_int (packet_type_code ty)" using ty by (simp add: core_seen_def)
  ultimately show ?thesis using t by (auto simp: idle_def ack_of_def usmp_transport_udp_def)
qed

lemma udp_hooks:
  "p_device_id (usmp_transport_udp M) t = (Ret (d_mac t), t)"
  "p_private_key (usmp_transport_udp M) pers t
     = (Ret (map (d_random t) [0..<32]), t\<lparr>d_random := (\<lambda>i. d_random t (i + 32))\<rparr>)"
  "p_malloc (usmp_transport_udp M)" "p_millis (usmp_transport_udp M) t = (d_now t, t)"
  "t_set_session_keys (usmp_transport_udp M) = Some usmp_udp_set_session_keys"
  by (simp_all add: usmp_transport_udp_def udp_random_def)

lemma device_udp_handshake:
  assumes law: "mbedtls_law M C" "dh_law C" "hmac_law C"
    and lens: "length dev = 6" "length nonce = 32" "length sid = 16" "length pub_s = 32" "16 \<le> length psk"
      "length cookie = 16"
    and keys: "derive_session_keys C priv pub_s nonce (x_public C priv) pub_s = Inr (k1, k2)"
    and t: "idle t 0 [] (listener_datagrams cookie @ server_datagrams (nonce @ pub_s)
        (sid @ server_hmac C psk nonce sid (x_public C priv) pub_s))" "d_mac t = dev" "map (d_random t) [0..<32] = priv"
  shows "\<exists>t'. usmp_handshake (usmp_transport_udp M) M (Some psk) t
      = (Ret \<lparr>hs_device_id = dev, hs_session_id = sid, hs_tx_key = k1, hs_rx_key = k2\<rparr>, t')
    \<and> idle t' 4 (client_datagrams dev (x_public C priv) cookie (client_hmac C psk nonce dev (x_public C priv) pub_s)) []"
proof -
  let ?P = "usmp_transport_udp M" and ?pc = "x_public C priv"
  let ?hc = "client_hmac C psk nonce dev ?pc pub_s" and ?ok = "sid @ server_hmac C psk nonce sid ?pc pub_s"
  have plen: "length ?pc = 32" using law(2) by (simp add: dh_law_def)
  have hlen: "length ?hc = 32" using law(3) by simp
  have ok: "sendable cookie 0" "sendable (nonce @ pub_s) 0" "sendable ?ok 0"
    using lens law(3) by (simp_all add: sendable_def)
  let ?e6 = "[frame_bytes SESSION_OK ?ok 0]"
  let ?e5 = "ack_of HELLO_ACK 2 # ?e6"
  let ?e4 = "frame_bytes CHALLENGE (nonce @ pub_s) 0 # ?e5"
  let ?e3 = "ack_of HELLO 1 # ?e4"
  let ?e2 = "frame_bytes HELLO_RETRY cookie 0 # ?e3"
  let ?s1 = "[frame_bytes HELLO (dev @ ?pc) 0]"
  let ?s2 = "?s1 @ [ack_of HELLO_RETRY 0]"
  let ?s3 = "?s2 @ [frame_bytes HELLO (dev @ ?pc @ cookie) 1]"
  let ?s4 = "?s3 @ [ack_of CHALLENGE 0]"
  let ?s5 = "?s4 @ [frame_bytes HELLO_ACK ?hc 2]"
  have ph: "handshake_phase HELLO" "handshake_phase CHALLENGE" "handshake_phase HELLO_ACK" "handshake_phase SESSION_OK"
    by (simp_all add: handshake_phase_def)
  let ?t1 = "t\<lparr>d_random := (\<lambda>i. d_random t (i + 32))\<rparr>"
  have t1: "idle ?t1 0 [] (ack_of HELLO (uint (0 :: 32 word)) # ?e2)" "d_mac ?t1 = dev"
    using t by (simp_all add: idle_def udp_up_def datagrams_def listener_datagrams_def server_datagrams_def)
  have dev: "get_device_id ?P t = (Ret dev, t)" "get_device_id ?P ?t1 = (Ret dev, ?t1)"
    using t(2) lens(1) by (simp_all add: get_device_id_def bind_io_def or_fail_def catch_io_def udp_hooks)
  have pair: "hs_keypair ?P M t = (Ret (priv, ?pc), ?t1)"
    using plen t(3) by (simp add: hs_keypair_def bind_io_def or_fail_def catch_io_def fail_if_def some_or_fail_def dev udp_hooks
        mbedtls_lawD(7,8) [OF law(1)])
  have hello: "length (dev @ ?pc) \<le> 480" "length (dev @ ?pc @ cookie) \<le> 480" "length ?hc \<le> 480"
    using lens plen hlen by simp_all
  obtain t2 where s1: "hs_send ?P USMP_TYPE_HELLO 0 (dev @ ?pc) ?t1 = (Ret (), t2)" and t2: "idle t2 0 ?s1 ?e2" "d_mac t2 = dev"
    using hs_send_udp [OF law(1) t1(1) ph(1) hello(1)] t1(2) by auto
  have f2: "core_fresh HELLO_RETRY t2" using t2 by (simp add: core_fresh_def core_duplicate_def idle_def)
  obtain t3 where r1: "t_recv ?P 512 t2 = (Ret (frame_bytes HELLO_RETRY cookie 0), t3)" and t3: "idle t3 10 ?s2 ?e3"
    using hs_recv_udp [OF law(1) t2(1) ok(1) f2] by auto
  have t3': "idle t3 10 ?s2 (ack_of HELLO (uint (1 :: 32 word)) # ?e4)" using t3 by simp
  obtain t4 where s2: "hs_send ?P USMP_TYPE_HELLO 1 (dev @ ?pc @ cookie) t3 = (Ret (), t4)" and t4: "idle t4 10 ?s3 ?e4"
    using hs_send_udp [OF law(1) t3' ph(1) hello(2)] by auto
  have f4: "core_fresh CHALLENGE t4" using t4 by (simp add: core_fresh_def core_duplicate_def idle_def)
  obtain t5 where r2: "t_recv ?P 512 t4 = (Ret (frame_bytes CHALLENGE (nonce @ pub_s) 0), t5)" and t5: "idle t5 2 ?s4 ?e5"
    using hs_recv_udp [OF law(1) t4 ok(2) f4] ph(2) by auto
  have t5': "idle t5 2 ?s4 (ack_of HELLO_ACK (uint (2 :: 32 word)) # ?e6)" using t5 by simp
  obtain t6 where s3: "hs_send ?P USMP_TYPE_HELLO_ACK 2 ?hc t5 = (Ret (), t6)" and t6: "idle t6 2 ?s5 ?e6"
    using hs_send_udp [OF law(1) t5' ph(3) hello(3)] by auto
  have f6: "core_fresh SESSION_OK t6" using t6 by (simp add: core_fresh_def core_duplicate_def idle_def)
  obtain t7 where r3: "t_recv ?P 512 t6 = (Ret (frame_bytes SESSION_OK ?ok 0), t7)"
    and t7: "idle t7 4 (?s5 @ [ack_of SESSION_OK 0]) []"
    using hs_recv_udp [OF law(1) t6 ok(3) f6] ph(4) by auto
  have ch: "hs_challenge ?P dev ?pc t2 = (Ret (nonce, pub_s), t5)"
    by (rule hs_challenge_cookie [OF r1 lens(6) ok(1) s2 r2 lens(2,4) ok(2)])
  from usmp_handshake_run [OF law(1,3) lens(3,5) keys udp_hooks(3) pair dev(2) s1 ch s3 r3] t7
  show ?thesis by (simp add: client_datagrams_def)
qed

lemma udp_connect_run:
  assumes "usmp_handshake (usmp_transport_udp M) M (c_device_psk ctx) t
      = (Ret \<lparr>hs_device_id = dev, hs_session_id = sid, hs_tx_key = k1, hs_rx_key = k2\<rparr>, t1)"
  shows "\<exists>ctx'. usmp_connect (usmp_transport_udp M) M t ctx = (Ret (), ctx') \<and> core_info ctx' = fresh_info dev sid k1 k2
    \<and> c_established ctx' \<and> c_transport ctx' = usmp_udp_set_session_keys k1 k2 t1"
  using assms
  by (simp add: usmp_connect_def start_session_def bind_io_def on_device_def catch_io_def usmp_port_millis_def udp_hooks
      core_info_def fresh_info_def usmp_udp_set_session_keys_def)

lemma fresh_linked:
  assumes info: "core_info ctx = fresh_info dev sid k1 k2" and est: "c_established ctx"
    and lens: "length k1 = 32" "length k2 = 32" "length sid = 16"
    and t: "c_transport ctx = usmp_udp_set_session_keys k1 k2 t1" "idle t1 ty sent []"
    and u: "at_rest u srv None (Some (k2, k1)) ty' sent' now []"
  shows "udp_linked ctx (new_session (udp_ops C) u (fresh_info dev sid k2 k1) recv_timeout)"
proof -
  have "core_ok ctx" by (rule core_ok_fresh [OF info lens])
  moreover have "c_tx_key ctx = k1" "c_rx_key ctx = k2" "uint (c_tx_seq ctx) = 0"
    using info by (auto simp: core_info_def fresh_info_def)
  moreover have "udp_paired (fresh_info dev sid k1 k2) (fresh_info dev sid k2 k1)"
    "udp_paired (fresh_info dev sid k2 k1) (fresh_info dev sid k1 k2)"
    using lens(3) by (simp_all add: udp_paired_def fresh_info_def replay_drop_def)
  ultimately show ?thesis
    using est t u by (simp add: udp_linked_def info new_session_def at_rest_def idle_def udp_up_def usmp_udp_set_session_keys_def)
qed

text \<open>
  C5: a device connects to the Python server over UDP, on a network that delivers every datagram in
  time: the listener answers the first HELLO with a cookie and keeps no stream, the device
  returns the cookie, the listener accepts it and makes a stream; and when that stream gets
  what the device sends after it, and the device gets what the listener and the stream send,
  \<open>usmp_connect\<close> and the server's handshake both return, and the device and the session that the
  server makes of the stream are ready to exchange messages: their keys, for messages and for
  acknowledgements, and their windows match.
\<close>

theorem device_connects_over_udp:
  assumes law: "mbedtls_law M C" "dh_law C" "hmac_law C" "hkdf_law C"
    and lens: "length dev = 6" "length (r_nonce rnd) = 32" "length (r_session_id rnd) = 16"
    and psk: "resolve_psk src dev = Inr psk"
    and keys: "derive_session_keys C priv (x_public C (r_private rnd)) (r_nonce rnd) (x_public C priv)
           (x_public C (r_private rnd)) = Inr (k1, k2)"
    and listener: "map_of (sv_handshakes sv) addr = None"
      "fst (allow_udp_cookie (fst addr) now (sv_cookie_limiter sv))"
      "handle_udp_datagram C wall now (frame_bytes HELLO (dev @ x_public C priv) 0) addr sv = (sv1, none)"
      "time_bucket wall2 \<in> {time_bucket wall, time_bucket wall + 1}" "handshake_admissible now2 addr sv1"
    and times: "steady now2 us" "length us = 3" "3 / 10 \<le> handshake_timeout"
  shows "\<exists>cookie hello2 sv2 i u sent si s'.
     none = None \<and> sv_sent sv1 = sv_sent sv @ map (Pair addr) (listener_datagrams cookie)
   \<and> handle_udp_datagram C wall2 now2 hello2 addr sv1 = (sv2, Some i) \<and> map_of (sv_streams sv2) i = Some u
   \<and> take 3 sent = [frame_bytes HELLO (dev @ x_public C priv) 0, ack_of HELLO_RETRY 0, hello2]
   \<and> run_handshake (udp_ops C) C rnd ident src handshake_timeout
       \<lparr>h_transport = u\<lparr>u_incoming := zip us (map Datagram (drop 3 sent))\<rparr>, h_failed = sv_failed sv1\<rparr> = (Ret si, s')
   \<and> (\<forall>t ctx. idle t 0 [] (listener_datagrams cookie @ u_sent (h_transport s'))
         \<and> d_mac t = dev \<and> map (d_random t) [0..<32] = priv \<and> c_device_psk ctx = Some psk
       \<longrightarrow> (\<exists>ctx1. usmp_connect (usmp_transport_udp M) M t ctx = (Ret (), ctx1)
          \<and> d_sent (c_transport ctx1) = sent \<and> peers (core_info ctx1) si
          \<and> udp_linked ctx1 (new_session (udp_ops C) (h_transport s') si recv_timeout)))"
proof -
  let ?pc = "x_public C priv" and ?ps = "x_public C (r_private rnd)"
  let ?n = "r_nonce rnd" and ?sid = "r_session_id rnd"
  let ?mac = "client_hmac C psk ?n dev ?pc ?ps" and ?ok = "?sid @ server_hmac C psk ?n ?sid ?pc ?ps"
  let ?si = "fresh_info dev ?sid k2 k1"
  have pub: "length ?ps = 32" using law(2) by (simp add: dh_law_def)
  obtain cookie sv2 i u s' where ck: "length cookie = 16"
    and server: "none = None" "sv_sent sv1 = sv_sent sv @ map (Pair addr) (listener_datagrams cookie)"
      "handle_udp_datagram C wall2 now2 (frame_bytes HELLO (dev @ ?pc @ cookie) 1) addr sv1 = (sv2, Some i)"
      "map_of (sv_streams sv2) i = Some u"
      "run_handshake (udp_ops C) C rnd ident src handshake_timeout
         \<lparr>h_transport = u\<lparr>u_incoming := zip us (map Datagram (drop 3 (client_datagrams dev ?pc cookie ?mac)))\<rparr>,
          h_failed = sv_failed sv1\<rparr> = (Ret ?si, s')"
      "at_rest (h_transport s') True None (Some (k2, k1)) 3 (server_datagrams (?n @ ?ps) ?ok) (last us) []"
    using udp_server_agrees [OF law(2-4) lens psk keys listener times] by blast
  let ?sent = "client_datagrams dev ?pc cookie ?mac"
  have klen: "length k1 = 32" "length k2 = 32" using derive_session_keys_length [OF law(4) keys] by simp_all
  have ss: "u_sent (h_transport s') = server_datagrams (?n @ ?ps) ?ok" using server(6) by (simp_all add: at_rest_def)
  have device: "\<exists>ctx1. usmp_connect (usmp_transport_udp M) M t ctx = (Ret (), ctx1)
          \<and> d_sent (c_transport ctx1) = ?sent \<and> peers (core_info ctx1) ?si
          \<and> udp_linked ctx1 (new_session (udp_ops C) (h_transport s') ?si recv_timeout)"
    if t: "idle t 0 [] (listener_datagrams cookie @ u_sent (h_transport s'))" "d_mac t = dev" "map (d_random t) [0..<32] = priv"
      "c_device_psk ctx = Some psk" for t and ctx :: "esp_udp usmp_ctx"
  proof -
    obtain t1 where t1: "usmp_handshake (usmp_transport_udp M) M (c_device_psk ctx) t
        = (Ret \<lparr>hs_device_id = dev, hs_session_id = ?sid, hs_tx_key = k1, hs_rx_key = k2\<rparr>, t1)" "idle t1 4 ?sent []"
      using device_udp_handshake [OF law(1-3) lens pub resolve_psk_length [OF psk] ck keys t(1) [unfolded ss(1)] t(2,3)]
      unfolding t(4) by blast
    from udp_connect_run [OF t1(1)] obtain ctx1 where c1: "usmp_connect (usmp_transport_udp M) M t ctx = (Ret (), ctx1)"
      "core_info ctx1 = fresh_info dev ?sid k1 k2" "c_established ctx1" "c_transport ctx1 = usmp_udp_set_session_keys k1 k2 t1"
      by blast
    have "d_sent (c_transport ctx1) = ?sent" using t1(2) by (simp add: c1(4) usmp_udp_set_session_keys_def idle_def)
    moreover have "peers (core_info ctx1) ?si" unfolding c1(2) by (rule agreed_sessions [OF lens(3)])
    ultimately show ?thesis using c1(1) fresh_linked [OF c1(2,3) klen lens(3) c1(4) t1(2) server(6)] by blast
  qed
  have "take 3 ?sent = [frame_bytes HELLO (dev @ ?pc) 0, ack_of HELLO_RETRY 0, frame_bytes HELLO (dev @ ?pc @ cookie) 1]"
    by (simp add: client_datagrams_def)
  with server(1-5) device show ?thesis
    by (intro exI [of _ cookie] exI [of _ "frame_bytes HELLO (dev @ ?pc @ cookie) 1"] exI [of _ sv2] exI [of _ i]
        exI [of _ u] exI [of _ ?sent] exI [of _ ?si] exI [of _ s']) blast
qed

lemma demo_udp_device_idle:
  "idle (demo_udp_device (map (\<lambda>b. (1, Packet b)) ds)) 0 [] ds"
  "d_mac (demo_udp_device evs) = replicate 6 1" "map (d_random (demo_udp_device evs)) [0..<32] = demo_priv"
  by (auto simp: idle_def udp_up_def soon_def datagrams_def demo_udp_device_def)

definition demo_udp_context :: "esp_udp usmp_ctx" where
  "demo_udp_context = (demo_ctx (demo_udp_device []))\<lparr>c_device_psk := Some (replicate 16 9), c_established := False\<rparr>"

theorem device_connects_over_udp_witness:
  "\<exists>t u si s' ctx1. run_handshake (udp_ops demo_crypto) demo_crypto demo_random 0 (Psk_bytes (replicate 16 9)) 10 u = (Ret si, s')
     \<and> usmp_connect (usmp_transport_udp (mbedtls_of demo_crypto)) (mbedtls_of demo_crypto) t demo_udp_context = (Ret (), ctx1)
     \<and> peers (core_info ctx1) si \<and> udp_linked ctx1 (new_session (udp_ops demo_crypto) (h_transport s') si None)"
proof -
  let ?h = "frame_bytes HELLO (replicate 6 1 @ x_public demo_crypto demo_priv) 0"
  let ?a = "(''h'', 1) :: addr"
  obtain k1 k2 where keys: "derive_session_keys demo_crypto demo_priv (x_public demo_crypto (r_private demo_random))
      (r_nonce demo_random) (x_public demo_crypto demo_priv) (x_public demo_crypto (r_private demo_random)) = Inr (k1, k2)"
    using demo_device_keys by blast
  obtain sv1 r where h: "handle_udp_datagram demo_crypto 60 0 ?h ?a demo_server = (sv1, r)" by fastforce
  have al: "allow_udp_cookie ''h'' 0 [] = (True, [(''h'', 9, 0)])"
    by (simp add: allow_udp_cookie_def refilled_def bound_cookies_def Let_def)
  have pub: "length (x_public demo_crypto demo_priv) = 32" by (simp add: demo_crypto_def)
  note f = hello_fields [OF _ pub, of "replicate 6 1" "[]" 0, simplified]
  have "sv1 = issue_cookie demo_crypto 60 0 ?h ?a demo_server"
    using h f by (simp add: handle_udp_datagram_def handle_hello_def demo_server_def)
  then have "same_tables demo_server sv1" "sv_failed sv1 = []"
    by (simp_all add: issue_cookie_failed) (simp add: demo_server_def)
  then have adm: "handshake_admissible 1 ?a sv1"
    by (simp add: same_tables_def handshake_admissible_def locked_out_def count_of_def demo_server_def)
  have psk: "resolve_psk (Psk_bytes (replicate 16 9)) (replicate 6 1) = Inr (replicate 16 9)"
    by (simp add: resolve_psk_def find_psk_def)
  have lens: "length (replicate 6 (1 :: byte)) = 6" "length (r_nonce demo_random) = 32"
    "length (r_session_id demo_random) = 16" by (simp_all add: demo_random_def)
  have sv: "map_of (sv_handshakes demo_server) ?a = None"
    "fst (allow_udp_cookie (fst ?a) 0 (sv_cookie_limiter demo_server))"
    using al by (simp_all add: demo_server_def)
  have b: "time_bucket 90 \<in> {time_bucket 60, time_bucket 60 + 1}" by (simp add: time_bucket_def)
  have us: "steady 1 [1 + 1 / 20, 1 + 2 / 20, 1 + 3 / 20]" "length [1 + 1 / 20, 1 + 2 / 20, 1 + 3 / 20 :: rat] = 3"
    "3 / 10 \<le> (10 :: rat)" by simp_all
  note connects = device_connects_over_udp [OF mbedtls_of_law [OF demo_crypto_laws(1)] demo_crypto_laws(3,4,2) lens psk
      keys sv h b adm us, of 0 None]
  obtain cookie hello2 sv2 i u sent si s' where run: "run_handshake (udp_ops demo_crypto) demo_crypto demo_random 0
      (Psk_bytes (replicate 16 9)) 10
      \<lparr>h_transport = u\<lparr>u_incoming := zip [1 + 1 / 20, 1 + 2 / 20, 1 + 3 / 20] (map Datagram (drop 3 sent))\<rparr>,
       h_failed = sv_failed sv1\<rparr> = (Ret si, s')"
    and device: "\<forall>t ctx. idle t 0 [] (listener_datagrams cookie @ u_sent (h_transport s'))
         \<and> d_mac t = replicate 6 1 \<and> map (d_random t) [0..<32] = demo_priv \<and> c_device_psk ctx = Some (replicate 16 9)
       \<longrightarrow> (\<exists>ctx1. usmp_connect (usmp_transport_udp (mbedtls_of demo_crypto)) (mbedtls_of demo_crypto) t ctx = (Ret (), ctx1)
          \<and> d_sent (c_transport ctx1) = sent \<and> peers (core_info ctx1) si
          \<and> udp_linked ctx1 (new_session (udp_ops demo_crypto) (h_transport s') si None))"
    using connects by (elim exE conjE) (rule that; assumption)
  have "c_device_psk demo_udp_context = Some (replicate 16 9)" by (simp add: demo_udp_context_def)
  with run device demo_udp_device_idle show ?thesis by blast
qed

end
