(* ===== verification/CoreUdpTalk.thy ===== *)
theory CoreUdpTalk
  imports CoreUdpLink
begin

text \<open>
  Messages between a device on the UDP transport of the ESP32 port and a session of the Python SDK:
  sealed, acknowledged and delivered in both directions.
\<close>

section \<open>The device\<close>

text \<open>The acknowledgement of a session frame that the device accepts.\<close>

lemma session_ack_accepted:
  assumes law: "mbedtls_law M C" "hmac_law C" and ok: "sendable p s" and ty: "session_phase ty"
    and keys: "d_keys_set t" and ack: "ack = utack_header (packet_type_code ty) s
      @ utack_mac C (d_tx_key t) (utack_header (packet_type_code ty) s)"
  shows "core_is_utack (take 492 ack)"
    "core_ack_accepted M (frame_bytes ty p s ! 3) (get32 (frame_bytes ty p s) 4) (take 492 ack) t"
proof -
  let ?d = "frame_bytes ty p s" and ?h = "utack_header (packet_type_code ty) s"
  note w = frame_bytes_words [OF ok, of ty]
  have c: "0 \<le> packet_type_code ty" "packet_type_code ty < 256" using packet_type_code_bounds [of ty] by simp_all
  have s: "0 \<le> s" "s < 4294967296" using ok by (simp_all add: sendable_def)
  let ?m = "utack_mac C (d_tx_key t) ?h"
  have mac: "length ?m = 8" using law(2) by (simp add: utack_mac_def hmac_law_def)
  note f = utack_fields(1-4) [OF c s, of ?m] utack_fields(5) [OF c s]
  have len: "length ack = 15" using mac f(5) by (simp add: ack)
  then have all: "take 492 ack = ack" by simp
  have head: "ack ! 0 = 0xAC" "ack ! 1 = 0xAC" "ack ! 2 = ?d ! 3"
    by (simp_all add: ack utack_header_def flip: w(2))
  have "uint (get32 ack 3) = uint (get32 ?d 4)"
    using get32_at [of 3 ack] len f(3) w(3) by (simp add: ack)
  then have seq: "get32 ack 3 = get32 ?d 4" by (simp add: word_uint_eq_iff)
  have "core_utack_mac M (d_tx_key t) ?h t = ?m"
    by (simp add: core_utack_mac_def utack_mac_def mbedtls_lawD(6) [OF law(1)])
  moreover have "take 7 ack = ?h" "slice 7 15 ack = ?m" using mac f(4,5) by (simp_all add: ack slice_def)
  ultimately show "core_is_utack (take 492 ack)" "core_ack_accepted M (?d ! 3) (get32 ?d 4) (take 492 ack) t"
    using len head seq keys by (simp_all add: all core_is_utack_def core_ack_accepted_def)
qed

lemma usmp_send_udp:
  assumes law: "mbedtls_law M C" "aead_law C" "hmac_law C" and ok: "core_ok ctx" and est: "c_established ctx"
    and t: "udp_up (c_transport ctx)" "d_keys_set (c_transport ctx)" "d_tx_key (c_transport ctx) = c_tx_key ctx"
    and seq: "uint (c_tx_seq ctx) < 0xFFFFFFFF" and len: "length data \<le> 452"
    and ct: "seal C (core_info ctx) DATA data = Inr ct"
    and first: "datagrams (c_transport ctx) = Packet ack # rest"
    and ack: "ack = utack_header (packet_type_code DATA) (uint (c_tx_seq ctx))
      @ utack_mac C (c_tx_key ctx) (utack_header (packet_type_code DATA) (uint (c_tx_seq ctx)))"
  shows "\<exists>t'. usmp_send (usmp_transport_udp M) M data ctx = (Ret (),
        ctx\<lparr>c_tx_seq := c_tx_seq ctx + 1, c_transport := t', c_last_tx_ms := d_now (c_transport ctx)\<rparr>)
    \<and> udp_up t' \<and> socket_kept (c_transport ctx) t' \<and> d_rx_buf t' = d_rx_buf (c_transport ctx) \<and> datagrams t' = rest
    \<and> d_sent t' = d_sent (c_transport ctx) @ [frame_bytes DATA ct (uint (c_tx_seq ctx))]
    \<and> (\<forall>w. due_by w (tl (d_events (c_transport ctx))) \<longrightarrow> due_by w (d_events t'))"
proof -
  let ?seq = "c_tx_seq ctx" and ?P = "usmp_transport_udp M" and ?t = "c_transport ctx"
  let ?d = "frame_bytes DATA ct (uint ?seq)"
  obtain pkt where sealed: "sealed_packet M USMP_TYPE_DATA data ctx = Some pkt" "length ct = length data + 28"
    "snd (usmp_build_packet pkt) = ?d"
    using core_seal [OF law(1,2) ok len, of DATA] ct by auto
  have ok': "sendable ct (uint ?seq)" using sealed(2) len uint_lt2p [of ?seq] by (simp add: sendable_def)
  have "session_phase DATA" by (simp add: session_phase_def)
  from session_ack_accepted [OF law(1,3) ok' this t(2), of ack] ack t(3)
  have acc: "core_is_utack (take 492 ack)" "core_ack_accepted M (?d ! 3) (get32 ?d 4) (take 492 ack) ?t" by simp_all
  have "8 \<le> length ?d" by simp
  from udp_send_acked [OF t(1) this first acc] obtain t' where t': "usmp_udp_send M ?d ?t = (Ret (), t')"
    "udp_up t'" "socket_kept ?t t'" "d_rx_buf t' = d_rx_buf ?t" "d_sent t' = d_sent ?t @ [?d]" "datagrams t' = rest"
    "\<forall>w. due_by w (tl (d_events ?t)) \<longrightarrow> due_by w (d_events t')" by blast
  let ?ctx = "ctx\<lparr>c_tx_seq := ?seq + 1, c_transport := t', c_last_tx_ms := d_now ?t\<rparr>"
  have low: "\<not> ?seq \<ge> 0xFFFFFFFF" using seq by (simp add: word_le_def)
  have emit: "emit_frame ?P M USMP_TYPE_DATA data ctx = (Ret (), ?ctx)"
    using low sealed t'(1)
    by (simp add: emit_frame_def Let_def bind_io_def catch_io_def usmp_port_millis_def on_device_def
        usmp_transport_udp_def)
  have "usmp_send_loop ?P M data (length data) c = (Ret (), c)" if "data \<noteq> []" for c
    using that by (subst usmp_send_loop.simps) simp
  moreover have "slice 0 (min (length data) 452) data = data" using len by (simp add: slice_def min_def)
  ultimately have loop: "usmp_send_loop ?P M data 0 ctx = (Ret (), ?ctx)"
    using emit by (subst usmp_send_loop.simps) (auto simp: bind_io_def catch_io_def Let_def)
  let ?num = "if length data = 0 then 1 else word_of_nat ((length data + 452 - 1) div 452) :: 32 word"
  have "(length data + 451) div 452 \<le> 1" using len by simp
  then have num: "uint ?num \<le> 1"
    by (auto simp: unsigned_of_nat add.commute intro: order_trans [OF take_bit_nat_less_eq_self])
  have "uint (0xFFFFFFFF - ?seq) = 0xFFFFFFFF - uint ?seq" using low by (subst uint_diff) simp_all
  with num seq have "\<not> 0xFFFFFFFF - ?seq < ?num" by (simp add: word_less_def)
  then have "usmp_send ?P M data ctx = (Ret (), ?ctx)"
    using est len loop by (simp add: usmp_send_def if_connected_def Let_def)
  with t' show ?thesis by blast
qed

lemma core_info_transport [simp]: "core_info (ctx\<lparr>c_transport := t\<rparr>) = core_info ctx"
  by (simp add: core_info_def)

lemma usmp_recv_udp:
  assumes law: "mbedtls_law M C" "aead_law C" and ok: "core_ok ctx" and est: "c_established ctx"
    and t: "udp_up (c_transport ctx)" "d_rx_buf (c_transport ctx) = []" "d_keys_set (c_transport ctx)"
    and pair: "udp_paired a (core_info ctx)" and ct: "seal C a DATA data = Inr ct" and seq: "tx_seq a < 0xFFFFFFFF"
    and len: "length data \<le> 452" "length data \<le> unat max_len"
    and first: "datagrams (c_transport ctx) = Packet (frame_bytes DATA ct (tx_seq a)) # rest"
    and soon: "fst (hd (d_events (c_transport ctx))) \<le> 50"
  shows "\<exists>ctx'. usmp_recv (usmp_transport_udp M) M max_len ctx = (Ret data, ctx')
    \<and> core_info ctx' = window_update (tx_seq a) (core_info ctx) \<and> c_tx_seq ctx' = c_tx_seq ctx
    \<and> c_established ctx' \<and> udp_up (c_transport ctx') \<and> d_rx_buf (c_transport ctx') = []
    \<and> d_keys_set (c_transport ctx') \<and> d_tx_key (c_transport ctx') = d_tx_key (c_transport ctx)
    \<and> d_rx_key (c_transport ctx') = d_rx_key (c_transport ctx) \<and> datagrams (c_transport ctx') = rest
    \<and> d_sent (c_transport ctx') = d_sent (c_transport ctx) @ [utack_header (packet_type_code DATA) (tx_seq a)
        @ utack_mac C (d_rx_key (c_transport ctx)) (utack_header (packet_type_code DATA) (tx_seq a))]"
proof -
  let ?P = "usmp_transport_udp M" and ?t = "c_transport ctx"
  have a: "8 \<le> length (session_id a)" "0 \<le> tx_seq a" using pair by (simp_all add: udp_paired_def)
  have clen: "length ct = length data + 28" by (rule seal_length [OF law(2) a(1) ct])
  have ok': "sendable ct (tx_seq a)" using a seq len clen by (simp add: sendable_def)
  have room: "12 + length ct \<le> 492" using clen len by simp
  have fresh: "core_fresh DATA ?t" "core_seen DATA ?t = d_last_rx_type ?t"
    by (simp_all add: core_fresh_def core_seen_def handshake_phase_def)
  obtain t' where t': "usmp_udp_recv M 492 ?t = (Ret (frame_bytes DATA ct (tx_seq a)), t')" "udp_up t'" "d_rx_buf t' = []"
    "datagrams t' = rest" "d_keys_set t'" "d_tx_key t' = d_tx_key ?t" "d_rx_key t' = d_rx_key ?t"
    "d_sent t' = d_sent ?t @ [utack_header (packet_type_code DATA) (tx_seq a)
        @ utack_mac C (d_rx_key ?t) (utack_header (packet_type_code DATA) (tx_seq a))]"
    using udp_recv_frame [OF law(1) t(1,2) first ok' room fresh(1)] soon t(3) by auto
  obtain pkt where pkt: "usmp_parse_packet (frame_bytes DATA ct (tx_seq a)) blank_packet = (0, pkt)"
    "frame_of_packet pkt DATA = sent_frame DATA ct (tx_seq a)"
    "pkt_type pkt = word_of_int (packet_type_code DATA)" "uint (pkt_type pkt) = packet_type_code DATA"
    using core_parse_sent [OF ok'] by blast
  let ?ctx = "ctx\<lparr>c_transport := t'\<rparr>"
  have rd: "core_read ?P ctx = (Ret (Some pkt), ?ctx)"
    by (simp add: core_read_def bind_io_def catch_io_def on_device_def usmp_transport_udp_def t'(1) pkt(1))
  have fields: "uint (pkt_seq pkt) = tx_seq a" "uint (pkt_length pkt) = int (length data) + 28"
    using arg_cong [OF pkt(2), of fr_seq] arg_cong [OF pkt(2), of fr_length]
    by (simp_all add: frame_of_packet_def clen)
  have udp: "is_udp ?P" by (simp add: is_udp_def usmp_transport_udp_def)
  have new: "\<not> core_replay_drop (c_rx_seq ctx) (c_rx_window_bitmap ctx) (pkt_seq pkt)"
    using pair by (simp add: core_replay_drop_eq fields(1) udp_paired_def)
  then have check: "core_replay_check ?P pkt ?ctx = (Ret False, ?ctx)"
    using udp seq fields(1) by (simp add: core_replay_check_def word_le_def)
  have nat_len: "unat (pkt_length pkt) = length data + 28" using fields(2) by (simp add: unat_eq_nat_uint)
  have small: "\<not> pkt_length pkt < 28" and plain: "unat (pkt_length pkt - 12 - 16) = length data"
    using nat_len by (simp_all add: word_less_nat_alt unat_sub word_le_nat_alt)
  have "paired a ((core_info ctx)\<lparr>rx_seq := tx_seq a\<rparr>)" using pair by (simp add: paired_def udp_paired_def)
  from open_seal [OF law(2) this ct] have "open_frame C (core_info ?ctx) (sent_frame DATA ct (tx_seq a)) = Inr data"
    by (simp add: open_frame_def session_nonce_def)
  moreover have "core_ok ?ctx" using ok by (simp add: core_ok_def)
  ultimately have opened: "core_open ?P M (unat max_len) pkt ?ctx = (Ret (Some data), ?ctx)"
    using core_open_frame [OF law(1), of ?ctx pkt DATA] pkt len small plain
    by (auto simp: core_open_def bind_io_def split: option.splits)
  let ?ctx' = "(core_window_update (pkt_seq pkt) ctx)\<lparr>c_transport := usmp_udp_confirm_authenticated (pkt_seq pkt) t'\<rparr>"
  have acc: "core_accept_seq ?P (pkt_seq pkt) ?ctx = (Ret (), ?ctx')"
    by (simp add: core_accept_seq_def bind_io_def usmp_transport_udp_def core_window_update_def Let_def)
  let ?l = "\<lparr>l_out = [], l_frames = 0, l_expected = 0, l_ctrl = 0\<rparr>"
  have disp: "core_dispatch ?P M pkt data ?l ?ctx' = (Ret (Finish data), ?ctx')"
    using pkt(3) by (simp add: core_dispatch_def core_data_def Let_def)
  have max: "core_dec_max ?P max_len ?l (pkt_type pkt) ?ctx = (Ret (Some (unat max_len)), ?ctx)"
    using pkt(3) by (simp add: core_dec_max_def)
  have "core_recv_step ?P M max_len ?l ctx = (Ret (Finish data), ?ctx')"
    by (simp add: core_recv_step_def unless_dropped_def bind_io_def rd check max opened acc disp)
  then have "core_recv_loop ?P M max_len (Suc 9) ?l ctx = (Ret data, ?ctx')"
    unfolding core_recv_loop.simps(2) by (simp add: bind_io_def)
  then have "usmp_recv ?P M max_len ctx = (Ret data, ?ctx')"
    using est by (simp add: usmp_recv_def if_connected_def)
  moreover have "core_info ?ctx' = window_update (tx_seq a) (core_info ctx)"
    using core_window_update_eq [OF new] by (simp add: fields(1))
  ultimately show ?thesis
    using t' est
    by (intro exI [of _ ?ctx']) (auto simp: core_window_update_def Let_def usmp_udp_confirm_authenticated_def udp_up_def datagrams_def)
qed

section \<open>The server\<close>

lemma session_recv_udp:
  assumes law: "aead_law C" and pair: "udp_paired a (s_info s)" and ct: "seal C a DATA data = Inr ct"
    and seq: "tx_seq a < 0xFFFFFFFF" and len: "length data \<le> 452" and fuel: "0 < fuel"
    and u: "\<not> u_closed (s_transport s)" "u_read_buffer (s_transport s) = []" "u_deadline (s_transport s) = None"
      "u_last_rx_seq (s_transport s) \<le> tx_seq a"
      "u_incoming (s_transport s) = (t, Datagram (frame_bytes DATA ct (tx_seq a))) # rest"
    and time: "\<forall>v. effective_timeout timeout s = Some v \<longrightarrow> 0 < v \<and> t < u_now (s_transport s) + v"
  shows "\<exists>s'. recv (udp_ops C) C fuel timeout s = (Ret (Some data), s')
    \<and> s_info s' = window_update (tx_seq a) (s_info s) \<and> \<not> u_closed (s_transport s') \<and> u_read_buffer (s_transport s') = []
    \<and> u_deadline (s_transport s') = None \<and> u_tx_key (s_transport s') = u_tx_key (s_transport s)
    \<and> u_rx_key (s_transport s') = u_rx_key (s_transport s) \<and> u_last_rx_seq (s_transport s') = tx_seq a
    \<and> u_incoming (s_transport s') = rest \<and> u_now (s_transport s') = max (u_now (s_transport s)) t
    \<and> u_rto (s_transport s') = u_rto (s_transport s)
    \<and> u_sent (s_transport s') = u_sent (s_transport s) @ [build_utack C (s_transport s) (packet_type_code DATA) (tx_seq a)]"
proof -
  have a: "rx_key (s_info s) = tx_key a" "session_id (s_info s) = session_id a" "cipher_suite (s_info s) = cipher_suite a"
    "8 \<le> length (session_id a)" "\<not> replay_drop (s_info s) (tx_seq a)" "0 \<le> tx_seq a"
    using pair by (simp_all add: udp_paired_def)
  have old: "u_last_rx_seq (s_transport s) < tx_seq a + 64" using u(4) by simp
  note defs = udp_confirm_authenticated_def udp_set_timeout_def session_timer_def build_utack_def
  show ?thesis
  proof (cases "effective_timeout timeout s")
    case None
    have "in_time (s_transport s) t" using u(3) by (simp add: in_time_def)
    from udp_message_received [OF law len ct a(6) seq a(1-5) u(5,1,2) old fuel this] None u(1-4) show ?thesis
      by (auto simp: recv_eq defs)
  next
    case (Some v)
    let ?s = "session_timer (udp_ops C) (Some v) s"
    have "in_time (s_transport ?s) t"
      using time Some by (simp add: session_timer_def in_time_def udp_set_timeout_def)
    then obtain s' where "recv_internal (udp_ops C) C fuel ?s = (Ret (Some data), s')"
      "s_info s' = window_update (tx_seq a) (s_info s)"
      "s_transport s' = udp_confirm_authenticated (tx_seq a) ((s_transport ?s)\<lparr>
           u_sent := u_sent (s_transport s) @ [build_utack C (s_transport s) (packet_type_code DATA) (tx_seq a)],
           u_now := max (u_now (s_transport s)) t, u_incoming := rest\<rparr>)"
      using udp_message_received [OF law len ct a(6) seq, of ?s t rest fuel] a u old fuel by (auto simp: defs)
    with Some time u show ?thesis by (auto simp: recv_eq defs)
  qed
qed

lemma session_send_udp:
  assumes law: "hmac_law C" "aead_law C" and info: "0 \<le> tx_seq (s_info s)" "tx_seq (s_info s) < 0xFFFFFFFF"
      "8 \<le> length (session_id (s_info s))"
    and len: "length data \<le> 452" and ct: "seal C (s_info s) DATA data = Inr ct"
    and u: "\<not> u_closed (s_transport s)" "u_deadline (s_transport s) = None" "u_tx_key (s_transport s) = Some k"
      "u_incoming (s_transport s) = (t, Datagram ack) # rest"
    and ack: "ack = utack_header (packet_type_code DATA) (tx_seq (s_info s))
      @ utack_mac C k (utack_header (packet_type_code DATA) (tx_seq (s_info s)))"
    and time: "t < u_now (s_transport s) + attempt_timeout (u_rto (s_transport s)) 0"
  shows "\<exists>s'. send (udp_ops C) C data s = (Ret (), s') \<and> s_info s' = advance_tx 1 (s_info s)
    \<and> \<not> u_closed (s_transport s') \<and> u_read_buffer (s_transport s') = u_read_buffer (s_transport s)
    \<and> u_deadline (s_transport s') = None \<and> u_tx_key (s_transport s') = u_tx_key (s_transport s)
    \<and> u_rx_key (s_transport s') = u_rx_key (s_transport s) \<and> u_last_rx_seq (s_transport s') = u_last_rx_seq (s_transport s)
    \<and> u_sent (s_transport s') = u_sent (s_transport s) @ [frame_bytes DATA ct (tx_seq (s_info s))]"
proof -
  let ?n = "tx_seq (s_info s)" and ?u = "s_transport s"
  have clen: "length ct = length data + 28" by (rule seal_length [OF law(2) info(3) ct])
  then have ok: "sendable ct ?n" using info len by (simp add: sendable_def)
  let ?r = "?u\<lparr>u_rx_key := Some k\<rparr>"
  have "session_phase DATA" by (simp add: session_phase_def)
  from build_utack_acknowledges [OF law(1) this, of ?n ?r k ?u] info u(3)
  have "acknowledges C (armed DATA ?n ?u) (build_utack C ?r (packet_type_code DATA) ?n)" by simp
  moreover have "build_utack C ?r (packet_type_code DATA) ?n = ack" by (simp add: build_utack_def ack Let_def)
  ultimately have acked: "acknowledges C (armed DATA ?n ?u) ack" by simp
  have "in_time ?u t" using u(2) by (simp add: in_time_def)
  from write_acked [OF ok u(1,4) time acked this] obtain u' where
    u': "udp_write_frame C DATA ct ?n ?u = (Ret (), u')" "u_sent u' = u_sent ?u @ [frame_bytes DATA ct ?n]"
      "\<not> u_closed u'" "u_read_buffer u' = u_read_buffer ?u" "u_tx_key u' = u_tx_key ?u" "u_rx_key u' = u_rx_key ?u"
      "u_last_rx_seq u' = u_last_rx_seq ?u" "u_deadline u' = None"
    using u by auto
  let ?s = "s\<lparr>s_info := advance_tx 1 (s_info s), s_transport := u'\<rparr>"
  have one: "send_encrypted_locked (udp_ops C) C DATA data s = (Ret (), ?s)"
    using info ct u'(1)
    by (simp add: send_encrypted_locked_def bind_io_def lift_sum_def on_transport_def update_info_def advance_tx_def)
  have "send_loop (udp_ops C) C data (length data) c = (Ret (), c)" if "data \<noteq> []" for c
    using that by (subst send_loop.simps) simp
  moreover have "slice 0 452 data = data" using len by (simp add: slice_def)
  ultimately have "send (udp_ops C) C data s = (Ret (), ?s)"
    using len one by (simp add: send_def send_loop.simps [of _ _ _ 0] bind_io_def)
  with u' show ?thesis by auto
qed

section \<open>A request and its answer\<close>

text \<open>What is to arrive, for a device and for a stream: the delays, or the times, and the datagrams.\<close>

definition hears :: "(32 word \<times> bytes) list \<Rightarrow> esp_udp usmp_ctx \<Rightarrow> esp_udp usmp_ctx" where
  "hears ds ctx = ctx\<lparr>c_transport := (c_transport ctx)\<lparr>d_events := map (\<lambda>(w, b). (w, Packet b)) ds\<rparr>\<rparr>"

definition stream_hears :: "(rat \<times> bytes) list \<Rightarrow> udp_stream session \<Rightarrow> udp_stream session" where
  "stream_hears ds s = s\<lparr>s_transport := (s_transport s)\<lparr>u_incoming := map (\<lambda>(t, b). (t, Datagram b)) ds\<rparr>\<rparr>"

lemma stream_hears_timeout [simp]: "effective_timeout timeout (stream_hears ds s) = effective_timeout timeout s"
  by (simp add: effective_timeout_def stream_hears_def split: option.split)

abbreviation session_ack :: "crypto \<Rightarrow> bytes \<Rightarrow> int \<Rightarrow> bytes" where
  "session_ack C k seq \<equiv> utack_header (packet_type_code DATA) seq @ utack_mac C k (utack_header (packet_type_code DATA) seq)"

lemma udp_linkedD:
  assumes "udp_linked ctx s"
  shows "core_ok ctx" "c_established ctx" "udp_paired (core_info ctx) (s_info s)" "udp_paired (s_info s) (core_info ctx)"
    "rx_key (s_info s) = c_tx_key ctx" "tx_key (s_info s) = c_rx_key ctx" "tx_seq (core_info ctx) = uint (c_tx_seq ctx)"
    "u_tx_key (s_transport s) = Some (c_rx_key ctx)" "u_rx_key (s_transport s) = Some (c_tx_key ctx)"
    "u_last_rx_seq (s_transport s) \<le> uint (c_tx_seq ctx)"
proof -
  show l: "core_ok ctx" "c_established ctx" "udp_paired (core_info ctx) (s_info s)" "udp_paired (s_info s) (core_info ctx)"
    "u_last_rx_seq (s_transport s) \<le> uint (c_tx_seq ctx)" using assms by (simp_all add: udp_linked_def)
  show "tx_seq (core_info ctx) = uint (c_tx_seq ctx)" by (simp add: core_info_def)
  show keys: "rx_key (s_info s) = c_tx_key ctx" "tx_key (s_info s) = c_rx_key ctx"
    using l(3,4) unfolding udp_paired_def by (simp_all add: core_info_def)
  show "u_tx_key (s_transport s) = Some (c_rx_key ctx)" "u_rx_key (s_transport s) = Some (c_tx_key ctx)"
    using assms by (simp_all add: udp_linked_def flip: keys)
qed

text \<open>The first message, whatever arrives after it and its acknowledgement.\<close>

lemma request_delivered:
  assumes law: "mbedtls_law M C" "aead_law C" "hmac_law C" and linked: "udp_linked ctx s"
    and len: "length data \<le> 452" and seq: "uint (c_tx_seq ctx) < 0xFFFFFFFF" and fuel: "0 < fuel"
    and ct: "seal C (core_info ctx) DATA data = Inr ct" and w: "w1 < 480" "w2 < 480"
    and time: "\<forall>v. effective_timeout timeout s = Some v \<longrightarrow> 0 < v \<and> t1 < u_now (s_transport s) + v"
  shows "\<exists>ctx1 s1.
     usmp_send (usmp_transport_udp M) M data
       (hears [(w1, session_ack C (c_tx_key ctx) (uint (c_tx_seq ctx))), (w2, reply)] ctx) = (Ret (), ctx1)
   \<and> recv (udp_ops C) C fuel timeout
       (stream_hears [(t1, frame_bytes DATA ct (uint (c_tx_seq ctx))), (t2, reply_ack)] s) = (Ret (Some data), s1)
   \<and> udp_linked ctx1 s1 \<and> s_info s1 = window_update (uint (c_tx_seq ctx)) (s_info s) \<and> c_rx_key ctx1 = c_rx_key ctx
   \<and> udp_up (c_transport ctx1) \<and> datagrams (c_transport ctx1) = [Packet reply] \<and> due_by w2 (d_events (c_transport ctx1))
   \<and> d_sent (c_transport ctx1) = d_sent (c_transport ctx) @ [frame_bytes DATA ct (uint (c_tx_seq ctx))]
   \<and> u_incoming (s_transport s1) = [(t2, Datagram reply_ack)]
   \<and> u_now (s_transport s1) = max (u_now (s_transport s)) t1 \<and> u_rto (s_transport s1) = u_rto (s_transport s)
   \<and> u_sent (s_transport s1) = u_sent (s_transport s) @ [session_ack C (c_tx_key ctx) (uint (c_tx_seq ctx))]"
proof -
  let ?n = "uint (c_tx_seq ctx)"
  let ?request = "frame_bytes DATA ct ?n" and ?ack = "session_ack C (c_tx_key ctx) ?n"
  note l = udp_linkedD [OF linked]
  let ?ctx = "hears [(w1, ?ack), (w2, reply)] ctx" and ?s = "stream_hears [(t1, ?request), (t2, reply_ack)] s"
  have "unat w1 < 480" "unat w2 < 480" using w by (simp_all add: word_less_nat_alt)
  then have up: "udp_up (c_transport ?ctx)" "datagrams (c_transport ?ctx) = [Packet ?ack, Packet reply]"
    using linked by (simp_all add: udp_up_def udp_linked_def hears_def datagrams_def)
  have dev: "core_ok ?ctx" "c_established ?ctx" "d_keys_set (c_transport ?ctx)" "core_info ?ctx = core_info ctx"
    using linked by (simp_all add: udp_linked_def hears_def core_ok_def core_info_def)
  obtain t' where send: "usmp_send (usmp_transport_udp M) M data ?ctx = (Ret (),
        ?ctx\<lparr>c_tx_seq := c_tx_seq ctx + 1, c_transport := t', c_last_tx_ms := d_now (c_transport ?ctx)\<rparr>)" (is "_ = (_, ?ctx1)")
    and t': "udp_up t'" "socket_kept (c_transport ?ctx) t'" "d_rx_buf t' = []" "datagrams t' = [Packet reply]"
      "d_sent t' = d_sent (c_transport ctx) @ [?request]" "due_by w2 (d_events t')"
    using usmp_send_udp [OF law dev(1,2) up(1) dev(3) _ _ len, of ct ?ack "[Packet reply]"] up(2) ct seq linked
    by (auto simp: hears_def udp_linked_def due_by_def core_info_def)
  define ctx1 where "ctx1 = ?ctx1"
  have fields: "core_info ctx1 = advance_tx 1 (core_info ctx)" "core_ok ctx1" "c_established ctx1"
    "c_tx_key ctx1 = c_tx_key ctx" "c_rx_key ctx1 = c_rx_key ctx" "uint (c_tx_seq ctx1) = ?n + 1" "c_transport ctx1 = t'"
    using l(1,2) seq by (simp_all add: ctx1_def hears_def core_ok_def core_info_def advance_tx_def uint_word_ariths)
  note c1 = t' [folded fields(7)]
  have keys: "d_keys_set (c_transport ctx1)" "d_tx_key (c_transport ctx1) = c_tx_key ctx" "d_rx_key (c_transport ctx1) = c_rx_key ctx"
    using c1(2) linked by (simp_all add: socket_kept_def hears_def udp_linked_def)
  have u: "udp_paired (core_info ctx) (s_info ?s)" "tx_seq (core_info ctx) < 0xFFFFFFFF" "\<not> u_closed (s_transport ?s)"
    "u_read_buffer (s_transport ?s) = []" "u_deadline (s_transport ?s) = None" "u_last_rx_seq (s_transport ?s) \<le> tx_seq (core_info ctx)"
    "u_incoming (s_transport ?s) = (t1, Datagram (frame_bytes DATA ct (tx_seq (core_info ctx)))) # [(t2, Datagram reply_ack)]"
    "\<forall>v. effective_timeout timeout ?s = Some v \<longrightarrow> 0 < v \<and> t1 < u_now (s_transport ?s) + v"
    using linked seq time stream_hears_timeout [of timeout "[(t1, ?request), (t2, reply_ack)]" s] l(7)
    by (simp_all add: udp_linked_def stream_hears_def)
  obtain s1 where recv: "recv (udp_ops C) C fuel timeout ?s = (Ret (Some data), s1)"
    and s1: "s_info s1 = window_update ?n (s_info s)" "\<not> u_closed (s_transport s1)" "u_read_buffer (s_transport s1) = []"
      "u_deadline (s_transport s1) = None" "u_tx_key (s_transport s1) = Some (c_rx_key ctx)"
      "u_rx_key (s_transport s1) = Some (c_tx_key ctx)" "u_last_rx_seq (s_transport s1) = ?n"
      "u_incoming (s_transport s1) = [(t2, Datagram reply_ack)]" "u_now (s_transport s1) = max (u_now (s_transport s)) t1"
      "u_rto (s_transport s1) = u_rto (s_transport s)" "u_sent (s_transport s1) = u_sent (s_transport s) @ [?ack]"
    using session_recv_udp [OF law(2) u(1) ct u(2) len fuel u(3-8)] l
    by (auto simp: build_utack_def stream_hears_def Let_def)
  have "udp_paired (core_info ctx1) (s_info s1)" "udp_paired (s_info s1) (core_info ctx1)"
    unfolding s1(1) fields(1) using udp_paired_sent [OF l(3)] udp_paired_back [OF l(4)] l(7) by simp_all
  then have "udp_linked ctx1 s1"
    using fields(2-6) keys c1(1,3) s1 l(5,6) by (simp add: udp_linked_def udp_up_def)
  with send [folded ctx1_def] recv c1 fields s1 show ?thesis by blast
qed

text \<open>The answer, once the first message has been delivered.\<close>

lemma reply_delivered:
  assumes law: "mbedtls_law M C" "aead_law C" "hmac_law C" and linked: "udp_linked ctx s"
    and len: "length data \<le> 452" "length data \<le> unat max_len" and seq: "tx_seq (s_info s) < 0xFFFFFFFF"
    and ct: "seal C (s_info s) DATA data = Inr ct" and up: "udp_up (c_transport ctx)"
    and device: "datagrams (c_transport ctx) = [Packet (frame_bytes DATA ct (tx_seq (s_info s)))]"
      "due_by 50 (d_events (c_transport ctx))"
    and server: "u_incoming (s_transport s) = [(t, Datagram (session_ack C (c_rx_key ctx) (tx_seq (s_info s))))]"
      "t < u_now (s_transport s) + attempt_timeout (u_rto (s_transport s)) 0"
  shows "\<exists>s1 ctx1. send (udp_ops C) C data s = (Ret (), s1) \<and> usmp_recv (usmp_transport_udp M) M max_len ctx = (Ret data, ctx1)
   \<and> d_sent (c_transport ctx1) = d_sent (c_transport ctx) @ [session_ack C (c_rx_key ctx) (tx_seq (s_info s))]
   \<and> u_sent (s_transport s1) = u_sent (s_transport s) @ [frame_bytes DATA ct (tx_seq (s_info s))] \<and> udp_linked ctx1 s1"
proof -
  let ?m = "tx_seq (s_info s)"
  note l = udp_linkedD [OF linked]
  have info: "0 \<le> ?m" "8 \<le> length (session_id (s_info s))" using l(4) by (simp_all add: udp_paired_def)
  have u: "\<not> u_closed (s_transport s)" "u_deadline (s_transport s) = None" "u_read_buffer (s_transport s) = []"
    using linked by (simp_all add: udp_linked_def)
  from session_send_udp [OF law(3,2) info(1) seq info(2) len(1) ct u(1,2) l(8) server(1) refl server(2)]
  obtain s1 where send: "send (udp_ops C) C data s = (Ret (), s1)"
    and s1: "s_info s1 = advance_tx 1 (s_info s)" "\<not> u_closed (s_transport s1)" "u_read_buffer (s_transport s1) = []"
      "u_deadline (s_transport s1) = None" "u_tx_key (s_transport s1) = Some (c_rx_key ctx)"
      "u_rx_key (s_transport s1) = Some (c_tx_key ctx)" "u_last_rx_seq (s_transport s1) = u_last_rx_seq (s_transport s)"
      "u_sent (s_transport s1) = u_sent (s_transport s) @ [frame_bytes DATA ct ?m]"
    using u l by auto
  have t: "d_rx_buf (c_transport ctx) = []" "d_keys_set (c_transport ctx)" "d_tx_key (c_transport ctx) = c_tx_key ctx"
    "d_rx_key (c_transport ctx) = c_rx_key ctx" using linked by (simp_all add: udp_linked_def)
  have "fst (hd (d_events (c_transport ctx))) \<le> 50"
    using device by (cases "d_events (c_transport ctx)") (simp_all add: due_by_def datagrams_def)
  from usmp_recv_udp [OF law(1,2) l(1,2) up t(1,2) l(4) ct seq len device(1) this] obtain ctx1 where
    received: "usmp_recv (usmp_transport_udp M) M max_len ctx = (Ret data, ctx1)"
    and c1: "core_info ctx1 = window_update ?m (core_info ctx)" "c_tx_seq ctx1 = c_tx_seq ctx" "c_established ctx1"
      "udp_up (c_transport ctx1)" "d_rx_buf (c_transport ctx1) = []" "d_keys_set (c_transport ctx1)"
      "d_tx_key (c_transport ctx1) = c_tx_key ctx" "d_rx_key (c_transport ctx1) = c_rx_key ctx"
      "d_sent (c_transport ctx1) = d_sent (c_transport ctx) @ [session_ack C (c_rx_key ctx) ?m]"
    by (auto simp: t)
  have "tx_key (core_info ctx1) = tx_key (core_info ctx)" "rx_key (core_info ctx1) = rx_key (core_info ctx)"
    "session_id (core_info ctx1) = session_id (core_info ctx)" by (simp_all add: c1(1))
  then have k: "c_tx_key ctx1 = c_tx_key ctx" "c_rx_key ctx1 = c_rx_key ctx" "core_ok ctx1"
    using l(1) by (simp_all add: core_info_def core_ok_def)
  have "udp_paired (core_info ctx1) (s_info s1)" "udp_paired (s_info s1) (core_info ctx1)"
    unfolding c1(1) s1(1) using udp_paired_back [OF l(3)] udp_paired_sent [OF l(4)] by simp_all
  then have "udp_linked ctx1 s1"
    using c1 s1 k l(5,6,10) by (simp add: udp_linked_def udp_up_def advance_tx_def)
  with send received c1(9) s1(8) show ?thesis by blast
qed

text \<open>
  C6: a device and the Python SDK understand each other over UDP: with sessions whose keys and windows
  match, on a network that delivers the datagrams each side sends in time, a message that
  the device sends with \<open>usmp_send\<close> is the one that \<open>recv\<close> of the server returns, and the answer of the
  server is the one that \<open>usmp_recv\<close> of the device returns; each side sends its message once and
  one acknowledgement, which the other side authenticates, and the sessions match again afterwards.
\<close>

theorem device_and_server_talk_udp:
  assumes law: "mbedtls_law M C" "aead_law C" "hmac_law C"
    and linked: "udp_linked ctx s"
    and lens: "length data \<le> 452" "length answer \<le> 452" "length answer \<le> unat max_len"
    and seqs: "uint (c_tx_seq ctx) < 0xFFFFFFFF" "tx_seq (s_info s) < 0xFFFFFFFF" and fuel: "0 < fuel"
    and network: "w1 < 480" "w2 \<le> 50"
      "\<forall>v. effective_timeout timeout s = Some v \<longrightarrow> 0 < v \<and> t1 < u_now (s_transport s) + v"
      "t2 < max (u_now (s_transport s)) t1 + attempt_timeout (u_rto (s_transport s)) 0"
  shows "\<exists>request ack reply reply_ack ctx1 s1 s2 ctx2.
     usmp_send (usmp_transport_udp M) M data (hears [(w1, ack), (w2, reply)] ctx) = (Ret (), ctx1)
   \<and> recv (udp_ops C) C fuel timeout (stream_hears [(t1, request), (t2, reply_ack)] s) = (Ret (Some data), s1)
   \<and> send (udp_ops C) C answer s1 = (Ret (), s2)
   \<and> usmp_recv (usmp_transport_udp M) M max_len ctx1 = (Ret answer, ctx2)
   \<and> d_sent (c_transport ctx2) = d_sent (c_transport ctx) @ [request, reply_ack]
   \<and> u_sent (s_transport s2) = u_sent (s_transport s) @ [ack, reply]
   \<and> udp_linked ctx2 s2"
proof -
  let ?n = "uint (c_tx_seq ctx)" and ?m = "tx_seq (s_info s)" and ?s1 = "window_update (uint (c_tx_seq ctx)) (s_info s)"
  note l = udp_linkedD [OF linked]
  have m: "0 \<le> ?m" using l(4) by (simp add: udp_paired_def)
  obtain ct where ct: "seal C (core_info ctx) DATA data = Inr ct"
    using seal_ok [of "core_info ctx" data C DATA] lens seqs by (auto simp: l)
  obtain ct' where ct': "seal C ?s1 DATA answer = Inr ct'" using seal_ok [of ?s1 answer C DATA] lens seqs m by auto
  have w: "w2 < 480" using network(2) by (simp add: word_less_nat_alt word_le_nat_alt)
  from request_delivered [OF law linked lens(1) seqs(1) fuel ct network(1) w network(3)] obtain ctx1 s1 where
    request: "usmp_send (usmp_transport_udp M) M data
        (hears [(w1, session_ack C (c_tx_key ctx) ?n), (w2, frame_bytes DATA ct' ?m)] ctx) = (Ret (), ctx1)"
      "recv (udp_ops C) C fuel timeout
        (stream_hears [(t1, frame_bytes DATA ct ?n), (t2, session_ack C (c_rx_key ctx) ?m)] s) = (Ret (Some data), s1)"
    and mid: "udp_linked ctx1 s1" "s_info s1 = ?s1" "c_rx_key ctx1 = c_rx_key ctx" "udp_up (c_transport ctx1)"
      "datagrams (c_transport ctx1) = [Packet (frame_bytes DATA ct' ?m)]" "due_by w2 (d_events (c_transport ctx1))"
      "u_incoming (s_transport s1) = [(t2, Datagram (session_ack C (c_rx_key ctx) ?m))]"
      "u_now (s_transport s1) = max (u_now (s_transport s)) t1" "u_rto (s_transport s1) = u_rto (s_transport s)"
    and sent: "d_sent (c_transport ctx1) = d_sent (c_transport ctx) @ [frame_bytes DATA ct ?n]"
      "u_sent (s_transport s1) = u_sent (s_transport s) @ [session_ack C (c_tx_key ctx) ?n]" by blast
  have "due_by 50 (d_events (c_transport ctx1))" using mid(6) network(2) by (force simp: due_by_def)
  with reply_delivered [OF law mid(1) lens(2,3) _ _ mid(4), of ct' t2] obtain s2 ctx2 where
    "send (udp_ops C) C answer s1 = (Ret (), s2)" "usmp_recv (usmp_transport_udp M) M max_len ctx1 = (Ret answer, ctx2)"
    "d_sent (c_transport ctx2) = d_sent (c_transport ctx1) @ [session_ack C (c_rx_key ctx) ?m]"
    "u_sent (s_transport s2) = u_sent (s_transport s1) @ [frame_bytes DATA ct' ?m]" "udp_linked ctx2 s2"
    using ct' seqs(2) mid network(4) by auto
  with request sent show ?thesis unfolding sent append_assoc append_Cons append_Nil by blast
qed

theorem device_and_server_talk_udp_witness:
  "\<exists>ctx s request ack reply reply_ack ctx1 s1 s2 ctx2.
     usmp_send (usmp_transport_udp (mbedtls_of demo_crypto)) (mbedtls_of demo_crypto) [1, 2, 3]
       (hears [(20, ack), (30, reply)] ctx) = (Ret (), ctx1)
   \<and> recv (udp_ops demo_crypto) demo_crypto 1 (Some 2) (stream_hears [(1 / 100, request), (5 / 100, reply_ack)] s)
       = (Ret (Some [1, 2, 3]), s1)
   \<and> send (udp_ops demo_crypto) demo_crypto [] s1 = (Ret (), s2)
   \<and> usmp_recv (usmp_transport_udp (mbedtls_of demo_crypto)) (mbedtls_of demo_crypto) 452 ctx1 = (Ret [], ctx2)
   \<and> d_sent (c_transport ctx2) = [request, reply_ack] \<and> u_sent (s_transport s2) = [ack, reply]"
proof -
  let ?k = "replicate 32 3 :: bytes" and ?k' = "replicate 32 4 :: bytes"
  let ?ctx = "demo_ctx ((demo_udp_device [])\<lparr>d_tx_key := ?k, d_rx_key := ?k', d_keys_set := True\<rparr>)"
  let ?s = "(demo_session (demo_udp ?k' ?k []))\<lparr>s_info := demo_peer_info\<rparr>"
  note defs = demo_ctx_def demo_udp_device_def demo_session_def demo_info_def demo_peer_info_def
  have linked: "udp_linked ?ctx ?s"
    by (simp add: udp_linked_def udp_paired_def defs core_ok_def core_info_def replay_drop_def)
  have sent: "d_sent (c_transport ?ctx) = []" "u_sent (s_transport ?s) = []" by (simp_all add: defs)
  have "uint (c_tx_seq ?ctx) < 0xFFFFFFFF" "tx_seq (s_info ?s) < 0xFFFFFFFF" "u_now (s_transport ?s) = 0" "u_rto (s_transport ?s) = 5 / 10"
    by (simp_all add: defs)
  with device_and_server_talk_udp [OF mbedtls_of_law [OF demo_crypto_laws(1)] demo_crypto_laws(1,4) linked, of "[1, 2, 3]" "[]" 452 1
      20 30 "Some 2" "1 / 100" "5 / 100", unfolded sent append_Nil]
  show ?thesis by (simp add: effective_timeout_def attempt_timeout_def) blast
qed

end
