(* ===== verification/Arduino.thy ===== *)
theory Arduino
  imports CoreHandshake
begin

text \<open>
  \<open>USMP.cpp\<close> of the Arduino port: the class \<open>USMPClient\<close> around the C core, on any platform and transport \<open>P\<close>.
  The transport objects of the port have all the hooks used here.  A callback of the sketch is recorded
  when it is called; what a sketch does in one, calling the client again for instance, is not
  part of the model.
\<close>

section \<open>The client\<close>

datatype sketch_callback = On_connect | On_disconnect | On_reconnect | On_message

datatype sketch_call = Connected | Disconnected | Reconnected | Message bytes

datatype arduino_fault = Use_after_free

text \<open>
  \<open>a_linked\<close>: \<open>_ctx.transport\<close> is a copy of the transport, whose object it shares; \<open>a_freed\<close>: that object has been
  deleted; \<open>a_hooks\<close>: \<open>_transport\<close> itself is not cleared.  \<open>a_rx_buf\<close> holds the \<open>_rx_len\<close> first bytes of \<open>_rx_buf\<close>.
\<close>

record 't arduino =
  a_psk :: bytes
  a_ctx :: "'t usmp_ctx"
  a_hooks :: bool
  a_linked :: bool
  a_freed :: bool
  a_initialized :: bool
  a_backoff_ms :: "32 word"
  a_last_attempt_ms :: "32 word"
  a_handlers :: "sketch_callback set"
  a_rx_buf :: bytes
  a_calls :: "sketch_call list"

abbreviation "established c \<equiv> c_established (a_ctx c)"

definition fire :: "sketch_callback \<Rightarrow> sketch_call \<Rightarrow> 't arduino \<Rightarrow> 't arduino" where
  "fire cb x c = (if cb \<in> a_handlers c then c\<lparr>a_calls := a_calls c @ [x]\<rparr> else c)"

definition lost :: "'t arduino \<Rightarrow> 't arduino" where
  "lost c = fire On_disconnect Disconnected (c\<lparr>a_ctx := disconnect (a_ctx c)\<rparr>)"

text \<open>The hooks of \<open>_ctx.transport\<close>, which are null before a session has been tried.\<close>

definition linked_hooks :: "'t platform \<Rightarrow> 't arduino \<Rightarrow> 't platform" where
  "linked_hooks P c =
     (if a_linked c then P
      else P\<lparr>t_close := None, t_reconnect := None, t_available := None, t_confirm_authenticated := None,
             t_set_session_keys := None\<rparr>)"

text \<open>A function of the core on \<open>_ctx\<close>, whose result the client examines.\<close>

definition on_core ::
  "'t platform \<Rightarrow> ('t platform \<Rightarrow> ('t usmp_ctx, int, 'a) io) \<Rightarrow> ('t arduino, arduino_fault, int + 'a) io" where
  "on_core P f c =
     (if a_linked c \<and> a_freed c then (Raise Use_after_free, c)
      else case f (linked_hooks P c) (a_ctx c) of
        (Ret x, ctx) \<Rightarrow> (Ret (Inr x), c\<lparr>a_ctx := ctx\<rparr>)
      | (Raise rc, ctx) \<Rightarrow> (Ret (Inl rc), c\<lparr>a_ctx := ctx\<rparr>)
      | (Blocked, ctx) \<Rightarrow> (Blocked, c\<lparr>a_ctx := ctx\<rparr>))"

definition apply_psk :: "'t arduino \<Rightarrow> 't arduino" where
  "apply_psk c = c\<lparr>a_ctx := (a_ctx c)\<lparr>c_device_psk := Some (a_psk c)\<rparr>\<rparr>"

definition do_reconnect :: "'t platform \<Rightarrow> mbedtls \<Rightarrow> ('t arduino, arduino_fault, bool) io" where
  "do_reconnect P M =
     bind_io (modify apply_psk) (\<lambda>_.
     bind_io (on_core P (\<lambda>P. usmp_reconnect P M)) (\<lambda>r. ret (\<not> isl r)))"

section \<open>Beginning\<close>

text \<open>
  \<open>wifi\<close>: whether \<open>connectWiFi\<close> succeeds, if there is a network to join; \<open>init\<close>: the new transport, if
  \<open>init\<close> succeeds.
\<close>

definition cleared_ctx :: "'t \<Rightarrow> 't usmp_ctx" where
  "cleared_ctx t =
     \<lparr>c_dev_id = replicate 6 0, c_session_id = replicate 16 0, c_tx_key = replicate 32 0, c_rx_key = replicate 32 0,
      c_established = False, c_transport = t, c_tx_seq = 0, c_rx_seq = 0, c_keepalive_ms = 30000, c_last_tx_ms = 0,
      c_rx_window_bitmap = 0, c_cipher_suite = 0, c_device_psk = None\<rparr>"

definition arduino_begin ::
  "'t platform \<Rightarrow> mbedtls \<Rightarrow> bool option \<Rightarrow> 't option \<Rightarrow> ('t arduino, arduino_fault, bool) io" where
  "arduino_begin P M wifi init =
     (if wifi = Some False then ret False
      else
        bind_io (modify (\<lambda>c. c\<lparr>a_hooks := False\<rparr>)) (\<lambda>_.
        case init of
          None \<Rightarrow> ret False
        | Some t \<Rightarrow>
            bind_io (modify (\<lambda>c. apply_psk (c\<lparr>a_hooks := True, a_ctx := cleared_ctx t, a_linked := True, a_freed := False\<rparr>))) (\<lambda>_.
            bind_io (on_core P (\<lambda>P. usmp_connect P M t)) (\<lambda>r.
            if isl r then ret False
            else
              bind_io (modify (\<lambda>c. fire On_connect Connected
                (c\<lparr>a_initialized := True, a_backoff_ms := 2000, a_last_attempt_ms := 0, a_rx_buf := []\<rparr>))) (\<lambda>_.
              ret True)))))"

section \<open>Messages\<close>

text \<open>\<open>(uint16_t)len\<close>\<close>

definition arduino_send :: "'t platform \<Rightarrow> mbedtls \<Rightarrow> bytes \<Rightarrow> ('t arduino, arduino_fault, bool) io" where
  "arduino_send P M data c =
     (if \<not> established c then (Ret False, c)
      else
        bind_io (on_core P (\<lambda>P. usmp_send P M (take (length data mod 65536) data))) (\<lambda>r.
        if \<not> isl r then ret True
        else bind_io (modify lost) (\<lambda>_. ret False)) c)"

text \<open>
  The loop of \<open>_drain_rx\<close>, with fuel for its passes; the buffer holds four fragments.  An empty message counts
  as none.
\<close>

fun drain_rx :: "'t platform \<Rightarrow> mbedtls \<Rightarrow> nat \<Rightarrow> ('t arduino, arduino_fault, unit) io" where
  "drain_rx P M 0 c = (Blocked, c)"
| "drain_rx P M (Suc fuel) c =
     (if \<not> established c \<or> a_rx_buf c \<noteq> [] \<or> \<not> a_hooks c then (Ret (), c)
      else case t_available P of
        None \<Rightarrow> (Ret (), c)
      | Some available \<Rightarrow>
          bind_io (on_core P (\<lambda>P. on_device (\<lambda>t. case available t of (n, t') \<Rightarrow> (Ret n, t')))) (\<lambda>r.
          case r of
            Inr n \<Rightarrow>
              (if n \<le> 0 then ret ()
               else
                 bind_io (on_core P (\<lambda>P. usmp_recv P M 1808)) (\<lambda>r.
                 case r of
                   Inr data \<Rightarrow>
                     if data \<noteq> [] then modify (\<lambda>c. c\<lparr>a_rx_buf := data\<rparr>) else drain_rx P M fuel
                 | Inl rc \<Rightarrow> modify lost))
          | Inl rc \<Rightarrow> ret ()) c)"

definition arduino_available :: "'t platform \<Rightarrow> mbedtls \<Rightarrow> nat \<Rightarrow> ('t arduino, arduino_fault, bool) io" where
  "arduino_available P M fuel = bind_io (drain_rx P M fuel) (\<lambda>_. gets (\<lambda>c. a_rx_buf c \<noteq> []))"

definition arduino_read :: "'t platform \<Rightarrow> mbedtls \<Rightarrow> nat \<Rightarrow> ('t arduino, arduino_fault, bytes) io" where
  "arduino_read P M fuel =
     bind_io (drain_rx P M fuel) (\<lambda>_.
     bind_io (gets a_rx_buf) (\<lambda>msg.
     bind_io (modify (\<lambda>c. c\<lparr>a_rx_buf := []\<rparr>)) (\<lambda>_. ret msg)))"

text \<open>What is read into a buffer of the sketch; what does not fit is dropped.\<close>

definition arduino_read_into :: "'t platform \<Rightarrow> mbedtls \<Rightarrow> nat \<Rightarrow> nat \<Rightarrow> ('t arduino, arduino_fault, bytes) io" where
  "arduino_read_into P M fuel max_len =
     bind_io (arduino_read P M fuel) (\<lambda>msg. ret (take max_len msg))"

section \<open>Maintenance\<close>

definition back_off :: "32 word \<Rightarrow> 32 word" where
  "back_off ms = (if ms < 30000 then ms * 2 else ms)"

definition arduino_millis :: "'t platform \<Rightarrow> ('t arduino, arduino_fault, 32 word) io" where
  "arduino_millis P c =
     (case p_millis P (c_transport (a_ctx c)) of
        (now, t) \<Rightarrow> (Ret now, c\<lparr>a_ctx := (a_ctx c)\<lparr>c_transport := t\<rparr>\<rparr>))"

definition maintain_dead :: "'t platform \<Rightarrow> mbedtls \<Rightarrow> ('t arduino, arduino_fault, unit) io" where
  "maintain_dead P M =
     bind_io (arduino_millis P) (\<lambda>now.
     bind_io (gets (\<lambda>c. now - a_last_attempt_ms c < a_backoff_ms c)) (\<lambda>early.
     if early then ret ()
     else
       bind_io (modify (\<lambda>c. c\<lparr>a_last_attempt_ms := now\<rparr>)) (\<lambda>_.
       bind_io (do_reconnect P M) (\<lambda>ok.
       modify (\<lambda>c.
         if ok then fire On_connect Connected (fire On_reconnect Reconnected (c\<lparr>a_backoff_ms := 2000\<rparr>))
         else c\<lparr>a_backoff_ms := back_off (a_backoff_ms c)\<rparr>)))))"

definition deliver :: "'t arduino \<Rightarrow> 't arduino" where
  "deliver c =
     (if On_message \<in> a_handlers c \<and> a_rx_buf c \<noteq> []
      then fire On_message (Message (a_rx_buf c)) (c\<lparr>a_rx_buf := []\<rparr>) else c)"

definition arduino_maintain :: "'t platform \<Rightarrow> mbedtls \<Rightarrow> nat \<Rightarrow> ('t arduino, arduino_fault, unit) io" where
  "arduino_maintain P M fuel c =
     (if \<not> a_initialized c then (Ret (), c)
      else if \<not> established c then maintain_dead P M c
      else
        bind_io (on_core P (\<lambda>P. usmp_keepalive_tick P M)) (\<lambda>r.
        if isl r then modify lost
        else bind_io (drain_rx P M fuel) (\<lambda>_. modify deliver)) c)"

definition arduino_reconnect :: "'t platform \<Rightarrow> mbedtls \<Rightarrow> ('t arduino, arduino_fault, bool) io" where
  "arduino_reconnect P M =
     bind_io (do_reconnect P M) (\<lambda>ok.
     bind_io (modify (\<lambda>c. if ok then fire On_connect Connected (fire On_reconnect Reconnected c) else c)) (\<lambda>_.
     ret ok))"

text \<open>\<open>destroy\<close> deletes the object; only the pointer in \<open>_transport\<close> is cleared.\<close>

definition arduino_close :: "'t platform \<Rightarrow> mbedtls \<Rightarrow> ('t arduino, arduino_fault, unit) io" where
  "arduino_close P M =
     bind_io (on_core P (\<lambda>P. usmp_close P M)) (\<lambda>_.
     modify (\<lambda>c. c\<lparr>a_freed := (a_freed c \<or> a_hooks c), a_rx_buf := [], a_initialized := False\<rparr>))"

definition arduino_keepalive :: "32 word \<Rightarrow> 't arduino \<Rightarrow> 't arduino" where
  "arduino_keepalive ms c = c\<lparr>a_ctx := (a_ctx c)\<lparr>c_keepalive_ms := ms\<rparr>\<rparr>"

text \<open>\<open>onConnect\<close> and the others; \<open>given\<close>: the pointer is not null.\<close>

definition arduino_on :: "sketch_callback \<Rightarrow> bool \<Rightarrow> 't arduino \<Rightarrow> 't arduino" where
  "arduino_on cb given c = c\<lparr>a_handlers := (if given then insert cb (a_handlers c) else a_handlers c - {cb})\<rparr>"

section \<open>What the core does to a live session\<close>

text \<open>A call that succeeds leaves the session as live as it was.\<close>

definition keeps_live :: "('t usmp_ctx, int, 'a) io \<Rightarrow> bool" where
  "keeps_live m \<longleftrightarrow> (\<forall>ctx x ctx'. m ctx = (Ret x, ctx') \<longrightarrow> c_established ctx' = c_established ctx)"

named_theorems live

lemma keeps_live_bind [live]: "keeps_live m \<Longrightarrow> (\<And>x. keeps_live (f x)) \<Longrightarrow> keeps_live (bind_io m f)"
  unfolding keeps_live_def bind_io_def by (fastforce split: prod.splits outcome.splits)

lemma keeps_live_basic [live]:
  "keeps_live (ret x)" "keeps_live (throw rc)" "keeps_live (gets f)" "keeps_live (fail_closed rc)" "keeps_live (on_device d)"
  "keeps_live (usmp_port_millis P)"
  by (auto simp: keeps_live_def fail_closed_def bind_io_def on_device_def usmp_port_millis_def split: prod.splits)

lemma keeps_live_catch [live]:
  assumes "keeps_live m" and "\<And>rc ctx x. fst (h rc ctx) \<noteq> Ret x"
  shows "keeps_live (catch_io m h)"
  unfolding keeps_live_def
proof (intro allI impI)
  fix ctx x ctx'
  assume run: "catch_io m h ctx = (Ret x, ctx')"
  obtain out ctx1 where m: "m ctx = (out, ctx1)" by fastforce
  show "c_established ctx' = c_established ctx"
  proof (cases out)
    case (Raise e)
    then show ?thesis using run m assms(2) [of e ctx1 x] by (simp add: catch_io_def)
  qed (use run m assms(1) in \<open>auto simp: catch_io_def keeps_live_def\<close>)
qed

lemma keeps_live_modify [live]: "(\<And>ctx. c_established (f ctx) = c_established ctx) \<Longrightarrow> keeps_live (modify f)"
  by (auto simp: keeps_live_def)

lemma keeps_live_connected [live]: "keeps_live m \<Longrightarrow> keeps_live (if_connected rc m)"
  by (auto simp: keeps_live_def if_connected_def)

lemma fail_closed_never [simp]: "fst (fail_closed rc ctx) \<noteq> Ret x"
  by (simp add: fail_closed_def bind_io_def)

lemma keeps_live_emit [live]: "keeps_live (emit_frame P M type data)"
proof -
  have "keeps_live (bind_io (modify (c_tx_seq_update (\<lambda>n. n + 1))) (\<lambda>_.
          bind_io (usmp_port_millis P) (\<lambda>now.
          bind_io (modify (c_last_tx_ms_update (\<lambda>_. now))) (\<lambda>_.
          catch_io (on_device (t_send P buf)) (\<lambda>_. fail_closed (-1))))))" for buf
    by (intro live) simp_all
  moreover have "keeps_live (throw (-2) :: ('a usmp_ctx, int, unit) io)" "keeps_live (fail_closed (-1) :: ('a usmp_ctx, int, unit) io)"
    by (intro live)+
  ultimately show ?thesis
    by (auto simp: keeps_live_def emit_frame_def Let_def split: option.splits if_splits)
qed

lemma keeps_live_send_loop [live]: "keeps_live (usmp_send_loop P M data offset)"
proof (induction "length data - offset" arbitrary: offset rule: less_induct)
  case less
  let ?chunk = "slice offset (offset + min (length data - offset) 452) data"
  show ?case
  proof (cases "offset < length data \<or> length data = 0")
    case True
    have "keeps_live (if length data = 0 then ret () else usmp_send_loop P M data (offset + length ?chunk))"
      using less True by (auto simp: length_slice intro: live)
    with True show ?thesis
      by (subst usmp_send_loop.simps) (simp only: if_True Let_def, intro live, simp_all)
  qed (subst usmp_send_loop.simps, auto intro: live)
qed

lemma keeps_live_send: "keeps_live (usmp_send P M data)"
  using keeps_live_send_loop [of P M data 0]
  by (auto simp: usmp_send_def keeps_live_def if_connected_def Let_def fail_closed_def bind_io_def split: if_splits)

lemma keeps_live_keepalive: "keeps_live (usmp_keepalive_tick P M)"
  unfolding usmp_keepalive_tick_def usmp_ping_def send_control_def
  by (intro live) (auto intro!: live)

lemma keeps_live_read [live]: "keeps_live (core_read P)"
  unfolding core_read_def core_reject_def
  by (intro live) (auto split: prod.splits intro: live)

lemma keeps_live_check [live]: "keeps_live (core_replay_check P pkt)"
  unfolding core_replay_check_def by (auto intro: live)

lemma keeps_live_dec_max [live]: "keeps_live (core_dec_max P max_len l type)"
  unfolding core_dec_max_def core_reject_def by (auto intro: live)

lemma keeps_live_open [live]: "keeps_live (core_open P M dec_max pkt)"
  unfolding core_open_def core_reject_def by (auto intro!: live split: option.splits)

lemma established_window [simp]: "c_established (core_window_update seq ctx) = c_established ctx"
  by (simp add: core_window_update_def Let_def)

lemma keeps_live_accept [live]: "keeps_live (core_accept_seq P seq)"
  unfolding core_accept_seq_def by (auto intro!: live split: option.splits)

lemma keeps_live_rotate [live]: "keeps_live (core_rotate P M rc ini salt)"
  by (auto simp: keeps_live_def core_rotate_def install_core_keys_def Let_def split: option.splits prod.splits)

lemma keeps_live_next [live]: "keeps_live (core_next P l)"
  unfolding core_next_def Let_def by (auto intro!: live split: option.splits)

lemma keeps_live_dispatch [live]: "keeps_live (core_dispatch P M pkt plaintext l)"
  unfolding core_dispatch_def core_data_def send_control_def Let_def by (auto intro!: live)

lemma keeps_live_recv_step [live]: "keeps_live (core_recv_step P M max_len l)"
  unfolding core_recv_step_def unless_dropped_def by (auto intro!: live split: option.splits)

lemma keeps_live_recv_loop [live]: "keeps_live (core_recv_loop P M max_len attempts l)"
proof (induction attempts arbitrary: l)
  case 0
  then show ?case by (auto simp: keeps_live_def fail_closed_def bind_io_def)
next
  case (Suc n)
  have "keeps_live (core_recv_loop P M max_len (Suc n) l) \<longleftrightarrow> keeps_live (bind_io (core_recv_step P M max_len l) (\<lambda>flow.
     case flow of Finish out \<Rightarrow> ret out | Again l' \<Rightarrow> core_recv_loop P M max_len n l'))"
    by (simp add: keeps_live_def)
  then show ?case using Suc by (auto intro!: live split: core_flow.splits)
qed

lemma keeps_live_recv: "keeps_live (usmp_recv P M max_len)"
  unfolding usmp_recv_def by (intro live)

text \<open>Connecting and reconnecting.\<close>

lemma start_session_live:
  assumes "start_session P M copy ctx = (out, ctx')" and "\<not> c_established ctx"
    and "\<And>hs c. c_established (copy hs c) = c_established c"
  shows "c_established ctx' \<longleftrightarrow> (\<exists>u. out = Ret u)"
  using assms
  by (auto simp: start_session_def bind_io_def catch_io_def on_device_def close_device_def usmp_port_millis_def
      split: prod.splits outcome.splits option.splits)

lemma usmp_connect_live: "usmp_connect P M t ctx = (out, ctx') \<Longrightarrow> c_established ctx' \<longleftrightarrow> (\<exists>u. out = Ret u)"
  unfolding usmp_connect_def by (auto simp: bind_io_def dest!: start_session_live)

lemma usmp_redials_live:
  assumes "usmp_reconnect P M ctx = (out, ctx')" and "t_reconnect P \<noteq> None"
  shows "c_established ctx' \<longleftrightarrow> (\<exists>u. out = Ret u)"
proof -
  from assms(2) obtain redial where Some: "t_reconnect P = Some redial" by blast
  obtain o1 t1 where d: "redial (c_transport ctx) = (o1, t1)" by fastforce
  let ?c = "(disconnect (zeroize_keys ctx))\<lparr>c_transport := t1\<rparr>"
  let ?copy = "\<lambda>hs ctx. ctx\<lparr>c_session_id := hs_session_id hs, c_tx_key := hs_tx_key hs, c_rx_key := hs_rx_key hs\<rparr>"
  obtain o2 c2 where st: "start_session P M ?copy ?c = (o2, c2)" by fastforce
  have "c_established c2 \<longleftrightarrow> (\<exists>u. o2 = Ret u)"
    by (rule start_session_live [OF st]) (simp_all add: disconnect_def)
  then show ?thesis
    using assms(1) Some d st
    by (cases o1; cases o2)
      (auto simp: usmp_reconnect_def bind_io_def with_code_def catch_io_def on_device_def disconnect_def zeroize_keys_def)
qed

lemma usmp_reconnect_live:
  assumes "usmp_reconnect P M ctx = (out, ctx')"
  shows "((\<exists>u. out = Ret u) \<longrightarrow> c_established ctx') \<and> (c_established ctx' \<longrightarrow> (\<exists>u. out = Ret u) \<or> c_established ctx)"
proof (cases "t_reconnect P")
  case None
  then show ?thesis using assms by (auto simp: usmp_reconnect_def bind_io_def zeroize_keys_def)
next
  case Some
  then show ?thesis using usmp_redials_live [OF assms] by simp
qed

lemma usmp_close_dead: "usmp_close P M ctx = (Ret u, ctx') \<or> usmp_close P M ctx = (Raise rc, ctx') \<Longrightarrow> \<not> c_established ctx'"
  by (auto simp: usmp_close_def bind_io_def catch_io_def disconnect_def close_device_def zeroize_keys_def
      split: prod.splits outcome.splits option.splits)

section \<open>Callbacks and reconnection\<close>

definition arduino_client :: "bytes \<Rightarrow> sketch_callback set \<Rightarrow> 't \<Rightarrow> 't arduino" where
  "arduino_client psk handlers t =
     \<lparr>a_psk = psk, a_ctx = (cleared_ctx t)\<lparr>c_keepalive_ms := 0\<rparr>, a_hooks = False, a_linked = False, a_freed = False,
      a_initialized = False, a_backoff_ms = 2000, a_last_attempt_ms = 0, a_handlers = handlers, a_rx_buf = [],
      a_calls = []\<rparr>"

text \<open>
  What a sketch can do with its client, at any time; only the callbacks \<open>onConnect\<close> and \<open>onDisconnect\<close> stay
  registered.  The number counts the live sessions that the sketch itself has ended, by closing its
  client, or by beginning or reconnecting when it had a session.
\<close>

definition ended :: "'t arduino \<Rightarrow> bool \<Rightarrow> 't arduino \<Rightarrow> nat" where
  "ended c made c' = (if established c \<and> (made \<or> \<not> established c') then 1 else 0)"

inductive arduino_step :: "'t platform \<Rightarrow> mbedtls \<Rightarrow> nat \<times> 't arduino \<Rightarrow> nat \<times> 't arduino \<Rightarrow> bool" for P M where
  begins: "arduino_begin P M wifi init c = (Ret ok, c') \<Longrightarrow> arduino_step P M (n, c) (n + ended c ok c', c')"
| reconnects: "arduino_reconnect P M c = (Ret ok, c') \<Longrightarrow> arduino_step P M (n, c) (n + ended c ok c', c')"
| closes: "arduino_close P M c = (Ret (), c') \<Longrightarrow> arduino_step P M (n, c) (n + ended c False c', c')"
| sends: "arduino_send P M data c = (Ret ok, c') \<Longrightarrow> arduino_step P M (n, c) (n, c')"
| asks: "arduino_available P M fuel c = (Ret yes, c') \<Longrightarrow> arduino_step P M (n, c) (n, c')"
| reads: "arduino_read P M fuel c = (Ret msg, c') \<Longrightarrow> arduino_step P M (n, c) (n, c')"
| maintains: "arduino_maintain P M fuel c = (Ret (), c') \<Longrightarrow> arduino_step P M (n, c) (n, c')"
| sets_keepalive: "arduino_step P M (n, c) (n, arduino_keepalive ms c)"
| registers: "given \<or> cb \<notin> {On_connect, On_disconnect} \<Longrightarrow> arduino_step P M (n, c) (n, arduino_on cb given c)"

definition reported :: "nat \<Rightarrow> 't arduino \<Rightarrow> bool" where
  "reported n c \<longleftrightarrow> {On_connect, On_disconnect} \<subseteq> a_handlers c
     \<and> count_list (a_calls c) Connected = count_list (a_calls c) Disconnected + n + (if established c then 1 else 0)
     \<and> a_backoff_ms c \<in> {2000, 4000, 8000, 16000, 32000}"

text \<open>Nothing of this changes: neither the session nor what is reported.\<close>

definition same_report :: "'t arduino \<Rightarrow> 't arduino \<Rightarrow> bool" where
  "same_report c c' \<longleftrightarrow> established c' = established c \<and> a_handlers c' = a_handlers c \<and> a_calls c' = a_calls c
     \<and> a_backoff_ms c' = a_backoff_ms c"

lemma same_report_reported: "same_report c c' \<Longrightarrow> reported n c \<Longrightarrow> reported n c'"
  by (simp add: same_report_def reported_def)

lemma reported_fields [simp]:
  "reported n (c\<lparr>a_rx_buf := b\<rparr>) = reported n c" "reported n (c\<lparr>a_last_attempt_ms := ms\<rparr>) = reported n c"
  "reported n (c\<lparr>a_initialized := x\<rparr>) = reported n c" "reported n (c\<lparr>a_hooks := x\<rparr>) = reported n c"
  by (simp_all add: reported_def)

text \<open>A session is lost, or made, and reported.\<close>

lemma reported_lost: "reported n c \<Longrightarrow> established c \<Longrightarrow> reported n (lost (c\<lparr>a_ctx := ctx\<rparr>))"
  by (simp add: reported_def lost_def fire_def disconnect_def)

lemma reported_connect:
  assumes "reported n c" and "\<not> established c" and "established d" and "a_handlers d = a_handlers c" and "a_calls d = a_calls c"
    and "a_backoff_ms d = a_backoff_ms c \<or> a_backoff_ms d = 2000"
  shows "reported n (fire On_connect Connected (fire On_reconnect Reconnected d))" "reported n (fire On_connect Connected d)"
  using assms by (auto simp: reported_def fire_def)

lemma reported_deliver: "reported n c \<Longrightarrow> reported n (deliver c)"
  by (simp add: reported_def deliver_def fire_def)

lemma on_core_Ret:
  assumes "on_core P f c = (Ret r, c')"
  shows "\<exists>ctx P'. c' = c\<lparr>a_ctx := ctx\<rparr> \<and> f P' (a_ctx c) = (case r of Inr x \<Rightarrow> Ret x | Inl rc \<Rightarrow> Raise rc, ctx)"
proof -
  obtain out ctx where f: "f (linked_hooks P c) (a_ctx c) = (out, ctx)" by fastforce
  show ?thesis
    by (rule exI [of _ ctx], rule exI [of _ "linked_hooks P c"])
      (use assms f in \<open>auto simp: on_core_def split: if_splits outcome.splits\<close>)
qed

lemma on_core_live:
  assumes "on_core P f c = (Ret (Inr x), c')" and "\<And>P. keeps_live (f P)" and "reported n c"
  shows "reported n c'" "established c' = established c"
  using on_core_Ret [OF assms(1)] assms(2,3) by (auto simp: keeps_live_def reported_def)

lemma reported_send: "arduino_send P M data c = (Ret ok, c') \<Longrightarrow> reported n c \<Longrightarrow> reported n c'"
proof -
  assume run: "arduino_send P M data c = (Ret ok, c')" and c: "reported n c"
  show "reported n c'"
  proof (cases "established c")
    case True
    let ?m = "on_core P (\<lambda>P. usmp_send P M (take (length data mod 65536) data))"
    from run True obtain r c1 where m: "?m c = (Ret r, c1)"
      by (auto simp: arduino_send_def bind_io_def split: prod.splits outcome.splits)
    show ?thesis
    proof (cases r)
      case (Inl rc)
      with run True m on_core_Ret [OF m] reported_lost [OF c True] show ?thesis
        by (auto simp: arduino_send_def bind_io_def)
    next
      case (Inr x)
      with run True m on_core_live(1) [OF m [unfolded Inr] keeps_live_send c] show ?thesis
        by (auto simp: arduino_send_def bind_io_def)
    qed
  qed (use run c in \<open>simp add: arduino_send_def\<close>)
qed

lemma reported_drain: "drain_rx P M fuel c = (Ret (), c') \<Longrightarrow> reported n c \<Longrightarrow> reported n c'"
proof (induction fuel arbitrary: c)
  case (Suc fuel)
  show ?case
  proof (cases "\<not> established c \<or> a_rx_buf c \<noteq> [] \<or> \<not> a_hooks c \<or> t_available P = None")
    case True
    with Suc.prems show ?thesis by (auto split: if_splits option.splits)
  next
    case False
    then obtain available where av: "t_available P = Some available" and live: "established c" by auto
    let ?m = "on_core P (\<lambda>P. on_device (\<lambda>t. case available t of (n, t') \<Rightarrow> (Ret n, t')))"
    from Suc.prems(1) False av obtain r c1 where m: "?m c = (Ret r, c1)"
      by (auto simp: bind_io_def split: prod.splits outcome.splits if_splits)
    then obtain n where r: "r = Inr n"
      by (auto simp: on_core_def on_device_def split: if_splits prod.splits outcome.splits)
    note c1 = on_core_live [OF m [unfolded r] keeps_live_basic(5) Suc.prems(2)]
    let ?m2 = "on_core P (\<lambda>P. usmp_recv P M 1808)"
    show ?thesis
    proof (cases "n \<le> 0")
      case True
      with Suc.prems(1) False av m r c1 show ?thesis by (simp add: bind_io_def)
    next
      case pos: False
      with Suc.prems(1) False av m r obtain r2 c2 where m2: "?m2 c1 = (Ret r2, c2)"
        by (auto simp: bind_io_def split: prod.splits outcome.splits if_splits)
      show ?thesis
      proof (cases r2)
        case (Inl rc)
        have "c' = lost c2" using Suc.prems(1) False av m r pos m2 Inl by (auto simp: bind_io_def)
        moreover have "established c1" using c1(2) live by simp
        ultimately show ?thesis using on_core_Ret [OF m2] reported_lost [OF c1(1)] by auto
      next
        case (Inr data)
        note c2 = on_core_live [OF m2 [unfolded Inr] keeps_live_recv c1(1)]
        show ?thesis
        proof (cases "data = []")
          case True
          then have "drain_rx P M fuel c2 = (Ret (), c')"
            using Suc.prems(1) False av m r pos m2 Inr by (auto simp: bind_io_def)
          then show ?thesis using Suc.IH c2(1) by blast
        next
          case more: False
          then have "c' = c2\<lparr>a_rx_buf := data\<rparr>"
            using Suc.prems(1) False av m r pos m2 Inr by (auto simp: bind_io_def)
          then show ?thesis using c2(1) by simp
        qed
      qed
    qed
  qed
qed simp

lemma reported_idle:
  assumes "reported n c" and "c_established (a_ctx c') = established c" and "a_handlers c' = a_handlers c" and "a_calls c' = a_calls c"
    and "a_backoff_ms c' = a_backoff_ms c \<or> a_backoff_ms c' \<in> {2000, 4000, 8000, 16000, 32000}"
  shows "reported n c'"
  using assms by (auto simp: reported_def)

lemma back_off_values:
  "ms \<in> {2000, 4000, 8000, 16000, 32000} \<Longrightarrow> back_off ms \<in> {2000, 4000, 8000, 16000, 32000}"
  by (auto simp: back_off_def)

text \<open>The session that \<open>begin\<close> or \<open>reconnect\<close> finds is ended; nobody is told.\<close>

lemma reported_ended:
  assumes "reported n c" and "\<not> established d" and "a_handlers d = a_handlers c" and "a_calls d = a_calls c"
    and "a_backoff_ms d = a_backoff_ms c"
  shows "reported (n + (if established c then 1 else 0)) d"
  using assms by (simp add: reported_def)

lemma reported_begin:
  assumes run: "arduino_begin P M wifi init c = (Ret ok, c')" and c: "reported n c"
  shows "reported (n + ended c ok c') c'"
proof (cases "init = None \<or> wifi = Some False")
  case True
  with run c show ?thesis by (auto simp: arduino_begin_def bind_io_def ended_def split: if_splits)
next
  case False
  then obtain t where init: "init = Some t" and wifi: "wifi \<noteq> Some False" by auto
  let ?c = "apply_psk (c\<lparr>a_hooks := True, a_ctx := cleared_ctx t, a_linked := True, a_freed := False\<rparr>)"
  let ?n = "n + (if established c then 1 else 0)"
  have c0: "reported ?n ?c" "\<not> established ?c"
    using reported_ended [OF c, of ?c] by (simp_all add: apply_psk_def cleared_ctx_def)
  obtain r c1 where m: "on_core P (\<lambda>P. usmp_connect P M t) ?c = (Ret r, c1)"
    using run init wifi by (auto simp: arduino_begin_def bind_io_def split: prod.splits outcome.splits)
  from on_core_Ret [OF m] obtain ctx P' where ctx: "c1 = ?c\<lparr>a_ctx := ctx\<rparr>"
    "usmp_connect P' M t (a_ctx ?c) = (case r of Inr x \<Rightarrow> Ret x | Inl rc \<Rightarrow> Raise rc, ctx)" by blast
  have live: "c_established ctx \<longleftrightarrow> \<not> isl r" using usmp_connect_live [OF ctx(2)] by (cases r) auto
  show ?thesis
  proof (cases r)
    case Inl
    with run init wifi m have c': "c' = c1" "ok = False" by (auto simp: arduino_begin_def bind_io_def)
    with Inl live ctx(1) have "\<not> established c'" by simp
    then have "ended c ok c' = (if established c then 1 else 0)" by (simp add: ended_def)
    moreover have "reported ?n c'" using Inl live ctx(1) c0 c' reported_idle [OF c0(1), of c1] by auto
    ultimately show ?thesis by simp
  next
    case Inr
    let ?d = "c1\<lparr>a_initialized := True, a_backoff_ms := 2000, a_last_attempt_ms := 0, a_rx_buf := []\<rparr>"
    have c': "c' = fire On_connect Connected ?d" "ok = True"
      using run init wifi m Inr by (auto simp: arduino_begin_def bind_io_def)
    have "established ?d" using live ctx(1) Inr by simp
    then have "reported ?n c'" using reported_connect(2) [OF c0, of ?d] ctx(1) c'(1) by simp
    then show ?thesis by (simp add: ended_def c'(2))
  qed
qed

lemma do_reconnect_runs:
  assumes run: "do_reconnect P M c = (Ret ok, c')" and c: "reported n c"
  shows "\<exists>d. reported (n + ended c ok c') d \<and> (ok \<longrightarrow> \<not> established d \<and> established c') \<and> (\<not> ok \<longrightarrow> d = c')
    \<and> a_handlers c' = a_handlers d \<and> a_calls c' = a_calls d \<and> a_backoff_ms c' = a_backoff_ms d \<and> a_backoff_ms d = a_backoff_ms c"
proof -
  let ?c = "apply_psk c" and ?d = "c\<lparr>a_ctx := disconnect (a_ctx c)\<rparr>"
  obtain r where m: "on_core P (\<lambda>P. usmp_reconnect P M) ?c = (Ret r, c')" and ok: "ok = (\<not> isl r)"
    using run by (auto simp: do_reconnect_def bind_io_def split: prod.splits outcome.splits)
  from on_core_Ret [OF m] obtain ctx P' where ctx: "c' = ?c\<lparr>a_ctx := ctx\<rparr>"
    "usmp_reconnect P' M (a_ctx ?c) = (case r of Inr x \<Rightarrow> Ret x | Inl rc \<Rightarrow> Raise rc, ctx)" by blast
  have live: "ok \<longrightarrow> c_established ctx" "c_established ctx \<longrightarrow> ok \<or> established c"
    using usmp_reconnect_live [OF ctx(2)] ok by (cases r; simp add: apply_psk_def)+
  show ?thesis
  proof (cases ok)
    case True
    have "reported (n + (if established c then 1 else 0)) ?d"
      using reported_ended [OF c, of ?d] by (simp add: disconnect_def)
    with True live ctx(1) show ?thesis
      by (intro exI [of _ ?d]) (simp add: ended_def apply_psk_def disconnect_def)
  next
    case False
    with c live ctx(1) have "reported (n + ended c ok c') c'" by (simp add: reported_def ended_def apply_psk_def)
    with False ctx(1) show ?thesis by (intro exI [of _ c']) (simp add: apply_psk_def)
  qed
qed

lemma reported_reconnect:
  assumes run: "arduino_reconnect P M c = (Ret ok, c')" and c: "reported n c"
  shows "reported (n + ended c ok c') c'"
proof -
  obtain c1 where m: "do_reconnect P M c = (Ret ok, c1)"
    and c': "c' = (if ok then fire On_connect Connected (fire On_reconnect Reconnected c1) else c1)"
    using run by (auto simp: arduino_reconnect_def bind_io_def split: prod.splits outcome.splits)
  have same: "ended c ok c' = ended c ok c1" by (simp add: c' ended_def)
  from do_reconnect_runs [OF m c] obtain d where d: "reported (n + ended c ok c1) d" "ok \<longrightarrow> \<not> established d \<and> established c1"
    "\<not> ok \<longrightarrow> d = c1" "a_handlers c1 = a_handlers d" "a_calls c1 = a_calls d" "a_backoff_ms c1 = a_backoff_ms d" by blast
  show ?thesis
  proof (cases ok)
    case True
    then have "reported (n + ended c ok c1) (fire On_connect Connected (fire On_reconnect Reconnected c1))"
      using d by (intro reported_connect(1) [OF d(1)]) simp_all
    then show ?thesis unfolding same using True c' by simp
  next
    case False
    then show ?thesis unfolding same using d(1,3) c' by simp
  qed
qed

lemma reported_close:
  assumes run: "arduino_close P M c = (Ret (), c')" and c: "reported n c"
  shows "reported (n + ended c False c') c'"
proof -
  obtain r c1 where m: "on_core P (\<lambda>P. usmp_close P M) c = (Ret r, c1)"
    and c': "c' = c1\<lparr>a_freed := (a_freed c1 \<or> a_hooks c1), a_rx_buf := [], a_initialized := False\<rparr>"
    using run by (auto simp: arduino_close_def bind_io_def split: prod.splits outcome.splits)
  from on_core_Ret [OF m] obtain ctx P' where ctx: "c1 = c\<lparr>a_ctx := ctx\<rparr>"
    "usmp_close P' M (a_ctx c) = (case r of Inr x \<Rightarrow> Ret x | Inl rc \<Rightarrow> Raise rc, ctx)" by blast
  have "\<not> c_established ctx" using usmp_close_dead [of P' M "a_ctx c"] ctx(2) by (cases r) auto
  with c' ctx(1) reported_ended [OF c, of c'] show ?thesis by (simp add: ended_def)
qed

lemma reported_maintain_dead:
  assumes run: "maintain_dead P M c = (Ret (), c')" and c: "reported n c" "\<not> established c"
  shows "reported n c'"
proof -
  obtain now t where now: "p_millis P (c_transport (a_ctx c)) = (now, t)" by fastforce
  let ?c = "c\<lparr>a_ctx := (a_ctx c)\<lparr>c_transport := t\<rparr>\<rparr>"
  have c0: "reported n ?c" "\<not> established ?c" using reported_idle [OF c(1), of ?c] c(2) by auto
  show ?thesis
  proof (cases "now - a_last_attempt_ms c < a_backoff_ms c")
    case True
    with run now c0 show ?thesis by (simp add: maintain_dead_def bind_io_def arduino_millis_def)
  next
    case False
    let ?d = "?c\<lparr>a_last_attempt_ms := now\<rparr>"
    have d: "reported n ?d" "\<not> established ?d" using c0 by simp_all
    obtain ok c1 where m: "do_reconnect P M ?d = (Ret ok, c1)"
      and c': "c' = (if ok then fire On_connect Connected (fire On_reconnect Reconnected (c1\<lparr>a_backoff_ms := 2000\<rparr>))
         else c1\<lparr>a_backoff_ms := back_off (a_backoff_ms c1)\<rparr>)"
      using run now False
      by (auto simp: maintain_dead_def bind_io_def arduino_millis_def split: prod.splits outcome.splits)
    have "ended ?d ok c1 = 0" using d(2) by (simp add: ended_def)
    with do_reconnect_runs [OF m d(1)] obtain c2 where c2: "reported n c2" "ok \<longrightarrow> \<not> established c2 \<and> established c1"
      "\<not> ok \<longrightarrow> c2 = c1" "a_handlers c1 = a_handlers c2" "a_calls c1 = a_calls c2" by auto
    show ?thesis
    proof (cases ok)
      case True
      with c' c2 reported_connect(1) [of n c2 "c1\<lparr>a_backoff_ms := 2000\<rparr>"] show ?thesis by simp
    next
      case False
      then have "back_off (a_backoff_ms c1) \<in> {2000, 4000, 8000, 16000, 32000}"
        using c2(1,3) by (intro back_off_values) (simp add: reported_def)
      with c' c2(1,3) False reported_idle [OF c2(1), of c'] show ?thesis by auto
    qed
  qed
qed

lemma reported_maintain:
  assumes run: "arduino_maintain P M fuel c = (Ret (), c')" and c: "reported n c"
  shows "reported n c'"
proof (cases "a_initialized c \<and> established c")
  case False
  with run c reported_maintain_dead show ?thesis by (auto simp: arduino_maintain_def split: if_splits)
next
  case True
  obtain r c1 where m: "on_core P (\<lambda>P. usmp_keepalive_tick P M) c = (Ret r, c1)"
    using run True by (auto simp: arduino_maintain_def bind_io_def split: prod.splits outcome.splits)
  show ?thesis
  proof (cases r)
    case Inl
    with run True m on_core_Ret [OF m] reported_lost [OF c] show ?thesis by (auto simp: arduino_maintain_def bind_io_def)
  next
    case (Inr x)
    note c1 = on_core_live(1) [OF m [unfolded Inr] keeps_live_keepalive c]
    obtain c2 where "drain_rx P M fuel c1 = (Ret (), c2)" "c' = deliver c2"
      using run True m Inr by (auto simp: arduino_maintain_def bind_io_def split: prod.splits outcome.splits)
    then show ?thesis using reported_drain c1 reported_deliver by blast
  qed
qed

lemma reported_available: "arduino_available P M fuel c = (Ret yes, c') \<Longrightarrow> reported n c \<Longrightarrow> reported n c'"
  by (auto simp: arduino_available_def bind_io_def dest: reported_drain split: prod.splits outcome.splits)

lemma reported_read: "arduino_read P M fuel c = (Ret msg, c') \<Longrightarrow> reported n c \<Longrightarrow> reported n c'"
  by (auto simp: arduino_read_def bind_io_def dest: reported_drain split: prod.splits outcome.splits)

lemma reported_step: "arduino_step P M x y \<Longrightarrow> reported (fst x) (snd x) \<Longrightarrow> reported (fst y) (snd y)"
proof (induction rule: arduino_step.induct)
  case (sets_keepalive n c ms)
  then show ?case using reported_idle [of n c "arduino_keepalive ms c"] by (simp add: arduino_keepalive_def)
next
  case (registers given cb n c)
  then show ?case by (auto simp: reported_def arduino_on_def)
next
  case (begins wifi init c ok c' n)
  then show ?case using reported_begin by fastforce
next
  case (reconnects c ok c' n)
  then show ?case using reported_reconnect by fastforce
next
  case (closes c c' n)
  then show ?case using reported_close by fastforce
next
  case (sends data c ok c' n)
  then show ?case using reported_send by fastforce
next
  case (asks fuel c yes c' n)
  then show ?case using reported_available by fastforce
next
  case (reads fuel c msg c' n)
  then show ?case using reported_read by fastforce
next
  case (maintains fuel c c' n)
  then show ?case using reported_maintain by fastforce
qed

text \<open>
  The loop of \<open>_drain_rx\<close> ends when every empty message takes something from what can still arrive, a
  measure \<open>left\<close> of the context: one unit of fuel more than that is enough.
\<close>

lemma drain_rx_returns:
  assumes linked: "a_linked c" "\<not> a_freed c" and fuel: "left (a_ctx c) < fuel"
    and returns: "\<And>ctx. fst (usmp_recv P M 1808 ctx) \<noteq> Blocked"
    and empty: "\<And>ctx ctx'. usmp_recv P M 1808 ctx = (Ret [], ctx') \<Longrightarrow> left ctx' < left ctx"
    and asks: "\<And>f ctx n t. t_available P = Some f \<Longrightarrow> f (c_transport ctx) = (n, t) \<Longrightarrow> left (ctx\<lparr>c_transport := t\<rparr>) \<le> left ctx"
  shows "\<exists>c'. drain_rx P M fuel c = (Ret (), c')"
  using linked fuel
proof (induction fuel arbitrary: c)
  case (Suc fuel)
  show ?case
  proof (cases "\<not> established c \<or> a_rx_buf c \<noteq> [] \<or> \<not> a_hooks c \<or> t_available P = None")
    case False
    then obtain f where f: "t_available P = Some f" by auto
    obtain n t where n: "f (c_transport (a_ctx c)) = (n, t)" by fastforce
    obtain r ctx where r: "usmp_recv P M 1808 ((a_ctx c)\<lparr>c_transport := t\<rparr>) = (r, ctx)" by fastforce
    have "r \<noteq> Blocked" using returns [of "(a_ctx c)\<lparr>c_transport := t\<rparr>"] r by simp
    moreover have "\<exists>c'. drain_rx P M fuel (c\<lparr>a_ctx := ctx\<rparr>) = (Ret (), c')" if "r = Ret []"
      using Suc.IH [of "c\<lparr>a_ctx := ctx\<rparr>"] Suc.prems empty [of _ ctx] asks [OF f n] r that by fastforce
    ultimately show ?thesis
      using False f n r Suc.prems(1,2)
      by (cases r) (auto simp: bind_io_def on_core_def linked_hooks_def on_device_def)
  qed (auto split: option.splits)
qed simp

section \<open>What is shown\<close>

text \<open>
  C39: the Arduino client reports its sessions, but not those that the sketch ends: whatever a sketch does with
  its client, in any order, and whatever the transport does, \<open>onConnect\<close> has been called once for every
  session, and \<open>onDisconnect\<close> once for every session that was lost, but for none of those, \<open>n\<close> in number, that were
  ended by \<open>close\<close> or because the sketch called \<open>begin\<close> or \<open>reconnect\<close> while it had a session; and the
  delay between attempts to reconnect is two seconds, doubled at most four times.
\<close>

theorem arduino_reports_sessions:
  assumes "(arduino_step P M)\<^sup>*\<^sup>* (0, arduino_client psk handlers t) (n, c)" and "{On_connect, On_disconnect} \<subseteq> handlers"
  shows "count_list (a_calls c) Connected = count_list (a_calls c) Disconnected + n + (if established c then 1 else 0)
    \<and> a_backoff_ms c \<in> {2000, 4000, 8000, 16000, 32000}"
proof -
  have "reported (fst (n, c)) (snd (n, c))"
    using assms(1)
  proof (induction "(n, c)" arbitrary: n c rule: rtranclp_induct)
    case base
    show ?case using assms(2) by (simp add: reported_def arduino_client_def cleared_ctx_def)
  next
    case (step y)
    then show ?case using reported_step [OF step(2)] by (cases y) simp
  qed
  then show ?thesis by (simp add: reported_def)
qed

text \<open>
  A sketch that reconnects while it has a session is not told that the session is gone: if the new handshake
  fails, it is not called at all, and its last news is that it is connected; if it succeeds, \<open>onConnect\<close> is called a
  second time with no \<open>onDisconnect\<close> between.
\<close>

lemma reconnect_drops_silently:
  assumes "arduino_reconnect P M c = (Ret ok, c')" and "t_reconnect P \<noteq> None" and "a_linked c"
    and "{On_connect, On_disconnect, On_reconnect} \<subseteq> a_handlers c"
  shows "established c' = ok \<and> a_calls c' = a_calls c @ (if ok then [Reconnected, Connected] else [])"
proof -
  obtain c1 where m: "do_reconnect P M c = (Ret ok, c1)"
    and c': "c' = (if ok then fire On_connect Connected (fire On_reconnect Reconnected c1) else c1)"
    using assms(1) by (auto simp: arduino_reconnect_def bind_io_def split: prod.splits outcome.splits)
  obtain r where r: "on_core P (\<lambda>P. usmp_reconnect P M) (apply_psk c) = (Ret r, c1)" "ok = (\<not> isl r)"
    using m by (auto simp: do_reconnect_def bind_io_def split: prod.splits outcome.splits)
  obtain out ctx where run: "usmp_reconnect P M (a_ctx (apply_psk c)) = (out, ctx)" by fastforce
  have "linked_hooks P (apply_psk c) = P" using assms(3) by (simp add: linked_hooks_def apply_psk_def)
  then have c1: "c1 = (apply_psk c)\<lparr>a_ctx := ctx\<rparr>" "ok \<longleftrightarrow> (\<exists>u. out = Ret u)"
    using r run by (auto simp: on_core_def split: if_splits outcome.splits)
  with usmp_redials_live [OF run assms(2)] have "established c1 = ok" by simp
  with c' c1(1) assms(4) show ?thesis by (auto simp: fire_def apply_psk_def)
qed

text \<open>A session that a message of 2000 bytes ends.\<close>

lemma arduino_begin_linked:
  assumes "usmp_connect P M t ((cleared_ctx t)\<lparr>c_device_psk := Some (a_psk c)\<rparr>) = (Ret (), ctx)"
  shows "\<exists>c'. arduino_begin P M None (Some t) c = (Ret True, c') \<and> a_ctx c' = ctx \<and> a_handlers c' = a_handlers c
    \<and> a_calls c' = (if On_connect \<in> a_handlers c then a_calls c @ [Connected] else a_calls c)
    \<and> a_linked c' \<and> a_hooks c' \<and> \<not> a_freed c' \<and> a_psk c' = a_psk c"
  using assms
  by (simp add: arduino_begin_def bind_io_def on_core_def apply_psk_def linked_hooks_def fire_def)

lemma arduino_send_overlong:
  assumes "established c" and "a_linked c \<longrightarrow> \<not> a_freed c" and "1808 < length data" and "length data < 65536"
  shows "arduino_send P M data c = (Ret False, lost c)"
proof -
  have "\<exists>rc ctx. usmp_send (linked_hooks P c) M data (a_ctx c) = (Raise rc, ctx) \<and> ctx \<in> {a_ctx c, disconnect (a_ctx c)}"
    using assms(1,3) by (auto simp: usmp_send_def if_connected_def Let_def fail_closed_def bind_io_def)
  then obtain rc ctx where run: "usmp_send (linked_hooks P c) M data (a_ctx c) = (Raise rc, ctx)"
    "ctx \<in> {a_ctx c, disconnect (a_ctx c)}" by blast
  have "lost (c\<lparr>a_ctx := ctx\<rparr>) = lost c" using run(2) by (auto simp: lost_def disconnect_def)
  with assms run(1) show ?thesis by (auto simp: arduino_send_def bind_io_def on_core_def)
qed

text \<open>
  C40: what the Arduino client does with long messages: one of more than 1808 bytes ends a session that
  works, because the client takes every error of the core for a loss of the connection; and of
  one of 65536 bytes or more, whose length the core takes as a 16-bit number, only the first
  bytes are sent, with the result of a message that is no longer than those.
\<close>

theorem arduino_long_messages:
  assumes "established c" and "a_linked c \<longrightarrow> \<not> a_freed c" and "length data = 65536 * k + n" and "n < 65536"
  shows "(k = 0 \<and> 1808 < n \<longrightarrow> arduino_send P M data c = (Ret False, lost c) \<and> \<not> established (lost c))
    \<and> (k > 0 \<longrightarrow> arduino_send P M data c = arduino_send P M (take n data) c)"
proof -
  have "length data mod 65536 = n" using assms(3,4) by simp
  moreover have "length (take n data) mod 65536 = n" using assms(3,4) by (simp add: min_def)
  ultimately show ?thesis
    using arduino_send_overlong [OF assms(1,2), of data] assms(3,4)
    by (auto simp: arduino_send_def lost_def fire_def disconnect_def)
qed

text \<open>
  After \<open>close\<close> the core still has the pointer to the transport object that \<open>close\<close> has deleted: closing
  again, as the destructor does, or reconnecting uses it.
\<close>

lemma arduino_close_twice:
  assumes "a_linked c" and "a_hooks c" and "arduino_close P M c = (Ret (), c1)"
  shows "fst (arduino_close P M c1) = Raise Use_after_free" and "fst (arduino_reconnect P M c1) = Raise Use_after_free"
proof -
  have "a_linked c1 \<and> a_freed c1"
    using assms by (auto simp: arduino_close_def bind_io_def on_core_def split: if_splits prod.splits outcome.splits)
  then show "fst (arduino_close P M c1) = Raise Use_after_free" "fst (arduino_reconnect P M c1) = Raise Use_after_free"
    by (simp_all add: arduino_close_def arduino_reconnect_def do_reconnect_def bind_io_def on_core_def apply_psk_def)
qed

text \<open>A sketch that begins over the TCP transport of the ESP32 port, and whose session is made.\<close>

lemma demo_connects:
  "\<exists>t ctx. usmp_connect usmp_transport_tcp (mbedtls_of demo_crypto) t
     ((cleared_ctx t)\<lparr>c_device_psk := Some (replicate 16 9)\<rparr>) = (Ret (), ctx) \<and> c_established ctx"
proof -
  obtain k1 k2 where keys: "derive_session_keys demo_crypto demo_priv (x_public demo_crypto (r_private demo_random))
      (r_nonce demo_random) (x_public demo_crypto demo_priv) (x_public demo_crypto (r_private demo_random)) = Inr (k1, k2)"
    using demo_device_keys by blast
  have psk: "resolve_psk (Psk_bytes (replicate 16 9)) (replicate 6 1) = Inr (replicate 16 9)"
    by (simp add: resolve_psk_def find_psk_def)
  have lens: "length (replicate 6 (1 :: byte)) = 6" "length (r_nonce demo_random) = 32" "length (r_session_id demo_random) = 16"
    by (simp_all add: demo_random_def)
  have free: "\<not> locked_out [] (limiter_key_of (Peer_addr ''h'' 1) 0) 0" "fst (tick (0, [])) = 0"
    by (simp_all add: locked_out_def)
  from esp_handshake_agrees [OF mbedtls_of_law [OF demo_crypto_laws(1)] demo_crypto_laws(3,4,2) lens psk keys free, of False]
  obtain s1 :: "tcp_transport server_side" where device: "\<forall>t. esp_up t \<and> e_mac t = replicate 6 1 \<and> map (e_random t) [0..<32] = demo_priv
        \<and> esp_pending t = tcp_out (h_transport s1)
       \<longrightarrow> (\<exists>t1. usmp_handshake usmp_transport_tcp (mbedtls_of demo_crypto) (Some (replicate 16 9)) t
            = (Ret \<lparr>hs_device_id = replicate 6 1, hs_session_id = r_session_id demo_random, hs_tx_key = k1, hs_rx_key = k2\<rparr>, t1)
          \<and> esp_up t1 \<and> esp_pending t1 = []
          \<and> e_out t1 = e_out t @ device_hellos demo_crypto demo_random (replicate 16 9) (replicate 6 1) demo_priv)"
    by (elim exE conjE) (rule that; assumption)
  let ?t = "demo_dialed (tcp_out (h_transport s1))"
  obtain t1 where "usmp_handshake usmp_transport_tcp (mbedtls_of demo_crypto) (Some (replicate 16 9)) ?t
      = (Ret \<lparr>hs_device_id = replicate 6 1, hs_session_id = r_session_id demo_random, hs_tx_key = k1, hs_rx_key = k2\<rparr>, t1)"
    "esp_up t1" using device demo_dialed_simps by blast
  with esp_link.usmp_connect_stream [of "mbedtls_of demo_crypto" "(cleared_ctx ?t)\<lparr>c_device_psk := Some (replicate 16 9)\<rparr>" ?t]
  show ?thesis by auto
qed

text \<open>A sketch that begins twice: two sessions, of which the first is ended and not reported.\<close>

theorem arduino_reports_sessions_witness:
  "\<exists>t c. (arduino_step usmp_transport_tcp (mbedtls_of demo_crypto))\<^sup>*\<^sup>*
       (0, arduino_client (replicate 16 9) {On_connect, On_disconnect} t) (1, c)
     \<and> established c \<and> a_calls c = [Connected, Connected]
     \<and> count_list (a_calls c) Connected = count_list (a_calls c) Disconnected + 1 + 1"
proof -
  let ?P = usmp_transport_tcp and ?M = "mbedtls_of demo_crypto"
  obtain t ctx where connect: "usmp_connect ?P ?M t ((cleared_ctx t)\<lparr>c_device_psk := Some (replicate 16 9)\<rparr>) = (Ret (), ctx)"
    "c_established ctx" using demo_connects by blast
  let ?c = "arduino_client (replicate 16 9) {On_connect, On_disconnect} t"
  obtain c1 where c1: "arduino_begin ?P ?M None (Some t) ?c = (Ret True, c1)" "a_ctx c1 = ctx" "a_handlers c1 = a_handlers ?c"
    "a_calls c1 = [Connected]" "a_psk c1 = a_psk ?c"
    using arduino_begin_linked [of ?P ?M t ?c ctx] connect(1) by (auto simp: arduino_client_def)
  obtain c2 where c2: "arduino_begin ?P ?M None (Some t) c1 = (Ret True, c2)" "a_ctx c2 = ctx" "a_calls c2 = [Connected, Connected]"
    using arduino_begin_linked [of ?P ?M t c1 ctx] connect(1) c1 by (auto simp: arduino_client_def)
  have "\<not> established ?c" by (simp add: arduino_client_def cleared_ctx_def)
  then have "arduino_step ?P ?M (0, ?c) (0, c1)" "arduino_step ?P ?M (0, c1) (1, c2)"
    using arduino_step.begins [OF c1(1), of 0] arduino_step.begins [OF c2(1), of 0] c1(2) connect(2) by (simp_all add: ended_def)
  then have run: "(arduino_step ?P ?M)\<^sup>*\<^sup>* (0, ?c) (1, c2)" by (meson converse_rtranclp_into_rtranclp r_into_rtranclp)
  from arduino_reports_sessions [OF run order_refl] connect(2) c2(2,3) run show ?thesis
    by (intro exI [of _ t] exI [of _ c2]) simp
qed

theorem arduino_long_messages_witness:
  "\<exists>c. established c \<and> arduino_send usmp_transport_tcp (mbedtls_of demo_crypto) (replicate 2000 7) c = (Ret False, lost c)
     \<and> arduino_send usmp_transport_tcp (mbedtls_of demo_crypto) (replicate 65539 7) c
       = arduino_send usmp_transport_tcp (mbedtls_of demo_crypto) (replicate 3 7) c"
proof -
  let ?c = "(arduino_client [] {} (demo_esp []))\<lparr>a_ctx := demo_device []\<rparr>"
  have c: "established ?c" "a_linked ?c \<longrightarrow> \<not> a_freed ?c" by (simp_all add: arduino_client_def)
  have "length (replicate 2000 (7 :: byte)) = 65536 * 0 + 2000" "length (replicate 65539 (7 :: byte)) = 65536 * 1 + 3"
    by simp_all
  from arduino_long_messages [OF c this(1)] arduino_long_messages [OF c this(2)] c(1) show ?thesis
    by (intro exI [of _ ?c]) (simp add: take_replicate)
qed

end
