(* ===== verification/Regex.thy ===== *)
theory Regex
  imports Prelude
begin

text \<open>
  What the release scripts use of Python's \<open>re\<close> module and of \<open>str\<close>: a backtracking matcher.
  A match state is the text before the position, reversed, the text after it, and capture
  group 1.  \<open>matches\<close> lists the states in which a pattern can end, in the order in which
  Python's engine tries them: greedy repetitions longest first, lazy ones shortest first.
  The patterns of the program repeat only character classes.  Characters are those up to
  \<open>U+00FF\<close>, among which the decimal digits are the ASCII ones.
\<close>

section \<open>Characters and strings\<close>

definition is_space :: "char \<Rightarrow> bool" where
  "is_space c = (let n = of_char c :: nat in 9 \<le> n \<and> n \<le> 13 \<or> 28 \<le> n \<and> n \<le> 32 \<or> n = 133 \<or> n = 160)"

definition is_digit :: "char \<Rightarrow> bool" where
  "is_digit c = (let n = of_char c :: nat in 48 \<le> n \<and> n \<le> 57)"

definition is_alnum :: "char \<Rightarrow> bool" where
  "is_alnum c = (let n = of_char c :: nat in 48 \<le> n \<and> n \<le> 57 \<or> 65 \<le> n \<and> n \<le> 90 \<or> 97 \<le> n \<and> n \<le> 122)"

abbreviation newline :: char where "newline \<equiv> CHR 0x0A"

text \<open>\<open>str.strip\<close>, \<open>str.removeprefix\<close>, \<open>str.startswith\<close>.\<close>

definition strip :: "string \<Rightarrow> string" where
  "strip s = rev (dropWhile is_space (rev (dropWhile is_space s)))"

definition startswith :: "string \<Rightarrow> string \<Rightarrow> bool" where
  "startswith s p \<longleftrightarrow> take (length p) s = p"

definition removeprefix :: "string \<Rightarrow> string \<Rightarrow> string" where
  "removeprefix s p = (if startswith s p then drop (length p) s else s)"

lemma is_space_simps [simp]: "\<not> is_space CHR ''[''" "\<not> is_space CHR ''#''" "is_space newline" "\<not> is_space CHR ''-''"
  "is_space CHR '' ''"
  by (simp_all add: is_space_def)

lemma strip_last: "strip s \<noteq> [] \<Longrightarrow> \<not> is_space (last (strip s))"
  unfolding strip_def by (metis hd_dropWhile last_rev rev_is_Nil_conv)

lemma startswith_iff: "startswith s t \<longleftrightarrow> (\<exists>u. s = t @ u)"
  by (metis append_eq_conv_conj append_take_drop_id startswith_def)

lemma startswith_append [simp]: "startswith (t @ u) t" "startswith s []"
  by (simp_all add: startswith_def)

lemma startswith_Cons [simp]: "startswith (c # s) (d # t) \<longleftrightarrow> c = d \<and> startswith s t" "\<not> startswith [] (d # t)"
  by (auto simp: startswith_def)

lemma removeprefix_append [simp]: "removeprefix (t @ u) t = u"
  by (simp add: removeprefix_def)

section \<open>Patterns\<close>

datatype regex =
    Empty
  | Class "char \<Rightarrow> bool"
  | Seq regex regex
  | Alt regex regex
  | Optional regex          \<comment> \<open>\<open>r?\<close>\<close>
  | Many "char \<Rightarrow> bool"     \<comment> \<open>\<open>[c]*\<close>\<close>
  | Few "char \<Rightarrow> bool"      \<comment> \<open>\<open>[c]*?\<close>\<close>
  | Group regex             \<comment> \<open>\<open>(r)\<close>, group 1\<close>
  | Ahead regex             \<comment> \<open>\<open>(?=r)\<close>\<close>
  | Text_start                   \<comment> \<open>\<open>^\<close>\<close>
  | End                     \<comment> \<open>\<open>$\<close>\<close>
  | Line_start              \<comment> \<open>\<open>^\<close> under \<open>(?m)\<close>\<close>
  | Line_end                \<comment> \<open>\<open>$\<close> under \<open>(?m)\<close>\<close>
  | Text_end                \<comment> \<open>\<open>\Z\<close>\<close>

text \<open>\<open>[c]+\<close>.\<close>

definition Some_of :: "(char \<Rightarrow> bool) \<Rightarrow> regex" where
  "Some_of p = Seq (Class p) (Many p)"

primrec literal :: "string \<Rightarrow> regex" where
  "literal [] = Empty"
| "literal (c # s) = Seq (Class ((=) c)) (literal s)"

primrec sequence :: "regex list \<Rightarrow> regex" where
  "sequence [] = Empty"
| "sequence (r # rs) = Seq r (sequence rs)"

type_synonym match_state = "string \<times> string \<times> string option"

fun many :: "(char \<Rightarrow> bool) \<Rightarrow> string \<Rightarrow> string \<Rightarrow> (string \<times> string) list" where
  "many p b [] = [(b, [])]"
| "many p b (c # s) = (if p c then many p (c # b) s @ [(b, c # s)] else [(b, c # s)])"

fun few :: "(char \<Rightarrow> bool) \<Rightarrow> string \<Rightarrow> string \<Rightarrow> (string \<times> string) list" where
  "few p b [] = [(b, [])]"
| "few p b (c # s) = (b, c # s) # (if p c then few p (c # b) s else [])"

primrec matches :: "regex \<Rightarrow> match_state \<Rightarrow> match_state list" where
  "matches Empty m = [m]"
| "matches (Class p) m =
     (case m of (b, c # s, g) \<Rightarrow> if p c then [(c # b, s, g)] else [] | _ \<Rightarrow> [])"
| "matches (Seq r1 r2) m = concat (map (matches r2) (matches r1 m))"
| "matches (Alt r1 r2) m = matches r1 m @ matches r2 m"
| "matches (Optional r) m = matches r m @ [m]"
| "matches (Many p) m = (case m of (b, s, g) \<Rightarrow> map (\<lambda>(b', s'). (b', s', g)) (many p b s))"
| "matches (Few p) m = (case m of (b, s, g) \<Rightarrow> map (\<lambda>(b', s'). (b', s', g)) (few p b s))"
| "matches (Group r) m =
     map (\<lambda>(b', s', _). (b', s', Some (take (length (fst (snd m)) - length s') (fst (snd m))))) (matches r m)"
| "matches (Ahead r) m = (if matches r m = [] then [] else [m])"
| "matches Text_start m = (if fst m = [] then [m] else [])"
| "matches End m = (if fst (snd m) = [] \<or> fst (snd m) = [newline] then [m] else [])"
| "matches Line_start m = (if fst m = [] \<or> hd (fst m) = newline then [m] else [])"
| "matches Line_end m = (if fst (snd m) = [] \<or> hd (fst (snd m)) = newline then [m] else [])"
| "matches Text_end m = (if fst (snd m) = [] then [m] else [])"

text \<open>\<open>re.match\<close> and \<open>re.search\<close>: the first state at the start, or at the leftmost position that has one.\<close>

definition re_match :: "regex \<Rightarrow> string \<Rightarrow> match_state option" where
  "re_match r s = (case matches r ([], s, None) of [] \<Rightarrow> None | m # _ \<Rightarrow> Some m)"

fun search_from :: "regex \<Rightarrow> string \<Rightarrow> string \<Rightarrow> match_state option" where
  "search_from r b s =
     (case matches r (b, s, None) of
        m # _ \<Rightarrow> Some m
      | [] \<Rightarrow> (case s of [] \<Rightarrow> None | c # s' \<Rightarrow> search_from r (c # b) s'))"

definition re_search :: "regex \<Rightarrow> string \<Rightarrow> match_state option" where
  "re_search r s = search_from r [] s"

declare search_from.simps [simp del]

text \<open>\<open>m.group(1)\<close> of a match.\<close>

definition group1 :: "match_state \<Rightarrow> string" where
  "group1 m = (case m of (_, _, g) \<Rightarrow> the g)"

text \<open>\<open>re.sub\<close>: every match, from the left, is replaced; after an empty one the next character is copied.\<close>

function sub_from :: "regex \<Rightarrow> string \<Rightarrow> string \<Rightarrow> string \<Rightarrow> string" where
  "sub_from r repl b s =
     (case matches r (b, s, None) of
        (b', s', _) # _ \<Rightarrow>
          if length s' < length s then repl @ sub_from r repl b' s'
          else repl @ (case s of [] \<Rightarrow> [] | c # cs \<Rightarrow> c # sub_from r repl (c # b) cs)
      | [] \<Rightarrow> (case s of [] \<Rightarrow> [] | c # cs \<Rightarrow> c # sub_from r repl (c # b) cs))"
  by pat_completeness auto
termination
  by (relation "measure (\<lambda>(r, repl, b, s). length s)") auto

declare sub_from.simps [simp del]

definition re_sub :: "regex \<Rightarrow> string \<Rightarrow> string \<Rightarrow> string" where
  "re_sub r repl s = sub_from r repl [] s"

section \<open>What a pattern matches\<close>

text \<open>The states a pattern can end in, without their order.\<close>

lemma in_many: "(b', s') \<in> set (many p b s) \<longleftrightarrow> (\<exists>xs. s = xs @ s' \<and> b' = rev xs @ b \<and> list_all p xs)"
proof (induction p b s rule: many.induct)
  case (2 p b c s)
  show ?case
  proof
    assume "(b', s') \<in> set (many p b (c # s))"
    then consider "p c" "(b', s') \<in> set (many p (c # b) s)" | "b' = b" "s' = c # s" by (auto split: if_splits)
    then show "\<exists>xs. c # s = xs @ s' \<and> b' = rev xs @ b \<and> list_all p xs"
    proof cases
      case 1
      with 2 obtain xs where "s = xs @ s'" "b' = rev xs @ c # b" "list_all p xs" by auto
      with 1 show ?thesis by (intro exI [of _ "c # xs"]) simp
    qed auto
  next
    assume "\<exists>xs. c # s = xs @ s' \<and> b' = rev xs @ b \<and> list_all p xs"
    then obtain xs where "c # s = xs @ s'" "b' = rev xs @ b" "list_all p xs" by blast
    with 2 show "(b', s') \<in> set (many p b (c # s))" by (cases xs) auto
  qed
qed auto

lemma in_few: "(b', s') \<in> set (few p b s) \<longleftrightarrow> (b', s') \<in> set (many p b s)"
  by (induction p b s rule: many.induct) auto

lemma matches_literal:
  "matches (literal t) (b, s, g) = (if startswith s t then [(rev t @ b, drop (length t) s, g)] else [])"
  by (induction t arbitrary: b s) (auto simp: startswith_def split: list.split)

lemma matches_Seq: "m' \<in> set (matches (Seq r1 r2) m) \<longleftrightarrow>
   (\<exists>m1 \<in> set (matches r1 m). m' \<in> set (matches r2 m1))"
  by auto

lemma matches_Class: "m' \<in> set (matches (Class p) (b, s, g)) \<longleftrightarrow> (\<exists>c s'. s = c # s' \<and> p c \<and> m' = (c # b, s', g))"
  by (auto split: list.split)

lemma matches_Many: "m' \<in> set (matches (Many p) (b, s, g)) \<longleftrightarrow>
   (\<exists>xs s'. s = xs @ s' \<and> list_all p xs \<and> m' = (rev xs @ b, s', g))"
  by (simp add: image_iff Bex_def in_many) blast

lemma matches_Some_of: "m' \<in> set (matches (Some_of p) (b, s, g)) \<longleftrightarrow>
   (\<exists>xs s'. xs \<noteq> [] \<and> s = xs @ s' \<and> list_all p xs \<and> m' = (rev xs @ b, s', g))"
proof
  assume "m' \<in> set (matches (Some_of p) (b, s, g))"
  then obtain c s1 xs s' where "s = c # s1" "p c" "s1 = xs @ s'" "list_all p xs" "m' = (rev xs @ c # b, s', g)"
    by (auto simp: Some_of_def matches_Seq matches_Class matches_Many simp del: matches.simps)
  then show "\<exists>xs s'. xs \<noteq> [] \<and> s = xs @ s' \<and> list_all p xs \<and> m' = (rev xs @ b, s', g)"
    by (intro exI [of _ "c # xs"] exI [of _ s']) simp
next
  assume "\<exists>xs s'. xs \<noteq> [] \<and> s = xs @ s' \<and> list_all p xs \<and> m' = (rev xs @ b, s', g)"
  then obtain c xs s' where "s = c # xs @ s'" "p c" "list_all p xs" "m' = (rev xs @ c # b, s', g)"
    by (auto simp: neq_Nil_conv)
  then show "m' \<in> set (matches (Some_of p) (b, s, g))"
    by (auto simp: Some_of_def matches_Seq matches_Class matches_Many simp del: matches.simps)
qed

lemma matches_Group: "m' \<in> set (matches (Group r) (b, s, g)) \<longleftrightarrow>
   (\<exists>b' s' g'. (b', s', g') \<in> set (matches r (b, s, g)) \<and> m' = (b', s', Some (take (length s - length s') s)))"
  by (force simp: image_iff)

lemma matches_rest:
  "m' \<in> set (matches Empty m) \<longleftrightarrow> m' = m"
  "m' \<in> set (matches (Alt r1 r2) m) \<longleftrightarrow> m' \<in> set (matches r1 m) \<or> m' \<in> set (matches r2 m)"
  "m' \<in> set (matches (Optional r) m) \<longleftrightarrow> m' \<in> set (matches r m) \<or> m' = m"
  "m' \<in> set (matches (literal t) (b, s, g)) \<longleftrightarrow> startswith s t \<and> m' = (rev t @ b, drop (length t) s, g)"
  "m' \<in> set (matches Text_start (b, s, g)) \<longleftrightarrow> m' = (b, s, g) \<and> b = []"
  "m' \<in> set (matches End (b, s, g)) \<longleftrightarrow> m' = (b, s, g) \<and> (s = [] \<or> s = [newline])"
  "m' \<in> set (matches Line_start (b, s, g)) \<longleftrightarrow> m' = (b, s, g) \<and> (b = [] \<or> hd b = newline)"
  "m' \<in> set (matches Line_end (b, s, g)) \<longleftrightarrow> m' = (b, s, g) \<and> (s = [] \<or> hd s = newline)"
  "m' \<in> set (matches Text_end (b, s, g)) \<longleftrightarrow> m' = (b, s, g) \<and> s = []"
  by (auto simp: matches_literal)

lemmas match_iffs = matches_Some_of matches_Seq matches_Class matches_Many matches_Group matches_rest

lemma re_match_iff: "re_match r s \<noteq> None \<longleftrightarrow> (\<exists>m. m \<in> set (matches r ([], s, None)))"
  by (cases "matches r ([], s, None)") (auto simp: re_match_def)

lemma append_overlap:
  assumes "a @ s = t @ r"
  obtains us where "a = t @ us" | us where "us \<noteq> []" "t = a @ us" "s = us @ r"
  using assms by (metis append_Nil2 append_eq_append_conv2)

lemma literals_match:
  assumes "m \<in> set (matches (sequence (literal t1 # Some_of p # literal t2 # rs)) (b, s, g))"
  obtains xs r where "s = (t1 @ xs @ t2) @ r" and "list_all p xs"
  using assms
  by (auto simp: matches_Seq matches_Some_of matches_rest(4) startswith_iff simp del: matches.simps)

section \<open>The first match\<close>

text \<open>
  \<open>first r m m'\<close>: the engine ends \<open>r\<close> in \<open>m'\<close> when it does not have to come back to it.  Of a
  sequence that is the sequence of the first matches, if each has one.
\<close>

definition first :: "regex \<Rightarrow> match_state \<Rightarrow> match_state \<Rightarrow> bool" where
  "first r m m' \<longleftrightarrow> (\<exists>ms. matches r m = m' # ms)"

lemma first_matches: "first r m m' \<Longrightarrow> m' \<in> set (matches r m)"
  by (auto simp: first_def)

lemma first_Seq: "first r1 m m1 \<Longrightarrow> first r2 m1 m2 \<Longrightarrow> first (Seq r1 r2) m m2"
  by (auto simp: first_def)

lemma first_sequence:
  "first (sequence []) m m" "first r m m1 \<Longrightarrow> first (sequence rs) m1 m2 \<Longrightarrow> first (sequence (r # rs)) m m2"
  by (auto simp: first_def)

lemma first_Class: "p c \<Longrightarrow> first (Class p) (b, c # s, g) (c # b, s, g)"
  by (simp add: first_def)

lemma first_literal: "first (literal t) (b, t @ s, g) (rev t @ b, s, g)"
  by (simp add: first_def matches_literal startswith_def)

lemma many_longest:
  "list_all p xs \<Longrightarrow> s = [] \<or> \<not> p (hd s) \<Longrightarrow> \<exists>ms. many p b (xs @ s) = (rev xs @ b, s) # ms"
proof (induction xs arbitrary: b)
  case Nil
  then show ?case by (cases s) auto
next
  case (Cons x xs)
  from Cons.IH [of "x # b"] Cons.prems show ?case by fastforce
qed

lemma first_Many:
  "list_all p xs \<Longrightarrow> s = [] \<or> \<not> p (hd s) \<Longrightarrow> first (Many p) (b, xs @ s, g) (rev xs @ b, s, g)"
  using many_longest [of p xs s b] by (auto simp: first_def)

lemma first_Some_of:
  "list_all p xs \<Longrightarrow> xs \<noteq> [] \<Longrightarrow> s = [] \<or> \<not> p (hd s) \<Longrightarrow>
   first (Some_of p) (b, xs @ s, g) (rev xs @ b, s, g)"
  unfolding Some_of_def using first_Seq [OF first_Class first_Many] by (cases xs) fastforce+

lemma first_Optional: "first r m m' \<Longrightarrow> first (Optional r) m m'"
  by (auto simp: first_def)

lemma first_Optional_none: "matches r m = [] \<Longrightarrow> first (Optional r) m m"
  by (simp add: first_def)

lemma first_Group:
  "first r (b, xs @ s, g) (b', s, g') \<Longrightarrow> first (Group r) (b, xs @ s, g) (b', s, Some xs)"
  by (auto simp: first_def)

lemma first_Text_start: "first Text_start ([], s, g) ([], s, g)"
  by (simp add: first_def)

lemma first_End: "s = [] \<or> s = [newline] \<Longrightarrow> first End (b, s, g) (b, s, g)"
  by (auto simp: first_def)

lemma first_Line_start: "b = [] \<or> hd b = newline \<Longrightarrow> first Line_start (b, s, g) (b, s, g)"
  by (auto simp: first_def)

lemma first_Line_end: "s = [] \<or> hd s = newline \<Longrightarrow> first Line_end (b, s, g) (b, s, g)"
  by (auto simp: first_def)

lemma first_re_match: "first r ([], s, None) m \<Longrightarrow> re_match r s = Some m"
  by (auto simp: first_def re_match_def)

lemma search_first: "first r (b, s, None) m \<Longrightarrow> search_from r b s = Some m"
  by (auto simp: first_def search_from.simps)

lemma search_None:
  "search_from r b s = None \<longleftrightarrow> (\<forall>x y. s = x @ y \<longrightarrow> matches r (rev x @ b, y, None) = [])"
proof (induction s arbitrary: b)
  case Nil
  then show ?case by (simp add: search_from.simps split: list.split)
next
  case (Cons c s)
  have "search_from r b (c # s) = None \<longleftrightarrow> matches r (b, c # s, None) = [] \<and> search_from r (c # b) s = None"
    by (simp add: search_from.simps [of r b "c # s"] split: list.split)
  also have "\<dots> \<longleftrightarrow> (\<forall>x y. c # s = x @ y \<longrightarrow> matches r (rev x @ b, y, None) = [])" (is "_ \<longleftrightarrow> ?R")
  proof
    assume l: "matches r (b, c # s, None) = [] \<and> search_from r (c # b) s = None"
    show ?R
    proof (intro allI impI)
      fix x y
      assume "c # s = x @ y"
      with l Cons [of "c # b"] show "matches r (rev x @ b, y, None) = []" by (cases x) auto
    qed
  next
    assume r: ?R
    then have "matches r (rev x @ c # b, y, None) = []" if "s = x @ y" for x y
      using that spec [OF spec [OF r, of "c # x"], of y] by simp
    then show "matches r (b, c # s, None) = [] \<and> search_from r (c # b) s = None"
      using spec [OF spec [OF r, of "[]"], of "c # s"] Cons [of "c # b"] by simp
  qed
  finally show ?case .
qed

text \<open>Text before the first position at which the pattern can match.\<close>

lemma search_skip:
  "(\<And>x y. pre = x @ y \<Longrightarrow> y \<noteq> [] \<Longrightarrow> matches r (rev x @ b, y @ s, None) = []) \<Longrightarrow>
   search_from r b (pre @ s) = search_from r (rev pre @ b) s"
proof (induction pre arbitrary: b)
  case (Cons c pre)
  have "matches r (rev x @ c # b, y @ s, None) = []" if "pre = x @ y" "y \<noteq> []" for x y
    using Cons.prems [of "c # x" y] that by simp
  then have "search_from r (c # b) (pre @ s) = search_from r (rev pre @ c # b) s" by (rule Cons.IH)
  moreover have "matches r (b, c # pre @ s, None) = []" using Cons.prems [of "[]" "c # pre"] by simp
  ultimately show ?case by (simp add: search_from.simps [of r b "c # pre @ s"])
qed simp

text \<open>
  A pattern that starts a line with a literal: lines before it that do not start with the
  literal are passed over.
\<close>

definition unlines :: "string list \<Rightarrow> string" where
  "unlines ls = concat (map (\<lambda>l. l @ [newline]) ls)"

lemma unlines_Cons: "unlines (l # ls) = l @ newline # unlines ls"
  by (simp add: unlines_def)

definition line_pattern :: "regex \<Rightarrow> string \<Rightarrow> bool" where
  "line_pattern r t \<longleftrightarrow> (\<forall>b s g. matches r (b, s, g) \<noteq> [] \<longrightarrow> (b = [] \<or> hd b = newline) \<and> startswith s t)"

lemma line_patternI: "line_pattern (sequence (Line_start # literal t # rs)) t"
  by (auto simp: line_pattern_def matches_literal)

lemma startswith_line:
  "newline \<notin> set t \<Longrightarrow> startswith (l @ newline # s) t \<Longrightarrow> startswith l t"
  by (auto simp: startswith_iff append_eq_append_conv2 Cons_eq_append_conv)

lemma search_lines:
  assumes r: "line_pattern r t" and t: "newline \<notin> set t"
    and ls: "\<forall>l \<in> set ls. newline \<notin> set l \<and> \<not> startswith l t" and b: "b = [] \<or> hd b = newline"
  shows "search_from r b (unlines ls @ s) = search_from r (rev (unlines ls) @ b) s"
  using ls b
proof (induction ls arbitrary: b)
  case (Cons l ls)
  have "matches r (rev x @ b, y @ unlines ls @ s, None) = []" if xy: "l @ [newline] = x @ y" "y \<noteq> []" for x y
  proof (rule ccontr)
    assume "matches r (rev x @ b, y @ unlines ls @ s, None) \<noteq> []"
    with r have m: "rev x @ b = [] \<or> hd (rev x @ b) = newline" "startswith (y @ unlines ls @ s) t"
      by (auto simp: line_pattern_def)
    have "last y = newline" "l = x @ butlast y"
      using xy by (metis last_appendR last_snoc, metis butlast_append butlast_snoc)
    then obtain y' where y: "y = y' @ [newline]" "l = x @ y'"
      using xy(2) append_butlast_last_id by metis
    show False
    proof (cases "x = []")
      case True
      with m(2) y startswith_line [OF t, of l] Cons.prems(1) show False by auto
    next
      case False
      with m(1) have "last x = newline" by (simp add: hd_append hd_rev)
      with False y(2) Cons.prems(1) show False using last_in_set [OF False] by auto
    qed
  qed
  then have "search_from r b ((l @ [newline]) @ unlines ls @ s)
      = search_from r (rev (l @ [newline]) @ b) (unlines ls @ s)"
    by (rule search_skip) simp_all
  with Cons show ?case by (simp add: unlines_Cons)
qed (simp add: unlines_def)

definition before_line :: "string \<Rightarrow> string list \<Rightarrow> bool" where
  "before_line t ls \<longleftrightarrow> (\<forall>l \<in> set ls. newline \<notin> set l \<and> \<not> startswith l t)"

lemma at_line_start: "rev (unlines ls) = [] \<or> hd (rev (unlines ls)) = newline"
  by (cases ls rule: rev_cases) (auto simp: unlines_def)

lemma re_search_line:
  assumes "line_pattern r t" and "newline \<notin> set t" and "before_line t ls"
    and "first r (rev (unlines ls), s, None) m"
  shows "re_search r (unlines ls @ s) = Some m"
  using search_lines [OF assms(1,2), of ls "[]" s] assms(3) search_first [OF assms(4)]
  by (simp add: re_search_def before_line_def)

section \<open>Lazy groups and replacement\<close>

lemma few_first:
  assumes "list_all p xs" and "\<And>y z. xs = y @ z \<Longrightarrow> z \<noteq> [] \<Longrightarrow> f (rev y @ b, z @ s) = []"
  shows "\<exists>ms. concat (map f (few p b (xs @ s))) = f (rev xs @ b, s) @ ms"
  using assms
proof (induction xs arbitrary: b)
  case Nil
  then show ?case by (cases s) auto
next
  case (Cons c xs)
  have "f (b, c # xs @ s) = []" using Cons.prems(2) [of "[]" "c # xs"] by simp
  moreover have "\<exists>ms. concat (map f (few p (c # b) (xs @ s))) = f (rev xs @ c # b, s) @ ms"
    using Cons.prems(1) Cons.prems(2) [of "c # _"] by (intro Cons.IH) auto
  ultimately show ?case using Cons.prems(1) by simp
qed

text \<open>A lazy group ends at the first place where the rest of the pattern matches.\<close>

lemma first_lazy_group:
  assumes "list_all p xs"
    and none: "\<And>y z. xs = y @ z \<Longrightarrow> z \<noteq> [] \<Longrightarrow> matches (sequence rs) (rev y @ b, z @ s, Some y) = []"
    and rest: "first (sequence rs) (rev xs @ b, s, Some xs) m"
  shows "first (sequence (Group (Few p) # rs)) (b, xs @ s, g) m"
proof -
  let ?f = "\<lambda>(b', s'). matches (sequence rs) (b', s', Some (take (length (xs @ s) - length s') (xs @ s)))"
  have "?f (rev y @ b, z @ s) = []" if "xs = y @ z" "z \<noteq> []" for y z using none [OF that] that by simp
  then obtain ms where "concat (map ?f (few p b (xs @ s))) = ?f (rev xs @ b, s) @ ms"
    using few_first [OF assms(1), of ?f b s] by blast
  moreover have "matches (sequence (Group (Few p) # rs)) (b, xs @ s, g) = concat (map ?f (few p b (xs @ s)))"
    by (simp add: split_def comp_def)
  ultimately show ?thesis using rest by (auto simp: first_def)
qed

lemma first_Ahead: "matches r m \<noteq> [] \<Longrightarrow> first (Ahead r) m m"
  by (simp add: first_def)

lemma sub_none:
  assumes "\<And>x y. s = x @ y \<Longrightarrow> matches r (rev x @ b, y, None) = []"
  shows "sub_from r repl b s = s"
  using assms
proof (induction s arbitrary: b)
  case Nil
  then show ?case using Nil.prems [of "[]" "[]"] by (simp add: sub_from.simps)
next
  case (Cons c s)
  have "sub_from r repl (c # b) s = s" using Cons.prems [of "c # _"] by (intro Cons.IH) simp
  then show ?case using Cons.prems [of "[]" "c # s"] by (simp add: sub_from.simps [of r repl b "c # s"])
qed

end
