(* ===== verification/ReleaseTag.thy ===== *)
theory ReleaseTag
  imports Regex Dicts Errors "HOL-Library.Sublist"
begin

text \<open>
  \<open>scripts/validate-release-tag.py\<close>: parsing of a release tag, the versions that the
  manifests of the repository declare, and the check of one against the other.  The
  repository is a dictionary from paths to the texts \<open>read_text\<close> gives; messages are kept
  as the manifest and the version they name.
\<close>

section \<open>Tags\<close>

record flags =
  fl_python :: bool
  fl_arduino :: bool
  fl_esp32 :: bool

text \<open>\<open>^\d+\.\d+\.\d+([-\.][0-9A-Za-z\.-]+)?$\<close>.\<close>

definition suffix_char :: "char \<Rightarrow> bool" where
  "suffix_char c \<longleftrightarrow> is_alnum c \<or> c = CHR ''.'' \<or> c = CHR ''-''"

definition suffix_pattern :: regex where
  "suffix_pattern = Optional (Group (Seq (Class (\<lambda>c. c = CHR ''-'' \<or> c = CHR ''.'')) (Some_of suffix_char)))"

definition semver_pattern :: regex where
  "semver_pattern =
     sequence [Text_start, Some_of is_digit, Class ((=) CHR ''.''), Some_of is_digit,
       Class ((=) CHR ''.''), Some_of is_digit,
       suffix_pattern, End]"

definition parse_tag :: "string \<Rightarrow> py_exc + string \<times> string \<times> string \<times> flags" where
  "parse_tag raw_tag =
     (let clean_tag = strip raw_tag;
          no_flags = \<lparr>fl_python = False, fl_arduino = False, fl_esp32 = False\<rparr>
      in bindE
          (if startswith clean_tag ''python-v'' then
             Inr (''python'', removeprefix clean_tag ''python-'', no_flags\<lparr>fl_python := True\<rparr>)
           else if startswith clean_tag ''arduino-v'' then
             Inr (''arduino'', removeprefix clean_tag ''arduino-'', no_flags\<lparr>fl_arduino := True\<rparr>)
           else if startswith clean_tag ''esp-v'' then
             Inr (''esp32'', removeprefix clean_tag ''esp-'', no_flags\<lparr>fl_esp32 := True\<rparr>)
           else if startswith clean_tag ''v'' then
             Inr (''all'', clean_tag, \<lparr>fl_python = True, fl_arduino = True, fl_esp32 = True\<rparr>)
           else Inl ValueError)
          (\<lambda>(target, clean_tag, flags).
             let semver = removeprefix clean_tag ''v'' in
             if re_match semver_pattern semver = None then Inl ValueError
             else Inr (target, clean_tag, semver, flags)))"

section \<open>The versions in the manifests\<close>

type_synonym repository = "(string, string) dict"

text \<open>The patterns: \<open>^NAME\s*=\s*["']([^"']+)["']\<close> and three more.\<close>

definition quote :: "char \<Rightarrow> bool" where
  "quote c \<longleftrightarrow> c = CHR 0x22 \<or> c = CHR 0x27"

definition assignment_pattern :: "string \<Rightarrow> regex" where
  "assignment_pattern name =
     sequence [Line_start, literal name, Many is_space, Class ((=) CHR ''=''), Many is_space,
       Class quote, Group (Some_of (\<lambda>c. \<not> quote c)), Class quote]"

definition properties_pattern :: regex where
  "properties_pattern =
     sequence [Line_start, literal ''version'', Many is_space, Class ((=) CHR ''=''), Many is_space,
       Group (Some_of (\<lambda>c. c \<noteq> newline)), Line_end]"

definition yaml_pattern :: regex where
  "yaml_pattern =
     sequence [Line_start, literal ''version'', Many is_space, Class ((=) CHR '':''), Many is_space,
       Optional (Class quote), Group (Some_of (\<lambda>c. \<not> quote c \<and> \<not> is_space c)), Optional (Class quote)]"

definition macro_pattern :: "string \<Rightarrow> regex" where
  "macro_pattern part =
     sequence [literal ''#define'', Some_of is_space, literal (''USMP_VERSION_'' @ part),
       Some_of is_space, Group (Some_of is_digit)]"

definition declared :: "repository \<Rightarrow> string \<Rightarrow> regex \<Rightarrow> string option" where
  "declared repo path r =
     (case map_of repo path of
        None \<Rightarrow> None
      | Some content \<Rightarrow> map_option (\<lambda>m. strip (group1 m)) (re_search r content))"

definition core_version :: "repository \<Rightarrow> string option" where
  "core_version repo =
     (case map_of repo ''core/include/usmp.h'' of
        None \<Rightarrow> None
      | Some content \<Rightarrow>
          (case (re_search (macro_pattern ''MAJOR'') content, re_search (macro_pattern ''MINOR'') content,
                 re_search (macro_pattern ''PATCH'') content) of
             (Some m_maj, Some m_min, Some m_pat) \<Rightarrow>
               Some (group1 m_maj @ ''.'' @ group1 m_min @ ''.'' @ group1 m_pat)
           | _ \<Rightarrow> None))"

definition add_version :: "string \<Rightarrow> string option \<Rightarrow> (string, string) dict \<Rightarrow> (string, string) dict" where
  "add_version key v versions = (case v of None \<Rightarrow> versions | Some x \<Rightarrow> AList.update key x versions)"

definition get_manifest_versions :: "repository \<Rightarrow> (string, string) dict" where
  "get_manifest_versions repo =
     add_version ''c_core'' (core_version repo)
     (add_version ''workspace'' (declared repo ''pyproject.toml'' (assignment_pattern ''version''))
     (add_version ''esp32'' (declared repo ''ports/usmp-esp32/idf_component.yml'' yaml_pattern)
     (add_version ''arduino'' (declared repo ''ports/usmp-arduino/library.properties'' properties_pattern)
     (add_version ''python_init''
        (declared repo ''sdk/python/src/usmp/__init__.py'' (assignment_pattern ''__version__''))
     (add_version ''python''
        (declared repo ''sdk/python/pyproject.toml'' (assignment_pattern ''version'')) [])))))"

section \<open>Validation\<close>

datatype manifest_error = Missing string | Mismatch string string

definition check_version ::
  "(string, string) dict \<Rightarrow> string \<Rightarrow> string \<Rightarrow> manifest_error list" where
  "check_version versions key expected =
     (case map_of versions key of
        None \<Rightarrow> [Missing key]
      | Some v \<Rightarrow> if v = [] then [Missing key] else if v \<noteq> expected then [Mismatch key v] else [])"

text \<open>\<open>semver.split("-")[0]\<close>.\<close>

definition base_version :: "string \<Rightarrow> string" where
  "base_version semver = takeWhile (\<lambda>c. c \<noteq> CHR ''-'') semver"

definition tag_errors :: "(string, string) dict \<Rightarrow> string \<Rightarrow> string \<Rightarrow> flags \<Rightarrow> manifest_error list" where
  "tag_errors versions target semver fl =
     (if fl_python fl then check_version versions ''python'' semver @ check_version versions ''python_init'' semver
      else [])
     @ (if fl_arduino fl then check_version versions ''arduino'' semver else [])
     @ (if fl_esp32 fl then check_version versions ''esp32'' semver else [])
     @ (if target = ''all'' then check_version versions ''workspace'' semver
          @ check_version versions ''c_core'' (base_version semver) else [])"

definition bool_str :: "bool \<Rightarrow> string" where
  "bool_str b = (if b then ''true'' else ''false'')"

definition output_lines :: "string \<Rightarrow> string \<Rightarrow> string \<Rightarrow> flags \<Rightarrow> string" where
  "output_lines clean_tag semver target fl =
     concat (map (\<lambda>(k, v). k @ ''='' @ v @ [newline])
       [(''tag'', clean_tag), (''semver'', semver), (''target'', target),
        (''is_python'', bool_str (fl_python fl)), (''is_arduino'', bool_str (fl_arduino fl)),
        (''is_esp32'', bool_str (fl_esp32 fl))])"

text \<open>
  \<open>validate_tag\<close>: the exit status, the errors, and the files outside the repository, of
  which it appends to the one it is given.  \<open>writable\<close> tells whether that file can be opened;
  an empty name is no file.
\<close>

definition append_text :: "string \<Rightarrow> string \<Rightarrow> (string, string) dict \<Rightarrow> (string, string) dict" where
  "append_text path text files =
     AList.update path ((case map_of files path of Some t \<Rightarrow> t | None \<Rightarrow> []) @ text) files"

definition validate_tag ::
  "(string \<Rightarrow> bool) \<Rightarrow> repository \<Rightarrow> string \<Rightarrow> string option \<Rightarrow> (string, string) dict \<Rightarrow>
   int \<times> manifest_error list \<times> (string, string) dict" where
  "validate_tag writable repo raw_tag github_output files =
     (case parse_tag raw_tag of
        Inl _ \<Rightarrow> (1, [], files)
      | Inr (target, clean_tag, semver, fl) \<Rightarrow>
          (let errors = tag_errors (get_manifest_versions repo) target semver fl in
           if errors \<noteq> [] then (1, errors, files)
           else case github_output of
             Some path \<Rightarrow>
               if path = [] then (0, [], files)
               else if writable path then (0, [], append_text path (output_lines clean_tag semver target fl) files)
               else (1, [], files)
           | None \<Rightarrow> (0, [], files)))"

text \<open>\<open>main\<close>: no tag, or an empty one, is refused.\<close>

definition validate_main ::
  "(string \<Rightarrow> bool) \<Rightarrow> repository \<Rightarrow> string \<Rightarrow> string option \<Rightarrow> (string, string) dict \<Rightarrow>
   int \<times> manifest_error list \<times> (string, string) dict" where
  "validate_main writable repo tag github_output files =
     (if tag = [] then (1, [], files) else validate_tag writable repo tag github_output files)"

section \<open>The pattern for versions\<close>

text \<open>A recogniser written down directly: three numbers with dots between them, and a suffix.\<close>

definition number_dot :: "string \<Rightarrow> string option" where
  "number_dot s =
     (if takeWhile is_digit s = [] then None
      else case dropWhile is_digit s of c # r \<Rightarrow> if c = CHR ''.'' then Some r else None | [] \<Rightarrow> None)"

definition valid_suffix :: "string \<Rightarrow> bool" where
  "valid_suffix s = (case s of [] \<Rightarrow> True
     | c # t \<Rightarrow> (c = CHR ''-'' \<or> c = CHR ''.'') \<and> t \<noteq> [] \<and> list_all suffix_char t)"

definition is_semver :: "string \<Rightarrow> bool" where
  "is_semver s =
     (case Option.bind (number_dot s) number_dot of
        None \<Rightarrow> False
      | Some r \<Rightarrow> takeWhile is_digit r \<noteq> [] \<and> valid_suffix (dropWhile is_digit r))"

lemma is_digit_facts [simp]: "\<not> is_digit CHR ''.''" "\<not> is_digit CHR ''-''" "\<not> is_digit newline" "\<not> is_digit CHR ''v''"
  by (simp_all add: is_digit_def)

lemma digits_split:
  "list_all is_digit a \<Longrightarrow> s = [] \<or> \<not> is_digit (hd s) \<Longrightarrow>
   takeWhile is_digit (a @ s) = a \<and> dropWhile is_digit (a @ s) = s"
  by (induction a) (cases s; simp)+

lemma number_dot_iff:
  "number_dot s = Some r \<longleftrightarrow> (\<exists>a. a \<noteq> [] \<and> list_all is_digit a \<and> s = a @ CHR ''.'' # r)"
proof
  assume "number_dot s = Some r"
  then have "takeWhile is_digit s \<noteq> []" "dropWhile is_digit s = CHR ''.'' # r"
    by (auto simp: number_dot_def split: if_splits list.splits)
  moreover have "s = takeWhile is_digit s @ dropWhile is_digit s" by simp
  moreover have "list_all is_digit (takeWhile is_digit s)" by (auto simp: list_all_iff dest: set_takeWhileD)
  ultimately show "\<exists>a. a \<noteq> [] \<and> list_all is_digit a \<and> s = a @ CHR ''.'' # r" by metis
next
  assume "\<exists>a. a \<noteq> [] \<and> list_all is_digit a \<and> s = a @ CHR ''.'' # r"
  then obtain a where a: "a \<noteq> []" "list_all is_digit a" "s = a @ CHR ''.'' # r" by blast
  with digits_split [OF a(2), of "CHR ''.'' # r"] show "number_dot s = Some r" by (simp add: number_dot_def)
qed

lemma valid_suffix_hd: "valid_suffix s \<Longrightarrow> s = [] \<or> \<not> is_digit (hd s)"
  by (auto simp: valid_suffix_def split: list.splits)

lemma is_semver_iff:
  "is_semver s \<longleftrightarrow> (\<exists>a b c suf. s = a @ CHR ''.'' # b @ CHR ''.'' # c @ suf
     \<and> a \<noteq> [] \<and> b \<noteq> [] \<and> c \<noteq> [] \<and> list_all is_digit a \<and> list_all is_digit b \<and> list_all is_digit c
     \<and> valid_suffix suf)"
proof
  assume "is_semver s"
  then obtain r1 r where r: "number_dot s = Some r1" "number_dot r1 = Some r"
    "takeWhile is_digit r \<noteq> []" "valid_suffix (dropWhile is_digit r)"
    by (auto simp: is_semver_def split: option.splits bind_splits)
  from r(1,2) obtain a b where "s = a @ CHR ''.'' # b @ CHR ''.'' # r" "a \<noteq> []" "b \<noteq> []"
    "list_all is_digit a" "list_all is_digit b" by (auto simp: number_dot_iff)
  moreover have "list_all is_digit (takeWhile is_digit r)" by (auto simp: list_all_iff dest: set_takeWhileD)
  ultimately show "\<exists>a b c suf. s = a @ CHR ''.'' # b @ CHR ''.'' # c @ suf
     \<and> a \<noteq> [] \<and> b \<noteq> [] \<and> c \<noteq> [] \<and> list_all is_digit a \<and> list_all is_digit b \<and> list_all is_digit c
     \<and> valid_suffix suf"
    using r(3,4)
    by (intro exI [of _ a] exI [of _ b] exI [of _ "takeWhile is_digit r"] exI [of _ "dropWhile is_digit r"]) simp
next
  assume "\<exists>a b c suf. s = a @ CHR ''.'' # b @ CHR ''.'' # c @ suf
     \<and> a \<noteq> [] \<and> b \<noteq> [] \<and> c \<noteq> [] \<and> list_all is_digit a \<and> list_all is_digit b \<and> list_all is_digit c
     \<and> valid_suffix suf"
  then obtain a b c suf where s: "s = a @ CHR ''.'' # b @ CHR ''.'' # c @ suf" "a \<noteq> []" "b \<noteq> []" "c \<noteq> []"
    "list_all is_digit a" "list_all is_digit b" "list_all is_digit c" "valid_suffix suf" by blast
  then have "number_dot s = Some (b @ CHR ''.'' # c @ suf)" "number_dot (b @ CHR ''.'' # c @ suf) = Some (c @ suf)"
    by (auto simp: number_dot_iff)
  with s digits_split [OF s(7) valid_suffix_hd [OF s(8)]] show "is_semver s" by (simp add: is_semver_def)
qed

lemma suffix_pattern_matches:
  assumes "m' \<in> set (matches suffix_pattern (b, s, g))"
  shows "\<exists>suf b' s' g'. s = suf @ s' \<and> valid_suffix suf \<and> m' = (b', s', g')"
proof (cases "m' = (b, s, g)")
  case True
  then show ?thesis by (intro exI [of _ "[]"] exI [of _ b] exI [of _ s] exI [of _ g]) (simp add: valid_suffix_def)
next
  case False
  with assms obtain b' s' g' where m: "m' = (b', s', Some (take (length s - length s') s))"
    and i: "(b', s', g') \<in> set (matches (Seq (Class (\<lambda>c. c = CHR ''-'' \<or> c = CHR ''.'')) (Some_of suffix_char)) (b, s, g))"
    unfolding suffix_pattern_def matches_rest matches_Group by blast
  from i obtain m1 where "m1 \<in> set (matches (Class (\<lambda>c. c = CHR ''-'' \<or> c = CHR ''.'')) (b, s, g))"
    and m1: "(b', s', g') \<in> set (matches (Some_of suffix_char) m1)" unfolding matches_Seq by blast
  then obtain c s1 where c: "s = c # s1" "c = CHR ''-'' \<or> c = CHR ''.''" "m1 = (c # b, s1, g)"
    unfolding matches_Class by blast
  with m1 obtain xs where "xs \<noteq> []" "s1 = xs @ s'" "list_all suffix_char xs"
    unfolding c(3) matches_Some_of by blast
  with c m show ?thesis
    by (intro exI [of _ "c # xs"] exI [of _ b'] exI [of _ s'] exI [of _ "Some (take (length s - length s') s)"])
      (simp add: valid_suffix_def)
qed

lemma suffix_first:
  assumes "valid_suffix suf" and "e = [] \<or> e = [newline]"
  shows "\<exists>b' g'. first suffix_pattern
     (b, suf @ e, g) (b', e, g')"
proof (cases suf)
  case Nil
  with assms(2) have "matches (Group (Seq (Class (\<lambda>c. c = CHR ''-'' \<or> c = CHR ''.'')) (Some_of suffix_char))) (b, suf @ e, g) = []"
    by auto
  from first_Optional_none [OF this] Nil show ?thesis unfolding suffix_pattern_def by auto
next
  case (Cons c xs)
  with assms have xs: "c = CHR ''-'' \<or> c = CHR ''.''" "list_all suffix_char xs" "xs \<noteq> []"
    "e = [] \<or> \<not> suffix_char (hd e)"
    by (auto simp: valid_suffix_def suffix_char_def is_alnum_def)
  have "first (Seq (Class (\<lambda>c. c = CHR ''-'' \<or> c = CHR ''.'')) (Some_of suffix_char)) (b, suf @ e, g) (rev xs @ c # b, e, g)"
    unfolding Cons append_Cons by (rule first_Seq [OF first_Class first_Some_of]) (use xs in auto)
  from first_Optional [OF first_Group [OF this]] show ?thesis unfolding suffix_pattern_def by blast
qed

lemma semver_first:
  assumes "is_semver v" and e: "e = [] \<or> e = [newline]"
  shows "\<exists>m. first semver_pattern ([], v @ e, None) m"
proof -
  from assms(1) obtain a b c suf where v: "v = a @ CHR ''.'' # b @ CHR ''.'' # c @ suf" "a \<noteq> []" "b \<noteq> []" "c \<noteq> []"
    "list_all is_digit a" "list_all is_digit b" "list_all is_digit c" "valid_suffix suf"
    by (auto simp: is_semver_iff)
  have nd: "suf @ e = [] \<or> \<not> is_digit (hd (suf @ e))"
    using valid_suffix_hd [OF v(8)] e by (cases suf) auto
  obtain b' g' where suf: "first suffix_pattern
     (rev c @ CHR ''.'' # rev b @ CHR ''.'' # rev a @ [], suf @ e, None) (b', e, g')"
    using suffix_first [OF v(8) e] by blast
  have "first semver_pattern ([], a @ CHR ''.'' # b @ CHR ''.'' # c @ suf @ e, None) (b', e, g')"
    unfolding semver_pattern_def
    by (rule first_sequence first_Text_start first_Some_of first_Class suf first_End v e refl nd | simp)+
  with v(1) show ?thesis by auto
qed

lemma pattern_iff:
  "re_match semver_pattern s \<noteq> None \<longleftrightarrow> is_semver s \<or> s \<noteq> [] \<and> last s = newline \<and> is_semver (butlast s)"
proof -
  have "re_match semver_pattern s \<noteq> None \<longleftrightarrow> (\<exists>v e. s = v @ e \<and> is_semver v \<and> (e = [] \<or> e = [newline]))"
  proof
    assume "re_match semver_pattern s \<noteq> None"
    then obtain m where m: "m \<in> set (matches semver_pattern ([], s, None))" unfolding re_match_iff by blast
    then have "\<exists>a b c r m1 x. s = a @ CHR ''.'' # b @ CHR ''.'' # c @ r
        \<and> a \<noteq> [] \<and> b \<noteq> [] \<and> c \<noteq> [] \<and> list_all is_digit a \<and> list_all is_digit b \<and> list_all is_digit c
        \<and> m1 \<in> set (matches suffix_pattern (x, r, None)) \<and> m \<in> set (matches (Seq End Empty) m1)"
      unfolding semver_pattern_def sequence.simps
      by (auto simp: matches_Seq matches_Some_of matches_Class matches_rest(5) simp del: matches.simps) blast
    then obtain a b c r m1 y where abc: "s = a @ CHR ''.'' # b @ CHR ''.'' # c @ r"
      "a \<noteq> []" "b \<noteq> []" "c \<noteq> []" "list_all is_digit a" "list_all is_digit b" "list_all is_digit c"
      and m1: "m1 \<in> set (matches suffix_pattern (y, r, None))" "m \<in> set (matches (Seq End Empty) m1)" by blast
    from suffix_pattern_matches [OF m1(1)] obtain suf x e g where suf: "r = suf @ e" "valid_suffix suf" "m1 = (x, e, g)"
      by blast
    with m1(2) have "e = [] \<or> e = [newline]" by (auto simp: matches_Seq matches_rest simp del: matches.simps)
    with abc suf show "\<exists>v e. s = v @ e \<and> is_semver v \<and> (e = [] \<or> e = [newline])"
      by (intro exI [of _ "a @ CHR ''.'' # b @ CHR ''.'' # c @ suf"] exI [of _ e]) (auto simp: is_semver_iff)
  next
    assume "\<exists>v e. s = v @ e \<and> is_semver v \<and> (e = [] \<or> e = [newline])"
    then show "re_match semver_pattern s \<noteq> None" using semver_first first_re_match by fastforce
  qed
  also have "\<dots> \<longleftrightarrow> is_semver s \<or> s \<noteq> [] \<and> last s = newline \<and> is_semver (butlast s)"
    by (metis append_Nil2 append_butlast_last_id butlast_snoc last_snoc snoc_eq_iff_butlast)
  finally show ?thesis .
qed

text \<open>
  The pattern for versions recognises exactly what it is meant to: a string matches it just
  if it is three non-empty numbers separated by dots, followed by nothing or by a hyphen or
  dot and a non-empty suffix of letters, digits, dots and hyphens; or such a string and a
  final newline, which \<open>$\<close> tolerates.\<close>

theorem semver_pattern_recognises:
  "re_match semver_pattern s \<noteq> None \<longleftrightarrow> is_semver s \<or> s \<noteq> [] \<and> last s = newline \<and> is_semver (butlast s)"
  by (rule pattern_iff)

section \<open>Tags that are accepted\<close>

definition tag_table :: "(string \<times> string \<times> flags) list" where
  "tag_table =
     [(''python'', ''python-'', \<lparr>fl_python = True, fl_arduino = False, fl_esp32 = False\<rparr>),
      (''arduino'', ''arduino-'', \<lparr>fl_python = False, fl_arduino = True, fl_esp32 = False\<rparr>),
      (''esp32'', ''esp-'', \<lparr>fl_python = False, fl_arduino = False, fl_esp32 = True\<rparr>),
      (''all'', [], \<lparr>fl_python = True, fl_arduino = True, fl_esp32 = True\<rparr>)]"

lemma semver_of_stripped:
  assumes "strip raw = p @ ''v'' @ u"
  shows "re_match semver_pattern u \<noteq> None \<longleftrightarrow> is_semver u"
proof -
  have "last u \<noteq> newline" if "u \<noteq> []"
    using strip_last [of raw] assms that by (auto simp: is_space_def)
  then show ?thesis using pattern_iff by blast
qed

lemma parse_tag_prefixed:
  assumes "strip raw = p @ ''v'' @ u" and "(t, p, fl) \<in> set tag_table"
  shows "parse_tag raw = (if is_semver u then Inr (t, ''v'' @ u, u, fl) else Inl ValueError)"
  using assms(2) semver_of_stripped [OF assms(1)]
  by (auto simp: tag_table_def parse_tag_def assms(1) removeprefix_def)

lemma parse_tag_other:
  assumes "\<And>t p fl u. (t, p, fl) \<in> set tag_table \<Longrightarrow> strip raw \<noteq> p @ ''v'' @ u"
  shows "parse_tag raw = Inl ValueError"
proof -
  have "\<forall>(t, p, fl) \<in> set tag_table. \<not> startswith (strip raw) (p @ ''v'')"
    using assms by (auto simp: startswith_iff)
  then show ?thesis by (simp add: tag_table_def parse_tag_def)
qed

text \<open>
  Which release tags are accepted, and as what: stripped of surrounding space, exactly a prefix
  of the table (none for a release of everything), the letter v and a version; the tag passed on
  is without the prefix, and every other tag raises \<open>ValueError\<close>.\<close>

theorem parse_tag_accepts:
  "parse_tag raw = Inr (target, clean, semver, fl) \<longleftrightarrow>
     (\<exists>prefix. (target, prefix, fl) \<in> set tag_table \<and> strip raw = prefix @ ''v'' @ semver
        \<and> clean = ''v'' @ semver \<and> is_semver semver)"
proof
  assume r: "parse_tag raw = Inr (target, clean, semver, fl)"
  then obtain t p fl' u where u: "(t, p, fl') \<in> set tag_table" "strip raw = p @ ''v'' @ u"
    using parse_tag_other [of raw] by fastforce
  with r parse_tag_prefixed [OF u(2,1)] show "\<exists>prefix. (target, prefix, fl) \<in> set tag_table
      \<and> strip raw = prefix @ ''v'' @ semver \<and> clean = ''v'' @ semver \<and> is_semver semver"
    by (auto split: if_splits)
next
  assume "\<exists>prefix. (target, prefix, fl) \<in> set tag_table \<and> strip raw = prefix @ ''v'' @ semver
      \<and> clean = ''v'' @ semver \<and> is_semver semver"
  then show "parse_tag raw = Inr (target, clean, semver, fl)" using parse_tag_prefixed by fastforce
qed

section \<open>Reading a version back\<close>

text \<open>
  The forms in which the manifests declare a version, on the first line that starts with the
  name: \<open>name = "v"\<close>, \<open>version=v\<close> and \<open>version: "v"\<close> with optional quotes, with blanks and tabs around the
  sign; and the macros of the C header, whose names occur nowhere before their definition.
\<close>

definition blanks :: "string \<Rightarrow> bool" where
  "blanks s \<longleftrightarrow> set s \<subseteq> {CHR '' '', CHR 0x09}"

lemma blanks_space: "blanks s \<Longrightarrow> list_all is_space s"
  by (auto simp: blanks_def list_all_iff is_space_def)

definition declares_assignment :: "string \<Rightarrow> string \<Rightarrow> string \<Rightarrow> bool" where
  "declares_assignment name v content \<longleftrightarrow>
     (\<exists>ls sp1 sp2 q rest. content = unlines ls @ name @ sp1 @ ''='' @ sp2 @ q # v @ q # rest
        \<and> before_line name ls \<and> blanks sp1 \<and> blanks sp2 \<and> quote q)"

definition declares_property :: "string \<Rightarrow> string \<Rightarrow> bool" where
  "declares_property v content \<longleftrightarrow>
     (\<exists>ls sp1 sp2 rest. content = unlines ls @ ''version'' @ sp1 @ ''='' @ sp2 @ v @ rest
        \<and> before_line ''version'' ls \<and> blanks sp1 \<and> blanks sp2
        \<and> (rest = [] \<or> hd rest = newline))"

definition declares_yaml :: "string \<Rightarrow> string \<Rightarrow> bool" where
  "declares_yaml v content \<longleftrightarrow>
     (\<exists>ls sp1 sp2 q rest. content = unlines ls @ ''version'' @ sp1 @ '':'' @ sp2 @ q @ v @ rest
        \<and> before_line ''version'' ls \<and> blanks sp1 \<and> blanks sp2
        \<and> (q = [] \<or> (\<exists>c. q = [c] \<and> quote c)) \<and> (rest = [] \<or> is_space (hd rest) \<or> quote (hd rest)))"

definition declares_macro :: "string \<Rightarrow> string \<Rightarrow> string \<Rightarrow> bool" where
  "declares_macro part n content \<longleftrightarrow>
     (\<exists>pre sp1 sp2 rest. content = pre @ ''#define'' @ sp1 @ (''USMP_VERSION_'' @ part) @ sp2 @ n @ rest
        \<and> \<not> sublist (''USMP_VERSION_'' @ part) pre \<and> sp1 \<noteq> [] \<and> blanks sp1
        \<and> sp2 \<noteq> [] \<and> blanks sp2 \<and> n \<noteq> [] \<and> list_all is_digit n \<and> (rest = [] \<or> \<not> is_digit (hd rest)))"

text \<open>The characters of a version.\<close>

definition version_text :: "string \<Rightarrow> bool" where
  "version_text v \<longleftrightarrow> v \<noteq> [] \<and> list_all suffix_char v"

lemma suffix_char_facts:
  "suffix_char c \<Longrightarrow> \<not> is_space c \<and> \<not> quote c \<and> c \<noteq> newline"
  by (auto simp: suffix_char_def is_alnum_def is_space_def quote_def Let_def)

lemma is_semver_text: "is_semver v \<Longrightarrow> version_text v"
proof -
  assume "is_semver v"
  then obtain a b c suf where v: "v = a @ CHR ''.'' # b @ CHR ''.'' # c @ suf"
    "list_all is_digit a" "list_all is_digit b" "list_all is_digit c" "valid_suffix suf"
    by (auto simp: is_semver_iff)
  have "is_digit x \<Longrightarrow> suffix_char x" for x by (auto simp: is_digit_def suffix_char_def is_alnum_def Let_def)
  then have "list_all suffix_char xs" if "list_all is_digit xs" for xs using that by (auto simp: list_all_iff)
  moreover have "list_all suffix_char suf"
    using v(5) by (auto simp: valid_suffix_def suffix_char_def split: list.splits)
  ultimately show ?thesis using v by (simp add: version_text_def suffix_char_def)
qed

lemma version_strip: "version_text v \<Longrightarrow> strip v = v"
proof -
  assume v: "version_text v"
  have "dropWhile is_space xs = xs" if "list_all suffix_char xs" for xs
    using that by (cases xs) (auto dest: suffix_char_facts)
  with v show ?thesis by (simp add: strip_def version_text_def list_all_rev)
qed

lemma list_all_mono: "list_all P xs \<Longrightarrow> (\<And>x. P x \<Longrightarrow> Q x) \<Longrightarrow> list_all Q xs"
  by (auto simp: list_all_iff)

lemma line_patterns:
  "line_pattern (assignment_pattern name) name" "line_pattern properties_pattern ''version''"
  "line_pattern yaml_pattern ''version''"
  unfolding assignment_pattern_def properties_pattern_def yaml_pattern_def by (rule line_patternI)+

lemma declared_assignment:
  assumes "declares_assignment name v content" and v: "version_text v" and n: "newline \<notin> set name"
    and c: "map_of repo path = Some content"
  shows "declared repo path (assignment_pattern name) = Some v"
proof -
  from assms(1) obtain ls sp1 sp2 q1 q2 rest where d: "content = unlines ls @ name @ sp1 @ ''='' @ sp2 @ q1 # v @ q2 # rest"
    "before_line name ls" "list_all is_space sp1" "list_all is_space sp2" "quote q1" "quote q2"
    unfolding declares_assignment_def by (blast dest: blanks_space)
  have nq: "list_all (\<lambda>c. \<not> quote c) v" "v \<noteq> []"
    using v by (auto simp: version_text_def elim!: list_all_mono dest: suffix_char_facts)
  have "\<not> is_space q1" "\<not> is_space CHR ''=''" using d(5) by (auto simp: quote_def is_space_def)
  then have "\<exists>b'. first (assignment_pattern name) (rev (unlines ls), name @ sp1 @ ''='' @ sp2 @ q1 # v @ q2 # rest, None)
      (b', rest, Some v)"
    unfolding assignment_pattern_def
    by (intro exI)
      (rule first_sequence first_Line_start at_line_start first_literal first_Many first_Some_of first_Class
        first_Group d nq refl | simp)+
  then obtain b' where "re_search (assignment_pattern name) content = Some (b', rest, Some v)"
    unfolding d(1) using re_search_line [OF line_patterns(1) n d(2)] by blast
  with c version_strip [OF v] show ?thesis by (simp add: declared_def group1_def)
qed

lemma declared_line:
  assumes ls: "before_line ''version'' ls" and sp: "list_all is_space sp1" "list_all is_space sp2"
    and v: "v \<noteq> []" "newline \<notin> set v" "\<not> is_space (hd v)" and rest: "rest = [] \<or> hd rest = newline"
    and c: "map_of repo path = Some (unlines ls @ ''version'' @ sp1 @ ''='' @ sp2 @ v @ rest)"
  shows "declared repo path properties_pattern = Some (strip v)"
proof -
  have nl: "list_all (\<lambda>c. c \<noteq> newline) v" "v @ rest = [] \<or> \<not> is_space (hd (v @ rest))" "rest = [] \<or> \<not> hd rest \<noteq> newline"
    using v rest by (auto simp: list_all_iff)
  have "\<exists>b'. first properties_pattern (rev (unlines ls), ''version'' @ sp1 @ ''='' @ sp2 @ v @ rest, None)
      (b', rest, Some v)"
    unfolding properties_pattern_def
    by (intro exI)
      (rule first_sequence first_Line_start first_Line_end at_line_start first_literal first_Many first_Some_of
        first_Class first_Group sp v rest nl refl | simp add: is_space_def)+
  then obtain b' where "re_search properties_pattern (unlines ls @ ''version'' @ sp1 @ ''='' @ sp2 @ v @ rest)
      = Some (b', rest, Some v)"
    using re_search_line [OF line_patterns(2) _ ls] by auto
  with c show ?thesis by (simp add: declared_def group1_def)
qed

lemma declared_property:
  assumes "declares_property v content" and v: "version_text v" and c: "map_of repo path = Some content"
  shows "declared repo path properties_pattern = Some v"
proof -
  from assms(1) obtain ls sp1 sp2 rest where d: "content = unlines ls @ ''version'' @ sp1 @ ''='' @ sp2 @ v @ rest"
    "before_line ''version'' ls" "list_all is_space sp1" "list_all is_space sp2" "rest = [] \<or> hd rest = newline"
    unfolding declares_property_def by (blast dest: blanks_space)
  have "v \<noteq> []" "newline \<notin> set v" "\<not> is_space (hd v)"
    using v suffix_char_facts by (cases v; auto simp: version_text_def list_all_iff)+
  with declared_line [OF d(2-4) _ _ _ d(5)] c version_strip [OF v] show ?thesis by (simp add: d(1))
qed

lemma declared_yaml:
  assumes "declares_yaml v content" and v: "version_text v" and c: "map_of repo path = Some content"
  shows "declared repo path yaml_pattern = Some v"
proof -
  from assms(1) obtain ls sp1 sp2 q rest where d: "content = unlines ls @ ''version'' @ sp1 @ '':'' @ sp2 @ q @ v @ rest"
    "before_line ''version'' ls" "list_all is_space sp1" "list_all is_space sp2"
    "q = [] \<or> (\<exists>c. q = [c] \<and> quote c)" "rest = [] \<or> is_space (hd rest) \<or> quote (hd rest)"
    unfolding declares_yaml_def by (blast dest: blanks_space)
  have nq: "list_all (\<lambda>c. \<not> quote c \<and> \<not> is_space c) v" "v \<noteq> []"
    "rest = [] \<or> \<not> (\<not> quote (hd rest) \<and> \<not> is_space (hd rest))"
    using v d(6) by (auto simp: version_text_def elim!: list_all_mono dest: suffix_char_facts)
  have sp: "q @ v @ rest = [] \<or> \<not> is_space (hd (q @ v @ rest))"
    using d(5) v by (cases v) (auto simp: version_text_def quote_def is_space_def dest: suffix_char_facts)
  have oq: "\<exists>b'. first (Optional (Class quote)) (b, q @ v @ rest, None) (b', v @ rest, None)" for b
  proof (cases "q = []")
    case True
    then show ?thesis using v
      by (cases v) (auto simp: version_text_def first_def dest: suffix_char_facts)
  next
    case False
    with d(5) show ?thesis by (auto simp: first_def)
  qed
  obtain b1 where b1: "first (Optional (Class quote))
      (rev sp2 @ CHR '':'' # rev sp1 @ rev ''version'' @ rev (unlines ls), q @ v @ rest, None) (b1, v @ rest, None)"
    using oq by blast
  have "first (Optional (Class quote)) (rev v @ b1, rest, Some v)
      (if rest \<noteq> [] \<and> quote (hd rest) then (hd rest # rev v @ b1, tl rest, Some v) else (rev v @ b1, rest, Some v))"
    by (cases rest) (auto simp: first_def)
  then obtain m where m: "first (Optional (Class quote)) (rev v @ b1, rest, Some v) m" "snd (snd m) = Some v"
    by (simp split: if_splits)
  have "first yaml_pattern (rev (unlines ls), ''version'' @ sp1 @ '':'' @ sp2 @ q @ v @ rest, None) m"
    unfolding yaml_pattern_def
    by (rule first_sequence first_Line_start at_line_start b1 b1 [simplified] m first_literal first_Many first_Some_of
        first_Class first_Group d nq sp refl | simp add: is_space_def)+
  then have "re_search yaml_pattern content = Some m"
    unfolding d(1) by (intro re_search_line [OF line_patterns(3) _ d(2)]) simp_all
  with c m(2) version_strip [OF v] show ?thesis by (cases m) (simp add: declared_def group1_def)
qed

lemma macro_search:
  assumes "declares_macro part n content" and hash: "CHR ''#'' \<notin> set part"
  shows "\<exists>m. re_search (macro_pattern part) content = Some m \<and> group1 m = n"
proof -
  let ?name = "''USMP_VERSION_'' @ part"
  from assms(1) obtain pre sp1 sp2 rest where d: "content = pre @ ''#define'' @ sp1 @ ?name @ sp2 @ n @ rest"
    "\<not> sublist ?name pre" "sp1 \<noteq> []" "list_all is_space sp1" "sp2 \<noteq> []" "list_all is_space sp2"
    "n \<noteq> []" "list_all is_digit n" "rest = [] \<or> \<not> is_digit (hd rest)"
    unfolding declares_macro_def by (blast dest: blanks_space)
  let ?s = "''#define'' @ sp1 @ ?name @ sp2 @ n @ rest"
  have skip: "matches (macro_pattern part) (rev x @ [], y @ ?s, None) = []" if xy: "pre = x @ y" "y \<noteq> []" for x y
  proof (rule ccontr)
    assume "matches (macro_pattern part) (rev x @ [], y @ ?s, None) \<noteq> []"
    then obtain m where "m \<in> set (matches (macro_pattern part) (rev x @ [], y @ ?s, None))" using list.set_sel(1) by blast
    then obtain sp r where sp: "y @ ?s = (''#define'' @ sp @ ?name) @ r" "list_all is_space sp"
      unfolding macro_pattern_def by (rule literals_match)
    have no_hash: "CHR ''#'' \<notin> set (tl (''#define'' @ sp @ ?name))"
      using hash sp(2) by (auto simp: list_all_iff is_space_def)
    from sp(1) show False
    proof (cases rule: append_overlap)
      case (1 us)
      then have "pre = (x @ ''#define'' @ sp) @ ?name @ us" using xy(1) by simp
      with d(2) show False unfolding sublist_def by blast
    next
      case (2 us)
      then have "hd us = CHR ''#''" by (cases us) auto
      moreover have "hd us \<in> set (tl (''#define'' @ sp @ ?name))"
        using 2(1,2) xy(2) by (cases y; cases us) auto
      ultimately show False using no_hash by simp
    qed
  qed
  have nd: "sp2 @ n @ rest = [] \<or> \<not> is_space (hd (n @ rest))" "n @ rest = [] \<or> \<not> is_space (hd (n @ rest))"
    using d(7,8) by (cases n; auto simp: is_digit_def is_space_def Let_def)+
  have "\<exists>b'. first (macro_pattern part) (rev pre, ?s, None) (b', rest, Some n)"
    unfolding macro_pattern_def
    by (intro exI) (rule first_sequence first_literal first_Some_of first_Group d nd refl | simp add: is_space_def)+
  then obtain b' where "search_from (macro_pattern part) (rev pre @ []) ?s = Some (b', rest, Some n)"
    using search_first by auto
  with search_skip [of pre "macro_pattern part" "[]" ?s, OF skip]
  have "re_search (macro_pattern part) content = Some (b', rest, Some n)" by (simp add: re_search_def d(1))
  then show ?thesis by (auto simp: group1_def)
qed

section \<open>Validation\<close>

lemma map_of_add_version:
  "map_of (add_version k v d) k' = (if k' = k \<and> v \<noteq> None then v else map_of d k')"
  by (cases v) (simp_all add: add_version_def map_of_update)

lemma manifest_versions:
  "map_of (get_manifest_versions repo) ''python'' = declared repo ''sdk/python/pyproject.toml'' (assignment_pattern ''version'')"
  "map_of (get_manifest_versions repo) ''python_init''
     = declared repo ''sdk/python/src/usmp/__init__.py'' (assignment_pattern ''__version__'')"
  "map_of (get_manifest_versions repo) ''arduino'' = declared repo ''ports/usmp-arduino/library.properties'' properties_pattern"
  "map_of (get_manifest_versions repo) ''esp32'' = declared repo ''ports/usmp-esp32/idf_component.yml'' yaml_pattern"
  "map_of (get_manifest_versions repo) ''workspace'' = declared repo ''pyproject.toml'' (assignment_pattern ''version'')"
  "map_of (get_manifest_versions repo) ''c_core'' = core_version repo"
  by (simp_all add: get_manifest_versions_def map_of_add_version)

lemma semver_base: "is_semver v \<Longrightarrow> v \<noteq> [] \<and> base_version v \<noteq> []"
  by (auto simp: is_semver_iff base_version_def neq_Nil_conv)

text \<open>
  What the manifests say: \<open>vs\<close> gives the version that each declares, in one of the forms above, or none
  if the file does not exist or has no line that starts with the name (in the header, if one of the
  macros does not occur).  A manifest that does neither, one with an empty version for instance, is
  not described.
\<close>

definition no_line :: "string \<Rightarrow> string \<Rightarrow> bool" where
  "no_line name content \<longleftrightarrow> \<not> startswith content name \<and> \<not> sublist (newline # name) content"

definition declares_macros :: "string \<Rightarrow> string \<Rightarrow> bool" where
  "declares_macros v content \<longleftrightarrow>
     (\<exists>n1 n2 n3. v = n1 @ ''.'' @ n2 @ ''.'' @ n3 \<and> declares_macro ''MAJOR'' n1 content
        \<and> declares_macro ''MINOR'' n2 content \<and> declares_macro ''PATCH'' n3 content)"

definition no_macros :: "string \<Rightarrow> bool" where
  "no_macros content \<longleftrightarrow> (\<exists>part\<in>{''MAJOR'', ''MINOR'', ''PATCH''}. \<not> sublist (''USMP_VERSION_'' @ part) content)"

definition manifest_forms :: "(string \<times> string \<times> (string \<Rightarrow> string \<Rightarrow> bool) \<times> (string \<Rightarrow> bool)) list" where
  "manifest_forms =
     [(''python'', ''sdk/python/pyproject.toml'', declares_assignment ''version'', no_line ''version''),
      (''python_init'', ''sdk/python/src/usmp/__init__.py'', declares_assignment ''__version__'', no_line ''__version__''),
      (''arduino'', ''ports/usmp-arduino/library.properties'', declares_property, no_line ''version''),
      (''esp32'', ''ports/usmp-esp32/idf_component.yml'', declares_yaml, no_line ''version''),
      (''workspace'', ''pyproject.toml'', declares_assignment ''version'', no_line ''version''),
      (''c_core'', ''core/include/usmp.h'', declares_macros, no_macros)]"

definition states :: "repository \<Rightarrow> string \<Rightarrow> (string \<Rightarrow> string \<Rightarrow> bool) \<Rightarrow> (string \<Rightarrow> bool) \<Rightarrow> string option \<Rightarrow> bool" where
  "states repo path declares silent v \<longleftrightarrow>
     (case v of
        Some w \<Rightarrow> version_text w \<and> (\<exists>c. map_of repo path = Some c \<and> declares w c)
      | None \<Rightarrow> \<forall>c. map_of repo path = Some c \<longrightarrow> silent c)"

definition manifests_state :: "repository \<Rightarrow> (string \<Rightarrow> string option) \<Rightarrow> bool" where
  "manifests_state repo vs \<longleftrightarrow>
     (\<forall>(key, path, declares, silent) \<in> set manifest_forms. states repo path declares silent (vs key))"

text \<open>What a release of \<open>v\<close> requires: the manifests of its target, all of them for \<open>all\<close>, and the versions.\<close>

definition required :: "string \<Rightarrow> string \<Rightarrow> (string \<times> string) list" where
  "required target v =
     filter (\<lambda>(key, _). target = ''all'' \<or> key = target \<or> target = ''python'' \<and> key = ''python_init'')
       [(''python'', v), (''python_init'', v), (''arduino'', v), (''esp32'', v), (''workspace'', v), (''c_core'', base_version v)]"

definition complaint :: "(string \<Rightarrow> string option) \<Rightarrow> string \<times> string \<Rightarrow> manifest_error list" where
  "complaint vs r =
     (case r of (key, w) \<Rightarrow>
        (case vs key of None \<Rightarrow> [Missing key] | Some v \<Rightarrow> if v = w then [] else [Mismatch key v]))"

lemma no_line_search:
  assumes r: "line_pattern r name" and c: "no_line name c"
  shows "re_search r c = None"
proof -
  have "matches r (rev x @ [], y, None) = []" if xy: "c = x @ y" for x y
  proof (rule ccontr)
    assume "matches r (rev x @ [], y, None) \<noteq> []"
    with r have m: "x = [] \<or> hd (rev x) = newline" "startswith y name" by (auto simp: line_pattern_def)
    show False
    proof (cases x rule: rev_cases)
      case Nil
      with m(2) c xy show False by (simp add: no_line_def)
    next
      case (snoc x' ch)
      with m obtain u where "y = name @ u" "ch = newline" by (auto simp: startswith_iff)
      with snoc xy have "c = x' @ (newline # name) @ u" by simp
      then have "sublist (newline # name) c" unfolding sublist_def by blast
      with c show False by (simp add: no_line_def)
    qed
  qed
  then show ?thesis by (simp add: re_search_def search_None)
qed

lemma no_macro_search:
  assumes "\<not> sublist (''USMP_VERSION_'' @ part) c"
  shows "re_search (macro_pattern part) c = None"
proof -
  have "matches (macro_pattern part) (rev x @ [], y, None) = []" if xy: "c = x @ y" for x y
  proof (rule ccontr)
    assume "matches (macro_pattern part) (rev x @ [], y, None) \<noteq> []"
    then obtain m where "m \<in> set (matches (macro_pattern part) (rev x @ [], y, None))" using list.set_sel(1) by blast
    then obtain sp r where "y = (''#define'' @ sp @ (''USMP_VERSION_'' @ part)) @ r"
      unfolding macro_pattern_def by (rule literals_match)
    then have "c = (x @ ''#define'' @ sp) @ (''USMP_VERSION_'' @ part) @ r" by (simp add: xy)
    with assms show False unfolding sublist_def by blast
  qed
  then show ?thesis by (simp add: re_search_def search_None)
qed

lemma declared_none:
  assumes "line_pattern r name" and "\<And>c. map_of repo path = Some c \<Longrightarrow> no_line name c"
  shows "declared repo path r = None"
  using no_line_search [OF assms(1) assms(2)] by (auto simp: declared_def split: option.split)

text \<open>The script reads every manifest as it is meant.\<close>

lemma assignment_read:
  "states repo path (declares_assignment name) (no_line name) v \<Longrightarrow> newline \<notin> set name \<Longrightarrow>
   declared repo path (assignment_pattern name) = v"
  using declared_assignment [of name _ _ repo path] declared_none [OF line_patterns(1), of repo path name]
  by (auto simp: states_def split: option.splits)

lemma property_read:
  "states repo path declares_property (no_line ''version'') v \<Longrightarrow> declared repo path properties_pattern = v"
  using declared_property [of _ _ repo path] declared_none [OF line_patterns(2), of repo path]
  by (auto simp: states_def split: option.splits)

lemma yaml_read:
  "states repo path declares_yaml (no_line ''version'') v \<Longrightarrow> declared repo path yaml_pattern = v"
  using declared_yaml [of _ _ repo path] declared_none [OF line_patterns(3), of repo path]
  by (auto simp: states_def split: option.splits)

lemma core_version_read:
  assumes "states repo ''core/include/usmp.h'' declares_macros no_macros v"
  shows "core_version repo = v"
proof (cases v)
  case None
  have "\<exists>part\<in>{''MAJOR'', ''MINOR'', ''PATCH''}. re_search (macro_pattern part) c = None" if "no_macros c" for c
    using that no_macro_search unfolding no_macros_def by blast
  with assms None show ?thesis by (auto simp: states_def core_version_def split: option.split) fastforce+
next
  case (Some w)
  have hash: "CHR ''#'' \<notin> set ''MAJOR''" "CHR ''#'' \<notin> set ''MINOR''" "CHR ''#'' \<notin> set ''PATCH''" by simp_all
  from assms Some obtain c n1 n2 n3 where c: "map_of repo ''core/include/usmp.h'' = Some c"
    "declares_macro ''MAJOR'' n1 c" "declares_macro ''MINOR'' n2 c" "declares_macro ''PATCH'' n3 c"
    "w = n1 @ ''.'' @ n2 @ ''.'' @ n3" by (auto simp: states_def declares_macros_def)
  from macro_search [OF c(2) hash(1)] macro_search [OF c(3) hash(2)] macro_search [OF c(4) hash(3)] c(1,5) Some
  show ?thesis by (auto simp: core_version_def)
qed

lemma check_version_complaint:
  assumes "states repo path declares silent (vs key)" and "map_of d key = vs key" and "expected \<noteq> []"
  shows "check_version d key expected = complaint vs (key, expected)"
  using assms by (auto simp: check_version_def complaint_def states_def version_text_def split: option.splits)

lemma checks:
  assumes "manifests_state repo vs" and w: "w \<noteq> []"
  shows "check_version (get_manifest_versions repo) ''python'' w = complaint vs (''python'', w)"
    "check_version (get_manifest_versions repo) ''python_init'' w = complaint vs (''python_init'', w)"
    "check_version (get_manifest_versions repo) ''arduino'' w = complaint vs (''arduino'', w)"
    "check_version (get_manifest_versions repo) ''esp32'' w = complaint vs (''esp32'', w)"
    "check_version (get_manifest_versions repo) ''workspace'' w = complaint vs (''workspace'', w)"
    "check_version (get_manifest_versions repo) ''c_core'' w = complaint vs (''c_core'', w)"
proof -
  have st: "states repo ''sdk/python/pyproject.toml'' (declares_assignment ''version'') (no_line ''version'') (vs ''python'')"
    "states repo ''sdk/python/src/usmp/__init__.py'' (declares_assignment ''__version__'') (no_line ''__version__'') (vs ''python_init'')"
    "states repo ''ports/usmp-arduino/library.properties'' declares_property (no_line ''version'') (vs ''arduino'')"
    "states repo ''ports/usmp-esp32/idf_component.yml'' declares_yaml (no_line ''version'') (vs ''esp32'')"
    "states repo ''pyproject.toml'' (declares_assignment ''version'') (no_line ''version'') (vs ''workspace'')"
    "states repo ''core/include/usmp.h'' declares_macros no_macros (vs ''c_core'')"
    using assms(1) by (simp_all add: manifests_state_def manifest_forms_def)
  have nl: "newline \<notin> set ''version''" "newline \<notin> set ''__version__''" by simp_all
  note read = assignment_read [OF st(1) nl(1)] assignment_read [OF st(2) nl(2)] property_read [OF st(3)] yaml_read [OF st(4)]
    assignment_read [OF st(5) nl(1)] core_version_read [OF st(6)]
  show "check_version (get_manifest_versions repo) ''python'' w = complaint vs (''python'', w)"
    by (rule check_version_complaint [where vs = vs, OF st(1) _ w]) (simp only: manifest_versions read)
  show "check_version (get_manifest_versions repo) ''python_init'' w = complaint vs (''python_init'', w)"
    by (rule check_version_complaint [where vs = vs, OF st(2) _ w]) (simp only: manifest_versions read)
  show "check_version (get_manifest_versions repo) ''arduino'' w = complaint vs (''arduino'', w)"
    by (rule check_version_complaint [where vs = vs, OF st(3) _ w]) (simp only: manifest_versions read)
  show "check_version (get_manifest_versions repo) ''esp32'' w = complaint vs (''esp32'', w)"
    by (rule check_version_complaint [where vs = vs, OF st(4) _ w]) (simp only: manifest_versions read)
  show "check_version (get_manifest_versions repo) ''workspace'' w = complaint vs (''workspace'', w)"
    by (rule check_version_complaint [where vs = vs, OF st(5) _ w]) (simp only: manifest_versions read)
  show "check_version (get_manifest_versions repo) ''c_core'' w = complaint vs (''c_core'', w)"
    by (rule check_version_complaint [where vs = vs, OF st(6) _ w]) (simp only: manifest_versions read)
qed

lemma tag_errors_required:
  assumes st: "manifests_state repo vs" and "(target, p, fl) \<in> set tag_table" and v: "is_semver v"
  shows "tag_errors (get_manifest_versions repo) target v fl = concat (map (complaint vs) (required target v))"
proof -
  from semver_base [OF v] have "v \<noteq> []" "base_version v \<noteq> []" by simp_all
  note c = checks [OF st this(1)] checks(6) [OF st this(2)]
  from assms(2) consider "target = ''python''" "fl = \<lparr>fl_python = True, fl_arduino = False, fl_esp32 = False\<rparr>"
    | "target = ''arduino''" "fl = \<lparr>fl_python = False, fl_arduino = True, fl_esp32 = False\<rparr>"
    | "target = ''esp32''" "fl = \<lparr>fl_python = False, fl_arduino = False, fl_esp32 = True\<rparr>"
    | "target = ''all''" "fl = \<lparr>fl_python = True, fl_arduino = True, fl_esp32 = True\<rparr>"
    by (simp add: tag_table_def) blast
  then show ?thesis by cases (simp_all add: tag_errors_def required_def c)
qed

lemma no_complaints: "concat (map (complaint vs) rs) = [] \<longleftrightarrow> (\<forall>(key, w)\<in>set rs. vs key = Some w)"
  by (auto simp: complaint_def split: option.splits if_splits)

lemma validate_tag_release:
  assumes st: "manifests_state repo vs" and t: "(target, p, fl) \<in> set tag_table" "strip raw = p @ ''v'' @ v" "is_semver v"
  shows "validate_tag writable repo raw gh files =
    (let errors = concat (map (complaint vs) (required target v)) in
     if errors \<noteq> [] then (1, errors, files)
     else case gh of
       Some path \<Rightarrow>
         if path = [] then (0, [], files)
         else if writable path then (0, [], append_text path (output_lines (''v'' @ v) v target fl) files)
         else (1, [], files)
     | None \<Rightarrow> (0, [], files))"
  unfolding validate_tag_def parse_tag_prefixed [OF t(2,1)]
  by (simp only: t(3) if_True sum.case prod.case Let_def tag_errors_required [OF st t(1,3)])

text \<open>
  C35: the check of a release decides what it is meant to: for a repository whose manifests declare the
  versions \<open>vs\<close>, or none, each in its usual form, the status is 0 exactly if the tag is a prefix of the table, the
  letter v and a version, every manifest that its target covers declares exactly that version (the
  macros of the C core the version without its pre-release suffix), and the output file, if one is given, can be
  written; the errors name, in order, the manifests without a version and those with another one, and
  which; and the six lines are appended to the output file on success, and no file is
  changed otherwise.\<close>

theorem validate_tag_correct:
  assumes "manifests_state repo vs" and "validate_tag writable repo raw gh files = (status, errors, files')"
  shows "(status = 0 \<longleftrightarrow>
        (\<exists>target p fl v. (target, p, fl) \<in> set tag_table \<and> strip raw = p @ ''v'' @ v \<and> is_semver v
           \<and> (\<forall>(key, w)\<in>set (required target v). vs key = Some w))
        \<and> (\<forall>path. gh = Some path \<longrightarrow> path = [] \<or> writable path))
    \<and> (\<forall>target p fl v. (target, p, fl) \<in> set tag_table \<and> strip raw = p @ ''v'' @ v \<and> is_semver v \<longrightarrow>
         errors = concat (map (complaint vs) (required target v))
         \<and> (\<forall>path. status = 0 \<and> gh = Some path \<and> path \<noteq> [] \<longrightarrow>
              files' = append_text path (output_lines (''v'' @ v) v target fl) files))
    \<and> (gh = None \<or> gh = Some [] \<or> status \<noteq> 0 \<longrightarrow> files' = files) \<and> status \<in> {0, 1}"
proof (cases "\<exists>target p fl v. (target, p, fl) \<in> set tag_table \<and> strip raw = p @ ''v'' @ v \<and> is_semver v")
  case False
  then have "parse_tag raw = Inl ValueError"
    using parse_tag_other [of raw] parse_tag_prefixed [of raw] by metis
  with assms(2) have "status = 1 \<and> files' = files" by (simp add: validate_tag_def)
  with False show ?thesis by auto
next
  case True
  then obtain target p fl v where t: "(target, p, fl) \<in> set tag_table" "strip raw = p @ ''v'' @ v" "is_semver v" by blast
  have same: "target' = target \<and> p' = p \<and> fl' = fl \<and> v' = v"
    if "(target', p', fl') \<in> set tag_table" "strip raw = p' @ ''v'' @ v'" "is_semver v'" for target' p' fl' v'
    using parse_tag_prefixed [OF t(2,1)] parse_tag_prefixed [OF that(2,1)] t that by auto
  define E where "E = concat (map (complaint vs) (required target v))"
  note run = validate_tag_release [OF assms(1) t, of writable gh files, unfolded assms(2) Let_def, folded E_def]
  have "status = 0 \<longleftrightarrow> E = [] \<and> (\<forall>path. gh = Some path \<longrightarrow> path = [] \<or> writable path)" "errors = E" "status \<in> {0, 1}"
    "gh = None \<or> gh = Some [] \<or> status \<noteq> 0 \<longrightarrow> files' = files"
    "\<forall>path. status = 0 \<and> gh = Some path \<and> path \<noteq> [] \<longrightarrow> files' = append_text path (output_lines (''v'' @ v) v target fl) files"
    using run by (cases gh; auto split: if_splits)+
  note run = this
  have "E = [] \<longleftrightarrow> (\<forall>(key, w)\<in>set (required target v). vs key = Some w)" unfolding E_def by (rule no_complaints)
  then have "E = [] \<longleftrightarrow> (\<exists>target p fl v. (target, p, fl) \<in> set tag_table \<and> strip raw = p @ ''v'' @ v \<and> is_semver v
      \<and> (\<forall>(key, w)\<in>set (required target v). vs key = Some w))"
    using t same by blast
  note accepted = run(1) [unfolded this]
  have "errors = concat (map (complaint vs) (required target' v'))
      \<and> (\<forall>path. status = 0 \<and> gh = Some path \<and> path \<noteq> [] \<longrightarrow>
           files' = append_text path (output_lines (''v'' @ v') v' target' fl') files)"
    if "(target', p', fl') \<in> set tag_table \<and> strip raw = p' @ ''v'' @ v' \<and> is_semver v'" for target' p' fl' v'
  proof -
    from that have "target' = target" "fl' = fl" "v' = v" using same [of target' p' fl' v'] by simp_all
    with run(2,5) show ?thesis by (simp add: E_def)
  qed
  then have "\<forall>target p fl v. (target, p, fl) \<in> set tag_table \<and> strip raw = p @ ''v'' @ v \<and> is_semver v \<longrightarrow>
      errors = concat (map (complaint vs) (required target v))
      \<and> (\<forall>path. status = 0 \<and> gh = Some path \<and> path \<noteq> [] \<longrightarrow>
           files' = append_text path (output_lines (''v'' @ v) v target fl) files)" by blast
  with accepted run(3,4) show ?thesis by (intro conjI)
qed

text \<open>
  An empty version in \<open>library.properties\<close> is not missing: \<open>\s*\<close> after the equals sign runs
  over the end of the line, and the text of the next line is taken for the version.
\<close>

lemma empty_version_reads_next_line:
  assumes "before_line ''version'' ls" and "line \<noteq> []" "newline \<notin> set line" "\<not> is_space (hd line)"
    and "map_of repo path = Some (unlines ls @ ''version='' @ newline # line @ newline # rest)"
  shows "declared repo path properties_pattern = Some (strip line)"
  using declared_line [of ls "[]" "[newline]" line "newline # rest" repo path] assms by (simp add: is_space_def)

section \<open>A release\<close>

abbreviation demo_version :: string where "demo_version \<equiv> ''1.2.1''"

definition demo_toml :: string where
  "demo_toml = unlines [''[project]'', ''name = usmp''] @ ''version'' @ '' '' @ ''='' @ '' '' @ CHR 0x22 # demo_version @ CHR 0x22 # [newline]"

definition demo_init :: string where
  "demo_init = unlines [] @ ''__version__'' @ '' '' @ ''='' @ '' '' @ CHR 0x22 # demo_version @ CHR 0x22 # [newline]"

definition demo_properties :: string where
  "demo_properties = unlines [''name=usmp''] @ ''version'' @ [] @ ''='' @ [] @ demo_version @ [newline]"

definition demo_yaml :: string where
  "demo_yaml = unlines [] @ ''version'' @ [] @ '':'' @ '' '' @ [CHR 0x22] @ demo_version @ [CHR 0x22]"

definition demo_header :: string where
  "demo_header = ''#define USMP_VERSION_MAJOR 1'' @ [newline] @ ''#define USMP_VERSION_MINOR 2'' @ [newline]
     @ ''#define USMP_VERSION_PATCH 1'' @ [newline]"

definition demo_repository :: repository where
  "demo_repository =
     [(''sdk/python/pyproject.toml'', demo_toml), (''sdk/python/src/usmp/__init__.py'', demo_init),
      (''ports/usmp-arduino/library.properties'', demo_properties),
      (''ports/usmp-esp32/idf_component.yml'', demo_yaml), (''pyproject.toml'', demo_toml),
      (''core/include/usmp.h'', demo_header)]"

lemma demo_declares:
  "declares_assignment ''version'' demo_version demo_toml" "declares_assignment ''__version__'' demo_version demo_init"
  "declares_property demo_version demo_properties" "declares_yaml demo_version demo_yaml"
proof -
  show "declares_assignment ''version'' demo_version demo_toml"
    unfolding declares_assignment_def demo_toml_def
    by (intro exI conjI, rule refl) (simp_all add: before_line_def blanks_def is_space_def quote_def)
  show "declares_assignment ''__version__'' demo_version demo_init"
    unfolding declares_assignment_def demo_init_def
    by (intro exI conjI, rule refl) (simp_all add: before_line_def blanks_def is_space_def quote_def)
  show "declares_property demo_version demo_properties"
    unfolding declares_property_def demo_properties_def
    by (intro exI conjI, rule refl) (simp_all add: before_line_def blanks_def)
  show "declares_yaml demo_version demo_yaml"
    unfolding declares_yaml_def demo_yaml_def
    by (intro exI conjI, rule refl) (simp_all add: before_line_def blanks_def is_space_def quote_def)
qed

lemma demo_macros:
  "declares_macro ''MAJOR'' ''1'' demo_header" "declares_macro ''MINOR'' ''2'' demo_header"
  "declares_macro ''PATCH'' ''1'' demo_header"
proof -
  have macro: "demo_header = pre @ ''#define'' @ '' '' @ (''USMP_VERSION_'' @ part) @ '' '' @ n @ rest \<Longrightarrow>
      \<not> sublist (''USMP_VERSION_'' @ part) pre \<Longrightarrow> n \<noteq> [] \<Longrightarrow> list_all is_digit n \<Longrightarrow>
      rest = [] \<or> \<not> is_digit (hd rest) \<Longrightarrow> declares_macro part n demo_header" for pre part n rest
    unfolding declares_macro_def
    by (intro exI [of _ pre] exI [of _ "'' ''"] exI [of _ rest]) (simp add: blanks_def)
  show "declares_macro ''MAJOR'' ''1'' demo_header"
    by (rule macro [of "[]" _ _ "newline # ''#define USMP_VERSION_MINOR 2'' @ newline # ''#define USMP_VERSION_PATCH 1'' @ [newline]"])
      (simp_all add: demo_header_def is_digit_def)
  have "\<not> sublist ''USMP_VERSION_MINOR'' (''#define USMP_VERSION_MAJOR 1'' @ [newline])" by code_simp
  then show "declares_macro ''MINOR'' ''2'' demo_header"
    by (intro macro [of "''#define USMP_VERSION_MAJOR 1'' @ [newline]" _ _ "newline # ''#define USMP_VERSION_PATCH 1'' @ [newline]"])
      (simp_all add: demo_header_def is_digit_def)
  have "\<not> sublist ''USMP_VERSION_PATCH'' (''#define USMP_VERSION_MAJOR 1'' @ [newline] @ ''#define USMP_VERSION_MINOR 2'' @ [newline])"
    by code_simp
  then show "declares_macro ''PATCH'' ''1'' demo_header"
    by (intro macro [of "''#define USMP_VERSION_MAJOR 1'' @ [newline] @ ''#define USMP_VERSION_MINOR 2'' @ [newline]" _ _ "[newline]"])
      (simp_all add: demo_header_def is_digit_def)
qed

theorem validate_tag_correct_witness:
  "validate_tag (\<lambda>_. True) demo_repository ''v1.2.1'' (Some ''out'') [] = (0, [],
     append_text ''out'' (output_lines ''v1.2.1'' demo_version ''all'' \<lparr>fl_python = True, fl_arduino = True, fl_esp32 = True\<rparr>) [])"
proof -
  let ?all = "\<lparr>fl_python = True, fl_arduino = True, fl_esp32 = True\<rparr>"
  have "declares_macros demo_version demo_header"
    unfolding declares_macros_def using demo_macros by (intro exI conjI) simp_all
  moreover have "version_text demo_version" by code_simp
  ultimately have st: "manifests_state demo_repository (\<lambda>_. Some demo_version)"
    using demo_declares by (simp add: manifests_state_def manifest_forms_def states_def demo_repository_def)
  obtain status errors files where r:
    "validate_tag (\<lambda>_. True) demo_repository ''v1.2.1'' (Some ''out'') [] = (status, errors, files)" by (metis prod.collapse)
  have t: "(''all'', [], ?all) \<in> set tag_table" "strip ''v1.2.1'' = [] @ ''v'' @ demo_version" "is_semver demo_version"
    by (simp add: tag_table_def, code_simp+)
  have req: "\<forall>(key, w)\<in>set (required ''all'' demo_version). Some demo_version = Some w" by (simp add: required_def base_version_def)
  have "concat (map (complaint (\<lambda>_. Some demo_version)) (required ''all'' demo_version)) = []"
    using req unfolding no_complaints .
  with validate_tag_correct [OF st r] t req r show ?thesis by fastforce
qed

end
