(* ===== verification/ReleaseNotes.thy ===== *)
theory ReleaseNotes
  imports ReleaseTag
begin

text \<open>
  \<open>scripts/extract-release-notes.py\<close>: the section of the change log that belongs to a release
  tag, and the file it is written to.  Files are a dictionary from paths to texts.
\<close>

section \<open>Tags\<close>

definition parse_tag_info :: "string \<Rightarrow> string \<times> string \<times> string" where
  "parse_tag_info raw_tag =
     (let tag = strip raw_tag in
      if startswith tag ''python-v'' then
        (let semver = removeprefix tag ''python-v'' in (semver, ''python'', ''USMP Python SDK v'' @ semver))
      else if startswith tag ''arduino-v'' then
        (let semver = removeprefix tag ''arduino-v'' in (semver, ''arduino'', ''USMP Arduino Port v'' @ semver))
      else if startswith tag ''esp-v'' then
        (let semver = removeprefix tag ''esp-v'' in (semver, ''esp32'', ''USMP ESP32 Port v'' @ semver))
      else if startswith tag ''v'' then
        (let semver = removeprefix tag ''v'' in (semver, ''core'', ''USMP v'' @ semver))
      else (tag, ''custom'', ''USMP Release '' @ tag))"

section \<open>The section of a version\<close>

text \<open>
  \<open>\n##\s+\[|\Z\<close>, what ends a section, and
  \<open>(?m)^##\s+\[(?:v)?VERSION\](?:[^\n]*)\n([\s\S]*?)(?=\<dots>)\<close>; \<open>re.escape\<close> makes a literal of the
  version.
\<close>

definition end_pattern :: regex where
  "end_pattern = Alt (sequence [literal (newline # ''##''), Some_of is_space, Class ((=) CHR ''['')]) Text_end"

definition section_pattern :: "string \<Rightarrow> regex" where
  "section_pattern version =
     sequence [Line_start, literal ''##'', Some_of is_space, Class ((=) CHR ''[''), Optional (Class ((=) CHR ''v'')),
       literal version, Class ((=) CHR '']''), Many (\<lambda>c. c \<noteq> newline), Class ((=) newline),
       Group (Few (\<lambda>_. True)), Ahead end_pattern]"

text \<open>\<open>\n---\s*$\<close>.\<close>

definition rule_pattern :: regex where
  "rule_pattern = sequence [literal (newline # ''---''), Many is_space, End]"

definition trim_section :: "string \<Rightarrow> string" where
  "trim_section body = strip (re_sub rule_pattern [] (strip body))"

type_synonym files = "(string, string) dict"

definition extract_changelog_section :: "files \<Rightarrow> string \<Rightarrow> string \<Rightarrow> string option \<times> bool" where
  "extract_changelog_section fs changelog_path semver =
     (case map_of fs changelog_path of
        None \<Rightarrow> (None, False)
      | Some content \<Rightarrow>
          (case re_search (section_pattern semver) content of
             Some m \<Rightarrow> (Some (trim_section (group1 m)), True)
           | None \<Rightarrow> (None, False)))"

section \<open>The script\<close>

definition fallback_notes :: "string \<Rightarrow> string \<Rightarrow> string" where
  "fallback_notes title semver =
     ''## '' @ title @ [newline, newline] @ ''> [!NOTE]'' @ [newline]
     @ ''> Detailed release notes were not found in `CHANGELOG.md` for version `'' @ semver
     @ ''`. See the automated pull request changelog below.''"

text \<open>The section of the version, or else of the version without its pre-release part.\<close>

definition find_notes :: "files \<Rightarrow> string \<Rightarrow> string \<Rightarrow> string option \<times> bool" where
  "find_notes fs changelog_path semver =
     (case extract_changelog_section fs changelog_path semver of
        (notes, found) \<Rightarrow>
          if \<not> found \<and> CHR ''-'' \<in> set semver
          then extract_changelog_section fs changelog_path (base_version semver)
          else (notes, found))"

definition final_notes :: "string option \<times> bool \<Rightarrow> string \<Rightarrow> string \<Rightarrow> string" where
  "final_notes r title semver =
     (case r of (Some notes, True) \<Rightarrow> if notes \<noteq> [] then notes else fallback_notes title semver
      | _ \<Rightarrow> fallback_notes title semver)"

text \<open>\<open>main\<close>; \<open>resolve\<close> is \<open>Path.resolve().as_posix()\<close>.\<close>

definition notes_main ::
  "(string \<Rightarrow> string) \<Rightarrow> string \<Rightarrow> string \<Rightarrow> string \<Rightarrow> string \<Rightarrow> files \<Rightarrow> int \<times> files" where
  "notes_main resolve tag changelog_path output_path gh_output fs =
     (let (semver, component, title) = parse_tag_info tag;
          r = find_notes fs changelog_path semver;
          fs = AList.update output_path (strip (final_notes r title semver) @ [newline]) fs;
          fs = (if gh_output \<noteq> [] \<and> map_of fs gh_output \<noteq> None
                then append_text gh_output
                  (concat (map (\<lambda>(k, v). k @ ''='' @ v @ [newline])
                    [(''title'', title), (''semver'', semver), (''component'', component),
                     (''has_changelog'', bool_str (snd r)), (''notes_file'', resolve output_path)])) fs
                else fs)
      in (0, fs))"

section \<open>Both scripts read a tag alike\<close>

definition component_of :: "string \<Rightarrow> string" where
  "component_of target = (if target = ''all'' then ''core'' else target)"

definition title_of :: "string \<Rightarrow> string" where
  "title_of target =
     (if target = ''python'' then ''USMP Python SDK '' else if target = ''arduino'' then ''USMP Arduino Port ''
      else if target = ''esp32'' then ''USMP ESP32 Port '' else ''USMP '')"

lemma parse_tag_info_prefixed:
  assumes "(t, p, fl) \<in> set tag_table" and "strip raw = p @ ''v'' @ u"
  shows "parse_tag_info raw = (u, component_of t, title_of t @ ''v'' @ u)"
proof -
  consider "t = ''python''" "p = ''python-''" | "t = ''arduino''" "p = ''arduino-''" | "t = ''esp32''" "p = ''esp-''"
    | "t = ''all''" "p = []" using assms(1) by (auto simp: tag_table_def)
  then show ?thesis
    by cases (simp_all add: parse_tag_info_def assms(2) Let_def removeprefix_def component_of_def title_of_def)
qed

lemma parse_tag_info_other:
  assumes "\<And>t p fl u. (t, p, fl) \<in> set tag_table \<Longrightarrow> strip raw \<noteq> p @ ''v'' @ u"
  shows "parse_tag_info raw = (strip raw, ''custom'', ''USMP Release '' @ strip raw)"
proof -
  have "\<forall>(t, p, fl) \<in> set tag_table. \<not> startswith (strip raw) (p @ ''v'')"
    using assms by (auto simp: startswith_iff)
  then show ?thesis by (simp add: tag_table_def parse_tag_info_def Let_def)
qed

lemma parsers_agree:
  "parse_tag raw = Inr (target, clean, semver, fl) \<longleftrightarrow>
     is_semver semver \<and> clean = ''v'' @ semver \<and> (\<exists>p. (target, p, fl) \<in> set tag_table)
     \<and> parse_tag_info raw = (semver, component_of target, title_of target @ clean)"
proof (cases "\<exists>t p fl u. (t, p, fl) \<in> set tag_table \<and> strip raw = p @ ''v'' @ u")
  case True
  then obtain t p fl' u where u: "(t, p, fl') \<in> set tag_table" "strip raw = p @ ''v'' @ u" by blast
  have "t = target \<longleftrightarrow> component_of t = component_of target" "target = t \<Longrightarrow> fl' = fl"
    if "(target, p', fl) \<in> set tag_table" for p'
    using u(1) that by (auto simp: tag_table_def component_of_def)
  with u(1) parse_tag_prefixed [OF u(2,1)] parse_tag_info_prefixed [OF u] show ?thesis by auto
next
  case False
  then have "parse_tag raw = Inl ValueError" "parse_tag_info raw = (strip raw, ''custom'', ''USMP Release '' @ strip raw)"
    using parse_tag_other [of raw] parse_tag_info_other [of raw] by blast+
  then show ?thesis by (auto simp: tag_table_def component_of_def)
qed

text \<open>
  The two release scripts read a tag alike: for every tag that the validation accepts, the notes
  are extracted for the same version and component (the core for a release of everything), and
  titled with the same tag; and the validation accepts every tag that the extraction reads as
  a component and a version.\<close>

theorem tag_parsers_agree:
  "parse_tag raw = Inr (target, clean, semver, fl) \<longleftrightarrow>
     is_semver semver \<and> clean = ''v'' @ semver \<and> (\<exists>p. (target, p, fl) \<in> set tag_table)
     \<and> parse_tag_info raw = (semver, component_of target, title_of target @ clean)"
  by (rule parsers_agree)

section \<open>The section that is found\<close>

text \<open>
  A change log as its authors see it: some text, and for every version a heading and the text below
  it.  \<open>plain s\<close>: no line in \<open>s\<close> after the first looks like the heading of a version.
\<close>

definition heading_at :: "string \<Rightarrow> bool" where
  "heading_at s \<longleftrightarrow> take 2 s = ''##'' \<and> takeWhile is_space (drop 2 s) \<noteq> []
     \<and> take 1 (dropWhile is_space (drop 2 s)) = ''[''"

primrec plain :: "string \<Rightarrow> bool" where
  "plain [] \<longleftrightarrow> True"
| "plain (c # s) \<longleftrightarrow> (c = newline \<longrightarrow> \<not> heading_at s) \<and> plain s"

type_synonym entry = "string \<times> string \<times> string"  \<comment> \<open>version, rest of the heading, text\<close>

definition entry_ok :: "entry \<Rightarrow> bool" where
  "entry_ok e = (case e of (w, title, body) \<Rightarrow>
     newline \<notin> set w \<and> CHR '']'' \<notin> set w \<and> newline \<notin> set title \<and> plain (newline # body))"

definition entry_text :: "entry \<Rightarrow> string" where
  "entry_text e = (case e of (w, title, body) \<Rightarrow> ''## ['' @ w @ '']'' @ title @ [newline] @ body @ [newline])"

definition intro_ok :: "string \<Rightarrow> bool" where
  "intro_ok s \<longleftrightarrow> (s = [] \<or> last s = newline) \<and> plain (newline # s)"

definition changelog_text :: "string \<Rightarrow> entry list \<Rightarrow> string" where
  "changelog_text intro es = intro @ concat (map entry_text es)"

fun entry_of :: "string \<Rightarrow> entry list \<Rightarrow> string option" where
  "entry_of version [] = None"
| "entry_of version ((w, _, body) # es) =
     (if w = version \<or> w = ''v'' @ version then Some body else entry_of version es)"

text \<open>What is published of a section: its text without a final rule and without surrounding space.\<close>

definition without_rule :: "string \<Rightarrow> string" where
  "without_rule s = (if suffix (newline # ''---'') s then take (length s - 4) s else s)"

definition section_notes :: "string \<Rightarrow> string" where
  "section_notes body = strip (without_rule (strip body))"

subsection \<open>Headings\<close>

lemma heading_at_iff: "heading_at s \<longleftrightarrow> (\<exists>sp r. s = ''##'' @ sp @ ''['' @ r \<and> sp \<noteq> [] \<and> list_all is_space sp)"
proof
  assume h: "heading_at s"
  then obtain r where "dropWhile is_space (drop 2 s) = CHR ''['' # r"
    by (cases "dropWhile is_space (drop 2 s)") (auto simp: heading_at_def)
  then have "s = take 2 s @ takeWhile is_space (drop 2 s) @ CHR ''['' # r"
    by (metis append_take_drop_id takeWhile_dropWhile_id)
  moreover have "list_all is_space (takeWhile is_space (drop 2 s))" by (auto simp: list_all_iff dest: set_takeWhileD)
  ultimately show "\<exists>sp r. s = ''##'' @ sp @ ''['' @ r \<and> sp \<noteq> [] \<and> list_all is_space sp"
    using h unfolding heading_at_def by (metis append_Cons append_Nil)
next
  assume "\<exists>sp r. s = ''##'' @ sp @ ''['' @ r \<and> sp \<noteq> [] \<and> list_all is_space sp"
  then show "heading_at s"
    by (auto simp: heading_at_def list_all_iff takeWhile_append dropWhile_append)
qed

lemma heading_extend:
  assumes "heading_at (y @ newline # rest)" and "rest = [] \<or> hd rest = CHR ''#''"
  shows "heading_at y"
proof -
  consider "y = []" | c where "y = [c]" | c d y' where "y = c # d # y'" by (cases y rule: remdups_adj.cases) auto
  then show ?thesis
  proof cases
    case 3
    show ?thesis
    proof (cases "list_all is_space y'")
      case True
      with 3 assms show ?thesis
        by (cases rest) (auto simp: heading_at_def takeWhile_append dropWhile_append list_all_iff)
    next
      case False
      then obtain x where "x \<in> set y'" "\<not> is_space x" "dropWhile is_space y' \<noteq> []" by (auto simp: list_all_iff)
      with 3 assms(1) show ?thesis by (cases "dropWhile is_space y'") (auto simp: heading_at_def)
    qed
  qed (use assms in \<open>auto simp: heading_at_def\<close>)
qed

lemma heading_append: "heading_at y \<Longrightarrow> heading_at (y @ z)"
  unfolding heading_at_iff by (metis append_assoc)

lemma plain_iff: "plain s \<longleftrightarrow> (\<forall>x y. s = x @ newline # y \<longrightarrow> \<not> heading_at y)"
  by (induction s) (auto simp: Cons_eq_append_conv)

lemma plain_snoc: "plain s \<Longrightarrow> plain (s @ [newline])"
  unfolding plain_iff
proof (intro allI impI)
  fix x y
  assume s: "\<forall>x y. s = x @ newline # y \<longrightarrow> \<not> heading_at y" and xy: "s @ [newline] = x @ newline # y"
  show "\<not> heading_at y"
  proof (cases y rule: rev_cases)
    case Nil
    then show ?thesis by (simp add: heading_at_def)
  next
    case (snoc y' c)
    with xy have "s = x @ newline # y'" "c = newline" by auto
    with s snoc heading_extend [of y' "[]"] show ?thesis by auto
  qed
qed

text \<open>Where a section of a version starts, and where a section ends.\<close>

definition section_at :: "string \<Rightarrow> string \<Rightarrow> bool" where
  "section_at version s \<longleftrightarrow>
     (\<exists>sp v r. s = ''##'' @ sp @ ''['' @ v @ version @ '']'' @ r \<and> sp \<noteq> [] \<and> list_all is_space sp
        \<and> v \<in> {[], ''v''})"

lemma section_heading: "section_at version s \<Longrightarrow> heading_at s"
  by (auto simp: section_at_def heading_at_iff)

definition ends_section :: "string \<Rightarrow> bool" where
  "ends_section s \<longleftrightarrow> s = [] \<or> (\<exists>r. s = newline # r \<and> heading_at r)"

lemma end_pattern_iff: "matches end_pattern (b, s, g) \<noteq> [] \<longleftrightarrow> ends_section s"
proof -
  have heading: "(\<exists>m. m \<in> set (matches (sequence [literal (newline # ''##''), Some_of is_space, Class ((=) CHR ''['')])
      (b, s, g))) \<longleftrightarrow> (\<exists>sp r. s = newline # ''##'' @ sp @ ''['' @ r \<and> sp \<noteq> [] \<and> list_all is_space sp)"
    (is "?L \<longleftrightarrow> ?R")
  proof
    assume ?L
    then obtain sp r where "s = (newline # ''##'') @ sp @ ''['' @ r" "sp \<noteq> []" "list_all is_space sp"
      unfolding sequence.simps
      by (auto simp: matches_rest(1,4) matches_Seq matches_Some_of matches_Class startswith_iff
          simp del: matches.simps literal.simps)
    then show ?R by auto
  next
    assume ?R
    then obtain sp r where s: "s = (newline # ''##'') @ sp @ CHR ''['' # r" "sp \<noteq> []" "list_all is_space sp"
      by auto
    have "\<exists>m. first (sequence [literal (newline # ''##''), Some_of is_space, Class ((=) CHR ''['')]) (b, s, g) m"
      unfolding s(1)
      by (intro exI) (rule first_sequence first_literal first_Some_of first_Class s(2,3) refl | simp add: is_space_def)+
    then show ?L by (blast dest: first_matches)
  qed
  have "matches end_pattern (b, s, g) \<noteq> [] \<longleftrightarrow> (\<exists>m. m \<in> set (matches end_pattern (b, s, g)))"
    by (cases "matches end_pattern (b, s, g)") auto
  then show ?thesis
    unfolding end_pattern_def matches_rest(2,9) ends_section_def heading_at_iff ex_disj_distrib heading by auto
qed

lemma section_pattern_match:
  assumes "matches (section_pattern version) (b, s, g) \<noteq> []"
  shows "(b = [] \<or> hd b = newline) \<and> section_at version s"
proof -
  obtain m where "m \<in> set (matches (section_pattern version) (b, s, g))" using assms list.set_sel(1) by blast
  then obtain m1 m2 m3 m4 where 1: "m1 \<in> set (matches Line_start (b, s, g))"
    and 2: "m2 \<in> set (matches (sequence [literal ''##'', Some_of is_space, Class ((=) CHR ''['')]) m1)"
    and 3: "m3 \<in> set (matches (Optional (Class ((=) CHR ''v''))) m2)"
    and 4: "m4 \<in> set (matches (sequence [literal version, Class ((=) CHR '']'')]) m3)"
    unfolding section_pattern_def sequence.simps matches_Seq matches_rest(1) by blast
  from 1 have b: "m1 = (b, s, g)" "b = [] \<or> hd b = newline" unfolding matches_rest by auto
  from 2 obtain sp r b1 where s: "s = ''##'' @ sp @ ''['' @ r" "sp \<noteq> []" "list_all is_space sp" "m2 = (b1, r, g)"
    unfolding b(1) sequence.simps
    by (auto simp: matches_rest(1,4) matches_Seq matches_Some_of matches_Class startswith_iff
        simp del: matches.simps literal.simps)
  from 3 obtain v r1 b2 where r: "r = v @ r1" "v \<in> {[], ''v''}" "m3 = (b2, r1, g)"
    unfolding s(4) matches_rest(3) matches_Class by auto
  from 4 obtain r2 where "r1 = version @ '']'' @ r2"
    unfolding r(3) sequence.simps
    by (auto simp: matches_rest(1,4) matches_Seq matches_Class startswith_iff simp del: matches.simps literal.simps)
  with b(2) s(1-3) r(1,2) show ?thesis unfolding section_at_def by blast
qed

subsection \<open>Passing over other sections\<close>

definition at_line :: "string \<Rightarrow> bool" where
  "at_line b \<longleftrightarrow> b = [] \<or> hd b = newline"

lemma at_line_rev [simp]: "at_line (newline # b)"
  by (simp add: at_line_def)

lemma at_line_append: "at_line (rev x @ b) \<Longrightarrow> at_line b \<Longrightarrow> x = [] \<or> last x = newline"
  by (cases x rule: rev_cases) (auto simp: at_line_def)

lemma skip_plain:
  assumes "plain (newline # p)" and "p = [] \<or> last p = newline" and "at_line b" and "S = [] \<or> hd S = CHR ''#''"
  shows "search_from (section_pattern version) b (p @ S) = search_from (section_pattern version) (rev p @ b) S"
proof (rule search_skip)
  fix x y
  assume p: "p = x @ y" "y \<noteq> []"
  show "matches (section_pattern version) (rev x @ b, y @ S, None) = []"
  proof (rule ccontr)
    assume "matches (section_pattern version) (rev x @ b, y @ S, None) \<noteq> []"
    then have l: "at_line (rev x @ b)" "heading_at (y @ S)"
      using section_pattern_match section_heading unfolding at_line_def by blast+
    from p assms(2) obtain y' where y: "y = y' @ [newline]" by (cases y rule: rev_cases) auto
    from l(2) have "heading_at (y' @ newline # S)" by (simp add: y)
    from heading_append [OF heading_extend [OF this assms(4)]] have "heading_at y" by (simp add: y)
    moreover have "\<exists>x'. newline # p = x' @ newline # y"
      using at_line_append [OF l(1) assms(3)] p(1) by (cases x rule: rev_cases) auto
    ultimately show False using assms(1) unfolding plain_iff by blast
  qed
qed

lemma section_at_heading:
  assumes "section_at version (''## ['' @ w @ CHR '']'' # r)" and "CHR '']'' \<notin> set w" "CHR '']'' \<notin> set version"
  shows "w = version \<or> w = ''v'' @ version"
proof -
  from assms(1) obtain sp v r' where s: "CHR '' '' # CHR ''['' # w @ CHR '']'' # r = sp @ CHR ''['' # v @ version @ CHR '']'' # r'"
    "sp \<noteq> []" "list_all is_space sp" "v \<in> {[], ''v''}"
    by (auto simp: section_at_def)
  then obtain sp' where sp: "sp = CHR '' '' # sp'" by (cases sp) auto
  have "sp' = []" using s(1,3) by (cases sp') (auto simp: sp)
  with s(1) sp have "w @ CHR '']'' # r = (v @ version) @ CHR '']'' # r'" by simp
  then have "takeWhile (\<lambda>c. c \<noteq> CHR '']'') (w @ CHR '']'' # r) = takeWhile (\<lambda>c. c \<noteq> CHR '']'') ((v @ version) @ CHR '']'' # r')"
    by simp
  moreover have "takeWhile (\<lambda>c. c \<noteq> CHR '']'') (u @ CHR '']'' # z) = u" if "CHR '']'' \<notin> set u" for u z :: string
    using that by (induction u) auto
  moreover have "CHR '']'' \<notin> set (v @ version)" using s(4) assms(3) by auto
  ultimately have "w = v @ version" using assms(2) by metis
  with s(4) show ?thesis by auto
qed

lemma skip_heading:
  assumes w: "w \<noteq> version" "w \<noteq> ''v'' @ version" "CHR '']'' \<notin> set w" "CHR '']'' \<notin> set version" and b: "at_line b"
    and nl: "newline \<notin> set w" "newline \<notin> set title"
  defines "h \<equiv> ''## ['' @ w @ '']'' @ title @ [newline]"
  shows "search_from (section_pattern version) b (h @ S) = search_from (section_pattern version) (rev h @ b) S"
proof (rule search_skip)
  fix x y
  assume h: "h = x @ y" "y \<noteq> []"
  show "matches (section_pattern version) (rev x @ b, y @ S, None) = []"
  proof (rule ccontr)
    assume "matches (section_pattern version) (rev x @ b, y @ S, None) \<noteq> []"
    then have l: "at_line (rev x @ b)" "section_at version (y @ S)"
      using section_pattern_match unfolding at_line_def by blast+
    from h(2) obtain y' c where "y = y' @ [c]" by (cases y rule: rev_cases) auto
    with h have "set x \<subseteq> set (''## ['' @ w @ '']'' @ title)" by (auto simp: h_def)
    with nl have "newline \<notin> set x" by auto
    with at_line_append [OF l(1) b] have "x = []" by (metis last_in_set)
    with h(1) have "y = h" by simp
    with l(2) have "section_at version (''## ['' @ w @ CHR '']'' # title @ newline # S)" by (simp add: h_def)
    from section_at_heading [OF this w(3,4)] w(1,2) show False by blast
  qed
qed

lemma entries_hd: "concat (map entry_text es) = [] \<or> hd (concat (map entry_text es)) = CHR ''#''"
  by (cases es) (auto simp: entry_text_def split: prod.split)

lemma skip_entry:
  assumes "entry_ok (w, title, body)" and "w \<noteq> version" "w \<noteq> ''v'' @ version" and "CHR '']'' \<notin> set version"
    and "at_line b" and "S = [] \<or> hd S = CHR ''#''"
  shows "\<exists>b'. at_line b' \<and> search_from (section_pattern version) b (entry_text (w, title, body) @ S)
     = search_from (section_pattern version) b' S"
proof -
  let ?h = "''## ['' @ w @ '']'' @ title @ [newline]" and ?p = "body @ [newline]"
  have ok: "CHR '']'' \<notin> set w" "newline \<notin> set w" "newline \<notin> set title" "plain (newline # body)"
    using assms(1) by (auto simp: entry_ok_def)
  have "plain (newline # ?p)" using plain_snoc [OF ok(4)] by simp
  then have "search_from (section_pattern version) (rev ?h @ b) (?p @ S)
      = search_from (section_pattern version) (rev ?p @ rev ?h @ b) S"
    by (rule skip_plain) (use assms(6) in auto)
  moreover have "search_from (section_pattern version) b (?h @ ?p @ S)
      = search_from (section_pattern version) (rev ?h @ b) (?p @ S)"
    by (rule skip_heading) (use assms ok in auto)
  ultimately show ?thesis
    by (intro exI [of _ "rev ?p @ rev ?h @ b"]) (simp add: entry_text_def)
qed

subsection \<open>The section of the version\<close>

lemma not_end: "matches (sequence [Ahead end_pattern]) (b, s, g) = [] \<longleftrightarrow> \<not> ends_section s"
  using end_pattern_iff [of b s g] by (cases "matches end_pattern (b, s, g) = []") simp_all

lemma found_section:
  assumes e: "entry_ok (w, title, body)" and w: "w = version \<or> w = ''v'' @ version"
    and v: "version \<noteq> []" "hd version \<noteq> CHR ''v''" and b: "at_line b"
  shows "\<exists>m sec. search_from (section_pattern version) b (entry_text (w, title, body) @ concat (map entry_text es)) = Some m
     \<and> group1 m = sec \<and> (sec = body \<or> sec = body @ [newline])"
proof -
  let ?T = "concat (map entry_text es)"
  obtain sec rest where t: "body @ newline # ?T = sec @ rest" "sec = body \<or> sec = body @ [newline]"
    "ends_section rest" "(sec = body \<and> rest = newline # ?T \<and> hd ?T = CHR ''#'' \<and> ?T \<noteq> []) \<or> rest = []"
  proof (cases es)
    case Nil
    with that [of "body @ [newline]" "[]"] show ?thesis by (simp add: ends_section_def)
  next
    case (Cons x xs)
    then have "heading_at ?T" "hd ?T = CHR ''#''" "?T \<noteq> []"
      by (cases x; simp add: entry_text_def heading_at_def)+
    with that [of body "newline # ?T"] show ?thesis by (simp add: ends_section_def)
  qed
  have plain: "plain (newline # body)" "newline \<notin> set title" using e by (auto simp: entry_ok_def)
  have none: "matches (sequence [Ahead end_pattern]) (c, z @ rest, g) = []" if "sec = y @ z" "z \<noteq> []" for c y z g
  proof (rule ccontr)
    assume "matches (sequence [Ahead end_pattern]) (c, z @ rest, g) \<noteq> []"
    with that(2) have "ends_section (z @ rest)" "z \<noteq> []" by (simp_all only: not_end simp_thms)
    then obtain z' where z: "z = newline # z'" "heading_at (z' @ rest)"
      by (cases z) (auto simp: ends_section_def)
    have "heading_at z'"
    proof (cases "rest = []")
      case False
      with t(4) z(2) have "heading_at (z' @ newline # ?T)" "hd ?T = CHR ''#''" by auto
      then show ?thesis by (blast intro: heading_extend)
    qed (use z(2) in simp)
    moreover have "plain sec" using t(2) plain(1) plain_snoc [of body] by auto
    ultimately show False using that(1) z(1) unfolding plain_iff by blast
  qed
  have sp: "list_all is_space '' ''" by simp
  have opt: "\<exists>c. first (Optional (Class ((=) CHR ''v''))) (a, w @ r, g) (c, version @ r, g)" for a r g
  proof (cases "w = version")
    case True
    with v have "matches (Class ((=) CHR ''v'')) (a, w @ r, g) = []" by (cases version) auto
    from first_Optional_none [OF this] True show ?thesis by auto
  next
    case False
    with w show ?thesis by (auto intro!: exI first_Optional first_Class)
  qed
  obtain c where c: "first (Optional (Class ((=) CHR ''v''))) (CHR ''['' # rev '' '' @ rev ''##'' @ b,
      w @ CHR '']'' # title @ newline # sec @ rest, None) (c, version @ CHR '']'' # title @ newline # sec @ rest, None)"
    using opt by blast
  have title: "list_all (\<lambda>c. c \<noteq> newline) title" using plain(2) by (auto simp: list_all_iff)
  have ahead: "first (sequence [Ahead end_pattern]) (d, rest, g) (d, rest, g)" for d g
    using t(3) first_sequence(2) [OF first_Ahead first_sequence(1)] end_pattern_iff by blast
  have all: "list_all (\<lambda>_. True) sec" by (simp add: list_all_iff)
  have "\<exists>d. first (section_pattern version)
      (b, ''##'' @ '' '' @ CHR ''['' # w @ CHR '']'' # title @ newline # sec @ rest, None) (d, rest, Some sec)"
    unfolding section_pattern_def
    by (intro exI) (rule first_sequence(2) [OF first_Line_start] first_sequence(2) [OF first_literal]
        first_sequence(2) [OF first_Some_of] first_sequence(2) [OF first_Class] first_sequence(2) [OF c]
        first_sequence(2) [OF first_Many] first_lazy_group b [unfolded at_line_def] title all none ahead refl | simp)+
  then obtain d where "first (section_pattern version)
      (b, ''##'' @ '' '' @ CHR ''['' # w @ CHR '']'' # title @ newline # sec @ rest, None) (d, rest, Some sec)" by blast
  then have "search_from (section_pattern version) b (entry_text (w, title, body) @ ?T) = Some (d, rest, Some sec)"
    using search_first t(1) by (simp add: entry_text_def)
  with t(2) show ?thesis by (auto simp: group1_def)
qed

lemma search_entries:
  assumes v: "version \<noteq> []" "hd version \<noteq> CHR ''v''" "CHR '']'' \<notin> set version"
  shows "\<forall>e \<in> set es. entry_ok e \<Longrightarrow> at_line b \<Longrightarrow>
    (case search_from (section_pattern version) b (concat (map entry_text es)) of
       None \<Rightarrow> entry_of version es = None
     | Some m \<Rightarrow> (\<exists>body. entry_of version es = Some body \<and> (group1 m = body \<or> group1 m = body @ [newline])))"
proof (induction es arbitrary: b)
  case Nil
  have "matches (section_pattern version) (b, [], None) = []"
    using section_pattern_match [of version b "[]" None] by (auto simp: section_at_def)
  then show ?case by (simp add: search_from.simps)
next
  case (Cons e es)
  obtain w title body where e: "e = (w, title, body)" by (cases e)
  show ?case
  proof (cases "w = version \<or> w = ''v'' @ version")
    case True
    moreover have "entry_ok (w, title, body)" using Cons.prems(1) e by simp
    ultimately obtain m where "search_from (section_pattern version) b (concat (map entry_text (e # es))) = Some m"
      "group1 m = body \<or> group1 m = body @ [newline]"
      using found_section [OF _ _ v(1,2) Cons.prems(2), of w title body es] e by auto
    moreover have "entry_of version (e # es) = Some body" using True e by simp
    ultimately show ?thesis by simp
  next
    case False
    have "entry_ok (w, title, body)" using Cons.prems(1) e by simp
    from skip_entry [OF this _ _ v(3) Cons.prems(2) entries_hd] False obtain b' where "at_line b'"
      "search_from (section_pattern version) b (entry_text (w, title, body) @ concat (map entry_text es))
       = search_from (section_pattern version) b' (concat (map entry_text es))" by blast
    moreover have "entry_of version (e # es) = entry_of version es" using False e by simp
    moreover have "\<forall>e \<in> set es. entry_ok e" using Cons.prems(1) by simp
    ultimately show ?thesis using Cons.IH [of b'] by (simp only: e list.map concat.simps)
  qed
qed

subsection \<open>Trimming\<close>

lemma strip_snoc: "strip (s @ [newline]) = strip s"
proof (cases "list_all is_space s")
  case True
  then have none: "dropWhile is_space s = []" "dropWhile is_space (s @ [newline]) = []"
    by (auto simp: list_all_iff dropWhile_eq_Nil_conv)
  show ?thesis unfolding strip_def none by (rule refl)
next
  case False
  then obtain x where "x \<in> set s" "\<not> is_space x" by (auto simp: list_all_iff)
  then show ?thesis by (simp add: strip_def)
qed

lemma sub_prefix:
  assumes "\<And>x z. y = x @ z \<Longrightarrow> z \<noteq> [] \<Longrightarrow> matches r (rev x @ b, z @ s, None) = []"
  shows "sub_from r repl b (y @ s) = y @ sub_from r repl (rev y @ b) s"
  using assms
proof (induction y arbitrary: b)
  case (Cons c y)
  have "sub_from r repl (c # b) (y @ s) = y @ sub_from r repl (rev y @ c # b) s"
    using Cons.prems [of "c # _"] by (intro Cons.IH) simp
  then show ?case using Cons.prems [of "[]" "c # y"] by (simp add: sub_from.simps [of r repl b "c # y @ s"])
qed simp

lemma rule_pattern_match:
  assumes "matches rule_pattern (b, s, g) \<noteq> []" and "\<not> is_space (last s)"
  shows "s = newline # ''---''"
proof -
  from assms(1) obtain m where "m \<in> set (matches rule_pattern (b, s, g))" using list.set_sel(1) by blast
  then obtain m1 where 1: "m1 \<in> set (matches (sequence [literal (newline # ''---''), Many is_space]) (b, s, g))"
    and 2: "m \<in> set (matches End m1)"
    unfolding rule_pattern_def sequence.simps matches_Seq matches_rest(1) by blast
  from 1 obtain sp e c where s: "s = (newline # ''---'') @ sp @ e" "list_all is_space sp" and m1: "m1 = (c, e, g)"
    unfolding sequence.simps
    by (auto simp: matches_rest(1,4) matches_Seq matches_Many startswith_iff simp del: matches.simps literal.simps)
  have "e = [] \<or> e = [newline]" using 2 unfolding m1 matches_rest(6) by blast
  then have "sp @ e = []" using assms(2) s by (cases sp rule: rev_cases) auto
  with s(1) show ?thesis by simp
qed

lemma sub_rule:
  assumes "s = [] \<or> \<not> is_space (last s)"
  shows "re_sub rule_pattern [] s = without_rule s"
proof (cases "suffix (newline # ''---'') s")
  case True
  then obtain y where s: "s = y @ newline # ''---''" by (auto simp: suffix_def)
  have "matches rule_pattern (rev x @ [], z @ newline # ''---'', None) = []" if "y = x @ z" "z \<noteq> []" for x z
    using rule_pattern_match [of "rev x @ []" "z @ newline # ''---''"] that by (cases z) auto
  then have "re_sub rule_pattern [] s = y @ sub_from rule_pattern [] (rev y @ []) (newline # ''---'')"
    unfolding re_sub_def s by (rule sub_prefix)
  also have "sub_from rule_pattern [] (rev y @ []) (newline # ''---'') = []"
    by (simp add: sub_from.simps rule_pattern_def matches_literal)
  finally show ?thesis using True by (simp add: without_rule_def s)
next
  case False
  have "matches rule_pattern (rev x @ [], y, None) = []" if "s = x @ y" for x y
  proof (rule ccontr)
    assume m: "matches rule_pattern (rev x @ [], y, None) \<noteq> []"
    have "y \<noteq> []" using m by (auto simp: rule_pattern_def)
    with that assms have "\<not> is_space (last y)" by auto
    from rule_pattern_match [OF m this] that False show False by (auto simp: suffix_def)
  qed
  then show ?thesis using False sub_none [of s rule_pattern "[]" "[]"] by (simp add: re_sub_def without_rule_def)
qed

lemma trim_section_eq: "trim_section body = section_notes body"
proof -
  have "re_sub rule_pattern [] (strip body) = without_rule (strip body)" using strip_last by (intro sub_rule) blast
  then show ?thesis by (simp add: trim_section_def section_notes_def)
qed

section \<open>The notes of a release\<close>

lemma changelog_lookup:
  assumes v: "version_text version" "hd version \<noteq> CHR ''v''"
    and c: "map_of fs path = Some (changelog_text intro es)" "intro_ok intro" "\<forall>e \<in> set es. entry_ok e"
  shows "extract_changelog_section fs path version
    = (case entry_of version es of None \<Rightarrow> (None, False) | Some body \<Rightarrow> (Some (section_notes body), True))"
proof -
  have ne: "version \<noteq> []" "CHR '']'' \<notin> set version"
    using v(1) by (auto simp: version_text_def list_all_iff suffix_char_def is_alnum_def)
  have intro: "plain (newline # intro)" "intro = [] \<or> last intro = newline" using c(2) by (auto simp: intro_ok_def)
  have "at_line (rev intro @ [])" using intro(2) by (cases intro rule: rev_cases) (auto simp: at_line_def)
  note found = search_entries [OF ne(1) v(2) ne(2) c(3) this]
  have "re_search (section_pattern version) (changelog_text intro es)
      = search_from (section_pattern version) (rev intro @ []) (concat (map entry_text es))"
    unfolding re_search_def changelog_text_def
    by (rule skip_plain [OF intro _ entries_hd]) (simp add: at_line_def)
  with found c(1) show ?thesis
    by (auto simp: extract_changelog_section_def trim_section_eq section_notes_def strip_snoc split: option.splits)
qed

text \<open>The notes of a version: its section, or else the section of the version it is a pre-release of.\<close>

definition published_notes :: "string \<Rightarrow> entry list \<Rightarrow> string option" where
  "published_notes version es =
     map_option section_notes
       (if entry_of version es = None \<and> CHR ''-'' \<in> set version then entry_of (base_version version) es
        else entry_of version es)"

lemma strip_id:
  assumes "s = [] \<or> \<not> is_space (hd s) \<and> \<not> is_space (last s)"
  shows "strip s = s"
proof -
  have id: "dropWhile is_space u = u" if "u = [] \<or> \<not> is_space (hd u)" for u using that by (cases u) auto
  have "dropWhile is_space s = s" "dropWhile is_space (rev s) = rev s"
    using assms by (auto intro!: id simp: hd_rev)
  then show ?thesis by (simp add: strip_def)
qed

lemma strip_strip [simp]: "strip (strip s) = strip s"
proof (rule strip_id)
  let ?d = "dropWhile is_space s"
  have "?d = strip s @ rev (takeWhile is_space (rev ?d))"
    by (metis rev_append rev_rev_ident strip_def takeWhile_dropWhile_id)
  then have "strip s = [] \<or> ?d \<noteq> [] \<and> hd ?d = hd (strip s)" by (metis append_is_Nil_conv hd_append2)
  then show "strip s = [] \<or> \<not> is_space (hd (strip s)) \<and> \<not> is_space (last (strip s))"
    using strip_last [of s] hd_dropWhile [of is_space s] by metis
qed

lemma strip_fallback: "strip (fallback_notes title semver) = fallback_notes title semver"
  by (rule strip_id) (simp add: fallback_notes_def is_space_def)

lemma semver_hd: "is_semver v \<Longrightarrow> is_digit (hd v) \<and> is_digit (hd (base_version v))"
  by (auto simp: is_semver_iff base_version_def neq_Nil_conv)

lemma base_version_text: "is_semver v \<Longrightarrow> version_text (base_version v)"
  using is_semver_text [of v] semver_base [of v]
  by (auto simp: version_text_def base_version_def list_all_iff dest: set_takeWhileD)

lemma find_published:
  assumes v: "is_semver version"
    and c: "map_of fs path = Some (changelog_text intro es)" "intro_ok intro" "\<forall>e \<in> set es. entry_ok e"
  shows "find_notes fs path version
    = (case published_notes version es of None \<Rightarrow> (None, False) | Some notes \<Rightarrow> (Some notes, True))"
proof -
  have "hd version \<noteq> CHR ''v''" "hd (base_version version) \<noteq> CHR ''v''" using semver_hd [OF v] by auto
  with changelog_lookup [OF is_semver_text [OF v] _ c] changelog_lookup [OF base_version_text [OF v] _ c]
  show ?thesis by (auto simp: find_notes_def published_notes_def split: option.splits)
qed

text \<open>
  C36: what the release notes say: for a tag that the validation accepts and a change log that is
  some text and then a list of sections, each a heading with a version and a text, the script
  succeeds and writes the text of the first section of that version, or else of the version it is
  a pre-release of, without a final rule and surrounding space and with one final newline; when there
  is no such section, or nothing in it, the fallback that names the release.\<close>

theorem release_notes_written:
  assumes "parse_tag tag = Inr (target, clean, semver, fl)"
    and "map_of fs changelog = Some (changelog_text intro es)" and "intro_ok intro" and "\<forall>e \<in> set es. entry_ok e"
    and "gh \<noteq> out"
  shows "fst (notes_main resolve tag changelog out gh fs) = 0
    \<and> map_of (snd (notes_main resolve tag changelog out gh fs)) out
      = Some ((case published_notes semver es of
                 Some notes \<Rightarrow> if notes \<noteq> [] then notes else fallback_notes (title_of target @ clean) semver
               | None \<Rightarrow> fallback_notes (title_of target @ clean) semver) @ [newline])"
proof -
  have t: "is_semver semver" "parse_tag_info tag = (semver, component_of target, title_of target @ clean)"
    using assms(1) unfolding parsers_agree by blast+
  have "strip n = n" if "published_notes semver es = Some n" for n
    using that by (auto simp: published_notes_def section_notes_def split: if_splits)
  with find_published [OF t(1) assms(2-4)] assms(5) show ?thesis
    by (auto simp: notes_main_def Let_def t(2) final_notes_def map_of_update append_text_def strip_fallback
        split: option.splits)
qed

definition demo_entries :: "entry list" where
  "demo_entries =
     [(''Unreleased'', [], []),
      (''1.2.1'', '' (beta)'', newline # ''- fixed'' @ [newline, newline] @ ''---''),
      (''1.2.0'', [], ''- first'')]"

lemma release_notes_written_witness:
  "map_of (snd (notes_main (\<lambda>p. p) ''python-v1.2.1-rc1'' ''CHANGELOG.md'' ''NOTES.md'' []
       [(''CHANGELOG.md'', changelog_text (''# Log'' @ [newline]) demo_entries)])) ''NOTES.md''
   = Some (''- fixed'' @ [newline])"
proof -
  have "parse_tag ''python-v1.2.1-rc1''
      = Inr (''python'', ''v1.2.1-rc1'', ''1.2.1-rc1'', \<lparr>fl_python = True, fl_arduino = False, fl_esp32 = False\<rparr>)"
    by code_simp
  moreover have "map_of [(''CHANGELOG.md'', changelog_text (''# Log'' @ [newline]) demo_entries)] ''CHANGELOG.md''
      = Some (changelog_text (''# Log'' @ [newline]) demo_entries)" by simp
  moreover have "intro_ok (''# Log'' @ [newline])" "\<forall>e \<in> set demo_entries. entry_ok e" by code_simp+
  moreover have "[] \<noteq> ''NOTES.md''" by simp
  moreover have "published_notes ''1.2.1-rc1'' demo_entries = Some ''- fixed''" by code_simp
  ultimately show ?thesis using release_notes_written by fastforce
qed

text \<open>
  A heading right below a heading: the search for the end of the section starts one line too late,
  and the notes are those of the next version.
\<close>

lemma empty_section_takes_next:
  "extract_changelog_section [(''CHANGELOG.md'', ''## [1.2.1]'' @ [newline] @ ''## [1.2.0]'' @ [newline] @ ''- first'')]
     ''CHANGELOG.md'' ''1.2.1'' = (Some (''## [1.2.0]'' @ [newline] @ ''- first''), True)"
  by code_simp

end
