(* ===== verification/BundlePorts.thy ===== *)
theory BundlePorts
  imports ReleaseTag
begin

text \<open>
  \<open>scripts/bundle-ports.py\<close>: copying the C sources of the core into the Arduino and ESP-IDF
  ports, the offline archive, and cleaning up.  A directory is an association list of names
  and nodes, in the order in which it is read; there are no symbolic links.  The text of the
  shim \<open>usmp_api.h\<close>, on which no operation depends, is a parameter.
\<close>

section \<open>Files\<close>

datatype node = File string | Dir "(string \<times> node) list"

type_synonym directory = "(string, node) dict"

record workspace =
  w_core :: directory      \<comment> \<open>\<open>CORE_DIR\<close>\<close>
  w_arduino :: directory   \<comment> \<open>\<open>ARDUINO_PORT_DIR\<close>\<close>
  w_esp32 :: directory     \<comment> \<open>\<open>ESP32_PORT_DIR\<close>\<close>
  w_license :: "string option"
  w_zips :: "(string, (string list \<times> string) list) dict"

definition dir_at :: "directory \<Rightarrow> string \<Rightarrow> directory option" where
  "dir_at d name = (case map_of d name of Some (Dir e) \<Rightarrow> Some e | _ \<Rightarrow> None)"

text \<open>\<open>glob("*")\<close> of a directory that may be missing, restricted to files.\<close>

fun files_in :: "directory \<Rightarrow> (string \<times> string) list" where
  "files_in [] = []"
| "files_in ((n, File c) # d) = (n, c) # files_in d"
| "files_in ((n, Dir _) # d) = files_in d"

definition glob_files :: "directory \<Rightarrow> string \<Rightarrow> (string \<times> string) list" where
  "glob_files d name = (case dir_at d name of None \<Rightarrow> [] | Some e \<Rightarrow> files_in e)"

text \<open>\<open>Path.suffix\<close>.\<close>

definition path_suffix :: "string \<Rightarrow> string" where
  "path_suffix name =
     (let ext = rev (takeWhile (\<lambda>c. c \<noteq> CHR ''.'') (rev name)) in
      if ext \<noteq> [] \<and> Suc (length ext) < length name then CHR ''.'' # ext else [])"

text \<open>
  \<open>shutil.copy2(f, dest)\<close>: into the directory, under the name of the source, if \<open>dest\<close> is one.
\<close>

definition copy2 :: "string \<Rightarrow> string \<Rightarrow> string \<Rightarrow> (directory, py_exc, unit) io" where
  "copy2 name content dest d =
     (case map_of d dest of
        Some (Dir e) \<Rightarrow>
          (case map_of e name of
             Some (Dir _) \<Rightarrow> (Raise OSError, d)
           | _ \<Rightarrow> (Ret (), AList.update dest (Dir (AList.update name (File content) e)) d))
      | _ \<Rightarrow> (Ret (), AList.update dest (File content) d))"

text \<open>Universal newlines of \<open>read_text\<close>; \<open>write_text\<close> of a name that is not a directory.\<close>

fun read_text :: "string \<Rightarrow> string" where
  "read_text [] = []"
| "read_text (c # s) =
     (if c = CHR 0x0D
      then newline # (case s of [] \<Rightarrow> [] | x # s' \<Rightarrow> if x = newline then read_text s' else read_text s)
      else c # read_text s)"

definition write_text :: "string \<Rightarrow> string \<Rightarrow> (directory, py_exc, unit) io" where
  "write_text name content d =
     (case dir_at d name of Some _ \<Rightarrow> (Raise OSError, d) | None \<Rightarrow> (Ret (), AList.update name (File content) d))"

fun each :: "('a \<Rightarrow> ('s, 'e, unit) io) \<Rightarrow> 'a list \<Rightarrow> ('s, 'e, unit) io" where
  "each f [] = ret ()"
| "each f (x # xs) = bind_io (f x) (\<lambda>_. each f xs)"

section \<open>The Arduino port\<close>

definition arduino_src :: "workspace \<Rightarrow> directory option" where
  "arduino_src w = dir_at (w_arduino w) ''src''"

definition set_src :: "directory \<Rightarrow> workspace \<Rightarrow> workspace" where
  "set_src d w = w\<lparr>w_arduino := AList.update ''src'' (Dir d) (w_arduino w)\<rparr>"

text \<open>An operation on \<open>src_dir\<close>, which exists.\<close>

definition on_src :: "(directory, py_exc, 'a) io \<Rightarrow> (workspace, py_exc, 'a) io" where
  "on_src m w =
     (case arduino_src w of
        None \<Rightarrow> (Raise RuntimeError, w)
      | Some d \<Rightarrow> (case m d of (r, d') \<Rightarrow> (r, set_src d' w)))"

text \<open>\<open>#include\s+["<]usmp\.h[">]\<close> and its replacement.\<close>

definition include_pattern :: regex where
  "include_pattern =
     sequence [literal ''#include'', Some_of is_space, Class (\<lambda>c. c = CHR 0x22 \<or> c = CHR ''<''), literal ''usmp.h'',
       Class (\<lambda>c. c = CHR 0x22 \<or> c = CHR ''>'')]"

definition api_include :: string where
  "api_include = ''#include '' @ [CHR 0x22] @ ''usmp_api.h'' @ [CHR 0x22]"

definition patch_text :: "string \<Rightarrow> string" where
  "patch_text c =
     (if re_search include_pattern (read_text c) \<noteq> None
      then re_sub include_pattern api_include (read_text c) else c)"

fun patch_node :: "string \<times> node \<Rightarrow> string \<times> node" where
  "patch_node (n, File c) =
     (n, File (if path_suffix n \<in> {''.c'', ''.h'', ''.cpp''} then patch_text c else c))"
| "patch_node (n, Dir e) = (n, Dir e)"

definition stage :: "directory \<Rightarrow> (directory, py_exc, unit) io" where
  "stage core =
     bind_io (each (\<lambda>(n, c). if path_suffix n \<in> {''.c'', ''.h''} then copy2 n c n else ret ()) (glob_files core ''src''))
       (\<lambda>_. bind_io (each (\<lambda>(n, c). if suffix ''.h'' n
                              then (if n = ''usmp.h'' then copy2 n c ''usmp_api.h'' else copy2 n c n) else ret ())
              (glob_files core ''include''))
       (\<lambda>_. modify (map patch_node)))"

text \<open>\<open>str.splitlines\<close> of a text with universal newlines, and the version in \<open>library.properties\<close>.\<close>

definition linebreak :: "char \<Rightarrow> bool" where
  "linebreak c = (let n = of_char c :: nat in n \<in> {10, 11, 12, 13, 28, 29, 30, 133})"

fun splitlines :: "string \<Rightarrow> string list" where
  "splitlines [] = []"
| "splitlines (c # s) =
     (if linebreak c then [] # splitlines s
      else (case splitlines s of [] \<Rightarrow> [[c]] | l # ls \<Rightarrow> (c # l) # ls))"

definition zip_version :: "string \<Rightarrow> string" where
  "zip_version text =
     (case find (\<lambda>l. startswith l ''version='') (splitlines text) of
        None \<Rightarrow> ''unknown''
      | Some l \<Rightarrow> strip (tl (dropWhile (\<lambda>c. c \<noteq> CHR ''='') l)))"

text \<open>\<open>os.walk\<close>: the files of a directory, then those of its subdirectories.\<close>

fun walk_dirs :: "string list \<Rightarrow> directory \<Rightarrow> (string list \<times> string) list" where
  "walk_dirs p [] = []"
| "walk_dirs p ((n, File _) # d) = walk_dirs p d"
| "walk_dirs p ((n, Dir e) # d) =
     map (\<lambda>(m, c). (p @ [n, m], c)) (files_in e) @ walk_dirs (p @ [n]) e @ walk_dirs p d"

definition walk :: "string list \<Rightarrow> directory \<Rightarrow> (string list \<times> string) list" where
  "walk p d = map (\<lambda>(m, c). (p @ [m], c)) (files_in d) @ walk_dirs p d"

definition create_archive :: "(workspace, py_exc, unit) io" where
  "create_archive w =
     (let add = (\<lambda>version. (Ret (), w\<lparr>w_zips :=
            AList.update (''usmp-'' @ version @ ''-arduino.zip'') (walk [''usmp-arduino''] (w_arduino w)) (w_zips w)\<rparr>))
      in case map_of (w_arduino w) ''library.properties'' of
           None \<Rightarrow> add ''unknown''
         | Some (Dir _) \<Rightarrow> (Raise OSError, w)
         | Some (File c) \<Rightarrow> add (zip_version (read_text c)))"

definition bundle_arduino :: "bool \<Rightarrow> (workspace, py_exc, unit) io" where
  "bundle_arduino create_zip w =
     bind_io (on_src (stage (w_core w))) (\<lambda>_. if create_zip then create_archive else ret ()) w"

section \<open>The ESP-IDF port\<close>

text \<open>\<open>shutil.copytree\<close> with names to ignore.\<close>

fun copy_tree :: "string set \<Rightarrow> directory \<Rightarrow> directory" where
  "copy_tree ignored [] = []"
| "copy_tree ignored ((n, File c) # d) =
     (if n \<in> ignored then copy_tree ignored d else (n, File c) # copy_tree ignored d)"
| "copy_tree ignored ((n, Dir e) # d) =
     (if n \<in> ignored then copy_tree ignored d else (n, Dir (copy_tree ignored e)) # copy_tree ignored d)"

definition copy_to_core :: "string set \<Rightarrow> string \<Rightarrow> (workspace, py_exc, unit) io" where
  "copy_to_core ignored name w =
     (case dir_at (w_core w) name of
        None \<Rightarrow> (Raise OSError, w)
      | Some d \<Rightarrow>
          (let dest = (case dir_at (w_esp32 w) ''core'' of Some e \<Rightarrow> e | None \<Rightarrow> []) in
           (Ret (), w\<lparr>w_esp32 := AList.update ''core'' (Dir (AList.update name (Dir (copy_tree ignored d)) dest))
              (w_esp32 w)\<rparr>)))"

definition remove_core :: "(workspace, py_exc, unit) io" where
  "remove_core = modify (\<lambda>w. w\<lparr>w_esp32 := AList.delete ''core'' (w_esp32 w)\<rparr>)"

definition bundle_esp32 :: "(workspace, py_exc, unit) io" where
  "bundle_esp32 =
     bind_io remove_core (\<lambda>_.
     bind_io (copy_to_core {''tests''} ''src'') (\<lambda>_.
     bind_io (copy_to_core {} ''include'') (\<lambda>_ w.
       case w_license w of
         None \<Rightarrow> (Ret (), w)
       | Some c \<Rightarrow> (case copy2 ''LICENSE'' c ''LICENSE'' (w_esp32 w) of (r, d) \<Rightarrow> (r, w\<lparr>w_esp32 := d\<rparr>)))))"

section \<open>Cleaning\<close>

definition NATIVE_ARDUINO_SRC_FILES :: "string list" where
  "NATIVE_ARDUINO_SRC_FILES =
     [''USMP.cpp'', ''USMP.h'', ''USMPTransport.cpp'', ''USMPTransport.h'', ''usmp_api.h'', ''usmp_port_arduino.cpp'']"

fun kept :: "string \<times> node \<Rightarrow> bool" where
  "kept (n, File _) \<longleftrightarrow> n \<in> set NATIVE_ARDUINO_SRC_FILES"
| "kept (n, Dir _) \<longleftrightarrow> True"

definition clean_ports :: "string \<Rightarrow> (workspace, py_exc, unit) io" where
  "clean_ports shim w =
     bind_io
       (if arduino_src w = None then ret ()
        else on_src (bind_io (modify (filter kept)) (\<lambda>_. write_text ''usmp_api.h'' shim)))
       (\<lambda>_. remove_core) w"

text \<open>\<open>main\<close>: the exit status; \<open>argparse\<close> admits the targets arduino, esp32 and all.\<close>

datatype target = Arduino | Esp32 | All

definition bundle_main :: "string \<Rightarrow> target option \<Rightarrow> bool \<Rightarrow> bool \<Rightarrow> (workspace, py_exc, int) io" where
  "bundle_main shim target clean create_zip =
     (if clean then bind_io (clean_ports shim) (\<lambda>_. ret 0)
      else case target of
        None \<Rightarrow> ret 1
      | Some t \<Rightarrow>
          bind_io (if t \<in> {Arduino, All} then bundle_arduino create_zip else ret ()) (\<lambda>_.
          bind_io (if t \<in> {Esp32, All} then bundle_esp32 else ret ()) (\<lambda>_. ret 0)))"

section \<open>No include is left\<close>

definition includes_usmp :: "string \<Rightarrow> bool" where
  "includes_usmp s \<longleftrightarrow>
     (\<exists>sp q1 q2 r. s = ''#include'' @ sp @ q1 # ''usmp.h'' @ q2 # r \<and> sp \<noteq> [] \<and> list_all is_space sp
        \<and> (q1 = CHR 0x22 \<or> q1 = CHR ''<'') \<and> (q2 = CHR 0x22 \<or> q2 = CHR ''>''))"

lemma include_pattern_match:
  assumes "m \<in> set (matches include_pattern (b, s, g))"
  obtains b' x r where "m = (b', r, g)" and "s = x @ r" and "x \<noteq> []" and "includes_usmp s"
proof -
  from assms obtain m1 where 1: "m1 \<in> set (matches (sequence [literal ''#include'', Some_of is_space]) (b, s, g))"
    and 2: "m \<in> set (matches (sequence [Class (\<lambda>c. c = CHR 0x22 \<or> c = CHR ''<''), literal ''usmp.h'',
       Class (\<lambda>c. c = CHR 0x22 \<or> c = CHR ''>'')]) m1)"
    unfolding include_pattern_def sequence.simps matches_Seq matches_rest(1) by blast
  from 1 obtain sp r1 b1 where s: "s = ''#include'' @ sp @ r1" "sp \<noteq> []" "list_all is_space sp" and m1: "m1 = (b1, r1, g)"
    unfolding sequence.simps
    by (auto simp: matches_rest(1,4) matches_Seq matches_Some_of startswith_iff simp del: matches.simps literal.simps)
  from 2 obtain q1 q2 r b' where r: "r1 = q1 # ''usmp.h'' @ q2 # r" "q1 = CHR 0x22 \<or> q1 = CHR ''<''"
    "q2 = CHR 0x22 \<or> q2 = CHR ''>''" "m = (b', r, g)"
    unfolding m1 sequence.simps
    by (auto simp: matches_rest(1,4) matches_Seq matches_Class startswith_iff simp del: matches.simps literal.simps)
  have "s = ''#include'' @ sp @ q1 # ''usmp.h'' @ q2 # r" using s(1) r(1) by simp
  then have "includes_usmp s"
    unfolding includes_usmp_def
    by (intro exI [of _ sp] exI [of _ q1] exI [of _ q2] exI [of _ r] conjI s(2,3) r(2,3))
  moreover have "s = (''#include'' @ sp @ q1 # ''usmp.h'' @ [q2]) @ r" using s(1) r(1) by simp
  ultimately show ?thesis using that [OF r(4)] by blast
qed

lemma include_pattern_iff: "matches include_pattern (b, s, g) \<noteq> [] \<longleftrightarrow> includes_usmp s"
proof
  assume "matches include_pattern (b, s, g) \<noteq> []"
  then obtain m where "m \<in> set (matches include_pattern (b, s, g))" using list.set_sel(1) by blast
  then show "includes_usmp s" using include_pattern_match by blast
next
  assume "includes_usmp s"
  then obtain sp q1 q2 r where s: "s = ''#include'' @ sp @ q1 # ''usmp.h'' @ q2 # r" "sp \<noteq> []" "list_all is_space sp"
    "q1 = CHR 0x22 \<or> q1 = CHR ''<''" "q2 = CHR 0x22 \<or> q2 = CHR ''>''"
    unfolding includes_usmp_def by blast
  then have "\<not> is_space q1" by (auto simp: is_space_def)
  have "\<exists>m. first include_pattern (b, s, g) m"
    unfolding include_pattern_def s(1)
    by (intro exI) (rule first_sequence first_literal first_Some_of first_Class s \<open>\<not> is_space q1\<close> refl | simp)+
  then show "matches include_pattern (b, s, g) \<noteq> []" by (auto simp: first_def)
qed

lemma include_search: "re_search include_pattern s = None \<longleftrightarrow> (\<forall>x y. s = x @ y \<longrightarrow> \<not> includes_usmp y)"
  unfolding re_search_def search_None using include_pattern_iff by blast

abbreviation "patched \<equiv> sub_from include_pattern api_include"

lemma patched_cases:
  obtains (match) b' x s' where "patched b s = api_include @ patched b' s'" "s = x @ s'" "x \<noteq> []" "includes_usmp s"
  | (copy) c cs where "s = c # cs" "patched b s = c # patched (c # b) cs" "\<not> includes_usmp s"
  | (stop) "s = []" "patched b s = []"
proof (cases "matches include_pattern (b, s, None)")
  case Nil
  then have "\<not> includes_usmp s" using include_pattern_iff by blast
  with Nil copy stop show ?thesis by (cases s) (auto simp: sub_from.simps)
next
  case (Cons m ms)
  have inc: "includes_usmp s" unfolding include_pattern_iff [of b s None, symmetric] Cons by simp
  obtain b' s' g' where m: "m = (b', s', g')" by (cases m)
  have "m \<in> set (matches include_pattern (b, s, None))" using Cons by simp
  then obtain x where x: "s = x @ s'" "x \<noteq> []" using include_pattern_match m by blast
  then have "length s' < length s" by simp
  then have "patched b s = api_include @ patched b' s'"
    by (simp only: sub_from.simps [of include_pattern api_include b s] Cons m list.case prod.case if_True)
  then show ?thesis using x inc by (rule match)
qed

text \<open>
  Text in front of the first \<open>#\<close> that a replacement could leave is text of the original; so a match
  in the result is a match in the original, or starts at a replacement.
\<close>

lemma patched_prefix: "patched b s = u @ v \<Longrightarrow> CHR ''#'' \<notin> set u \<Longrightarrow> \<exists>v'. s = u @ v'"
proof (induction u arbitrary: b s)
  case (Cons c u)
  show ?case
  proof (cases b s rule: patched_cases)
    case (match b' x' s')
    with Cons.prems show ?thesis by (auto simp: api_include_def)
  next
    case (copy d cs)
    with Cons.prems have "patched (d # b) cs = u @ v" "d = c" by auto
    with Cons.IH Cons.prems(2) copy(1) show ?thesis by fastforce
  next
    case stop
    with Cons.prems show ?thesis by simp
  qed
qed simp

lemma includes_copied: "includes_usmp (c # patched b s) \<Longrightarrow> includes_usmp (c # s)"
proof -
  assume "includes_usmp (c # patched b s)"
  then obtain sp q1 q2 r where m: "c # patched b s = ''#include'' @ sp @ q1 # ''usmp.h'' @ q2 # r" "sp \<noteq> []"
    "list_all is_space sp" "q1 = CHR 0x22 \<or> q1 = CHR ''<''" "q2 = CHR 0x22 \<or> q2 = CHR ''>''"
    unfolding includes_usmp_def by blast
  let ?u = "''include'' @ sp @ q1 # ''usmp.h'' @ [q2]"
  have "patched b s = ?u @ r" "c = CHR ''#''" using m(1) by simp_all
  moreover have "CHR ''#'' \<notin> set sp" using m(3) by (auto simp: list_all_iff)
  then have "CHR ''#'' \<notin> set ?u" using m(4,5) by auto
  ultimately obtain v' where "s = ?u @ v'" using patched_prefix by blast
  with \<open>c = CHR ''#''\<close> have "c # s = ''#include'' @ sp @ q1 # ''usmp.h'' @ q2 # v'" by simp
  with m(2-5) show ?thesis unfolding includes_usmp_def by blast
qed

lemma api_include_safe:
  assumes "api_include = x @ z" and "z \<noteq> []"
  shows "\<not> includes_usmp (z @ s)"
proof
  assume "includes_usmp (z @ s)"
  then obtain sp q1 q2 r where m: "z @ s = ''#include'' @ sp @ q1 # ''usmp.h'' @ q2 # r" "sp \<noteq> []"
    "list_all is_space sp" "q1 = CHR 0x22 \<or> q1 = CHR ''<''" unfolding includes_usmp_def by blast
  from m(1) assms(2) have hd: "hd z = CHR ''#''" by (cases z) auto
  have "CHR ''#'' \<notin> set (tl api_include)" by (simp add: api_include_def)
  moreover have "x \<noteq> [] \<Longrightarrow> hd z \<in> set (tl api_include)" unfolding assms(1) using assms(2) by (cases x) auto
  ultimately have "x = []" using hd by auto
  with assms(1) have z: "z = api_include" by simp
  from m(1) have "CHR '' '' # CHR 0x22 # ''usmp_api.h'' @ CHR 0x22 # s = sp @ q1 # ''usmp.h'' @ q2 # r"
    unfolding z by (simp add: api_include_def)
  with m(2-4) show False by (cases sp; cases "tl sp") (auto simp: is_space_def)
qed

lemma patched_free: "patched b s = x @ y \<Longrightarrow> \<not> includes_usmp y"
proof (induction "length s" arbitrary: b s x rule: less_induct)
  case less
  show ?case
  proof (cases b s rule: patched_cases)
    case (match b' x' s')
    with less.prems have eq: "api_include @ patched b' s' = x @ y" by simp
    have shorter: "length s' < length s" using match(2,3) by simp
    show ?thesis
    proof (cases rule: append_overlap [OF eq])
      case (1 us)
      from eq have y: "y = us @ patched b' s'" unfolding 1 by simp
      show ?thesis
      proof (cases "us = []")
        case True
        with y less.hyps [OF shorter, of b' "[]"] show ?thesis by simp
      next
        case False
        with 1 y api_include_safe show ?thesis by blast
      qed
    next
      case (2 us)
      with less.hyps [OF shorter] show ?thesis by blast
    qed
  next
    case (copy c cs)
    from less.prems have "x = [] \<and> y = c # patched (c # b) cs \<or> (\<exists>x'. patched (c # b) cs = x' @ y)"
      unfolding copy(2) by (auto simp: Cons_eq_append_conv)
    with copy(1,3) includes_copied less.hyps [of cs "c # b"] show ?thesis by auto
  next
    case stop
    with less.prems show ?thesis by (simp add: includes_usmp_def)
  qed
qed

lemma patched_no_CR: "CHR 0x0D \<notin> set s \<Longrightarrow> CHR 0x0D \<notin> set (patched b s)"
proof (induction "length s" arbitrary: b s rule: less_induct)
  case less
  show ?case
  proof (cases b s rule: patched_cases)
    case (match b' x s')
    with less show ?thesis by (auto simp: api_include_def)
  next
    case (copy c cs)
    with less show ?thesis by auto
  next
    case stop
    then show ?thesis by simp
  qed
qed

lemma read_text_id: "CHR 0x0D \<notin> set s \<Longrightarrow> read_text s = s"
  by (induction s) auto

lemma read_text_plain: "CHR 0x0D \<notin> set (read_text s)"
  by (induction s rule: read_text.induct) (auto split: list.split)

lemma patch_text_free: "re_search include_pattern (read_text (patch_text c)) = None"
proof (cases "re_search include_pattern (read_text c) = None")
  case False
  have "CHR 0x0D \<notin> set (patched [] (read_text c))"
    by (rule patched_no_CR [OF read_text_plain])
  then have "read_text (patch_text c) = patched [] (read_text c)"
    using False by (simp add: patch_text_def re_sub_def read_text_id)
  then show ?thesis using patched_free by (auto simp: include_search)
qed (simp add: patch_text_def)

section \<open>What is staged\<close>

text \<open>The files of the core by the name they get, in the order in which they are copied.\<close>

definition sources :: "directory \<Rightarrow> (string, string) dict" where
  "sources core = filter (\<lambda>(n, c). path_suffix n \<in> {''.c'', ''.h''}) (glob_files core ''src'')"

definition headers :: "directory \<Rightarrow> (string, string) dict" where
  "headers core = map (\<lambda>(n, c). (if n = ''usmp.h'' then ''usmp_api.h'' else n, c))
     (filter (\<lambda>(n, c). suffix ''.h'' n) (glob_files core ''include''))"

definition staged :: "directory \<Rightarrow> (string, string) dict" where
  "staged core = sources core @ headers core"

definition no_clash :: "directory \<Rightarrow> directory \<Rightarrow> bool" where
  "no_clash core d \<longleftrightarrow> (\<forall>(n, c) \<in> set (staged core). dir_at d n = None)"

text \<open>Copying files over a directory none of whose directories has the name of one of them.\<close>

definition overlay :: "(string, string) dict \<Rightarrow> directory \<Rightarrow> directory" where
  "overlay xs d = fold (\<lambda>(n, c). AList.update n (File c)) xs d"

lemma copy2_file: "dir_at d dest = None \<Longrightarrow> copy2 name c dest d = (Ret (), AList.update dest (File c) d)"
  by (auto simp: copy2_def dir_at_def split: option.splits node.splits)

lemma dir_at_update [simp]: "dir_at d n = None \<Longrightarrow> dir_at (AList.update n (File c) d) m = dir_at d m"
  by (auto simp: dir_at_def map_of_update)

lemma overlay_dirs: "\<forall>(n, c) \<in> set xs. dir_at d n = None \<Longrightarrow> dir_at (overlay xs d) m = dir_at d m"
proof (induction xs arbitrary: d)
  case (Cons x xs)
  obtain n c where x: "x = (n, c)" by (cases x)
  with Cons.prems have n: "dir_at d n = None" by simp
  with Cons.prems have "\<forall>(k, c') \<in> set xs. dir_at (AList.update n (File c) d) k = None" by auto
  from Cons.IH [OF this] n show ?case by (simp add: overlay_def x)
qed (simp add: overlay_def)

lemma overlay_append: "overlay (xs @ ys) d = overlay ys (overlay xs d)"
  by (simp add: overlay_def)

lemma each_copies:
  assumes "\<forall>(n, c) \<in> set xs. P n \<longrightarrow> dir_at d (h n) = None"
  shows "each (\<lambda>(n, c). if P n then copy2 n c (h n) else ret ()) xs d
    = (Ret (), overlay (map (\<lambda>(n, c). (h n, c)) (filter (\<lambda>(n, c). P n) xs)) d)"
  using assms
proof (induction xs arbitrary: d)
  case (Cons x xs)
  obtain n c where x: "x = (n, c)" by (cases x)
  show ?case
  proof (cases "P n")
    case True
    with Cons.prems x have n: "dir_at d (h n) = None" by simp
    with Cons.prems have "\<forall>(k, c') \<in> set xs. P k \<longrightarrow> dir_at (AList.update (h n) (File c) d) (h k) = None" by auto
    from Cons.IH [OF this] n True show ?thesis by (simp add: x bind_io_def copy2_file overlay_def)
  next
    case False
    with Cons show ?thesis by (simp add: x bind_io_def)
  qed
qed (simp add: overlay_def)

lemma stage_Ret:
  assumes "no_clash core d"
  shows "stage core d = (Ret (), map patch_node (overlay (staged core) d))"
proof -
  let ?c = "\<lambda>n. path_suffix n \<in> {''.c'', ''.h''}" and ?h = "\<lambda>n. if n = ''usmp.h'' then ''usmp_api.h'' else n"
  have s: "\<forall>(n, c) \<in> set (glob_files core ''src''). ?c n \<longrightarrow> dir_at d n = None"
    "\<forall>(n, c) \<in> set (sources core). dir_at d n = None"
    using assms by (auto simp: no_clash_def staged_def sources_def)
  have h: "\<forall>(n, c) \<in> set (glob_files core ''include''). suffix ''.h'' n \<longrightarrow> dir_at (overlay (sources core) d) (?h n) = None"
    using assms unfolding overlay_dirs [OF s(2)] by (fastforce simp: no_clash_def staged_def headers_def image_iff)
  have eq: "(\<lambda>(n, c). if suffix ''.h'' n then (if n = ''usmp.h'' then copy2 n c ''usmp_api.h'' else copy2 n c n) else ret ())
      = (\<lambda>(n, c). if suffix ''.h'' n then copy2 n c (?h n) else ret ())"
    by auto
  show ?thesis
    using each_copies [OF s(1)] each_copies [OF h]
    by (simp add: stage_def eq bind_io_def staged_def overlay_append headers_def sources_def)
qed

lemma dir_at_patch [simp]: "dir_at (map patch_node d) n = dir_at d n"
proof (induction d)
  case (Cons x d)
  obtain m y where "x = (m, y)" by (cases x)
  with Cons show ?case by (cases y) (auto simp: dir_at_def)
qed (simp add: dir_at_def)

lemma map_of_patch: "map_of (map patch_node d) n = map_option (\<lambda>x. snd (patch_node (n, x))) (map_of d n)"
proof (induction d)
  case (Cons x d)
  obtain m y where "x = (m, y)" by (cases x)
  with Cons show ?case by (cases y) auto
qed simp

lemma map_of_overlay:
  "map_of (overlay xs d) n = (case map_of (rev xs) n of Some c \<Rightarrow> Some (File c) | None \<Rightarrow> map_of d n)"
  by (induction xs arbitrary: d) (auto simp: overlay_def map_of_update map_of_append map_add_def split: option.splits)

lemma map_of_rev_distinct: "distinct (map fst xs) \<Longrightarrow> map_of (rev xs) = map_of xs"
proof
  fix k
  assume d: "distinct (map fst xs)"
  then have "distinct (map fst (rev xs))" by (simp add: rev_map [symmetric])
  with d have "map_of (rev xs) k = Some v \<longleftrightarrow> map_of xs k = Some v" for v
    using map_of_eq_Some_iff [of xs k v] map_of_eq_Some_iff [of "rev xs" k v] by simp
  then show "map_of (rev xs) k = map_of xs k" by (metis not_None_eq)
qed

text \<open>
  What bundling for Arduino does: if no directory of the port has the name of a file of the core
  and no two of those files get the same name, it succeeds; every source and header of the core
  is in the port, the public header as \<open>usmp_api.h\<close>, and every other entry is still there, all with
  their includes patched; and no C file of the port includes \<open>usmp.h\<close> any more.\<close>

theorem bundle_arduino_stages:
  assumes "arduino_src w = Some d" and "no_clash (w_core w) d" and "distinct (map fst (staged (w_core w)))"
  shows "\<exists>d'. bundle_arduino False w = (Ret (), set_src d' w)
     \<and> (\<forall>(n, c) \<in> set (staged (w_core w)). map_of d' n = Some (snd (patch_node (n, File c))))
     \<and> (\<forall>n. n \<notin> fst ` set (staged (w_core w)) \<longrightarrow> map_of d' n = map_option (\<lambda>x. snd (patch_node (n, x))) (map_of d n))
     \<and> (\<forall>(n, c) \<in> set (files_in d'). path_suffix n \<in> {''.c'', ''.h'', ''.cpp''} \<longrightarrow>
          re_search include_pattern (read_text c) = None)"
proof (intro exI conjI)
  let ?d = "map patch_node (overlay (staged (w_core w)) d)"
  show "bundle_arduino False w = (Ret (), set_src ?d w)"
    using assms(1) stage_Ret [OF assms(2)] by (simp add: bundle_arduino_def on_src_def bind_io_def)
  note rev = map_of_rev_distinct [OF assms(3)]
  show "\<forall>(n, c) \<in> set (staged (w_core w)). map_of ?d n = Some (snd (patch_node (n, File c)))"
    using assms(3) by (auto simp: map_of_patch map_of_overlay rev)
  show "\<forall>n. n \<notin> fst ` set (staged (w_core w)) \<longrightarrow> map_of ?d n = map_option (\<lambda>x. snd (patch_node (n, x))) (map_of d n)"
    by (auto simp: map_of_patch map_of_overlay rev map_of_eq_None_iff [symmetric])
  have "\<forall>(n, c) \<in> set (files_in (map patch_node e)). path_suffix n \<in> {''.c'', ''.h'', ''.cpp''} \<longrightarrow>
      re_search include_pattern (read_text c) = None" for e
    by (induction e rule: files_in.induct) (auto simp: patch_text_free)
  then show "\<forall>(n, c) \<in> set (files_in ?d). path_suffix n \<in> {''.c'', ''.h'', ''.cpp''} \<longrightarrow>
      re_search include_pattern (read_text c) = None" .
qed

section \<open>Cleaning undoes bundling\<close>

definition pristine :: "string \<Rightarrow> workspace \<Rightarrow> bool" where
  "pristine shim w \<longleftrightarrow>
     (case arduino_src w of
        None \<Rightarrow> False
      | Some d \<Rightarrow>
          map_of d ''usmp_api.h'' = Some (File shim) \<and> list_all kept d \<and> no_clash (w_core w) d
          \<and> (\<forall>(n, c) \<in> set (files_in d). re_search include_pattern (read_text c) = None))
     \<and> (\<forall>(n, c) \<in> set (staged (w_core w)). n \<in> set NATIVE_ARDUINO_SRC_FILES \<longrightarrow> n = ''usmp_api.h'')
     \<and> map_of (w_esp32 w) ''core'' = None
     \<and> (case w_license w of None \<Rightarrow> True | Some c \<Rightarrow> map_of (w_esp32 w) ''LICENSE'' = Some (File c))"

text \<open>What every run of the script keeps of a pristine workspace.\<close>

definition restorable :: "string \<Rightarrow> workspace \<Rightarrow> workspace \<Rightarrow> bool" where
  "restorable shim w0 w \<longleftrightarrow>
     w_core w = w_core w0 \<and> w_license w = w_license w0
     \<and> (\<exists>d0 d. arduino_src w0 = Some d0 \<and> arduino_src w = Some d \<and> (\<forall>n. dir_at d n = dir_at d0 n)
          \<and> AList.update ''usmp_api.h'' (File shim) (filter kept d) = d0)
     \<and> (\<forall>d. AList.update ''src'' (Dir d) (w_arduino w) = AList.update ''src'' (Dir d) (w_arduino w0))
     \<and> AList.delete ''core'' (w_esp32 w) = w_esp32 w0"

lemma update_twice [simp]: "AList.update k v (AList.update k v' d) = AList.update k v d"
  by (induction d) auto

lemma dir_at_Cons: "dir_at (x # d) n = (if fst x = n then (case snd x of Dir e \<Rightarrow> Some e | File _ \<Rightarrow> None) else dir_at d n)"
  by (auto simp: dir_at_def split: node.split)

lemma filter_kept_update:
  "dir_at d n = None \<Longrightarrow> n \<notin> set NATIVE_ARDUINO_SRC_FILES \<Longrightarrow> filter kept (AList.update n (File c) d) = filter kept d"
proof (induction d)
  case (Cons x d)
  obtain m y where "x = (m, y)" by (cases x)
  with Cons show ?case by (cases y) (auto simp: dir_at_Cons split: if_splits)
qed simp

lemma filter_kept_api:
  "dir_at d ''usmp_api.h'' = None \<Longrightarrow>
   AList.update ''usmp_api.h'' x (filter kept (AList.update ''usmp_api.h'' (File c) d))
   = AList.update ''usmp_api.h'' x (filter kept d)"
proof (induction d)
  case (Cons p d)
  obtain m y where "p = (m, y)" by (cases p)
  with Cons show ?case
    by (cases y) (auto simp: dir_at_Cons NATIVE_ARDUINO_SRC_FILES_def split: if_splits)
qed (simp add: NATIVE_ARDUINO_SRC_FILES_def)

lemma kept_overlay:
  "\<forall>(n, c) \<in> set xs. dir_at d n = None \<and> (n \<in> set NATIVE_ARDUINO_SRC_FILES \<longrightarrow> n = ''usmp_api.h'') \<Longrightarrow>
   AList.update ''usmp_api.h'' x (filter kept (overlay xs d)) = AList.update ''usmp_api.h'' x (filter kept d)"
proof (induction xs arbitrary: d)
  case (Cons y xs)
  obtain n c where y: "y = (n, c)" by (cases y)
  with Cons.prems have n: "dir_at d n = None" "n \<in> set NATIVE_ARDUINO_SRC_FILES \<longrightarrow> n = ''usmp_api.h''" by auto
  have "\<forall>(k, c') \<in> set xs. dir_at (AList.update n (File c) d) k = None \<and> (k \<in> set NATIVE_ARDUINO_SRC_FILES \<longrightarrow> k = ''usmp_api.h'')"
    using Cons.prems n(1) by auto
  from Cons.IH [OF this] show ?case
    using n filter_kept_api [of d x c] filter_kept_update [OF n(1)]
    by (cases "n = ''usmp_api.h''") (auto simp: overlay_def y)
qed (simp add: overlay_def)

lemma filter_kept_patch: "filter kept (map patch_node d) = map patch_node (filter kept d)"
proof (induction d)
  case (Cons x d)
  obtain m y where "x = (m, y)" by (cases x)
  with Cons show ?case by (cases y) auto
qed simp

lemma update_patch:
  "patch_node (n, x) = (n, x) \<Longrightarrow> AList.update n x (map patch_node d) = map patch_node (AList.update n x d)"
proof (induction d)
  case (Cons p d)
  obtain m y where "p = (m, y)" by (cases p)
  with Cons show ?case by (cases y) auto
qed simp

lemma patch_stable: "\<forall>(n, c) \<in> set (files_in d). re_search include_pattern (read_text c) = None \<Longrightarrow> map patch_node d = d"
  by (induction d rule: files_in.induct) (auto simp: patch_text_def)

lemma set_src_simps:
  "arduino_src (set_src d w) = Some d" "w_core (set_src d w) = w_core w" "w_license (set_src d w) = w_license w"
  "w_esp32 (set_src d w) = w_esp32 w" "w_zips (set_src d w) = w_zips w"
  "AList.update ''src'' x (w_arduino (set_src d w)) = AList.update ''src'' x (w_arduino w)"
  by (simp_all add: set_src_def arduino_src_def dir_at_def map_of_update)

lemma staging_restorable:
  assumes "pristine shim w0" and "restorable shim w0 w"
  shows "restorable shim w0 (snd (on_src (stage (w_core w)) w))"
proof -
  obtain d0 d where d: "arduino_src w0 = Some d0" "arduino_src w = Some d" "\<forall>n. dir_at d n = dir_at d0 n"
    "AList.update ''usmp_api.h'' (File shim) (filter kept d) = d0"
    and w: "w_core w = w_core w0" "w_license w = w_license w0" "AList.delete ''core'' (w_esp32 w) = w_esp32 w0"
    "\<forall>d. AList.update ''src'' (Dir d) (w_arduino w) = AList.update ''src'' (Dir d) (w_arduino w0)"
    using assms(2) by (auto simp: restorable_def)
  have p: "map_of d0 ''usmp_api.h'' = Some (File shim)" "no_clash (w_core w0) d0"
    "\<forall>(n, c) \<in> set (files_in d0). re_search include_pattern (read_text c) = None"
    "\<forall>(n, c) \<in> set (staged (w_core w0)). n \<in> set NATIVE_ARDUINO_SRC_FILES \<longrightarrow> n = ''usmp_api.h''"
    using assms(1) d(1) by (auto simp: pristine_def)
  let ?d = "map patch_node (overlay (staged (w_core w0)) d)"
  have clash: "no_clash (w_core w0) d" using p(2) d(3) by (simp add: no_clash_def)
  then have run: "on_src (stage (w_core w)) w = (Ret (), set_src ?d w)"
    by (simp add: on_src_def d(2) w(1) stage_Ret)
  have stable: "map patch_node d0 = d0" by (rule patch_stable [OF p(3)])
  have shim: "patch_node (''usmp_api.h'', File shim) = (''usmp_api.h'', File shim)"
    using stable map_of_patch [of d0 "''usmp_api.h''"] p(1) by (cases "patch_node (''usmp_api.h'', File shim)") auto
  have "\<forall>(n, c) \<in> set (staged (w_core w0)). dir_at d n = None \<and> (n \<in> set NATIVE_ARDUINO_SRC_FILES \<longrightarrow> n = ''usmp_api.h'')"
    using clash p(4) by (auto simp: no_clash_def)
  from kept_overlay [OF this] have "AList.update ''usmp_api.h'' (File shim) (filter kept ?d) = d0"
    unfolding filter_kept_patch update_patch [OF shim] by (simp add: d(4) stable)
  moreover have "dir_at ?d n = dir_at d0 n" for n
    using clash d(3) overlay_dirs [of "staged (w_core w0)" d n] by (simp add: no_clash_def)
  ultimately have "\<exists>d0 d. arduino_src w0 = Some d0 \<and> arduino_src (set_src ?d w) = Some d \<and> (\<forall>n. dir_at d n = dir_at d0 n)
      \<and> AList.update ''usmp_api.h'' (File shim) (filter kept d) = d0"
    using d(1) by (simp add: set_src_simps)
  then show ?thesis unfolding run snd_conv restorable_def using w by (simp add: set_src_simps)
qed

lemma restorable_esp32:
  "restorable shim w0 w \<Longrightarrow> AList.delete ''core'' d = AList.delete ''core'' (w_esp32 w) \<Longrightarrow>
   restorable shim w0 (w\<lparr>w_esp32 := d\<rparr>)"
  by (simp add: restorable_def arduino_src_def)

lemma restorable_zips: "restorable shim w0 (w\<lparr>w_zips := z\<rparr>) \<longleftrightarrow> restorable shim w0 w"
  by (simp add: restorable_def arduino_src_def)

lemma copy_license:
  assumes "pristine shim w0" and "restorable shim w0 w" and "w_license w = Some c"
  shows "copy2 ''LICENSE'' c ''LICENSE'' (w_esp32 w) = (Ret (), w_esp32 w)"
proof -
  have "AList.delete ''core'' (w_esp32 w) = w_esp32 w0" "w_license w0 = Some c"
    using assms(2,3) by (auto simp: restorable_def)
  then have "map_of (w_esp32 w) ''LICENSE'' = Some (File c)"
    using assms(1) map_of_delete_iff [of "''core''" "w_esp32 w" "''LICENSE''"] by (auto simp: pristine_def)
  then show ?thesis by (simp add: copy2_def update_triv)
qed

lemma bundle_arduino_restorable:
  assumes "pristine shim w0"
  shows "preserves (restorable shim w0) (bundle_arduino create_zip)"
proof (rule preservesI)
  fix w
  assume r: "restorable shim w0 w"
  have "preserves (restorable shim w0) create_archive"
    by (rule preservesI) (auto simp: create_archive_def Let_def restorable_zips split: option.splits node.splits)
  moreover obtain out w1 where s: "on_src (stage (w_core w)) w = (out, w1)" by (metis prod.collapse)
  with staging_restorable [OF assms r] have "restorable shim w0 w1" by simp
  ultimately show "restorable shim w0 (snd (bundle_arduino create_zip w))"
    by (cases out) (auto simp: bundle_arduino_def bind_io_def s preserves_def)
qed

lemma bundle_esp32_restorable:
  assumes "pristine shim w0"
  shows "preserves (restorable shim w0) bundle_esp32"
proof -
  have core: "preserves (restorable shim w0) (copy_to_core ignored name)" for ignored name
    by (rule preservesI)
      (auto simp: copy_to_core_def Let_def delete_update_same intro: restorable_esp32 split: option.splits)
  have license: "preserves (restorable shim w0) (\<lambda>w. case w_license w of None \<Rightarrow> (Ret (), w)
      | Some c \<Rightarrow> (case copy2 ''LICENSE'' c ''LICENSE'' (w_esp32 w) of (r, d) \<Rightarrow> (r, w\<lparr>w_esp32 := d\<rparr>)))"
    by (rule preservesI) (auto simp: copy_license [OF assms] split: option.splits)
  show ?thesis
    unfolding bundle_esp32_def remove_core_def
    by (intro preserves_bind core license preserves_modify restorable_esp32) (simp_all add: delete_idem)
qed

lemma clean_restorable:
  assumes "pristine shim w0" and "restorable shim w0 w"
  shows "clean_ports shim w = (Ret (), w0\<lparr>w_zips := w_zips w\<rparr>)"
proof -
  obtain d0 d where d: "arduino_src w0 = Some d0" "arduino_src w = Some d" "\<forall>n. dir_at d n = dir_at d0 n"
    "AList.update ''usmp_api.h'' (File shim) (filter kept d) = d0"
    and w: "w_core w = w_core w0" "w_license w = w_license w0" "AList.delete ''core'' (w_esp32 w) = w_esp32 w0"
    "\<forall>d. AList.update ''src'' (Dir d) (w_arduino w) = AList.update ''src'' (Dir d) (w_arduino w0)"
    using assms(2) by (auto simp: restorable_def)
  have "dir_at d ''usmp_api.h'' = None" using d(1,3) assms(1) by (simp add: pristine_def dir_at_def)
  then have "dir_at (filter kept d) ''usmp_api.h'' = None"
  proof (induction d)
    case (Cons x d)
    obtain m y where "x = (m, y)" by (cases x)
    with Cons show ?case by (cases y) (auto simp: dir_at_Cons NATIVE_ARDUINO_SRC_FILES_def split: if_splits)
  qed simp
  then have "clean_ports shim w = (Ret (), (set_src d0 w)\<lparr>w_esp32 := w_esp32 w0\<rparr>)"
    using d(2,4) w(3) by (simp add: clean_ports_def on_src_def bind_io_def write_text_def remove_core_def set_src_simps)
  also have "AList.update ''src'' (Dir d0) (w_arduino w) = w_arduino w0"
    using w(4) d(1) by (auto simp: arduino_src_def dir_at_def intro: update_triv split: option.splits node.splits)
  then have "(set_src d0 w)\<lparr>w_esp32 := w_esp32 w0\<rparr> = w0\<lparr>w_zips := w_zips w\<rparr>"
    using w(1,2) by (cases w; cases w0) (simp add: set_src_def)
  finally show ?thesis .
qed

lemma pristine_restorable:
  assumes "pristine shim w"
  shows "restorable shim w (w\<lparr>w_zips := z\<rparr>)"
proof -
  obtain d where d: "arduino_src w = Some d" "map_of d ''usmp_api.h'' = Some (File shim)" "list_all kept d"
    using assms by (auto simp: pristine_def split: option.splits)
  then have "AList.update ''usmp_api.h'' (File shim) (filter kept d) = d"
    by (simp add: update_triv list_all_iff)
  moreover have "AList.delete ''core'' (w_esp32 w) = w_esp32 w"
    using assms by (simp add: pristine_def map_of_eq_None_iff)
  ultimately show ?thesis using d(1) by (simp add: restorable_def arduino_src_def)
qed

lemma main_restorable:
  assumes "pristine shim w0"
  shows "preserves (restorable shim w0) (bundle_main shim target clean create_zip)"
proof -
  have "preserves (restorable shim w0) (clean_ports shim)"
    by (rule preservesI) (simp add: clean_restorable [OF assms] pristine_restorable [OF assms])
  then show ?thesis
    unfolding bundle_main_def
    by (cases target)
      (auto intro!: preserves_bind preserves_basic bundle_arduino_restorable [OF assms] bundle_esp32_restorable [OF assms])
qed

text \<open>Any runs of the script, one after the other, whether they succeed or not.\<close>

definition runs :: "string \<Rightarrow> (target option \<times> bool \<times> bool) list \<Rightarrow> workspace \<Rightarrow> workspace" where
  "runs shim = fold (\<lambda>(target, clean, create_zip) w. snd (bundle_main shim target clean create_zip w))"

text \<open>
  C37: cleaning undoes bundling: from a repository in which the Arduino port holds only its own files,
  none of which includes \<open>usmp.h\<close>, and the ESP-IDF port no copy of the core, after any runs of
  the script with any options, also runs that fail half-way, cleaning succeeds and gives back
  exactly that repository, except that the archives that were made stay.\<close>

theorem clean_undoes_bundling:
  assumes "pristine shim w"
  shows "bundle_main shim target True create_zip (runs shim rs w) = (Ret 0, w\<lparr>w_zips := w_zips (runs shim rs w)\<rparr>)"
proof -
  have "restorable shim w (fold (\<lambda>(target, clean, create_zip) v. snd (bundle_main shim target clean create_zip v)) rs v)"
    if "restorable shim w v" for v
    using that main_restorable [OF assms] by (induction rs arbitrary: v) (auto simp: preserves_def)
  then have "restorable shim w (runs shim rs w)"
    using pristine_restorable [OF assms, of "w_zips w"] by (simp add: runs_def)
  from clean_restorable [OF assms this] show ?thesis by (simp add: bundle_main_def bind_io_def)
qed

section \<open>The ESP-IDF port and the archive\<close>

lemma copy_tree_all [simp]: "copy_tree {} d = d"
  by (induction "{} :: string set" d rule: copy_tree.induct) auto

text \<open>No file or directory below \<open>d\<close> has the name.\<close>

fun nowhere :: "string \<Rightarrow> directory \<Rightarrow> bool" where
  "nowhere name [] \<longleftrightarrow> True"
| "nowhere name ((n, File c) # d) \<longleftrightarrow> n \<noteq> name \<and> nowhere name d"
| "nowhere name ((n, Dir e) # d) \<longleftrightarrow> n \<noteq> name \<and> nowhere name e \<and> nowhere name d"

lemma copy_tree_ignores: "nowhere t (copy_tree {t} d)"
  by (induction "{t}" d rule: copy_tree.induct) auto

lemma copy_tree_keeps: "nowhere t d \<Longrightarrow> copy_tree {t} d = d"
  by (induction "{t}" d rule: copy_tree.induct) auto

text \<open>
  Bundling for ESP-IDF replaces whatever copy of the core the port has by the sources, without
  anything called tests, and the headers, and nothing else; without the sources or the headers it
  raises, and leaves no complete copy behind.\<close>

theorem bundle_esp32_copies:
  assumes "map_of (w_esp32 w) ''LICENSE'' = Some (File l)" and "w_license w = Some l"
  shows "(case (dir_at (w_core w) ''src'', dir_at (w_core w) ''include'') of
       (Some s, Some i) \<Rightarrow> fst (bundle_esp32 w) = Ret ()
         \<and> (\<exists>s'. dir_at (w_esp32 (snd (bundle_esp32 w))) ''core'' = Some [(''src'', Dir s'), (''include'', Dir i)]
              \<and> nowhere ''tests'' s' \<and> (nowhere ''tests'' s \<longrightarrow> s' = s))
     | _ \<Rightarrow> fst (bundle_esp32 w) = Raise OSError
         \<and> (\<forall>e. dir_at (w_esp32 (snd (bundle_esp32 w))) ''core'' = Some e \<longrightarrow> dir_at e ''include'' = None))
     \<and> AList.delete ''core'' (w_esp32 (snd (bundle_esp32 w))) = AList.delete ''core'' (w_esp32 w)"
proof (cases "dir_at (w_core w) ''src''")
  case None
  then show ?thesis
    by (auto simp: bundle_esp32_def bind_io_def remove_core_def copy_to_core_def delete_idem dir_at_def map_of_delete_iff)
next
  case (Some s)
  have "copy2 ''LICENSE'' l ''LICENSE'' d = (Ret (), d)" if "map_of d ''LICENSE'' = Some (File l)" for d
    using that by (simp add: copy2_def update_triv)
  with Some assms show ?thesis
    by (cases "dir_at (w_core w) ''include''")
      (auto simp: bundle_esp32_def bind_io_def remove_core_def copy_to_core_def dir_at_def map_of_update map_of_delete_iff
        delete_update_same delete_idem copy_tree_ignores copy_tree_keeps)
qed

definition demo_workspace :: workspace where
  "demo_workspace = \<lparr>
     w_core = [(''src'', Dir [(''usmp_session.h'', File (''#include '' @ [CHR 0x22] @ ''usmp.h'' @ [CHR 0x22, newline])),
                              (''usmp_session.c'', File (''#include <usmp.h>'' @ [newline]))]),
               (''include'', Dir [(''usmp.h'', File (''#pragma once'' @ [newline]))])],
     w_arduino = [(''library.properties'', File (''version=1.2.2'' @ [newline])),
                  (''src'', Dir [(''USMP.h'', File (''#include '' @ api_include)), (''usmp_api.h'', File ''// shim'')])],
     w_esp32 = [(''LICENSE'', File ''MIT'')],
     w_license = Some ''MIT'',
     w_zips = []\<rparr>"

lemma demo_pristine: "pristine ''// shim'' demo_workspace"
  by code_simp

lemma clean_undoes_bundling_witness:
  "fst (bundle_main ''// shim'' (Some All) False True demo_workspace) = Ret 0
   \<and> bundle_main ''// shim'' None True False (runs ''// shim'' [(Some All, False, True)] demo_workspace)
     = (Ret 0, demo_workspace\<lparr>w_zips := w_zips (runs ''// shim'' [(Some All, False, True)] demo_workspace)\<rparr>)"
proof
  show "fst (bundle_main ''// shim'' (Some All) False True demo_workspace) = Ret 0" by code_simp
  show "bundle_main ''// shim'' None True False (runs ''// shim'' [(Some All, False, True)] demo_workspace)
     = (Ret 0, demo_workspace\<lparr>w_zips := w_zips (runs ''// shim'' [(Some All, False, True)] demo_workspace)\<rparr>)"
    by (rule clean_undoes_bundling [OF demo_pristine])
qed

lemma bundle_arduino_stages_witness:
  "\<exists>d'. bundle_arduino False demo_workspace = (Ret (), set_src d' demo_workspace)
     \<and> map_of d' ''usmp_session.c'' = Some (File (api_include @ [newline]))
     \<and> map_of d' ''usmp_api.h'' = Some (File (''#pragma once'' @ [newline]))"
proof -
  let ?d = "the (arduino_src demo_workspace)"
  have "arduino_src demo_workspace = Some ?d" "no_clash (w_core demo_workspace) ?d"
    "distinct (map fst (staged (w_core demo_workspace)))" by code_simp+
  from bundle_arduino_stages [OF this] obtain d' where d:
    "bundle_arduino False demo_workspace = (Ret (), set_src d' demo_workspace)"
    "\<forall>(n, c) \<in> set (staged (w_core demo_workspace)). map_of d' n = Some (snd (patch_node (n, File c)))" by blast
  have s: "staged (w_core demo_workspace) =
      [(''usmp_session.h'', ''#include '' @ [CHR 0x22] @ ''usmp.h'' @ [CHR 0x22, newline]),
       (''usmp_session.c'', ''#include <usmp.h>'' @ [newline]), (''usmp_api.h'', ''#pragma once'' @ [newline])]"
    by code_simp
  have p: "snd (patch_node (''usmp_session.c'', File (''#include <usmp.h>'' @ [newline]))) = File (api_include @ [newline])"
    "snd (patch_node (''usmp_api.h'', File (''#pragma once'' @ [newline]))) = File (''#pragma once'' @ [newline])"
    by code_simp+
  show ?thesis
    using d unfolding s by (intro exI [of _ d'] conjI) (simp_all only: list.set ball_simps prod.case insert_iff p simp_thms)
qed

text \<open>
  The archive is named after a line that starts with \<open>version=\<close>, where the validation of a release also
  takes \<open>version = \<dots>\<close>.
\<close>

lemma archive_version_unknown:
  "zip_version (''version = 1.2.2'' @ [newline]) = ''unknown''
   \<and> declared [(''library.properties'', ''version = 1.2.2'' @ [newline])] ''library.properties'' properties_pattern
     = Some ''1.2.2''"
  by code_simp

end
