(* ===== verification/Logging.thy ===== *)
theory Logging
  imports Regex Errors
begin

text \<open>
  \<open>_logging.py\<close>: the formatter of log records and \<open>setup_logging\<close> on the logger \<open>usmp\<close>.  What
  the module \<open>logging\<close> computes from a record (the time, the message, the traceback) is part of
  the record here; the attributes of that module that name levels are a parameter.
\<close>

section \<open>Formatting\<close>

record log_record =
  lr_time :: string
  lr_name :: string
  lr_levelno :: int
  lr_levelname :: string
  lr_message :: string
  lr_exc_text :: "string option"

abbreviation "escape \<equiv> CHR 0x1B"

definition RESET :: string where "RESET = escape # ''[0m''"
definition GRAY :: string where "GRAY = escape # ''[90m''"
definition WHITE_BOLD :: string where "WHITE_BOLD = escape # ''[97;1m''"

definition LEVEL_BADGES :: "int \<Rightarrow> string option" where
  "LEVEL_BADGES = map_of
     [(10, escape # ''[46;30m DEBUG '' @ escape # ''[0m''),
      (20, escape # ''[42;30m INFO  '' @ escape # ''[0m''),
      (30, escape # ''[43;30m WARN  '' @ escape # ''[0m''),
      (40, escape # ''[41;97;1m ERROR '' @ escape # ''[0m''),
      (50, escape # ''[45;97;1m CRIT  '' @ escape # ''[0m'')]"

text \<open>\<open>f"{s:<5}"\<close>.\<close>

definition pad5 :: "string \<Rightarrow> string" where
  "pad5 s = s @ replicate (5 - length s) CHR '' ''"

definition short_name :: "string \<Rightarrow> string" where
  "short_name name =
     (if startswith name ''usmp.'' then drop 5 name else if name = ''usmp'' then ''core'' else name)"

definition log_format :: "bool \<Rightarrow> log_record \<Rightarrow> string" where
  "log_format use_color r =
     (let name = short_name (lr_name r);
          formatted =
            (if \<not> use_color then lr_time r @ '' ['' @ pad5 (lr_levelname r) @ ''] ['' @ name @ ''] '' @ lr_message r
             else
               (let badge = (case LEVEL_BADGES (lr_levelno r) of
                      Some b \<Rightarrow> b | None \<Rightarrow> GRAY @ ''['' @ pad5 (lr_levelname r) @ '']'' @ RESET)
                in GRAY @ lr_time r @ RESET @ '' '' @ badge @ '' '' @ GRAY @ ''['' @ WHITE_BOLD @ name @ GRAY @ '']''
                   @ RESET @ '' '' @ lr_message r))
      in (case lr_exc_text r of None \<Rightarrow> formatted | Some t \<Rightarrow> formatted @ [newline] @ t))"

section \<open>Configuration\<close>

text \<open>
  A stream: what \<open>reconfigure\<close> does, if there is one, and what \<open>isatty\<close> says, if there is one.  The
  handlers of the logger are null handlers or others, each with its identity.
\<close>

record log_stream =
  ls_reconfigure :: "py_exc option option"
  ls_isatty :: "bool option"

record stream_handler =
  h_stream :: log_stream
  h_level :: int
  h_use_color :: bool

datatype handler = Null_handler nat | Other_handler nat | Stream_handler stream_handler

record logger =
  lg_level :: int
  lg_handlers :: "handler list"

datatype level_arg = Level int | Level_name string

definition is_null :: "handler \<Rightarrow> bool" where
  "is_null h = (case h of Null_handler _ \<Rightarrow> True | _ \<Rightarrow> False)"

text \<open>
  \<open>attr\<close> gives the attribute of \<open>logging\<close> with this name in capitals; names of attributes that are not
  levels (\<open>BASIC_FORMAT\<close>), which \<open>setLevel\<close> refuses, are left out.
\<close>

definition level_of :: "(string \<Rightarrow> int option) \<Rightarrow> level_arg \<Rightarrow> int" where
  "level_of attr level =
     (case level of Level n \<Rightarrow> n | Level_name s \<Rightarrow> (case attr s of Some n \<Rightarrow> n | None \<Rightarrow> 20))"

text \<open>
  \<open>AttributeError\<close> has no constructor of its own in \<open>py_exc\<close>; \<open>ValueError\<close> and the \<open>OSError\<close>s are caught.
\<close>

definition setup_logging ::
  "(string \<Rightarrow> int option) \<Rightarrow> level_arg \<Rightarrow> log_stream \<Rightarrow> bool option \<Rightarrow> (logger, py_exc, handler) io" where
  "setup_logging attr level stream color =
     bind_io (modify (\<lambda>l. l\<lparr>lg_level := level_of attr level,
                            lg_handlers := filter is_null (lg_handlers l)\<rparr>)) (\<lambda>_.
     bind_io (case ls_reconfigure stream of
                Some (Some e) \<Rightarrow> catch_io (throw e) (\<lambda>e. if e = ValueError \<or> is_OSError e then ret () else throw e)
              | _ \<Rightarrow> ret ()) (\<lambda>_.
     let use_color = (case color of Some c \<Rightarrow> c | None \<Rightarrow> ls_isatty stream = Some True);
         h = Stream_handler \<lparr>h_stream = stream, h_level = level_of attr level, h_use_color = use_color\<rparr>
     in bind_io (modify (\<lambda>l. l\<lparr>lg_handlers := lg_handlers l @ [h]\<rparr>)) (\<lambda>_. ret h)))"

section \<open>What is shown\<close>

text \<open>
  However often the library is configured, the logger has its null handlers and one other, the last
  that was made, with the level asked for: no record is written twice.
\<close>

lemma setup_logging_single:
  assumes "setup_logging attr level stream color l = (r, l')"
  shows "(case r of
       Ret h \<Rightarrow> \<not> is_null h \<and> lg_handlers l' = filter is_null (lg_handlers l) @ [h]
     | Raise e \<Rightarrow> e \<noteq> ValueError \<and> \<not> is_OSError e \<and> lg_handlers l' = filter is_null (lg_handlers l)
     | Blocked \<Rightarrow> False)
     \<and> lg_level l' = level_of attr level"
  using assms
  by (auto simp: setup_logging_def bind_io_def catch_io_def Let_def is_null_def split: option.splits if_splits)

lemma setup_logging_twice:
  assumes "setup_logging attr level stream color l = (Ret h, l1)"
    and "setup_logging attr' level' stream' color' l1 = (Ret h', l2)"
  shows "lg_handlers l2 = filter is_null (lg_handlers l) @ [h']"
  using setup_logging_single [OF assms(1)] setup_logging_single [OF assms(2)] by auto

text \<open>Removing the escape sequences \<open>ESC [ \<dots> m\<close> from a text.\<close>

fun plain_text :: "bool \<Rightarrow> string \<Rightarrow> string" where
  "plain_text inside [] = []"
| "plain_text False (c # s) = (if c = escape then plain_text True s else c # plain_text False s)"
| "plain_text True (c # s) = plain_text (c \<noteq> CHR ''m'') s"

lemma plain_text_append: "escape \<notin> set s \<Longrightarrow> plain_text False (s @ t) = s @ plain_text False t"
  by (induction s) auto

lemma plain_text_id: "escape \<notin> set s \<Longrightarrow> plain_text False s = s"
  using plain_text_append [of s "[]"] by simp

text \<open>
  A coloured line shows the time, a badge with the level, the shortened name and the message, as
  the plain line does, and every escape sequence that it opens is closed.
\<close>

lemma badge_append: "LEVEL_BADGES n = Some b \<Longrightarrow> plain_text False (b @ s) = plain_text False b @ plain_text False s"
  by (auto simp: LEVEL_BADGES_def split: if_splits)

lemma log_format_coloured:
  assumes "escape \<notin> set (lr_time r)" and "escape \<notin> set (lr_name r)" and "escape \<notin> set (lr_levelname r)"
    and "escape \<notin> set (lr_message r)" and "\<forall>t. lr_exc_text r = Some t \<longrightarrow> escape \<notin> set t"
  shows "plain_text False (log_format True r)
     = lr_time r @ '' ''
       @ (case LEVEL_BADGES (lr_levelno r) of Some b \<Rightarrow> plain_text False b | None \<Rightarrow> ''['' @ pad5 (lr_levelname r) @ '']'')
       @ '' ['' @ short_name (lr_name r) @ ''] '' @ lr_message r
       @ (case lr_exc_text r of None \<Rightarrow> [] | Some t \<Rightarrow> newline # t)"
proof -
  have "escape \<notin> set (short_name (lr_name r))"
    using assms(2) in_set_dropD [of escape 5 "lr_name r"] by (auto simp: short_name_def)
  moreover have "escape \<notin> set (pad5 (lr_levelname r))" using assms(3) by (auto simp: pad5_def)
  ultimately show ?thesis
    using assms(1,4,5)
    by (auto simp: log_format_def Let_def GRAY_def RESET_def WHITE_BOLD_def badge_append plain_text_append plain_text_id
        split: option.splits)
qed

end
