(* ===== verification/Package.thy ===== *)
theory Package
  imports Logging Types
begin

text \<open>
  \<open>__init__.py\<close>: what \<open>import usmp\<close> binds, what \<open>from usmp import *\<close> hands to a program, and the null handler
  on the logger \<open>usmp\<close>.  \<open>errors_attribute\<close> is the namespace of \<open>errors.py\<close>, with its deprecated alias.
\<close>

section \<open>Namespaces\<close>

text \<open>\<open>Attribute m n\<close> is the object that the module \<open>m\<close> of the package has under the name \<open>n\<close>.\<close>

datatype package_value = Attribute string string | Module string | Names "string list" | Text string

type_synonym namespace = "string \<rightharpoonup> package_value"

definition import_from :: "string \<Rightarrow> string list \<Rightarrow> namespace \<Rightarrow> namespace" where
  "import_from m names ns = fold (\<lambda>n ns. ns(n \<mapsto> Attribute m n)) names ns"

definition package_imports :: "(string \<times> string list) list" where
  "package_imports =
     [(''_client'', [''USMPClient'']),
      (''_frame'', [''decode_frame'', ''encode_frame'', ''read_frame'', ''write_frame'']),
      (''_logging'', [''ColoredFormatter'', ''setup_logging'']),
      (''_server'', [''USMPServer'']),
      (''_session'', [''USMPSession'']),
      (''errors'', [''AuthError'', ''ConnectionClosedError'', ''CRCError'', ''CryptoError'', ''FrameError'',
         ''HandshakeError'', ''MagicError'', ''NotConnectedError'', ''PayloadError'', ''SequenceError'',
         ''TimeoutError'', ''USMPError'', ''USMPTimeoutError'', ''VersionError'']),
      (''transport'', [''register_transport'']),
      (''types'', [''ErrorCode'', ''PacketType'', ''SessionInfo'', ''USMPFrame'', ''USMPProtocol''])]"

definition package_all :: "string list" where
  "package_all =
     [''AuthError'', ''CRCError'', ''ColoredFormatter'', ''ConnectionClosedError'', ''CryptoError'', ''ErrorCode'',
      ''FrameError'', ''HandshakeError'', ''MagicError'', ''NotConnectedError'', ''PacketType'', ''PayloadError'',
      ''SequenceError'', ''SessionInfo'', ''TimeoutError'', ''USMPClient'', ''USMPError'', ''USMPFrame'', ''USMPProtocol'',
      ''USMPServer'', ''USMPSession'', ''USMPTimeoutError'', ''VersionError'', ''decode_frame'', ''encode_frame'',
      ''read_frame'', ''register_transport'', ''setup_logging'', ''write_frame'']"

definition package_version :: string where "package_version = ''1.2.2''"

text \<open>\<open>NullHandler()\<close> makes an object with an identity of its own, so \<open>addHandler\<close> appends it.\<close>

definition add_null_handler :: "nat \<Rightarrow> logger \<Rightarrow> logger" where
  "add_null_handler ident l = l\<lparr>lg_handlers := lg_handlers l @ [Null_handler ident]\<rparr>"

definition package_init :: "nat \<Rightarrow> logger \<Rightarrow> namespace \<times> logger" where
  "package_init ident l =
     ((fold (\<lambda>(m, names). import_from m names) package_imports [''logging'' \<mapsto> Module ''logging''])
        (''__all__'' \<mapsto> Names package_all, ''__version__'' \<mapsto> Text package_version),
      add_null_handler ident l)"

text \<open>\<open>from usmp import *\<close>: the names of \<open>__all__\<close>; one that is missing is an \<open>AttributeError\<close>, here \<open>None\<close>.\<close>

definition star_import :: "namespace \<Rightarrow> namespace \<Rightarrow> namespace option" where
  "star_import ns target =
     (case ns ''__all__'' of
        Some (Names names) \<Rightarrow>
          fold (\<lambda>n acc. case (acc, ns n) of (Some t, Some v) \<Rightarrow> Some (t(n \<mapsto> v)) | _ \<Rightarrow> None) names (Some target)
      | _ \<Rightarrow> None)"

section \<open>Exception classes\<close>

definition errors_attribute :: "string \<Rightarrow> py_exc option" where
  "errors_attribute = map_of
     [(''USMPError'', USMPError), (''FrameError'', FrameError), (''CRCError'', CRCError), (''MagicError'', MagicError),
      (''VersionError'', VersionError), (''PayloadError'', PayloadError), (''HandshakeError'', HandshakeError),
      (''AuthError'', AuthError), (''CryptoError'', CryptoError), (''SequenceError'', SequenceError),
      (''USMPTimeoutError'', USMPTimeoutError), (''TimeoutError'', USMPTimeoutError),
      (''ConnectionClosedError'', ConnectionClosedError), (''NotConnectedError'', NotConnectedError)]"

definition exception_of :: "namespace \<Rightarrow> string \<Rightarrow> py_exc option" where
  "exception_of ns n =
     (case ns n of Some (Attribute m a) \<Rightarrow> if m = ''errors'' then errors_attribute a else None | _ \<Rightarrow> None)"

text \<open>The exported \<open>ErrorCode\<close> of \<open>types.py\<close>.\<close>

datatype wire_error =
  ERR_VERSION | ERR_AUTH | ERR_SEQ | ERR_CRYPTO | ERR_BAD_FRAME | ERR_TIMEOUT | ERR_INTERNAL

fun ErrorCode_value :: "wire_error \<Rightarrow> int" where
  "ErrorCode_value ERR_VERSION = 1"
| "ErrorCode_value ERR_AUTH = 2"
| "ErrorCode_value ERR_SEQ = 3"
| "ErrorCode_value ERR_CRYPTO = 4"
| "ErrorCode_value ERR_BAD_FRAME = 5"
| "ErrorCode_value ERR_TIMEOUT = 6"
| "ErrorCode_value ERR_INTERNAL = 7"

text \<open>The code of an exception is never one of the exported codes: it is of the other enumeration.\<close>

lemma exported_codes_are_others: "error_code e = Some c \<Longrightarrow> usmp_error_code_value c \<noteq> ErrorCode_value w"
  by (cases c; cases w) simp_all

section \<open>What is shown\<close>

lemma star_import_fold:
  assumes "\<forall>n\<in>set names. ns n \<noteq> None"
  shows "fold (\<lambda>n acc. case (acc, ns n) of (Some t, Some v) \<Rightarrow> Some (t(n \<mapsto> v)) | _ \<Rightarrow> None) names (Some t)
    = Some (t ++ ns |` set names)"
  using assms
proof (induction names arbitrary: t)
  case (Cons n names)
  then obtain v where v: "ns n = Some v" by auto
  have "t(n \<mapsto> v) ++ ns |` set names = t ++ ns |` set (n # names)"
    using v by (auto simp: map_add_def restrict_map_def fun_eq_iff split: option.splits)
  with Cons v show ?case by simp
qed (simp add: restrict_map_def)

lemma package_exports_bound: "\<forall>n\<in>set package_all. fst (package_init i l) n \<noteq> None"
  by (simp add: package_all_def package_init_def package_imports_def import_from_def)

text \<open>
  The public surface of the package: \<open>from usmp import *\<close> finds every name it lists and binds those and
  no others; among them are names for all the exceptions of the SDK and for no other
  exception, so that a program can catch each of them; the name \<open>TimeoutError\<close> becomes the one of
  the SDK.
\<close>

theorem package_surface:
  "\<exists>ns. star_import (fst (package_init i l)) Map.empty = Some ns \<and> dom ns = set package_all
    \<and> distinct package_all
    \<and> exception_of ns ` set package_all = insert None (Some ` Collect is_USMPError)
    \<and> exception_of ns ''TimeoutError'' = Some USMPTimeoutError"
proof -
  let ?m = "fst (package_init i l)"
  let ?ns = "?m |` set package_all"
  have listed: "?m ''__all__'' = Some (Names package_all)" by (simp add: package_init_def)
  have "star_import ?m Map.empty = Some ?ns"
    using star_import_fold [OF package_exports_bound, of i l Map.empty] listed by (simp add: star_import_def)
  moreover have "dom ?ns = set package_all"
    using package_exports_bound [of i l] by (auto simp: restrict_map_def split: if_splits)
  moreover have "distinct package_all" by (simp add: package_all_def)
  moreover have ex: "exception_of ?ns n = exception_of ?m n" if "n \<in> set package_all" for n
    using that by (simp add: exception_of_def)
  have "exception_of ?m ` set package_all = insert None (Some ` Collect is_USMPError)"
    by (auto simp: package_all_def exception_of_def package_init_def package_imports_def import_from_def
        errors_attribute_def is_USMPError_def)
  then have "exception_of ?ns ` set package_all = insert None (Some ` Collect is_USMPError)"
    using ex by (metis (no_types, lifting) image_cong)
  moreover have "exception_of ?m ''TimeoutError'' = Some USMPTimeoutError"
    by (simp add: exception_of_def package_init_def package_imports_def import_from_def errors_attribute_def)
  then have "exception_of ?ns ''TimeoutError'' = Some USMPTimeoutError"
    using ex [of "''TimeoutError''"] by (simp add: package_all_def)
  ultimately show ?thesis by blast
qed

text \<open>
  From the import on the logger has a handler, so that no record reaches the handler of last
  resort, however often and with whatever success \<open>setup_logging\<close> is called.
\<close>

lemma package_logger_has_handler:
  assumes "setup_logging attr level stream color l = (r, l')" and "Null_handler ident \<in> set (lg_handlers l)"
  shows "Null_handler ident \<in> set (lg_handlers l')"
  using setup_logging_single [OF assms(1)] assms(2) by (auto simp: is_null_def split: outcome.splits)

lemma package_init_has_handler: "Null_handler ident \<in> set (lg_handlers (snd (package_init ident l)))"
  by (simp add: package_init_def add_null_handler_def)

end
