(* ===== verification/Spec2Isabelle.thy ===== *)
theory Spec2Isabelle
  imports Examples HandshakeGate CoreUdpTalk Arduino ReleaseNotes BundlePorts Package
begin

text \<open>
  This development verifies the Python SDK of USMP, a secure messaging protocol for small
  devices (\<open>src/sdk/python/src/usmp\<close>), the C core that the devices run (\<open>src/core\<close>) and that both
  understand each other.  A client and a server share a key (PSK) of at least 16 bytes per
  device.  They run a handshake over a transport (X25519, an HMAC of the transcript under the
  PSK, HKDF), which gives each side a \<open>SessionInfo\<close> with one key per direction; a session then
  sends and receives messages, cut into frames and sealed with an AEAD, and can rotate its
  keys.  Transports are TCP, or UDP with a stop-and-wait ARQ that acknowledges every datagram
  (UTACK).  A server limits connections per address and in total, locks out addresses after
  failed handshakes, and over UDP keeps no state for an address that has not returned a cookie.
  The scripts that make a release of the repository (\<open>src/scripts\<close>) and the example servers
  (\<open>src/examples\<close>) are modelled as well.

  \<^bold>\<open>Theories and the files they model\<close>

  \<^item> \<open>Prelude\<close>, \<open>Dicts\<close>: byte strings, results of Python code, \<open>struct\<close> integers; dictionaries.
  \<^item> \<open>Errors\<close>: \<open>errors.py\<close>.  \<open>Types\<close>: \<open>types.py\<close>.
  \<^item> \<open>Frame\<close>: \<open>_frame.py\<close>, the CRC-16, \<open>encode_frame\<close>, \<open>decode_frame\<close>, \<open>read_frame\<close>,
    \<open>write_frame\<close>.  \<open>Streams\<close>: the interface between the codec and the streams below it.
  \<^item> \<open>Transport\<close>: \<open>transport/base.py\<close> and \<open>transport/__init__.py\<close>; a transport is a record of
    operations on its state.  \<open>Tcp\<close>: \<open>TCPTransport\<close>.  \<open>Udp\<close>: \<open>UDPStream\<close> of \<open>transport/udp.py\<close>.
  \<^item> \<open>Crypto\<close>: \<open>_crypto.py\<close>.
  \<^item> \<open>Session\<close>: \<open>USMPSession\<close> of \<open>_session.py\<close>; \<open>recv_step\<close> is one pass of the receive loop, and
    its parts are the two \<open>try\<close> blocks and their handlers.  \<open>Window\<close>, \<open>SessionSafety\<close> and
    \<open>Delivery\<close> prove things about it, \<open>UdpSafety\<close> about \<open>Udp\<close> and about sessions over it.
  \<^item> \<open>Limiter\<close> and \<open>Handshake\<close>: \<open>_handshake.py\<close>.  \<open>HandshakeSafety\<close>: its properties.
    \<open>UdpHandshake\<close>: client, listener and server exchanging datagrams until both have a session.
  \<^item> \<open>Server\<close>: \<open>USMPServer\<close> of \<open>_server.py\<close> and the demultiplexer of \<open>UDPListener\<close>.
    \<open>ServerSafety\<close>: its tasks as the step relation \<open>server_step\<close>, and its properties.
  \<^item> \<open>Connection\<close>: the whole coroutine \<open>_on_transport_connect\<close> over TCP (\<open>on_tcp_connect\<close>) and over
    UDP (\<open>on_udp_connect\<close>), and that each run of it is a path of \<open>server_step\<close>.  \<open>Lifecycle\<close>:
    stopping, with the ends of the cancelled tasks as the step relation \<open>drain_step\<close>.
    \<open>Endpoints\<close>: the protocol objects that asyncio calls, \<open>UDPStream.connect\<close>, the listeners, and
    \<open>serve\<close> as a whole: \<open>serve_step\<close> for its phases, and \<open>serve\<close>, which holds of an outcome and the state left.
    \<open>HandshakeGate\<close>: the semaphore of \<open>_server.py\<close> and the queue before it.
  \<^item> \<open>Client\<close>: \<open>USMPClient\<close> of \<open>_client.py\<close>.  \<open>Logging\<close>: \<open>_logging.py\<close>.
  \<^item> \<open>Utf8\<close>: \<open>str.encode\<close> and \<open>bytes.decode\<close>.  \<open>Dialogue\<close>: a client and a session handler that send and
    receive in turns over TCP.  \<open>Examples\<close>: the servers of \<open>examples\<close>, their session handlers and
    the start of the EC2 gateway.
  \<^item> \<open>CoreFrame\<close>: \<open>usmp_frame.c\<close>.  \<open>CoreSession\<close>: \<open>usmp_crypto.c\<close> and \<open>usmp_session.c\<close>, on the struct \<open>usmp_t\<close>
    with its integer widths (\<open>usmp_ctx\<close>); \<open>core_recv_step\<close> is one pass of the loop of \<open>usmp_recv\<close>.  \<open>CoreTcp\<close>:
    \<open>usmp_transport_tcp.c\<close> of the ESP32 port, on a socket whose segments and failures are part of
    the state.  \<open>CoreHandshake\<close>: \<open>usmp_handshake.c\<close> and \<open>usmp_connect.c\<close>.  \<open>CoreRefine\<close> relates the core to the
    SDK (\<open>core_info\<close>), \<open>CoreSafety\<close> proves what holds over any transport.
  \<^item> \<open>CoreUdp\<close>: \<open>usmp_transport_udp.c\<close> of the ESP32 port, the ARQ on a datagram socket; the datagrams and
    errors that arrive, and when, are part of the state.  \<open>CoreUdpLink\<close> and \<open>CoreUdpTalk\<close>: a device and the
    Python server over UDP, the handshake with its cookie and messages with authenticated
    acknowledgements.  \<open>Arduino\<close>: \<open>USMP.cpp\<close>, the class \<open>USMPClient\<close> around the core on any transport; the
    callbacks of a sketch are recorded as a log.
  \<^item> \<open>Package\<close>: \<open>usmp/__init__.py\<close>, what \<open>import usmp\<close> binds.
  \<^item> \<open>Regex\<close>: the part of Python's \<open>re\<close> that the scripts use, a backtracking matcher whose results are
    in the order of the engine.  \<open>ReleaseTag\<close>: \<open>validate-release-tag.py\<close>.  \<open>ReleaseNotes\<close>:
    \<open>extract-release-notes.py\<close>.  \<open>BundlePorts\<close>: \<open>bundle-ports.py\<close>, on directory trees.

  \<^bold>\<open>How Python is modelled\<close>

  A coroutine is a function of the state of its object that returns an outcome and the new
  state.  The outcome is \<open>Ret v\<close>, \<open>Raise e\<close> with one of the exceptions of \<open>Errors\<close>, or
  \<open>Blocked\<close>, waiting for input that does not come; \<open>bind_io\<close>, \<open>catch_io\<close>, \<open>finally_io\<close> and
  \<open>wait_for\<close> are sequencing, \<open>except\<close>, \<open>finally\<close> and \<open>asyncio.wait_for\<close>.  Integers of the program are \<open>int\<close>, bytes
  are lists of 8-bit words, floats are rationals (except where the range of a double matters,
  \<open>float_pow2\<close>).  \<open>time.monotonic()\<close> and the arrival of datagrams are part of the state of a
  stream, and time passes only while a coroutine waits; \<open>wait_for\<close> sets a deadline there, and
  a coroutine whose waiting reaches it is cancelled.  A session sends under its lock, so
  the frames of one message are written back to back.  The server is a step relation, one
  step from one \<open>await\<close> to the next, which is what asyncio runs atomically; its streams live
  in a store and the tables hold their names, as the code compares them by identity.  The
  legacy forms that take a reader and a writer equal the transport form after
  \<open>coerce_transport\<close>.

  \<^bold>\<open>Parameters\<close>

  The primitives of the packages \<open>cryptography\<close> and \<open>hmac\<close> are the fields of the record
  \<open>crypto\<close>, an argument wherever they are called.  What the theorems use of them are the
  predicates \<open>aead_law\<close> (opening a sealed message gives it back), \<open>hkdf_law\<close> and
  \<open>hmac_law\<close> (lengths) and \<open>dh_law\<close> (both sides compute the same secret); witnesses
  instantiate them with concrete functions.  mbedTLS, which the C core calls, is the record
  \<open>mbedtls\<close>, where every call may fail; \<open>mbedtls_law\<close> says that it computes the same algorithms as the
  package of the SDK.  The transport and the hooks of \<open>usmp_port.h\<close> are the record \<open>platform\<close>.  Secrecy and unforgeability are not stated:
  the authentication theorems say which tag was compared with what was received.

  \<^bold>\<open>Interfaces\<close>

  \<open>exact_reader\<close> and \<open>framed_reader\<close> (streams that frames are read from: TCP, and UDP's read
  buffer), \<open>transport\<close> and \<open>transport_invariant\<close> (what sessions rely on and preserve),
  \<open>stream_invariant\<close> (invariants of a UDP stream under each of its events),
  \<open>replay_guard\<close> (a window that refines a set), \<open>session_invariant\<close> (what every method of a
  session preserves, over any transport), \<open>bounded_dict\<close> (tables that strangers can fill);
  for the C core \<open>core_stream\<close> and its extension \<open>core_link\<close> (what a session and a handshake need of a
  reliable transport and of the device) and \<open>core_steps\<close> (what every call preserves).
  Each is interpreted on the model's definitions, several of them more than once.

  \<^bold>\<open>What is shown\<close>

  \<^item> Codec: encoding and decoding invert each other on every frame and on every accepted
    datagram, a burst of two bytes is detected, and streams give back the frames written.
  \<^item> Sessions, over any transport, whatever it does: no AEAD nonce is used twice under a key,
    no sequence number is accepted twice in an epoch, the bitmap refines the set of accepted
    numbers, lengths and ranges are invariant; on unreliable transports forged frames and
    protocol violations neither end nor change a session.
  \<^item> Delivery: what \<open>send\<close> writes is the fragmentation of the message, and the peer's \<open>recv\<close>
    returns the message (TCP, and a datagram over UDP); rekeying keeps the ends paired; the
    receive loop ends.
  \<^item> UDP streams: buffer and timer bounds, whole datagrams, a write ends after at most five
    attempts, and in the session phase returns only on an authenticated acknowledgement.
  \<^item> Handshake: both sides end with matching sessions; each accepts only a peer whose HMAC of
    the transcript is right; which outcomes the limiter counts; its lockouts and its bound.
  \<^item> Server: limits and exact counters in every reachable state, nothing left behind, no state
    and no amplification without a cookie, cookies bound to address and time, their rate,
    the time at which the watchdog closes an idle session.  The session handler runs only
    for a device that proved its PSK with the frames of that connection; a connection's task lets no
    exception escape but its cancellation and the limiter's \<open>OverflowError\<close>, and closes its transport;
    stopping ends after one step per task and leaves no connection, session or open stream, and \<open>serve\<close>
    returns from every state it gets into once it is interrupted and every task has ended, also when
    handlers ignore the cancellation.
  \<^item> The system end to end: a client and the gateway over TCP, from the handshake to both
    transports closed; at most ten handshakes run at a time, first come first served.
  \<^item> The C core: its codec builds and parses the same bytes as \<open>_frame.py\<close>; a device connects to the Python
    server, they exchange messages and change keys together, however TCP cuts the bytes; over
    any transport it repeats no nonce and accepts no sequence number twice under a key.
  \<^item> Devices over UDP: a device connects to the Python server and both exchange messages, every
    frame of which the other side acknowledges; every wait of the device is bounded
    (\<open>core_udp_bounded\<close>), and a sealed frame counts as sent only on an acknowledgement under the
    session's key (\<open>core_udp_send_authenticated\<close>).  The Arduino client reports every session it
    makes and every one it loses, but none that the sketch ends.
  \<^item> Client: the outcomes of \<open>connect\<close>, and that \<open>disconnect\<close> lets go of everything.  Package: what
    \<open>from usmp import *\<close> binds, a name for each exception of the SDK among it (\<open>package_surface\<close>).
  \<^item> Release: the version pattern accepts exactly the versions, the validation succeeds just when
    the manifests of the target, each in its usual form, declare the version of the tag, both scripts read tags alike,
    the notes are the section of the version, bundling copies the whole core and leaves no
    include of \<open>usmp.h\<close>, and cleaning undoes any runs of it.

  \<^bold>\<open>Bounds and fuel\<close>

  \<open>recv_loop\<close> and \<open>recv\<close> take fuel, one unit per frame read.  A frame read shortens the input,
  so one unit more than the bytes that can still arrive is enough (\<open>tcp_recv_terminates\<close>,
  \<open>udp_recv_in_time\<close>).  The ARQ recurses on its five attempts, waiting for a datagram on the
  list of events that arrive, so neither needs fuel.  The loops of the example handlers count
  messages; out of fuel is still running, and more fuel than messages is enough.  \<open>usmp_recv\<close> makes
  ten attempts, and the loops of \<open>usmp_tcp_recv\<close> consume bytes or events.  \<open>core_await_ack\<close> and
  \<open>core_recv_datagram\<close> end by a measure on the time left and the events to come.  The fuel of
  \<open>drain_rx\<close> counts passes of the loop: one unit more than a measure of what can still arrive is
  enough (\<open>drain_rx_returns\<close>).

  \<^bold>\<open>Where the code does not do what it means to\<close>

  \<^item> \<open>udp_rekey_black_hole\<close>: a rekey restarts the sequence numbers but not the stream's
    \<open>_last_rx_seq\<close>, so a UDP stream then acknowledges and drops frames of the new epoch.
  \<^item> \<open>forged_frame_confirms_delivery\<close>: a UDP stream acknowledges, under the session's key, a frame that
    it has not authenticated, and the sender takes this for the delivery of its own frame.
  \<^item> \<open>limiter_overflow\<close>: \<open>2.0 ** (fails - 5)\<close> raises \<open>OverflowError\<close> from the 1029th failure on.
  \<^item> \<open>queue_wait_recorded\<close>: while ten peers stall, waiting behind them counts as a failed handshake.
  \<^item> \<open>long_message_ends_echo\<close>: the gateway ends a session whose message is too long to be echoed;
    \<open>hello_rejects_malformed\<close>: the project servers end one whose message is not UTF-8.
  \<^item> \<open>reconnect_leaves_zero_key\<close>: \<open>usmp_reconnect\<close> without a reconnect hook leaves an established session with
    keys of zeros.  \<open>idle_recv_fails\<close>: \<open>usmp_recv\<close> returns -1, not 0, when nothing arrives over TCP.
  \<^item> \<open>arduino_long_messages\<close>: the Arduino client ends a working session over a message of more than 1808
    bytes, and of one of 65536 bytes or more it sends only the first bytes.  \<open>arduino_close_twice\<close>: closing it twice uses a
    transport that has been deleted.
  \<^item> \<open>reconnect_drops_silently\<close>: \<open>reconnect\<close> of the Arduino client ends a live session and tells nobody.
  \<^item> \<open>exported_codes_are_others\<close>: the exported \<open>ErrorCode\<close> is not the enumeration of the exceptions' codes.
  \<^item> \<open>session_timeout_locks_out\<close>: timeouts of a running session count as failed handshakes.
  \<^item> \<open>clean_disconnect_counts\<close>: so do clean disconnects before HELLO, against the comment.
  \<^item> \<open>client_reconnect_leaks\<close>: \<open>connect\<close> on a connected client forgets the open transport.
  \<^item> \<open>empty_section_takes_next\<close>: the notes of a version whose heading is directly followed by
    another one are those of the next version.
  \<^item> \<open>empty_version_reads_next_line\<close>: an empty \<open>version=\<close> is read from the line below it.
  \<^item> \<open>archive_version_unknown\<close>: the archive is named after \<open>version=\<close> only, without spaces.

  \<^bold>\<open>What is not modelled\<close>

  The sockets and tasks that asyncio makes (the queue before the handshakes is modelled on its own, next
  to the steps of the tasks, and nothing says when a cancelled task gets to its end); signals, other than by the event they set;
  \<open>argparse\<close> and what the scripts and examples print; characters beyond \<open>U+00FF\<close> in the texts the
  scripts read (the shim \<open>usmp_api.h\<close>, which has some, is a parameter).  Of the C core: logging, the
  tests of arguments against \<open>NULL\<close>, and what a failed decryption leaves in the caller's buffer.  Of
  the ports: the transports and WiFi set-up of the Arduino port (\<open>USMPTransport.cpp\<close>), what a
  sketch does inside a callback, and the drivers behind \<open>usmp_port.h\<close>.
\<close>

end
